(* ===== verification/Prelude.thy ===== *)
theory Prelude
  imports Main "HOL-Library.Word" "HOL-Library.Monad_Syntax"
begin

text \<open>
  What every component shares: the machine types, bytes and text, panics as values, and the
  interfaces (locales) several components implement.

  \<^item> \<open>u8 \<dots> u64\<close> are Rust's unsigned integers; a \<open>usize\<close> that only counts the elements of a
    buffer is a \<open>nat\<close>, and where its width can be observed the definitions take it as an argument.
  \<^item> A Rust \<open>String\<close> or \<open>&str\<close> is its UTF-8 bytes, a HOL \<open>string\<close> (one \<open>char\<close> per
    byte), so \<open>len()\<close>, slicing and \<open>is_char_boundary\<close> count what the code counts.
  \<^item> A computation that can panic returns an option, \<open>None\<close> being the panic.
\<close>

section \<open>Machine types\<close>

type_synonym u8 = "8 word"
type_synonym u16 = "16 word"
type_synonym u32 = "32 word"
type_synonym u64 = "64 word"
type_synonym bytes = "u8 list"

named_theorems codec_simps "unfolding rules of the encoders and decoders"
named_theorems step_simps "unfolding rules of the state machines' handlers"
named_theorems inv_intros "preservation of the components' invariants, one rule per operation"

section \<open>Panics\<close>

type_synonym 'a may_panic = "'a option"

abbreviation (input) panic :: "'a may_panic" where
  "panic \<equiv> None"

abbreviation (input) ok :: "'a \<Rightarrow> 'a may_panic" where
  "ok \<equiv> Some"

section \<open>Lists\<close>

lemma take_take_drop: "take n xs @ take m (drop n xs) = take (n + m) xs"
  by (simp add: take_add)

lemma nth_append_left_drop: "i < length xs \<Longrightarrow> (xs @ ys) ! i = xs ! i"
  by (simp add: nth_append)

lemma take_append_exact [simp]: "n = length xs \<Longrightarrow> take n (xs @ ys) = xs"
  by simp

lemma drop_append_exact [simp]: "n = length xs \<Longrightarrow> drop n (xs @ ys) = ys"
  by simp

text \<open>\<open>iter().position(p)\<close>: the index of the first element with the property.\<close>

fun position :: "('a \<Rightarrow> bool) \<Rightarrow> 'a list \<Rightarrow> nat option" where
  "position p [] = None"
| "position p (x # xs) = (if p x then Some 0 else map_option Suc (position p xs))"

lemma position_None: "position p xs = None \<longleftrightarrow> (\<forall>x\<in>set xs. \<not> p x)"
  by (induction xs) auto

lemma position_Some:
  "position p xs = Some i \<Longrightarrow> i < length xs \<and> p (xs ! i) \<and> (\<forall>j<i. \<not> p (xs ! j))"
proof (induction xs arbitrary: i)
  case Nil
  then show ?case by simp
next
  case (Cons x xs)
  show ?case
  proof (cases "p x")
    case True
    with Cons.prems show ?thesis by simp
  next
    case False
    with Cons.prems obtain j where j: "position p xs = Some j" "i = Suc j" by auto
    from Cons.IH [OF j(1)] j(2) False show ?thesis
      by (auto simp: less_Suc_eq_0_disj)
  qed
qed

text \<open>Removing the element at an index: \<open>Vec::remove\<close>.\<close>

definition remove_at :: "nat \<Rightarrow> 'a list \<Rightarrow> 'a list" where
  "remove_at i xs = take i xs @ drop (Suc i) xs"

lemma length_remove_at [simp]: "i < length xs \<Longrightarrow> length (remove_at i xs) = length xs - 1"
  by (simp add: remove_at_def)

lemma set_remove_at: "set (remove_at i xs) \<subseteq> set xs"
  by (auto simp: remove_at_def dest: in_set_takeD in_set_dropD)

lemma nth_remove_at:
  assumes "i < length xs" and "j < length xs - 1"
  shows "remove_at i xs ! j = (if j < i then xs ! j else xs ! Suc j)"
  using assms by (auto simp: remove_at_def nth_append min_def)

lemma distinct_map_remove_at: "distinct (map f xs) \<Longrightarrow> distinct (map f (remove_at i xs))"
proof -
  assume d: "distinct (map f xs)"
  have "map f (remove_at i xs) = take i (map f xs) @ drop (Suc i) (map f xs)"
    by (simp add: remove_at_def take_map drop_map)
  moreover have "set (take i (map f xs)) \<inter> set (drop (Suc i) (map f xs)) = {}"
    using d by (simp add: set_take_disj_set_drop_if_distinct)
  ultimately show ?thesis using d by (simp add: distinct_take distinct_drop del: take_map drop_map)
qed

section \<open>Big-endian integers\<close>

text \<open>\<open>to_be_bytes\<close> and \<open>from_be_bytes\<close> at any width; \<open>be_of_nat k v\<close> is the low \<open>k\<close> bytes.\<close>

fun be_of_nat :: "nat \<Rightarrow> nat \<Rightarrow> bytes" where
  "be_of_nat 0 v = []"
| "be_of_nat (Suc k) v = be_of_nat k (v div 256) @ [of_nat (v mod 256)]"

definition nat_of_be :: "bytes \<Rightarrow> nat" where
  "nat_of_be bs = foldl (\<lambda>acc b. acc * 256 + unat b) 0 bs"

lemma length_be_of_nat [simp]: "length (be_of_nat k v) = k"
  by (induction k arbitrary: v) auto

lemma nat_of_be_Nil [simp]: "nat_of_be [] = 0"
  by (simp add: nat_of_be_def)

lemma nat_of_be_snoc [simp]: "nat_of_be (bs @ [b]) = nat_of_be bs * 256 + unat b"
  by (simp add: nat_of_be_def)

lemma unat_u8_bound: "unat (b :: u8) < 256"
proof -
  have "unat b < 2 ^ LENGTH(8)" by (rule unsigned_less)
  then show ?thesis by simp
qed

lemma unat_of_nat_u8 [simp]: "unat (of_nat (v mod 256) :: u8) = v mod 256"
  by (simp add: unat_of_nat)

lemma nat_of_be_be_of_nat: "nat_of_be (be_of_nat k v) = v mod 256 ^ k"
proof (induction k arbitrary: v)
  case 0
  then show ?case by simp
next
  case (Suc k)
  have "v mod 256 ^ Suc k = 256 * (v div 256 mod 256 ^ k) + v mod 256"
    by (simp add: mod_mult2_eq)
  with Suc show ?case by (simp add: mult.commute)
qed

lemma nat_of_be_bound: "nat_of_be bs < 256 ^ length bs"
proof (induction bs rule: rev_induct)
  case Nil
  then show ?case by simp
next
  case (snoc b bs)
  have "nat_of_be bs * 256 + unat b < (nat_of_be bs + 1) * 256"
    using unat_u8_bound [of b] by simp
  also have "\<dots> \<le> 256 ^ length bs * 256"
    using snoc by (intro mult_le_mono1) simp
  finally show ?case by (simp add: mult.commute)
qed

lemma be_of_nat_nat_of_be: "be_of_nat (length bs) (nat_of_be bs) = bs"
proof (induction bs rule: rev_induct)
  case Nil
  then show ?case by simp
next
  case (snoc b bs)
  have "(nat_of_be bs * 256 + unat b) div 256 = nat_of_be bs"
    and "(nat_of_be bs * 256 + unat b) mod 256 = unat b"
    using unat_u8_bound [of b] by simp_all
  with snoc show ?case by simp
qed

lemma nat_of_be_be_of_nat_id: "v < 256 ^ k \<Longrightarrow> nat_of_be (be_of_nat k v) = v"
  by (simp add: nat_of_be_be_of_nat)

definition u16_be :: "u16 \<Rightarrow> bytes" where
  "u16_be x = be_of_nat 2 (unat x)"

definition u32_be :: "u32 \<Rightarrow> bytes" where
  "u32_be x = be_of_nat 4 (unat x)"

definition u32_of_be :: "bytes \<Rightarrow> u32" where
  "u32_of_be bs = of_nat (nat_of_be bs)"

lemma length_u16_be [simp]: "length (u16_be x) = 2"
  by (simp add: u16_be_def)

lemma length_u32_be [simp]: "length (u32_be x) = 4"
  by (simp add: u32_be_def)

lemma u32_of_be_u32_be [simp]: "u32_of_be (u32_be x) = x"
proof -
  have "unat x < 2 ^ LENGTH(32)" by (rule unsigned_less)
  then have "unat x < 256 ^ 4" by simp
  then show ?thesis by (simp add: u32_of_be_def u32_be_def nat_of_be_be_of_nat_id)
qed

lemma unat_u32_of_be: "length bs = 4 \<Longrightarrow> unat (u32_of_be bs) = nat_of_be bs"
  using nat_of_be_bound [of bs] by (simp add: u32_of_be_def unat_of_nat)

section \<open>Buffers\<close>

text \<open>\<open>dst[at..at + src.len()].copy_from_slice(src)\<close> on a fixed buffer, and \<open>[0u8; n]\<close>.\<close>

definition copy_at :: "nat \<Rightarrow> 'a list \<Rightarrow> 'a list \<Rightarrow> 'a list" where
  "copy_at i src dst = take i dst @ src @ drop (i + length src) dst"

abbreviation zeros :: "nat \<Rightarrow> bytes" where
  "zeros n \<equiv> replicate n 0"

lemma length_copy_at [simp]:
  "i + length src \<le> length dst \<Longrightarrow> length (copy_at i src dst) = length dst"
  by (simp add: copy_at_def)

text \<open>\<open>&xs[a..b]\<close> for indices in range.\<close>

definition subslice :: "nat \<Rightarrow> nat \<Rightarrow> 'a list \<Rightarrow> 'a list" where
  "subslice a b xs = take (b - a) (drop a xs)"

lemma length_subslice [simp]: "length (subslice a b xs) = min (b - a) (length xs - a)"
  by (simp add: subslice_def min.commute)

section \<open>Bits of a byte\<close>

unbundle bit_operations_syntax

lemma u8_bit_7: "bit (x :: u8) 7 \<longleftrightarrow> 128 \<le> unat x"
proof -
  have "bit x 7 \<longleftrightarrow> bit (unat x) 7" by (simp add: bit_unsigned_iff)
  also have "\<dots> \<longleftrightarrow> odd (unat x div 128)" by (simp add: bit_iff_odd)
  also have "\<dots> \<longleftrightarrow> 128 \<le> unat x"
  proof (cases "128 \<le> unat x")
    case True
    then have "unat x div 128 = 1" using unat_u8_bound [of x] by (intro div_nat_eqI) simp_all
    with True show ?thesis by simp
  qed simp
  finally show ?thesis .
qed

lemma u8_and_128: "(x :: u8) AND 128 = 0 \<longleftrightarrow> x < 128"
proof -
  have "x AND 128 = 0 \<longleftrightarrow> \<not> bit x 7"
    using and_exp_eq_0_iff_not_bit [of x 7] by simp
  then show ?thesis by (simp add: u8_bit_7 word_less_nat_alt not_le)
qed

end
