(* ===== verification/Interfaces.thy ===== *)
theory Interfaces
  imports Prelude
begin

text \<open>
  The interfaces several components implement, as locales: an encoder with its decoder, a decoder
  that reads one item off the front of a stream, and a state machine driven one event at a time.
  Each locale is interpreted in the theory of the component that provides the operations.
\<close>

section \<open>Encoders and decoders\<close>

text \<open>What the reader gets back is what the writer wrote, for every value the writer accepts.\<close>

locale codec =
  fixes enc :: "'a \<Rightarrow> 'b"
    and dec :: "'b \<Rightarrow> 'a option"
    and valid :: "'a \<Rightarrow> bool"
  assumes dec_enc: "valid x \<Longrightarrow> dec (enc x) = Some x"
begin

lemma enc_injective: "valid x \<Longrightarrow> valid y \<Longrightarrow> enc x = enc y \<Longrightarrow> x = y"
  by (metis dec_enc option.inject)

lemma inj_on_enc: "inj_on enc {x. valid x}"
  by (auto intro!: inj_onI enc_injective)

lemma enc_decodes: "valid x \<Longrightarrow> dec (enc x) \<noteq> None"
  by (simp add: dec_enc)

end

text \<open>A decoder that accepts nothing but what the encoder writes.\<close>

locale canonical_codec = codec +
  assumes enc_dec: "dec y = Some x \<Longrightarrow> valid x \<and> enc x = y"
begin

lemma dec_injective: "dec y = Some x \<Longrightarrow> dec z = Some x \<Longrightarrow> y = z"
  using enc_dec by blast

lemma dec_iff: "dec y = Some x \<longleftrightarrow> valid x \<and> enc x = y"
  using enc_dec dec_enc by blast

end

text \<open>
  A decoder of a byte stream: it reads one item off the front and says how many bytes it used,
  whatever follows; on a proper prefix of an item it asks for more (\<open>None\<close>).
\<close>

locale stream_codec =
  fixes enc :: "'a \<Rightarrow> 'c list"
    and dec :: "'c list \<Rightarrow> ('a \<times> nat) option"
    and valid :: "'a \<Rightarrow> bool"
  assumes dec_front: "valid x \<Longrightarrow> dec (enc x @ rest) = Some (x, length (enc x))"
begin

lemma dec_whole: "valid x \<Longrightarrow> dec (enc x) = Some (x, length (enc x))"
  using dec_front [of x "[]"] by simp

lemma enc_prefix_free:
  assumes "valid x" and "valid y" and "enc x @ r = enc y @ s"
  shows "x = y \<and> r = s"
  using dec_front [OF assms(1), of r] dec_front [OF assms(2), of s] assms(3) by auto

end

section \<open>Event machines\<close>

text \<open>
  A component of the core is a state and a handler: the handler takes the state and one event and
  gives its answer and the next state. \<open>run\<close> feeds it a list of events.
\<close>

fun run :: "('s \<Rightarrow> 'e \<Rightarrow> 'o \<times> 's) \<Rightarrow> 's \<Rightarrow> 'e list \<Rightarrow> 'o list \<times> 's" where
  "run step s [] = ([], s)"
| "run step s (e # es) =
     (let (out, s1) = step s e; (outs, s2) = run step s1 es in (out # outs, s2))"

lemma run_append:
  "run step s (es @ fs) =
     (let (o1, s1) = run step s es; (o2, s2) = run step s1 fs in (o1 @ o2, s2))"
  by (induction es arbitrary: s) (auto simp: Let_def split: prod.splits)

lemma length_run [simp]: "length (fst (run step s es)) = length es"
  by (induction es arbitrary: s) (auto simp: Let_def split: prod.splits, metis fst_conv)

inductive reachable :: "('s \<Rightarrow> 'e \<Rightarrow> 'o \<times> 's) \<Rightarrow> 's \<Rightarrow> 's \<Rightarrow> bool" for step init where
  reachable_init: "reachable step init init"
| reachable_step: "reachable step init s \<Longrightarrow> reachable step init (snd (step s e))"

lemma reachable_run: "reachable step init s \<Longrightarrow> reachable step init (snd (run step s es))"
proof (induction es arbitrary: s)
  case Nil
  then show ?case by simp
next
  case (Cons e es)
  from Cons.prems have "reachable step init (snd (step s e))" by (rule reachable_step)
  from Cons.IH [OF this] show ?case by (simp add: Let_def split: prod.splits) (metis snd_conv)
qed

text \<open>A machine with an invariant its handler keeps.\<close>

locale event_machine =
  fixes step :: "'s \<Rightarrow> 'e \<Rightarrow> 'o \<times> 's"
    and init :: 's
    and inv :: "'s \<Rightarrow> bool"
  assumes inv_init: "inv init"
    and inv_step: "inv s \<Longrightarrow> inv (snd (step s e))"
begin

lemma inv_reachable: "reachable step init s \<Longrightarrow> inv s"
  by (induction rule: reachable.induct) (auto intro: inv_init inv_step)

lemma inv_run: "inv s \<Longrightarrow> inv (snd (run step s es))"
proof (induction es arbitrary: s)
  case Nil
  then show ?case by simp
next
  case (Cons e es)
  from Cons.IH [OF inv_step [OF Cons.prems]] show ?case
    by (simp add: Let_def split: prod.splits) (metis snd_conv)
qed

lemma inv_run_init: "inv (snd (run step init es))"
  by (rule inv_run [OF inv_init])

end

text \<open>
  A machine whose invariant decides what it may answer: \<open>safe\<close> relates a state, an event and an
  answer, and holds of every answer given along any run.
\<close>

locale safe_machine = event_machine +
  fixes safe :: "'a \<Rightarrow> 'b \<Rightarrow> 'c \<Rightarrow> bool"
  assumes safe_step: "inv s \<Longrightarrow> safe s e (fst (step s e))"
begin

lemma safe_reachable: "reachable step init s \<Longrightarrow> safe s e (fst (step s e))"
  by (rule safe_step) (rule inv_reachable)

end

end
