(* ===== verification/Text.thy ===== *)
theory Text
  imports Interfaces
begin

text \<open>
  The operations of Rust's \<open>str\<close> and integer parsing the modelled code uses, on UTF-8 bytes:
  prefixes, trimming (Unicode white space, by its UTF-8 encodings), ASCII case, splitting,
  character boundaries, \<open>from_str_radix\<close> and the decimal and hexadecimal renderings.
\<close>

section \<open>Characters\<close>

abbreviation byte_of :: "char \<Rightarrow> nat" where
  "byte_of c \<equiv> of_char c"

definition as_bytes :: "string \<Rightarrow> bytes" where
  "as_bytes s = map (\<lambda>c. of_nat (byte_of c)) s"

text \<open>The characters of a byte buffer.\<close>

definition string_of_bytes :: "bytes \<Rightarrow> string" where
  "string_of_bytes bs = map (\<lambda>b. char_of (unat b)) bs"

text \<open>\<open>char::to_digit(radix)\<close> on an ASCII character (any other byte is no digit).\<close>

definition to_digit :: "nat \<Rightarrow> char \<Rightarrow> nat option" where
  "to_digit radix c =
     (let n = byte_of c;
          d = (if 48 \<le> n \<and> n \<le> 57 then Some (n - 48)
               else if 97 \<le> n \<and> n \<le> 122 then Some (n - 87)
               else if 65 \<le> n \<and> n \<le> 90 then Some (n - 55)
               else None)
      in case d of Some v \<Rightarrow> if v < radix then Some v else None | None \<Rightarrow> None)"

definition is_digit :: "nat \<Rightarrow> char \<Rightarrow> bool" where
  "is_digit radix c \<longleftrightarrow> to_digit radix c \<noteq> None"

definition is_ascii_hexdigit :: "char \<Rightarrow> bool" where
  "is_ascii_hexdigit c = is_digit 16 c"

definition is_ascii_digit :: "char \<Rightarrow> bool" where
  "is_ascii_digit c = is_digit 10 c"

definition to_ascii_lowercase_char :: "char \<Rightarrow> char" where
  "to_ascii_lowercase_char c = (if 65 \<le> byte_of c \<and> byte_of c \<le> 90 then char_of (byte_of c + 32) else c)"

definition to_ascii_lowercase :: "string \<Rightarrow> string" where
  "to_ascii_lowercase s = map to_ascii_lowercase_char s"

definition eq_ignore_ascii_case :: "string \<Rightarrow> string \<Rightarrow> bool" where
  "eq_ignore_ascii_case a b \<longleftrightarrow> to_ascii_lowercase a = to_ascii_lowercase b"

lemma eq_ignore_ascii_case_refl [simp]: "eq_ignore_ascii_case s s"
  by (simp add: eq_ignore_ascii_case_def)

lemma eq_ignore_ascii_case_sym: "eq_ignore_ascii_case a b = eq_ignore_ascii_case b a"
  by (auto simp: eq_ignore_ascii_case_def)

lemma eq_ignore_ascii_case_trans:
  "eq_ignore_ascii_case a b \<Longrightarrow> eq_ignore_ascii_case b c \<Longrightarrow> eq_ignore_ascii_case a c"
  by (simp add: eq_ignore_ascii_case_def)

lemma byte_of_bound: "byte_of c < 256"
  using of_char_mod_256 [where 'a = nat, of c] by (metis mod_less_divisor zero_less_numeral)

lemma length_as_bytes [simp]: "length (as_bytes s) = length s"
  by (simp add: as_bytes_def)

lemma string_of_as_bytes [simp]: "string_of_bytes (as_bytes s) = s"
proof -
  have "char_of (unat (of_nat (byte_of c) :: u8)) = c" for c
    using byte_of_bound [of c] by (simp add: unat_of_nat)
  then show ?thesis by (simp add: string_of_bytes_def as_bytes_def comp_def)
qed

lemma to_ascii_lowercase_char_idem [simp]:
  "to_ascii_lowercase_char (to_ascii_lowercase_char c) = to_ascii_lowercase_char c"
proof (cases "65 \<le> byte_of c \<and> byte_of c \<le> 90")
  case True
  then have "of_char (char_of (byte_of c + 32) :: char) = byte_of c + 32" by simp
  with True show ?thesis by (simp add: to_ascii_lowercase_char_def)
qed (auto simp: to_ascii_lowercase_char_def)

lemma to_ascii_lowercase_idem [simp]: "to_ascii_lowercase (to_ascii_lowercase s) = to_ascii_lowercase s"
  by (simp add: to_ascii_lowercase_def)

lemma eq_ignore_ascii_case_lower [simp]: "eq_ignore_ascii_case (to_ascii_lowercase s) s"
  by (simp add: eq_ignore_ascii_case_def)

section \<open>Prefixes, trimming, splitting\<close>

definition starts_with :: "string \<Rightarrow> string \<Rightarrow> bool" where
  "starts_with s p \<longleftrightarrow> take (length p) s = p"

definition ends_with :: "string \<Rightarrow> string \<Rightarrow> bool" where
  "ends_with s p \<longleftrightarrow> length p \<le> length s \<and> drop (length s - length p) s = p"

definition strip_prefix :: "string \<Rightarrow> string \<Rightarrow> string option" where
  "strip_prefix s p = (if starts_with s p then Some (drop (length p) s) else None)"

lemma strip_prefix_Some: "strip_prefix s p = Some r \<longleftrightarrow> s = p @ r"
  by (auto simp: strip_prefix_def starts_with_def split: if_splits) (metis append_take_drop_id)

lemma ends_with_iff: "ends_with s p \<longleftrightarrow> (\<exists>a. s = a @ p)"
proof
  assume "ends_with s p"
  then have "s = take (length s - length p) s @ p" by (metis append_take_drop_id ends_with_def)
  then show "\<exists>a. s = a @ p" ..
qed (auto simp: ends_with_def)

lemma starts_with_iff: "starts_with s p \<longleftrightarrow> (\<exists>r. s = p @ r)"
  by (metis append_eq_conv_conj starts_with_def append_take_drop_id)

definition unwrap_or :: "'a option \<Rightarrow> 'a \<Rightarrow> 'a" where
  "unwrap_or x d = (case x of Some v \<Rightarrow> v | None \<Rightarrow> d)"

lemma unwrap_or_simps [simp]: "unwrap_or (Some x) d = x" "unwrap_or None d = d"
  by (simp_all add: unwrap_or_def)

text \<open>\<open>trim_start_matches(c)\<close> and \<open>trim_end_matches(c)\<close> for one character.\<close>

definition trim_start_char :: "char \<Rightarrow> string \<Rightarrow> string" where
  "trim_start_char c s = dropWhile (\<lambda>x. x = c) s"

definition trim_end_char :: "char \<Rightarrow> string \<Rightarrow> string" where
  "trim_end_char c s = rev (dropWhile (\<lambda>x. x = c) (rev s))"

text \<open>\<open>trim_start_matches("0x")\<close>: the pattern is stripped as often as it stands in front.\<close>

fun trim_start_0x :: "string \<Rightarrow> string" where
  "trim_start_0x (a # b # s) =
     (if a = CHR ''0'' \<and> b = CHR ''x'' then trim_start_0x s else a # b # s)"
| "trim_start_0x s = s"

text \<open>The UTF-8 encodings of the code points with the property White\_Space.\<close>

definition white_space :: "string list" where
  "white_space =
     [[CHR 0x09], [CHR 0x0A], [CHR 0x0B], [CHR 0x0C], [CHR 0x0D], [CHR 0x20],
      [CHR 0xC2, CHR 0x85], [CHR 0xC2, CHR 0xA0], [CHR 0xE1, CHR 0x9A, CHR 0x80]]
     @ map (\<lambda>n. [CHR 0xE2, CHR 0x80, char_of (n :: nat)]) [0x80..<0x8B]
     @ [[CHR 0xE2, CHR 0x80, CHR 0xA8], [CHR 0xE2, CHR 0x80, CHR 0xA9], [CHR 0xE2, CHR 0x80, CHR 0xAF],
        [CHR 0xE2, CHR 0x81, CHR 0x9F], [CHR 0xE3, CHR 0x80, CHR 0x80]]"

fun strip_any :: "string list \<Rightarrow> string \<Rightarrow> string option" where
  "strip_any [] s = None"
| "strip_any (w # ws) s =
     (if w \<noteq> [] \<and> take (length w) s = w then Some (drop (length w) s) else strip_any ws s)"

lemma strip_any_shorter: "strip_any ws s = Some r \<Longrightarrow> length r < length s"
proof (induction ws)
  case Nil
  then show ?case by simp
next
  case (Cons w ws)
  show ?case
  proof (cases "w \<noteq> [] \<and> take (length w) s = w")
    case True
    then have "0 < length w" and "length w \<le> length s"
      by (auto simp: min_def dest: arg_cong [where f = length] split: if_splits)
    then have "length s - length w < length s" by arith
    with True Cons.prems show ?thesis by auto
  qed (use Cons in auto)
qed

function trim_with :: "string list \<Rightarrow> string \<Rightarrow> string" where
  "trim_with ws s = (case strip_any ws s of Some r \<Rightarrow> trim_with ws r | None \<Rightarrow> s)"
  by pat_completeness auto
termination
  by (relation "measure (\<lambda>(ws, s). length s)") (auto dest: strip_any_shorter)

declare trim_with.simps [simp del]

definition trim_start :: "string \<Rightarrow> string" where
  "trim_start s = trim_with white_space s"

definition trim_end :: "string \<Rightarrow> string" where
  "trim_end s = rev (trim_with (map rev white_space) (rev s))"

definition trim :: "string \<Rightarrow> string" where
  "trim s = trim_end (trim_start s)"

lemma trim_with_Nil [simp]: "trim_with ws [] = []"
proof -
  have "strip_any ws [] = None" by (induction ws) auto
  then show ?thesis by (simp add: trim_with.simps)
qed

lemma trim_Nil [simp]: "trim [] = []"
  by (simp add: trim_def trim_start_def trim_end_def)

text \<open>\<open>split_once(sep)\<close>: the text before and after the first occurrence of the separator.\<close>

fun split_once :: "string \<Rightarrow> string \<Rightarrow> (string \<times> string) option" where
  "split_once [] sep = (if sep = [] then Some ([], []) else None)"
| "split_once (c # s) sep =
     (if starts_with (c # s) sep then Some ([], drop (length sep) (c # s))
      else map_option (\<lambda>(a, b). (c # a, b)) (split_once s sep))"

definition contains :: "string \<Rightarrow> string \<Rightarrow> bool" where
  "contains s sep \<longleftrightarrow> split_once s sep \<noteq> None"

lemma split_once_append:
  "split_once s sep = Some (a, b) \<Longrightarrow> s = a @ sep @ b"
proof (induction s arbitrary: a b)
  case Nil
  then show ?case by (auto split: if_splits)
next
  case (Cons c s)
  then show ?case
    by (auto simp: starts_with_def split: if_splits prod.splits)
      (metis append_take_drop_id take_Suc_Cons length_Cons)
qed

text \<open>\<open>is_char_boundary(i)\<close>: the start, the end, or a byte that does not continue a character.\<close>

definition is_char_boundary :: "string \<Rightarrow> nat \<Rightarrow> bool" where
  "is_char_boundary s i \<longleftrightarrow>
     i = 0 \<or> i = length s
     \<or> (i < length s \<and> \<not> (128 \<le> byte_of (s ! i) \<and> byte_of (s ! i) < 192))"

text \<open>\<open>&s[a..b]\<close>: panics off a character boundary or out of range.\<close>

definition str_slice :: "string \<Rightarrow> nat \<Rightarrow> nat \<Rightarrow> string may_panic" where
  "str_slice s a b =
     (if a \<le> b \<and> b \<le> length s \<and> is_char_boundary s a \<and> is_char_boundary s b
      then ok (subslice a b s) else panic)"

section \<open>Numbers in text\<close>

definition digits_value :: "nat \<Rightarrow> nat list \<Rightarrow> nat" where
  "digits_value radix ds = foldl (\<lambda>acc d. acc * radix + d) 0 ds"

fun parse_digits :: "nat \<Rightarrow> string \<Rightarrow> nat list option" where
  "parse_digits radix [] = Some []"
| "parse_digits radix (c # s) =
     (case to_digit radix c of None \<Rightarrow> None
      | Some d \<Rightarrow> map_option ((#) d) (parse_digits radix s))"

text \<open>
  \<open>uN::from_str_radix\<close>: one leading \<open>+\<close> is allowed before the digits, at least one digit is
  required, and a value past the type's largest is an error.
\<close>

definition from_str_radix :: "nat \<Rightarrow> nat \<Rightarrow> string \<Rightarrow> nat option" where
  "from_str_radix bits radix s =
     (let body = (case s of [] \<Rightarrow> [] | c # r \<Rightarrow> if c = CHR ''+'' then r else s)
      in if body = [] then None
         else (case parse_digits radix body of
             None \<Rightarrow> None
           | Some ds \<Rightarrow> if digits_value radix ds < 2 ^ bits then Some (digits_value radix ds) else None))"

definition hex_digit :: "nat \<Rightarrow> char" where
  "hex_digit d = (if d < 10 then char_of (48 + d) else char_of (87 + d))"

text \<open>The digits of a number, most significant first, none for zero.\<close>

function digits_of :: "nat \<Rightarrow> nat \<Rightarrow> nat list" where
  "digits_of radix n = (if n = 0 \<or> radix < 2 then [] else digits_of radix (n div radix) @ [n mod radix])"
  by pat_completeness auto
termination
  by (relation "measure (\<lambda>(radix, n). n)") auto

declare digits_of.simps [simp del]

definition show_radix :: "nat \<Rightarrow> nat \<Rightarrow> string" where
  "show_radix radix n = (if n = 0 then ''0'' else map hex_digit (digits_of radix n))"

definition show_nat :: "nat \<Rightarrow> string" where
  "show_nat n = show_radix 10 n"

definition show_hex :: "nat \<Rightarrow> string" where
  "show_hex n = show_radix 16 n"

section \<open>Digits written and read\<close>

lemma byte_of_char_of [simp]: "n < 256 \<Longrightarrow> byte_of (char_of n) = n"
  by simp

lemma to_digit_hex_digit [simp]: "d < radix \<Longrightarrow> radix \<le> 16 \<Longrightarrow> to_digit radix (hex_digit d) = Some d"
  by (auto simp: to_digit_def hex_digit_def Let_def)

lemma parse_digits_map_hex_digit:
  "\<forall>d\<in>set ds. d < radix \<Longrightarrow> radix \<le> 16 \<Longrightarrow> parse_digits radix (map hex_digit ds) = Some ds"
  by (induction ds) auto

lemma parse_digits_lt: "parse_digits radix s = Some ds \<Longrightarrow> d \<in> set ds \<Longrightarrow> d < radix"
proof (induction s arbitrary: ds)
  case Nil
  then show ?case by simp
next
  case (Cons c s)
  have "to_digit radix c = Some v \<Longrightarrow> v < radix" for v
    by (auto simp: to_digit_def Let_def split: option.splits if_splits)
  with Cons show ?case by (auto split: option.splits)
qed

lemma parse_digits_None: "parse_digits radix s = None \<longleftrightarrow> (\<exists>c\<in>set s. \<not> is_digit radix c)"
  by (induction s) (auto simp: is_digit_def split: option.splits)

lemma parse_digits_length: "parse_digits radix s = Some ds \<Longrightarrow> length ds = length s"
  by (induction s arbitrary: ds) (auto split: option.splits)

lemma digits_value_Nil [simp]: "digits_value radix [] = 0"
  by (simp add: digits_value_def)

lemma digits_value_snoc [simp]: "digits_value radix (ds @ [d]) = digits_value radix ds * radix + d"
  by (simp add: digits_value_def)

lemma digits_value_Cons:
  "digits_value radix (d # ds) = d * radix ^ length ds + digits_value radix ds"
  by (induction ds rule: rev_induct) (simp_all add: digits_value_def algebra_simps)

lemma digits_value_bound:
  "\<forall>d\<in>set ds. d < radix \<Longrightarrow> digits_value radix ds < radix ^ length ds"
proof (induction ds rule: rev_induct)
  case Nil
  then show ?case by simp
next
  case (snoc d ds)
  then have "digits_value radix ds < radix ^ length ds" and "d < radix" by simp_all
  then have "digits_value radix ds * radix + d < (digits_value radix ds + 1) * radix" by simp
  also have "\<dots> \<le> radix ^ length ds * radix"
    using \<open>digits_value radix ds < radix ^ length ds\<close> by (intro mult_le_mono1) simp
  finally show ?case by (simp add: mult.commute)
qed

lemma digits_value_digits_of: "2 \<le> radix \<Longrightarrow> digits_value radix (digits_of radix n) = n"
proof (induction radix n rule: digits_of.induct)
  case (1 radix n)
  show ?case
  proof (cases "n = 0")
    case True
    then show ?thesis by (simp add: digits_of.simps [of radix 0])
  next
    case False
    with 1 show ?thesis by (simp add: digits_of.simps [of radix n])
  qed
qed

lemma digits_of_lt: "d \<in> set (digits_of radix n) \<Longrightarrow> d < radix"
proof (induction radix n rule: digits_of.induct)
  case (1 radix n)
  then show ?case by (auto simp: digits_of.simps [of radix n] split: if_splits)
qed

lemma digits_of_Nil [simp]: "2 \<le> radix \<Longrightarrow> digits_of radix n = [] \<longleftrightarrow> n = 0"
  by (simp add: digits_of.simps [of radix n])

lemma hd_digits_of: "2 \<le> radix \<Longrightarrow> n \<noteq> 0 \<Longrightarrow> hd (digits_of radix n) \<noteq> 0"
proof (induction radix n rule: digits_of.induct)
  case (1 radix n)
  show ?case
  proof (cases "n div radix = 0")
    case True
    with "1.prems" show ?thesis
      by (simp add: digits_of.simps [of radix n] digits_of.simps [of radix 0] div_eq_0_iff)
  next
    case False
    with 1 show ?thesis by (simp add: digits_of.simps [of radix n] hd_append)
  qed
qed

lemma hex_digit_not_plus [simp]: "d < 16 \<Longrightarrow> hex_digit d \<noteq> CHR ''+''"
proof
  assume "d < 16" and "hex_digit d = CHR ''+''"
  then have "byte_of (hex_digit d) = 43" by simp
  with \<open>d < 16\<close> show False by (auto simp: hex_digit_def split: if_splits)
qed

lemma hex_digit_0: "hex_digit 0 = CHR ''0''"
  by (simp add: hex_digit_def char_of_def bit_0)

lemma show_radix_eq:
  "2 \<le> radix \<Longrightarrow> show_radix radix n = map hex_digit (if n = 0 then [0] else digits_of radix n)"
  by (simp add: show_radix_def hex_digit_0)

lemma from_str_radix_show:
  assumes "2 \<le> radix" and "radix \<le> 16" and "n < 2 ^ bits"
  shows "from_str_radix bits radix (show_radix radix n) = Some n"
proof -
  define ds where "ds = (if n = 0 then [0] else digits_of radix n)"
  have lt: "\<forall>d\<in>set ds. d < radix" using assms digits_of_lt by (auto simp: ds_def)
  have ne: "ds \<noteq> []" using assms by (simp add: ds_def)
  have val: "digits_value radix ds = n"
  proof (cases "n = 0")
    case True
    then show ?thesis by (simp add: ds_def digits_value_def)
  next
    case False
    with assms show ?thesis by (simp add: ds_def digits_value_digits_of)
  qed
  obtain d r where dr: "ds = d # r" using ne by (cases ds) auto
  have "d < 16" using lt assms(2) dr by simp
  then have "hex_digit d \<noteq> CHR ''+''" by simp
  with dr lt assms val show ?thesis
    using parse_digits_map_hex_digit [OF lt assms(2)]
    by (simp add: from_str_radix_def show_radix_eq Let_def flip: ds_def)
qed

lemma show_nat_digits: "c \<in> set (show_nat n) \<Longrightarrow> is_ascii_digit c"
proof (cases "n = 0")
  case False
  assume "c \<in> set (show_nat n)"
  with False obtain d where "d \<in> set (digits_of 10 n)" "c = hex_digit d" by (auto simp: show_nat_def show_radix_def)
  then show ?thesis using digits_of_lt [of d 10 n] by (simp add: is_ascii_digit_def is_digit_def)
qed (simp add: show_nat_def show_radix_def is_ascii_digit_def is_digit_def to_digit_def)

lemma show_nat_nonempty: "show_nat n \<noteq> []"
  by (simp add: show_nat_def show_radix_def)

section \<open>Trimming what has no white space at its ends\<close>

definition printable :: "char \<Rightarrow> bool" where
  "printable c \<longleftrightarrow> 32 < byte_of c \<and> byte_of c < 128"

lemma white_space_not_printable:
  "w \<in> set white_space \<Longrightarrow> w \<noteq> [] \<and> \<not> printable (hd w) \<and> \<not> printable (last w)"
proof -
  have "list_all (\<lambda>w. w \<noteq> [] \<and> \<not> printable (hd w) \<and> \<not> printable (last w)) white_space"
    by (simp add: white_space_def printable_def upt_conv_Cons)
  then show "w \<in> set white_space \<Longrightarrow> w \<noteq> [] \<and> \<not> printable (hd w) \<and> \<not> printable (last w)"
    by (simp add: list_all_iff)
qed

lemma strip_any_None: "\<forall>w\<in>set ws. w \<noteq> [] \<longrightarrow> s \<noteq> [] \<longrightarrow> hd w \<noteq> hd s \<Longrightarrow> strip_any ws s = None"
proof (induction ws)
  case Nil
  then show ?case by simp
next
  case (Cons w ws)
  have "take (length w) s \<noteq> w" if "w \<noteq> []"
  proof
    assume eq: "take (length w) s = w"
    with that have "s \<noteq> []" by auto
    with eq that have "hd w = hd s" by (metis hd_take length_greater_0_conv)
    with Cons.prems that \<open>s \<noteq> []\<close> show False by simp
  qed
  with Cons show ?case by auto
qed

lemma trim_id:
  assumes "s = [] \<or> (printable (hd s) \<and> printable (last s))"
  shows "trim s = s"
proof (cases "s = []")
  case False
  with assms have "strip_any white_space s = None" "strip_any (map rev white_space) (rev s) = None"
    by (auto intro!: strip_any_None simp: hd_rev) (metis white_space_not_printable)+
  then show ?thesis
    by (simp add: trim_def trim_start_def trim_end_def trim_with.simps)
qed simp

definition is_ascii :: "string \<Rightarrow> bool" where
  "is_ascii s \<longleftrightarrow> (\<forall>c\<in>set s. byte_of c < 128)"

lemma strip_any_suffix: "strip_any ws s = Some r \<Longrightarrow> set r \<subseteq> set s"
  by (induction ws) (auto split: if_splits dest: in_set_dropD)

lemma trim_with_subset: "set (trim_with ws s) \<subseteq> set s"
proof (induction ws s rule: trim_with.induct)
  case (1 ws s)
  show ?case
  proof (cases "strip_any ws s")
    case None
    then show ?thesis by (simp add: trim_with.simps [of ws s])
  next
    case (Some r)
    with 1 strip_any_suffix [OF Some] show ?thesis by (auto simp: trim_with.simps [of ws s])
  qed
qed

lemma trim_subset: "set (trim s) \<subseteq> set s"
  using trim_with_subset [of "map rev white_space" "rev (trim_with white_space s)"]
    trim_with_subset [of white_space s]
  by (auto simp: trim_def trim_start_def trim_end_def)

lemma trim_start_0x_subset: "set (trim_start_0x s) \<subseteq> set s"
  by (induction s rule: trim_start_0x.induct) auto

end
