(* ===== verification/Primitives.thy ===== *)
theory Primitives
  imports Text
begin

text \<open>
  \<open>primitives.rs\<close> and \<open>error.rs\<close>: hexadecimal, JSON-RPC quantities, addresses, base64url padding
  and ABI words. The crates behind it (\<open>alloy\<close>, \<open>base64\<close>, \<open>sha2\<close>) are parameters: the checksum
  casing of an address, CREATE2, the selector of a signature, the 256-bit integer's parser and its
  hexadecimal rendering, and the base64 engine.
\<close>

section \<open>The core's error\<close>

datatype core_error =
    InvalidHex string | InvalidBase64Url string | InvalidQuantity string | InvalidAddress string
  | InvalidSignature string | InvalidCbor string | InvalidCoseKey string | InvalidClientData string
  | InvalidPublicKey string | AbiParse string | AbiDecode string | Eip712Parse string
  | Eip712NonCanonicalDomain string | InvalidIdenticonSeed string | I18nEmptyKeyList string
  | I18nInvalidCount string | I18nUnsupportedOption string | I18nCatalogUnavailable string
  | I18nCatalogParse string | RegistryMetadata string | RegistryProof string | Internal string

fun code :: "core_error \<Rightarrow> string" where
  "code (InvalidHex _) = ''InvalidHex''"
| "code (InvalidBase64Url _) = ''InvalidBase64Url''"
| "code (InvalidQuantity _) = ''InvalidQuantity''"
| "code (InvalidAddress _) = ''InvalidAddress''"
| "code (InvalidSignature _) = ''InvalidSignature''"
| "code (InvalidCbor _) = ''InvalidCbor''"
| "code (InvalidCoseKey _) = ''InvalidCoseKey''"
| "code (InvalidClientData _) = ''InvalidClientData''"
| "code (InvalidPublicKey _) = ''InvalidPublicKey''"
| "code (AbiParse _) = ''AbiParse''"
| "code (AbiDecode _) = ''AbiDecode''"
| "code (Eip712Parse _) = ''Eip712Parse''"
| "code (Eip712NonCanonicalDomain _) = ''Eip712NonCanonicalDomain''"
| "code (InvalidIdenticonSeed _) = ''InvalidIdenticonSeed''"
| "code (I18nEmptyKeyList _) = ''I18nEmptyKeyList''"
| "code (I18nInvalidCount _) = ''I18nInvalidCount''"
| "code (I18nUnsupportedOption _) = ''I18nUnsupportedOption''"
| "code (I18nCatalogUnavailable _) = ''I18nCatalogUnavailable''"
| "code (I18nCatalogParse _) = ''I18nCatalogParse''"
| "code (RegistryMetadata _) = ''RegistryMetadata''"
| "code (RegistryProof _) = ''RegistryProof''"
| "code (Internal _) = ''Internal''"

text \<open>The \<open>Display\<close> form of an error.\<close>

fun core_error_text :: "core_error \<Rightarrow> string" where
  "core_error_text (InvalidHex m) = ''invalid hex: '' @ m"
| "core_error_text (InvalidBase64Url m) = ''invalid base64url: '' @ m"
| "core_error_text (InvalidQuantity m) = ''invalid quantity: '' @ m"
| "core_error_text (InvalidAddress m) = ''invalid address: '' @ m"
| "core_error_text (InvalidSignature m) = ''invalid signature encoding: '' @ m"
| "core_error_text (InvalidCbor m) = ''invalid CBOR: '' @ m"
| "core_error_text (InvalidCoseKey m) = ''invalid COSE key: '' @ m"
| "core_error_text (InvalidClientData m) = ''invalid WebAuthn client data: '' @ m"
| "core_error_text (InvalidPublicKey m) = ''invalid P-256 public key: '' @ m"
| "core_error_text (AbiParse m) = ''ABI signature parse failed: '' @ m"
| "core_error_text (AbiDecode m) = ''ABI calldata decode failed: '' @ m"
| "core_error_text (Eip712Parse m) = ''EIP-712 payload parse failed: '' @ m"
| "core_error_text (Eip712NonCanonicalDomain m) = ''EIP-712 domain type is not the canonical EIP712Domain: '' @ m"
| "core_error_text (InvalidIdenticonSeed m) = ''identicon seed is unrenderable: '' @ m"
| "core_error_text (I18nEmptyKeyList m) = ''t() called with an empty key list: '' @ m"
| "core_error_text (I18nInvalidCount m) = ''i18n count is not a finite number: '' @ m"
| "core_error_text (I18nUnsupportedOption m) = ''i18n option is not supported by this engine: '' @ m"
| "core_error_text (I18nCatalogUnavailable m) = ''i18n catalog is not available for locale: '' @ m"
| "core_error_text (I18nCatalogParse m) = ''i18n catalog JSON is malformed: '' @ m"
| "core_error_text (RegistryMetadata m) = ''registry metadata is invalid: '' @ m"
| "core_error_text (RegistryProof m) = ''registry group proof could not be built: '' @ m"
| "core_error_text (Internal m) = ''internal invariant violated: '' @ m"

section \<open>Hexadecimal\<close>

definition byte_hex :: "u8 \<Rightarrow> string" where
  "byte_hex b = [hex_digit (unat b div 16), hex_digit (unat b mod 16)]"

definition to_hex :: "bytes \<Rightarrow> bool \<Rightarrow> string" where
  "to_hex data prefixed = (if prefixed then ''0x'' else []) @ concat (map byte_hex data)"

text \<open>\<open>str::from_utf8\<close> on two bytes: two ASCII characters or one two-byte character.\<close>

definition utf8_pair :: "char \<Rightarrow> char \<Rightarrow> bool" where
  "utf8_pair a b \<longleftrightarrow>
     (byte_of a < 128 \<and> byte_of b < 128)
     \<or> (194 \<le> byte_of a \<and> byte_of a < 224 \<and> 128 \<le> byte_of b \<and> byte_of b < 192)"

fun hex_pairs :: "string \<Rightarrow> core_error + bytes" where
  "hex_pairs (a # b # s) =
     (if \<not> utf8_pair a b then Inl (InvalidHex ''non-ascii character'')
      else case from_str_radix 8 16 [a, b] of
          None \<Rightarrow> Inl (InvalidHex (''invalid hex pair `'' @ [a, b] @ ''`''))
        | Some v \<Rightarrow> (case hex_pairs s of Inl e \<Rightarrow> Inl e | Inr bs \<Rightarrow> Inr (of_nat v # bs)))"
| "hex_pairs s = Inr []"

definition from_hex :: "string \<Rightarrow> core_error + bytes" where
  "from_hex s =
     (let clean = unwrap_or (strip_prefix s ''0x'') s
      in if length clean mod 2 \<noteq> 0
         then Inl (InvalidHex (''odd length '' @ show_nat (length clean) @ '' in hex string''))
         else hex_pairs clean)"

section \<open>Quantities\<close>

definition is_ascii_whitespace :: "char \<Rightarrow> bool" where
  "is_ascii_whitespace c \<longleftrightarrow> byte_of c \<in> {9, 10, 12, 13, 32}"

definition trim_ascii :: "string \<Rightarrow> string" where
  "trim_ascii s = rev (dropWhile is_ascii_whitespace (rev (dropWhile is_ascii_whitespace s)))"

text \<open>\<open>match trimmed.get(..2)\<close>: the digits and their radix.\<close>

definition split_radix :: "string \<Rightarrow> string \<times> nat" where
  "split_radix t =
     (case str_slice t 0 2 of
        Some p \<Rightarrow>
          if eq_ignore_ascii_case p ''0x'' then (drop 2 t, 16)
          else if eq_ignore_ascii_case p ''0b'' then (drop 2 t, 2)
          else if eq_ignore_ascii_case p ''0o'' then (drop 2 t, 8)
          else (t, 10)
      | None \<Rightarrow> (t, 10))"

definition to_quantity ::
  "(string \<Rightarrow> nat \<Rightarrow> nat option) \<Rightarrow> (nat \<Rightarrow> string) \<Rightarrow> string \<Rightarrow> core_error + string" where
  "to_quantity u256_parse u256_hex v =
     (let t0 = trim_ascii v;
          t = unwrap_or (strip_prefix t0 ''+'') t0;
          invalid = Inl (InvalidQuantity (''not a quantity: `'' @ v @ ''`''))
      in if t = [] \<or> eq_ignore_ascii_case t ''0x'' then Inr ''0x0''
         else (let (body, radix) = split_radix t
               in if body = [] \<or> \<not> list_all (is_digit radix) body then invalid
                  else (case u256_parse body radix of
                      None \<Rightarrow> invalid
                    | Some n \<Rightarrow> if n = 0 then Inr ''0x0'' else Inr (''0x'' @ u256_hex n))))"

section \<open>Addresses\<close>

definition parse_address :: "string \<Rightarrow> core_error + bytes" where
  "parse_address address_hex =
     (case from_hex address_hex of
        Inl _ \<Rightarrow> Inl (InvalidAddress (''not hex: `'' @ address_hex @ ''`''))
      | Inr bs \<Rightarrow>
          if length bs = 20 then Inr bs
          else Inl (InvalidAddress (''expected 20 bytes, got '' @ show_nat (length bs)
                                    @ '' in `'' @ address_hex @ ''`'')))"

definition checksum_address :: "(bytes \<Rightarrow> string) \<Rightarrow> string \<Rightarrow> core_error + string" where
  "checksum_address to_checksum address_hex = map_sum id to_checksum (parse_address address_hex)"

definition function_selector :: "(string \<Rightarrow> string + bytes) \<Rightarrow> string \<Rightarrow> core_error + bytes" where
  "function_selector parse_selector sig =
     map_sum (\<lambda>e. AbiParse (''`'' @ sig @ ''`: '' @ e)) id (parse_selector sig)"

definition create2_address ::
  "(bytes \<Rightarrow> bytes \<Rightarrow> bytes \<Rightarrow> bytes) \<Rightarrow> (bytes \<Rightarrow> string)
   \<Rightarrow> string \<Rightarrow> bytes \<Rightarrow> bytes \<Rightarrow> core_error + string" where
  "create2_address create2 to_checksum deployer_hex salt init_code_hash =
     (case parse_address deployer_hex of
        Inl e \<Rightarrow> Inl e
      | Inr deployer \<Rightarrow>
          if length salt \<noteq> 32
          then Inl (InvalidAddress (''salt must be 32 bytes, got '' @ show_nat (length salt)))
          else if length init_code_hash \<noteq> 32
          then Inl (InvalidAddress (''init_code_hash must be 32 bytes, got ''
                                    @ show_nat (length init_code_hash)))
          else Inr (to_checksum (create2 deployer salt init_code_hash)))"

section \<open>Base64url\<close>

definition to_base64url :: "(bytes \<Rightarrow> string) \<Rightarrow> bytes \<Rightarrow> string" where
  "to_base64url b64_encode data = b64_encode data"

definition from_base64url :: "(string \<Rightarrow> string + bytes) \<Rightarrow> string \<Rightarrow> core_error + bytes" where
  "from_base64url b64_decode s =
     (let body = trim_end_char (CHR ''='') s;
          pad = length s - length body;
          expected_pad = (4 - length body mod 4) mod 4
      in if expected_pad < pad \<or> 2 < pad
         then Inl (InvalidBase64Url (''`'' @ s @ ''`: '' @ show_nat pad
                   @ '' padding characters, expected at most '' @ show_nat expected_pad))
         else map_sum (\<lambda>e. InvalidBase64Url (''`'' @ s @ ''`: '' @ e)) id (b64_decode body))"

section \<open>ABI words\<close>

definition abi_encode_address :: "string \<Rightarrow> core_error + bytes" where
  "abi_encode_address address_hex =
     map_sum id (\<lambda>addr. copy_at 12 addr (zeros 32)) (parse_address address_hex)"

definition abi_encode_uint256 ::
  "(string \<Rightarrow> nat \<Rightarrow> string + nat) \<Rightarrow> string \<Rightarrow> core_error + bytes" where
  "abi_encode_uint256 u256_parse value_hex =
     (let clean = unwrap_or (strip_prefix value_hex ''0x'') value_hex
      in if clean = [] \<or> \<not> list_all is_ascii_hexdigit clean
         then Inl (InvalidQuantity (''not a hex uint256: `'' @ value_hex @ ''`''))
         else map_sum (\<lambda>e. InvalidQuantity (''`'' @ value_hex @ ''`: '' @ e)) (be_of_nat 32)
                (u256_parse clean 16))"

definition abi_encode_bytes32 :: "bytes \<Rightarrow> core_error + bytes" where
  "abi_encode_bytes32 data =
     (if 32 < length data
      then Inl (InvalidHex (''bytes32 data too long: '' @ show_nat (length data) @ '' bytes (max 32)''))
      else Inr (copy_at 0 data (zeros 32)))"

section \<open>Hexadecimal: what is written is read, and what is accepted\<close>

lemma hex_digit_less_128: "d < 16 \<Longrightarrow> byte_of (hex_digit d) < 128"
  by (simp add: hex_digit_def)

lemma u8_div_mod_16 [simp]: "unat (b :: u8) div 16 < 16"
  using unat_u8_bound [of b] by simp

lemma from_str_radix_pair:
  "from_str_radix 8 16 [a, b] =
     (if a = CHR ''+'' then to_digit 16 b
      else case (to_digit 16 a, to_digit 16 b) of (Some x, Some y) \<Rightarrow> Some (x * 16 + y) | _ \<Rightarrow> None)"
proof -
  have lt: "to_digit 16 c = Some v \<Longrightarrow> v < 16" for c v
    by (auto simp: to_digit_def Let_def split: option.splits if_splits)
  have sum: "to_digit 16 a = Some x \<Longrightarrow> to_digit 16 b = Some y \<Longrightarrow> x * 16 + y < 256" for x y
    using lt [of a x] lt [of b y] by simp
  have one: "to_digit 16 b = Some y \<Longrightarrow> y < 256" for y
    using lt [of b y] by simp
  show ?thesis
    by (auto simp: from_str_radix_def Let_def digits_value_def sum one split: option.splits)
qed

lemma hex_pairs_byte_hex: "hex_pairs (byte_hex b @ s) = map_sum id ((#) b) (hex_pairs s)"
proof -
  have lt: "unat b mod 16 < 16" by simp
  have "hex_digit (unat b div 16) \<noteq> CHR ''+''" by simp
  then show ?thesis
    by (cases "hex_pairs s")
      (simp_all add: byte_hex_def utf8_pair_def hex_digit_less_128 from_str_radix_pair mult.commute)
qed

lemma hex_pairs_to_hex: "hex_pairs (concat (map byte_hex data)) = Inr data"
  by (induction data) (simp_all add: hex_pairs_byte_hex)

lemma length_concat_byte_hex [simp]: "length (concat (map byte_hex data)) = 2 * length data"
  by (induction data) (simp_all add: byte_hex_def)

lemma byte_hex_not_0x: "\<not> starts_with (concat (map byte_hex data)) ''0x''"
proof (cases data)
  case Nil
  then show ?thesis by (simp add: starts_with_def)
next
  case (Cons b bs)
  have "hex_digit (unat b mod 16) \<noteq> CHR ''x''"
  proof
    assume "hex_digit (unat b mod 16) = CHR ''x''"
    then have "byte_of (hex_digit (unat b mod 16)) = 120" by simp
    moreover have "unat b mod 16 < 16" by simp
    ultimately show False by (simp add: hex_digit_def split: if_splits)
  qed
  with Cons show ?thesis by (simp add: starts_with_def byte_hex_def numeral_2_eq_2)
qed

lemma length_to_hex: "length (to_hex data p) = (if p then 2 else 0) + 2 * length data"
  by (simp add: to_hex_def)

lemma from_hex_to_hex [simp]: "from_hex (to_hex data prefixed) = Inr data"
proof (cases prefixed)
  case True
  then show ?thesis
    by (simp add: from_hex_def to_hex_def strip_prefix_def starts_with_def hex_pairs_to_hex)
next
  case False
  then show ?thesis
    by (simp add: from_hex_def to_hex_def strip_prefix_def byte_hex_not_0x hex_pairs_to_hex)
qed

definition decode_hex :: "string \<Rightarrow> bytes option" where
  "decode_hex s = (case from_hex s of Inl _ \<Rightarrow> None | Inr bs \<Rightarrow> Some bs)"

interpretation hex: codec
"\<lambda>d. to_hex d prefixed" decode_hex "\<lambda>_. True" for prefixed
  by unfold_locales (simp add: decode_hex_def)

text \<open>The pairs \<open>from_hex\<close> accepts: two hexadecimal digits, or a plus sign and one.\<close>

fun accepted_pairs :: "string \<Rightarrow> bool" where
  "accepted_pairs [] = True"
| "accepted_pairs [_] = False"
| "accepted_pairs (a # b # s) \<longleftrightarrow>
     (is_ascii_hexdigit a \<or> a = CHR ''+'') \<and> is_ascii_hexdigit b \<and> accepted_pairs s"

lemma is_digit_ascii: "is_digit radix c \<Longrightarrow> byte_of c < 128"
  by (auto simp: is_digit_def to_digit_def Let_def split: option.splits if_splits)

lemma hex_pairs_accepts:
  "even (length s) \<Longrightarrow> (\<exists>bs. hex_pairs s = Inr bs) \<longleftrightarrow> accepted_pairs s"
proof (induction s rule: accepted_pairs.induct)
  case (3 a b s)
  have ascii: "to_digit 16 c = Some v \<Longrightarrow> byte_of c < 128" for c v
    using is_digit_ascii [of 16 c] by (simp add: is_digit_def)
  show ?case
  proof (cases "to_digit 16 b")
    case None
    then show ?thesis
      by (auto simp: from_str_radix_pair is_ascii_hexdigit_def is_digit_def split: option.splits)
  next
    case (Some y)
    note b = Some ascii [OF Some]
    show ?thesis
    proof (cases "a = CHR ''+''")
      case True
      with b 3 show ?thesis
        by (auto simp: from_str_radix_pair is_ascii_hexdigit_def is_digit_def utf8_pair_def
            split: sum.splits)
    next
      case False
      with b 3 show ?thesis
        by (cases "to_digit 16 a")
          (auto simp: from_str_radix_pair is_ascii_hexdigit_def is_digit_def utf8_pair_def
            dest: ascii split: sum.splits)
    qed
  qed
qed simp_all

section \<open>Canonical quantities\<close>

text \<open>
  What the code relies on from the 256-bit integer: on digits of the radix its parser reads their
  value and refuses one past \<open>2 ^ 256 - 1\<close>, and \<open>{:x}\<close> writes lower-case hexadecimal without
  leading zeros.
\<close>

definition u256_contract :: "(string \<Rightarrow> nat \<Rightarrow> nat option) \<Rightarrow> (nat \<Rightarrow> string) \<Rightarrow> bool" where
  "u256_contract parse hex \<longleftrightarrow>
     (\<forall>body radix. radix \<in> {2, 8, 10, 16} \<longrightarrow> body \<noteq> [] \<longrightarrow> list_all (is_digit radix) body \<longrightarrow>
        parse body radix = from_str_radix 256 radix body)
     \<and> (\<forall>n. hex n = show_hex n)"

lemma u256_contract_parse:
  "u256_contract parse hex \<Longrightarrow> radix \<in> {2, 8, 10, 16} \<Longrightarrow> body \<noteq> []
   \<Longrightarrow> list_all (is_digit radix) body \<Longrightarrow> parse body radix = from_str_radix 256 radix body"
  unfolding u256_contract_def by blast

lemma u256_contract_hex: "u256_contract parse hex \<Longrightarrow> hex n = show_hex n"
  unfolding u256_contract_def by blast

lemma u256_contract_instance: "u256_contract (\<lambda>s r. from_str_radix 256 r s) show_hex"
  by (simp add: u256_contract_def)

lemma from_str_radix_bound: "from_str_radix bits radix s = Some n \<Longrightarrow> n < 2 ^ bits"
  by (auto simp: from_str_radix_def Let_def split: if_splits option.splits)

lemma split_radix_cases: "snd (split_radix t) \<in> {2, 8, 10, 16}"
  by (auto simp: split_radix_def split: option.splits)

lemma show_hex_digits: "list_all (is_digit 16) (show_hex n)"
proof -
  have "d \<in> set (digits_of 16 n) \<Longrightarrow> is_digit 16 (hex_digit d)" for d
    using digits_of_lt [of d 16 n] by (simp add: is_digit_def)
  then show ?thesis
    by (auto simp: show_hex_def show_radix_eq list_all_iff is_digit_def)
qed

lemma show_hex_not_Nil [simp]: "show_hex n \<noteq> []"
  by (simp add: show_hex_def show_radix_eq)

lemma hex_digit_not_whitespace: "is_digit 16 c \<Longrightarrow> \<not> is_ascii_whitespace c"
  by (auto simp: is_digit_def to_digit_def is_ascii_whitespace_def Let_def split: if_splits)

lemma trim_ascii_id:
  assumes "s \<noteq> []" and "\<not> is_ascii_whitespace (hd s)" and "\<not> is_ascii_whitespace (last s)"
  shows "trim_ascii s = s"
proof -
  have "dropWhile is_ascii_whitespace s = s" using assms(1,2) by (cases s) simp_all
  moreover have "dropWhile is_ascii_whitespace (rev s) = rev s"
    using assms(1,3) by (cases s rule: rev_cases) simp_all
  ultimately show ?thesis by (simp add: trim_ascii_def)
qed

lemma to_quantity_canonical_text:
  assumes "u256_contract parse hex" and "n < 2 ^ 256"
  shows "to_quantity parse hex (''0x'' @ show_hex n) = Inr (''0x'' @ show_hex n)"
proof -
  obtain c r where cr: "show_hex n = c # r" by (cases "show_hex n") simp_all
  have dig: "is_digit 16 c" using show_hex_digits [of n] cr by simp
  have last: "last (''0x'' @ show_hex n) \<in> set (show_hex n)" by (simp add: cr)
  have ws: "\<not> is_ascii_whitespace (last (''0x'' @ show_hex n))"
    using last show_hex_digits [of n] hex_digit_not_whitespace by (metis list_all_iff)
  have trim: "trim_ascii (''0x'' @ show_hex n) = ''0x'' @ show_hex n"
    by (rule trim_ascii_id) (use ws in \<open>simp_all add: is_ascii_whitespace_def\<close>)
  have split: "split_radix (''0x'' @ show_hex n) = (show_hex n, 16)"
    using is_digit_ascii [OF dig]
    by (simp add: split_radix_def str_slice_def is_char_boundary_def subslice_def cr numeral_2_eq_2)
  have read: "parse (show_hex n) 16 = Some n"
    using assms show_hex_digits [of n] from_str_radix_show [of 16 n 256]
    by (simp add: u256_contract_def show_hex_def show_radix_eq)
  have ne: "\<not> eq_ignore_ascii_case (''0x'' @ show_hex n) ''0x''"
    by (simp add: eq_ignore_ascii_case_def to_ascii_lowercase_def cr)
  have plus: "strip_prefix (''0x'' @ show_hex n) ''+'' = None"
    by (simp add: strip_prefix_def starts_with_def)
  have zero: "n = 0 \<Longrightarrow> show_hex n = ''0''" by (simp add: show_hex_def show_radix_def)
  have hexn: "hex n = show_hex n" using assms(1) by (simp add: u256_contract_def)
  show ?thesis
    unfolding to_quantity_def Let_def trim plus unwrap_or_simps split prod.case
    using ne read zero show_hex_digits [of n] hexn by auto
qed

text \<open>
  Quantities are canonical. Whatever \<open>to_quantity\<close> returns is the minimal lower-case
  hexadecimal text of a number below \<open>2 ^ 256\<close>, and feeding that text back changes nothing.
\<close>

theorem to_quantity_canonical:
  assumes "u256_contract parse hex" and "to_quantity parse hex v = Inr q"
  shows "\<exists>n < 2 ^ 256. q = ''0x'' @ show_hex n \<and> to_quantity parse hex q = Inr q"
proof -
  have "\<exists>n < 2 ^ 256. q = ''0x'' @ show_hex n"
  proof (cases "q = ''0x0''")
    case True
    then show ?thesis by (intro exI [of _ 0]) (simp add: show_hex_def show_radix_def)
  next
    case False
    define t where "t = unwrap_or (strip_prefix (trim_ascii v) ''+'') (trim_ascii v)"
    obtain body radix where split: "split_radix t = (body, radix)" by force
    then have radix: "radix \<in> {2, 8, 10, 16}" using split_radix_cases [of t] by simp
    from assms(2) False obtain n where
      "body \<noteq> []" "list_all (is_digit radix) body" "parse body radix = Some n" "q = ''0x'' @ hex n"
      by (simp add: to_quantity_def Let_def split flip: t_def split: if_splits option.splits)
    note got = this
    have "parse body radix = from_str_radix 256 radix body" and hex: "hex n = show_hex n"
      using u256_contract_parse [OF assms(1) radix got(1,2)] u256_contract_hex [OF assms(1)]
      by simp_all
    then have "n < 2 ^ 256" using got(3) by (intro from_str_radix_bound [of 256 radix body n]) simp
    with got(4) hex show ?thesis by metis
  qed
  with to_quantity_canonical_text [OF assms(1)] show ?thesis by blast
qed

lemma witness_trim: "trim_ascii '' +0X1F'' = ''+0X1F''"
  by code_simp

lemma witness_split: "split_radix ''0X1F'' = (''1F'', 16)"
  by code_simp

lemma witness_read: "from_str_radix 256 16 ''1F'' = Some 31"
  by (simp add: from_str_radix_def to_digit_def digits_value_def)

lemma witness_show: "show_hex 31 = ''1f''"
  by code_simp

theorem to_quantity_canonical_witness:
  "\<exists>n < 2 ^ 256. ''0x1f'' = ''0x'' @ show_hex n
     \<and> to_quantity (\<lambda>s r. from_str_radix 256 r s) show_hex ''0x1f'' = Inr ''0x1f''"
proof (rule to_quantity_canonical [OF u256_contract_instance])
  show "to_quantity (\<lambda>s r. from_str_radix 256 r s) show_hex '' +0X1F'' = Inr ''0x1f''"
    unfolding to_quantity_def by (simp add: witness_trim witness_split witness_read witness_show
        strip_prefix_def starts_with_def eq_ignore_ascii_case_def to_ascii_lowercase_def
        is_digit_def to_digit_def)
qed

section \<open>Round trip and acceptance\<close>

text \<open>
  Hexadecimal round trip. What \<open>to_hex\<close> writes, with or without the \<open>0x\<close>, \<open>from_hex\<close> reads
  back as the same bytes; read as an address it is accepted exactly when it is 20 bytes, and its ABI
  word is then the address behind twelve zero bytes.
\<close>

theorem hex_round_trip:
  "from_hex (to_hex data prefixed) = Inr data
   \<and> (\<exists>a. parse_address (to_hex data prefixed) = Inr a) = (length data = 20)
   \<and> (length data = 20 \<longrightarrow> abi_encode_address (to_hex data prefixed) = Inr (zeros 12 @ data))"
  by (simp add: parse_address_def abi_encode_address_def copy_at_def)

theorem hex_round_trip_witness:
  "abi_encode_address (to_hex (replicate 20 0xab) True) = Inr (zeros 12 @ replicate 20 0xab)"
  using hex_round_trip [of "replicate 20 0xab" True] by simp

text \<open>
  What \<open>from_hex\<close> accepts. After one optional \<open>0x\<close>, exactly the texts of an even number of
  characters whose every pair is two hexadecimal digits or a plus sign and one digit: the \<open>+\<close> that
  \<open>u8::from_str_radix\<close> allows gets through, although the function says it rejects any character
  that is not hexadecimal.
\<close>

theorem from_hex_accepts:
  "(\<exists>bs. from_hex s = Inr bs) = accepted_pairs (unwrap_or (strip_prefix s ''0x'') s)"
proof -
  have odd: "odd (length t) \<Longrightarrow> \<not> accepted_pairs t" for t
    by (induction t rule: accepted_pairs.induct) auto
  define clean where "clean = unwrap_or (strip_prefix s ''0x'') s"
  show ?thesis
    using hex_pairs_accepts [of clean] odd [of clean]
    by (cases "even (length clean)") (simp_all add: from_hex_def even_iff_mod_2_eq_zero flip: clean_def)
qed

end
