(* ===== verification/Json.thy ===== *)
theory Json
  imports Text
begin

text \<open>
  The value type of \<open>serde_json\<close> and the accessors the core uses on it. Parsing and printing text
  are the crate's and stay parameters (\<open>json_text\<close> states what the code relies on).
\<close>

section \<open>Values\<close>

text \<open>A number as the crate keeps it: a non-negative integer, a negative one, or the bits of a float.\<close>

datatype json_number = PosInt u64 | NegInt u64 | Float u64

datatype json =
    Null
  | Bool bool
  | Number json_number
  | String string
  | Array "json list"
  | Object "(string \<times> json) list"

fun as_u64 :: "json_number \<Rightarrow> u64 option" where
  "as_u64 (PosInt n) = Some n"
| "as_u64 _ = None"

fun as_str :: "json \<Rightarrow> string option" where
  "as_str (String s) = Some s"
| "as_str _ = None"

fun as_array :: "json \<Rightarrow> json list option" where
  "as_array (Array vs) = Some vs"
| "as_array _ = None"

fun as_bool :: "json \<Rightarrow> bool option" where
  "as_bool (Bool b) = Some b"
| "as_bool _ = None"

text \<open>\<open>Value::get\<close> with a key and with an index.\<close>

fun get :: "json \<Rightarrow> string \<Rightarrow> json option" where
  "get (Object kvs) k = map_of kvs k"
| "get _ k = None"

fun get_index :: "json \<Rightarrow> nat \<Rightarrow> json option" where
  "get_index (Array vs) i = (if i < length vs then Some (vs ! i) else None)"
| "get_index _ i = None"

text \<open>Writing through \<open>get_mut\<close>: the entry of a key, and the element of an index.\<close>

fun set_key :: "string \<Rightarrow> json \<Rightarrow> (string \<times> json) list \<Rightarrow> (string \<times> json) list" where
  "set_key k v [] = []"
| "set_key k v ((k', v') # kvs) = (if k = k' then (k', v) # kvs else (k', v') # set_key k v kvs)"

fun put :: "json \<Rightarrow> string \<Rightarrow> json \<Rightarrow> json" where
  "put (Object kvs) k v = Object (set_key k v kvs)"
| "put j k v = j"

fun put_index :: "json \<Rightarrow> nat \<Rightarrow> json \<Rightarrow> json" where
  "put_index (Array vs) i v = Array (vs[i := v])"
| "put_index j i v = j"

lemma map_of_set_key:
  "map_of (set_key k v kvs) k' = (if k' = k \<and> map_of kvs k \<noteq> None then Some v else map_of kvs k')"
  by (induction kvs) auto

lemma get_put:
  "get (put j k v) k' = (if k' = k \<and> get j k \<noteq> None then Some v else get j k')"
  by (cases j) (simp_all add: map_of_set_key)

lemma get_index_put_index:
  "get_index (put_index j i v) i' = (if i' = i \<and> get_index j i \<noteq> None then Some v else get_index j i')"
  by (cases j) auto

lemma set_key_same: "map_of kvs k = Some v \<Longrightarrow> set_key k v kvs = kvs"
  by (induction kvs) auto

lemma put_same: "get j k = Some v \<Longrightarrow> put j k v = j"
  by (cases j) (simp_all add: set_key_same)

lemma put_index_same: "get_index j i = Some v \<Longrightarrow> put_index j i v = j"
  by (cases j) (auto split: if_splits)

text \<open>\<open>Map::insert\<close>: the entry of a key is replaced, or added.\<close>

fun insert_key :: "string \<Rightarrow> json \<Rightarrow> (string \<times> json) list \<Rightarrow> (string \<times> json) list" where
  "insert_key k v [] = [(k, v)]"
| "insert_key k v ((k', v') # kvs) = (if k = k' then (k', v) # kvs else (k', v') # insert_key k v kvs)"

lemma map_of_insert_key: "map_of (insert_key k v kvs) k' = (if k' = k then Some v else map_of kvs k')"
  by (induction kvs) auto

lemma get_insert_key: "get (Object (insert_key k v kvs)) k' = (if k' = k then Some v else get (Object kvs) k')"
  by (simp add: map_of_insert_key)

section \<open>Text\<close>

text \<open>What the code relies on from the crate: a printed value parses back as itself.\<close>

definition json_text :: "('text \<Rightarrow> json option) \<Rightarrow> (json \<Rightarrow> 'text) \<Rightarrow> bool" where
  "json_text from_str to_string \<longleftrightarrow> (\<forall>j. from_str (to_string j) = Some j)"

end
