(* ===== verification/TxRequest.thy ===== *)
theory TxRequest
  imports Primitives Json
begin

text \<open>
  \<open>tx_request.rs\<close>: the one reading of a transaction request's calls. A call's \<open>value\<close> is read by one
  rule, a request is rewritten at arrival so that every value is canonical text, and the calls a
  submit sends are read from it, every one or none. The 256-bit integer's parser and decimal
  rendering, and the JSON parser and printer, are parameters; the text of a request is only ever
  handed to that parser, so its type is a parameter too.
\<close>

section \<open>Reading one value\<close>

definition U256_HEX_DIGITS :: nat where
  "U256_HEX_DIGITS = 64"

definition is_transaction_method :: "string \<Rightarrow> bool" where
  "is_transaction_method method \<longleftrightarrow> method = ''eth_sendTransaction'' \<or> method = ''wallet_sendCalls''"

definition value_wei_text ::
  "(string \<Rightarrow> nat \<Rightarrow> nat option) \<Rightarrow> (nat \<Rightarrow> string) \<Rightarrow> string option \<Rightarrow> string option" where
  "value_wei_text u256_parse u256_dec value =
     (case value of
        None \<Rightarrow> Some ''0''
      | Some v \<Rightarrow>
          if v = [] \<or> v = ''0x'' \<or> list_all (\<lambda>b. b = CHR ''0'') v then Some ''0''
          else (case strip_prefix v ''0x'' of
              None \<Rightarrow> None
            | Some body \<Rightarrow>
                if \<not> list_all is_ascii_hexdigit body then None
                else (let significant = trim_start_char (CHR ''0'') body
                      in if U256_HEX_DIGITS < length significant then None
                         else if significant = [] then Some ''0''
                         else map_option u256_dec (u256_parse significant 16))))"

definition value_wei ::
  "(string \<Rightarrow> nat \<Rightarrow> nat option) \<Rightarrow> (nat \<Rightarrow> string) \<Rightarrow> json option \<Rightarrow> string option" where
  "value_wei u256_parse u256_dec value =
     (case value of
        None \<Rightarrow> Some ''0''
      | Some Null \<Rightarrow> Some ''0''
      | Some (String text) \<Rightarrow> value_wei_text u256_parse u256_dec (Some text)
      | Some (Number n) \<Rightarrow> if as_u64 n = Some 0 then Some ''0'' else None
      | Some _ \<Rightarrow> None)"

definition canonical_value ::
  "(string \<Rightarrow> nat \<Rightarrow> nat option) \<Rightarrow> (nat \<Rightarrow> string) \<Rightarrow> json \<Rightarrow> string option" where
  "canonical_value u256_parse u256_dec value =
     (case value_wei u256_parse u256_dec (Some value) of
        None \<Rightarrow> None
      | Some _ \<Rightarrow>
          let text = unwrap_or (Option.bind (as_str value) (\<lambda>t. strip_prefix t ''0x'')) [];
              body = to_ascii_lowercase (trim_start_char (CHR ''0'') text)
          in Some (if body = [] then ''0x0'' else ''0x'' @ body))"

section \<open>The request at arrival\<close>

datatype tx_request_error = BadValue "nat option"

fun message :: "tx_request_error \<Rightarrow> string" where
  "message (BadValue None) = ''Invalid transaction value: expected a 0x-prefixed hex quantity''"
| "message (BadValue (Some leg)) =
     ''Invalid value in call '' @ show_nat leg @ '': expected a 0x-prefixed hex quantity''"

text \<open>\<open>canonicalize\<close> returns whether it changed the call, and the call.\<close>

definition canonicalize ::
  "(string \<Rightarrow> nat \<Rightarrow> nat option) \<Rightarrow> (nat \<Rightarrow> string)
   \<Rightarrow> json \<Rightarrow> nat option \<Rightarrow> tx_request_error + bool \<times> json" where
  "canonicalize u256_parse u256_dec call leg =
     (case get call ''value'' of
        None \<Rightarrow> Inr (False, call)
      | Some value \<Rightarrow>
          if value = Null then Inr (False, call)
          else (case canonical_value u256_parse u256_dec value of
              None \<Rightarrow> Inl (BadValue leg)
            | Some canonical \<Rightarrow>
                if as_str value = Some canonical then Inr (False, call)
                else Inr (True, put call ''value'' (String canonical))))"

text \<open>The loop over a batch, from the leg \<open>leg\<close> on.\<close>

fun canonicalize_calls ::
  "(string \<Rightarrow> nat \<Rightarrow> nat option) \<Rightarrow> (nat \<Rightarrow> string)
   \<Rightarrow> nat \<Rightarrow> json list \<Rightarrow> tx_request_error + bool \<times> json list" where
  "canonicalize_calls u256_parse u256_dec leg [] = Inr (False, [])"
| "canonicalize_calls u256_parse u256_dec leg (call # calls) =
     (case canonicalize u256_parse u256_dec call (Some leg) of
        Inl e \<Rightarrow> Inl e
      | Inr (changed, call') \<Rightarrow>
          (case canonicalize_calls u256_parse u256_dec (Suc leg) calls of
             Inl e \<Rightarrow> Inl e
           | Inr (changed', calls') \<Rightarrow> Inr (changed \<or> changed', call' # calls')))"

definition calls_field :: "json \<Rightarrow> json list option" where
  "calls_field first = Option.bind (get first ''calls'') as_array"

definition canonicalize_first ::
  "(string \<Rightarrow> nat \<Rightarrow> nat option) \<Rightarrow> (nat \<Rightarrow> string)
   \<Rightarrow> string \<Rightarrow> json \<Rightarrow> tx_request_error + bool \<times> json" where
  "canonicalize_first u256_parse u256_dec method first =
     (if method = ''wallet_sendCalls''
      then (case calls_field first of
          None \<Rightarrow> Inr (False, first)
        | Some calls \<Rightarrow>
            map_sum id (\<lambda>(changed, calls'). (changed, put first ''calls'' (Array calls')))
              (canonicalize_calls u256_parse u256_dec 0 calls))
      else canonicalize u256_parse u256_dec first None)"

definition canonical_params_json ::
  "(string \<Rightarrow> nat \<Rightarrow> nat option) \<Rightarrow> (nat \<Rightarrow> string) \<Rightarrow> ('text \<Rightarrow> json option) \<Rightarrow> (json \<Rightarrow> 'text)
   \<Rightarrow> string \<Rightarrow> 'text \<Rightarrow> tx_request_error + 'text option" where
  "canonical_params_json u256_parse u256_dec from_str to_string method params_json =
     (if \<not> is_transaction_method method then Inr None
      else case from_str params_json of
          None \<Rightarrow> Inr None
        | Some params \<Rightarrow>
            (case get_index params 0 of
               None \<Rightarrow> Inr None
             | Some first \<Rightarrow>
                 map_sum id
                   (\<lambda>(changed, first').
                      if changed then Some (to_string (put_index params 0 first')) else None)
                   (canonicalize_first u256_parse u256_dec method first)))"

section \<open>The calls a request sends\<close>

record request_call =
  rc_to :: string
  rc_value :: string
  rc_data :: string

definition call_of ::
  "(string \<Rightarrow> nat \<Rightarrow> nat option) \<Rightarrow> (nat \<Rightarrow> string) \<Rightarrow> json \<Rightarrow> request_call option" where
  "call_of u256_parse u256_dec raw =
     (case Option.bind (get raw ''to'') as_str of
        None \<Rightarrow> None
      | Some to \<Rightarrow>
          if to = [] then None
          else (case (case get raw ''data'' of
                        None \<Rightarrow> Some ''0x''
                      | Some Null \<Rightarrow> Some ''0x''
                      | Some (String text) \<Rightarrow> Some (if text = [] then ''0x'' else text)
                      | Some _ \<Rightarrow> None) of
              None \<Rightarrow> None
            | Some data \<Rightarrow>
                map_option (\<lambda>v. \<lparr>rc_to = to, rc_value = v, rc_data = data\<rparr>)
                  (value_wei u256_parse u256_dec (get raw ''value''))))"

text \<open>\<open>collect::<Option<Vec<_>>>\<close>: every result, or none.\<close>

fun collect :: "('a \<Rightarrow> 'b option) \<Rightarrow> 'a list \<Rightarrow> 'b list option" where
  "collect f [] = Some []"
| "collect f (x # xs) = (case f x of None \<Rightarrow> None | Some y \<Rightarrow> map_option ((#) y) (collect f xs))"

definition calls_of ::
  "(string \<Rightarrow> nat \<Rightarrow> nat option) \<Rightarrow> (nat \<Rightarrow> string) \<Rightarrow> ('text \<Rightarrow> json option)
   \<Rightarrow> string \<Rightarrow> 'text \<Rightarrow> request_call list option" where
  "calls_of u256_parse u256_dec from_str method params_json =
     (case Option.bind (from_str params_json) (\<lambda>params. get_index params 0) of
        None \<Rightarrow> None
      | Some first \<Rightarrow>
          (case (if method = ''wallet_sendCalls''
                 then (case calls_field first of
                     None \<Rightarrow> None
                   | Some raws \<Rightarrow> collect (call_of u256_parse u256_dec) raws)
                 else map_option (\<lambda>c. [c]) (call_of u256_parse u256_dec first)) of
             None \<Rightarrow> None
           | Some calls \<Rightarrow> if calls = [] then None else Some calls))"

section \<open>The rule as a number\<close>

text \<open>
  What the code relies on from the 256-bit integer: its parser reads digits, its \<open>Display\<close> is
  decimal.
\<close>

definition u256_decimal :: "(string \<Rightarrow> nat \<Rightarrow> nat option) \<Rightarrow> (nat \<Rightarrow> string) \<Rightarrow> bool" where
  "u256_decimal parse dec \<longleftrightarrow> u256_contract parse show_hex \<and> (\<forall>n. dec n = show_nat n)"

lemma u256_decimal_instance: "u256_decimal (\<lambda>s r. from_str_radix 256 r s) show_nat"
  by (simp add: u256_decimal_def u256_contract_instance)

text \<open>The reference reading: zero in any spelling, or the number behind \<open>0x\<close> when it fits.\<close>

definition value_nat :: "string \<Rightarrow> nat option" where
  "value_nat v =
     (if v = [] \<or> v = ''0x'' \<or> list_all (\<lambda>b. b = CHR ''0'') v then Some 0
      else Option.bind (strip_prefix v ''0x'') (\<lambda>body.
        Option.bind (parse_digits 16 body) (\<lambda>ds.
          if digits_value 16 ds < 2 ^ 256 then Some (digits_value 16 ds) else None)))"

lemma trim_start_char_Cons [simp]:
  "trim_start_char c (x # s) = (if x = c then trim_start_char c s else x # s)"
  by (simp add: trim_start_char_def)

lemma trim_start_char_Nil [simp]: "trim_start_char c [] = []"
  by (simp add: trim_start_char_def)

lemma to_digit_0 [simp]: "to_digit 16 (CHR ''0'') = Some 0"
  by (simp add: to_digit_def)

lemma to_digit_eq_0: "to_digit 16 c = Some 0 \<Longrightarrow> c = CHR ''0''"
proof -
  assume "to_digit 16 c = Some 0"
  then have "byte_of c = 48" by (auto simp: to_digit_def Let_def split: if_splits)
  then have "byte_of c = byte_of (CHR ''0'')" by simp
  then show ?thesis by (simp only: of_char_eq_iff)
qed

lemma parse_digits_hexdigits: "list_all is_ascii_hexdigit s \<longleftrightarrow> parse_digits 16 s \<noteq> None"
  using parse_digits_None [of 16 s] by (auto simp: list_all_iff is_ascii_hexdigit_def)

lemma parse_digits_trim:
  "parse_digits 16 s = Some ds \<Longrightarrow>
   \<exists>es. parse_digits 16 (trim_start_char (CHR ''0'') s) = Some es \<and> digits_value 16 es = digits_value 16 ds"
proof (induction s arbitrary: ds)
  case Nil
  then show ?case by simp
next
  case (Cons c s)
  show ?case
  proof (cases "c = CHR ''0''")
    case True
    with Cons.prems obtain rest where rest: "parse_digits 16 s = Some rest" "ds = 0 # rest" by auto
    from Cons.IH [OF rest(1)] rest(2) True show ?thesis by (simp add: digits_value_Cons)
  next
    case False
    with Cons.prems show ?thesis by (auto split: option.splits)
  qed
qed

lemma long_digits_exceed:
  assumes "parse_digits 16 s = Some ds" and "64 < length s" and "hd s \<noteq> CHR ''0''"
  shows "2 ^ 256 \<le> digits_value 16 ds"
proof -
  obtain c r where s: "s = c # r" using assms(2) by (cases s) auto
  with assms(1) obtain d es where d: "to_digit 16 c = Some d" "parse_digits 16 r = Some es" "ds = d # es"
    by (auto split: option.splits)
  have "d \<noteq> 0" using d(1) assms(3) s to_digit_eq_0 by (metis list.sel(1))
  have "64 \<le> length es" using parse_digits_length [OF d(2)] assms(2) s by simp
  then have "(16 :: nat) ^ 64 \<le> 16 ^ length es" by (intro power_increasing) simp_all
  also have "\<dots> \<le> d * 16 ^ length es" using \<open>d \<noteq> 0\<close> by simp
  also have "\<dots> \<le> digits_value 16 ds" by (simp add: d(3) digits_value_Cons)
  finally show ?thesis by simp
qed

lemma from_str_radix_digits:
  assumes "parse_digits 16 s = Some ds" and "s \<noteq> []"
  shows "from_str_radix 256 16 s = (if digits_value 16 ds < 2 ^ 256 then Some (digits_value 16 ds) else None)"
proof -
  obtain c r where s: "s = c # r" using assms(2) by (cases s) auto
  have "c \<noteq> CHR ''+''" using assms(1) s by (auto simp: to_digit_def split: option.splits)
  then show ?thesis using assms by (simp only: from_str_radix_def Let_def s list.case) simp
qed

lemma hd_trim_start_char: "trim_start_char c s \<noteq> [] \<Longrightarrow> hd (trim_start_char c s) \<noteq> c"
  by (induction s) (auto split: if_splits)

lemma value_wei_text_nat:
  assumes "u256_decimal parse dec"
  shows "value_wei_text parse dec (Some v) = map_option show_nat (value_nat v)"
proof (cases "v = [] \<or> v = ''0x'' \<or> list_all (\<lambda>b. b = CHR ''0'') v")
  case True
  then show ?thesis by (auto simp: value_wei_text_def value_nat_def show_nat_def show_radix_def)
next
  case False
  note plain = False
  show ?thesis
  proof (cases "Option.bind (strip_prefix v ''0x'') (parse_digits 16)")
    case None
    then show ?thesis using plain
      by (auto simp: value_wei_text_def value_nat_def parse_digits_hexdigits bind_eq_None_conv
          split: option.splits)
  next
    case (Some ds)
    then obtain body where body: "strip_prefix v ''0x'' = Some body" "parse_digits 16 body = Some ds"
      by (auto simp: bind_eq_Some_conv)
    define sig where "sig = trim_start_char (CHR ''0'') body"
    obtain es where es: "parse_digits 16 sig = Some es" "digits_value 16 es = digits_value 16 ds"
      using parse_digits_trim [OF body(2)] by (auto simp: sig_def)
    have hex: "list_all is_ascii_hexdigit body" "list_all is_ascii_hexdigit sig"
      using body(2) es(1) by (simp_all add: parse_digits_hexdigits)
    have code: "value_wei_text parse dec (Some v) =
        (if 64 < length sig then None else if sig = [] then Some ''0''
         else map_option dec (parse sig 16))"
      using plain hex(1) body(1) by (auto simp: value_wei_text_def U256_HEX_DIGITS_def Let_def sig_def)
    have ref: "value_nat v = (if digits_value 16 es < 2 ^ 256 then Some (digits_value 16 es) else None)"
      using plain body es(2) by (auto simp: value_nat_def)
    show ?thesis
    proof (cases "sig = []")
      case True
      with es(1) show ?thesis unfolding code ref by (simp add: show_nat_def show_radix_def)
    next
      case False
      have "hd sig \<noteq> CHR ''0''" using False hd_trim_start_char by (simp add: sig_def)
      then have long: "64 < length sig \<Longrightarrow> \<not> digits_value 16 es < 2 ^ 256"
        using long_digits_exceed [OF es(1)] by (meson not_le)
      have "parse sig 16 = from_str_radix 256 16 sig"
        using assms False hex(2) u256_contract_parse [of parse show_hex 16 sig]
        by (simp add: u256_decimal_def is_ascii_hexdigit_def [abs_def])
      moreover have "dec n = show_nat n" for n using assms by (simp add: u256_decimal_def)
      moreover note from_str_radix_digits [OF es(1) False]
      ultimately have code': "value_wei_text parse dec (Some v) =
          (if 64 < length sig then None
           else if digits_value 16 es < 2 ^ 256 then Some (show_nat (digits_value 16 es)) else None)"
        using False by (simp only: code if_False) (simp split: if_splits)
      show ?thesis
      proof (cases "digits_value 16 es < 2 ^ 256")
        case True
        then have "\<not> 64 < length sig" using long by blast
        with True show ?thesis by (simp only: code' ref if_True if_False option.map)
      next
        case False
        then show ?thesis by (simp only: code' ref if_False option.map if_cancel)
      qed
    qed
  qed
qed

section \<open>Canonical values\<close>

lemma to_digit_lower [simp]: "to_digit 16 (to_ascii_lowercase_char c) = to_digit 16 c"
proof (cases "65 \<le> byte_of c \<and> byte_of c \<le> 90")
  case True
  then have "byte_of (to_ascii_lowercase_char c) = byte_of c + 32"
    by (simp add: to_ascii_lowercase_char_def)
  with True show ?thesis by (auto simp: to_digit_def Let_def)
qed (auto simp: to_ascii_lowercase_char_def)

lemma parse_digits_lower [simp]: "parse_digits 16 (to_ascii_lowercase s) = parse_digits 16 s"
  by (induction s) (simp_all add: to_ascii_lowercase_def split: option.splits)

lemma lower_eq_0: "to_digit 16 c \<noteq> None \<Longrightarrow> to_ascii_lowercase_char c = CHR ''0'' \<Longrightarrow> c = CHR ''0''"
  by (metis to_digit_0 to_digit_eq_0 to_digit_lower)

lemma trim_lower:
  assumes "s = [] \<or> hd s \<noteq> CHR ''0''" and "parse_digits 16 s \<noteq> None"
  shows "trim_start_char (CHR ''0'') (to_ascii_lowercase s) = to_ascii_lowercase s"
  using assms lower_eq_0 by (cases s) (auto simp: to_ascii_lowercase_def split: option.splits)

lemma value_nat_prefixed:
  "parse_digits 16 body = Some ds \<Longrightarrow>
   value_nat (''0x'' @ body) = (if digits_value 16 ds < 2 ^ 256 then Some (digits_value 16 ds) else None)"
  by (auto simp: value_nat_def strip_prefix_def starts_with_def)

lemma zeros_no_prefix: "list_all (\<lambda>b. b = CHR ''0'') t \<Longrightarrow> strip_prefix t ''0x'' = None"
  by (cases t; cases "tl t") (auto simp: strip_prefix_def starts_with_def)

text \<open>The canonical text of a value reads as the same number and is its own canonical text.\<close>

lemma canonical_value_text:
  assumes "u256_decimal parse dec" and "canonical_value parse dec v = Some c"
  shows "value_wei parse dec (Some (String c)) = value_wei parse dec (Some v)
         \<and> canonical_value parse dec (String c) = Some c"
proof -
  have zero: "value_wei parse dec (Some (String ''0x0'')) = Some ''0''"
      "canonical_value parse dec (String ''0x0'') = Some ''0x0''"
    by (simp_all add: value_wei_def value_wei_text_def canonical_value_def strip_prefix_def
        starts_with_def is_ascii_hexdigit_def is_digit_def to_ascii_lowercase_def)
  obtain w where w: "value_wei parse dec (Some v) = Some w"
    using assms(2) by (auto simp: canonical_value_def split: option.splits)
  define body where "body = unwrap_or (Option.bind (as_str v) (\<lambda>t. strip_prefix t ''0x'')) []"
  define sig where "sig = trim_start_char (CHR ''0'') body"
  have c: "c = (if sig = [] then ''0x0'' else ''0x'' @ to_ascii_lowercase sig)"
    using assms(2) w
    by (auto simp: canonical_value_def Let_def sig_def body_def to_ascii_lowercase_def)
  show ?thesis
  proof (cases "\<exists>t. v = String t \<and> \<not> (t = [] \<or> t = ''0x'' \<or> list_all (\<lambda>b. b = CHR ''0'') t)")
    case False
    then have "w = ''0''" and "sig = []"
      using w by (auto simp: value_wei_def value_wei_text_def body_def sig_def zeros_no_prefix
          split: json.splits if_splits) (simp_all add: strip_prefix_def starts_with_def)
    with c w zero show ?thesis by simp
  next
    case True
    then obtain t where t: "v = String t" "\<not> (t = [] \<or> t = ''0x'' \<or> list_all (\<lambda>b. b = CHR ''0'') t)"
      by blast
    from w t have "value_wei_text parse dec (Some t) = Some w" by (simp add: value_wei_def)
    then have "map_option show_nat (value_nat t) = Some w"
      by (simp only: value_wei_text_nat [OF assms(1)])
    then obtain n where n: "value_nat t = Some n" "w = show_nat n" by auto
    with t(2) obtain ds where ds: "strip_prefix t ''0x'' = Some body" "parse_digits 16 body = Some ds"
        "n = digits_value 16 ds" "n < 2 ^ 256"
      by (auto simp: value_nat_def body_def t(1) bind_eq_Some_conv split: if_splits)
    obtain es where es: "parse_digits 16 sig = Some es" "digits_value 16 es = n"
      using parse_digits_trim [OF ds(2)] ds(3) by (auto simp: sig_def)
    show ?thesis
    proof (cases "sig = []")
      case True
      with es have "w = ''0''" by (simp add: n(2) show_nat_def show_radix_def)
      with c True w zero show ?thesis by simp
    next
      case False
      have trim: "trim_start_char (CHR ''0'') (to_ascii_lowercase sig) = to_ascii_lowercase sig"
        by (rule trim_lower) (use es hd_trim_start_char in \<open>auto simp: sig_def\<close>)
      have "value_nat c = Some n"
        using value_nat_prefixed [of "to_ascii_lowercase sig" es] es ds(4) False by (simp add: c)
      then have "value_wei_text parse dec (Some c) = Some w"
        by (simp only: value_wei_text_nat [OF assms(1)] option.map n(2))
      then have read: "value_wei parse dec (Some (String c)) = Some w" by (simp add: value_wei_def)
      have strip: "strip_prefix c ''0x'' = Some (to_ascii_lowercase sig)"
        using False by (simp add: c strip_prefix_def starts_with_def)
      have "canonical_value parse dec (String c) = Some c"
        using False by (simp add: canonical_value_def read strip trim Let_def)
          (simp add: c to_ascii_lowercase_def)
      with read w show ?thesis by simp
    qed
  qed
qed

section \<open>Canonical requests\<close>

lemma canonicalize_same_call:
  assumes "u256_decimal parse dec" and "canonicalize parse dec call leg = Inr (changed, call')"
  shows "call_of parse dec call' = call_of parse dec call"
    and "canonicalize parse dec call' leg' = Inr (False, call')"
    and "\<not> changed \<Longrightarrow> call' = call"
proof -
  have "(call' = call \<and> \<not> changed \<and> canonicalize parse dec call leg' = Inr (False, call))
    \<or> (\<exists>v c. get call ''value'' = Some v \<and> canonical_value parse dec v = Some c \<and> changed
        \<and> call' = put call ''value'' (String c))"
  proof (cases "get call ''value''")
    case None
    with assms(2) show ?thesis by (simp add: canonicalize_def)
  next
    case (Some v)
    show ?thesis
    proof (cases "v = Null")
      case True
      with assms(2) Some show ?thesis by (simp add: canonicalize_def)
    next
      case False
      with assms(2) Some obtain c where "canonical_value parse dec v = Some c"
        by (cases "canonical_value parse dec v") (simp_all add: canonicalize_def)
      with assms(2) Some False show ?thesis
        by (cases "as_str v = Some c") (simp_all add: canonicalize_def)
    qed
  qed
  then consider (same) "call' = call" "\<not> changed" "canonicalize parse dec call leg' = Inr (False, call)"
    | (new) v c where "get call ''value'' = Some v" "canonical_value parse dec v = Some c" "changed"
        "call' = put call ''value'' (String c)"
    by blast
  note cases = this
  show "call_of parse dec call' = call_of parse dec call"
    using cases
  proof cases
    case new
    with canonical_value_text [OF assms(1) new(2)]
    have "get call' ''to'' = get call ''to''" "get call' ''data'' = get call ''data''"
      "value_wei parse dec (get call' ''value'') = value_wei parse dec (get call ''value'')"
      by (simp_all add: get_put)
    then show ?thesis by (simp only: call_of_def)
  qed simp
  show "canonicalize parse dec call' leg' = Inr (False, call')"
    using cases
  proof cases
    case new
    with canonical_value_text [OF assms(1) new(2)] show ?thesis
      by (simp add: canonicalize_def get_put)
  qed simp
  show "\<not> changed \<Longrightarrow> call' = call"
    using cases by cases simp_all
qed

lemma canonicalize_refuses:
  "canonicalize parse dec call leg = Inl e \<Longrightarrow> call_of parse dec call = None \<and> e = BadValue leg"
proof -
  assume err: "canonicalize parse dec call leg = Inl e"
  show ?thesis
  proof (cases "get call ''value''")
    case None
    with err show ?thesis by (simp add: canonicalize_def)
  next
    case (Some v)
    with err have v: "canonical_value parse dec v = None" "e = BadValue leg"
      by (simp_all add: canonicalize_def split: if_splits option.splits)
    then have "value_wei parse dec (Some v) = None"
      by (simp add: canonical_value_def Let_def split: option.splits)
    with v(2) Some show ?thesis by (simp add: call_of_def split: option.split)
  qed
qed

lemma canonicalize_calls_same:
  assumes "u256_decimal parse dec"
  shows "canonicalize_calls parse dec leg calls = Inr (changed, calls') \<Longrightarrow>
    collect (call_of parse dec) calls' = collect (call_of parse dec) calls
    \<and> canonicalize_calls parse dec leg calls' = Inr (False, calls') \<and> (\<not> changed \<longrightarrow> calls' = calls)"
proof (induction calls arbitrary: leg changed calls')
  case Nil
  then show ?case by simp
next
  case (Cons call calls)
  from Cons.prems obtain c1 call1 c2 calls2 where
    step: "canonicalize parse dec call (Some leg) = Inr (c1, call1)"
      "canonicalize_calls parse dec (Suc leg) calls = Inr (c2, calls2)"
      "calls' = call1 # calls2" "changed = (c1 \<or> c2)"
    by (cases "canonicalize parse dec call (Some leg)";
        cases "canonicalize_calls parse dec (Suc leg) calls") auto
  from Cons.IH [OF step(2)] canonicalize_same_call [OF assms step(1)] step(3,4)
  show ?case by (auto split: option.split)
qed

lemma canonicalize_calls_refuse:
  "canonicalize_calls parse dec leg calls = Inl e \<Longrightarrow>
    collect (call_of parse dec) calls = None \<and> (\<exists>i < length calls. e = BadValue (Some (leg + i)))"
proof (induction calls arbitrary: leg)
  case Nil
  then show ?case by simp
next
  case (Cons call calls)
  show ?case
  proof (cases "canonicalize parse dec call (Some leg)")
    case (Inl e')
    with Cons.prems canonicalize_refuses [OF Inl] show ?thesis by auto
  next
    case (Inr r)
    with Cons.prems have "canonicalize_calls parse dec (Suc leg) calls = Inl e"
      by (auto split: sum.splits prod.splits)
    from Cons.IH [OF this] show ?thesis by (fastforce split: option.splits)
  qed
qed

definition first_calls ::
  "(string \<Rightarrow> nat \<Rightarrow> nat option) \<Rightarrow> (nat \<Rightarrow> string) \<Rightarrow> string \<Rightarrow> json \<Rightarrow> request_call list option" where
  "first_calls parse dec method first =
     (if method = ''wallet_sendCalls''
      then Option.bind (calls_field first) (collect (call_of parse dec))
      else map_option (\<lambda>c. [c]) (call_of parse dec first))"

lemma calls_of_first_calls:
  "calls_of parse dec from_str method params_json =
     Option.bind (Option.bind (from_str params_json) (\<lambda>params. get_index params 0))
       (\<lambda>first. Option.bind (first_calls parse dec method first)
         (\<lambda>calls. if calls = [] then None else Some calls))"
proof (cases "Option.bind (from_str params_json) (\<lambda>params. get_index params 0)")
  case None
  then show ?thesis by (simp add: calls_of_def del: bind_eq_None_conv bind_assoc)
next
  case (Some first)
  have "(if method = ''wallet_sendCalls''
         then (case calls_field first of
             None \<Rightarrow> None | Some raws \<Rightarrow> collect (call_of parse dec) raws)
         else map_option (\<lambda>c. [c]) (call_of parse dec first)) = first_calls parse dec method first"
    by (simp add: first_calls_def split: option.split)
  with Some show ?thesis
    by (cases "first_calls parse dec method first") (simp_all add: calls_of_def del: bind_assoc)
qed

lemma canonicalize_first_same:
  assumes "u256_decimal parse dec" and "canonicalize_first parse dec method first = Inr (changed, first')"
  shows "first_calls parse dec method first' = first_calls parse dec method first
    \<and> canonicalize_first parse dec method first' = Inr (False, first') \<and> (\<not> changed \<longrightarrow> first' = first)"
proof (cases "method = ''wallet_sendCalls''")
  case True
  show ?thesis
  proof (cases "calls_field first")
    case None
    with assms(2) True show ?thesis by (simp add: canonicalize_first_def)
  next
    case (Some calls)
    have arr: "get first ''calls'' = Some (Array calls)"
      using Some by (auto simp: calls_field_def bind_eq_Some_conv elim!: as_array.elims)
    from Some assms(2) True obtain calls' where
      calls': "canonicalize_calls parse dec 0 calls = Inr (changed, calls')"
        "first' = put first ''calls'' (Array calls')"
      by (auto simp: canonicalize_first_def map_sum_def split: sum.splits)
    from canonicalize_calls_same [OF assms(1) calls'(1)] calls'(2) True Some arr show ?thesis
      by (auto simp: canonicalize_first_def first_calls_def calls_field_def get_put put_same)
  qed
next
  case False
  with assms(2) canonicalize_same_call [OF assms(1), of first None changed first'] show ?thesis
    by (simp add: canonicalize_first_def first_calls_def)
qed

text \<open>
  One reading of \<open>value\<close>. The wei the code reads from a call's \<open>value\<close> text is the decimal
  rendering of the reference reading: zero for the empty text, \<open>0x\<close> and any row of zeros, the exact
  number behind \<open>0x\<close> when every character is a hexadecimal digit and it is below \<open>2 ^ 256\<close>, and
  nothing otherwise. Trimming leading zeros and counting 64 digits loses no readable value.
\<close>

theorem value_wei_exact:
  assumes "u256_decimal parse dec"
  shows "value_wei_text parse dec (Some v) = map_option show_nat (value_nat v)"
  by (rule value_wei_text_nat [OF assms])

theorem value_wei_exact_witness:
  "value_wei_text (\<lambda>s r. from_str_radix 256 r s) show_nat (Some ''0x001F'') = Some ''31''"
proof -
  have "value_nat ''0x001F'' = Some 31"
    by (simp add: value_nat_def strip_prefix_def starts_with_def to_digit_def digits_value_def)
  moreover have "show_nat 31 = ''31''" by code_simp
  ultimately show ?thesis using value_wei_exact [OF u256_decimal_instance, of "''0x001F''"] by simp
qed


text \<open>
  A refused request sends nothing. When the arrival check answers with an error, the same
  parameters yield no calls at all on any shell, and a batch's error names one of its legs.
\<close>

theorem refused_request_sends_nothing:
  assumes "canonical_params_json parse dec from_str to_string method params = Inl e"
  shows "calls_of parse dec from_str method params = None
         \<and> (method = ''eth_sendTransaction'' \<longrightarrow> e = BadValue None)"
proof -
  from assms obtain p first where
    p: "is_transaction_method method" "from_str params = Some p" "get_index p 0 = Some first"
      "canonicalize_first parse dec method first = Inl e"
    by (auto simp: canonical_params_json_def map_sum_def split: if_splits option.splits sum.splits)
  have "first_calls parse dec method first = None"
    using p(4) by (auto simp: canonicalize_first_def first_calls_def map_sum_def
        dest: canonicalize_refuses canonicalize_calls_refuse split: if_splits option.splits sum.splits)
  moreover have "method = ''eth_sendTransaction'' \<Longrightarrow> e = BadValue None"
    using p(4) by (auto simp: canonicalize_first_def dest: canonicalize_refuses)
  ultimately show ?thesis using p by (simp add: calls_of_first_calls)
qed


section \<open>A request at work\<close>

definition swap_request :: json where
  "swap_request = Array [Object [(''to'', String ''0x01''), (''value'', String ''0x001F'')]]"

definition canonical_swap :: json where
  "canonical_swap = Array [Object [(''to'', String ''0x01''), (''value'', String ''0x1f'')]]"

lemma swap_value: "value_wei_text (\<lambda>s r. from_str_radix 256 r s) show_nat (Some ''0x001F'') = Some ''31''"
proof -
  have "value_nat ''0x001F'' = Some 31"
    by (simp add: value_nat_def strip_prefix_def starts_with_def to_digit_def digits_value_def)
  moreover have "show_nat 31 = ''31''" by code_simp
  ultimately show ?thesis using value_wei_text_nat [OF u256_decimal_instance, of "''0x001F''"] by simp
qed

lemma swap_rewritten:
  "canonical_params_json (\<lambda>s r. from_str_radix 256 r s) show_nat Some id ''eth_sendTransaction''
     swap_request = Inr (Some canonical_swap)"
proof -
  have "canonical_value (\<lambda>s r. from_str_radix 256 r s) show_nat (String ''0x001F'') = Some ''0x1f''"
    by (simp add: canonical_value_def value_wei_def swap_value strip_prefix_def starts_with_def
        to_ascii_lowercase_def to_ascii_lowercase_char_def char_of_def bit_simps)
  then show ?thesis
    by (simp add: canonical_params_json_def is_transaction_method_def canonicalize_first_def
        canonicalize_def swap_request_def canonical_swap_def)
qed


theorem refused_request_sends_nothing_witness:
  "calls_of (\<lambda>s r. from_str_radix 256 r s) show_nat Some ''eth_sendTransaction''
     (Array [Object [(''to'', String ''0x01''), (''value'', String ''1000'')]]) = None"
proof -
  have "canonical_params_json (\<lambda>s r. from_str_radix 256 r s) show_nat Some id ''eth_sendTransaction''
     (Array [Object [(''to'', String ''0x01''), (''value'', String ''1000'')]]) = Inl (BadValue None)"
    by (simp add: canonical_params_json_def is_transaction_method_def canonicalize_first_def
        canonicalize_def canonical_value_def value_wei_def value_wei_text_def strip_prefix_def
        starts_with_def)
  from refused_request_sends_nothing [OF this] show ?thesis by simp
qed

end
