(* ===== verification/SelfCallGuard.thy ===== *)
theory SelfCallGuard
  imports Primitives Json
begin

text \<open>
  \<open>app/self_call_guard.rs\<close>: the inspection that refuses a dApp request which would rewrite who
  controls the account. Text slices that leave a character boundary and array reads out of range
  panic in the code; they are \<open>None\<close> here. The width \<open>w\<close> of \<open>usize\<close> (32 on the web build, 64
  elsewhere) is an argument where the code's index arithmetic can wrap.
\<close>

section \<open>Data\<close>

definition MAX_DEPTH :: nat where
  "MAX_DEPTH = 4"

datatype self_call_function =
    AddOwner | RemoveOwner | SwapOwner | ChangeThreshold | EnableModule | DisableModule
  | SetGuard | SetModuleGuard | SetFallbackHandler | Setup | ExecTransaction
  | ExecTransactionFromModule | SafeTxTypedData | DelegateCall

fun function_str :: "self_call_function \<Rightarrow> string" where
  "function_str AddOwner = ''addOwnerWithThreshold''"
| "function_str RemoveOwner = ''removeOwner''"
| "function_str SwapOwner = ''swapOwner''"
| "function_str ChangeThreshold = ''changeThreshold''"
| "function_str EnableModule = ''enableModule''"
| "function_str DisableModule = ''disableModule''"
| "function_str SetGuard = ''setGuard''"
| "function_str SetModuleGuard = ''setModuleGuard''"
| "function_str SetFallbackHandler = ''setFallbackHandler''"
| "function_str Setup = ''setup''"
| "function_str ExecTransaction = ''execTransaction''"
| "function_str ExecTransactionFromModule = ''execTransactionFromModule''"
| "function_str SafeTxTypedData = ''SafeTx''"
| "function_str DelegateCall = ''delegatecall''"

record self_call_block =
  scb_function :: self_call_function
  scb_selector :: string
  scb_leg_index :: "u32 option"
  scb_nested :: bool

definition BLOCKED :: "(string \<times> self_call_function) list" where
  "BLOCKED =
     [(''0x0d582f13'', AddOwner), (''0xf8dc5dd9'', RemoveOwner), (''0xe318b52b'', SwapOwner),
      (''0x694e80c3'', ChangeThreshold), (''0x610b5925'', EnableModule),
      (''0xe009cfde'', DisableModule), (''0xe19a9dd9'', SetGuard), (''0xe068df37'', SetModuleGuard),
      (''0xf08a0323'', SetFallbackHandler), (''0xb63e800d'', Setup),
      (''0x6a761202'', ExecTransaction), (''0x468721a7'', ExecTransactionFromModule),
      (''0x5229073f'', ExecTransactionFromModule)]"

definition MULTI_SEND :: string where
  "MULTI_SEND = ''0x8d80ff0a''"

definition EXEC_TRANSACTION :: string where
  "EXEC_TRANSACTION = ''0x6a761202''"

definition blocked_function :: "string \<Rightarrow> self_call_function option" where
  "blocked_function selector =
     map_option snd (find (\<lambda>(sel, _). eq_ignore_ascii_case sel selector) BLOCKED)"

definition same_address :: "string \<Rightarrow> string \<Rightarrow> bool" where
  "same_address a b \<longleftrightarrow> eq_ignore_ascii_case (trim_start_0x (trim a)) (trim_start_0x (trim b))"

section \<open>Reading calldata\<close>

text \<open>
  The pairs of \<open>body\<close> from \<open>i\<close> on, below \<open>usable\<close>, while they parse; slicing a pair out of the
  middle of a character panics.
\<close>

function hex_bytes_from :: "string \<Rightarrow> nat \<Rightarrow> nat \<Rightarrow> bytes may_panic" where
  "hex_bytes_from body usable i =
     (if usable \<le> i then ok []
      else case str_slice body i (i + 2) of
          None \<Rightarrow> panic
        | Some pair \<Rightarrow>
            (case from_str_radix 8 16 pair of
               None \<Rightarrow> ok []
             | Some b \<Rightarrow> map_option ((#) (of_nat b)) (hex_bytes_from body usable (i + 2))))"
  by pat_completeness auto
termination
  by (relation "measure (\<lambda>(body, usable, i). usable - i)") auto

declare hex_bytes_from.simps [simp del]

definition hex_bytes :: "string \<Rightarrow> bytes may_panic" where
  "hex_bytes data =
     (let body = trim_start_0x (trim data);
          usable = length body - length body mod 2
      in hex_bytes_from body usable 0)"

definition selector_of :: "string \<Rightarrow> string option may_panic" where
  "selector_of data =
     map_option (\<lambda>bs. if 4 \<le> length bs then Some (to_hex (take 4 bs) True) else None) (hex_bytes data)"

record inner_call =
  ic_operation :: u8
  ic_to :: string
  ic_data :: string

text \<open>\<open>u32_at\<close>: the sum is a \<open>usize\<close>, so it wraps at the machine's width before it is compared.\<close>

definition u32_at :: "nat \<Rightarrow> bytes \<Rightarrow> nat \<Rightarrow> nat may_panic" where
  "u32_at w bs at =
     (if length bs < (at + 4) mod 2 ^ w then ok 0
      else if at + 4 \<le> length bs then ok (nat_of_be (subslice at (at + 4) bs)) else panic)"

text \<open>
  \<open>a.saturating_add(b)\<close> of a \<open>usize\<close> \<open>a\<close>: the sum, or the largest \<open>usize\<close>. Then the legs of a packed
  payload from \<open>i\<close> on.
\<close>

definition saturating_add :: "nat \<Rightarrow> nat \<Rightarrow> nat \<Rightarrow> nat" where
  "saturating_add w a b = a + min b (2 ^ w - 1 - a)"

function multi_send_legs :: "nat \<Rightarrow> bytes \<Rightarrow> nat \<Rightarrow> inner_call list may_panic" where
  "multi_send_legs w payload i =
     (if i + 85 \<le> length payload
      then (case u32_at w payload (i + 53 + 28) of
          None \<Rightarrow> panic
        | Some data_len \<Rightarrow>
            (let end = saturating_add w (i + 85) data_len
             in if length payload < end then ok []
                else map_option ((#)
                       \<lparr>ic_operation = payload ! i,
                        ic_to = to_hex (subslice (i + 1) (i + 21) payload) True,
                        ic_data = to_hex (subslice (i + 85) end payload) True\<rparr>)
                       (multi_send_legs w payload end)))
      else ok [])"
  by pat_completeness auto
termination
  by (relation "measure (\<lambda>(w, payload, i). length payload - i)") (auto simp: saturating_add_def)

declare multi_send_legs.simps [simp del]

definition decode_multi_send :: "nat \<Rightarrow> string \<Rightarrow> inner_call list may_panic" where
  "decode_multi_send w data =
     (case hex_bytes data of
        None \<Rightarrow> panic
      | Some bs \<Rightarrow>
          if length bs < 4 + 64 then ok []
          else (case u32_at w bs (4 + 32 + 28) of
              None \<Rightarrow> panic
            | Some len \<Rightarrow>
                let payload = drop (4 + 64) bs
                in multi_send_legs w (take (min len (length payload)) payload) 0))"

definition exec_inner :: "nat \<Rightarrow> bytes \<Rightarrow> nat \<Rightarrow> string may_panic" where
  "exec_inner w bs data_offset =
     (if (4 + data_offset + 32) mod 2 ^ w \<le> length bs
      then (case u32_at w bs ((4 + data_offset + 28) mod 2 ^ w) of
          None \<Rightarrow> panic
        | Some len \<Rightarrow>
            (let start = (4 + data_offset + 32) mod 2 ^ w; end = saturating_add w start len
             in ok (if end \<le> length bs then to_hex (subslice start end bs) True else [])))
      else ok [])"

definition decode_exec_transaction :: "nat \<Rightarrow> string \<Rightarrow> inner_call option may_panic" where
  "decode_exec_transaction w data =
     (case hex_bytes data of
        None \<Rightarrow> panic
      | Some bs \<Rightarrow>
          if length bs < 4 + 32 * 4 then ok None
          else (case u32_at w bs (4 + 2 * 32 + 28) of
              None \<Rightarrow> panic
            | Some data_offset \<Rightarrow>
                map_option (\<lambda>inner. Some
                    \<lparr>ic_operation = bs ! (4 + 4 * 32 - 1),
                     ic_to = to_hex (subslice (4 + 12) (4 + 32) bs) True,
                     ic_data = inner\<rparr>)
                  (exec_inner w bs data_offset)))"

section \<open>The inspection\<close>

text \<open>A loop that returns at its first hit, and panics where its body panics before one.\<close>

fun first_block :: "('a \<Rightarrow> 'b option may_panic) \<Rightarrow> 'a list \<Rightarrow> 'b option may_panic" where
  "first_block f [] = ok None"
| "first_block f (x # xs) =
     (case f x of None \<Rightarrow> panic | Some (Some b) \<Rightarrow> ok (Some b) | Some None \<Rightarrow> first_block f xs)"

lemma first_block_cong [fundef_cong]:
  "xs = ys \<Longrightarrow> (\<And>x. x \<in> set ys \<Longrightarrow> f x = g x) \<Longrightarrow> first_block f xs = first_block g ys"
  by (induction ys arbitrary: xs) (auto split: option.splits)

function inspect_call ::
  "nat \<Rightarrow> string \<Rightarrow> string \<Rightarrow> string \<Rightarrow> u32 option \<Rightarrow> bool \<Rightarrow> nat \<Rightarrow> self_call_block option may_panic"
where
  "inspect_call w to data safe leg_index nested depth =
     (case selector_of data of
        None \<Rightarrow> panic
      | Some None \<Rightarrow> ok None
      | Some (Some selector) \<Rightarrow>
          (case (if same_address to safe then blocked_function selector else None) of
             Some f \<Rightarrow> ok (Some \<lparr>scb_function = f, scb_selector = selector,
                                scb_leg_index = leg_index, scb_nested = nested\<rparr>)
           | None \<Rightarrow>
               if MAX_DEPTH \<le> depth then ok None
               else
                 (let leg = (\<lambda>inner.
                        if ic_operation inner = 1
                        then map_option (\<lambda>s. Some \<lparr>scb_function = DelegateCall,
                               scb_selector = unwrap_or s [], scb_leg_index = leg_index,
                               scb_nested = True\<rparr>) (selector_of (ic_data inner))
                        else inspect_call w (ic_to inner) (ic_data inner) safe leg_index True (depth + 1));
                      batch = (if eq_ignore_ascii_case selector MULTI_SEND
                        then (case decode_multi_send w data of
                            None \<Rightarrow> panic
                          | Some legs \<Rightarrow> first_block leg legs)
                        else ok None)
                  in case batch of
                       None \<Rightarrow> panic
                     | Some (Some b) \<Rightarrow> ok (Some b)
                     | Some None \<Rightarrow>
                         if eq_ignore_ascii_case selector EXEC_TRANSACTION
                         then (case decode_exec_transaction w data of
                             None \<Rightarrow> panic
                           | Some None \<Rightarrow> ok None
                           | Some (Some inner) \<Rightarrow> leg inner)
                         else ok None)))"
  by pat_completeness auto
termination
  by (relation "measure (\<lambda>(w, to, data, safe, leg_index, nested, depth). MAX_DEPTH - depth)") auto

declare inspect_call.simps [simp del]

section \<open>The verdict on a request\<close>

definition str_field :: "json \<Rightarrow> string \<Rightarrow> string option" where
  "str_field v key = Option.bind (get v key) as_str"

definition is_safe_tx :: "(string \<Rightarrow> json option) \<Rightarrow> json \<Rightarrow> bool" where
  "is_safe_tx from_str entry =
     (let parsed = (case entry of String raw \<Rightarrow> from_str raw | Object _ \<Rightarrow> Some entry | _ \<Rightarrow> None)
      in case parsed of None \<Rightarrow> False
         | Some doc \<Rightarrow> Option.bind (get doc ''primaryType'') as_str = Some ''SafeTx'')"

definition detect_safe_tx_typed_data :: "(string \<Rightarrow> json option) \<Rightarrow> json \<Rightarrow> self_call_block option" where
  "detect_safe_tx_typed_data from_str params =
     (case as_array params of
        None \<Rightarrow> None
      | Some entries \<Rightarrow>
          if list_ex (is_safe_tx from_str) entries
          then Some \<lparr>scb_function = SafeTxTypedData, scb_selector = [], scb_leg_index = None,
                     scb_nested = False\<rparr>
          else None)"

definition inspect_leg :: "nat \<Rightarrow> string \<Rightarrow> nat \<times> json \<Rightarrow> self_call_block option may_panic" where
  "inspect_leg w safe ic =
     (case ic of (index, call) \<Rightarrow>
       (case str_field call ''to'' of
          None \<Rightarrow> ok None
        | Some to \<Rightarrow> inspect_call w to (unwrap_or (str_field call ''data'') []) safe
                       (Some (of_nat index + 1)) False 0))"

definition detect_self_call ::
  "nat \<Rightarrow> (string \<Rightarrow> json option) \<Rightarrow> string \<Rightarrow> json option \<Rightarrow> string \<Rightarrow> self_call_block option may_panic"
where
  "detect_self_call w from_str method params safe =
     (case params of
        None \<Rightarrow> ok None
      | Some params \<Rightarrow>
          if trim safe = [] then ok None
          else if contains method ''signTypedData'' then ok (detect_safe_tx_typed_data from_str params)
          else if method = ''eth_sendTransaction'' then
            (case get_index params 0 of
               None \<Rightarrow> ok None
             | Some tx \<Rightarrow>
                 (case str_field tx ''to'' of
                    None \<Rightarrow> ok None
                  | Some to \<Rightarrow>
                      inspect_call w to (unwrap_or (str_field tx ''data'') []) safe None False 0))
          else if method = ''wallet_sendCalls'' then
            (case Option.bind (get_index params 0) (\<lambda>first. Option.bind (get first ''calls'') as_array) of
               None \<Rightarrow> ok None
             | Some calls \<Rightarrow> first_block (inspect_leg w safe) (List.enumerate 0 calls))
          else ok None)"

definition enforce_no_self_call ::
  "nat \<Rightarrow> (string \<Rightarrow> json option) \<Rightarrow> string \<Rightarrow> json option \<Rightarrow> string \<Rightarrow> (self_call_block + unit) may_panic"
where
  "enforce_no_self_call w from_str method params safe =
     map_option (\<lambda>r. case r of Some block \<Rightarrow> Inl block | None \<Rightarrow> Inr ())
       (detect_self_call w from_str method params safe)"

section \<open>Hexadecimal data is read in full and never panics\<close>

lemma printable_hex_digit: "d < 16 \<Longrightarrow> printable (hex_digit d)"
  by (simp add: printable_def hex_digit_def)

lemma printable_byte_hex: "c \<in> set (concat (map byte_hex d)) \<Longrightarrow> printable c"
  by (auto simp: byte_hex_def intro: printable_hex_digit)

lemma trim_to_hex: "trim (to_hex d True) = to_hex d True"
proof (rule trim_id)
  have "printable (last (''0x'' @ concat (map byte_hex d)))"
  proof (cases "concat (map byte_hex d) = []")
    case True
    then show ?thesis by (simp only:) (simp add: printable_def)
  next
    case False
    then show ?thesis by (metis last_appendR last_in_set printable_byte_hex)
  qed
  then show "to_hex d True = [] \<or> printable (hd (to_hex d True)) \<and> printable (last (to_hex d True))"
    by (simp add: to_hex_def printable_def [of "CHR ''0''"])
qed

lemma trim_start_0x_id: "\<not> starts_with s ''0x'' \<Longrightarrow> trim_start_0x s = s"
  by (cases s rule: trim_start_0x.cases) (auto simp: starts_with_def numeral_2_eq_2)

lemma trim_start_0x_to_hex: "trim_start_0x (to_hex d True) = concat (map byte_hex d)"
proof -
  have "trim_start_0x (concat (map byte_hex d)) = concat (map byte_hex d)"
    by (rule trim_start_0x_id) (rule byte_hex_not_0x)
  then show ?thesis by (simp add: to_hex_def)
qed

lemma subslice_byte_hex:
  "k < length d \<Longrightarrow> subslice (2 * k) (2 * k + 2) (concat (map byte_hex d)) = byte_hex (d ! k)"
proof (induction d arbitrary: k)
  case Nil
  then show ?case by simp
next
  case (Cons b d)
  show ?case
  proof (cases k)
    case 0
    then show ?thesis by (simp add: subslice_def byte_hex_def numeral_2_eq_2)
  next
    case (Suc j)
    with Cons show ?thesis by (simp add: subslice_def byte_hex_def)
  qed
qed

lemma is_char_boundary_ascii: "is_ascii s \<Longrightarrow> i \<le> length s \<Longrightarrow> is_char_boundary s i"
proof -
  assume "is_ascii s" and "i \<le> length s"
  then have "i < length s \<Longrightarrow> \<not> 128 \<le> byte_of (s ! i)" by (simp add: is_ascii_def not_le)
  with \<open>i \<le> length s\<close> show ?thesis by (auto simp: is_char_boundary_def le_less)
qed

lemma is_ascii_byte_hex: "is_ascii (concat (map byte_hex d))"
  using printable_byte_hex by (force simp: is_ascii_def printable_def)

lemma from_str_radix_byte_hex: "from_str_radix 8 16 (byte_hex b) = Some (unat b)"
proof -
  have "unat b mod 16 < 16" by simp
  moreover have "hex_digit (unat b div 16) \<noteq> CHR ''+''" by simp
  ultimately show ?thesis
    by (simp add: byte_hex_def from_str_radix_pair)
qed

lemma hex_bytes_from_byte_hex:
  "hex_bytes_from (concat (map byte_hex d)) (2 * length d) (2 * k) = Some (drop k d)"
proof (induction "length d - k" arbitrary: k)
  case 0
  then show ?case by (simp add: hex_bytes_from.simps)
next
  case (Suc n)
  then have k: "k < length d" by simp
  have "str_slice (concat (map byte_hex d)) (2 * k) (2 * k + 2) = Some (byte_hex (d ! k))"
    using k subslice_byte_hex [OF k] is_char_boundary_ascii [OF is_ascii_byte_hex]
    by (simp add: str_slice_def)
  moreover have "hex_bytes_from (concat (map byte_hex d)) (2 * length d) (2 * k + 2) = Some (drop (Suc k) d)"
    using Suc.hyps(1) [of "Suc k"] Suc.hyps(2) by simp
  ultimately show ?case
    using k by (simp add: hex_bytes_from.simps [of _ _ "2 * k"] from_str_radix_byte_hex
        Cons_nth_drop_Suc)
qed

lemma hex_bytes_to_hex [simp]: "hex_bytes (to_hex d True) = Some d"
  using hex_bytes_from_byte_hex [of d 0]
  by (simp add: hex_bytes_def trim_to_hex trim_start_0x_to_hex Let_def)

lemma hex_bytes_from_ascii: "is_ascii body \<Longrightarrow> usable \<le> length body \<Longrightarrow> even (usable - i) \<Longrightarrow>
  hex_bytes_from body usable i \<noteq> None"
proof (induction body usable i rule: hex_bytes_from.induct)
  case (1 body usable i)
  show ?case
  proof (cases "usable \<le> i")
    case True
    then show ?thesis by (simp add: hex_bytes_from.simps)
  next
    case False
    with "1.prems"(3) have "i + 2 \<le> usable" by presburger
    with "1.prems" have sl: "str_slice body i (i + 2) = Some (subslice i (i + 2) body)"
      by (simp add: str_slice_def is_char_boundary_ascii)
    have "even (usable - (i + 2))" using "1.prems"(3) \<open>i + 2 \<le> usable\<close> by presburger
    with "1.IH" [OF False sl] "1.prems" show ?thesis
      unfolding hex_bytes_from.simps [of body usable i] sl option.case
      by (auto split: option.split)
  qed
qed

lemma hex_bytes_ascii: "is_ascii data \<Longrightarrow> hex_bytes data \<noteq> None"
proof -
  assume "is_ascii data"
  then have "is_ascii (trim_start_0x (trim data))"
    using trim_start_0x_subset [of "trim data"] trim_subset [of data] by (auto simp: is_ascii_def)
  then show ?thesis
    unfolding hex_bytes_def Let_def by (rule hex_bytes_from_ascii) simp_all
qed

section \<open>What a call carries\<close>

text \<open>
  The calls a call's data makes: the legs of a \<open>multiSend\<close> payload and the inner call of an
  \<open>execTransaction\<close>. \<open>reaches w c n e\<close>: executing \<open>c\<close> performs \<open>e\<close>, \<open>n\<close> wrappers down.
\<close>

definition carried :: "nat \<Rightarrow> string \<Rightarrow> inner_call list" where
  "carried w data =
     (case selector_of data of
        Some (Some sel) \<Rightarrow>
          (if eq_ignore_ascii_case sel MULTI_SEND then unwrap_or (decode_multi_send w data) [] else [])
          @ (if eq_ignore_ascii_case sel EXEC_TRANSACTION
             then (case decode_exec_transaction w data of Some (Some c) \<Rightarrow> [c] | _ \<Rightarrow> []) else [])
      | _ \<Rightarrow> [])"

inductive reaches :: "nat \<Rightarrow> inner_call \<Rightarrow> nat \<Rightarrow> inner_call \<Rightarrow> bool" for w where
  itself: "reaches w c 0 c"
| inside: "d \<in> set (carried w (ic_data c)) \<Longrightarrow> reaches w d n e \<Longrightarrow> reaches w c (Suc n) e"

inductive_simps reaches_0: "reaches w c 0 e"

text \<open>A call that rewrites who controls the account: one of the blocked functions, on the account.\<close>

definition seizes :: "string \<Rightarrow> inner_call \<Rightarrow> bool" where
  "seizes safe c \<longleftrightarrow>
     same_address (ic_to c) safe
     \<and> (case selector_of (ic_data c) of Some (Some sel) \<Rightarrow> blocked_function sel \<noteq> None | _ \<Rightarrow> False)"

text \<open>Nothing within the given number of wrappers seizes the account or delegates into it.\<close>

definition harmless :: "nat \<Rightarrow> string \<Rightarrow> nat \<Rightarrow> inner_call \<Rightarrow> bool" where
  "harmless w safe depth c \<longleftrightarrow>
     (\<forall>n e. n \<le> depth \<longrightarrow> reaches w c n e \<longrightarrow> \<not> seizes safe e \<and> (0 < n \<longrightarrow> ic_operation e \<noteq> 1))"

definition inspect_inner ::
  "nat \<Rightarrow> string \<Rightarrow> u32 option \<Rightarrow> nat \<Rightarrow> inner_call \<Rightarrow> self_call_block option may_panic" where
  "inspect_inner w safe leg_index depth inner =
     (if ic_operation inner = 1
      then map_option (\<lambda>s. Some \<lparr>scb_function = DelegateCall,
             scb_selector = unwrap_or s [], scb_leg_index = leg_index,
             scb_nested = True\<rparr>) (selector_of (ic_data inner))
      else inspect_call w (ic_to inner) (ic_data inner) safe leg_index True (depth + 1))"

lemma first_block_None: "first_block f xs = Some None \<longleftrightarrow> (\<forall>x\<in>set xs. f x = Some None)"
  by (induction xs) (auto split: option.splits)

lemma first_block_Some: "first_block f xs = Some (Some b) \<Longrightarrow> \<exists>x\<in>set xs. f x = Some (Some b)"
  by (induction xs) (auto split: option.splits)

lemma first_block_panic: "first_block f xs = None \<Longrightarrow> \<exists>x\<in>set xs. f x = None"
  by (induction xs) (auto split: option.splits)

lemma bind_eq_case: "Option.bind x f = (case x of None \<Rightarrow> None | Some y \<Rightarrow> f y)"
  by (cases x) simp_all

text \<open>One level of the inspection.\<close>

lemma inspect_call_unfold:
  "inspect_call w to data safe leg nested depth =
     (case selector_of data of
        None \<Rightarrow> None
      | Some None \<Rightarrow> Some None
      | Some (Some sel) \<Rightarrow>
          (case (if same_address to safe then blocked_function sel else None) of
             Some f \<Rightarrow> Some (Some \<lparr>scb_function = f, scb_selector = sel, scb_leg_index = leg, scb_nested = nested\<rparr>)
           | None \<Rightarrow>
               if MAX_DEPTH \<le> depth then Some None
               else
                 (case (if eq_ignore_ascii_case sel MULTI_SEND
                        then Option.bind (decode_multi_send w data) (first_block (inspect_inner w safe leg depth))
                        else Some None) of
                    None \<Rightarrow> None
                  | Some (Some b) \<Rightarrow> Some (Some b)
                  | Some None \<Rightarrow>
                      if eq_ignore_ascii_case sel EXEC_TRANSACTION
                      then Option.bind (decode_exec_transaction w data)
                             (\<lambda>inner. case inner of None \<Rightarrow> Some None | Some c \<Rightarrow> inspect_inner w safe leg depth c)
                      else Some None)))"
  unfolding inspect_call.simps [of w to data safe leg nested depth] inspect_inner_def [abs_def] Let_def bind_eq_case
  by (rule refl)

lemma inspect_call_no_selector:
  "selector_of data = Some None \<Longrightarrow> inspect_call w to data safe leg nested depth = Some None"
  "selector_of data = None \<Longrightarrow> inspect_call w to data safe leg nested depth = None"
  by (simp_all add: inspect_call_unfold)

lemma inspect_call_selector:
  assumes "selector_of data = Some (Some sel)"
  shows "same_address to safe \<and> blocked_function sel \<noteq> None \<Longrightarrow>
      inspect_call w to data safe leg nested depth = Some (Some \<lparr>scb_function = the (blocked_function sel),
        scb_selector = sel, scb_leg_index = leg, scb_nested = nested\<rparr>)"
    and "\<not> (same_address to safe \<and> blocked_function sel \<noteq> None) \<Longrightarrow> MAX_DEPTH \<le> depth \<Longrightarrow>
      inspect_call w to data safe leg nested depth = Some None"
    and "\<not> (same_address to safe \<and> blocked_function sel \<noteq> None) \<Longrightarrow> depth < MAX_DEPTH \<Longrightarrow>
      inspect_call w to data safe leg nested depth =
        (case (if eq_ignore_ascii_case sel MULTI_SEND
               then Option.bind (decode_multi_send w data) (first_block (inspect_inner w safe leg depth))
               else Some None) of
           None \<Rightarrow> None
         | Some (Some b) \<Rightarrow> Some (Some b)
         | Some None \<Rightarrow>
             if eq_ignore_ascii_case sel EXEC_TRANSACTION
             then Option.bind (decode_exec_transaction w data)
                    (\<lambda>inner. case inner of None \<Rightarrow> Some None | Some c \<Rightarrow> inspect_inner w safe leg depth c)
             else Some None)"
proof -
  assume "same_address to safe \<and> blocked_function sel \<noteq> None"
  then show "inspect_call w to data safe leg nested depth =
      Some (Some \<lparr>scb_function = the (blocked_function sel), scb_selector = sel,
        scb_leg_index = leg, scb_nested = nested\<rparr>)"
    using assms by (auto simp: inspect_call_unfold)
next
  assume no: "\<not> (same_address to safe \<and> blocked_function sel \<noteq> None)"
  then have none: "(if same_address to safe then blocked_function sel else None) = None" by auto
  show "MAX_DEPTH \<le> depth \<Longrightarrow> inspect_call w to data safe leg nested depth = Some None"
    by (simp only: inspect_call_unfold assms none option.case if_True)
  show "depth < MAX_DEPTH \<Longrightarrow> inspect_call w to data safe leg nested depth =
        (case (if eq_ignore_ascii_case sel MULTI_SEND
               then Option.bind (decode_multi_send w data) (first_block (inspect_inner w safe leg depth))
               else Some None) of
           None \<Rightarrow> None
         | Some (Some b) \<Rightarrow> Some (Some b)
         | Some None \<Rightarrow>
             if eq_ignore_ascii_case sel EXEC_TRANSACTION
             then Option.bind (decode_exec_transaction w data)
                    (\<lambda>inner. case inner of None \<Rightarrow> Some None | Some c \<Rightarrow> inspect_inner w safe leg depth c)
             else Some None)"
    by (simp only: inspect_call_unfold assms none option.case if_False not_le [symmetric])
qed

lemma carried_iff:
  assumes "selector_of data = Some (Some sel)"
  shows "e \<in> set (carried w data) \<longleftrightarrow>
    (eq_ignore_ascii_case sel MULTI_SEND \<and> (\<exists>legs. decode_multi_send w data = Some legs \<and> e \<in> set legs))
    \<or> (eq_ignore_ascii_case sel EXEC_TRANSACTION \<and> decode_exec_transaction w data = Some (Some e))"
proof -
  have "e \<in> set (unwrap_or (decode_multi_send w data) []) \<longleftrightarrow>
      (\<exists>legs. decode_multi_send w data = Some legs \<and> e \<in> set legs)"
    by (cases "decode_multi_send w data") simp_all
  moreover have "e \<in> set (case decode_exec_transaction w data of Some (Some c) \<Rightarrow> [c] | _ \<Rightarrow> []) \<longleftrightarrow>
      decode_exec_transaction w data = Some (Some e)"
    by (auto split: option.split)
  ultimately show ?thesis
    unfolding carried_def assms option.case set_append Un_iff by (simp only: if_distrib if_split) simp
qed

lemma then_block_None:
  "(case b of None \<Rightarrow> None | Some None \<Rightarrow> e | Some (Some x) \<Rightarrow> Some (Some x)) = Some None
     \<longleftrightarrow> b = Some None \<and> e = Some None"
  by (cases b) (auto split: option.split)

lemma then_block_Some:
  "(case b of None \<Rightarrow> None | Some None \<Rightarrow> e | Some (Some x) \<Rightarrow> Some (Some x)) = Some (Some y)
     \<longleftrightarrow> b = Some (Some y) \<or> (b = Some None \<and> e = Some (Some y))"
  by (cases b) (auto split: option.split)

lemma guarded_Some: "(if g then x else Some None) = Some (Some y) \<longleftrightarrow> g \<and> x = Some (Some y)"
  by simp

lemma inspect_call_None:
  assumes "inspect_call w (ic_to c) (ic_data c) safe leg nested depth = Some None"
  shows "\<not> seizes safe c
    \<and> (depth < MAX_DEPTH \<longrightarrow> (\<forall>e\<in>set (carried w (ic_data c)). inspect_inner w safe leg depth e = Some None))"
proof (cases "selector_of (ic_data c)")
  case None
  with assms show ?thesis by (simp add: inspect_call_no_selector)
next
  case (Some s)
  show ?thesis
  proof (cases s)
    case None
    with Some show ?thesis by (simp add: seizes_def carried_def)
  next
    case (Some sel)
    with \<open>selector_of (ic_data c) = Some s\<close> have sel: "selector_of (ic_data c) = Some (Some sel)" by simp
    have no: "\<not> (same_address (ic_to c) safe \<and> blocked_function sel \<noteq> None)"
      using assms inspect_call_selector(1) [OF sel] by (metis option.distinct(1) option.sel)
    have "inspect_inner w safe leg depth e = Some None"
      if "depth < MAX_DEPTH" "e \<in> set (carried w (ic_data c))" for e
    proof -
      note parts = assms [unfolded inspect_call_selector(3) [OF sel no that(1)] then_block_None]
      from that(2) consider
        legs where "eq_ignore_ascii_case sel MULTI_SEND" "decode_multi_send w (ic_data c) = Some legs" "e \<in> set legs"
        | "eq_ignore_ascii_case sel EXEC_TRANSACTION" "decode_exec_transaction w (ic_data c) = Some (Some e)"
        unfolding carried_iff [OF sel] by blast
      then show ?thesis
      proof cases
        case 1
        then have "first_block (inspect_inner w safe leg depth) legs = Some None" using parts by simp
        with 1(3) show ?thesis unfolding first_block_None by blast
      next
        case 2
        then show ?thesis using parts by simp
      qed
    qed
    with sel no show ?thesis by (auto simp: seizes_def)
  qed
qed

lemma inspect_call_Some:
  assumes "inspect_call w (ic_to c) (ic_data c) safe leg nested depth = Some (Some b)"
  shows "seizes safe c
    \<or> (depth < MAX_DEPTH \<and> (\<exists>e\<in>set (carried w (ic_data c)). inspect_inner w safe leg depth e = Some (Some b)))"
proof -
  obtain sel where sel: "selector_of (ic_data c) = Some (Some sel)"
    using assms inspect_call_no_selector by (metis not_None_eq option.sel)
  show ?thesis
  proof (cases "same_address (ic_to c) safe \<and> blocked_function sel \<noteq> None")
    case True
    with sel show ?thesis by (simp add: seizes_def)
  next
    case False
    with assms inspect_call_selector(2) [OF sel False] have depth: "depth < MAX_DEPTH"
      by (metis not_le option.distinct(1) option.sel)
    have "\<exists>e\<in>set (carried w (ic_data c)). inspect_inner w safe leg depth e = Some (Some b)"
    proof -
      note parts = assms [unfolded inspect_call_selector(3) [OF sel False depth] then_block_Some]
      show ?thesis
      proof (cases "eq_ignore_ascii_case sel MULTI_SEND
          \<and> Option.bind (decode_multi_send w (ic_data c)) (first_block (inspect_inner w safe leg depth)) = Some (Some b)")
        case True
        then obtain legs where legs: "decode_multi_send w (ic_data c) = Some legs"
            "first_block (inspect_inner w safe leg depth) legs = Some (Some b)"
          unfolding bind_eq_Some_conv by blast
        from first_block_Some [OF legs(2)] obtain e where
          e: "e \<in> set legs" "inspect_inner w safe leg depth e = Some (Some b)" by blast
        with True legs(1) have "e \<in> set (carried w (ic_data c))"
          unfolding carried_iff [OF sel] by blast
        with e(2) show ?thesis by blast
      next
        case no_leg: False
        with parts [unfolded guarded_Some] have exec: "eq_ignore_ascii_case sel EXEC_TRANSACTION
            \<and> Option.bind (decode_exec_transaction w (ic_data c))
                 (\<lambda>inner. case inner of None \<Rightarrow> Some None | Some c \<Rightarrow> inspect_inner w safe leg depth c)
               = Some (Some b)"
          by argo
        then obtain d where d: "decode_exec_transaction w (ic_data c) = Some (Some d)"
            "inspect_inner w safe leg depth d = Some (Some b)"
          unfolding bind_eq_Some_conv by (metis option.case option.distinct(1) option.exhaust option.sel)
        with exec have "d \<in> set (carried w (ic_data c))" unfolding carried_iff [OF sel] by blast
        with d(2) show ?thesis by blast
      qed
    qed
    with depth show ?thesis by blast
  qed
qed

lemma inspect_call_complete:
  assumes "reaches w c n e" and "depth + n \<le> MAX_DEPTH"
    and "inspect_call w (ic_to c) (ic_data c) safe leg nested depth = Some None"
  shows "\<not> seizes safe e \<and> (0 < n \<longrightarrow> ic_operation e \<noteq> 1)"
  using assms
proof (induction arbitrary: depth nested rule: reaches.induct)
  case (itself c)
  then show ?case using inspect_call_None by blast
next
  case (inside d c n e)
  have "inspect_inner w safe leg depth d = Some None"
    using inspect_call_None [OF inside.prems(2)] inside.hyps(1) inside.prems(1) by simp
  then have d: "ic_operation d \<noteq> 1"
      "inspect_call w (ic_to d) (ic_data d) safe leg True (depth + 1) = Some None"
    by (auto simp: inspect_inner_def split: if_splits)
  have "\<not> seizes safe e \<and> (0 < n \<longrightarrow> ic_operation e \<noteq> 1)"
    using inside.IH [OF _ d(2)] inside.prems(1) by simp
  moreover have "n = 0 \<Longrightarrow> e = d" using inside.hyps(2) by (simp add: reaches_0)
  ultimately show ?case using d(1) by (cases n) auto
qed

lemma inspect_call_sound:
  assumes "inspect_call w (ic_to c) (ic_data c) safe leg nested depth = Some (Some b)"
  shows "\<exists>n e. depth + n \<le> max depth MAX_DEPTH \<and> reaches w c n e \<and> (seizes safe e \<or> (0 < n \<and> ic_operation e = 1))"
  using assms
proof (induction "MAX_DEPTH - depth" arbitrary: c nested depth)
  case 0
  then have "seizes safe c" using inspect_call_Some [OF 0(2)] by auto
  then show ?case by (intro exI [of _ 0] exI [of _ c]) (auto intro: itself)
next
  case (Suc k)
  from inspect_call_Some [OF Suc.prems] consider "seizes safe c"
    | d where "d \<in> set (carried w (ic_data c))" "inspect_inner w safe leg depth d = Some (Some b)"
    by blast
  then show ?case
  proof cases
    case 1
    then show ?thesis by (intro exI [of _ 0] exI [of _ c]) (auto intro: itself)
  next
    case 2
    show ?thesis
    proof (cases "ic_operation d = 1")
      case True
      with 2(1) Suc.hyps(2) show ?thesis
        by (intro exI [of _ 1] exI [of _ d]) (auto intro: inside itself)
    next
      case False
      with 2(2) have "inspect_call w (ic_to d) (ic_data d) safe leg True (depth + 1) = Some (Some b)"
        by (simp add: inspect_inner_def)
      moreover have "k = MAX_DEPTH - (depth + 1)" using Suc.hyps(2) by simp
      ultimately obtain n e where
        "depth + 1 + n \<le> max (depth + 1) MAX_DEPTH" "reaches w d n e"
        "seizes safe e \<or> 0 < n \<and> ic_operation e = 1"
        using Suc.hyps(1) by blast
      with 2(1) Suc.hyps(2) show ?thesis
        by (intro exI [of _ "Suc n"] exI [of _ e]) (auto intro: inside)
    qed
  qed
qed

text \<open>
  C37: the inspection is exact to its depth. Whenever it answers, it finds nothing exactly when no call
  reached through at most four wrappers rewrites who controls the account and none below the top is a
  \<open>delegatecall\<close>.
\<close>

theorem inspect_call_exact:
  assumes "inspect_call w (ic_to c) (ic_data c) safe leg nested 0 = Some verdict"
  shows "(verdict = None) = harmless w safe MAX_DEPTH c"
proof (cases verdict)
  case None
  with assms inspect_call_complete [where depth = 0] show ?thesis
    unfolding harmless_def by (metis add_0)
next
  case (Some b)
  with assms inspect_call_sound [of w c safe leg nested 0 b] obtain n e where
    "n \<le> MAX_DEPTH" "reaches w c n e" "seizes safe e \<or> 0 < n \<and> ic_operation e = 1" by auto
  then have "\<not> harmless w safe MAX_DEPTH c" unfolding harmless_def by blast
  with Some show ?thesis by simp
qed

section \<open>No panic on text that parses\<close>

lemma u32_at_in_range: "at + 4 \<le> length bs \<Longrightarrow> u32_at w bs at \<noteq> None"
  using mod_less_eq_dividend [of "at + 4" "2 ^ w"] by (simp add: u32_at_def)

lemma u32_at_no_wrap: "at + 4 < 2 ^ w \<Longrightarrow> u32_at w bs at \<noteq> None"
  by (simp add: u32_at_def)

lemma u32_at_bound: "u32_at w bs at = Some n \<Longrightarrow> n < 2 ^ 32"
  using nat_of_be_bound [of "subslice at (at + 4) bs"]
  by (auto simp: u32_at_def split: if_splits)

lemma multi_send_legs_total: "multi_send_legs w payload i \<noteq> None"
proof (induction w payload i rule: multi_send_legs.induct)
  case (1 w payload i)
  show ?case
  proof (cases "i + 85 \<le> length payload")
    case True
    then obtain n where n: "u32_at w payload (i + 53 + 28) = Some n"
      using u32_at_in_range [of "i + 53 + 28" payload w] by auto
    show ?thesis
      unfolding multi_send_legs.simps [of w payload i] n option.case Let_def
      using 1 [OF True n refl] by auto
  next
    case False
    then show ?thesis by (simp add: multi_send_legs.simps)
  qed
qed

lemma decode_multi_send_total: "hex_bytes data \<noteq> None \<Longrightarrow> decode_multi_send w data \<noteq> None"
proof -
  assume "hex_bytes data \<noteq> None"
  then obtain bs where bs: "hex_bytes data = Some bs" by blast
  show ?thesis
  proof (cases "length bs < 4 + 64")
    case True
    then show ?thesis by (simp add: decode_multi_send_def bs)
  next
    case False
    then obtain n where "u32_at w bs (4 + 32 + 28) = Some n"
      using u32_at_in_range [of "4 + 32 + 28" bs w] by auto
    with False multi_send_legs_total show ?thesis by (simp add: decode_multi_send_def bs Let_def)
  qed
qed

lemma exec_inner_total:
  assumes "33 \<le> w" and "off < 2 ^ 32"
  shows "exec_inner w bs off \<noteq> None"
proof -
  have "(2 :: nat) ^ 33 \<le> 2 ^ w" using assms(1) by (intro power_increasing) simp_all
  with assms(2) have "4 + off + 32 < 2 ^ w" by simp
  then have "u32_at w bs ((4 + off + 28) mod 2 ^ w) \<noteq> None" by (intro u32_at_no_wrap) simp
  then show ?thesis by (auto simp: exec_inner_def Let_def)
qed

lemma decode_exec_transaction_total:
  assumes "33 \<le> w" and "hex_bytes data \<noteq> None"
  shows "decode_exec_transaction w data \<noteq> None"
proof -
  obtain bs where bs: "hex_bytes data = Some bs" using assms(2) by auto
  show ?thesis
  proof (cases "length bs < 4 + 32 * 4")
    case True
    then show ?thesis by (simp add: decode_exec_transaction_def bs)
  next
    case False
    then obtain off where off: "u32_at w bs (4 + 2 * 32 + 28) = Some off"
      using u32_at_in_range [of "4 + 2 * 32 + 28" bs w] by auto
    from exec_inner_total [OF assms(1) u32_at_bound [OF off]] False off show ?thesis
      by (auto simp: decode_exec_transaction_def bs)
  qed
qed

lemma hex_bytes_Nil [simp]: "hex_bytes [] = Some []"
  by (simp add: hex_bytes_def hex_bytes_from.simps)

lemma multi_send_legs_data:
  "multi_send_legs w payload i = Some legs \<Longrightarrow> e \<in> set legs \<Longrightarrow> hex_bytes (ic_data e) \<noteq> None"
proof (induction w payload i arbitrary: legs rule: multi_send_legs.induct)
  case (1 w payload i)
  show ?case
  proof (cases "i + 85 \<le> length payload")
    case True
    then obtain n where n: "u32_at w payload (i + 53 + 28) = Some n"
      using u32_at_in_range [of "i + 53 + 28" payload w] by auto
    show ?thesis
      using "1.prems" "1.IH" [OF True n refl]
      unfolding multi_send_legs.simps [of w payload i] n option.case Let_def
      by (auto simp: True split: if_splits)
  next
    case False
    with "1.prems" show ?thesis by (simp add: multi_send_legs.simps)
  qed
qed

lemma decode_exec_data:
  assumes "decode_exec_transaction w data = Some (Some e)"
  shows "\<exists>bs off. exec_inner w bs off = Some (ic_data e)"
proof -
  obtain bs where bs: "hex_bytes data = Some bs"
    using assms by (cases "hex_bytes data") (simp_all add: decode_exec_transaction_def)
  have long: "\<not> length bs < 4 + 32 * 4"
    using assms by (rule contrapos_pn) (simp add: decode_exec_transaction_def bs)
  obtain off where off: "u32_at w bs (4 + 2 * 32 + 28) = Some off"
    using assms long by (cases "u32_at w bs (4 + 2 * 32 + 28)") (simp_all add: decode_exec_transaction_def bs)
  obtain inner where inner: "exec_inner w bs off = Some inner"
    using assms long off by (cases "exec_inner w bs off") (simp_all add: decode_exec_transaction_def bs)
  have "decode_exec_transaction w data = Some (Some
      \<lparr>ic_operation = bs ! (4 + 4 * 32 - 1), ic_to = to_hex (subslice (4 + 12) (4 + 32) bs) True,
       ic_data = inner\<rparr>)"
    using long off inner by (simp add: decode_exec_transaction_def bs)
  with assms have "ic_data e = inner" by (metis inner_call.select_convs(3) option.sel)
  with inner show ?thesis by blast
qed

lemma carried_no_selector: "selector_of data = Some None \<Longrightarrow> carried w data = []"
  by (simp add: carried_def)

lemma exec_inner_data: "exec_inner w bs off = Some x \<Longrightarrow> x = [] \<or> (\<exists>d. x = to_hex d True)"
  by (auto simp: exec_inner_def Let_def split: option.splits if_splits)

lemma carried_data: "e \<in> set (carried w data) \<Longrightarrow> hex_bytes (ic_data e) \<noteq> None"
proof (cases "selector_of data")
  case None
  then show "e \<in> set (carried w data) \<Longrightarrow> ?thesis" by (simp add: carried_def)
next
  case (Some s)
  assume e: "e \<in> set (carried w data)"
  then have "selector_of data \<noteq> Some None" using carried_no_selector by fastforce
  with Some obtain sel where sel: "selector_of data = Some (Some sel)" by (cases s) simp_all
  from e [unfolded carried_iff [OF sel]] show ?thesis
  proof (elim disjE conjE exE)
    fix legs
    assume "decode_multi_send w data = Some legs" and "e \<in> set legs"
    then show ?thesis
      by (auto simp: decode_multi_send_def Let_def dest: multi_send_legs_data
          split: option.splits if_splits)
  next
    assume "decode_exec_transaction w data = Some (Some e)"
    from decode_exec_data [OF this] obtain bs off where
      "exec_inner w bs off = Some (ic_data e)" by blast
    then have "ic_data e = [] \<or> (\<exists>d. ic_data e = to_hex d True)"
      by (rule exec_inner_data)
    then show ?thesis by auto
  qed
qed

lemma inspect_call_total:
  assumes "33 \<le> w" and "hex_bytes data \<noteq> None"
  shows "inspect_call w to data safe leg nested depth \<noteq> None"
  using assms(2)
proof (induction "MAX_DEPTH - depth" arbitrary: to data nested depth)
  case 0
  then show ?case
    by (auto simp: inspect_call_unfold selector_of_def split: option.split)
next
  case (Suc k)
  then have depth: "depth < MAX_DEPTH" and k: "k = MAX_DEPTH - (depth + 1)" by simp_all
  obtain s where s: "selector_of data = Some s" using Suc.prems by (auto simp: selector_of_def)
  show ?case
  proof (cases s)
    case None
    with s show ?thesis by (simp add: inspect_call_no_selector)
  next
    case (Some sel)
    with s have sel: "selector_of data = Some (Some sel)" by simp
    have inner: "inspect_inner w safe leg depth e \<noteq> None" if "e \<in> set (carried w data)" for e
      using Suc.hyps(1) [OF k carried_data [OF that]] carried_data [OF that]
      by (auto simp: inspect_inner_def selector_of_def)
    obtain legs where legs: "decode_multi_send w data = Some legs"
      using decode_multi_send_total [OF Suc.prems, of w] by blast
    obtain exec where exec: "decode_exec_transaction w data = Some exec"
      using decode_exec_transaction_total [OF assms(1) Suc.prems] by blast
    have batch: "first_block (inspect_inner w safe leg depth) legs \<noteq> None"
      if "eq_ignore_ascii_case sel MULTI_SEND"
      using first_block_panic [of "inspect_inner w safe leg depth" legs] inner that legs
      unfolding carried_iff [OF sel] by blast
    have wrapped: "(case exec of None \<Rightarrow> Some None | Some c \<Rightarrow> inspect_inner w safe leg depth c) \<noteq> None"
      if "eq_ignore_ascii_case sel EXEC_TRANSACTION"
      using inner that exec unfolding carried_iff [OF sel] by (cases exec) auto
    show ?thesis
    proof (cases "same_address to safe \<and> blocked_function sel \<noteq> None")
      case True
      then show ?thesis by (simp add: inspect_call_selector(1) [OF sel True])
    next
      case False
      show ?thesis
        unfolding inspect_call_selector(3) [OF sel False depth] legs exec bind.bind_lunit
        using batch wrapped by (auto split: option.split)
    qed
  qed
qed

section \<open>A batch is read as it was written\<close>

text \<open>A leg with a 20-byte target and a 32-byte value, packed as \<open>multiSend\<close> expects it.\<close>

record packed_leg =
  pl_operation :: u8
  pl_to :: bytes
  pl_value :: bytes
  pl_data :: bytes

definition well_formed_leg :: "packed_leg \<Rightarrow> bool" where
  "well_formed_leg l \<longleftrightarrow> length (pl_to l) = 20 \<and> length (pl_value l) = 32"

definition pack_leg :: "packed_leg \<Rightarrow> bytes" where
  "pack_leg l = pl_operation l # pl_to l @ pl_value l
     @ zeros 28 @ be_of_nat 4 (length (pl_data l)) @ pl_data l"

definition pack_multi_send :: "packed_leg list \<Rightarrow> bytes" where
  "pack_multi_send legs =
     (let payload = concat (map pack_leg legs)
      in [0x8d, 0x80, 0xff, 0x0a] @ zeros 31 @ [0x20] @ zeros 28 @ be_of_nat 4 (length payload) @ payload)"

definition leg_call :: "packed_leg \<Rightarrow> inner_call" where
  "leg_call l = \<lparr>ic_operation = pl_operation l, ic_to = to_hex (pl_to l) True,
                 ic_data = to_hex (pl_data l) True\<rparr>"

lemma subslice_append_mid: "subslice (length a) (length a + length b) (a @ b @ c) = b"
  by (simp add: subslice_def)

lemma u32_at_append:
  assumes "n < 2 ^ 32" and "length (a @ be_of_nat 4 n @ c) < 2 ^ w" and "at = length a"
  shows "u32_at w (a @ be_of_nat 4 n @ c) at = Some n"
  using assms subslice_append_mid [of a "be_of_nat 4 n" c]
  by (simp add: u32_at_def nat_of_be_be_of_nat_id)

lemma multi_send_legs_pack:
  assumes "\<forall>l\<in>set legs. well_formed_leg l" and "length (pre @ concat (map pack_leg legs)) < 2 ^ 32"
    and "33 \<le> w"
  shows "multi_send_legs w (pre @ concat (map pack_leg legs)) (length pre) = Some (map leg_call legs)"
  using assms(1,2)
proof (induction legs arbitrary: pre)
  case Nil
  then show ?case by (simp add: multi_send_legs.simps)
next
  case (Cons l legs)
  define rest where "rest = concat (map pack_leg legs)"
  define head where "head = pl_operation l # pl_to l @ pl_value l @ zeros 28"
  define payload where "payload = pre @ concat (map pack_leg (l # legs))"
  have wf: "length (pl_to l) = 20" "length (pl_value l) = 32"
    using Cons.prems(1) by (simp_all add: well_formed_leg_def)
  have head: "length head = 81" by (simp add: head_def wf)
  have payload: "payload = (pre @ head) @ be_of_nat 4 (length (pl_data l)) @ pl_data l @ rest"
    by (simp add: payload_def pack_leg_def head_def rest_def)
  have bound: "length payload < 2 ^ 32" using Cons.prems(2) by (simp only: payload_def)
  have "(2 :: nat) ^ 33 \<le> 2 ^ w" using assms(3) by (intro power_increasing) simp_all
  with bound have wide: "length payload < 2 ^ w" by simp
  have len: "length payload = length pre + 85 + length (pl_data l) + length rest"
    by (simp add: payload head)
  have read: "u32_at w payload (length pre + 53 + 28) = Some (length (pl_data l))"
    unfolding payload by (rule u32_at_append) (use bound wide in \<open>simp_all add: payload head\<close>)
  define stop where "stop = length pre + 85 + length (pl_data l)"
  have stop: "saturating_add w (length pre + 85) (length (pl_data l)) = stop"
    using wide len by (simp add: saturating_add_def stop_def)
  have "payload = (pre @ pack_leg l) @ rest" by (simp add: payload_def rest_def)
  moreover have "length (pre @ pack_leg l) = stop" by (simp add: pack_leg_def wf stop_def)
  ultimately have rec: "multi_send_legs w payload stop = Some (map leg_call legs)"
    using Cons.IH [of "pre @ pack_leg l"] Cons.prems by (simp add: rest_def payload_def)
  have op: "payload ! length pre = pl_operation l" by (simp add: payload head_def nth_append)
  have to: "subslice (length pre + 1) (length pre + 21) payload = pl_to l"
    by (simp add: payload head_def subslice_def wf)
  have data: "subslice (length pre + 85) stop payload = pl_data l"
    using head by (simp add: payload subslice_def stop_def)
  have "multi_send_legs w payload (length pre) = Some (leg_call l # map leg_call legs)"
    unfolding multi_send_legs.simps [of w payload "length pre"] read option.case stop Let_def rec op to data
    using len by (simp add: stop_def leg_call_def)
  then show ?case by (simp add: payload_def)
qed

lemma decode_multi_send_pack:
  assumes "\<forall>l\<in>set legs. well_formed_leg l" and "length (pack_multi_send legs) + length pad < 2 ^ 32"
    and "33 \<le> w"
  shows "decode_multi_send w (to_hex (pack_multi_send legs @ pad) True) = Some (map leg_call legs)"
proof -
  define payload where "payload = concat (map pack_leg legs)"
  define head where "head = [0x8d, 0x80, 0xff, 0x0a] @ zeros 31 @ [0x20 :: u8] @ zeros 28"
  have head: "length head = 64" by (simp add: head_def)
  have bs: "pack_multi_send legs @ pad = head @ be_of_nat 4 (length payload) @ payload @ pad"
    by (simp add: pack_multi_send_def head_def payload_def Let_def)
  have bound: "68 + length payload + length pad < 2 ^ 32"
    using assms(2) by (simp add: pack_multi_send_def payload_def Let_def)
  have "(2 :: nat) ^ 33 \<le> 2 ^ w" using assms(3) by (intro power_increasing) simp_all
  with bound have wide: "68 + length payload + length pad < 2 ^ w" by simp
  have read: "u32_at w (pack_multi_send legs @ pad) (4 + 32 + 28) = Some (length payload)"
    unfolding bs by (rule u32_at_append) (use bound wide in \<open>simp_all add: head\<close>)
  have drop: "drop (4 + 64) (pack_multi_send legs @ pad) = payload @ pad"
    by (simp add: bs head)
  have "multi_send_legs w payload 0 = Some (map leg_call legs)"
    using multi_send_legs_pack [OF assms(1) _ assms(3), of "[]"] bound by (simp add: payload_def)
  moreover have "\<not> length (pack_multi_send legs @ pad) < 4 + 64" by (simp add: bs head)
  ultimately show ?thesis
    unfolding decode_multi_send_def hex_bytes_to_hex option.case read Let_def drop
    by (simp only: if_False) simp
qed

section \<open>What a passed request cannot do\<close>

text \<open>The calls of a request, as the wallet would execute them from the account.\<close>

definition call_from :: "json \<Rightarrow> inner_call list" where
  "call_from call =
     (case str_field call ''to'' of
        None \<Rightarrow> []
      | Some to \<Rightarrow> [\<lparr>ic_operation = 0, ic_to = to, ic_data = unwrap_or (str_field call ''data'') []\<rparr>])"

definition request_calls :: "string \<Rightarrow> json \<Rightarrow> inner_call list" where
  "request_calls method params =
     (if method = ''eth_sendTransaction''
      then (case get_index params 0 of None \<Rightarrow> [] | Some tx \<Rightarrow> call_from tx)
      else if method = ''wallet_sendCalls''
      then (case Option.bind (get_index params 0) (\<lambda>first. Option.bind (get first ''calls'') as_array) of
          None \<Rightarrow> []
        | Some calls \<Rightarrow> concat (map call_from calls))
      else [])"

lemma no_typed_data:
  "\<not> contains ''eth_sendTransaction'' ''signTypedData''" "\<not> contains ''wallet_sendCalls'' ''signTypedData''"
  by code_simp+

lemma call_from_fields:
  assumes "c \<in> set (call_from call)"
  shows "str_field call ''to'' = Some (ic_to c) \<and> ic_data c = unwrap_or (str_field call ''data'') []"
proof -
  obtain to where to: "str_field call ''to'' = Some to"
    using assms by (cases "str_field call ''to''") (simp_all add: call_from_def)
  then show ?thesis using assms by (simp_all add: call_from_def)
qed

lemma inspect_leg_None:
  assumes "inspect_leg w safe (i, call) = Some None" and "c \<in> set (call_from call)"
  shows "harmless w safe MAX_DEPTH c"
proof -
  have "inspect_call w (ic_to c) (ic_data c) safe (Some (of_nat i + 1)) False 0 = Some None"
    using assms(1) call_from_fields [OF assms(2)] by (simp add: inspect_leg_def)
  from inspect_call_complete [OF _ _ this] show ?thesis
    unfolding harmless_def by (metis add_0)
qed

lemma in_enumerate_snd: "x \<in> set xs \<Longrightarrow> \<exists>i. (i, x) \<in> set (List.enumerate n xs)"
  by (induction xs arbitrary: n) auto

lemma request_calls_send:
  "request_calls ''eth_sendTransaction'' params =
     (case get_index params 0 of None \<Rightarrow> [] | Some tx \<Rightarrow> call_from tx)"
  by (simp add: request_calls_def)

lemma request_calls_batch:
  "request_calls ''wallet_sendCalls'' params =
     (case Option.bind (get_index params 0) (\<lambda>first. Option.bind (get first ''calls'') as_array) of
        None \<Rightarrow> [] | Some calls \<Rightarrow> concat (map call_from calls))"
  by (simp add: request_calls_def)

lemma in_case_list:
  "x \<in> set (case opt of None \<Rightarrow> [] | Some y \<Rightarrow> f y) \<Longrightarrow> (\<And>y. opt = Some y \<Longrightarrow> x \<in> set (f y) \<Longrightarrow> thesis) \<Longrightarrow> thesis"
  by (cases opt) simp_all


definition plain_transfer :: json where
  "plain_transfer = Array [Object [(''to'', String ''0xaa''), (''data'', String ''0x'')]]"


theorem inspect_call_exact_witness:
  "harmless 64 ''0xaa'' MAX_DEPTH \<lparr>ic_operation = 0, ic_to = ''0xaa'', ic_data = to_hex [1, 2] True\<rparr>"
proof -
  let ?c = "\<lparr>ic_operation = 0, ic_to = ''0xaa'', ic_data = to_hex [1, 2] True\<rparr>"
  have "selector_of (to_hex [1, 2] True) = Some None" by (simp add: selector_of_def)
  then have "inspect_call 64 (ic_to ?c) (ic_data ?c) ''0xaa'' None False 0 = Some None"
    by (simp add: inspect_call_no_selector)
  from inspect_call_exact [OF this] show ?thesis by simp
qed

text \<open>
  A batch is read as it was written. The legs of a well-formed \<open>multiSend\<close> payload, with whatever
  follows it, come back in order with their operation, target and data, wherever \<open>usize\<close> has at least
  33 bits and the calldata is below 4 GiB.
\<close>

theorem multi_send_round_trip:
  assumes "\<forall>l\<in>set legs. well_formed_leg l" and "length (pack_multi_send legs) + length pad < 2 ^ 32"
    and "33 \<le> w"
  shows "decode_multi_send w (to_hex (pack_multi_send legs @ pad) True) = Some (map leg_call legs)"
  by (rule decode_multi_send_pack [OF assms])

theorem multi_send_round_trip_witness:
  "decode_multi_send 64 (to_hex (pack_multi_send
      [\<lparr>pl_operation = 1, pl_to = replicate 20 7, pl_value = zeros 32, pl_data = [1, 2, 3]\<rparr>] @ [0]) True)
   = Some [\<lparr>ic_operation = 1, ic_to = to_hex (replicate 20 7) True, ic_data = to_hex [1, 2, 3] True\<rparr>]"
  using multi_send_round_trip [of
      "[\<lparr>pl_operation = 1, pl_to = replicate 20 7, pl_value = zeros 32, pl_data = [1, 2, 3]\<rparr>]" "[0]" 64]
  by (simp add: well_formed_leg_def pack_multi_send_def pack_leg_def leg_call_def Let_def)

text \<open>
  The inspection does not panic on ASCII calldata where \<open>usize\<close> has at least 33 bits: every level
  it looks into is read without leaving a buffer, whatever lengths and offsets the calldata claims.
\<close>

theorem inspect_call_no_panic:
  assumes "33 \<le> w" and "is_ascii data"
  shows "inspect_call w to data safe leg nested depth \<noteq> None"
  by (rule inspect_call_total [OF assms(1) hex_bytes_ascii [OF assms(2)]])

theorem inspect_call_no_panic_witness:
  "inspect_call 64 ''0xaa'' ''0x6a761202'' ''0xbb'' None False 0 \<noteq> None"
  by (rule inspect_call_no_panic) (simp_all add: is_ascii_def)

text \<open>
  Outside that: a character of several bytes at an odd position of the data is sliced in half, and
  on a 32-bit \<open>usize\<close> an \<open>execTransaction\<close> whose data offset is 0xFFFFFFDC makes the sum in \<open>u32_at\<close>
  wrap to zero and the read leave the buffer.
\<close>

definition euro :: string where
  "euro = [CHR 0xE2, CHR 0x82, CHR 0xAC]"

lemma hostile_text_panics: "inspect_call w to (''0xa'' @ euro @ ''a'') safe leg nested depth = None"
proof -
  have "trim (''0xa'' @ euro @ ''a'') = ''0xa'' @ euro @ ''a''" by (intro trim_id) (simp_all add: printable_def)
  then have "hex_bytes (''0xa'' @ euro @ ''a'') = None"
    by (simp add: hex_bytes_def hex_bytes_from.simps euro_def Let_def str_slice_def is_char_boundary_def)
  then show ?thesis by (simp add: inspect_call_no_selector selector_of_def)
qed

definition wrapping_exec :: bytes where
  "wrapping_exec = [0x6a, 0x76, 0x12, 0x02] @ zeros 32 @ zeros 32 @ zeros 28 @ [0xff, 0xff, 0xff, 0xdc] @ zeros 32"

lemma wrapping_offset_panics:
  assumes "\<not> same_address to safe"
  shows "inspect_call 32 to (to_hex wrapping_exec True) safe leg nested 0 = None"
proof -
  have sel: "selector_of (to_hex wrapping_exec True) = Some (Some ''0x6a761202'')"
  proof -
    have "to_hex [0x6a, 0x76, 0x12, 0x02] True = ''0x6a761202''" by code_simp
    then show ?thesis by (simp add: selector_of_def wrapping_exec_def)
  qed
  have len: "length wrapping_exec = 132" by (simp add: wrapping_exec_def)
  have off: "u32_at 32 wrapping_exec (4 + 2 * 32 + 28) = Some 0xffffffdc"
    by (simp add: u32_at_def len) (simp add: wrapping_exec_def subslice_def nat_of_be_def)
  have "exec_inner 32 wrapping_exec 0xffffffdc = None"
    by (simp add: exec_inner_def u32_at_def len)
  then have exec: "decode_exec_transaction 32 (to_hex wrapping_exec True) = None"
    using off len by (simp add: decode_exec_transaction_def)
  have "\<not> eq_ignore_ascii_case ''0x6a761202'' MULTI_SEND" "eq_ignore_ascii_case ''0x6a761202'' EXEC_TRANSACTION"
    by code_simp+
  moreover have "\<not> (same_address to safe \<and> blocked_function ''0x6a761202'' \<noteq> None)" using assms by simp
  ultimately show ?thesis
    using inspect_call_selector(3) [OF sel, of to safe 0] exec by (simp add: MAX_DEPTH_def)
qed

end
