(* ===== verification/Noise.thy ===== *)
theory Noise
  imports Prelude Interfaces
begin

text \<open>
  \<open>cable/noise.rs\<close>: the initiator of the caBLE handshake (\<open>Noise_KNpsk0_P256_AESGCM_SHA256\<close> with the
  public keys mixed into hash and key schedule) and the transport cipher that follows it; beside them
  the independent responder of the module's tests, which plays the phone. The hash, the key
  derivation, the AEAD and the curve are the crates' and come as a record of functions over an
  abstract type of key pairs.
\<close>

section \<open>The primitives of the crates\<close>

record 'k noise_crypto =
  digest :: "bytes \<Rightarrow> bytes"
  hkdf_sha256 :: "bytes \<Rightarrow> bytes \<Rightarrow> nat \<Rightarrow> bytes option"
  gcm_encrypt :: "bytes \<Rightarrow> bytes \<Rightarrow> bytes \<Rightarrow> bytes \<Rightarrow> bytes option"
  gcm_decrypt :: "bytes \<Rightarrow> bytes \<Rightarrow> bytes \<Rightarrow> bytes \<Rightarrow> bytes option"
  from_seed :: "bytes \<Rightarrow> 'k option"
  public_uncompressed :: "'k \<Rightarrow> bytes"
  public_compressed :: "'k \<Rightarrow> bytes"
  ecdh_x :: "'k \<Rightarrow> bytes \<Rightarrow> bytes option"

text \<open>
  What the code relies on: the lengths, a derivation that succeeds up to its documented 255 blocks,
  an AEAD that opens what it sealed under the same key, nonce and associated data (its ciphertext 16
  bytes longer), and a key agreement both sides compute alike.
\<close>

definition noise_contract :: "'k noise_crypto \<Rightarrow> bool" where
  "noise_contract C \<longleftrightarrow>
     (\<forall>m. length (digest C m) = 32)
     \<and> (\<forall>salt ikm n. n \<le> 8160 \<longrightarrow> (\<exists>out. hkdf_sha256 C salt ikm n = Some out \<and> length out = n))
     \<and> (\<forall>k n a p. length k = 32 \<longrightarrow> length n = 12 \<longrightarrow> length p \<le> 68719476704 \<longrightarrow>
          (\<exists>c. gcm_encrypt C k n a p = Some c \<and> length c = length p + 16 \<and> gcm_decrypt C k n a c = Some p))
     \<and> (\<forall>k. length (public_uncompressed C k) = 65)
     \<and> (\<forall>a b. \<exists>x. ecdh_x C a (public_uncompressed C b) = Some x \<and> length x = 32
          \<and> ecdh_x C b (public_uncompressed C a) = Some x)"

datatype noise_error = BadLength | OutOfOrder | BadPoint | Cipher | Kdf | NonEmptyPayload | NoKey

definition ZERO12 :: bytes where
  "ZERO12 = zeros 12"

definition protocol_h :: bytes where
  "protocol_h = copy_at 0 (map of_char ''Noise_KNpsk0_P256_AESGCM_SHA256'') (zeros 32)"

definition hkdf :: "'k noise_crypto \<Rightarrow> bytes \<Rightarrow> bytes \<Rightarrow> nat \<Rightarrow> noise_error + bytes" where
  "hkdf C salt ikm len = (case hkdf_sha256 C salt ikm len of None \<Rightarrow> Inl Kdf | Some out \<Rightarrow> Inr out)"

definition aes_gcm_seal :: "'k noise_crypto \<Rightarrow> bytes \<Rightarrow> bytes \<Rightarrow> bytes \<Rightarrow> bytes \<Rightarrow> noise_error + bytes" where
  "aes_gcm_seal C key nonce aad pt =
     (if length key \<noteq> 32 then Inl Cipher
      else case gcm_encrypt C key nonce aad pt of None \<Rightarrow> Inl Cipher | Some ct \<Rightarrow> Inr ct)"

definition aes_gcm_open :: "'k noise_crypto \<Rightarrow> bytes \<Rightarrow> bytes \<Rightarrow> bytes \<Rightarrow> bytes \<Rightarrow> noise_error + bytes" where
  "aes_gcm_open C key nonce aad ct =
     (if length key \<noteq> 32 then Inl Cipher
      else case gcm_decrypt C key nonce aad ct of None \<Rightarrow> Inl Cipher | Some pt \<Rightarrow> Inr pt)"

section \<open>The initiator\<close>

text \<open>The \<open>?\<close> operator in a method on \<open>&mut self\<close>: an error returns with the state as it stands.\<close>

definition and_then :: "('e + 'a) \<times> 's \<Rightarrow> ('a \<Rightarrow> 's \<Rightarrow> ('e + 'b) \<times> 's) \<Rightarrow> ('e + 'b) \<times> 's" where
  "and_then r f = (case r of (Inl e, s) \<Rightarrow> (Inl e, s) | (Inr a, s) \<Rightarrow> f a s)"

lemma and_then_simps [simp]:
  "and_then (Inl e, s) f = (Inl e, s)"
  "and_then (Inr a, s) f = f a s"
  by (simp_all add: and_then_def)

record 'k noise_initiator =
  ni_ck :: bytes
  ni_h :: bytes
  ni_k :: "bytes option"
  ni_static_keys :: 'k
  ni_ephemeral :: "'k option"

definition new_initiator :: "'k \<Rightarrow> 'k noise_initiator" where
  "new_initiator static_keys =
     \<lparr>ni_ck = protocol_h, ni_h = protocol_h, ni_k = None, ni_static_keys = static_keys, ni_ephemeral = None\<rparr>"

definition mix_hash :: "'k noise_crypto \<Rightarrow> bytes \<Rightarrow> 'k noise_initiator \<Rightarrow> 'k noise_initiator" where
  "mix_hash C data s = s\<lparr>ni_h := digest C (ni_h s @ data)\<rparr>"

definition mix_key :: "'k noise_crypto \<Rightarrow> bytes \<Rightarrow> 'k noise_initiator \<Rightarrow> (noise_error + unit) \<times> 'k noise_initiator" where
  "mix_key C ikm s =
     (case hkdf C (ni_ck s) ikm 64 of
        Inl e \<Rightarrow> (Inl e, s)
      | Inr out \<Rightarrow> (Inr (), s\<lparr>ni_ck := subslice 0 32 out, ni_k := Some (subslice 32 64 out)\<rparr>))"

definition mix_key_and_hash ::
  "'k noise_crypto \<Rightarrow> bytes \<Rightarrow> 'k noise_initiator \<Rightarrow> (noise_error + unit) \<times> 'k noise_initiator" where
  "mix_key_and_hash C ikm s =
     (case hkdf C (ni_ck s) ikm 96 of
        Inl e \<Rightarrow> (Inl e, s)
      | Inr out \<Rightarrow>
          (let s1 = mix_hash C (subslice 32 64 out) (s\<lparr>ni_ck := subslice 0 32 out\<rparr>)
           in (Inr (), s1\<lparr>ni_k := Some (subslice 64 96 out)\<rparr>)))"

definition encrypt_and_hash ::
  "'k noise_crypto \<Rightarrow> bytes \<Rightarrow> 'k noise_initiator \<Rightarrow> (noise_error + bytes) \<times> 'k noise_initiator" where
  "encrypt_and_hash C pt s =
     (case ni_k s of
        None \<Rightarrow> (Inl NoKey, s)
      | Some k \<Rightarrow>
          (case aes_gcm_seal C k ZERO12 (ni_h s) pt of
             Inl e \<Rightarrow> (Inl e, s)
           | Inr ct \<Rightarrow> (Inr ct, mix_hash C ct s)))"

definition decrypt_and_hash ::
  "'k noise_crypto \<Rightarrow> bytes \<Rightarrow> 'k noise_initiator \<Rightarrow> (noise_error + bytes) \<times> 'k noise_initiator" where
  "decrypt_and_hash C ct s =
     (case ni_k s of
        None \<Rightarrow> (Inl NoKey, s)
      | Some k \<Rightarrow>
          (case aes_gcm_open C k ZERO12 (ni_h s) ct of
             Inl e \<Rightarrow> (Inl e, s)
           | Inr pt \<Rightarrow> (Inr pt, mix_hash C ct s)))"

definition write_message1 ::
  "'k noise_crypto \<Rightarrow> bytes \<Rightarrow> 'k \<Rightarrow> 'k noise_initiator \<Rightarrow> (noise_error + bytes) \<times> 'k noise_initiator" where
  "write_message1 C psk ephemeral s =
     (let s1 = mix_hash C [0x01] s;
          static_pub = public_uncompressed C (ni_static_keys s1);
          s2 = mix_hash C static_pub s1
      in and_then (mix_key_and_hash C psk s2) (\<lambda>_ s3.
           let e_pub = public_uncompressed C ephemeral;
               s4 = mix_hash C e_pub (s3\<lparr>ni_ephemeral := Some ephemeral\<rparr>)
           in and_then (mix_key C e_pub s4) (\<lambda>_ s5.
                and_then (encrypt_and_hash C [] s5) (\<lambda>tag s6. (Inr (e_pub @ tag), s6)))))"

definition read_message2 ::
  "'k noise_crypto \<Rightarrow> bytes \<Rightarrow> 'k noise_initiator \<Rightarrow> (noise_error + bytes \<times> bytes) \<times> 'k noise_initiator" where
  "read_message2 C resp s =
     (if length resp \<noteq> 81 then (Inl BadLength, s)
      else let peer_epub = subslice 0 65 resp;
               ct = subslice 65 81 resp
           in and_then (mix_key C peer_epub (mix_hash C peer_epub s)) (\<lambda>_ s2.
                case ni_ephemeral s2 of
                  None \<Rightarrow> (Inl OutOfOrder, s2)
                | Some e \<Rightarrow>
                    (case ecdh_x C e peer_epub of
                       None \<Rightarrow> (Inl BadPoint, s2)
                     | Some ee \<Rightarrow>
                         and_then (mix_key C ee s2) (\<lambda>_ s3.
                           case ecdh_x C (ni_static_keys s3) peer_epub of
                             None \<Rightarrow> (Inl BadPoint, s3)
                           | Some se \<Rightarrow>
                               and_then (mix_key C se s3) (\<lambda>_ s4.
                                 and_then (decrypt_and_hash C ct s4) (\<lambda>payload s5.
                                   if payload \<noteq> [] then (Inl NonEmptyPayload, s5)
                                   else case hkdf C (ni_ck s5) [] 64 of
                                       Inl e2 \<Rightarrow> (Inl e2, s5)
                                     | Inr split \<Rightarrow> (Inr (subslice 0 32 split, subslice 32 64 split), s5)))))))"

section \<open>The transport cipher\<close>

record cable_transport =
  ct_write_key :: bytes
  ct_read_key :: bytes
  ct_write_ctr :: u32
  ct_read_ctr :: u32

definition new_transport :: "bytes \<Rightarrow> bytes \<Rightarrow> cable_transport option" where
  "new_transport write_key read_key =
     (if length write_key \<noteq> 32 \<or> length read_key \<noteq> 32 then None
      else Some \<lparr>ct_write_key = write_key, ct_read_key = read_key, ct_write_ctr = 0, ct_read_ctr = 0\<rparr>)"

definition nonce :: "u32 \<Rightarrow> bytes" where
  "nonce counter = copy_at 8 (u32_be counter) (zeros 12)"

definition pad32 :: "bytes \<Rightarrow> bytes" where
  "pad32 pt =
     (let extra = 32 - length pt mod 32;
          out = pt @ zeros extra
      in if out = [] then out else out[length out - 1 := of_nat (extra - 1)])"

definition unpad32 :: "bytes \<Rightarrow> bytes" where
  "unpad32 padded =
     (if padded = [] then []
      else let drop_len = unat (last padded) + 1
           in if length padded < drop_len then [] else take (length padded - drop_len) padded)"

definition seal :: "'k noise_crypto \<Rightarrow> bytes \<Rightarrow> cable_transport \<Rightarrow> (noise_error + bytes) \<times> cable_transport" where
  "seal C plaintext t =
     (let padded = pad32 plaintext; n = nonce (ct_write_ctr t)
      in (aes_gcm_seal C (ct_write_key t) n [] padded, t\<lparr>ct_write_ctr := ct_write_ctr t + 1\<rparr>))"

definition open_frame :: "'k noise_crypto \<Rightarrow> bytes \<Rightarrow> cable_transport \<Rightarrow> (noise_error + bytes) \<times> cable_transport" where
  "open_frame C ciphertext t =
     (let n = nonce (ct_read_ctr t); t1 = t\<lparr>ct_read_ctr := ct_read_ctr t + 1\<rparr>
      in case aes_gcm_open C (ct_read_key t) n [] ciphertext of
           Inl e \<Rightarrow> (Inl e, t1)
         | Inr padded \<Rightarrow> (Inr (unpad32 padded), t1))"

section \<open>The responder of the tests\<close>

record 'k responder =
  re_ck :: bytes
  re_h :: bytes
  re_k :: "bytes option"
  re_initiator_static_pub :: bytes
  re_ephemeral :: 'k

definition new_responder :: "bytes \<Rightarrow> 'k \<Rightarrow> 'k responder" where
  "new_responder initiator_static_pub ephemeral =
     \<lparr>re_ck = protocol_h, re_h = protocol_h, re_k = None,
      re_initiator_static_pub = initiator_static_pub, re_ephemeral = ephemeral\<rparr>"

definition re_mix_hash :: "'k noise_crypto \<Rightarrow> bytes \<Rightarrow> 'k responder \<Rightarrow> 'k responder" where
  "re_mix_hash C data s = s\<lparr>re_h := digest C (re_h s @ data)\<rparr>"

text \<open>\<open>unwrap()\<close>: an error panics.\<close>

definition unwrap :: "'e + 'a \<Rightarrow> 'a may_panic" where
  "unwrap r = (case r of Inl _ \<Rightarrow> panic | Inr a \<Rightarrow> ok a)"

lemma unwrap_simps [simp]: "unwrap (Inl e) = None" "unwrap (Inr a) = Some a"
  by (simp_all add: unwrap_def)

definition re_mix_key :: "'k noise_crypto \<Rightarrow> bytes \<Rightarrow> 'k responder \<Rightarrow> 'k responder may_panic" where
  "re_mix_key C ikm s =
     map_option (\<lambda>out. s\<lparr>re_ck := subslice 0 32 out, re_k := Some (subslice 32 64 out)\<rparr>)
       (unwrap (hkdf C (re_ck s) ikm 64))"

definition re_mix_key_and_hash :: "'k noise_crypto \<Rightarrow> bytes \<Rightarrow> 'k responder \<Rightarrow> 'k responder may_panic" where
  "re_mix_key_and_hash C ikm s =
     map_option (\<lambda>out. (re_mix_hash C (subslice 32 64 out) (s\<lparr>re_ck := subslice 0 32 out\<rparr>))
         \<lparr>re_k := Some (subslice 64 96 out)\<rparr>)
       (unwrap (hkdf C (re_ck s) ikm 96))"

definition respond ::
  "'k noise_crypto \<Rightarrow> bytes \<Rightarrow> bytes \<Rightarrow> 'k responder \<Rightarrow> ((bytes \<times> cable_transport) \<times> 'k responder) may_panic" where
  "respond C msg1 psk s0 =
     do {
       s1 \<leftarrow> re_mix_key_and_hash C psk
              (re_mix_hash C (re_initiator_static_pub s0) (re_mix_hash C [0x01] s0));
       (if length msg1 \<noteq> 81 then panic else ok ());
       let peer_epub = subslice 0 65 msg1;
       let ct = subslice 65 81 msg1;
       s2 \<leftarrow> re_mix_key C peer_epub (re_mix_hash C peer_epub s1);
       k \<leftarrow> re_k s2;
       pt \<leftarrow> unwrap (aes_gcm_open C k ZERO12 (re_h s2) ct);
       (if pt \<noteq> [] then panic else ok ());
       let s3 = re_mix_hash C ct s2;
       let e_pub = public_uncompressed C (re_ephemeral s3);
       s4 \<leftarrow> re_mix_key C e_pub (re_mix_hash C e_pub s3);
       ee \<leftarrow> ecdh_x C (re_ephemeral s4) peer_epub;
       s5 \<leftarrow> re_mix_key C ee s4;
       se \<leftarrow> ecdh_x C (re_ephemeral s5) (re_initiator_static_pub s5);
       s6 \<leftarrow> re_mix_key C se s5;
       k2 \<leftarrow> re_k s6;
       tag \<leftarrow> unwrap (aes_gcm_seal C k2 ZERO12 (re_h s6) []);
       let s7 = re_mix_hash C tag s6;
       split \<leftarrow> unwrap (hkdf C (re_ck s7) [] 64);
       transport \<leftarrow> new_transport (subslice 32 64 split) (subslice 0 32 split);
       Some ((e_pub @ tag, transport), s7)
     }"

section \<open>Padding and nonces\<close>

lemma length_pad32: "length (pad32 pt) = length pt + (32 - length pt mod 32)"
  by (simp add: pad32_def Let_def)

lemma pad32_blocks: "length (pad32 pt) mod 32 = 0 \<and> length pt < length (pad32 pt) \<and> length (pad32 pt) \<le> length pt + 32"
proof -
  have "length pt mod 32 < 32" by simp
  moreover have "(length pt + (32 - length pt mod 32)) mod 32 = 0"
    by (subst mod_add_left_eq [symmetric]) simp
  ultimately show ?thesis by (simp add: length_pad32)
qed

lemma unpad32_pad32 [simp]: "unpad32 (pad32 pt) = pt"
proof -
  define extra where "extra = 32 - length pt mod 32"
  have extra: "0 < extra" "extra \<le> 32" by (simp_all add: extra_def)
  define out where "out = pt @ zeros extra"
  have out: "out \<noteq> []" "length out = length pt + extra" using extra by (simp_all add: out_def)
  have pad: "pad32 pt = out[length out - 1 := of_nat (extra - 1)]"
    using out(1) unfolding pad32_def Let_def extra_def [symmetric] out_def [symmetric] by simp
  have small: "unat (of_nat n :: u8) = n" if "n < 32" for n using that by (simp add: unat_of_nat)
  have "unat (of_nat (extra - 1) :: u8) = extra - 1" by (rule small) (use extra in simp)
  moreover have "last (pad32 pt) = of_nat (extra - 1)"
  proof -
    have "pad32 pt \<noteq> []" "length (pad32 pt) = length out" using out pad by simp_all
    then have "last (pad32 pt) = pad32 pt ! (length out - 1)" by (simp add: last_conv_nth)
    also have "\<dots> = of_nat (extra - 1)" unfolding pad using out(1) by (intro nth_list_update_eq) simp
    finally show ?thesis .
  qed
  moreover have "take (length pt) (pad32 pt) = pt"
    using extra out by (simp add: pad take_update_cancel out_def)
  ultimately show ?thesis
    using extra out pad by (simp add: unpad32_def Let_def)
qed

lemma length_nonce [simp]: "length (nonce ctr) = 12"
  by (simp add: nonce_def)

lemma nonce_inject: "nonce i = nonce j \<longleftrightarrow> i = j"
proof
  assume "nonce i = nonce j"
  then have "drop 8 (nonce i) = drop 8 (nonce j)" by simp
  then have "u32_be i = u32_be j" by (simp add: nonce_def copy_at_def)
  then show "i = j" by (metis u32_of_be_u32_be)
qed simp

interpretation pad: codec pad32 "\<lambda>b. Some (unpad32 b)" "\<lambda>_. True"
  by unfold_locales simp

section \<open>What the contract gives\<close>

lemma contract_digest: "noise_contract C \<Longrightarrow> length (digest C m) = 32"
  by (simp add: noise_contract_def)

lemma contract_hkdf:
  assumes "noise_contract C" and "n \<le> 8160"
  shows "\<exists>out. hkdf C salt ikm n = Inr out \<and> length out = n"
proof -
  have "\<forall>salt ikm n. n \<le> 8160 \<longrightarrow> (\<exists>out. hkdf_sha256 C salt ikm n = Some out \<and> length out = n)"
    using assms(1) unfolding noise_contract_def by blast
  with assms(2) obtain out where "hkdf_sha256 C salt ikm n = Some out" "length out = n" by blast
  then show ?thesis by (simp add: hkdf_def)
qed

lemma contract_gcm:
  assumes "noise_contract C" and "length k = 32" and "length n = 12" and "length p \<le> 68719476704"
  shows "\<exists>c. aes_gcm_seal C k n a p = Inr c \<and> length c = length p + 16 \<and> aes_gcm_open C k n a c = Inr p"
proof -
  have "\<forall>k n a p. length k = 32 \<longrightarrow> length n = 12 \<longrightarrow> length p \<le> 68719476704 \<longrightarrow>
      (\<exists>c. gcm_encrypt C k n a p = Some c \<and> length c = length p + 16 \<and> gcm_decrypt C k n a c = Some p)"
    using assms(1) unfolding noise_contract_def by blast
  with assms(2-4) obtain c where
    "gcm_encrypt C k n a p = Some c" "length c = length p + 16" "gcm_decrypt C k n a c = Some p" by blast
  with assms(2) show ?thesis by (simp add: aes_gcm_seal_def aes_gcm_open_def)
qed

lemma contract_public: "noise_contract C \<Longrightarrow> length (public_uncompressed C k) = 65"
  by (simp add: noise_contract_def)

lemma contract_ecdh:
  "noise_contract C \<Longrightarrow> \<exists>x. ecdh_x C a (public_uncompressed C b) = Some x \<and> length x = 32
     \<and> ecdh_x C b (public_uncompressed C a) = Some x"
  by (simp add: noise_contract_def)

section \<open>The handshake agrees\<close>

text \<open>The two sides hold the same chaining key, transcript hash and cipher key.\<close>

definition agree :: "'k noise_initiator \<Rightarrow> 'k responder \<Rightarrow> bool" where
  "agree i r \<longleftrightarrow> ni_ck i = re_ck r \<and> ni_h i = re_h r \<and> ni_k i = re_k r"

lemma agree_mix_hash: "agree i r \<Longrightarrow> agree (mix_hash C d i) (re_mix_hash C d r)"
  by (simp add: agree_def mix_hash_def re_mix_hash_def)

text \<open>What a derivation leaves alone: whose keys they are.\<close>

definition same_keys :: "'k noise_initiator \<Rightarrow> 'k responder \<Rightarrow> 'k noise_initiator \<Rightarrow> 'k responder \<Rightarrow> bool" where
  "same_keys i r i' r' \<longleftrightarrow>
     ni_static_keys i' = ni_static_keys i \<and> ni_ephemeral i' = ni_ephemeral i
     \<and> re_initiator_static_pub r' = re_initiator_static_pub r \<and> re_ephemeral r' = re_ephemeral r"

lemma mix_hash_keys:
  "ni_static_keys (mix_hash C d i) = ni_static_keys i" "ni_ephemeral (mix_hash C d i) = ni_ephemeral i"
  "ni_k (mix_hash C d i) = ni_k i" "ni_ck (mix_hash C d i) = ni_ck i"
  "re_initiator_static_pub (re_mix_hash C d r) = re_initiator_static_pub r"
  "re_ephemeral (re_mix_hash C d r) = re_ephemeral r"
  "re_k (re_mix_hash C d r) = re_k r" "re_ck (re_mix_hash C d r) = re_ck r"
  by (simp_all add: mix_hash_def re_mix_hash_def)

lemma agree_mix_key:
  assumes "noise_contract C" and "agree i r"
  obtains i' r' k where "mix_key C d i = (Inr (), i')" "re_mix_key C d r = Some r'" "agree i' r'"
    "same_keys i r i' r'" "ni_k i' = Some k" "re_k r' = Some k" "length k = 32"
proof -
  obtain out where out: "hkdf C (ni_ck i) d 64 = Inr out" "length out = 64"
    using contract_hkdf [OF assms(1), of 64] by force
  show thesis
    by (rule that [of "i\<lparr>ni_ck := subslice 0 32 out, ni_k := Some (subslice 32 64 out)\<rparr>"
          "r\<lparr>re_ck := subslice 0 32 out, re_k := Some (subslice 32 64 out)\<rparr>" "subslice 32 64 out"])
       (use out assms(2) in \<open>simp_all add: mix_key_def re_mix_key_def agree_def same_keys_def\<close>)
qed

lemma agree_mix_key_and_hash:
  assumes "noise_contract C" and "agree i r"
  obtains i' r' where "mix_key_and_hash C d i = (Inr (), i')" "re_mix_key_and_hash C d r = Some r'"
    "agree i' r'" "same_keys i r i' r'"
proof -
  obtain out where out: "hkdf C (ni_ck i) d 96 = Inr out" "length out = 96"
    using contract_hkdf [OF assms(1), of 96] by force
  show thesis
    by (rule that [of "(mix_hash C (subslice 32 64 out) (i\<lparr>ni_ck := subslice 0 32 out\<rparr>))\<lparr>ni_k := Some (subslice 64 96 out)\<rparr>"
          "(re_mix_hash C (subslice 32 64 out) (r\<lparr>re_ck := subslice 0 32 out\<rparr>))\<lparr>re_k := Some (subslice 64 96 out)\<rparr>"])
       (use out assms(2) in \<open>simp_all add: mix_key_and_hash_def re_mix_key_and_hash_def agree_def same_keys_def
          mix_hash_def re_mix_hash_def Let_def\<close>)
qed

text \<open>What one side seals under the agreed key and hash the other opens.\<close>

lemma agree_tag:
  assumes "noise_contract C" and "agree i r" and "ni_k i = Some k" and "length k = 32"
  obtains tag where "length tag = 16" "aes_gcm_seal C k ZERO12 (ni_h i) [] = Inr tag"
    "aes_gcm_open C k ZERO12 (re_h r) tag = Inr []" "aes_gcm_seal C k ZERO12 (re_h r) [] = Inr tag"
    "aes_gcm_open C k ZERO12 (ni_h i) tag = Inr []"
  using contract_gcm [OF assms(1,4), of ZERO12 "[]" "ni_h i"] assms(2)
  by (auto simp: agree_def ZERO12_def)

lemma subslice_front: "n = length a \<Longrightarrow> subslice 0 n (a @ b) = a"
  by (simp add: subslice_def)

lemma subslice_back: "n = length a \<Longrightarrow> m = n + length b \<Longrightarrow> subslice n m (a @ b) = b"
  by (simp add: subslice_def)

lemma handshake_agrees:
  assumes C: "noise_contract C"
  obtains msg1 i1 msg2 r1 i2 wk rk where
    "write_message1 C psk ephemeral (new_initiator static_keys) = (Inr msg1, i1)"
    "length msg1 = 81"
    "respond C msg1 psk (new_responder (public_uncompressed C static_keys) re_eph) =
       Some ((msg2, \<lparr>ct_write_key = rk, ct_read_key = wk, ct_write_ctr = 0, ct_read_ctr = 0\<rparr>), r1)"
    "length msg2 = 81"
    "read_message2 C msg2 i1 = (Inr (wk, rk), i2)"
    "length wk = 32" "length rk = 32"
proof -
  define spub where "spub = public_uncompressed C static_keys"
  define ipub where "ipub = public_uncompressed C ephemeral"
  define rpub where "rpub = public_uncompressed C re_eph"
  have pubs: "length ipub = 65" "length rpub = 65" by (simp_all add: ipub_def rpub_def contract_public [OF C])
  define i0 where "i0 = mix_hash C spub (mix_hash C [0x01] (new_initiator static_keys))"
  define r0 where "r0 = re_mix_hash C spub (re_mix_hash C [0x01] (new_responder spub re_eph))"
  have ag0: "agree i0 r0" unfolding i0_def r0_def
    by (intro agree_mix_hash) (simp add: agree_def new_initiator_def new_responder_def)
  obtain i1 r1 where s1: "mix_key_and_hash C psk i0 = (Inr (), i1)" "re_mix_key_and_hash C psk r0 = Some r1"
      "agree i1 r1" "same_keys i0 r0 i1 r1"
    by (rule agree_mix_key_and_hash [OF C ag0])
  have "agree (mix_hash C ipub (i1\<lparr>ni_ephemeral := Some ephemeral\<rparr>)) (re_mix_hash C ipub r1)"
    by (rule agree_mix_hash) (use s1(3) in \<open>simp add: agree_def\<close>)
  then obtain i2 r2 k where s2: "mix_key C ipub (mix_hash C ipub (i1\<lparr>ni_ephemeral := Some ephemeral\<rparr>)) = (Inr (), i2)"
      "re_mix_key C ipub (re_mix_hash C ipub r1) = Some r2" "agree i2 r2"
      "same_keys (mix_hash C ipub (i1\<lparr>ni_ephemeral := Some ephemeral\<rparr>)) (re_mix_hash C ipub r1) i2 r2"
      "ni_k i2 = Some k" "re_k r2 = Some k" "length k = 32"
    by (rule agree_mix_key [OF C])
  obtain tag1 where t1: "length tag1 = 16" "aes_gcm_seal C k ZERO12 (ni_h i2) [] = Inr tag1"
      "aes_gcm_open C k ZERO12 (re_h r2) tag1 = Inr []"
    using agree_tag [OF C s2(3,5,7)] by metis
  define i3 where "i3 = mix_hash C tag1 i2"
  define r3 where "r3 = re_mix_hash C tag1 r2"
  have ag3: "agree i3 r3" unfolding i3_def r3_def by (rule agree_mix_hash [OF s2(3)])
  have spub_of: "re_initiator_static_pub (new_responder spub re_eph) = spub" by (simp add: new_responder_def)
  have st_of: "ni_static_keys (new_initiator static_keys) = static_keys" by (simp add: new_initiator_def)
  have w1: "write_message1 C psk ephemeral (new_initiator static_keys) = (Inr (ipub @ tag1), i3)"
    using s1(1) s2(1) t1(2) s2(5)
    by (simp add: write_message1_def Let_def i0_def spub_def ipub_def st_of mix_hash_keys
        encrypt_and_hash_def i3_def)
  have e3: "ni_ephemeral i3 = Some ephemeral" "ni_static_keys i3 = static_keys" "re_ephemeral r3 = re_eph"
      "re_initiator_static_pub r3 = spub"
    using s1(4) s2(4)
    by (simp_all add: i3_def r3_def same_keys_def mix_hash_keys i0_def r0_def new_initiator_def new_responder_def)
  obtain i4 r4 k4 where s4: "mix_key C rpub (mix_hash C rpub i3) = (Inr (), i4)"
      "re_mix_key C rpub (re_mix_hash C rpub r3) = Some r4" "agree i4 r4"
      "same_keys (mix_hash C rpub i3) (re_mix_hash C rpub r3) i4 r4"
    by (rule agree_mix_key [OF C agree_mix_hash [OF ag3]])
  have e4: "ni_ephemeral i4 = Some ephemeral" "ni_static_keys i4 = static_keys" "re_ephemeral r4 = re_eph"
      "re_initiator_static_pub r4 = spub"
    using s4(4) e3 by (simp_all add: same_keys_def mix_hash_keys)
  obtain ee where ee: "ecdh_x C ephemeral rpub = Some ee" "ecdh_x C re_eph ipub = Some ee"
    using contract_ecdh [OF C, of ephemeral re_eph] by (auto simp: rpub_def ipub_def)
  obtain se where se: "ecdh_x C static_keys rpub = Some se" "ecdh_x C re_eph spub = Some se"
    using contract_ecdh [OF C, of static_keys re_eph] by (auto simp: rpub_def spub_def)
  obtain i5 r5 k5 where s5: "mix_key C ee i4 = (Inr (), i5)" "re_mix_key C ee r4 = Some r5" "agree i5 r5"
      "same_keys i4 r4 i5 r5"
    by (rule agree_mix_key [OF C s4(3)])
  have e5: "ni_static_keys i5 = static_keys" "re_ephemeral r5 = re_eph" "re_initiator_static_pub r5 = spub"
    using s5(4) e4 by (simp_all add: same_keys_def)
  obtain i6 r6 k6 where s6: "mix_key C se i5 = (Inr (), i6)" "re_mix_key C se r5 = Some r6" "agree i6 r6"
      "same_keys i5 r5 i6 r6" "ni_k i6 = Some k6" "re_k r6 = Some k6" "length k6 = 32"
    by (rule agree_mix_key [OF C s5(3)])
  obtain tag2 where t2: "length tag2 = 16" "aes_gcm_seal C k6 ZERO12 (re_h r6) [] = Inr tag2"
      "aes_gcm_open C k6 ZERO12 (ni_h i6) tag2 = Inr []"
    using agree_tag [OF C s6(3,5,7)] by metis
  define i7 where "i7 = mix_hash C tag2 i6"
  define r7 where "r7 = re_mix_hash C tag2 r6"
  have cks: "re_ck r7 = ni_ck i7" using s6(3) by (simp add: i7_def r7_def mix_hash_keys agree_def)
  obtain split where split: "hkdf C (ni_ck i7) [] 64 = Inr split" "length split = 64"
    using contract_hkdf [OF C, of 64] by force
  have rd: "read_message2 C (rpub @ tag2) i3 = (Inr (subslice 0 32 split, subslice 32 64 split), i7)"
    using pubs t2 s4(1) e4 ee(1) s5(1) e5 se(1) s6(1,5) split(1)
    by (simp add: read_message2_def Let_def subslice_front subslice_back decrypt_and_hash_def i7_def)
  have rs: "respond C (ipub @ tag1) psk (new_responder spub re_eph) =
      Some ((rpub @ tag2, \<lparr>ct_write_key = subslice 32 64 split, ct_read_key = subslice 0 32 split,
                           ct_write_ctr = 0, ct_read_ctr = 0\<rparr>), r7)"
    using pubs t1(1) s1(2) s2(2,6) t1(3) e3 e4 s4(2) ee(2) s5(2) e5 se(2) s6(2,6) t2(2) split cks
    by (simp add: respond_def spub_of r0_def [symmetric] subslice_front subslice_back r3_def [symmetric]
        rpub_def [symmetric] r7_def [symmetric] new_transport_def)
  show thesis
    by (rule that [OF w1 _ rs [unfolded spub_def] _ rd]) (simp_all add: pubs t1(1) t2(1) split(2))
qed

section \<open>Frames in lockstep\<close>

text \<open>Two ends of one channel: each reads with the key and the counter the other writes with.\<close>

definition mirrored :: "cable_transport \<Rightarrow> cable_transport \<Rightarrow> bool" where
  "mirrored a b \<longleftrightarrow>
     ct_write_key a = ct_read_key b \<and> ct_read_key a = ct_write_key b
     \<and> ct_write_ctr a = ct_read_ctr b \<and> ct_read_ctr a = ct_write_ctr b
     \<and> length (ct_write_key a) = 32 \<and> length (ct_read_key a) = 32"

lemma mirrored_sym: "mirrored a b \<Longrightarrow> mirrored b a"
  by (auto simp: mirrored_def)

lemma mirrored_new:
  "length wk = 32 \<Longrightarrow> length rk = 32 \<Longrightarrow>
   mirrored \<lparr>ct_write_key = wk, ct_read_key = rk, ct_write_ctr = 0, ct_read_ctr = 0\<rparr>
            \<lparr>ct_write_key = rk, ct_read_key = wk, ct_write_ctr = 0, ct_read_ctr = 0\<rparr>"
  by (simp add: mirrored_def)

lemma seal_open:
  assumes C: "noise_contract C" and "mirrored a b" and "length m \<le> 2 ^ 30"
  obtains ct a' b' where "seal C m a = (Inr ct, a')" "open_frame C ct b = (Inr m, b')" "mirrored a' b'"
proof -
  have "length (pad32 m) \<le> 68719476704" using pad32_blocks [of m] assms(3) by simp
  then obtain ct where ct: "aes_gcm_seal C (ct_write_key a) (nonce (ct_write_ctr a)) [] (pad32 m) = Inr ct"
      "aes_gcm_open C (ct_write_key a) (nonce (ct_write_ctr a)) [] ct = Inr (pad32 m)"
    using contract_gcm [OF C, of "ct_write_key a" "nonce (ct_write_ctr a)" "pad32 m" "[]"] assms(2)
    by (auto simp: mirrored_def)
  show thesis
    by (rule that [of ct "a\<lparr>ct_write_ctr := ct_write_ctr a + 1\<rparr>" "b\<lparr>ct_read_ctr := ct_read_ctr b + 1\<rparr>"])
       (use ct assms(2) in \<open>auto simp: seal_def open_frame_def Let_def mirrored_def\<close>)
qed

text \<open>
  A conversation: each message is sealed by one end (\<open>True\<close>: the first) and opened by the other;
  the list is what was opened.
\<close>

fun conversation ::
  "'k noise_crypto \<Rightarrow> (bool \<times> bytes) list \<Rightarrow> cable_transport \<Rightarrow> cable_transport \<Rightarrow> (noise_error + bytes) list" where
  "conversation C [] a b = []"
| "conversation C ((from_a, m) # ms) a b =
     (let (r, sender) = seal C m (if from_a then a else b)
      in case r of
           Inl e \<Rightarrow> [Inl e]
         | Inr ct \<Rightarrow>
             let (out, receiver) = open_frame C ct (if from_a then b else a)
             in out # (if from_a then conversation C ms sender receiver else conversation C ms receiver sender))"

lemma converse_faithful:
  assumes "noise_contract C"
  shows "mirrored a b \<Longrightarrow> \<forall>m\<in>set ms. length (snd m) \<le> 2 ^ 30 \<Longrightarrow>
    conversation C ms a b = map (\<lambda>m. Inr (snd m)) ms"
proof (induction ms arbitrary: a b)
  case Nil
  then show ?case by simp
next
  case (Cons m ms)
  obtain from_a p where m: "m = (from_a, p)" by force
  with Cons.prems(2) have p: "length p \<le> 2 ^ 30" and rest: "\<forall>m\<in>set ms. length (snd m) \<le> 2 ^ 30" by auto
  show ?case
  proof (cases from_a)
    case True
    obtain ct a' b' where "seal C p a = (Inr ct, a')" "open_frame C ct b = (Inr p, b')" "mirrored a' b'"
      by (rule seal_open [OF assms Cons.prems(1) p])
    with Cons.IH [OF _ rest] m True show ?thesis by simp
  next
    case False
    obtain ct b' a' where "seal C p b = (Inr ct, b')" "open_frame C ct a = (Inr p, a')" "mirrored b' a'"
      by (rule seal_open [OF assms mirrored_sym [OF Cons.prems(1)] p])
    with Cons.IH [OF mirrored_sym rest] m False show ?thesis by simp
  qed
qed

text \<open>Sealing a list of frames with one transport.\<close>

fun seal_frames ::
  "'k noise_crypto \<Rightarrow> bytes list \<Rightarrow> cable_transport \<Rightarrow> (noise_error + bytes) list \<times> cable_transport" where
  "seal_frames C [] t = ([], t)"
| "seal_frames C (p # ps) t =
     (let (r, t1) = seal C p t; (rs, t2) = seal_frames C ps t1 in (r # rs, t2))"

lemma seal_frames_nonces:
  "i < length ps \<Longrightarrow> fst (seal_frames C ps t) ! i =
     aes_gcm_seal C (ct_write_key t) (nonce (ct_write_ctr t + of_nat i)) [] (pad32 (ps ! i))"
proof (induction ps arbitrary: t i)
  case Nil
  then show ?case by simp
next
  case (Cons p ps)
  show ?case
  proof (cases i)
    case 0
    then show ?thesis by (simp add: seal_def Let_def split: prod.splits)
  next
    case (Suc j)
    with Cons.prems Cons.IH [of j "t\<lparr>ct_write_ctr := ct_write_ctr t + 1\<rparr>"] show ?thesis
      by (simp add: seal_def Let_def add.assoc case_prod_beta)
  qed
qed

lemma of_nat_u32_inject: "(of_nat i :: u32) = of_nat j \<longleftrightarrow> i mod 2 ^ 32 = j mod 2 ^ 32"
  by (simp add: word_of_nat_eq_iff take_bit_eq_mod)

section \<open>A toy instance\<close>

text \<open>
  Key pairs are one-byte scalars with a commutative product; the tag carries the nonce and four
  bytes of the key, and opening checks it.
\<close>

definition toy_noise :: "u8 noise_crypto" where
  "toy_noise =
     \<lparr>digest = \<lambda>m. take 32 (rev m @ zeros 32),
      hkdf_sha256 = \<lambda>salt ikm n. if n \<le> 8160 then Some (take n (ikm @ salt @ zeros n)) else None,
      gcm_encrypt = \<lambda>k n a p. Some (p @ n @ take 4 k),
      gcm_decrypt = \<lambda>k n a c. if drop (length c - 16) c = n @ take 4 k then Some (take (length c - 16) c) else None,
      from_seed = \<lambda>seed. if length seed = 32 then Some (hd seed) else None,
      public_uncompressed = \<lambda>k. 4 # k # zeros 63,
      public_compressed = \<lambda>k. 2 # k # zeros 31,
      ecdh_x = \<lambda>k peer. if length peer = 65 then Some (replicate 32 (k * peer ! 1)) else None\<rparr>"

lemma toy_noise_contract: "noise_contract toy_noise"
proof -
  have len: "length (take n (m @ zeros n)) = n" for m :: bytes and n by simp
  have d: "length (digest toy_noise m) = 32" for m using len [of 32] by (simp add: toy_noise_def)
  have h: "n \<le> 8160 \<Longrightarrow> \<exists>out. hkdf_sha256 toy_noise salt ikm n = Some out \<and> length out = n" for salt ikm n
    using len [of n "ikm @ salt"] by (simp add: toy_noise_def)
  have g: "length k = 32 \<Longrightarrow> length n = 12 \<Longrightarrow>
      \<exists>c. gcm_encrypt toy_noise k n a p = Some c \<and> length c = length p + 16 \<and> gcm_decrypt toy_noise k n a c = Some p"
    for k n a p by (simp add: toy_noise_def)
  have u: "length (public_uncompressed toy_noise k) = 65" for k by (simp add: toy_noise_def)
  have e: "\<exists>x. ecdh_x toy_noise a (public_uncompressed toy_noise b) = Some x \<and> length x = 32
      \<and> ecdh_x toy_noise b (public_uncompressed toy_noise a) = Some x" for a b
    by (simp add: toy_noise_def mult.commute)
  show ?thesis using d h g u e unfolding noise_contract_def by blast
qed

section \<open>Properties\<close>

text \<open>
  C31: the handshake agrees with an independent responder. With the same pre-shared key both sides
  accept both 81-byte messages, end with each other's keys swapped, and from then on every message
  either end seals, in any interleaving, is opened by the other end exactly as it was sent.
\<close>

theorem handshake_agreement:
  assumes "noise_contract C"
  shows "\<exists>msg1 i1 msg2 rt r1 i2 wk rk it.
      write_message1 C psk ephemeral (new_initiator static_keys) = (Inr msg1, i1) \<and> length msg1 = 81
      \<and> respond C msg1 psk (new_responder (public_uncompressed C static_keys) re_eph) = Some ((msg2, rt), r1)
      \<and> length msg2 = 81
      \<and> read_message2 C msg2 i1 = (Inr (wk, rk), i2) \<and> new_transport wk rk = Some it
      \<and> (\<forall>ms. (\<forall>m\<in>set ms. length (snd m) \<le> 2 ^ 30) \<longrightarrow> conversation C ms it rt = map (\<lambda>m. Inr (snd m)) ms)"
proof -
  obtain msg1 i1 msg2 r1 i2 wk rk where h:
      "write_message1 C psk ephemeral (new_initiator static_keys) = (Inr msg1, i1)"
      "length msg1 = 81"
      "respond C msg1 psk (new_responder (public_uncompressed C static_keys) re_eph) =
         Some ((msg2, \<lparr>ct_write_key = rk, ct_read_key = wk, ct_write_ctr = 0, ct_read_ctr = 0\<rparr>), r1)"
      "length msg2 = 81" "read_message2 C msg2 i1 = (Inr (wk, rk), i2)"
      and keys: "length wk = 32" "length rk = 32"
    by (rule handshake_agrees [OF assms])
  show ?thesis
    using h keys converse_faithful [OF assms mirrored_new [OF keys]]
    by (intro exI conjI) (assumption | simp add: new_transport_def)+
qed

theorem handshake_agreement_witness:
  "\<exists>msg1 i1 msg2 rt r1 i2 wk rk it.
      write_message1 toy_noise (replicate 32 7) 2 (new_initiator 1) = (Inr msg1, i1)
      \<and> respond toy_noise msg1 (replicate 32 7) (new_responder (4 # 1 # zeros 63) 3) = Some ((msg2, rt), r1)
      \<and> read_message2 toy_noise msg2 i1 = (Inr (wk, rk), i2) \<and> new_transport wk rk = Some it
      \<and> conversation toy_noise [(True, [1, 2]), (False, [3]), (True, [])] it rt = [Inr [1, 2], Inr [3], Inr []]"
proof -
  have "public_uncompressed toy_noise 1 = 4 # 1 # zeros 63" by (simp add: toy_noise_def)
  with handshake_agreement [OF toy_noise_contract, of "replicate 32 7" 2 1 3]
  obtain msg1 i1 msg2 rt r1 i2 wk rk it where h:
      "write_message1 toy_noise (replicate 32 7) 2 (new_initiator 1) = (Inr msg1, i1)"
      "respond toy_noise msg1 (replicate 32 7) (new_responder (4 # 1 # zeros 63) 3) = Some ((msg2, rt), r1)"
      "read_message2 toy_noise msg2 i1 = (Inr (wk, rk), i2)" "new_transport wk rk = Some it"
      and talk: "\<And>ms. \<forall>m\<in>set ms. length (snd m) \<le> 2 ^ 30 \<Longrightarrow>
        conversation toy_noise ms it rt = map (\<lambda>m. Inr (snd m)) ms"
    by auto
  from talk [of "[(True, [1, 2]), (False, [3]), (True, [])]"]
  have "conversation toy_noise [(True, [1, 2]), (False, [3]), (True, [])] it rt = [Inr [1, 2], Inr [3], Inr []]"
    by simp
  with h show ?thesis by blast
qed

text \<open>
  Which nonce seals which frame. Frame number \<open>i\<close> of a fresh transport is sealed under the nonce
  of the counter \<open>i\<close>, so no two of the first \<open>2^32\<close> frames share one; the counter wraps, so frames
  \<open>2^32\<close> apart always do.
\<close>

theorem transport_nonces:
  assumes "new_transport wk rk = Some t" and "i < length ps" and "j < length ps"
  shows "fst (seal_frames C ps t) ! i = aes_gcm_seal C wk (nonce (of_nat i)) [] (pad32 (ps ! i))
    \<and> (nonce (of_nat i) = nonce (of_nat j) \<longleftrightarrow> i mod 2 ^ 32 = j mod 2 ^ 32)"
proof
  have t: "ct_write_key t = wk" "ct_write_ctr t = 0"
    using assms(1) by (auto simp: new_transport_def split: if_splits)
  then show "fst (seal_frames C ps t) ! i = aes_gcm_seal C wk (nonce (of_nat i)) [] (pad32 (ps ! i))"
    using seal_frames_nonces [OF assms(2), of C t] by simp
  show "nonce (of_nat i) = nonce (of_nat j) \<longleftrightarrow> i mod 2 ^ 32 = j mod 2 ^ 32"
    by (simp add: nonce_inject of_nat_u32_inject)
qed

theorem transport_nonces_witness:
  "fst (seal_frames toy_noise [[5], [6]]
      \<lparr>ct_write_key = replicate 32 1, ct_read_key = replicate 32 2, ct_write_ctr = 0, ct_read_ctr = 0\<rparr>) ! 1
    = aes_gcm_seal toy_noise (replicate 32 1) (nonce (of_nat 1)) [] (pad32 [6])
   \<and> (nonce (of_nat 1) = nonce (of_nat 0) \<longleftrightarrow> (1::nat) mod 2 ^ 32 = 0 mod 2 ^ 32)"
  using transport_nonces [of "replicate 32 1" "replicate 32 2" _ 1 "[[5], [6]]" 0 toy_noise]
  by (simp add: new_transport_def)

end
