(* ===== verification/HidFraming.thy ===== *)
theory HidFraming
  imports Interfaces
begin

text \<open>
  CTAPHID framing (\<open>ctap/hid.rs\<close>): a message split across 64-byte reports, and the reassembler the
  shell feeds one report at a time. \<open>encode\<close> builds the reports, \<open>push\<close> is \<open>Reassembler::push\<close>
  (the new state beside the result), \<open>abandon\<close> is \<open>Reassembler::abandon\<close>.
\<close>

unbundle bit_operations_syntax

section \<open>Constants and data\<close>

definition HID_REPORT_SIZE :: nat where "HID_REPORT_SIZE = 64"
definition INIT_HEADER :: nat where "INIT_HEADER = 4 + 1 + 2"
definition CONT_HEADER :: nat where "CONT_HEADER = 4 + 1"
definition INIT_PAYLOAD :: nat where "INIT_PAYLOAD = HID_REPORT_SIZE - INIT_HEADER"
definition CONT_PAYLOAD :: nat where "CONT_PAYLOAD = HID_REPORT_SIZE - CONT_HEADER"
definition MAX_MESSAGE_LEN :: nat where "MAX_MESSAGE_LEN = INIT_PAYLOAD + 128 * CONT_PAYLOAD"
definition BROADCAST_CHANNEL :: u32 where "BROADCAST_CHANNEL = 0xffffffff"

lemmas hid_sizes = HID_REPORT_SIZE_def INIT_HEADER_def CONT_HEADER_def INIT_PAYLOAD_def
  CONT_PAYLOAD_def MAX_MESSAGE_LEN_def

datatype ctap_hid_command =
  Ping | Msg | Init | Wink | Cbor | Cancel | KeepAlive | ErrorCmd

text \<open>\<open>command as u8\<close>: the discriminants of the \<open>repr(u8)\<close> enum.\<close>

fun command_byte :: "ctap_hid_command \<Rightarrow> u8" where
  "command_byte Ping = 0x01"
| "command_byte Msg = 0x03"
| "command_byte Init = 0x06"
| "command_byte Wink = 0x08"
| "command_byte Cbor = 0x10"
| "command_byte Cancel = 0x11"
| "command_byte KeepAlive = 0x3b"
| "command_byte ErrorCmd = 0x3f"

definition command_from_byte :: "u8 \<Rightarrow> ctap_hid_command option" where
  "command_from_byte b =
     (if b = 0x01 then Some Ping
      else if b = 0x03 then Some Msg
      else if b = 0x06 then Some Init
      else if b = 0x08 then Some Wink
      else if b = 0x10 then Some Cbor
      else if b = 0x11 then Some Cancel
      else if b = 0x3b then Some KeepAlive
      else if b = 0x3f then Some ErrorCmd
      else None)"

datatype hid_error =
  ReportSize nat
| TooLong nat
| UnexpectedContinuation
| SequenceOutOfOrder (so_expected: u8) (so_got: u8)
| ForeignChannel (fc_expected: u32) (fc_got: u32)
| UnknownCommand u8
| Truncated (tr_declared: nat) (tr_got: nat)

record message =
  msg_channel :: u32
  msg_command :: ctap_hid_command
  msg_payload :: bytes

record reassembler =
  ra_channel :: "u32 option"
  ra_command :: "ctap_hid_command option"
  ra_declared :: nat
  ra_buffer :: bytes
  ra_next_sequence :: u8

section \<open>Building the reports\<close>

lemma command_byte_inverse: "command_from_byte b = Some c \<longleftrightarrow> command_byte c = b"
  by (cases c) (auto simp: command_from_byte_def)

interpretation command_code: canonical_codec command_byte command_from_byte "\<lambda>_. True"
  by unfold_locales (simp_all add: command_byte_inverse)

text \<open>The \<open>while sent < payload.len()\<close> loop: one continuation report per turn.\<close>

definition cont_packet :: "u32 \<Rightarrow> u8 \<Rightarrow> bytes \<Rightarrow> bytes" where
  "cont_packet channel sequence part =
     copy_at CONT_HEADER part
       ((copy_at 0 (u32_be channel) (zeros HID_REPORT_SIZE))[4 := sequence])"

function cont_frames :: "u32 \<Rightarrow> bytes \<Rightarrow> nat \<Rightarrow> u8 \<Rightarrow> bytes list" where
  "cont_frames channel payload sent sequence =
     (if sent < length payload then
        (let n = min (length payload - sent) CONT_PAYLOAD in
         cont_packet channel sequence (subslice sent (sent + n) payload)
         # cont_frames channel payload (sent + n) (sequence + 1))
      else [])"
  by pat_completeness auto
termination
  by (relation "measure (\<lambda>(channel, payload, sent, sequence). length payload - sent)")
    (auto simp: hid_sizes)

declare cont_frames.simps [simp del]

definition init_packet :: "u32 \<Rightarrow> ctap_hid_command \<Rightarrow> bytes \<Rightarrow> bytes" where
  "init_packet channel command payload =
     (let p0 = copy_at 0 (u32_be channel) (zeros HID_REPORT_SIZE);
          p1 = p0[4 := 0x80 OR command_byte command];
          p2 = copy_at 5 (u16_be (of_nat (length payload))) p1;
          head = min (length payload) INIT_PAYLOAD
      in copy_at INIT_HEADER (take head payload) p2)"

definition encode :: "u32 \<Rightarrow> ctap_hid_command \<Rightarrow> bytes \<Rightarrow> hid_error + bytes list" where
  "encode channel command payload =
     (if length payload > MAX_MESSAGE_LEN then Inl (TooLong (length payload))
      else if length payload \<ge> 2 ^ 16 then Inl (TooLong (length payload))
      else Inr (init_packet channel command payload
                # cont_frames channel payload (min (length payload) INIT_PAYLOAD) 0))"

section \<open>Reassembling\<close>

definition new_reassembler :: reassembler where
  "new_reassembler = \<lparr>ra_channel = None, ra_command = None, ra_declared = 0, ra_buffer = [],
     ra_next_sequence = 0\<rparr>"

text \<open>
  The end of \<open>push\<close>: the message once its declared length is met, the state left as \<open>take\<close> leaves it.
\<close>

definition finish_push :: "u32 \<Rightarrow> reassembler \<Rightarrow> (hid_error + message option) \<times> reassembler" where
  "finish_push channel r =
     (if length (ra_buffer r) < ra_declared r then (Inr None, r)
      else (let r1 = r\<lparr>ra_channel := None\<rparr> in
        case ra_command r1 of
          None \<Rightarrow> (Inl UnexpectedContinuation, r1)
        | Some command \<Rightarrow>
            (Inr (Some \<lparr>msg_channel = (case ra_channel r of Some c \<Rightarrow> c | None \<Rightarrow> channel),
                         msg_command = command, msg_payload = ra_buffer r\<rparr>),
             r1\<lparr>ra_command := None, ra_buffer := [], ra_declared := 0, ra_next_sequence := 0\<rparr>)))"

definition push_init :: "bytes \<Rightarrow> u32 \<Rightarrow> u8 \<Rightarrow> reassembler \<Rightarrow>
    (hid_error + message option) \<times> reassembler" where
  "push_init report channel marker r =
     (case command_from_byte (marker AND 0x7f) of
        None \<Rightarrow> (Inl (UnknownCommand (marker AND 0x7f)), r)
      | Some command \<Rightarrow>
          (let declared = nat_of_be (subslice 5 7 report) in
           if declared > MAX_MESSAGE_LEN then (Inl (TooLong declared), r)
           else (let head = min declared INIT_PAYLOAD in
             finish_push channel
               (r\<lparr>ra_channel := Some channel, ra_command := Some command, ra_declared := declared,
                  ra_buffer := subslice INIT_HEADER (INIT_HEADER + head) report,
                  ra_next_sequence := 0\<rparr>))))"

definition push_cont :: "bytes \<Rightarrow> u32 \<Rightarrow> u8 \<Rightarrow> reassembler \<Rightarrow>
    (hid_error + message option) \<times> reassembler" where
  "push_cont report channel marker r =
     (case ra_channel r of
        None \<Rightarrow> (Inl UnexpectedContinuation, r)
      | Some expected \<Rightarrow>
          if channel \<noteq> expected then (Inl (ForeignChannel expected channel), r)
          else if marker \<noteq> ra_next_sequence r
          then (Inl (SequenceOutOfOrder (ra_next_sequence r) marker), r)
          else (let remaining = ra_declared r - length (ra_buffer r);
                    n = min remaining CONT_PAYLOAD in
            finish_push channel
              (r\<lparr>ra_buffer := ra_buffer r @ subslice CONT_HEADER (CONT_HEADER + n) report,
                 ra_next_sequence := ra_next_sequence r + 1\<rparr>)))"

definition push :: "reassembler \<Rightarrow> bytes \<Rightarrow> (hid_error + message option) \<times> reassembler" where
  "push r report =
     (if length report \<noteq> HID_REPORT_SIZE then (Inl (ReportSize (length report)), r)
      else (let channel = u32_of_be (subslice 0 4 report); marker = report ! 4 in
        if marker AND 0x80 \<noteq> 0 then push_init report channel marker r
        else push_cont report channel marker r))"

definition abandon :: "reassembler \<Rightarrow> hid_error option \<times> reassembler" where
  "abandon r = (case ra_command r of
      None \<Rightarrow> (None, r)
    | Some _ \<Rightarrow> (Some (Truncated (ra_declared r) (length (ra_buffer r))), new_reassembler))"

section \<open>The layout of a report\<close>

lemma cont_packet_layout:
  assumes "length part \<le> CONT_PAYLOAD"
  shows "cont_packet ch sq part = u32_be ch @ [sq] @ part @ zeros (CONT_PAYLOAD - length part)"
proof -
  have "copy_at 0 (u32_be ch) (zeros 64) = u32_be ch @ 0 # zeros 59"
    by (simp add: copy_at_def numeral_eq_Suc)
  then show ?thesis
    using assms by (simp add: cont_packet_def hid_sizes copy_at_def list_update_append
        drop_Cons' drop_replicate min_def)
qed

lemma init_packet_layout:
  "init_packet ch cmd payload =
     u32_be ch @ [0x80 OR command_byte cmd] @ u16_be (of_nat (length payload))
     @ take INIT_PAYLOAD payload @ zeros (INIT_PAYLOAD - length payload)"
proof -
  have "copy_at 0 (u32_be ch) (zeros 64) = u32_be ch @ 0 # zeros 59"
    by (simp add: copy_at_def numeral_eq_Suc)
  then show ?thesis
    by (simp add: init_packet_def Let_def hid_sizes copy_at_def list_update_append
        take_Cons' drop_Cons' drop_replicate min_def)
qed

section \<open>The reassembler's invariant\<close>

text \<open>
  Between messages nothing is held; within one, the buffer holds exactly the bytes of the reports
  taken so far, fewer than declared. So the subtraction \<open>declared - buffer.len()\<close> of \<open>push\<close> never
  goes below zero and \<open>next_sequence += 1\<close> never leaves the seven bits a report can carry.
\<close>

definition ra_inv :: "reassembler \<Rightarrow> bool" where
  "ra_inv r \<longleftrightarrow> (case ra_command r of
      None \<Rightarrow> r = new_reassembler
    | Some _ \<Rightarrow> ra_channel r \<noteq> None \<and> ra_declared r \<le> MAX_MESSAGE_LEN
        \<and> length (ra_buffer r) < ra_declared r
        \<and> length (ra_buffer r) = INIT_PAYLOAD + unat (ra_next_sequence r) * CONT_PAYLOAD)"

lemma ra_inv_new: "ra_inv new_reassembler"
  by (simp add: ra_inv_def new_reassembler_def)

lemma ra_inv_active:
  "ra_inv r \<Longrightarrow> ra_channel r \<noteq> None \<Longrightarrow>
     \<exists>cmd. ra_command r = Some cmd \<and> ra_declared r \<le> MAX_MESSAGE_LEN
       \<and> length (ra_buffer r) < ra_declared r
       \<and> length (ra_buffer r) = INIT_PAYLOAD + unat (ra_next_sequence r) * CONT_PAYLOAD"
  by (auto simp: ra_inv_def new_reassembler_def split: option.splits)

lemma ra_inv_sequence: "ra_inv r \<Longrightarrow> unat (ra_next_sequence r) < 128"
  by (auto simp: ra_inv_def new_reassembler_def hid_sizes split: option.splits)

lemma unat_Suc_u8: "unat (sq :: u8) < 255 \<Longrightarrow> unat (sq + 1) = Suc (unat sq)"
  by (simp add: unat_word_ariths)

text \<open>\<open>finish_push\<close> either keeps collecting or ends the message and is empty again.\<close>

lemma finish_push_more:
  "length (ra_buffer r) < ra_declared r \<Longrightarrow> finish_push ch r = (Inr None, r)"
  by (simp add: finish_push_def)

lemma finish_push_done:
  assumes "\<not> length (ra_buffer r) < ra_declared r"
    and "ra_command r = Some cmd" and "ra_channel r = Some c"
  shows "finish_push ch r =
    (Inr (Some \<lparr>msg_channel = c, msg_command = cmd, msg_payload = ra_buffer r\<rparr>), new_reassembler)"
  using assms by (simp add: finish_push_def Let_def new_reassembler_def)

lemma ra_inv_finish_push:
  assumes "ra_command r = Some cmd" and "ra_channel r = Some c"
    and "length (ra_buffer r) < ra_declared r \<Longrightarrow> ra_inv r"
  shows "ra_inv (snd (finish_push ch r))"
  using assms finish_push_more [of r ch] finish_push_done [of r cmd c ch] ra_inv_new
  by (cases "length (ra_buffer r) < ra_declared r") auto

lemma ra_inv_push_init:
  assumes "ra_inv r" and "length report = HID_REPORT_SIZE"
  shows "ra_inv (snd (push_init report ch marker r))"
proof (cases "command_from_byte (marker AND 0x7f)")
  case None
  with assms show ?thesis by (simp add: push_init_def)
next
  case (Some cmd)
  define d where "d = nat_of_be (subslice 5 7 report)"
  define r' where "r' = r\<lparr>ra_channel := Some ch, ra_command := Some cmd, ra_declared := d,
    ra_buffer := subslice INIT_HEADER (INIT_HEADER + min d INIT_PAYLOAD) report, ra_next_sequence := 0\<rparr>"
  have "ra_inv (snd (finish_push ch r'))" if "\<not> d > MAX_MESSAGE_LEN"
  proof (rule ra_inv_finish_push)
    show "ra_command r' = Some cmd" and "ra_channel r' = Some ch" by (simp_all add: r'_def)
    show "ra_inv r'" if "length (ra_buffer r') < ra_declared r'"
      using that \<open>\<not> d > MAX_MESSAGE_LEN\<close> assms(2) by (auto simp: ra_inv_def r'_def hid_sizes)
  qed
  with Some assms(1) show ?thesis by (simp add: push_init_def Let_def r'_def d_def)
qed

lemma ra_inv_push_cont:
  assumes "ra_inv r" and "length report = HID_REPORT_SIZE"
  shows "ra_inv (snd (push_cont report ch marker r))"
proof (cases "ra_channel r")
  case None
  then show ?thesis using assms by (simp add: push_cont_def)
next
  case (Some c)
  then obtain cmd where cmd: "ra_command r = Some cmd"
    and d: "ra_declared r \<le> MAX_MESSAGE_LEN" "length (ra_buffer r) < ra_declared r"
      "length (ra_buffer r) = INIT_PAYLOAD + unat (ra_next_sequence r) * CONT_PAYLOAD"
    using ra_inv_active [OF assms(1)] by auto
  have sq: "unat (ra_next_sequence r + 1) = Suc (unat (ra_next_sequence r))"
    using ra_inv_sequence [OF assms(1)] by (simp add: unat_Suc_u8)
  define n where "n = min (ra_declared r - length (ra_buffer r)) CONT_PAYLOAD"
  define r' where "r' = r\<lparr>ra_buffer := ra_buffer r @ subslice CONT_HEADER (CONT_HEADER + n) report,
    ra_next_sequence := ra_next_sequence r + 1\<rparr>"
  have "ra_inv (snd (finish_push ch r'))"
  proof (rule ra_inv_finish_push)
    show "ra_command r' = Some cmd" and "ra_channel r' = Some c"
      by (simp_all add: r'_def cmd Some)
    show "ra_inv r'" if "length (ra_buffer r') < ra_declared r'"
      using that d sq assms(2) by (auto simp: ra_inv_def r'_def n_def cmd Some hid_sizes)
  qed
  with Some assms(1) show ?thesis by (auto simp: push_cont_def Let_def r'_def n_def)
qed

lemma ra_inv_push: "ra_inv r \<Longrightarrow> ra_inv (snd (push r report))"
  by (simp add: push_def Let_def ra_inv_push_init ra_inv_push_cont)

lemma ra_inv_abandon: "ra_inv r \<Longrightarrow> ra_inv (snd (abandon r))"
  by (simp add: abandon_def ra_inv_new split: option.split)

text \<open>A refused report leaves the message in progress as it was.\<close>

lemma finish_push_no_error:
  "ra_command r = Some cmd \<Longrightarrow> fst (finish_push ch r) \<noteq> Inl e"
  by (simp add: finish_push_def Let_def)

lemma push_error_keeps_state:
  assumes "ra_inv r" and "fst (push r report) = Inl e"
  shows "snd (push r report) = r"
proof -
  have "snd (push_init report ch m r) = r" if "fst (push_init report ch m r) = Inl e" for ch m
    using that finish_push_no_error by (fastforce simp: push_init_def Let_def split: option.splits if_splits)
  moreover have "snd (push_cont report ch m r) = r" if "fst (push_cont report ch m r) = Inl e" for ch m
  proof (cases "ra_channel r")
    case None
    then show ?thesis by (simp add: push_cont_def)
  next
    case (Some c)
    then obtain cmd where "ra_command r = Some cmd" using ra_inv_active [OF assms(1)] by auto
    then show ?thesis
      using that Some finish_push_no_error
      by (fastforce simp: push_cont_def Let_def split: if_splits)
  qed
  ultimately show ?thesis
    using assms(2) by (auto simp: push_def Let_def split: if_splits)
qed

section \<open>Reports fed back\<close>

lemma u32_of_be_prefix: "u32_of_be (subslice 0 4 (u32_be ch @ xs)) = ch"
  by (simp add: subslice_def)

lemma nth_after_channel: "(u32_be ch @ b # xs) ! 4 = b"
  by (simp add: nth_append)

lemma command_marker:
  "(0x80 OR command_byte cmd) AND 0x80 \<noteq> 0"
  "(0x80 OR command_byte cmd) AND 0x7f = command_byte cmd"
  by (cases cmd; simp)+

lemma command_from_byte_byte [simp]: "command_from_byte (command_byte cmd) = Some cmd"
  by (cases cmd) (simp_all add: command_from_byte_def)

lemma length_init_packet: "length (init_packet ch cmd payload) = HID_REPORT_SIZE"
  by (simp add: init_packet_layout hid_sizes)

lemma length_cont_packet:
  "length part \<le> CONT_PAYLOAD \<Longrightarrow> length (cont_packet ch sq part) = HID_REPORT_SIZE"
  by (simp add: cont_packet_layout hid_sizes)

lemma push_init_packet:
  assumes "length payload \<le> MAX_MESSAGE_LEN"
  shows "push r (init_packet ch cmd payload) = finish_push ch
    (r\<lparr>ra_channel := Some ch, ra_command := Some cmd, ra_declared := length payload,
       ra_buffer := take INIT_PAYLOAD payload, ra_next_sequence := 0\<rparr>)"
proof -
  let ?p = "init_packet ch cmd payload"
  have len: "unat (of_nat (length payload) :: u16) = length payload"
    using assms by (simp add: unat_of_nat hid_sizes)
  have d: "nat_of_be (subslice 5 7 ?p) = length payload"
    using assms by (simp add: init_packet_layout subslice_def u16_be_def len
        nat_of_be_be_of_nat_id hid_sizes)
  have b: "subslice INIT_HEADER (INIT_HEADER + min (length payload) INIT_PAYLOAD) ?p
      = take INIT_PAYLOAD payload"
    by (simp add: init_packet_layout subslice_def INIT_HEADER_def min_def)
  have c: "u32_of_be (subslice 0 4 ?p) = ch" and m: "?p ! 4 = 0x80 OR command_byte cmd"
    by (simp_all add: init_packet_layout u32_of_be_prefix nth_after_channel)
  show ?thesis
    using assms by (simp add: push_def push_init_def Let_def length_init_packet c m d b
        command_marker)
qed

lemma push_cont_packet:
  assumes "length part \<le> CONT_PAYLOAD" and "ra_channel r = Some ch"
    and "ra_next_sequence r < 128"
    and "length part = min (ra_declared r - length (ra_buffer r)) CONT_PAYLOAD"
  shows "push r (cont_packet ch (ra_next_sequence r) part) = finish_push ch
    (r\<lparr>ra_buffer := ra_buffer r @ part, ra_next_sequence := ra_next_sequence r + 1\<rparr>)"
proof -
  let ?p = "cont_packet ch (ra_next_sequence r) part"
  have b: "subslice CONT_HEADER (CONT_HEADER + length part) ?p = part"
    using assms(1) by (simp add: cont_packet_layout subslice_def CONT_HEADER_def)
  have c: "u32_of_be (subslice 0 4 ?p) = ch" and m: "?p ! 4 = ra_next_sequence r"
    using assms(1) by (simp_all add: cont_packet_layout u32_of_be_prefix nth_after_channel)
  show ?thesis
    using assms b by (simp add: push_def push_cont_def Let_def length_cont_packet c m u8_and_128)
qed

lemma take_subslice: "take sent xs @ subslice sent (sent + n) xs = take (sent + n) xs"
  by (simp add: subslice_def take_add)

lemma run_Cons_snd:
  "run step s (e # es) =
     (fst (step s e) # fst (run step (snd (step s e)) es), snd (run step (snd (step s e)) es))"
  by (simp add: Let_def split: prod.splits)

abbreviation whole_message :: "u32 \<Rightarrow> ctap_hid_command \<Rightarrow> bytes \<Rightarrow> message" where
  "whole_message ch cmd payload \<equiv>
     \<lparr>msg_channel = ch, msg_command = cmd, msg_payload = payload\<rparr>"

text \<open>The results of the reports of one message: nothing until the last, which delivers it.\<close>

definition delivers :: "message \<Rightarrow> bytes list \<Rightarrow> (hid_error + message option) list" where
  "delivers m frames = replicate (length frames - 1) (Inr None) @ [Inr (Some m)]"

lemma push_cont_frames:
  assumes "ra_command r = Some cmd" and "ra_channel r = Some ch"
    and "ra_declared r = length payload" and "length payload \<le> MAX_MESSAGE_LEN"
    and "ra_buffer r = take sent payload" and "sent = INIT_PAYLOAD + unat sq * CONT_PAYLOAD"
    and "sent < length payload" and "ra_next_sequence r = sq"
  shows "run push r (cont_frames ch payload sent sq) =
    (delivers (whole_message ch cmd payload) (cont_frames ch payload sent sq), new_reassembler)"
  using assms
proof (induction ch payload sent sq arbitrary: r rule: cont_frames.induct)
  case (1 ch payload sent sq)
  define n where "n = min (length payload - sent) CONT_PAYLOAD"
  define part where "part = subslice sent (sent + n) payload"
  define r' where "r' = r\<lparr>ra_buffer := ra_buffer r @ part, ra_next_sequence := sq + 1\<rparr>"
  have sq: "unat sq < 128" using "1.prems" by (simp add: hid_sizes)
  have sq': "unat (sq + 1) = Suc (unat sq)" using sq by (simp add: unat_Suc_u8)
  have part: "length part = n" "n \<le> CONT_PAYLOAD" by (simp_all add: part_def n_def)
  have frames: "cont_frames ch payload sent sq =
      cont_packet ch sq part # cont_frames ch payload (sent + n) (sq + 1)"
    using "1.prems"(7) by (subst cont_frames.simps) (simp add: Let_def n_def part_def)
  have step: "push r (cont_packet ch sq part) = finish_push ch r'"
    using push_cont_packet [of part r ch] "1.prems" part sq
    by (simp add: r'_def n_def word_less_nat_alt)
  have buf: "ra_buffer r' = take (sent + n) payload"
    using "1.prems"(5) by (simp add: r'_def part_def take_subslice)
  show ?case
  proof (cases "sent + n < length payload")
    case True
    then have full: "n = CONT_PAYLOAD" by (simp add: n_def)
    have more: "finish_push ch r' = (Inr None, r')"
      using True buf "1.prems"(3) by (intro finish_push_more) (simp add: r'_def)
    have "run push r' (cont_frames ch payload (sent + n) (sq + 1)) =
        (delivers (whole_message ch cmd payload) (cont_frames ch payload (sent + n) (sq + 1)),
         new_reassembler)"
      using "1.prems" True buf full sq'
      by (intro "1.IH" [OF "1.prems"(7) n_def]) (simp_all add: r'_def n_def)
    moreover have "cont_frames ch payload (sent + n) (sq + 1) \<noteq> []"
      using True by (subst cont_frames.simps) (simp add: Let_def)
    ultimately show ?thesis
      by (cases "cont_frames ch payload (sent + n) (sq + 1)")
        (simp_all add: frames run_Cons_snd step more delivers_def del: run.simps)
  next
    case False
    then have nil: "cont_frames ch payload (sent + n) (sq + 1) = []"
      by (subst cont_frames.simps) simp
    have "finish_push ch r' = (Inr (Some (whole_message ch cmd payload)), new_reassembler)"
      using False buf "1.prems" finish_push_done [of r' cmd ch ch] by (simp add: r'_def)
    then show ?thesis
      by (simp add: frames nil run_Cons_snd step delivers_def del: run.simps) simp
  qed
qed

lemma encode_frames:
  "encode ch cmd payload = Inr frames \<longleftrightarrow> length payload \<le> MAX_MESSAGE_LEN \<and>
     frames = init_packet ch cmd payload
       # cont_frames ch payload (min (length payload) INIT_PAYLOAD) 0"
  by (auto simp: encode_def hid_sizes)

lemma run_push_encode:
  assumes "encode ch cmd payload = Inr frames"
  shows "run push r frames = (delivers (whole_message ch cmd payload) frames, new_reassembler)"
proof -
  define r' where "r' = r\<lparr>ra_channel := Some ch, ra_command := Some cmd,
    ra_declared := length payload, ra_buffer := take INIT_PAYLOAD payload, ra_next_sequence := 0\<rparr>"
  let ?rest = "cont_frames ch payload (min (length payload) INIT_PAYLOAD) 0"
  have le: "length payload \<le> MAX_MESSAGE_LEN" and frames: "frames = init_packet ch cmd payload # ?rest"
    using assms by (simp_all add: encode_frames)
  have step: "push r (init_packet ch cmd payload) = finish_push ch r'"
    using push_init_packet [OF le] by (simp add: r'_def)
  show ?thesis
  proof (cases "INIT_PAYLOAD < length payload")
    case True
    have more: "finish_push ch r' = (Inr None, r')"
      using True by (intro finish_push_more) (simp add: r'_def)
    have "run push r' ?rest = (delivers (whole_message ch cmd payload) ?rest, new_reassembler)"
      using True le by (intro push_cont_frames) (simp_all add: r'_def)
    moreover have "?rest \<noteq> []" using True by (subst cont_frames.simps) (simp add: Let_def)
    ultimately show ?thesis
      by (cases ?rest) (simp_all add: frames run_Cons_snd step more delivers_def del: run.simps)
  next
    case False
    then have nil: "?rest = []" by (subst cont_frames.simps) simp
    have "finish_push ch r' = (Inr (Some (whole_message ch cmd payload)), new_reassembler)"
      using False finish_push_done [of r' cmd ch ch] by (simp add: r'_def)
    then show ?thesis
      by (simp add: frames nil run_Cons_snd step delivers_def del: run.simps) simp
  qed
qed

interpretation reassembly: event_machine "push" new_reassembler ra_inv
  by unfold_locales (rule ra_inv_new, rule ra_inv_push)

lemma cont_frames_props:
  assumes "length payload \<le> MAX_MESSAGE_LEN" and "sent = INIT_PAYLOAD + unat sq * CONT_PAYLOAD"
  shows "length (cont_frames ch payload sent sq) = (length payload - sent + 58) div 59
    \<and> (\<forall>f\<in>set (cont_frames ch payload sent sq). length f = HID_REPORT_SIZE)
    \<and> (\<forall>i<length (cont_frames ch payload sent sq).
           unat (cont_frames ch payload sent sq ! i ! 4) = unat sq + i)"
  using assms
proof (induction ch payload sent sq rule: cont_frames.induct)
  case (1 ch payload sent sq)
  define n where "n = min (length payload - sent) CONT_PAYLOAD"
  define part where "part = subslice sent (sent + n) payload"
  let ?tail = "cont_frames ch payload (sent + n) (sq + 1)"
  have part: "length part \<le> CONT_PAYLOAD" by (simp add: part_def n_def)
  have frames: "cont_frames ch payload sent sq =
      (if sent < length payload then cont_packet ch sq part # ?tail else [])"
    by (subst cont_frames.simps) (simp add: Let_def n_def part_def)
  have head: "length (cont_packet ch sq part) = HID_REPORT_SIZE" "cont_packet ch sq part ! 4 = sq"
    using length_cont_packet [OF part, of ch sq] part
    by (simp_all add: cont_packet_layout nth_after_channel)
  have nil: "?tail = []" if "\<not> sent + n < length payload"
    using that by (subst cont_frames.simps) simp
  have sq: "unat (sq + 1) = Suc (unat sq)" if "sent < length payload"
    using that "1.prems" by (intro unat_Suc_u8) (simp add: hid_sizes)
  have full: "n = CONT_PAYLOAD" if "sent + n < length payload"
    using that by (simp add: n_def)
  have tail: "length ?tail = (length payload - (sent + n) + 58) div 59
      \<and> (\<forall>f\<in>set ?tail. length f = HID_REPORT_SIZE)
      \<and> (\<forall>i<length ?tail. unat (?tail ! i ! 4) = unat (sq + 1) + i)" if "sent < length payload"
  proof (cases "sent + n < length payload")
    case True
    then have "sent + n = INIT_PAYLOAD + unat (sq + 1) * CONT_PAYLOAD"
      using full sq that "1.prems" by (simp add: hid_sizes)
    then show ?thesis using "1.IH" [OF that n_def] "1.prems" by blast
  qed (simp add: nil)
  have count: "(length payload - sent + 58) div 59 = Suc ((length payload - (sent + n) + 58) div 59)"
    if "sent < length payload"
  proof (cases "sent + n < length payload")
    case True
    then show ?thesis using full by (simp add: hid_sizes)
  next
    case False
    with that have "0 < length payload - sent" "length payload - sent \<le> 59"
      by (auto simp: n_def hid_sizes)
    with False show ?thesis by simp
  qed
  show ?case
    using tail count head sq by (auto simp: frames nth_Cons split: nat.split)
qed

section \<open>Properties\<close>

text \<open>C32: a message that fits comes back whole. Whatever the reassembler held before, feeding it the
  reports of one message answers "still collecting" to all but the last, which delivers exactly the
  channel, command and payload that were sent, and leaves the reassembler empty.\<close>

theorem hid_round_trip:
  assumes "encode ch cmd payload = Inr frames"
  shows "run push r frames =
    (replicate (length frames - 1) (Inr None)
       @ [Inr (Some \<lparr>msg_channel = ch, msg_command = cmd, msg_payload = payload\<rparr>)],
     new_reassembler)"
  using run_push_encode [OF assms] by (simp add: delivers_def)

lemma hid_round_trip_witness:
  "\<exists>frames. encode 7 Cbor (replicate 100 0xa1) = Inr frames \<and> run push new_reassembler frames =
    (replicate (length frames - 1) (Inr None)
       @ [Inr (Some \<lparr>msg_channel = 7, msg_command = Cbor, msg_payload = replicate 100 0xa1\<rparr>)],
     new_reassembler)"
proof -
  obtain frames where "encode 7 Cbor (replicate 100 0xa1) = Inr frames"
    by (simp add: encode_def hid_sizes)
  with hid_round_trip [OF this] show ?thesis by blast
qed

lemma encode_reports_shape:
  assumes "encode ch cmd payload = Inr frames"
  shows "length frames = 1 + (length payload - 57 + 58) div 59"
    and "\<forall>f\<in>set frames. length f = HID_REPORT_SIZE"
    and "\<forall>i<length frames - 1. unat (frames ! Suc i ! 4) = i"
proof -
  have le: "length payload \<le> MAX_MESSAGE_LEN" and frames: "frames = init_packet ch cmd payload
      # cont_frames ch payload (min (length payload) INIT_PAYLOAD) 0"
    using assms by (simp_all add: encode_frames)
  have nil: "cont_frames ch payload n 0 = []" if "length payload \<le> n" for n
    using that by (subst cont_frames.simps) simp
  have conts: "cont_frames ch payload (min (length payload) INIT_PAYLOAD) 0
      = cont_frames ch payload INIT_PAYLOAD 0"
    using nil [of INIT_PAYLOAD] nil [of "length payload"]
    by (cases "INIT_PAYLOAD < length payload") (simp_all add: min_def)
  note props = cont_frames_props [OF le, of INIT_PAYLOAD 0 ch]
  show "length frames = 1 + (length payload - 57 + 58) div 59"
    using props by (simp add: frames conts) (simp add: hid_sizes)
  show "\<forall>f\<in>set frames. length f = HID_REPORT_SIZE"
    using props by (simp add: frames conts length_init_packet)
  show "\<forall>i<length frames - 1. unat (frames ! Suc i ! 4) = i"
    using props by (simp add: frames conts)
qed

text \<open>
  Exactly the messages of at most 7609 bytes are encoded, into one report per 57 and then per 59
  bytes: never more than 129 reports, each of 64 bytes, the continuations numbered 0, 1, 2, \<dots>
  within the seven bits a report has for its number.\<close>

theorem hid_encode_reports:
  "((\<exists>frames. encode ch cmd payload = Inr frames) \<longleftrightarrow> length payload \<le> 7609) \<and>
   (encode ch cmd payload = Inr frames \<longrightarrow>
      length frames = 1 + (length payload - 57 + 58) div 59 \<and> length frames \<le> 129
      \<and> (\<forall>f\<in>set frames. length f = HID_REPORT_SIZE)
      \<and> (\<forall>i<length frames - 1. unat (frames ! Suc i ! 4) = i \<and> i < 128))"
proof -
  have ex: "(\<exists>frames. encode ch cmd payload = Inr frames) \<longleftrightarrow> length payload \<le> 7609"
    by (auto simp: encode_def hid_sizes)
  have "length frames = 1 + (length payload - 57 + 58) div 59 \<and> length frames \<le> 129
      \<and> (\<forall>f\<in>set frames. length f = HID_REPORT_SIZE)
      \<and> (\<forall>i<length frames - 1. unat (frames ! Suc i ! 4) = i \<and> i < 128)"
    if "encode ch cmd payload = Inr frames"
    using encode_reports_shape [OF that] ex that by auto
  with ex show ?thesis by blast
qed

lemma hid_encode_reports_witness:
  "\<exists>frames. encode 7 Cbor (replicate 100 0xa1) = Inr frames \<and> length frames = 2"
proof -
  obtain frames where f: "encode 7 Cbor (replicate 100 0xa1) = Inr frames"
    by (simp add: encode_def hid_sizes)
  with hid_encode_reports [of 7 Cbor "replicate 100 0xa1" frames] show ?thesis by simp
qed

text \<open>
  No sequence of reports, however hostile, breaks the reassembler. In every state it can reach the
  buffered bytes are fewer than declared and at most 7609 are ever awaited, so neither the
  subtraction nor the sequence counter of \<open>push\<close> can overflow; and a refused report changes nothing
  of the message in progress.\<close>

theorem hid_reassembler_safe:
  assumes "reachable push new_reassembler r"
  shows "ra_declared r \<le> 7609 \<and> length (ra_buffer r) \<le> ra_declared r
      \<and> unat (ra_next_sequence r) < 128
      \<and> (ra_command r \<noteq> None \<longrightarrow> length (ra_buffer r) < ra_declared r)
      \<and> (fst (push r report) = Inl e \<longrightarrow> snd (push r report) = r)"
proof -
  have inv: "ra_inv r" using assms by (rule reassembly.inv_reachable)
  then have "ra_declared r \<le> 7609 \<and> length (ra_buffer r) \<le> ra_declared r
      \<and> (ra_command r \<noteq> None \<longrightarrow> length (ra_buffer r) < ra_declared r)"
    by (auto simp: ra_inv_def new_reassembler_def hid_sizes split: option.splits)
  with ra_inv_sequence [OF inv] push_error_keeps_state [OF inv, of report e] show ?thesis by simp
qed

lemma hid_reassembler_safe_witness:
  "reachable push new_reassembler new_reassembler \<and>
     snd (push new_reassembler [1, 2, 3]) = new_reassembler"
proof -
  have "reachable push new_reassembler new_reassembler" by (rule reachable_init)
  moreover have "fst (push new_reassembler [1, 2, 3]) = Inl (ReportSize 3)"
    by (simp add: push_def HID_REPORT_SIZE_def)
  ultimately show ?thesis
    using hid_reassembler_safe [of new_reassembler "[1, 2, 3]" "ReportSize 3"] by simp
qed

end
