(* ===== verification/PinUv.thy ===== *)
theory PinUv
  imports Primitives
begin

text \<open>
  \<open>ctap/pin_uv.rs\<close>: the PIN/UV protocols of CTAP2, from the shared point of a key agreement to the
  authentication parameter of a request. The hash, the MAC, the key derivation and the block cipher
  chain are the crates' and come as a record of functions.
\<close>

section \<open>The primitives of the crates\<close>

record crypto =
  sha256 :: "bytes \<Rightarrow> bytes"
  hmac_sha256 :: "bytes \<Rightarrow> bytes \<Rightarrow> bytes"
  hkdf_expand :: "bytes \<Rightarrow> bytes \<Rightarrow> string \<Rightarrow> nat \<Rightarrow> bytes option"
  cbc_encrypt :: "bytes \<Rightarrow> bytes \<Rightarrow> bytes \<Rightarrow> bytes"
  cbc_decrypt :: "bytes \<Rightarrow> bytes \<Rightarrow> bytes \<Rightarrow> bytes"

text \<open>
  What the code relies on: 32-byte digests and tags, and a chain that keeps the length of whole
  blocks and is undone with the same key and start value.
\<close>

definition crypto_contract :: "crypto \<Rightarrow> bool" where
  "crypto_contract C \<longleftrightarrow>
     (\<forall>m. length (sha256 C m) = 32) \<and> (\<forall>k m. length (hmac_sha256 C k m) = 32)
     \<and> (\<forall>k iv p. length p mod 16 = 0 \<longrightarrow>
          length (cbc_encrypt C k iv p) = length p \<and> cbc_decrypt C k iv (cbc_encrypt C k iv p) = p)"

section \<open>Protocols and session keys\<close>

datatype protocol = One | Two

fun number :: "protocol \<Rightarrow> u8" where
  "number One = 1"
| "number Two = 2"

definition best_of :: "bytes \<Rightarrow> protocol option" where
  "best_of advertised =
     (if 2 \<in> set advertised then Some Two else if 1 \<in> set advertised then Some One else None)"

record shared_secret =
  ss_protocol :: protocol
  ss_hmac_key :: bytes
  ss_aes_key :: bytes

definition derive :: "crypto \<Rightarrow> protocol \<Rightarrow> bytes \<Rightarrow> core_error + shared_secret" where
  "derive C protocol shared_x =
     (if length shared_x \<noteq> 32
      then Inl (InvalidPublicKey (''ECDH shared X must be 32 bytes, got '' @ show_nat (length shared_x)))
      else case protocol of
          One \<Rightarrow> Inr \<lparr>ss_protocol = protocol, ss_hmac_key = sha256 C shared_x, ss_aes_key = sha256 C shared_x\<rparr>
        | Two \<Rightarrow>
            (case hkdf_expand C (zeros 32) shared_x ''CTAP2 HMAC key'' 32 of
               None \<Rightarrow> Inl (InvalidPublicKey ''HKDF expand failed'')
             | Some hmac_key \<Rightarrow>
                 (case hkdf_expand C (zeros 32) shared_x ''CTAP2 AES key'' 32 of
                    None \<Rightarrow> Inl (InvalidPublicKey ''HKDF expand failed'')
                  | Some aes_key \<Rightarrow>
                      Inr \<lparr>ss_protocol = protocol, ss_hmac_key = hmac_key, ss_aes_key = aes_key\<rparr>)))"

fun truncate_tag :: "protocol \<Rightarrow> bytes \<Rightarrow> bytes" where
  "truncate_tag One tag = take 16 tag"
| "truncate_tag Two tag = tag"

definition authenticate :: "crypto \<Rightarrow> shared_secret \<Rightarrow> bytes \<Rightarrow> bytes" where
  "authenticate C s message = truncate_tag (ss_protocol s) (hmac_sha256 C (ss_hmac_key s) message)"

definition encrypt :: "crypto \<Rightarrow> shared_secret \<Rightarrow> bytes \<Rightarrow> bytes \<Rightarrow> core_error + bytes" where
  "encrypt C s plaintext iv =
     (if length plaintext mod 16 \<noteq> 0 \<or> plaintext = []
      then Inl (InvalidSignature (''CTAP2 plaintext must be a non-empty multiple of 16 bytes, got ''
                @ show_nat (length plaintext)))
      else case ss_protocol s of
          One \<Rightarrow> Inr (cbc_encrypt C (ss_aes_key s) (zeros 16) plaintext)
        | Two \<Rightarrow>
            if length iv \<noteq> 16
            then Inl (InvalidSignature (''protocol Two needs a 16-byte IV, got '' @ show_nat (length iv)))
            else Inr (iv @ cbc_encrypt C (ss_aes_key s) iv plaintext))"

definition decrypt :: "crypto \<Rightarrow> shared_secret \<Rightarrow> bytes \<Rightarrow> core_error + bytes" where
  "decrypt C s ciphertext =
     (let body_of = (\<lambda>iv body.
        if body = [] \<or> length body mod 16 \<noteq> 0
        then Inl (InvalidSignature (''CTAP2 ciphertext must be a non-empty multiple of 16 bytes, got ''
                  @ show_nat (length body)))
        else Inr (cbc_decrypt C (ss_aes_key s) iv body))
      in case ss_protocol s of
          One \<Rightarrow> body_of (zeros 16) ciphertext
        | Two \<Rightarrow>
            if length ciphertext < 16
            then Inl (InvalidSignature ''protocol Two ciphertext is shorter than its IV'')
            else body_of (take 16 ciphertext) (drop 16 ciphertext))"

section \<open>PINs and tokens\<close>

definition pin_hash :: "crypto \<Rightarrow> string \<Rightarrow> bytes" where
  "pin_hash C pin = take 16 (sha256 C (as_bytes pin))"

definition encrypt_pin_hash :: "crypto \<Rightarrow> shared_secret \<Rightarrow> string \<Rightarrow> bytes \<Rightarrow> core_error + bytes" where
  "encrypt_pin_hash C s pin iv = encrypt C s (pin_hash C pin) iv"

record pin_uv_auth_token =
  pt_protocol :: protocol
  pt_token :: bytes

definition decrypt_token :: "crypto \<Rightarrow> shared_secret \<Rightarrow> bytes \<Rightarrow> core_error + pin_uv_auth_token" where
  "decrypt_token C s ciphertext =
     (case decrypt C s ciphertext of
        Inl e \<Rightarrow> Inl e
      | Inr token \<Rightarrow>
          if length token \<noteq> 16 \<and> length token \<noteq> 32
          then Inl (InvalidSignature (''pinUvAuthToken is '' @ show_nat (length token)
                    @ '' bytes, expected 16 or 32 '' @ [CHR 0xE2, CHR 0x80, CHR 0x94]
                    @ '' the shared secret does not match''))
          else Inr \<lparr>pt_protocol = ss_protocol s, pt_token = token\<rparr>)"

record pin_uv_auth =
  pa_protocol :: u8
  pa_param :: bytes

definition param :: "crypto \<Rightarrow> pin_uv_auth_token \<Rightarrow> bytes \<Rightarrow> pin_uv_auth" where
  "param C t client_data_hash =
     \<lparr>pa_protocol = number (pt_protocol t),
      pa_param = truncate_tag (pt_protocol t) (hmac_sha256 C (pt_token t) client_data_hash)\<rparr>"

section \<open>Lemmas\<close>

lemma decrypt_encrypt:
  assumes "crypto_contract C" and "encrypt C s p iv = Inr c"
  shows "decrypt C s c = Inr p"
proof -
  have p: "length p mod 16 = 0" "p \<noteq> []" using assms(2) by (auto simp: encrypt_def split: if_splits)
  have chain: "length (cbc_encrypt C k v p) = length p" "cbc_decrypt C k v (cbc_encrypt C k v p) = p" for k v
    using assms(1) p(1) by (simp_all add: crypto_contract_def)
  then have ne: "cbc_encrypt C k v p \<noteq> []" for k v using p(2) by (metis length_0_conv)
  show ?thesis
    using assms(2) p chain ne
    by (cases "ss_protocol s") (auto simp: encrypt_def decrypt_def split: if_splits)
qed

definition toy_crypto :: crypto where
  "toy_crypto =
     \<lparr>sha256 = \<lambda>m. take 32 (m @ zeros 32), hmac_sha256 = \<lambda>k m. take 32 (k @ m @ zeros 32),
      hkdf_expand = \<lambda>salt ikm info n. Some (take n (ikm @ as_bytes info @ zeros n)),
      cbc_encrypt = \<lambda>k iv p. map (\<lambda>b. b XOR hd (k @ [0x5a])) p,
      cbc_decrypt = \<lambda>k iv p. map (\<lambda>b. b XOR hd (k @ [0x5a])) p\<rparr>"

lemma toy_crypto_contract: "crypto_contract toy_crypto"
proof -
  have "(b XOR k) XOR k = b" for b k :: u8 by (simp add: xor.assoc)
  then show ?thesis by (auto simp: crypto_contract_def toy_crypto_def comp_def min_def)
qed

text \<open>
  What a session encrypts it decrypts. Under either protocol every accepted plaintext comes back
  exactly; a 16- or 32-byte token the authenticator encrypts is unwrapped under the session's
  protocol, and any other length is refused rather than used.
\<close>

theorem pin_uv_round_trip:
  assumes "crypto_contract C" and "encrypt C s p iv = Inr c"
  shows "decrypt C s c = Inr p
    \<and> (length p \<in> {16, 32} \<longrightarrow> decrypt_token C s c = Inr \<lparr>pt_protocol = ss_protocol s, pt_token = p\<rparr>)
    \<and> (length p \<notin> {16, 32} \<longrightarrow> (\<exists>e. decrypt_token C s c = Inl e))"
  using decrypt_encrypt [OF assms] by (auto simp: decrypt_token_def)

theorem pin_uv_round_trip_witness:
  "decrypt_token toy_crypto \<lparr>ss_protocol = Two, ss_hmac_key = [1], ss_aes_key = [2]\<rparr>
     (zeros 16 @ replicate 16 5) = Inr \<lparr>pt_protocol = Two, pt_token = replicate 16 7\<rparr>"
proof -
  have "encrypt toy_crypto \<lparr>ss_protocol = Two, ss_hmac_key = [1], ss_aes_key = [2]\<rparr> (replicate 16 7) (zeros 16)
      = Inr (zeros 16 @ replicate 16 5)"
    by (simp add: encrypt_def toy_crypto_def)
  from pin_uv_round_trip [OF toy_crypto_contract this] show ?thesis by simp
qed

end
