(* ===== verification/CtapCommands.thy ===== *)
theory CtapCommands
  imports PinUv
begin

text \<open>
  \<open>ctap/commands.rs\<close>: the CTAP2 requests as CBOR values with their command byte, and the responses
  read back. The CBOR writer and reader (\<open>ciborium\<close>), the COSE key codec (\<open>coset\<close>) and the on-curve
  reader of a key are parameters; a request's value and the reading of a response's map are not.
\<close>

section \<open>CBOR values\<close>

datatype cbor =
    CInteger int | CBytes bytes | CFloat u64 | CText string | CBool bool | CNull
  | CTag u64 cbor | CArray "cbor list" | CMap "(cbor \<times> cbor) list"

section \<open>Commands and verdicts\<close>

datatype command =
  MakeCredentialCmd | GetAssertionCmd | GetInfoCmd | ClientPinCmd | GetNextAssertionCmd | SelectionCmd

fun command_code :: "command \<Rightarrow> u8" where
  "command_code MakeCredentialCmd = 0x01"
| "command_code GetAssertionCmd = 0x02"
| "command_code GetInfoCmd = 0x04"
| "command_code ClientPinCmd = 0x06"
| "command_code GetNextAssertionCmd = 0x08"
| "command_code SelectionCmd = 0x0b"

datatype status =
    Success | Cancelled | CredentialExcluded | NoCredentials | PinRequired | PinNotSet | PinBlocked
  | UvFailed | KeyStoreFull | OtherStatus u8

definition status_from_byte :: "u8 \<Rightarrow> status" where
  "status_from_byte b =
     (if b = 0x00 then Success
      else if b = 0x19 then CredentialExcluded
      else if b = 0x27 \<or> b = 0x2d \<or> b = 0x2f then Cancelled
      else if b = 0x28 then KeyStoreFull
      else if b = 0x2b then PinNotSet
      else if b = 0x2e then NoCredentials
      else if b = 0x31 \<or> b = 0x36 then PinRequired
      else if b = 0x32 \<or> b = 0x34 then PinBlocked
      else if b = 0x35 then PinNotSet
      else if b = 0x3c \<or> b = 0x3f then UvFailed
      else OtherStatus b)"

definition is_success :: "status \<Rightarrow> bool" where
  "is_success s \<longleftrightarrow> s = Success"

section \<open>Requests\<close>

type_synonym credential_descriptor = bytes

record make_credential =
  mc_client_data_hash :: bytes
  mc_rp_id :: string
  mc_rp_name :: string
  mc_user_id :: bytes
  mc_user_name :: string
  mc_user_display_name :: string
  mc_exclude :: "credential_descriptor list"
  mc_resident_key :: bool
  mc_user_verification :: bool
  mc_pin_uv_auth :: "pin_uv_auth option"

record get_assertion =
  ga_rp_id :: string
  ga_client_data_hash :: bytes
  ga_allow :: "credential_descriptor list"
  ga_user_presence :: bool
  ga_user_verification :: bool
  ga_pin_uv_auth :: "pin_uv_auth option"

definition ALG_ES256 :: int where
  "ALG_ES256 = -7"

definition cbor_map :: "(int \<times> cbor) list \<Rightarrow> cbor" where
  "cbor_map entries = CMap (map (\<lambda>(key, value). (CInteger key, value)) (sort_key fst entries))"

definition credential_list :: "credential_descriptor list \<Rightarrow> cbor" where
  "credential_list items =
     CArray (map (\<lambda>i. CMap [(CText ''id'', CBytes i), (CText ''type'', CText ''public-key'')]) items)"

definition encode_value ::
  "(cbor \<Rightarrow> string + bytes) \<Rightarrow> command \<Rightarrow> cbor option \<Rightarrow> core_error + bytes" where
  "encode_value ser cmd value =
     (case value of
        None \<Rightarrow> Inr [command_code cmd]
      | Some v \<Rightarrow> map_sum InvalidCbor (\<lambda>bs. command_code cmd # bs) (ser v))"

definition make_credential_value :: "make_credential \<Rightarrow> cbor" where
  "make_credential_value r =
     cbor_map
       ([(0x01, CBytes (mc_client_data_hash r)),
         (0x02, CMap [(CText ''id'', CText (mc_rp_id r)), (CText ''name'', CText (mc_rp_name r))]),
         (0x03, CMap [(CText ''id'', CBytes (mc_user_id r)), (CText ''name'', CText (mc_user_name r)),
                      (CText ''displayName'', CText (mc_user_display_name r))]),
         (0x04, CArray [CMap [(CText ''alg'', CInteger ALG_ES256),
                              (CText ''type'', CText ''public-key'')]])]
        @ (if mc_exclude r \<noteq> [] then [(0x05, credential_list (mc_exclude r))] else [])
        @ (let options = (if mc_resident_key r then [(CText ''rk'', CBool True)] else [])
                         @ (if mc_user_verification r then [(CText ''uv'', CBool True)] else [])
           in if options \<noteq> [] then [(0x07, CMap options)] else [])
        @ (case mc_pin_uv_auth r of
             None \<Rightarrow> []
           | Some auth \<Rightarrow> [(0x08, CBytes (pa_param auth)), (0x09, CInteger (uint (pa_protocol auth)))]))"

definition make_credential_encode ::
  "(cbor \<Rightarrow> string + bytes) \<Rightarrow> make_credential \<Rightarrow> core_error + bytes" where
  "make_credential_encode ser r = encode_value ser MakeCredentialCmd (Some (make_credential_value r))"

definition get_assertion_value :: "get_assertion \<Rightarrow> cbor" where
  "get_assertion_value r =
     cbor_map
       ([(0x01, CText (ga_rp_id r)), (0x02, CBytes (ga_client_data_hash r))]
        @ (if ga_allow r \<noteq> [] then [(0x03, credential_list (ga_allow r))] else [])
        @ (let options = (if \<not> ga_user_presence r then [(CText ''up'', CBool False)] else [])
                         @ (if ga_user_verification r then [(CText ''uv'', CBool True)] else [])
           in if options \<noteq> [] then [(0x05, CMap options)] else [])
        @ (case ga_pin_uv_auth r of
             None \<Rightarrow> []
           | Some auth \<Rightarrow> [(0x06, CBytes (pa_param auth)), (0x07, CInteger (uint (pa_protocol auth)))]))"

definition get_assertion_encode ::
  "(cbor \<Rightarrow> string + bytes) \<Rightarrow> get_assertion \<Rightarrow> core_error + bytes" where
  "get_assertion_encode ser r = encode_value ser GetAssertionCmd (Some (get_assertion_value r))"

section \<open>PIN requests\<close>

datatype client_pin_subcommand =
    GetPinRetries | GetKeyAgreement | GetPinToken | GetPinUvAuthTokenUsingUvWithPermissions
  | GetUvRetries | GetPinUvAuthTokenUsingPinWithPermissions

fun subcommand_code :: "client_pin_subcommand \<Rightarrow> u8" where
  "subcommand_code GetPinRetries = 0x01"
| "subcommand_code GetKeyAgreement = 0x02"
| "subcommand_code GetPinToken = 0x05"
| "subcommand_code GetPinUvAuthTokenUsingUvWithPermissions = 0x06"
| "subcommand_code GetUvRetries = 0x07"
| "subcommand_code GetPinUvAuthTokenUsingPinWithPermissions = 0x09"

type_synonym permissions = u8

definition MAKE_CREDENTIAL :: permissions where
  "MAKE_CREDENTIAL = 0x01"

definition GET_ASSERTION :: permissions where
  "GET_ASSERTION = 0x02"

record p256_public_key =
  pk_x :: bytes
  pk_y :: bytes

record client_pin =
  cp_protocol :: protocol
  cp_subcommand :: client_pin_subcommand
  cp_key_agreement :: "p256_public_key option"
  cp_pin_hash_enc :: "bytes option"
  cp_permissions :: "permissions option"
  cp_rp_id :: "string option"

definition key_agreement :: "protocol \<Rightarrow> client_pin" where
  "key_agreement p = \<lparr>cp_protocol = p, cp_subcommand = GetKeyAgreement, cp_key_agreement = None,
     cp_pin_hash_enc = None, cp_permissions = None, cp_rp_id = None\<rparr>"

definition pin_retries :: "protocol \<Rightarrow> client_pin" where
  "pin_retries p = \<lparr>cp_protocol = p, cp_subcommand = GetPinRetries, cp_key_agreement = None,
     cp_pin_hash_enc = None, cp_permissions = None, cp_rp_id = None\<rparr>"

definition uv_token :: "protocol \<Rightarrow> p256_public_key \<Rightarrow> permissions \<Rightarrow> string option \<Rightarrow> client_pin" where
  "uv_token p platform_key permissions rp_id =
     \<lparr>cp_protocol = p, cp_subcommand = GetPinUvAuthTokenUsingUvWithPermissions,
      cp_key_agreement = Some platform_key, cp_pin_hash_enc = None,
      cp_permissions = Some permissions, cp_rp_id = rp_id\<rparr>"

definition uv_retries :: "protocol \<Rightarrow> client_pin" where
  "uv_retries p = \<lparr>cp_protocol = p, cp_subcommand = GetUvRetries, cp_key_agreement = None,
     cp_pin_hash_enc = None, cp_permissions = None, cp_rp_id = None\<rparr>"

definition pin_token ::
  "protocol \<Rightarrow> p256_public_key \<Rightarrow> bytes \<Rightarrow> permissions option \<Rightarrow> string option \<Rightarrow> client_pin" where
  "pin_token p platform_key pin_hash_enc permissions rp_id =
     \<lparr>cp_protocol = p,
      cp_subcommand = (case permissions of
          Some _ \<Rightarrow> GetPinUvAuthTokenUsingPinWithPermissions | None \<Rightarrow> GetPinToken),
      cp_key_agreement = Some platform_key, cp_pin_hash_enc = Some pin_hash_enc,
      cp_permissions = permissions,
      cp_rp_id = (case permissions of Some _ \<Rightarrow> rp_id | None \<Rightarrow> None)\<rparr>"

text \<open>The COSE form of a key is the crate's: \<open>cose_key_value\<close> is a parameter of the encoder.\<close>

definition client_pin_value ::
  "(p256_public_key \<Rightarrow> core_error + cbor) \<Rightarrow> client_pin \<Rightarrow> core_error + cbor" where
  "client_pin_value cose_key_value r =
     (let rest = (case cp_pin_hash_enc r of None \<Rightarrow> [] | Some h \<Rightarrow> [(0x06, CBytes h)])
               @ (case cp_permissions r of None \<Rightarrow> [] | Some p \<Rightarrow> [(0x09, CInteger (uint p))])
               @ (case cp_rp_id r of None \<Rightarrow> [] | Some i \<Rightarrow> [(0x0a, CText i)]);
          head = [(0x01, CInteger (uint (number (cp_protocol r)))),
                  (0x02, CInteger (uint (subcommand_code (cp_subcommand r))))]
      in case cp_key_agreement r of
           None \<Rightarrow> Inr (cbor_map (head @ rest))
         | Some key \<Rightarrow> map_sum id (\<lambda>k. cbor_map (head @ [(0x03, k)] @ rest)) (cose_key_value key))"

definition client_pin_encode ::
  "(p256_public_key \<Rightarrow> core_error + cbor) \<Rightarrow> (cbor \<Rightarrow> string + bytes)
   \<Rightarrow> client_pin \<Rightarrow> core_error + bytes" where
  "client_pin_encode cose_key_value ser r =
     (case client_pin_value cose_key_value r of
        Inl e \<Rightarrow> Inl e
      | Inr v \<Rightarrow> encode_value ser ClientPinCmd (Some v))"

definition get_info_request :: "core_error + bytes" where
  "get_info_request = encode_value (\<lambda>_. Inr []) GetInfoCmd None"

definition selection_request :: "core_error + bytes" where
  "selection_request = encode_value (\<lambda>_. Inr []) SelectionCmd None"

definition get_next_assertion_request :: "core_error + bytes" where
  "get_next_assertion_request = encode_value (\<lambda>_. Inr []) GetNextAssertionCmd None"

section \<open>Responses\<close>

definition split_response :: "bytes \<Rightarrow> core_error + status \<times> bytes" where
  "split_response payload =
     (case payload of
        [] \<Rightarrow> Inl (InvalidCbor ''empty CTAP response'')
      | b # body \<Rightarrow> Inr (status_from_byte b, body))"

definition parse_map :: "(bytes \<Rightarrow> string + cbor) \<Rightarrow> bytes \<Rightarrow> core_error + (cbor \<times> cbor) list" where
  "parse_map de body =
     (if body = [] then Inr []
      else case de body of
          Inl e \<Rightarrow> Inl (InvalidCbor e)
        | Inr (CMap entries) \<Rightarrow> Inr entries
        | Inr _ \<Rightarrow> Inl (InvalidCbor ''CTAP response is not a map''))"

fun take_key :: "(cbor \<times> cbor) list \<Rightarrow> int \<Rightarrow> cbor option" where
  "take_key [] key = None"
| "take_key ((k, v) # entries) key = (if k = CInteger key then Some v else take_key entries key)"

definition bytes_at :: "(cbor \<times> cbor) list \<Rightarrow> int \<Rightarrow> string \<Rightarrow> core_error + bytes" where
  "bytes_at entries key what =
     (case take_key entries key of
        Some (CBytes bs) \<Rightarrow> Inr bs
      | _ \<Rightarrow> Inl (InvalidCbor (''CTAP response is missing '' @ what)))"

record make_credential_response =
  mr_fmt :: string
  mr_auth_data :: bytes
  mr_att_stmt :: cbor

definition parse_make_credential ::
  "(bytes \<Rightarrow> string + cbor) \<Rightarrow> bytes \<Rightarrow> core_error + make_credential_response" where
  "parse_make_credential de body =
     (case parse_map de body of
        Inl e \<Rightarrow> Inl e
      | Inr entries \<Rightarrow>
          (case take_key entries 0x01 of
             Some (CText fmt) \<Rightarrow>
               map_sum id (\<lambda>auth_data. \<lparr>mr_fmt = fmt, mr_auth_data = auth_data,
                   mr_att_stmt = unwrap_or (take_key entries 0x03) (CMap [])\<rparr>)
                 (bytes_at entries 0x02 ''authData'')
           | _ \<Rightarrow> Inl (InvalidCbor ''makeCredential response is missing fmt'')))"

definition attestation_value :: "make_credential_response \<Rightarrow> cbor" where
  "attestation_value r =
     CMap [(CText ''fmt'', CText (mr_fmt r)), (CText ''attStmt'', mr_att_stmt r),
           (CText ''authData'', CBytes (mr_auth_data r))]"

definition attestation_object ::
  "(cbor \<Rightarrow> string + bytes) \<Rightarrow> make_credential_response \<Rightarrow> core_error + bytes" where
  "attestation_object ser r = map_sum InvalidCbor id (ser (attestation_value r))"

record get_assertion_response =
  gr_credential_id :: "bytes option"
  gr_auth_data :: bytes
  gr_signature_der :: bytes
  gr_user_id :: "bytes option"
  gr_number_of_credentials :: "u32 option"

fun id_field :: "(cbor \<times> cbor) list \<Rightarrow> bytes option" where
  "id_field [] = None"
| "id_field ((k, v) # flds) =
     (case (k, v) of
        (CText name, CBytes bs) \<Rightarrow> if name = ''id'' then Some bs else id_field flds
      | _ \<Rightarrow> id_field flds)"

definition try_u32 :: "int \<Rightarrow> u32 option" where
  "try_u32 i = (if 0 \<le> i \<and> i < 2 ^ 32 then Some (of_int i) else None)"

definition try_u8 :: "int \<Rightarrow> u8 option" where
  "try_u8 i = (if 0 \<le> i \<and> i < 2 ^ 8 then Some (of_int i) else None)"

definition parse_get_assertion ::
  "(bytes \<Rightarrow> string + cbor) \<Rightarrow> bytes \<Rightarrow> core_error + get_assertion_response" where
  "parse_get_assertion de body =
     (case parse_map de body of
        Inl e \<Rightarrow> Inl e
      | Inr entries \<Rightarrow>
          let credential_id = (case take_key entries 0x01 of Some (CMap flds) \<Rightarrow> id_field flds | _ \<Rightarrow> None);
              user_id = (case take_key entries 0x04 of Some (CMap flds) \<Rightarrow> id_field flds | _ \<Rightarrow> None);
              count = (case take_key entries 0x05 of Some (CInteger i) \<Rightarrow> try_u32 i | _ \<Rightarrow> None)
          in case bytes_at entries 0x02 ''authData'' of
               Inl e \<Rightarrow> Inl e
             | Inr auth_data \<Rightarrow>
                 map_sum id (\<lambda>signature. \<lparr>gr_credential_id = credential_id, gr_auth_data = auth_data,
                     gr_signature_der = signature, gr_user_id = user_id,
                     gr_number_of_credentials = count\<rparr>)
                   (bytes_at entries 0x03 ''signature''))"

record client_pin_response =
  pr_key_agreement :: "p256_public_key option"
  pr_pin_uv_auth_token :: "bytes option"
  pr_pin_retries :: "u32 option"
  pr_power_cycle_state :: bool
  pr_uv_retries :: "u32 option"

text \<open>The nested key is written again and read by the one COSE decoder, here \<open>read_cose_key\<close>.\<close>

definition parse_client_pin ::
  "(bytes \<Rightarrow> string + cbor) \<Rightarrow> (cbor \<Rightarrow> string + bytes) \<Rightarrow> (bytes \<Rightarrow> core_error + p256_public_key)
   \<Rightarrow> bytes \<Rightarrow> core_error + client_pin_response" where
  "parse_client_pin de ser read_cose_key body =
     (case parse_map de body of
        Inl e \<Rightarrow> Inl e
      | Inr entries \<Rightarrow>
          let rest = (\<lambda>key. \<lparr>pr_key_agreement = key,
                pr_pin_uv_auth_token = (case take_key entries 0x02 of Some (CBytes bs) \<Rightarrow> Some bs | _ \<Rightarrow> None),
                pr_pin_retries = (case take_key entries 0x03 of Some (CInteger i) \<Rightarrow> try_u32 i | _ \<Rightarrow> None),
                pr_power_cycle_state = (case take_key entries 0x04 of Some (CBool b) \<Rightarrow> b | _ \<Rightarrow> False),
                pr_uv_retries = (case take_key entries 0x05 of Some (CInteger i) \<Rightarrow> try_u32 i | _ \<Rightarrow> None)\<rparr>)
          in case take_key entries 0x01 of
               None \<Rightarrow> Inr (rest None)
             | Some v \<Rightarrow>
                 (case ser v of
                    Inl e \<Rightarrow> Inl (InvalidCbor e)
                  | Inr bs \<Rightarrow> map_sum id (\<lambda>key. rest (Some key)) (read_cose_key bs)))"

record authenticator_info =
  ai_versions :: "string list"
  ai_aaguid :: bytes
  ai_resident_key :: bool
  ai_client_pin_set :: bool
  ai_user_verification :: bool
  ai_pin_uv_auth_token :: bool
  ai_pin_protocols :: bytes

definition default_info :: authenticator_info where
  "default_info = \<lparr>ai_versions = [], ai_aaguid = [], ai_resident_key = False, ai_client_pin_set = False,
     ai_user_verification = False, ai_pin_uv_auth_token = False, ai_pin_protocols = []\<rparr>"

fun read_option :: "cbor \<times> cbor \<Rightarrow> authenticator_info \<Rightarrow> authenticator_info" where
  "read_option (CText name, CBool flag) info =
     (if name = ''rk'' then info\<lparr>ai_resident_key := flag\<rparr>
      else if name = ''clientPin'' then info\<lparr>ai_client_pin_set := flag\<rparr>
      else if name = ''uv'' then info\<lparr>ai_user_verification := flag\<rparr>
      else if name = ''pinUvAuthToken'' then info\<lparr>ai_pin_uv_auth_token := flag\<rparr>
      else info)"
| "read_option _ info = info"

definition parse_get_info :: "(bytes \<Rightarrow> string + cbor) \<Rightarrow> bytes \<Rightarrow> core_error + authenticator_info" where
  "parse_get_info de body =
     map_sum id (\<lambda>entries.
       let i1 = (case take_key entries 0x01 of
             Some (CArray items) \<Rightarrow>
               default_info\<lparr>ai_versions := List.map_filter (\<lambda>x. case x of CText s \<Rightarrow> Some s | _ \<Rightarrow> None) items\<rparr>
           | _ \<Rightarrow> default_info);
           i2 = (case take_key entries 0x03 of Some (CBytes bs) \<Rightarrow> i1\<lparr>ai_aaguid := bs\<rparr> | _ \<Rightarrow> i1);
           i3 = (case take_key entries 0x04 of Some (CMap options) \<Rightarrow> fold read_option options i2 | _ \<Rightarrow> i2)
       in case take_key entries 0x06 of
            Some (CArray items) \<Rightarrow>
              i3\<lparr>ai_pin_protocols := List.map_filter (\<lambda>x. case x of CInteger i \<Rightarrow> try_u8 i | _ \<Rightarrow> None) items\<rparr>
          | _ \<Rightarrow> i3)
      (parse_map de body)"

section \<open>Canonical requests\<close>

text \<open>
  CTAP2's canonical form orders the keys of every map by the length of their encoding and then by its
  bytes, without repetition. The keys of a request are small integers and short texts.
\<close>

fun key_bytes :: "cbor \<Rightarrow> bytes option" where
  "key_bytes (CInteger i) =
     (if 0 \<le> i \<and> i < 24 then Some [of_int i]
      else if -24 \<le> i \<and> i < 0 then Some [of_int (32 - 1 - i)] else None)"
| "key_bytes (CText s) = (if length s < 24 then Some (of_nat (96 + length s) # as_bytes s) else None)"
| "key_bytes _ = None"

fun bytes_less :: "bytes \<Rightarrow> bytes \<Rightarrow> bool" where
  "bytes_less _ [] = False"
| "bytes_less [] (_ # _) = True"
| "bytes_less (x # xs) (y # ys) = (x < y \<or> (x = y \<and> bytes_less xs ys))"

definition key_less :: "cbor \<Rightarrow> cbor \<Rightarrow> bool" where
  "key_less a b =
     (case (key_bytes a, key_bytes b) of
        (Some x, Some y) \<Rightarrow> length x < length y \<or> (length x = length y \<and> bytes_less x y)
      | _ \<Rightarrow> False)"

fun canonical :: "cbor \<Rightarrow> bool" where
  "canonical (CArray vs) = list_all canonical vs"
| "canonical (CMap kvs) =
     (sorted_wrt key_less (map fst kvs) \<and> list_all (\<lambda>kv. key_bytes (fst kv) \<noteq> None) kvs
      \<and> list_all canonical (map snd kvs))"
| "canonical (CTag _ v) = canonical v"
| "canonical _ = True"

lemma canonical_credential_list: "canonical (credential_list items)"
  by (induction items) (simp_all add: credential_list_def key_less_def as_bytes_def)

lemma canonical_cbor_map:
  assumes "distinct (map fst entries)" and "\<forall>(k, v)\<in>set entries. 0 \<le> k \<and> k < 24 \<and> canonical v"
  shows "canonical (cbor_map entries)"
proof -
  define es where "es = sort_key fst entries"
  have set: "set es = set entries" by (simp add: es_def)
  have "sorted (map fst es)" by (simp add: es_def)
  moreover have "distinct (map fst es)"
    using assms(1) by (simp add: es_def distinct_map)
  ultimately have sorted: "sorted_wrt (<) (map fst es)" by (simp add: strict_sorted_iff)
  have less: "key_less (CInteger a) (CInteger b)" if "0 \<le> a" "a < b" "b < 24" for a b
  proof -
    have "(of_int a :: u8) < of_int b" using that by (simp add: word_less_def uint_word_of_int take_bit_int_eq_self)
    with that show ?thesis by (simp add: key_less_def)
  qed
  have "sorted_wrt key_less (map fst (map (\<lambda>(k, v). (CInteger k, v)) es))"
  proof -
    have "sorted_wrt (\<lambda>x y. key_less (CInteger x) (CInteger y)) (map fst es)"
      using sorted
    proof (rule sorted_wrt_mono_rel [rotated])
      fix x y assume "x \<in> set (map fst es)" "y \<in> set (map fst es)" "x < y"
      then show "key_less (CInteger x) (CInteger y)"
        using assms(2) less [of x y] by (fastforce simp: set)
    qed
    then show ?thesis by (simp add: sorted_wrt_map comp_def case_prod_unfold)
  qed
  moreover have "list_all canonical (map snd (map (\<lambda>(k, v). (CInteger k, v)) es))"
    using assms(2) by (auto simp: list_all_iff set case_prod_unfold)
  moreover have "list_all (\<lambda>kv. key_bytes (fst kv) \<noteq> None) (map (\<lambda>(k, v). (CInteger k, v)) es)"
    using assms(2) by (auto simp: list_all_iff set)
  ultimately show ?thesis by (simp add: cbor_map_def flip: es_def)
qed

lemma canonical_make_credential: "canonical (make_credential_value r)"
  unfolding make_credential_value_def
  by (rule canonical_cbor_map)
    (auto simp: canonical_credential_list key_less_def as_bytes_def Let_def ALG_ES256_def
      split: option.splits if_splits)

lemma canonical_get_assertion: "canonical (get_assertion_value r)"
  unfolding get_assertion_value_def
  by (rule canonical_cbor_map)
    (auto simp: canonical_credential_list key_less_def as_bytes_def Let_def
      split: option.splits if_splits)

lemma canonical_client_pin:
  assumes "\<forall>k v. cose k = Inr v \<longrightarrow> canonical v" and "client_pin_value cose r = Inr v"
  shows "canonical v"
proof (cases "cp_key_agreement r")
  case None
  show ?thesis
    using assms(2) None unfolding client_pin_value_def
    by (auto intro!: canonical_cbor_map split: option.splits)
next
  case (Some key)
  then obtain k where k: "cose key = Inr k"
    using assms(2) by (cases "cose key") (simp_all add: client_pin_value_def)
  then have "canonical k" using assms(1) by blast
  with assms(2) Some k show ?thesis
    unfolding client_pin_value_def
    by (auto intro!: canonical_cbor_map split: option.splits)
qed

text \<open>
  Every request is in CTAP2's canonical form. In the values of \<open>makeCredential\<close>,
  \<open>getAssertion\<close> and \<open>clientPIN\<close>, whichever optional parts are present, the keys of each map at
  every depth are strictly ascending by encoded length and then by bytes, as long as the COSE codec
  writes a canonical key.
\<close>

theorem requests_canonical:
  assumes "\<forall>k v. cose k = Inr v \<longrightarrow> canonical v"
  shows "canonical (make_credential_value mc) \<and> canonical (get_assertion_value ga)
    \<and> (\<forall>v. client_pin_value cose cp = Inr v \<longrightarrow> canonical v)"
  using canonical_make_credential canonical_get_assertion canonical_client_pin [OF assms] by blast

theorem requests_canonical_witness:
  "canonical (cbor_map [(0x01, CInteger 2), (0x02, CInteger 5), (0x03, CMap []), (0x06, CBytes [9])])"
proof -
  have cose: "\<forall>k v. (\<lambda>_. Inr (CMap [])) (k :: p256_public_key) = (Inr v :: core_error + cbor) \<longrightarrow> canonical v"
    by auto
  have "client_pin_value (\<lambda>_. Inr (CMap [])) (pin_token Two \<lparr>pk_x = [], pk_y = []\<rparr> [9] None None)
      = Inr (cbor_map [(0x01, CInteger 2), (0x02, CInteger 5), (0x03, CMap []), (0x06, CBytes [9])])"
    by (simp add: client_pin_value_def pin_token_def)
  with requests_canonical [OF cose] show ?thesis by blast
qed

end
