(* ===== verification/Cables.thy ===== *)
theory Cables
  imports CtapCommands "HOL-Library.Sublist"
begin

text \<open>
  The seam of \<open>ctap/ceremony.rs\<close> between a ceremony and its transport: the errors of a cable, their
  classification for the person, and the \<open>Cable\<close> interface with what a ceremony relies on about the
  "touch your key" prompt.
\<close>

section \<open>Errors and their classification\<close>

datatype touch_kind = Presence | Fingerprint | Select

datatype cable_error =
  NoKeyPresent | AccessDenied string string | CableTimedOut | Ctap status | CableOther string

datatype failure_kind = KindCancelled | NotSupported | NotDiscoverable | KindOther

record ceremony_error =
  ce_kind :: failure_kind
  ce_message :: "string option"

definition cancelled :: ceremony_error where
  "cancelled = \<lparr>ce_kind = KindCancelled, ce_message = None\<rparr>"

definition classified :: "failure_kind \<Rightarrow> string \<Rightarrow> ceremony_error" where
  "classified kind message = \<lparr>ce_kind = kind, ce_message = Some message\<rparr>"

definition other :: "string \<Rightarrow> ceremony_error" where
  "other message = classified KindOther message"

text \<open>The em dash of the code's sentences, in UTF-8.\<close>

definition em_dash :: string where
  "em_dash = [CHR 0xE2, CHR 0x80, CHR 0x94]"

definition NO_PIN_MESSAGE :: string where
  "NO_PIN_MESSAGE = ''This security key has no PIN set. Set one with the manufacturer'' @ [CHR 0x27]
     @ ''s tool and try again '' @ em_dash
     @ '' a wallet key has to be able to verify that it is you.''"

text \<open>\<open>{status:?}\<close>: the derived \<open>Debug\<close> rendering.\<close>

fun status_debug :: "status \<Rightarrow> string" where
  "status_debug Success = ''Success''"
| "status_debug Cancelled = ''Cancelled''"
| "status_debug CredentialExcluded = ''CredentialExcluded''"
| "status_debug NoCredentials = ''NoCredentials''"
| "status_debug PinRequired = ''PinRequired''"
| "status_debug PinNotSet = ''PinNotSet''"
| "status_debug PinBlocked = ''PinBlocked''"
| "status_debug UvFailed = ''UvFailed''"
| "status_debug KeyStoreFull = ''KeyStoreFull''"
| "status_debug (OtherStatus b) = ''Other('' @ show_nat (unat b) @ '')''"

fun failure_for :: "cable_error \<Rightarrow> ceremony_error" where
  "failure_for NoKeyPresent =
     classified NotSupported ''No security key is plugged in. Insert one and try again.''"
| "failure_for (Ctap Cancelled) = cancelled"
| "failure_for (Ctap CredentialExcluded) =
     other (''This security key already holds one of this wallet'' @ [CHR 0x27]
            @ ''s keys. Use a different one.'')"
| "failure_for (Ctap NoCredentials) = other ''This security key holds no Vela passkey.''"
| "failure_for (Ctap KeyStoreFull) =
     other (''This security key'' @ [CHR 0x27] @ ''s passkey storage is full. Delete some passkeys from it (with the manufacturer''
            @ [CHR 0x27] @ ''s tool, e.g. Yubico Authenticator) and try again.'')"
| "failure_for (Ctap PinRequired) =
     other ''The PIN was not accepted. Try again, and watch the remaining attempts before you spend the last one.''"
| "failure_for (Ctap PinNotSet) = other NO_PIN_MESSAGE"
| "failure_for (Ctap PinBlocked) =
     other ''This security key is locked. Unplug it and plug it back in; if it asks for a reset, be aware that a reset erases every passkey on it.''"
| "failure_for (AccessDenied product detail) =
     other (product @ '' is plugged in but could not be opened: '' @ detail)"
| "failure_for CableTimedOut =
     other ''The security key stopped responding. Unplug it and try again.''"
| "failure_for (Ctap status) = other (''the security key refused: '' @ status_debug status)"
| "failure_for (CableOther detail) = other detail"

section \<open>One exchange, and many\<close>

text \<open>
  \<open>exchange\<close> may not return (\<open>None\<close>) when its port never does. The log holds the announcements made,
  the kind of touch and the product named.
\<close>

fun run_exchanges ::
  "('c \<Rightarrow> bytes \<Rightarrow> touch_kind option \<Rightarrow> ((cable_error + bytes) \<times> 'c) option)
   \<Rightarrow> 'c \<Rightarrow> (bytes \<times> touch_kind option) list \<Rightarrow> ((cable_error + bytes) list \<times> 'c) option" where
  "run_exchanges exchange c [] = Some ([], c)"
| "run_exchanges exchange c ((request, touch) # rs) =
     (case exchange c request touch of
        None \<Rightarrow> None
      | Some (r, c1) \<Rightarrow> map_option (\<lambda>(out, c2). (r # out, c2)) (run_exchanges exchange c1 rs))"

text \<open>
  What every cable promises about its prompt: an exchange announces at most one touch, of the kind
  the ceremony passed, and none when the ceremony passed none.
\<close>

locale cable =
  fixes exchange :: "'c \<Rightarrow> bytes \<Rightarrow> touch_kind option \<Rightarrow> ((cable_error + bytes) \<times> 'c) option"
    and log :: "'c \<Rightarrow> (touch_kind \<times> string) list"
  assumes announces: "exchange c request touch = Some (r, c') \<Longrightarrow>
    log c' = log c \<or> (\<exists>kind name. touch = Some kind \<and> log c' = log c @ [(kind, name)])"
begin

lemma silent_exchange: "exchange c request None = Some (r, c') \<Longrightarrow> log c' = log c"
  using announces by fastforce

text \<open>Over a ceremony's exchanges the announcements are some of the kinds asked for, in order.\<close>

lemma run_announces:
  "run_exchanges exchange c rs = Some (out, c') \<Longrightarrow>
   \<exists>new. log c' = log c @ new \<and> subseq (map fst new) (List.map_filter snd rs)"
proof (induction rs arbitrary: c out)
  case Nil
  then show ?case by (simp add: map_filter_simps)
next
  case (Cons req rs)
  obtain request touch where req: "req = (request, touch)" by force
  with Cons.prems obtain r c1 out' where
    step: "exchange c request touch = Some (r, c1)" "run_exchanges exchange c1 rs = Some (out', c')"
    by (auto split: option.splits)
  obtain new where new: "log c' = log c1 @ new" "subseq (map fst new) (List.map_filter snd rs)"
    using Cons.IH [OF step(2)] by blast
  show ?case
  proof (cases touch)
    case None
    then have "log c1 = log c" using announces [OF step(1)] by simp
    with new None req show ?thesis by (auto simp: map_filter_simps)
  next
    case (Some kind)
    from announces [OF step(1)] Some show ?thesis
    proof (elim disjE exE conjE)
      assume "log c1 = log c"
      with new Some req show ?thesis by (auto simp: map_filter_simps)
    next
      fix k name
      assume "touch = Some k" "log c1 = log c @ [(k, name)]"
      with new Some req show ?thesis
        by (intro exI [of _ "(k, name) # new"]) (simp add: map_filter_simps)
    qed
  qed
qed

end

end
