(* ===== verification/HidCable.thy ===== *)
theory HidCable
  imports HidFraming Cables
begin

text \<open>
  \<open>ctap/hid_cable.rs\<close>: the CTAPHID conversation above the framing. The port (writing one report,
  reading one, the clock) is the transport's and is a parameter; a conversation whose port never
  answers nor times out does not return, which is the value \<open>None\<close> of the loop.
\<close>

section \<open>The port and the cable\<close>

definition KEEPALIVE_UP_NEEDED :: u8 where
  "KEEPALIVE_UP_NEEDED = 0x02"

datatype port_error = WouldBlock | TimedOut | Io string

record 'p hid_port =
  write_report :: "'p \<Rightarrow> bytes \<Rightarrow> port_error option \<times> 'p"
  read_report :: "'p \<Rightarrow> (port_error + bytes) \<times> 'p"
  port_product :: "'p \<Rightarrow> string"
  port_path :: "'p \<Rightarrow> string"

record 'p hid_cable =
  hc_port :: 'p
  hc_channel :: u32
  hc_touch :: "touch_kind option"
  hc_on_touch :: bool
  hc_log :: "(touch_kind \<times> string) list"

text \<open>The derived \<open>Debug\<close> rendering of a framing error, and the error it becomes.\<close>

fun hid_error_debug :: "hid_error \<Rightarrow> string" where
  "hid_error_debug (ReportSize n) = ''ReportSize('' @ show_nat n @ '')''"
| "hid_error_debug (TooLong n) = ''TooLong('' @ show_nat n @ '')''"
| "hid_error_debug UnexpectedContinuation = ''UnexpectedContinuation''"
| "hid_error_debug (SequenceOutOfOrder e g) =
     ''SequenceOutOfOrder { expected: '' @ show_nat (unat e) @ '', got: '' @ show_nat (unat g) @ '' }''"
| "hid_error_debug (ForeignChannel e g) =
     ''ForeignChannel { expected: '' @ show_nat (unat e) @ '', got: '' @ show_nat (unat g) @ '' }''"
| "hid_error_debug (UnknownCommand b) = ''UnknownCommand('' @ show_nat (unat b) @ '')''"
| "hid_error_debug (Truncated d g) =
     ''Truncated { declared: '' @ show_nat d @ '', got: '' @ show_nat g @ '' }''"

definition framing :: "hid_error \<Rightarrow> cable_error" where
  "framing e = CableOther (''CTAPHID framing error: '' @ hid_error_debug e)"

fun of_port_error :: "port_error \<Rightarrow> cable_error" where
  "of_port_error TimedOut = CableTimedOut"
| "of_port_error WouldBlock = CableTimedOut"
| "of_port_error (Io detail) = CableOther detail"

section \<open>One exchange\<close>

fun write_frames :: "'p hid_port \<Rightarrow> 'p \<Rightarrow> bytes list \<Rightarrow> port_error option \<times> 'p" where
  "write_frames P p [] = (None, p)"
| "write_frames P p (frame # frames) =
     (case write_report P p frame of
        (Some e, p1) \<Rightarrow> (Some e, p1)
      | (None, p1) \<Rightarrow> write_frames P p1 frames)"

text \<open>A keepalive: the first that asks for presence fires the announcement, if there is one to fire.\<close>

definition announce :: "'p hid_port \<Rightarrow> bytes \<Rightarrow> bool \<Rightarrow> 'p hid_cable \<Rightarrow> bool \<times> 'p hid_cable" where
  "announce P payload announced_touch c =
     (if payload \<noteq> [] \<and> hd payload = KEEPALIVE_UP_NEEDED \<and> \<not> announced_touch
      then (True,
        case hc_touch c of
          Some kind \<Rightarrow>
            if hc_on_touch c then c\<lparr>hc_log := hc_log c @ [(kind, port_product P (hc_port c))]\<rparr> else c
        | None \<Rightarrow> c)
      else (announced_touch, c))"

text \<open>What the loop does with one report: go on, or end.\<close>

datatype 'p verdict = Continue reassembler bool "'p hid_cable" | Break "(cable_error + bytes)" "'p hid_cable"

definition on_report ::
  "'p hid_port \<Rightarrow> bytes \<Rightarrow> reassembler \<Rightarrow> bool \<Rightarrow> 'p hid_cable \<Rightarrow> 'p verdict" where
  "on_report P report ra announced_touch c =
     (case push ra report of
        (Inr None, ra1) \<Rightarrow> Continue ra1 announced_touch c
      | (Inr (Some m), ra1) \<Rightarrow>
          if msg_command m = KeepAlive
          then (let (announced, c1) = announce P (msg_payload m) announced_touch c
                in Continue ra1 announced c1)
          else if msg_command m = ErrorCmd
          then Break (Inl (Ctap (status_from_byte (if msg_payload m = [] then 0x7f else hd (msg_payload m))))) c
          else Break (Inr (msg_payload m)) c
      | (Inl e, ra1) \<Rightarrow> Break (Inl (framing e)) c)"

partial_function (option) read_loop ::
  "'p hid_port \<Rightarrow> reassembler \<Rightarrow> bool \<Rightarrow> 'p hid_cable \<Rightarrow> ((cable_error + bytes) \<times> 'p hid_cable) option"
where
  "read_loop P ra announced_touch c =
     (let (res, p) = read_report P (hc_port c); c1 = c\<lparr>hc_port := p\<rparr>
      in case res of
           Inl WouldBlock \<Rightarrow> read_loop P ra announced_touch c1
         | Inl TimedOut \<Rightarrow> Some (Inl CableTimedOut, c1)
         | Inl (Io detail) \<Rightarrow> Some (Inl (CableOther detail), c1)
         | Inr report \<Rightarrow>
             (case on_report P report ra announced_touch c1 of
                Continue ra2 announced c2 \<Rightarrow> read_loop P ra2 announced c2
              | Break r c2 \<Rightarrow> Some (r, c2)))"

definition exchange_raw ::
  "'p hid_port \<Rightarrow> 'p hid_cable \<Rightarrow> ctap_hid_command \<Rightarrow> bytes
   \<Rightarrow> ((cable_error + bytes) \<times> 'p hid_cable) option" where
  "exchange_raw P c cmd payload =
     (case encode (hc_channel c) cmd payload of
        Inl e \<Rightarrow> Some (Inl (framing e), c)
      | Inr frames \<Rightarrow>
          (case write_frames P (hc_port c) frames of
             (Some e, p) \<Rightarrow> Some (Inl (of_port_error e), c\<lparr>hc_port := p\<rparr>)
           | (None, p) \<Rightarrow> read_loop P new_reassembler False (c\<lparr>hc_port := p\<rparr>)))"

text \<open>\<open>cbor\<close>: the body behind a success status; \<open>split_response\<close> fails on an empty reply only.\<close>

definition read_status :: "cable_error + bytes \<Rightarrow> cable_error + bytes" where
  "read_status r =
     (case r of
        Inl e \<Rightarrow> Inl e
      | Inr payload \<Rightarrow>
          (case split_response payload of
             Inl _ \<Rightarrow> Inl (CableOther (''not a CTAP2 message: InvalidCbor('' @ [CHR 0x22]
                        @ ''empty CTAP response'' @ [CHR 0x22] @ '')''))
           | Inr (status, body) \<Rightarrow> if is_success status then Inr body else Inl (Ctap status)))"

definition hid_cbor ::
  "'p hid_port \<Rightarrow> 'p hid_cable \<Rightarrow> bytes \<Rightarrow> ((cable_error + bytes) \<times> 'p hid_cable) option" where
  "hid_cbor P c request = map_option (apfst read_status) (exchange_raw P c Cbor request)"

definition hid_cbor_silent ::
  "'p hid_port \<Rightarrow> 'p hid_cable \<Rightarrow> bytes \<Rightarrow> ((cable_error + bytes) \<times> 'p hid_cable) option" where
  "hid_cbor_silent P c request = hid_cbor P (c\<lparr>hc_touch := None\<rparr>) request"

definition hid_exchange ::
  "'p hid_port \<Rightarrow> 'p hid_cable \<Rightarrow> bytes \<Rightarrow> touch_kind option
   \<Rightarrow> ((cable_error + bytes) \<times> 'p hid_cable) option" where
  "hid_exchange P c request touch = hid_cbor P (c\<lparr>hc_touch := touch\<rparr>) request"

definition hid_open ::
  "'p hid_port \<Rightarrow> 'p \<Rightarrow> bytes \<Rightarrow> (cable_error + 'p hid_cable) option" where
  "hid_open P port nonce =
     (let c = \<lparr>hc_port = port, hc_channel = BROADCAST_CHANNEL, hc_touch = None, hc_on_touch = False,
               hc_log = []\<rparr>
      in map_option
           (\<lambda>(r, c1). case r of
              Inl e \<Rightarrow> Inl e
            | Inr reply \<Rightarrow>
                if length reply < 17 \<or> take 8 reply \<noteq> nonce
                then Inl (CableOther ''CTAPHID_INIT reply did not echo the nonce'')
                else Inr (c1\<lparr>hc_channel := u32_of_be (subslice 8 12 reply)\<rparr>))
           (exchange_raw P c Init nonce))"

definition on_touch :: "'p hid_cable \<Rightarrow> 'p hid_cable" where
  "on_touch c = c\<lparr>hc_on_touch := True\<rparr>"

text \<open>\<open>cancel_raw\<close>: every report is written, whatever the port says of it.\<close>

definition hid_cancel :: "'p hid_port \<Rightarrow> 'p hid_cable \<Rightarrow> 'p hid_cable" where
  "hid_cancel P c =
     (case encode (hc_channel c) Cancel [] of
        Inl _ \<Rightarrow> c
      | Inr frames \<Rightarrow> c\<lparr>hc_port := foldl (\<lambda>p f. snd (write_report P p f)) (hc_port c) frames\<rparr>)"

section \<open>The prompt\<close>

definition announced_once :: "bool \<Rightarrow> 'p hid_cable \<Rightarrow> 'p hid_cable \<Rightarrow> bool" where
  "announced_once before c c' \<longleftrightarrow>
     hc_log c' = hc_log c
     \<or> (\<not> before \<and> (\<exists>kind name. hc_touch c = Some kind \<and> hc_log c' = hc_log c @ [(kind, name)]))"

lemma on_report_announces:
  "on_report P report ra b c = Continue ra' b' c' \<Longrightarrow>
     announced_once b c c' \<and> hc_touch c' = hc_touch c \<and> (b \<longrightarrow> b') \<and> (hc_log c' \<noteq> hc_log c \<longrightarrow> b')
     \<and> hc_port c' = hc_port c"
  "on_report P report ra b c = Break r c' \<Longrightarrow> c' = c"
  by (auto simp: on_report_def announce_def announced_once_def
      split: prod.splits sum.splits option.splits if_splits)

lemma read_loop_announces':
  "read_loop P ra b c = Some y \<Longrightarrow> (\<lambda>(((P, ra), b), c) y. announced_once b c (snd y)) (((P, ra), b), c) y"
proof (rule read_loop.raw_induct [rotated], assumption)
  fix loop :: "'a hid_port \<Rightarrow> reassembler \<Rightarrow> bool \<Rightarrow> 'a hid_cable \<Rightarrow> ((cable_error + bytes) \<times> 'a hid_cable) option"
    and P ra b c y
  assume IH: "\<And>P ra b c y. loop P ra b c = Some y \<Longrightarrow>
      (\<lambda>(((P, ra), b), c) y. announced_once b c (snd y)) (((P, ra), b), c) y"
    and body: "(let (res, p) = read_report P (hc_port c); c1 = c\<lparr>hc_port := p\<rparr>
      in case res of
           Inl WouldBlock \<Rightarrow> loop P ra b c1
         | Inl TimedOut \<Rightarrow> Some (Inl CableTimedOut, c1)
         | Inl (Io detail) \<Rightarrow> Some (Inl (CableOther detail), c1)
         | Inr report \<Rightarrow>
             (case on_report P report ra b c1 of
                Continue ra2 announced c2 \<Rightarrow> loop P ra2 announced c2
              | Break r c2 \<Rightarrow> Some (r, c2))) = Some y"
  have IH': "loop P ra b c = Some y \<Longrightarrow> announced_once b c (snd y)" for P ra b c y
    using IH [of P ra b c y] by simp
  obtain res p where read: "read_report P (hc_port c) = (res, p)" by force
  define c1 where "c1 = c\<lparr>hc_port := p\<rparr>"
  have refl: "announced_once b c c1" by (simp add: announced_once_def c1_def)
  have same: "announced_once b c1 d = announced_once b c d" for d
    by (simp add: announced_once_def c1_def)
  have "announced_once b c (snd y)"
  proof (cases res)
    case (Inl e)
    show ?thesis
    proof (cases e)
      case WouldBlock
      with Inl body read have "loop P ra b c1 = Some y" by (simp add: c1_def)
      from IH' [OF this] same show ?thesis by blast
    next
      case TimedOut
      with Inl body read have "y = (Inl CableTimedOut, c1)" by (simp add: c1_def)
      with refl show ?thesis by simp
    next
      case (Io detail)
      with Inl body read have "y = (Inl (CableOther detail), c1)" by (simp add: c1_def)
      with refl show ?thesis by simp
    qed
  next
    case (Inr report)
    show ?thesis
    proof (cases "on_report P report ra b c1")
      case (Continue ra2 b2 c2)
      with body read Inr have "loop P ra2 b2 c2 = Some y" by (simp add: c1_def)
      then have "announced_once b2 c2 (snd y)" by (rule IH')
      with on_report_announces(1) [OF Continue] show ?thesis
        by (auto simp: announced_once_def c1_def)
    next
      case (Break r2 c2)
      with body read Inr have "y = (r2, c2)" by (simp add: c1_def)
      with on_report_announces(2) [OF Break] refl show ?thesis by simp
    qed
  qed
  then show "(\<lambda>(((P, ra), b), c) y. announced_once b c (snd y)) (((P, ra), b), c) y" by simp
qed

lemma read_loop_announces: "read_loop P ra b c = Some (r, c') \<Longrightarrow> announced_once b c c'"
  using read_loop_announces' [of P ra b c "(r, c')"] by simp

lemma exchange_raw_announces: "exchange_raw P c cmd payload = Some (r, c') \<Longrightarrow> announced_once False c c'"
  by (auto simp: exchange_raw_def announced_once_def dest!: read_loop_announces
      split: sum.splits prod.splits option.splits)

interpretation hid: cable "hid_exchange P" hc_log for P :: "'p hid_port"
proof
  fix c :: "'p hid_cable" and request touch r c'
  assume "hid_exchange P c request touch = Some (r, c')"
  then obtain r0 where "exchange_raw P (c\<lparr>hc_touch := touch\<rparr>) Cbor request = Some (r0, c')"
    by (auto simp: hid_exchange_def hid_cbor_def)
  from exchange_raw_announces [OF this]
  show "hc_log c' = hc_log c \<or> (\<exists>kind name. touch = Some kind \<and> hc_log c' = hc_log c @ [(kind, name)])"
    by (simp add: announced_once_def)
qed

section \<open>The exchange returns\<close>

text \<open>The port's contract: after finitely many reads it says the time is up, or fails.\<close>

fun deadline :: "'p hid_port \<Rightarrow> nat \<Rightarrow> 'p \<Rightarrow> bool" where
  "deadline P 0 p = False"
| "deadline P (Suc n) p =
     (case read_report P p of
        (Inl TimedOut, _) \<Rightarrow> True
      | (Inl (Io _), _) \<Rightarrow> True
      | (_, p1) \<Rightarrow> deadline P n p1)"

lemma read_loop_returns: "deadline P n (hc_port c) \<Longrightarrow> read_loop P ra b c \<noteq> None"
proof (induction n arbitrary: ra b c)
  case 0
  then show ?case by simp
next
  case (Suc n)
  obtain res p where read: "read_report P (hc_port c) = (res, p)" by force
  define c1 where "c1 = c\<lparr>hc_port := p\<rparr>"
  have port: "hc_port c1 = p" by (simp add: c1_def)
  show ?case
  proof (cases res)
    case (Inl e)
    with Suc read port show ?thesis
      by (subst read_loop.simps) (cases e; simp flip: c1_def)
  next
    case (Inr report)
    show ?thesis
    proof (cases "on_report P report ra b c1")
      case (Continue ra2 b2 c2)
      with on_report_announces(1) [OF this] Suc read Inr port show ?thesis
        by (subst read_loop.simps) (simp flip: c1_def)
    next
      case (Break r2 c2)
      with read Inr show ?thesis by (subst read_loop.simps) (simp flip: c1_def)
    qed
  qed
qed

section \<open>A device that answers\<close>

text \<open>A port that hands back a script of reads, then times out, and keeps what is written to it.\<close>

record script =
  sc_inbox :: "(port_error + bytes) list"
  sc_outbox :: "bytes list"

definition script_port :: "script hid_port" where
  "script_port =
     \<lparr>write_report = \<lambda>p frame. (None, p\<lparr>sc_outbox := sc_outbox p @ [frame]\<rparr>),
      read_report = \<lambda>p. (case sc_inbox p of
          [] \<Rightarrow> (Inl TimedOut, p)
        | r # rs \<Rightarrow> (r, p\<lparr>sc_inbox := rs\<rparr>)),
      port_product = \<lambda>p. ''Fake Key'', port_path = \<lambda>p. ''fake:0''\<rparr>"

lemma script_deadline: "deadline script_port (Suc (length (sc_inbox p))) p"
proof (induction "sc_inbox p" arbitrary: p)
  case Nil
  then show ?case by (simp add: script_port_def)
next
  case (Cons r rs)
  from Cons(1) [of "p\<lparr>sc_inbox := rs\<rparr>"] show ?case
    by (simp add: script_port_def Cons(2) [symmetric] split: sum.split port_error.split)
qed

lemma write_frames_script:
  "write_frames script_port p frames = (None, p\<lparr>sc_outbox := sc_outbox p @ frames\<rparr>)"
  by (induction frames arbitrary: p) (simp_all add: script_port_def)

lemma read_loop_script_Cons:
  assumes "sc_inbox (hc_port c) = Inr report # rs"
  shows "read_loop script_port ra b c =
    (case on_report script_port report ra b (c\<lparr>hc_port := (hc_port c)\<lparr>sc_inbox := rs\<rparr>\<rparr>) of
       Continue ra2 b2 c2 \<Rightarrow> read_loop script_port ra2 b2 c2
     | Break r c2 \<Rightarrow> Some (r, c2))"
  using assms by (subst read_loop.simps) (simp add: script_port_def)

lemma read_loop_script_block:
  assumes "sc_inbox (hc_port c) = Inl WouldBlock # rs"
  shows "read_loop script_port ra b c = read_loop script_port ra b (c\<lparr>hc_port := (hc_port c)\<lparr>sc_inbox := rs\<rparr>\<rparr>)"
  using assms by (subst read_loop.simps) (simp add: script_port_def)

text \<open>Reports the reassembler swallows are read past.\<close>

lemma read_loop_swallow:
  assumes "fst (run push ra frames) = replicate (length frames) (Inr None)"
    and "sc_inbox (hc_port c) = map Inr frames @ rs"
  shows "read_loop script_port ra b c =
    read_loop script_port (snd (run push ra frames)) b (c\<lparr>hc_port := (hc_port c)\<lparr>sc_inbox := rs\<rparr>\<rparr>)"
  using assms
proof (induction frames arbitrary: ra c)
  case Nil
  then have "c\<lparr>hc_port := (hc_port c)\<lparr>sc_inbox := rs\<rparr>\<rparr> = c" by (cases c; cases "hc_port c") simp
  then show ?case by simp
next
  case (Cons f frames)
  obtain ra1 where push: "push ra f = (Inr None, ra1)"
    using Cons.prems(1) by (cases "push ra f") (simp add: run_Cons_snd del: run.simps)
  have inbox: "sc_inbox (hc_port c) = Inr f # (map Inr frames @ rs)" using Cons.prems(2) by simp
  have rest: "fst (run push ra1 frames) = replicate (length frames) (Inr None)"
    using Cons.prems(1) push by (simp add: run_Cons_snd del: run.simps)
  show ?case
    using Cons.IH [OF rest, of "c\<lparr>hc_port := (hc_port c)\<lparr>sc_inbox := map Inr frames @ rs\<rparr>\<rparr>"] push
    by (simp add: read_loop_script_Cons [OF inbox] on_report_def run_Cons_snd del: run.simps)
qed

lemma run_push_init_part:
  assumes "encode ch cmd payload = Inr frames"
  shows "fst (run push ra (butlast frames)) = replicate (length frames - 1) (Inr None)
    \<and> push (snd (run push ra (butlast frames))) (last frames)
        = (Inr (Some (whole_message ch cmd payload)), new_reassembler)"
proof -
  have ne: "frames \<noteq> []" using assms by (auto simp: encode_frames)
  then have split: "frames = butlast frames @ [last frames]" by simp
  define o1 s1 where "o1 = fst (run push ra (butlast frames))" and "s1 = snd (run push ra (butlast frames))"
  have "run push ra frames = (o1 @ [fst (push s1 (last frames))], snd (push s1 (last frames)))"
    by (subst split) (simp add: run_append Let_def o1_def s1_def split: prod.splits)
  with run_push_encode [OF assms, of ra]
  have "o1 @ [fst (push s1 (last frames))] = delivers (whole_message ch cmd payload) frames"
    "snd (push s1 (last frames)) = new_reassembler"
    by simp_all
  then show ?thesis by (auto simp: delivers_def o1_def s1_def prod_eq_iff)
qed

text \<open>One whole message arriving.\<close>

lemma read_loop_message:
  assumes "encode ch cmd payload = Inr frames" and "sc_inbox (hc_port c) = map Inr frames @ rs"
  shows "read_loop script_port ra b c =
    (if cmd = KeepAlive
     then (let (b2, c2) = announce script_port payload b (c\<lparr>hc_port := (hc_port c)\<lparr>sc_inbox := rs\<rparr>\<rparr>)
           in read_loop script_port new_reassembler b2 c2)
     else if cmd = ErrorCmd
     then Some (Inl (Ctap (status_from_byte (if payload = [] then 0x7f else hd payload))),
                c\<lparr>hc_port := (hc_port c)\<lparr>sc_inbox := rs\<rparr>\<rparr>)
     else Some (Inr payload, c\<lparr>hc_port := (hc_port c)\<lparr>sc_inbox := rs\<rparr>\<rparr>))"
proof -
  have ne: "frames \<noteq> []" using assms(1) by (auto simp: encode_frames)
  define ra1 where "ra1 = snd (run push ra (butlast frames))"
  define c1 where "c1 = c\<lparr>hc_port := (hc_port c)\<lparr>sc_inbox := Inr (last frames) # rs\<rparr>\<rparr>"
  note part = run_push_init_part [OF assms(1), of ra]
  have "map Inr frames = map Inr (butlast frames) @ [Inr (last frames)]"
    using ne by (metis append_butlast_last_id list.simps(8,9) map_append)
  then have inbox: "sc_inbox (hc_port c) = map Inr (butlast frames) @ (Inr (last frames) # rs)"
    using assms(2) by simp
  have "read_loop script_port ra b c = read_loop script_port ra1 b c1"
    using read_loop_swallow [OF _ inbox, of ra b] part by (simp add: ra1_def c1_def)
  moreover have "sc_inbox (hc_port c1) = Inr (last frames) # rs" by (simp add: c1_def)
  moreover have "push ra1 (last frames) = (Inr (Some (whole_message ch cmd payload)), new_reassembler)"
    using part by (simp add: ra1_def)
  ultimately show ?thesis
    by (simp add: read_loop_script_Cons on_report_def c1_def split: prod.split)
qed

text \<open>What a slow device sends before its answer: nothing yet, or "still working".\<close>

datatype pending = Quiet | Keep u32 u8

fun pending_reads :: "pending \<Rightarrow> (port_error + bytes) list" where
  "pending_reads Quiet = [Inl WouldBlock]"
| "pending_reads (Keep ch state) =
     (case encode ch KeepAlive [state] of Inl _ \<Rightarrow> [] | Inr frames \<Rightarrow> map Inr frames)"

definition asks_touch :: "pending list \<Rightarrow> bool" where
  "asks_touch ps \<longleftrightarrow> list_ex (\<lambda>p. case p of Keep _ state \<Rightarrow> state = KEEPALIVE_UP_NEEDED | Quiet \<Rightarrow> False) ps"

definition touch_log :: "bool \<Rightarrow> script hid_cable \<Rightarrow> (touch_kind \<times> string) list" where
  "touch_log asked c =
     (if asked \<and> hc_on_touch c
      then (case hc_touch c of Some kind \<Rightarrow> [(kind, ''Fake Key'')] | None \<Rightarrow> []) else [])"

lemma read_loop_pending:
  assumes "encode ch cmd payload = Inr frames" and "cmd \<noteq> KeepAlive" and "cmd \<noteq> ErrorCmd"
    and "sc_inbox (hc_port c) = concat (map pending_reads ps) @ map Inr frames @ rs"
  shows "read_loop script_port ra b c =
    Some (Inr payload,
      c\<lparr>hc_port := (hc_port c)\<lparr>sc_inbox := rs\<rparr>, hc_log := hc_log c @ touch_log (\<not> b \<and> asks_touch ps) c\<rparr>)"
  using assms(4)
proof (induction ps arbitrary: ra b c)
  case Nil
  then show ?case
    using read_loop_message [OF assms(1), of c rs ra b] assms(2,3)
    by (simp add: asks_touch_def touch_log_def)
next
  case (Cons p ps)
  define tail where "tail = concat (map pending_reads ps) @ map Inr frames @ rs"
  show ?case
  proof (cases p)
    case Quiet
    then have inbox: "sc_inbox (hc_port c) = Inl WouldBlock # tail" using Cons.prems by (simp add: tail_def)
    have "touch_log a (c\<lparr>hc_port := q\<rparr>) = touch_log a c" for a q by (simp add: touch_log_def)
    with Cons.IH [of "c\<lparr>hc_port := (hc_port c)\<lparr>sc_inbox := tail\<rparr>\<rparr>" ra b] Quiet show ?thesis
      by (simp add: read_loop_script_block [OF inbox] tail_def asks_touch_def)
  next
    case (Keep kch state)
    obtain kframes where kf: "encode kch KeepAlive [state] = Inr kframes"
      by (simp add: encode_def hid_sizes)
    have inbox: "sc_inbox (hc_port c) = map Inr kframes @ tail"
      using Cons.prems Keep kf by (simp add: tail_def)
    define c0 where "c0 = c\<lparr>hc_port := (hc_port c)\<lparr>sc_inbox := tail\<rparr>\<rparr>"
    obtain b2 c2 where ann: "announce script_port [state] b c0 = (b2, c2)" by force
    have c2: "hc_port c2 = (hc_port c)\<lparr>sc_inbox := tail\<rparr>" "hc_touch c2 = hc_touch c"
      "hc_on_touch c2 = hc_on_touch c" "hc_channel c2 = hc_channel c"
      "hc_log c2 = hc_log c @ touch_log (\<not> b \<and> state = KEEPALIVE_UP_NEEDED) c"
      "b2 = (b \<or> state = KEEPALIVE_UP_NEEDED)"
      using ann by (auto simp: announce_def c0_def touch_log_def script_port_def
          split: if_splits option.splits)
    have step: "read_loop script_port ra b c = read_loop script_port new_reassembler b2 c2"
      using read_loop_message [OF kf inbox, of ra b] ann by (simp flip: c0_def)
    have fin: "c2\<lparr>hc_port := q, hc_log := l\<rparr> = c\<lparr>hc_port := q, hc_log := l\<rparr>" for q l
      using c2(2-4) by (cases c; cases c2) simp
    have log: "touch_log a c2 = touch_log a c" for a using c2(2,3) by (simp add: touch_log_def)
    have "read_loop script_port new_reassembler b2 c2 = Some (Inr payload,
        c\<lparr>hc_port := (hc_port c2)\<lparr>sc_inbox := rs\<rparr>,
          hc_log := hc_log c2 @ touch_log (\<not> b2 \<and> asks_touch ps) c\<rparr>)"
      using Cons.IH [of c2 new_reassembler b2] c2(1) by (simp add: tail_def fin log)
    then show ?thesis
      using Keep c2 by (auto simp: step asks_touch_def touch_log_def)
  qed
qed

section \<open>Properties\<close>

lemma exchange_raw_reply:
  assumes "encode (hc_channel c) cmd request = Inr out" and "encode ch reply_cmd payload = Inr frames"
    and "reply_cmd \<noteq> KeepAlive" and "reply_cmd \<noteq> ErrorCmd"
    and "sc_inbox (hc_port c) = concat (map pending_reads ps) @ map Inr frames @ rs"
  shows "exchange_raw script_port c cmd request = Some (Inr payload,
    c\<lparr>hc_port := \<lparr>sc_inbox = rs, sc_outbox = sc_outbox (hc_port c) @ out\<rparr>,
      hc_log := hc_log c @ touch_log (asks_touch ps) c\<rparr>)"
proof -
  define c1 where "c1 = c\<lparr>hc_port := (hc_port c)\<lparr>sc_outbox := sc_outbox (hc_port c) @ out\<rparr>\<rparr>"
  have inbox: "sc_inbox (hc_port c1) = concat (map pending_reads ps) @ map Inr frames @ rs"
    using assms(5) by (simp add: c1_def)
  have "exchange_raw script_port c cmd request = read_loop script_port new_reassembler False c1"
    by (simp add: exchange_raw_def assms(1) write_frames_script c1_def)
  also have "\<dots> = Some (Inr payload,
      c1\<lparr>hc_port := (hc_port c1)\<lparr>sc_inbox := rs\<rparr>, hc_log := hc_log c1 @ touch_log (asks_touch ps) c1\<rparr>)"
    using read_loop_pending [OF assms(2-4) inbox] by simp
  also have "c1\<lparr>hc_port := (hc_port c1)\<lparr>sc_inbox := rs\<rparr>, hc_log := hc_log c1 @ touch_log (asks_touch ps) c1\<rparr>
      = c\<lparr>hc_port := \<lparr>sc_inbox = rs, sc_outbox = sc_outbox (hc_port c) @ out\<rparr>,
          hc_log := hc_log c @ touch_log (asks_touch ps) c\<rparr>"
    by (cases "hc_port c") (simp add: c1_def touch_log_def)
  finally show ?thesis .
qed

text \<open>
  A slow device's answer gets through. Whatever keepalives and empty reads come first, a request
  that fits is written report by report on the cable's channel and the success reply's body is
  returned, and the prompt is announced exactly once when a keepalive asks for presence and the
  request has a touch to announce. The reply's own channel \<open>ch\<close> is not compared with the cable's: an
  answer addressed to another client of the same key is taken for this one's.
\<close>

theorem hid_exchange_reply:
  assumes "encode (hc_channel c) Cbor request = Inr out" and "encode ch Cbor (0 # body) = Inr frames"
    and "sc_inbox (hc_port c) = concat (map pending_reads ps) @ map Inr frames @ rs"
  shows "hid_exchange script_port c request touch = Some (Inr body,
    c\<lparr>hc_port := \<lparr>sc_inbox = rs, sc_outbox = sc_outbox (hc_port c) @ out\<rparr>, hc_touch := touch,
      hc_log := hc_log c @ touch_log (asks_touch ps) (c\<lparr>hc_touch := touch\<rparr>)\<rparr>)"
  using exchange_raw_reply [of "c\<lparr>hc_touch := touch\<rparr>" Cbor request out ch Cbor "0 # body" frames ps rs] assms
  by (simp add: hid_exchange_def hid_cbor_def read_status_def split_response_def status_from_byte_def
      is_success_def)

text \<open>A cable on channel 1 whose device is slow and answers on channel 9.\<close>

definition sample_cable :: "(port_error + bytes) list \<Rightarrow> script hid_cable" where
  "sample_cable inbox = \<lparr>hc_port = \<lparr>sc_inbox = inbox, sc_outbox = []\<rparr>, hc_channel = 1,
     hc_touch = None, hc_on_touch = True, hc_log = []\<rparr>"

theorem hid_exchange_reply_witness:
  "\<exists>frames c'. encode 9 Cbor [0, 0xa0] = Inr frames
     \<and> hid_exchange script_port
         (sample_cable (concat (map pending_reads [Quiet, Keep 1 2, Keep 1 2]) @ map Inr frames))
         [4] (Some Presence) = Some (Inr [0xa0], c')
     \<and> hc_log c' = [(Presence, ''Fake Key'')]"
proof -
  obtain out where out: "encode 1 Cbor [4] = Inr out" by (simp add: encode_def hid_sizes)
  obtain frames where frames: "encode 9 Cbor (0 # [0xa0]) = Inr frames"
    by (simp add: encode_def hid_sizes)
  define c where "c = sample_cable (concat (map pending_reads [Quiet, Keep 1 2, Keep 1 2]) @ map Inr frames)"
  have "encode (hc_channel c) Cbor [4] = Inr out"
    and "sc_inbox (hc_port c) = concat (map pending_reads [Quiet, Keep 1 2, Keep 1 2]) @ map Inr frames @ []"
    using out by (simp_all only: c_def sample_cable_def hid_cable.select_convs script.select_convs append_Nil2)
  from hid_exchange_reply [OF this(1) frames this(2), of "Some Presence"] frames show ?thesis
    by (simp add: c_def sample_cable_def touch_log_def asks_touch_def KEEPALIVE_UP_NEEDED_def)
qed

lemma exchange_raw_returns:
  assumes "\<forall>p. \<exists>n. deadline P n p"
  shows "exchange_raw P c cmd payload \<noteq> None"
proof (cases "encode (hc_channel c) cmd payload")
  case (Inl e)
  then show ?thesis by (simp add: exchange_raw_def)
next
  case (Inr frames)
  obtain e p where w: "write_frames P (hc_port c) frames = (e, p)" by force
  obtain n where "deadline P n p" using assms by blast
  then have "read_loop P new_reassembler False (c\<lparr>hc_port := p\<rparr>) \<noteq> None"
    by (intro read_loop_returns) simp
  with Inr w show ?thesis by (cases e) (simp_all add: exchange_raw_def)
qed

text \<open>
  C39: an exchange returns. With a port that reports, after finitely many reads from any of its states,
  that the time is up or that it failed, neither an exchange nor the opening of a cable runs forever,
  whatever the device sends.
\<close>

theorem hid_exchange_returns:
  assumes "\<forall>p. \<exists>n. deadline P n p"
  shows "hid_exchange P c request touch \<noteq> None \<and> hid_open P port nonce \<noteq> None"
  using exchange_raw_returns [OF assms] by (simp add: hid_exchange_def hid_cbor_def hid_open_def)

theorem hid_exchange_returns_witness:
  "hid_exchange script_port (sample_cable [Inl WouldBlock, Inr [1]]) [4] None \<noteq> None"
proof -
  have "\<forall>p. \<exists>n. deadline script_port n p" using script_deadline by blast
  from hid_exchange_returns [OF this] show ?thesis by blast
qed

text \<open>
  Opening adopts only a channel allocated to this client. The \<open>INIT\<close> reply is accepted exactly when
  it is at least 17 bytes and starts with the nonce that was sent, and the cable then speaks on the
  channel in bytes 8 to 11; another client's reply is an error.
\<close>

theorem hid_open_checks_nonce:
  assumes "length nonce = 8" and "encode ch Init reply = Inr frames"
    and "sc_inbox p = concat (map pending_reads ps) @ map Inr frames @ rs"
  shows "\<exists>out. encode BROADCAST_CHANNEL Init nonce = Inr out \<and> hid_open script_port p nonce = Some
    (if 17 \<le> length reply \<and> take 8 reply = nonce
     then Inr \<lparr>hc_port = \<lparr>sc_inbox = rs, sc_outbox = sc_outbox p @ out\<rparr>,
            hc_channel = u32_of_be (subslice 8 12 reply), hc_touch = None, hc_on_touch = False, hc_log = []\<rparr>
     else Inl (CableOther ''CTAPHID_INIT reply did not echo the nonce''))"
proof -
  obtain out where out: "encode BROADCAST_CHANNEL Init nonce = Inr out"
    using assms(1) by (simp add: encode_def hid_sizes)
  define c where "c = \<lparr>hc_port = p, hc_channel = BROADCAST_CHANNEL, hc_touch = None,
    hc_on_touch = False, hc_log = []\<rparr>"
  have "exchange_raw script_port c Init nonce = Some (Inr reply,
      c\<lparr>hc_port := \<lparr>sc_inbox = rs, sc_outbox = sc_outbox p @ out\<rparr>\<rparr>)"
    using exchange_raw_reply [of c Init nonce out ch Init reply frames ps rs] out assms(2,3)
    by (simp add: c_def touch_log_def)
  then show ?thesis
    using out by (intro exI [of _ out]) (simp add: hid_open_def flip: c_def, simp add: c_def not_le)
qed

theorem hid_open_checks_nonce_witness:
  "\<exists>frames cable. encode BROADCAST_CHANNEL Init (replicate 8 0x11 @ [1, 2, 3, 4] @ zeros 5) = Inr frames
     \<and> hid_open script_port \<lparr>sc_inbox = map Inr frames, sc_outbox = []\<rparr> (replicate 8 0x11) = Some (Inr cable)
     \<and> hc_channel cable = 0x01020304"
proof -
  define reply :: bytes where "reply = replicate 8 0x11 @ [1, 2, 3, 4] @ zeros 5"
  obtain frames where frames: "encode BROADCAST_CHANNEL Init reply = Inr frames"
    by (simp add: encode_def hid_sizes reply_def)
  have "17 \<le> length reply \<and> take 8 reply = replicate 8 0x11" by (simp add: reply_def)
  moreover have "u32_of_be (subslice 8 12 reply) = 0x01020304"
    by (simp add: reply_def subslice_def u32_of_be_def nat_of_be_def)
  moreover from hid_open_checks_nonce [where ps = "[]" and rs = "[]" and nonce = "replicate 8 0x11"
      and p = "\<lparr>sc_inbox = map Inr frames, sc_outbox = []\<rparr>", OF _ frames]
  obtain out where "hid_open script_port \<lparr>sc_inbox = map Inr frames, sc_outbox = []\<rparr> (replicate 8 0x11) = Some
    (if 17 \<le> length reply \<and> take 8 reply = replicate 8 0x11
     then Inr \<lparr>hc_port = \<lparr>sc_inbox = [], sc_outbox = out\<rparr>,
            hc_channel = u32_of_be (subslice 8 12 reply), hc_touch = None, hc_on_touch = False, hc_log = []\<rparr>
     else Inl (CableOther ''CTAPHID_INIT reply did not echo the nonce''))"
    by auto
  ultimately have "hid_open script_port \<lparr>sc_inbox = map Inr frames, sc_outbox = []\<rparr> (replicate 8 0x11)
    = Some (Inr \<lparr>hc_port = \<lparr>sc_inbox = [], sc_outbox = out\<rparr>, hc_channel = 0x01020304,
        hc_touch = None, hc_on_touch = False, hc_log = []\<rparr>)" by simp
  with frames show ?thesis unfolding reply_def by (metis hid_cable.select_convs(2))
qed

text \<open>
  Prompts are honest. Over any sequence of exchanges on a USB cable, the touches announced are a
  subsequence of the touches the ceremony passed: at most one per request, of its kind and in order,
  and a silent request never lights one up.
\<close>

theorem hid_prompts_honest:
  assumes "run_exchanges (hid_exchange P) c requests = Some (replies, c')"
  shows "\<exists>new. hc_log c' = hc_log c @ new \<and> subseq (map fst new) (List.map_filter snd requests)"
  by (rule hid.run_announces [OF assms])

theorem hid_prompts_honest_witness:
  "\<exists>replies c'. run_exchanges (hid_exchange script_port) (sample_cable []) [([4], None)] = Some (replies, c')
     \<and> hc_log c' = []"
proof -
  have "\<forall>p. \<exists>n. deadline script_port n p" using script_deadline by blast
  then have "hid_exchange script_port (sample_cable []) [4] None \<noteq> None"
    using exchange_raw_returns [of script_port] by (simp add: hid_exchange_def hid_cbor_def)
  then obtain r c' where "hid_exchange script_port (sample_cable []) [4] None = Some (r, c')" by fast
  then have "run_exchanges (hid_exchange script_port) (sample_cable []) [([4], None)] = Some ([r], c')"
    by simp
  moreover from hid_prompts_honest [OF this] have "hc_log c' = []"
    using list_emb_Nil2 by (fastforce simp: sample_cable_def map_filter_simps)
  ultimately show ?thesis by blast
qed

end
