(* ===== verification/CableCodecs.thy ===== *)
theory CableCodecs
  imports CtapCommands
begin

text \<open>
  The codecs of the hybrid (caBLE) transport: \<open>cable/base10.rs\<close>, the digits of the QR code,
  \<open>cable/qr.rs\<close>, its payload, and \<open>cable/tunnel_domain.rs\<close>, the domain of a tunnel server. The CBOR
  writer and the hash are parameters. A chunk has at most seven bytes, so the bytes the code places
  into a \<open>u64\<close> by shifts and \<open>|=\<close> never overlap and never leave it, and the value is a number here.
\<close>

section \<open>Base10\<close>

definition PARTIAL_WIDTH :: "nat list" where
  "PARTIAL_WIDTH = [0, 3, 5, 8, 10, 13, 15]"

definition FULL_WIDTH :: nat where
  "FULL_WIDTH = 17"

fun le_value :: "bytes \<Rightarrow> nat" where
  "le_value [] = 0"
| "le_value (b # bs) = unat b + 256 * le_value bs"

fun le_bytes :: "nat \<Rightarrow> nat \<Rightarrow> bytes" where
  "le_bytes 0 value = []"
| "le_bytes (Suc n) value = of_nat (value mod 256) # le_bytes n (value div 256)"

definition encode_chunk :: "bytes \<Rightarrow> string" where
  "encode_chunk chunk =
     (let width = (if length chunk = 7 then FULL_WIDTH else PARTIAL_WIDTH ! length chunk);
          digits = show_nat (le_value chunk)
      in replicate (width - length digits) (CHR ''0'') @ digits)"

function base10_encode :: "bytes \<Rightarrow> string" where
  "base10_encode data =
     (if data = [] then []
      else encode_chunk (take 7 data) @ base10_encode (drop 7 data))"
  by pat_completeness auto
termination
  by (relation "measure length") auto

declare base10_encode.simps [simp del]

definition chunk_len :: "nat \<Rightarrow> nat option" where
  "chunk_len width =
     (if width = FULL_WIDTH then Some 7
      else if width = 3 then Some 1 else if width = 5 then Some 2 else if width = 8 then Some 3
      else if width = 10 then Some 4 else if width = 13 then Some 5 else if width = 15 then Some 6
      else None)"

function decode_groups :: "string \<Rightarrow> bytes option" where
  "decode_groups digits =
     (if digits = [] then Some []
      else (let width = min (length digits) FULL_WIDTH
            in case chunk_len width of
                 None \<Rightarrow> None
               | Some n \<Rightarrow>
                   (case from_str_radix 64 10 (take width digits) of
                      None \<Rightarrow> None
                    | Some value \<Rightarrow> map_option ((@) (le_bytes n value)) (decode_groups (drop width digits)))))"
  by pat_completeness auto
termination
  by (relation "measure length") (auto simp: FULL_WIDTH_def)

declare decode_groups.simps [simp del]

definition base10_decode :: "string \<Rightarrow> bytes option" where
  "base10_decode digits = (if \<not> list_all is_ascii_digit digits then None else decode_groups digits)"

section \<open>The QR payload\<close>

definition HINT_GET :: string where "HINT_GET = ''ga''"
definition HINT_MAKE :: string where "HINT_MAKE = ''mc''"

definition qr_value :: "bytes \<Rightarrow> bytes \<Rightarrow> int \<Rightarrow> string \<Rightarrow> cbor" where
  "qr_value identity qr_secret epoch_seconds hint =
     CMap [(CInteger 0, CBytes identity), (CInteger 1, CBytes qr_secret), (CInteger 2, CInteger 2),
           (CInteger 3, CInteger epoch_seconds), (CInteger 4, CBool False), (CInteger 5, CText hint)]"

definition build_payload ::
  "(cbor \<Rightarrow> string + bytes) \<Rightarrow> bytes \<Rightarrow> bytes \<Rightarrow> int \<Rightarrow> string \<Rightarrow> string" where
  "build_payload ser identity qr_secret epoch_seconds hint =
     (case ser (qr_value identity qr_secret epoch_seconds hint) of
        Inl _ \<Rightarrow> []
      | Inr cbor \<Rightarrow> ''FIDO:/'' @ base10_encode cbor)"

section \<open>Tunnel domains\<close>

definition ASSIGNED :: "string list" where
  "ASSIGNED = [''cable.ua5v.com'', ''cable.auth.com'']"

definition BASE32 :: string where
  "BASE32 = ''abcdefghijklmnopqrstuvwxyz234567''"

definition TLDS :: "string list" where
  "TLDS = [''.com'', ''.org'', ''.net'', ''.info'']"

text \<open>The loop over the hash's value: five bits a character, until nothing is left.\<close>

function base32_of :: "nat \<Rightarrow> string" where
  "base32_of value = (if value = 0 then [] else BASE32 ! (value mod 32) # base32_of (value div 32))"
  by pat_completeness auto
termination
  by (relation "measure id") auto

declare base32_of.simps [simp del]

definition decode_tunnel_domain :: "(bytes \<Rightarrow> bytes) \<Rightarrow> u16 \<Rightarrow> string option" where
  "decode_tunnel_domain hash encoded =
     (let n = unat encoded
      in if n < 256 then (if n < length ASSIGNED then Some (ASSIGNED ! n) else None)
         else (let digest = hash (as_bytes ''caBLEv2 tunnel server domain''
                                    @ [of_nat (n mod 256), of_nat (n div 256 mod 256), 0]);
                   value = le_value (take 8 digest)
               in Some (''cable.'' @ base32_of (value div 4) @ TLDS ! (value mod 4))))"

section \<open>Base10 round trip\<close>

lemma le_bytes_value: "le_bytes (length bs) (le_value bs) = bs"
proof (induction bs)
  case Nil
  then show ?case by simp
next
  case (Cons b bs)
  have "(unat b + 256 * le_value bs) mod 256 = unat b" "(unat b + 256 * le_value bs) div 256 = le_value bs"
    using unat_u8_bound [of b] by simp_all
  with Cons show ?case by simp
qed

lemma le_value_bound: "le_value bs < 256 ^ length bs"
proof (induction bs)
  case Nil
  then show ?case by simp
next
  case (Cons b bs)
  have "unat b + 256 * le_value bs < 256 * (le_value bs + 1)" using unat_u8_bound [of b] by simp
  also have "\<dots> \<le> 256 * 256 ^ length bs" using Cons by (intro mult_le_mono2) simp
  finally show ?case by simp
qed

lemma length_digits_of: "n < radix ^ w \<Longrightarrow> 2 \<le> radix \<Longrightarrow> length (digits_of radix n) \<le> w"
proof (induction w arbitrary: n)
  case 0
  then show ?case by (simp add: digits_of.simps)
next
  case (Suc w)
  have "n div radix < radix ^ w" using Suc.prems by (simp add: div_less_iff_less_mult mult.commute)
  with Suc show ?case by (simp add: digits_of.simps [of radix n])
qed

lemma length_show_nat: "n < 10 ^ w \<Longrightarrow> 0 < w \<Longrightarrow> length (show_nat n) \<le> w"
  using length_digits_of [of n 10 w] by (simp add: show_nat_def show_radix_eq)

definition chunk_width :: "nat \<Rightarrow> nat" where
  "chunk_width n = (if n = 7 then FULL_WIDTH else PARTIAL_WIDTH ! n)"

lemma chunk_cases: "0 < n \<Longrightarrow> n \<le> 7 \<Longrightarrow> n \<in> {1, 2, 3, 4, 5, 6, 7 :: nat}"
  by auto

lemma chunk_width_props:
  assumes "0 < n" and "n \<le> 7"
  shows "256 ^ n < (10 :: nat) ^ chunk_width n" "chunk_len (chunk_width n) = Some n"
    "0 < chunk_width n" "chunk_width n \<le> FULL_WIDTH" "n < 7 \<longleftrightarrow> chunk_width n < FULL_WIDTH"
  using chunk_cases [OF assms]
  by (auto simp: chunk_width_def PARTIAL_WIDTH_def FULL_WIDTH_def chunk_len_def)

lemma encode_chunk_props:
  assumes "0 < length chunk" and "length chunk \<le> 7"
  shows "length (encode_chunk chunk) = chunk_width (length chunk)"
    "from_str_radix 64 10 (encode_chunk chunk) = Some (le_value chunk)"
    "list_all is_ascii_digit (encode_chunk chunk)"
proof -
  note w = chunk_width_props [OF assms]
  define v where "v = le_value chunk"
  define k where "k = chunk_width (length chunk) - length (show_nat v)"
  have "v < 10 ^ chunk_width (length chunk)"
    using le_value_bound [of chunk] w(1) by (simp add: v_def)
  then have len: "length (show_nat v) \<le> chunk_width (length chunk)"
    using length_show_nat w(3) by blast
  define ds where "ds = (if v = 0 then [0] else digits_of 10 v)"
  have show_ds: "show_nat v = map hex_digit ds" by (simp add: show_nat_def show_radix_eq ds_def)
  have lt: "\<forall>d\<in>set ds. d < 10" using digits_of_lt by (auto simp: ds_def)
  have enc: "encode_chunk chunk = map hex_digit (replicate k 0 @ ds)"
    by (simp add: encode_chunk_def Let_def chunk_width_def k_def hex_digit_0 flip: v_def show_ds)
  show "length (encode_chunk chunk) = chunk_width (length chunk)"
    using len by (simp add: enc k_def show_ds)
  have lt': "\<forall>d\<in>set (replicate k 0 @ ds). d < 10" using lt by (auto simp: set_replicate_conv_if)
  have parse: "parse_digits 10 (encode_chunk chunk) = Some (replicate k 0 @ ds)"
    unfolding enc by (rule parse_digits_map_hex_digit [OF lt']) simp
  have "v < 2 ^ 64"
  proof -
    have "v < 256 ^ length chunk" using le_value_bound by (simp add: v_def)
    also have "\<dots> \<le> (256 :: nat) ^ 7" using assms(2) by (intro power_increasing) simp_all
    finally show ?thesis by simp
  qed
  moreover have "digits_value 10 (replicate k 0 @ ds) = v"
  proof -
    have "digits_value 10 ds = v"
      by (cases "v = 0") (simp_all add: ds_def digits_value_digits_of digits_value_Cons)
    then show ?thesis by (induction k) (simp_all add: digits_value_Cons)
  qed
  ultimately show "from_str_radix 64 10 (encode_chunk chunk) = Some (le_value chunk)"
  proof -
    obtain d r where dr: "replicate k 0 @ ds = d # r"
      by (cases "replicate k 0 @ ds") (simp_all add: ds_def split: if_splits)
    then have "hex_digit d \<noteq> CHR ''+''" using lt' by simp
    with dr parse \<open>v < 2 ^ 64\<close> \<open>digits_value 10 (replicate k 0 @ ds) = v\<close> show ?thesis
      by (simp add: from_str_radix_def enc v_def)
  qed
  show "list_all is_ascii_digit (encode_chunk chunk)"
    using parse parse_digits_None [of 10 "encode_chunk chunk"]
    by (simp add: list_all_iff is_ascii_digit_def)
qed

lemma base10_encode_digits: "list_all is_ascii_digit (base10_encode data)"
proof (induction data rule: base10_encode.induct)
  case (1 data)
  then show ?case
    using encode_chunk_props(3) [of "take 7 data"]
    by (cases "data = []") (simp_all add: base10_encode.simps [of data] base10_encode.simps [of "[]"])
qed

lemma decode_groups_encode: "decode_groups (base10_encode data) = Some data"
proof (induction data rule: base10_encode.induct)
  case (1 data)
  show ?case
  proof (cases "data = []")
    case True
    then show ?thesis by (simp add: base10_encode.simps decode_groups.simps)
  next
    case False
    define chunk where "chunk = take 7 data"
    define rest where "rest = base10_encode (drop 7 data)"
    have chunk: "0 < length chunk" "length chunk \<le> 7" using False by (simp_all add: chunk_def)
    note w = chunk_width_props [OF chunk] and props = encode_chunk_props [OF chunk]
    have enc: "base10_encode data = encode_chunk chunk @ rest"
      using False by (simp add: base10_encode.simps [of data] chunk_def rest_def)
    have "rest = []" if "length chunk < 7"
      using that by (simp add: chunk_def rest_def base10_encode.simps)
    then have width: "min (length (encode_chunk chunk @ rest)) FULL_WIDTH = chunk_width (length chunk)"
      using w(4,5) props(1) chunk(2) by (cases "length chunk < 7") simp_all
    have IH: "decode_groups rest = Some (drop 7 data)" using 1 False by (simp add: rest_def)
    have ne: "encode_chunk chunk @ rest \<noteq> []" using w(3) props(1) by auto
    have "decode_groups (encode_chunk chunk @ rest) = Some (le_bytes (length chunk) (le_value chunk) @ drop 7 data)"
      by (subst decode_groups.simps)
        (simp only: ne if_False width Let_def w(2) option.case, simp add: props IH flip: props(1))
    also have "\<dots> = Some data" by (simp only: le_bytes_value) (simp add: chunk_def)
    finally show ?thesis by (simp only: enc)
  qed
qed

interpretation base10: codec base10_encode base10_decode "\<lambda>_. True"
  by unfold_locales (simp add: base10_decode_def base10_encode_digits decode_groups_encode)

text \<open>
  The QR digits lose nothing. Every byte string comes back from its base10 text, so two payloads
  never share a QR code, and the text behind \<open>FIDO:/\<close> of a payload decodes to exactly the CBOR that
  was written.
\<close>

theorem base10_round_trip:
  "base10_decode (base10_encode data) = Some data
   \<and> inj base10_encode
   \<and> (ser (qr_value identity secret epoch hint) = Inr cbor \<longrightarrow>
        base10_decode (drop 6 (build_payload ser identity secret epoch hint)) = Some cbor)"
  using base10.dec_enc base10.inj_on_enc by (simp add: build_payload_def)

theorem base10_round_trip_witness:
  "base10_decode (drop 6 (build_payload (\<lambda>_. Inr [1, 2, 3]) [7] [8] 9 HINT_GET)) = Some [1, 2, 3]"
  using base10_round_trip [of "[]" "\<lambda>_. Inr [1, 2, 3]" "[7]" "[8]" 9 HINT_GET "[1, 2, 3]"] by simp

end
