(* ===== verification/CableSession.thy ===== *)
theory CableSession
  imports Noise HidCable CableCodecs
begin

text \<open>
  The phone as a cable: \<open>cable/crypto.rs\<close> (the derivations and the advert), \<open>cable/conn.rs\<close> (the
  handshake over a port, then CTAP2 over the sealed channel) and \<open>cable/session.rs\<close> (one attempt, from
  the QR code to the connection). The shell's port, the crates' ciphers and the CBOR codec are
  parameters.
\<close>

section \<open>Derivations and adverts\<close>

text \<open>
  \<open>hkdf_info\<close> takes the optional salt, the input key, the info and the length; \<open>block_decrypt\<close> and
  \<open>block_encrypt\<close> are AES-256 on one block.
\<close>

record advert_crypto =
  hkdf_info :: "bytes option \<Rightarrow> bytes \<Rightarrow> bytes \<Rightarrow> nat \<Rightarrow> bytes option"
  hmac_tag :: "bytes \<Rightarrow> bytes \<Rightarrow> bytes"
  block_encrypt :: "bytes \<Rightarrow> bytes \<Rightarrow> bytes"
  block_decrypt :: "bytes \<Rightarrow> bytes \<Rightarrow> bytes"

definition advert_contract :: "advert_crypto \<Rightarrow> bool" where
  "advert_contract A \<longleftrightarrow>
     (\<forall>salt ikm info n. n \<le> 8160 \<longrightarrow> (\<exists>out. hkdf_info A salt ikm info n = Some out \<and> length out = n))
     \<and> (\<forall>k m. length (hmac_tag A k m) = 32)
     \<and> (\<forall>k b. length k = 32 \<longrightarrow> length b = 16 \<longrightarrow>
          length (block_encrypt A k b) = 16 \<and> block_decrypt A k (block_encrypt A k b) = b)"

definition EID_KEY :: u32 where "EID_KEY = 1"
definition TUNNEL_ID :: u32 where "TUNNEL_ID = 2"
definition PSK :: u32 where "PSK = 3"

definition cable_derive :: "advert_crypto \<Rightarrow> bytes \<Rightarrow> bytes \<Rightarrow> u32 \<Rightarrow> nat \<Rightarrow> bytes" where
  "cable_derive A secret salt purpose len =
     (let salt2 = (if salt = [] then None else Some salt); info = le_bytes 4 (unat purpose)
      in case hkdf_info A salt2 secret info len of None \<Rightarrow> zeros len | Some out \<Rightarrow> out)"

definition eid_key :: "advert_crypto \<Rightarrow> bytes \<Rightarrow> bytes" where
  "eid_key A qr_secret = cable_derive A qr_secret [] EID_KEY 64"

definition psk :: "advert_crypto \<Rightarrow> bytes \<Rightarrow> bytes \<Rightarrow> bytes" where
  "psk A qr_secret advert_plaintext16 = cable_derive A qr_secret advert_plaintext16 PSK 32"

definition tunnel_id :: "advert_crypto \<Rightarrow> bytes \<Rightarrow> bytes" where
  "tunnel_id A qr_secret = cable_derive A qr_secret [] TUNNEL_ID 16"

definition try_decrypt_advert :: "advert_crypto \<Rightarrow> bytes \<Rightarrow> bytes \<Rightarrow> bytes option" where
  "try_decrypt_advert A candidate key =
     (if length candidate \<noteq> 20 \<or> length key \<noteq> 64 then None
      else let aes_key = subslice 0 32 key;
               mac_key = subslice 32 64 key;
               tag = hmac_tag A mac_key (subslice 0 16 candidate)
           in if subslice 0 4 tag \<noteq> subslice 16 20 candidate then None
              else let block = block_decrypt A aes_key (subslice 0 16 candidate)
                   in if block ! 0 \<noteq> 0 then None else Some block)"

fun psm_entry :: "(cbor \<times> cbor) list \<Rightarrow> u16 option" where
  "psm_entry [] = None"
| "psm_entry ((key, val) # entries) =
     (case (key = CInteger 1, val) of
        (True, CInteger p) \<Rightarrow> if 0 \<le> p \<and> p < 65536 then Some (word_of_int p) else None
      | _ \<Rightarrow> psm_entry entries)"

definition parse_advert_psm :: "(bytes \<Rightarrow> string + cbor) \<Rightarrow> bytes \<Rightarrow> u16 option" where
  "parse_advert_psm de beyond =
     (if beyond = [] then None
      else case de beyond of Inr (CMap entries) \<Rightarrow> psm_entry entries | _ \<Rightarrow> None)"

record advert_eid =
  ae_flags :: u8
  ae_nonce :: bytes
  ae_routing_id :: bytes
  ae_tunnel_domain_id :: u16

definition parse_eid :: "bytes \<Rightarrow> advert_eid option" where
  "parse_eid eid16 =
     (if length eid16 \<noteq> 16 then None
      else Some \<lparr>ae_flags = eid16 ! 0, ae_nonce = subslice 1 11 eid16, ae_routing_id = subslice 11 14 eid16,
                 ae_tunnel_domain_id = ucast (eid16 ! 14) OR push_bit 8 (ucast (eid16 ! 15))\<rparr>)"

section \<open>The connection\<close>

record 'p frame_port =
  write_frame :: "'p \<Rightarrow> bytes \<Rightarrow> port_error option \<times> 'p"
  read_frame :: "'p \<Rightarrow> (port_error + bytes) \<times> 'p"
  channel_name :: "'p \<Rightarrow> string"

definition MSG_CTAP :: u8 where "MSG_CTAP = 0x01"
definition MSG_SHUTDOWN :: u8 where "MSG_SHUTDOWN = 0x00"
definition GET_INFO_COMMAND :: u8 where "GET_INFO_COMMAND = 0x04"

definition TRANSPORT_FAILURE :: string where "TRANSPORT_FAILURE = ''caBLE transport: ''"
definition NOISE_FAILURE :: string where "NOISE_FAILURE = ''caBLE Noise failure: ''"

text \<open>\<open>{error:?}\<close>: the derived \<open>Debug\<close> rendering.\<close>

fun noise_error_debug :: "noise_error \<Rightarrow> string" where
  "noise_error_debug BadLength = ''BadLength''"
| "noise_error_debug OutOfOrder = ''OutOfOrder''"
| "noise_error_debug BadPoint = ''BadPoint''"
| "noise_error_debug Cipher = ''Cipher''"
| "noise_error_debug Kdf = ''Kdf''"
| "noise_error_debug NonEmptyPayload = ''NonEmptyPayload''"
| "noise_error_debug NoKey = ''NoKey''"

definition to_cable_error :: "noise_error \<Rightarrow> cable_error" where
  "to_cable_error error = CableOther (NOISE_FAILURE @ noise_error_debug error)"

fun port_to_cable_error :: "port_error \<Rightarrow> cable_error" where
  "port_to_cable_error TimedOut = CableTimedOut"
| "port_to_cable_error WouldBlock = CableTimedOut"
| "port_to_cable_error (Io detail) = CableOther (TRANSPORT_FAILURE @ detail)"

definition is_link_failure :: "string \<Rightarrow> bool" where
  "is_link_failure detail \<longleftrightarrow> starts_with detail TRANSPORT_FAILURE \<or> starts_with detail NOISE_FAILURE"

record 'p cable_connection =
  cc_port :: 'p
  cc_transport :: cable_transport
  cc_product :: string
  cc_path :: string
  cc_get_info :: "bytes option"
  cc_on_touch :: bool
  cc_log :: "(touch_kind \<times> string) list"

fun info_entry :: "(cbor \<times> cbor) list \<Rightarrow> bytes option" where
  "info_entry [] = None"
| "info_entry ((key, val) # entries) =
     (case (key = CInteger 1, val) of (True, CBytes bs) \<Rightarrow> Some bs | _ \<Rightarrow> info_entry entries)"

definition parse_post_handshake :: "(bytes \<Rightarrow> string + cbor) \<Rightarrow> bytes \<Rightarrow> bytes option" where
  "parse_post_handshake de payload = (case de payload of Inr (CMap entries) \<Rightarrow> info_entry entries | _ \<Rightarrow> None)"

definition establish ::
  "'k noise_crypto \<Rightarrow> (bytes \<Rightarrow> string + cbor) \<Rightarrow> 'p frame_port \<Rightarrow> 'p \<Rightarrow> bytes \<Rightarrow> bytes \<Rightarrow> bytes \<Rightarrow> string
   \<Rightarrow> bool \<Rightarrow> cable_error + 'p cable_connection" where
  "establish C de P port static_seed ephemeral_seed the_psk product announcer =
     (case from_seed C static_seed of
        None \<Rightarrow> Inl (CableOther ''caBLE static seed is not a valid scalar'')
      | Some static_keys \<Rightarrow>
     (case from_seed C ephemeral_seed of
        None \<Rightarrow> Inl (CableOther ''caBLE ephemeral seed is not a valid scalar'')
      | Some ephemeral \<Rightarrow>
     (case write_message1 C the_psk ephemeral (new_initiator static_keys) of
        (Inl e, _) \<Rightarrow> Inl (to_cable_error e)
      | (Inr msg1, noise) \<Rightarrow>
     (case write_frame P port msg1 of
        (Some e, _) \<Rightarrow> Inl (port_to_cable_error e)
      | (None, port1) \<Rightarrow>
     (case read_frame P port1 of
        (Inl e, _) \<Rightarrow> Inl (port_to_cable_error e)
      | (Inr msg2, port2) \<Rightarrow>
     (case read_message2 C msg2 noise of
        (Inl e, _) \<Rightarrow> Inl (to_cable_error e)
      | (Inr (write_key, read_key), _) \<Rightarrow>
     (case new_transport write_key read_key of
        None \<Rightarrow> Inl (CableOther ''caBLE split produced a bad key'')
      | Some transport \<Rightarrow>
     (case read_frame P port2 of
        (Inl e, _) \<Rightarrow> Inl (port_to_cable_error e)
      | (Inr first, port3) \<Rightarrow>
     (case open_frame C first transport of
        (Inl e, _) \<Rightarrow> Inl (to_cable_error e)
      | (Inr post, transport1) \<Rightarrow>
          Inr \<lparr>cc_port = port3, cc_transport = transport1, cc_product = product,
               cc_path = channel_name P port3, cc_get_info = parse_post_handshake de post,
               cc_on_touch = announcer, cc_log = []\<rparr>)))))))))"

definition cached_info :: "'p cable_connection \<Rightarrow> bytes \<Rightarrow> bytes option" where
  "cached_info c request =
     (case request of b # _ \<Rightarrow> if b = GET_INFO_COMMAND then cc_get_info c else None | [] \<Rightarrow> None)"

definition connection_cbor ::
  "'k noise_crypto \<Rightarrow> 'p frame_port \<Rightarrow> 'p cable_connection \<Rightarrow> bytes
   \<Rightarrow> (cable_error + bytes) \<times> 'p cable_connection" where
  "connection_cbor C P c request =
     (case cached_info c request of
        Some info \<Rightarrow> (Inr info, c)
      | None \<Rightarrow>
     (case seal C (MSG_CTAP # request) (cc_transport c) of
        (Inl e, t) \<Rightarrow> (Inl (to_cable_error e), c\<lparr>cc_transport := t\<rparr>)
      | (Inr sealed, t) \<Rightarrow>
     (case write_frame P (cc_port c) sealed of
        (Some e, p) \<Rightarrow> (Inl (port_to_cable_error e), c\<lparr>cc_transport := t, cc_port := p\<rparr>)
      | (None, p) \<Rightarrow>
     (case read_frame P p of
        (Inl e, p2) \<Rightarrow> (Inl (port_to_cable_error e), c\<lparr>cc_transport := t, cc_port := p2\<rparr>)
      | (Inr reply, p2) \<Rightarrow>
     (case open_frame C reply t of
        (Inl e, t2) \<Rightarrow> (Inl (to_cable_error e), c\<lparr>cc_transport := t2, cc_port := p2\<rparr>)
      | (Inr payload, t2) \<Rightarrow>
          (case payload of
             [] \<Rightarrow> Inl (CableOther ''empty caBLE frame'')
           | kind # body \<Rightarrow>
               if kind \<noteq> MSG_CTAP
               then Inl (CableOther (''non-CTAP caBLE frame (type '' @ show_nat (unat kind) @ '')''))
               else read_status (Inr body),
           c\<lparr>cc_transport := t2, cc_port := p2\<rparr>))))))"

definition connection_exchange ::
  "'k noise_crypto \<Rightarrow> 'p frame_port \<Rightarrow> 'p cable_connection \<Rightarrow> bytes \<Rightarrow> touch_kind option
   \<Rightarrow> (cable_error + bytes) \<times> 'p cable_connection" where
  "connection_exchange C P c request touch =
     (let c1 = (case touch of
          Some kind \<Rightarrow> if cc_on_touch c then c\<lparr>cc_log := cc_log c @ [(kind, cc_product c)]\<rparr> else c
        | None \<Rightarrow> c)
      in connection_cbor C P c1 request)"

definition connection_cancel :: "'k noise_crypto \<Rightarrow> 'p frame_port \<Rightarrow> 'p cable_connection \<Rightarrow> 'p cable_connection" where
  "connection_cancel C P c =
     (case seal C [MSG_SHUTDOWN] (cc_transport c) of
        (Inl _, t) \<Rightarrow> c\<lparr>cc_transport := t\<rparr>
      | (Inr sealed, t) \<Rightarrow> c\<lparr>cc_transport := t, cc_port := snd (write_frame P (cc_port c) sealed)\<rparr>)"

section \<open>One attempt\<close>

record cable_initiator =
  ci_static_seed :: bytes
  ci_qr_secret :: bytes

definition new_cable_initiator :: "'k noise_crypto \<Rightarrow> bytes \<Rightarrow> bytes \<Rightarrow> cable_initiator option" where
  "new_cable_initiator C static_seed qr_secret =
     (if length qr_secret \<noteq> 16 \<or> length static_seed \<noteq> 32 then None
      else map_option (\<lambda>_. \<lparr>ci_static_seed = static_seed, ci_qr_secret = qr_secret\<rparr>) (from_seed C static_seed))"

definition qr_payload ::
  "'k noise_crypto \<Rightarrow> (cbor \<Rightarrow> string + bytes) \<Rightarrow> cable_initiator \<Rightarrow> int \<Rightarrow> bool \<Rightarrow> string" where
  "qr_payload C ser i epoch_seconds for_get =
     (let compressed = (case from_seed C (ci_static_seed i) of Some kp \<Rightarrow> public_compressed C kp | None \<Rightarrow> []);
          hint = (if for_get then HINT_GET else HINT_MAKE)
      in build_payload ser compressed (ci_qr_secret i) epoch_seconds hint)"

definition initiator_eid_key :: "advert_crypto \<Rightarrow> cable_initiator \<Rightarrow> bytes" where
  "initiator_eid_key A i = eid_key A (ci_qr_secret i)"

definition initiator_tunnel_id :: "advert_crypto \<Rightarrow> cable_initiator \<Rightarrow> bytes" where
  "initiator_tunnel_id A i = tunnel_id A (ci_qr_secret i)"

definition recognise_advert :: "advert_crypto \<Rightarrow> cable_initiator \<Rightarrow> bytes \<Rightarrow> advert_eid option" where
  "recognise_advert A i candidate =
     (case try_decrypt_advert A candidate (initiator_eid_key A i) of
        None \<Rightarrow> None
      | Some plaintext \<Rightarrow> parse_eid plaintext)"

definition nibble :: "u8 \<Rightarrow> char" where
  "nibble n = (if n \<le> 9 then char_of (48 + unat n) else char_of (65 + (unat n - 10)))"

definition url_hex :: "bytes \<Rightarrow> string" where
  "url_hex bs = concat (map (\<lambda>b. [nibble (drop_bit 4 b), nibble (b AND 0x0f)]) bs)"

definition connect_url :: "advert_crypto \<Rightarrow> (bytes \<Rightarrow> bytes) \<Rightarrow> cable_initiator \<Rightarrow> bytes \<Rightarrow> string option" where
  "connect_url A hash i advert_plaintext16 =
     do {
       eid \<leftarrow> parse_eid advert_plaintext16;
       domain \<leftarrow> decode_tunnel_domain hash (ae_tunnel_domain_id eid);
       let routing = url_hex (ae_routing_id eid);
       let tunnel = url_hex (initiator_tunnel_id A i);
       Some (''wss://'' @ domain @ ''/cable/connect/'' @ routing @ ''/'' @ tunnel)
     }"

definition initiator_psk :: "advert_crypto \<Rightarrow> cable_initiator \<Rightarrow> bytes \<Rightarrow> bytes" where
  "initiator_psk A i advert_plaintext16 = psk A (ci_qr_secret i) advert_plaintext16"

definition initiator_establish ::
  "'k noise_crypto \<Rightarrow> advert_crypto \<Rightarrow> (bytes \<Rightarrow> string + cbor) \<Rightarrow> 'p frame_port \<Rightarrow> cable_initiator \<Rightarrow> 'p
   \<Rightarrow> bytes \<Rightarrow> bytes \<Rightarrow> string \<Rightarrow> bool \<Rightarrow> cable_error + 'p cable_connection" where
  "initiator_establish C A de P i port advert_plaintext16 ephemeral_seed product announcer =
     establish C de P port (ci_static_seed i) ephemeral_seed (initiator_psk A i advert_plaintext16) product announcer"

section \<open>The prompt\<close>

lemma connection_cbor_keeps:
  "connection_cbor C P c request = (r, c') \<Longrightarrow>
     cc_log c' = cc_log c \<and> cc_get_info c' = cc_get_info c \<and> cc_product c' = cc_product c \<and> cc_path c' = cc_path c"
  by (auto simp: connection_cbor_def split: option.splits prod.splits sum.splits)

interpretation phone_cable: cable "\<lambda>c request touch. Some (connection_exchange C P c request touch)" cc_log
  for C :: "'k noise_crypto" and P :: "'p frame_port"
proof
  fix c :: "'p cable_connection" and request touch r c'
  assume "Some (connection_exchange C P c request touch) = Some (r, c')"
  then have "connection_exchange C P c request touch = (r, c')" by simp
  then show "cc_log c' = cc_log c \<or> (\<exists>kind name. touch = Some kind \<and> cc_log c' = cc_log c @ [(kind, name)])"
    by (cases touch) (auto simp: connection_exchange_def dest!: connection_cbor_keeps split: if_splits)
qed

section \<open>What a failure says\<close>

lemma starts_with_append [simp]: "starts_with (p @ s) p"
  by (simp add: starts_with_def)

lemma link_failure_texts:
  "is_link_failure (TRANSPORT_FAILURE @ detail)" "is_link_failure (NOISE_FAILURE @ detail)"
  by (simp_all add: is_link_failure_def)

lemma other_texts:
  "\<not> is_link_failure (''empty caBLE frame'')" "\<not> is_link_failure (''non-CTAP caBLE frame (type '' @ s)"
  "\<not> is_link_failure (''not a CTAP2 message: '' @ s)" "\<not> is_link_failure (''caBLE split produced a bad key'')"
  "\<not> is_link_failure (''caBLE static seed is not a valid scalar'')"
  "\<not> is_link_failure (''caBLE ephemeral seed is not a valid scalar'')"
  by (simp_all add: is_link_failure_def starts_with_def TRANSPORT_FAILURE_def NOISE_FAILURE_def)

text \<open>What failed under the exchange: the port, or the cipher over it.\<close>

definition link_error :: "cable_error \<Rightarrow> bool" where
  "link_error e \<longleftrightarrow> (\<exists>pe. e = port_to_cable_error pe) \<or> (\<exists>ne. e = to_cable_error ne)"

lemma link_error_intros: "link_error (port_to_cable_error pe)" "link_error (to_cable_error ne)"
  by (auto simp: link_error_def)

lemma link_error_other: "link_error (CableOther detail) \<Longrightarrow> is_link_failure detail"
proof -
  assume "link_error (CableOther detail)"
  then consider pe where "CableOther detail = port_to_cable_error pe" | ne where "CableOther detail = to_cable_error ne"
    by (auto simp: link_error_def)
  then show ?thesis
  proof cases
    case 1
    then show ?thesis by (cases pe) (simp_all add: link_failure_texts)
  next
    case 2
    then show ?thesis by (simp add: to_cable_error_def link_failure_texts)
  qed
qed

text \<open>An answer came through whole, and the authenticator (or its firmware) is what refused.\<close>

definition peer_error :: "cable_error \<Rightarrow> bool" where
  "peer_error e \<longleftrightarrow> (\<exists>s. e = Ctap s) \<or> (\<exists>d. e = CableOther d \<and> \<not> is_link_failure d)"

lemma read_status_error: "read_status (Inr body) = Inl e \<Longrightarrow> peer_error e"
  using other_texts(3) by (auto simp: read_status_def peer_error_def split: sum.splits if_splits)

lemma exchange_errors:
  "connection_cbor C P c request = (Inl e, c') \<Longrightarrow> link_error e \<or> peer_error e"
  using other_texts(1,2)
  by (auto simp: connection_cbor_def link_error_intros peer_error_def [of "CableOther _"]
      dest: read_status_error split: option.splits prod.splits sum.splits list.splits if_splits)

section \<open>A phone\<close>

text \<open>
  The far end: the responder of the tests, then the authenticator behind it. It answers the first
  frame with its handshake message and the sealed post-handshake message, and every CTAP frame with
  \<open>answer\<close>; it remembers the requests it saw.
\<close>

record 'k phone =
  ph_responder :: "'k responder option"
  ph_transport :: "cable_transport option"
  ph_outbox :: "bytes list"
  ph_seen :: "bytes list"

definition phone_reply ::
  "'k noise_crypto \<Rightarrow> bytes list \<Rightarrow> bytes list \<Rightarrow> bytes \<Rightarrow> cable_transport \<Rightarrow> 'k phone
   \<Rightarrow> port_error option \<times> 'k phone" where
  "phone_reply C before seen message t p =
     (case seal C message t of
        (Inl _, _) \<Rightarrow> (Some (Io ''phone''), p)
      | (Inr ct, t1) \<Rightarrow>
          (None, p\<lparr>ph_responder := None, ph_transport := Some t1,
                    ph_outbox := ph_outbox p @ before @ [ct], ph_seen := ph_seen p @ seen\<rparr>))"

definition phone_write ::
  "'k noise_crypto \<Rightarrow> bytes \<Rightarrow> bytes \<Rightarrow> (bytes \<Rightarrow> bytes) \<Rightarrow> 'k phone \<Rightarrow> bytes \<Rightarrow> port_error option \<times> 'k phone" where
  "phone_write C the_psk post answer p frame =
     (case (ph_responder p, ph_transport p) of
        (Some r, _) \<Rightarrow>
          (case respond C frame the_psk r of
             None \<Rightarrow> (Some (Io ''phone''), p)
           | Some ((msg2, t), _) \<Rightarrow> phone_reply C [msg2] [] post t p)
      | (None, None) \<Rightarrow> (Some (Io ''phone''), p)
      | (None, Some t) \<Rightarrow>
          (case open_frame C frame t of
             (Inr (kind # request), t1) \<Rightarrow>
               if kind = MSG_CTAP then phone_reply C [] [request] (MSG_CTAP # answer request) t1 p
               else (None, p\<lparr>ph_transport := Some t1\<rparr>)
           | (_, t1) \<Rightarrow> (Some (Io ''phone''), p\<lparr>ph_transport := Some t1\<rparr>)))"

definition phone_read :: "'k phone \<Rightarrow> (port_error + bytes) \<times> 'k phone" where
  "phone_read p = (case ph_outbox p of [] \<Rightarrow> (Inl TimedOut, p) | f # fs \<Rightarrow> (Inr f, p\<lparr>ph_outbox := fs\<rparr>))"

definition phone_port ::
  "'k noise_crypto \<Rightarrow> bytes \<Rightarrow> bytes \<Rightarrow> (bytes \<Rightarrow> bytes) \<Rightarrow> ('k phone) frame_port" where
  "phone_port C the_psk post answer =
     \<lparr>write_frame = phone_write C the_psk post answer, read_frame = phone_read, channel_name = \<lambda>_. ''WebSocket''\<rparr>"

definition new_phone :: "bytes \<Rightarrow> 'k \<Rightarrow> 'k phone" where
  "new_phone initiator_pub ephemeral =
     \<lparr>ph_responder = Some (new_responder initiator_pub ephemeral), ph_transport = None, ph_outbox = [], ph_seen = []\<rparr>"

text \<open>The two ends in lockstep, nothing in flight.\<close>

definition connected :: "('k phone) cable_connection \<Rightarrow> bool" where
  "connected c \<longleftrightarrow>
     ph_responder (cc_port c) = None \<and> ph_outbox (cc_port c) = []
     \<and> (\<exists>t. ph_transport (cc_port c) = Some t \<and> mirrored (cc_transport c) t)"

lemma phone_answers:
  assumes C: "noise_contract C" and conn: "connected c" and fresh: "cached_info c request = None"
    and small: "length request < 2 ^ 30" "length (answer request) < 2 ^ 30"
  obtains c' where "connection_cbor C (phone_port C the_psk post answer) c request
        = (read_status (Inr (answer request)), c')"
    "connected c'" "ph_seen (cc_port c') = ph_seen (cc_port c) @ [request]"
proof -
  define p where "p = cc_port c"
  obtain t where p: "ph_responder p = None" "ph_outbox p = []" "ph_transport p = Some t"
      and m: "mirrored (cc_transport c) t"
    using conn by (auto simp: connected_def p_def)
  have len: "length (MSG_CTAP # request) \<le> 2 ^ 30" "length (MSG_CTAP # answer request) \<le> 2 ^ 30"
    using small by simp_all
  obtain ct a1 t1 where s1: "seal C (MSG_CTAP # request) (cc_transport c) = (Inr ct, a1)"
      "open_frame C ct t = (Inr (MSG_CTAP # request), t1)" "mirrored a1 t1"
    by (rule seal_open [OF C m len(1)])
  obtain ct2 t2 a2 where s2: "seal C (MSG_CTAP # answer request) t1 = (Inr ct2, t2)"
      "open_frame C ct2 a1 = (Inr (MSG_CTAP # answer request), a2)" "mirrored t2 a2"
    by (rule seal_open [OF C mirrored_sym [OF s1(3)] len(2)])
  define p' where "p' = p\<lparr>ph_transport := Some t2, ph_outbox := [], ph_seen := ph_seen p @ [request]\<rparr>"
  have sent: "phone_write C the_psk post answer p ct = (None, p'\<lparr>ph_outbox := [ct2]\<rparr>)"
    using p by (simp add: phone_write_def s1 phone_reply_def s2 p'_def)
  have p'_eq: "p'\<lparr>ph_outbox := []\<rparr> = p'" by (simp add: p'_def)
  show thesis
  proof (rule that [of "c\<lparr>cc_transport := a2, cc_port := p'\<rparr>"])
    show "connection_cbor C (phone_port C the_psk post answer) c request =
        (read_status (Inr (answer request)), c\<lparr>cc_transport := a2, cc_port := p'\<rparr>)"
      by (simp add: connection_cbor_def fresh s1 s2 phone_port_def sent phone_read_def p'_eq flip: p_def)
    show "connected (c\<lparr>cc_transport := a2, cc_port := p'\<rparr>)"
      using mirrored_sym [OF s2(3)] p(1) by (simp add: connected_def p'_def)
    show "ph_seen (cc_port (c\<lparr>cc_transport := a2, cc_port := p'\<rparr>)) = ph_seen (cc_port c) @ [request]"
      by (simp add: p'_def p_def)
  qed
qed

text \<open>A ceremony's exchanges against that phone.\<close>

definition asks_info :: "bytes \<Rightarrow> bool" where
  "asks_info request \<longleftrightarrow> (\<exists>rest. request = GET_INFO_COMMAND # rest)"

definition phone_result :: "bytes option \<Rightarrow> (bytes \<Rightarrow> bytes) \<Rightarrow> bytes \<Rightarrow> cable_error + bytes" where
  "phone_result info answer request =
     (case info of Some i \<Rightarrow> if asks_info request then Inr i else read_status (Inr (answer request))
      | None \<Rightarrow> read_status (Inr (answer request)))"

definition goes_out :: "bytes option \<Rightarrow> bytes \<Rightarrow> bool" where
  "goes_out info request \<longleftrightarrow> info = None \<or> \<not> asks_info request"

lemma cached_info_eq: "cached_info c request = (if asks_info request then cc_get_info c else None)"
  by (auto simp: cached_info_def asks_info_def split: list.splits)

lemma phone_run:
  assumes C: "noise_contract C"
  shows "connected c \<Longrightarrow> \<forall>r\<in>set rs. length (fst r) < 2 ^ 30 \<and> length (answer (fst r)) < 2 ^ 30 \<Longrightarrow>
    \<exists>c'. run_exchanges (\<lambda>c request touch. Some (connection_exchange C (phone_port C the_psk post answer) c request touch)) c rs
        = Some (map (\<lambda>r. phone_result (cc_get_info c) answer (fst r)) rs, c')
      \<and> connected c'
      \<and> ph_seen (cc_port c') = ph_seen (cc_port c) @ filter (goes_out (cc_get_info c)) (map fst rs)"
proof (induction rs arbitrary: c)
  case Nil
  then show ?case by simp
next
  case (Cons r rs)
  obtain request touch where r: "r = (request, touch)" by force
  with Cons.prems(2) have small: "length request < 2 ^ 30" "length (answer request) < 2 ^ 30" by auto
  define P where "P = phone_port C the_psk post answer"
  define c0 where "c0 = (case touch of
      Some kind \<Rightarrow> if cc_on_touch c then c\<lparr>cc_log := cc_log c @ [(kind, cc_product c)]\<rparr> else c | None \<Rightarrow> c)"
  have c0: "connected c0" "cc_get_info c0 = cc_get_info c" "cc_port c0 = cc_port c"
    using Cons.prems(1) by (auto simp: c0_def connected_def split: option.splits)
  obtain c1 where c1: "connection_cbor C P c0 request = (phone_result (cc_get_info c) answer request, c1)"
      "connected c1" "ph_seen (cc_port c1) = ph_seen (cc_port c) @ filter (goes_out (cc_get_info c)) [request]"
  proof (cases "cached_info c0 request")
    case None
    from phone_answers [where answer = answer, OF C c0(1) None small] obtain c1 where
      "connection_cbor C P c0 request = (read_status (Inr (answer request)), c1)"
      "connected c1" "ph_seen (cc_port c1) = ph_seen (cc_port c0) @ [request]"
      unfolding P_def by blast
    moreover have "phone_result (cc_get_info c) answer request = read_status (Inr (answer request))"
        "goes_out (cc_get_info c) request"
      using None c0(2) by (auto simp: cached_info_eq phone_result_def goes_out_def split: option.splits if_splits)
    ultimately show thesis using c0(3) by (intro that [of c1]) simp_all
  next
    case (Some i)
    then have i: "asks_info request" "cc_get_info c = Some i"
      using c0(2) by (auto simp: cached_info_eq split: if_splits)
    show thesis
      by (rule that [of c0]) (use Some i c0 in \<open>simp_all add: connection_cbor_def phone_result_def goes_out_def\<close>)
  qed
  have info: "cc_get_info c1 = cc_get_info c" using connection_cbor_keeps [OF c1(1)] c0(2) by simp
  have "\<forall>r\<in>set rs. length (fst r) < 2 ^ 30 \<and> length (answer (fst r)) < 2 ^ 30" using Cons.prems(2) by simp
  from Cons.IH [OF c1(2) this] obtain c' where c':
      "run_exchanges (\<lambda>c request touch. Some (connection_exchange C P c request touch)) c1 rs
        = Some (map (\<lambda>r. phone_result (cc_get_info c) answer (fst r)) rs, c')"
      "connected c'" "ph_seen (cc_port c') = ph_seen (cc_port c1) @ filter (goes_out (cc_get_info c)) (map fst rs)"
    by (auto simp: info P_def)
  have "connection_exchange C P c request touch = (phone_result (cc_get_info c) answer request, c1)"
    using c1(1) by (simp add: connection_exchange_def Let_def flip: c0_def)
  with c' c1(3) r show ?case by (auto simp flip: P_def)
qed

lemma phone_establishes:
  fixes C :: "'k noise_crypto"
  assumes C: "noise_contract C" and seeds: "from_seed C static_seed = Some sk" "from_seed C eph_seed = Some ek"
    and post: "length post \<le> 2 ^ 30"
  obtains c where "establish C de (phone_port C the_psk post answer) (new_phone (public_uncompressed C sk) re_eph)
        static_seed eph_seed the_psk product announcer = Inr c"
    "connected c" "cc_get_info c = parse_post_handshake de post" "ph_seen (cc_port c) = []"
proof -
  obtain msg1 i1 msg2 r1 i2 wk rk where h:
      "write_message1 C the_psk ek (new_initiator sk) = (Inr msg1, i1)"
      "respond C msg1 the_psk (new_responder (public_uncompressed C sk) re_eph) =
         Some ((msg2, \<lparr>ct_write_key = rk, ct_read_key = wk, ct_write_ctr = 0, ct_read_ctr = 0\<rparr>), r1)"
      "read_message2 C msg2 i1 = (Inr (wk, rk), i2)"
      and keys: "length wk = 32" "length rk = 32"
    by (rule handshake_agrees [OF C])
  define it where "it = \<lparr>ct_write_key = wk, ct_read_key = rk, ct_write_ctr = 0, ct_read_ctr = 0\<rparr>"
  define rt where "rt = \<lparr>ct_write_key = rk, ct_read_key = wk, ct_write_ctr = 0, ct_read_ctr = 0\<rparr>"
  have "mirrored rt it" using keys by (simp add: mirrored_def it_def rt_def)
  then obtain ct rt1 it1 where s: "seal C post rt = (Inr ct, rt1)" "open_frame C ct it = (Inr post, it1)"
      "mirrored rt1 it1"
    by (rule seal_open [OF C _ post])
  define ph :: "'k phone" where
    "ph = \<lparr>ph_responder = None, ph_transport = Some rt1, ph_outbox = [], ph_seen = []\<rparr>"
  define c where "c = \<lparr>cc_port = ph, cc_transport = it1, cc_product = product, cc_path = ''WebSocket'',
      cc_get_info = parse_post_handshake de post, cc_on_touch = announcer, cc_log = []\<rparr>"
  have sent: "phone_write C the_psk post answer (new_phone (public_uncompressed C sk) re_eph) msg1 =
      (None, ph\<lparr>ph_outbox := [msg2, ct]\<rparr>)"
    using h(2) s(1) by (simp add: phone_write_def new_phone_def phone_reply_def ph_def flip: rt_def)
  have tr: "new_transport wk rk = Some it" using keys by (simp add: new_transport_def it_def)
  show thesis
  proof (rule that [of c])
    show "establish C de (phone_port C the_psk post answer) (new_phone (public_uncompressed C sk) re_eph)
        static_seed eph_seed the_psk product announcer = Inr c"
      by (simp add: establish_def seeds h(1) phone_port_def sent phone_read_def h(3) tr s(2) c_def ph_def)
    show "connected c" using mirrored_sym [OF s(3)] by (simp add: connected_def c_def ph_def)
    show "cc_get_info c = parse_post_handshake de post" "ph_seen (cc_port c) = []"
      by (simp_all add: c_def ph_def)
  qed
qed

section \<open>The advert\<close>

text \<open>What a phone broadcasts: the encrypted identity and four bytes of its tag.\<close>

definition sealed_advert :: "advert_crypto \<Rightarrow> bytes \<Rightarrow> bytes \<Rightarrow> bytes" where
  "sealed_advert A qr_secret eid =
     (let key = eid_key A qr_secret; block = block_encrypt A (subslice 0 32 key) eid
      in block @ subslice 0 4 (hmac_tag A (subslice 32 64 key) block))"

lemma length_cable_derive: "advert_contract A \<Longrightarrow> n \<le> 8160 \<Longrightarrow> length (cable_derive A secret salt purpose n) = n"
proof -
  assume "advert_contract A" "n \<le> 8160"
  then have "\<exists>out. hkdf_info A s ikm info n = Some out \<and> length out = n" for s ikm info
    unfolding advert_contract_def by blast
  then obtain out where "hkdf_info A (if salt = [] then None else Some salt) secret (le_bytes 4 (unat purpose)) n = Some out"
      "length out = n" by blast
  then show ?thesis by (simp add: cable_derive_def Let_def)
qed

lemma sealed_advert_opens:
  assumes A: "advert_contract A" and eid: "length eid = 16"
  shows "try_decrypt_advert A (sealed_advert A qr_secret eid) (eid_key A qr_secret) =
    (if eid ! 0 = 0 then Some eid else None)"
proof -
  define key where "key = eid_key A qr_secret"
  define block where "block = block_encrypt A (subslice 0 32 key) eid"
  define tag where "tag = hmac_tag A (subslice 32 64 key) block"
  have key: "length key = 64" using length_cable_derive [OF A] by (simp add: key_def eid_key_def)
  then have "length (subslice 0 32 key) = 32" by simp
  with A eid have block: "length block = 16" "block_decrypt A (subslice 0 32 key) block = eid"
    unfolding advert_contract_def block_def by blast+
  have tag: "length tag = 32" using A unfolding advert_contract_def tag_def by blast
  have sealed: "sealed_advert A qr_secret eid = block @ subslice 0 4 tag"
    by (simp add: sealed_advert_def Let_def tag_def block_def key_def)
  show ?thesis
    unfolding key_def [symmetric] sealed
    using key block tag
    by (simp add: try_decrypt_advert_def Let_def subslice_front subslice_back flip: tag_def)
qed

lemma accepted_advert:
  assumes "try_decrypt_advert A candidate key = Some eid"
  shows "length candidate = 20" "eid ! 0 = 0"
    "subslice 16 20 candidate = subslice 0 4 (hmac_tag A (subslice 32 64 key) (subslice 0 16 candidate))"
  using assms by (auto simp: try_decrypt_advert_def Let_def split: if_splits)

section \<open>Toy instances\<close>

definition toy_advert :: advert_crypto where
  "toy_advert =
     \<lparr>hkdf_info = \<lambda>salt ikm info n. if n \<le> 8160
        then Some (take n (ikm @ info @ (case salt of None \<Rightarrow> [] | Some s \<Rightarrow> s) @ zeros n)) else None,
      hmac_tag = \<lambda>k m. take 32 (m @ k @ zeros 32),
      block_encrypt = \<lambda>k b. rev b, block_decrypt = \<lambda>k b. rev b\<rparr>"

lemma toy_advert_contract: "advert_contract toy_advert"
proof -
  have len: "length (take n (m @ zeros n)) = n" for m :: bytes and n by simp
  have h: "n \<le> 8160 \<Longrightarrow> \<exists>out. hkdf_info toy_advert salt ikm info n = Some out \<and> length out = n"
    for salt ikm info n
    using len [of n "ikm @ info @ (case salt of None \<Rightarrow> [] | Some s \<Rightarrow> s)"] by (simp add: toy_advert_def)
  have t: "length (hmac_tag toy_advert k m) = 32" for k m
    using len [of 32 "m @ k"] by (simp add: toy_advert_def)
  have b: "length b = 16 \<Longrightarrow> length (block_encrypt toy_advert k b) = 16
      \<and> block_decrypt toy_advert k (block_encrypt toy_advert k b) = b" for k b
    by (simp add: toy_advert_def)
  show ?thesis using h t b unfolding advert_contract_def by blast
qed

text \<open>A reader that finds the one-entry map \<open>{1: rest}\<close> behind the byte \<open>0xA1\<close>.\<close>

definition toy_cbor :: "bytes \<Rightarrow> string + cbor" where
  "toy_cbor bs = (case bs of b # rest \<Rightarrow> if b = 0xA1 then Inr (CMap [(CInteger 1, CBytes rest)]) else Inl ''eof''
                  | [] \<Rightarrow> Inl ''eof'')"

section \<open>Properties\<close>

text \<open>
  C29: a sign-in with a phone. The advert the QR's phone broadcasts is recognised, the handshake over
  the tunnel ends in a connection holding the getInfo the phone volunteered, and every later exchange
  returns what the authenticator answered to that very request; when getInfo was volunteered the
  phone sees exactly the requests that are not getInfo, in order.
\<close>

theorem phone_session:
  assumes "noise_contract C" and "advert_contract A"
    and "new_cable_initiator C static_seed qr_secret = Some i" and "from_seed C static_seed = Some sk"
    and "from_seed C eph_seed = Some ek" and "length eid = 16" and "eid ! 0 = 0" and "length post \<le> 2 ^ 30"
    and "\<forall>r\<in>set rs. length (fst r) < 2 ^ 30 \<and> length (answer (fst r)) < 2 ^ 30"
  shows "recognise_advert A i (sealed_advert A qr_secret eid) = parse_eid eid \<and> parse_eid eid \<noteq> None
    \<and> (\<exists>c c'. initiator_establish C A de (phone_port C (psk A qr_secret eid) post answer) i
          (new_phone (public_uncompressed C sk) re_eph) eid eph_seed product announcer = Inr c
        \<and> cc_get_info c = parse_post_handshake de post
        \<and> run_exchanges (\<lambda>c request touch. Some (connection_exchange C
              (phone_port C (psk A qr_secret eid) post answer) c request touch)) c rs
            = Some (map (\<lambda>r. phone_result (cc_get_info c) answer (fst r)) rs, c')
        \<and> ph_seen (cc_port c') = filter (goes_out (cc_get_info c)) (map fst rs))"
proof -
  have i: "ci_qr_secret i = qr_secret" "ci_static_seed i = static_seed"
    using assms(3) by (auto simp: new_cable_initiator_def split: if_splits)
  obtain c where c: "establish C de (phone_port C (psk A qr_secret eid) post answer)
        (new_phone (public_uncompressed C sk) re_eph) static_seed eph_seed (psk A qr_secret eid) product announcer = Inr c"
      "connected c" "cc_get_info c = parse_post_handshake de post" "ph_seen (cc_port c) = []"
    by (rule phone_establishes [OF assms(1,4,5,8)])
  show ?thesis
    using phone_run [where answer = answer, OF assms(1) c(2) assms(9), of "psk A qr_secret eid" post] c
      sealed_advert_opens [OF assms(2,6)] assms(6,7)
    by (auto simp: recognise_advert_def initiator_eid_key_def initiator_establish_def initiator_psk_def i parse_eid_def)
qed

theorem phone_session_witness:
  "\<exists>c c'. initiator_establish toy_noise toy_advert toy_cbor
        (phone_port toy_noise (psk toy_advert (replicate 16 3) (zeros 16)) [0xA1, 7] (\<lambda>r. 0 # r))
        \<lparr>ci_static_seed = replicate 32 1, ci_qr_secret = replicate 16 3\<rparr>
        (new_phone (4 # 1 # zeros 63) 5) (zeros 16) (replicate 32 2) ''phone'' True = Inr c
      \<and> run_exchanges (\<lambda>c request touch. Some (connection_exchange toy_noise
            (phone_port toy_noise (psk toy_advert (replicate 16 3) (zeros 16)) [0xA1, 7] (\<lambda>r. 0 # r)) c request touch))
          c [([4], None), ([2, 9], Some Presence)] = Some ([Inr [7], Inr [2, 9]], c')
      \<and> ph_seen (cc_port c') = [[2, 9]]"
proof -
  let ?i = "\<lparr>ci_static_seed = replicate 32 1, ci_qr_secret = replicate 16 3\<rparr>"
  have i: "new_cable_initiator toy_noise (replicate 32 1) (replicate 16 3) = Some ?i"
    and s: "from_seed toy_noise (replicate 32 1) = Some 1" "from_seed toy_noise (replicate 32 2) = Some 2"
    and pub: "public_uncompressed toy_noise 1 = 4 # 1 # zeros 63"
    by (simp_all add: new_cable_initiator_def toy_noise_def)
  have info: "parse_post_handshake toy_cbor [0xA1, 7] = Some [7]"
    by (simp add: parse_post_handshake_def toy_cbor_def)
  have outcome: "phone_result (Some [7]) (\<lambda>r. 0 # r) [4] = Inr [7]"
      "phone_result (Some [7]) (\<lambda>r. 0 # r) [2, 9] = Inr [2, 9]"
      "\<not> goes_out (Some [7]) [4]" "goes_out (Some [7]) [2, 9]"
    by (simp_all add: phone_result_def goes_out_def asks_info_def GET_INFO_COMMAND_def read_status_def
        split_response_def status_from_byte_def is_success_def)
  obtain c c' where "initiator_establish toy_noise toy_advert toy_cbor
        (phone_port toy_noise (psk toy_advert (replicate 16 3) (zeros 16)) [0xA1, 7] (\<lambda>r. 0 # r)) ?i
        (new_phone (4 # 1 # zeros 63) 5) (zeros 16) (replicate 32 2) ''phone'' True = Inr c"
      and c: "cc_get_info c = Some [7]"
      "run_exchanges (\<lambda>c request touch. Some (connection_exchange toy_noise
            (phone_port toy_noise (psk toy_advert (replicate 16 3) (zeros 16)) [0xA1, 7] (\<lambda>r. 0 # r)) c request touch))
          c [([4], None), ([2, 9], Some Presence)]
        = Some (map (\<lambda>r. phone_result (cc_get_info c) (\<lambda>r. 0 # r) (fst r)) [([4], None), ([2, 9], Some Presence)], c')"
      "ph_seen (cc_port c') = filter (goes_out (cc_get_info c)) (map fst [([4], None), ([2, 9], Some Presence)])"
    using phone_session [OF toy_noise_contract toy_advert_contract i s, of "zeros 16" "[0xA1, 7]"
        "[([4], None), ([2, 9], Some Presence)]" "\<lambda>r. 0 # r" toy_cbor 5 "''phone''" True]
    unfolding info pub by force
  then show ?thesis
    by (intro exI [of _ c] exI [of _ c'] conjI) (simp_all only: c outcome list.map fst_conv filter.simps if_True if_False)
qed

text \<open>
  A failure's wording says whose it is. A failed exchange either came from the link (the port or
  the cipher over it) or from the authenticator's answer; read back from its text, the link's are
  recognised and the authenticator's never are. A link that goes silent is the exception: it becomes
  the security key's own sentence.
\<close>

theorem link_failures_read_back:
  assumes "connection_exchange C P c request touch = (Inl e, c')"
  shows "(link_error e \<or> peer_error e)
    \<and> (\<forall>detail. ce_message (failure_for e) = Some detail \<longrightarrow> e = CableOther detail \<longrightarrow>
          (is_link_failure detail \<longleftrightarrow> link_error e))
    \<and> (e = port_to_cable_error TimedOut \<longrightarrow>
          (\<exists>detail. ce_message (failure_for e) = Some detail \<and> \<not> is_link_failure detail))"
proof -
  have e: "link_error e \<or> peer_error e"
    using assms unfolding connection_exchange_def Let_def by (rule exchange_errors)
  moreover have "is_link_failure detail \<longleftrightarrow> link_error e" if "e = CableOther detail" for detail
    using e that link_error_other by (auto simp: peer_error_def)
  moreover have "\<exists>detail. ce_message (failure_for CableTimedOut) = Some detail \<and> \<not> is_link_failure detail"
    by (simp add: other_def classified_def is_link_failure_def starts_with_def TRANSPORT_FAILURE_def NOISE_FAILURE_def)
  ultimately show ?thesis by auto
qed

theorem link_failures_read_back_witness:
  "is_link_failure (TRANSPORT_FAILURE @ ''reset'')
   \<and> connection_exchange toy_noise
      \<lparr>write_frame = \<lambda>p f. (Some (Io ''reset''), p), read_frame = \<lambda>p. (Inl TimedOut, p), channel_name = \<lambda>_. ''L2CAP''\<rparr>
      \<lparr>cc_port = (), cc_transport = \<lparr>ct_write_key = zeros 32, ct_read_key = zeros 32, ct_write_ctr = 0, ct_read_ctr = 0\<rparr>,
       cc_product = ''phone'', cc_path = ''L2CAP'', cc_get_info = None, cc_on_touch = False, cc_log = []\<rparr> [2] None
     = (Inl (CableOther (TRANSPORT_FAILURE @ ''reset'')),
        \<lparr>cc_port = (), cc_transport = \<lparr>ct_write_key = zeros 32, ct_read_key = zeros 32, ct_write_ctr = 1, ct_read_ctr = 0\<rparr>,
         cc_product = ''phone'', cc_path = ''L2CAP'', cc_get_info = None, cc_on_touch = False, cc_log = []\<rparr>)"
  (is "_ \<and> ?run = (Inl ?e, ?c)")
proof -
  have run: "?run = (Inl ?e, ?c)"
    by (simp add: connection_exchange_def connection_cbor_def cached_info_def GET_INFO_COMMAND_def seal_def
        aes_gcm_seal_def toy_noise_def)
  have "link_error ?e" using link_error_intros(1) [of "Io ''reset''"] by simp
  with link_failures_read_back [OF run] run show ?thesis by (simp add: other_def classified_def)
qed

end
