(* ===== verification/ApduCable.thy ===== *)
theory ApduCable
  imports HidCable
begin

text \<open>
  \<open>ctap/apdu_cable.rs\<close>: CTAP2 over ISO 7816 APDUs, the NFC and smart-card framing. The port transmits
  one command and waits between keepalives; both are the transport's and are parameters. The loop of
  one message may not end (a card may chain its reply forever), which is the value \<open>None\<close>.
\<close>

section \<open>The port and the cable\<close>

definition FIDO_AID :: bytes where
  "FIDO_AID = [0xA0, 0x00, 0x00, 0x06, 0x47, 0x2F, 0x00, 0x01]"

definition CLA :: u8 where "CLA = 0x80"
definition INS_MSG :: u8 where "INS_MSG = 0x10"
definition INS_GET_RESPONSE :: u8 where "INS_GET_RESPONSE = 0x11"
definition P1_MSG :: u8 where "P1_MSG = 0x00"
definition SW_OK :: u16 where "SW_OK = 0x9000"
definition SW_KEEPALIVE :: u16 where "SW_KEEPALIVE = 0x9100"
definition MAX_POLLS :: nat where "MAX_POLLS = 300"

datatype apdu_error = NoCard | Short | ApduIo string

record 'p apdu_port =
  transmit :: "'p \<Rightarrow> bytes \<Rightarrow> (apdu_error + bytes) \<times> 'p"
  poll_delay :: "'p \<Rightarrow> 'p"
  apdu_product :: "'p \<Rightarrow> string"
  apdu_path :: "'p \<Rightarrow> string"

record 'p apdu_cable =
  ac_port :: 'p
  ac_touch :: "touch_kind option"
  ac_on_touch :: bool
  ac_log :: "(touch_kind \<times> string) list"

fun of_apdu_error :: "apdu_error \<Rightarrow> cable_error" where
  "of_apdu_error NoCard = NoKeyPresent"
| "of_apdu_error Short = CableOther ''APDU response too short''"
| "of_apdu_error (ApduIo detail) = CableOther detail"

text \<open>\<open>{sw:04X}\<close>: four upper-case hexadecimal digits.\<close>

definition upper_digit :: "nat \<Rightarrow> char" where
  "upper_digit d = (if d < 10 then char_of (48 + d) else char_of (55 + d))"

definition show_sw :: "u16 \<Rightarrow> string" where
  "show_sw sw = (let n = unat sw in
     [upper_digit (n div 4096), upper_digit (n div 256 mod 16), upper_digit (n div 16 mod 16),
      upper_digit (n mod 16)])"

section \<open>Commands\<close>

definition first_command_apdu :: "bytes \<Rightarrow> cable_error + bytes" where
  "first_command_apdu payload =
     (if payload = [] then Inr [CLA, INS_MSG, P1_MSG, 0x00, 0x00]
      else if length payload \<le> 0xFF
      then Inr ([CLA, INS_MSG, P1_MSG, 0x00, of_nat (length payload)] @ payload @ [0x00])
      else if length payload \<le> 0xFFFF
      then Inr ([CLA, INS_MSG, P1_MSG, 0x00, 0x00] @ u16_be (of_nat (length payload)) @ payload @ [0x00, 0x00])
      else Inl (CableOther ''CTAP request too large for an extended-length APDU''))"

definition transceive ::
  "'p apdu_port \<Rightarrow> 'p apdu_cable \<Rightarrow> bytes \<Rightarrow> (cable_error + bytes \<times> u16) \<times> 'p apdu_cable" where
  "transceive P c apdu =
     (let (res, p) = transmit P (ac_port c) apdu; c1 = c\<lparr>ac_port := p\<rparr>
      in case res of
           Inl e \<Rightarrow> (Inl (of_apdu_error e), c1)
         | Inr resp \<Rightarrow>
             if length resp < 2 then (Inl (CableOther ''APDU response shorter than a status word''), c1)
             else (let sw = (push_bit 8 (ucast (resp ! (length resp - 2)))) OR ucast (resp ! (length resp - 1))
                   in (Inr (take (length resp - 2) resp, sw), c1)))"

definition announce_touch :: "'p apdu_port \<Rightarrow> bool \<Rightarrow> 'p apdu_cable \<Rightarrow> bool \<times> 'p apdu_cable" where
  "announce_touch P announced c =
     (if announced then (True, c)
      else case ac_touch c of
          Some kind \<Rightarrow>
            if ac_on_touch c
            then (True, c\<lparr>ac_log := ac_log c @ [(kind, apdu_product P (ac_port c))]\<rparr>)
            else (False, c)
        | None \<Rightarrow> (False, c))"

section \<open>One message\<close>

text \<open>What one turn of the loop decides: the next command, or the end.\<close>

datatype 'p turn =
    Next bytes bytes nat bool "'p apdu_cable"
  | Done "(cable_error + bytes)" "'p apdu_cable"

definition apdu_turn ::
  "'p apdu_port \<Rightarrow> bytes \<Rightarrow> bytes \<Rightarrow> nat \<Rightarrow> bool \<Rightarrow> 'p apdu_cable \<Rightarrow> 'p turn" where
  "apdu_turn P apdu out polls announced c =
     (case transceive P c apdu of
        (Inl e, c1) \<Rightarrow> Done (Inl e) c1
      | (Inr (data, sw), c1) \<Rightarrow>
          if sw = SW_OK then Done (Inr (out @ data)) c1
          else if sw = SW_KEEPALIVE
          then (if MAX_POLLS < polls + 1 then Done (Inl CableTimedOut) c1
                else (let (announced2, c2) = announce_touch P announced c1;
                          c3 = c2\<lparr>ac_port := poll_delay P (ac_port c2)\<rparr>
                      in Next [CLA, INS_GET_RESPONSE, 0x00, 0x00, 0x00] out (polls + 1) announced2 c3))
          else if sw AND 0xFF00 = 0x6100
          then Next [0x00, 0xC0, 0x00, 0x00, ucast (sw AND 0xFF)] (out @ data) polls announced c1
          else Done (Inl (CableOther (''NFCCTAP_MSG returned SW='' @ show_sw sw))) c1)"

partial_function (option) apdu_loop ::
  "'p apdu_port \<Rightarrow> bytes \<Rightarrow> bytes \<Rightarrow> nat \<Rightarrow> bool \<Rightarrow> 'p apdu_cable
   \<Rightarrow> ((cable_error + bytes) \<times> 'p apdu_cable) option" where
  "apdu_loop P apdu out polls announced c =
     (case apdu_turn P apdu out polls announced c of
        Next apdu2 out2 polls2 announced2 c2 \<Rightarrow> apdu_loop P apdu2 out2 polls2 announced2 c2
      | Done r c2 \<Rightarrow> Some (r, c2))"

definition ctap_msg ::
  "'p apdu_port \<Rightarrow> 'p apdu_cable \<Rightarrow> bytes \<Rightarrow> ((cable_error + bytes) \<times> 'p apdu_cable) option" where
  "ctap_msg P c payload =
     (let (announced, c1) = announce_touch P False c
      in case first_command_apdu payload of
           Inl e \<Rightarrow> Some (Inl e, c1)
         | Inr apdu \<Rightarrow> apdu_loop P apdu [] 0 announced c1)"

definition apdu_cbor ::
  "'p apdu_port \<Rightarrow> 'p apdu_cable \<Rightarrow> bytes \<Rightarrow> ((cable_error + bytes) \<times> 'p apdu_cable) option" where
  "apdu_cbor P c request = map_option (apfst read_status) (ctap_msg P c request)"

definition apdu_cbor_silent ::
  "'p apdu_port \<Rightarrow> 'p apdu_cable \<Rightarrow> bytes \<Rightarrow> ((cable_error + bytes) \<times> 'p apdu_cable) option" where
  "apdu_cbor_silent P c request = apdu_cbor P (c\<lparr>ac_touch := None\<rparr>) request"

definition apdu_exchange ::
  "'p apdu_port \<Rightarrow> 'p apdu_cable \<Rightarrow> bytes \<Rightarrow> touch_kind option
   \<Rightarrow> ((cable_error + bytes) \<times> 'p apdu_cable) option" where
  "apdu_exchange P c request touch = apdu_cbor P (c\<lparr>ac_touch := touch\<rparr>) request"

definition apdu_open :: "'p apdu_port \<Rightarrow> 'p \<Rightarrow> cable_error + 'p apdu_cable" where
  "apdu_open P port =
     (case transceive P \<lparr>ac_port = port, ac_touch = None, ac_on_touch = False, ac_log = []\<rparr>
             ([0x00, 0xA4, 0x04, 0x00, of_nat (length FIDO_AID)] @ FIDO_AID) of
        (Inl e, _) \<Rightarrow> Inl e
      | (Inr (_, sw), c) \<Rightarrow>
          if sw \<noteq> SW_OK then Inl (CableOther (''SELECT FIDO applet failed: SW='' @ show_sw sw))
          else Inr c)"

definition apdu_on_touch :: "'p apdu_cable \<Rightarrow> 'p apdu_cable" where
  "apdu_on_touch c = c\<lparr>ac_on_touch := True\<rparr>"

section \<open>The prompt\<close>

definition apdu_announced :: "bool \<Rightarrow> 'p apdu_cable \<Rightarrow> 'p apdu_cable \<Rightarrow> bool" where
  "apdu_announced before c c' \<longleftrightarrow>
     ac_log c' = ac_log c
     \<or> (\<not> before \<and> (\<exists>kind name. ac_touch c = Some kind \<and> ac_log c' = ac_log c @ [(kind, name)]))"

lemma transceive_keeps: "transceive P c apdu = (r, c') \<Longrightarrow> ac_log c' = ac_log c \<and> ac_touch c' = ac_touch c"
  by (auto simp: transceive_def Let_def split: prod.splits sum.splits if_splits)

lemma announce_touch_announces:
  "announce_touch P b c = (b', c') \<Longrightarrow> apdu_announced b c c' \<and> ac_touch c' = ac_touch c
     \<and> (b \<longrightarrow> b') \<and> (ac_log c' \<noteq> ac_log c \<longrightarrow> b')"
  by (auto simp: announce_touch_def apdu_announced_def split: if_splits option.splits)

lemma apdu_turn_announces:
  "apdu_turn P apdu out n b c = Next apdu' out' n' b' c' \<Longrightarrow>
     apdu_announced b c c' \<and> ac_touch c' = ac_touch c \<and> (b \<longrightarrow> b') \<and> (ac_log c' \<noteq> ac_log c \<longrightarrow> b')"
  "apdu_turn P apdu out n b c = Done r c' \<Longrightarrow> apdu_announced b c c'"
proof -
  obtain res c1 where tr: "transceive P c apdu = (res, c1)" by force
  obtain b2 c2 where an: "announce_touch P b c1 = (b2, c2)" by force
  note keeps = transceive_keeps [OF tr] announce_touch_announces [OF an]
  show "apdu_turn P apdu out n b c = Next apdu' out' n' b' c' \<Longrightarrow>
     apdu_announced b c c' \<and> ac_touch c' = ac_touch c \<and> (b \<longrightarrow> b') \<and> (ac_log c' \<noteq> ac_log c \<longrightarrow> b')"
    using keeps
    by (cases res) (auto simp: apdu_turn_def tr an apdu_announced_def split: if_splits prod.splits)
  show "apdu_turn P apdu out n b c = Done r c' \<Longrightarrow> apdu_announced b c c'"
    using keeps
    by (cases res) (auto simp: apdu_turn_def tr an apdu_announced_def split: if_splits prod.splits)
qed

lemma apdu_loop_announces':
  "apdu_loop P apdu out n b c = Some y \<Longrightarrow>
   (\<lambda>(((((P, apdu), out), n), b), c) y. apdu_announced b c (snd y)) (((((P, apdu), out), n), b), c) y"
proof (rule apdu_loop.raw_induct [rotated], assumption)
  fix loop :: "'a apdu_port \<Rightarrow> bytes \<Rightarrow> bytes \<Rightarrow> nat \<Rightarrow> bool \<Rightarrow> 'a apdu_cable
      \<Rightarrow> ((cable_error + bytes) \<times> 'a apdu_cable) option"
    and P apdu out n b c y
  assume IH: "\<And>P apdu out n b c y. loop P apdu out n b c = Some y \<Longrightarrow>
      (\<lambda>(((((P, apdu), out), n), b), c) y. apdu_announced b c (snd y)) (((((P, apdu), out), n), b), c) y"
    and body: "(case apdu_turn P apdu out n b c of
        Next apdu2 out2 n2 b2 c2 \<Rightarrow> loop P apdu2 out2 n2 b2 c2
      | Done r c2 \<Rightarrow> Some (r, c2)) = Some y"
  have "apdu_announced b c (snd y)"
  proof (cases "apdu_turn P apdu out n b c")
    case (Next apdu2 out2 n2 b2 c2)
    with body IH [of P apdu2 out2 n2 b2 c2 y] have "apdu_announced b2 c2 (snd y)" by simp
    with apdu_turn_announces(1) [OF Next] show ?thesis by (auto simp: apdu_announced_def)
  next
    case (Done r c2)
    with body apdu_turn_announces(2) [OF Done] show ?thesis by auto
  qed
  then show "(\<lambda>(((((P, apdu), out), n), b), c) y. apdu_announced b c (snd y)) (((((P, apdu), out), n), b), c) y"
    by simp
qed

lemma apdu_loop_announces: "apdu_loop P apdu out n b c = Some (r, c') \<Longrightarrow> apdu_announced b c c'"
  using apdu_loop_announces' [of P apdu out n b c "(r, c')"] by simp

lemma ctap_msg_announces: "ctap_msg P c payload = Some (r, c') \<Longrightarrow> apdu_announced False c c'"
proof -
  assume msg: "ctap_msg P c payload = Some (r, c')"
  obtain b c1 where an: "announce_touch P False c = (b, c1)" by force
  note once = announce_touch_announces [OF an]
  show ?thesis
  proof (cases "first_command_apdu payload")
    case (Inl e)
    with msg an once show ?thesis by (simp add: ctap_msg_def)
  next
    case (Inr apdu)
    with msg an have "apdu_loop P apdu [] 0 b c1 = Some (r, c')" by (simp add: ctap_msg_def)
    from apdu_loop_announces [OF this] once show ?thesis by (auto simp: apdu_announced_def)
  qed
qed

interpretation apdu: cable "apdu_exchange P" ac_log for P :: "'p apdu_port"
proof
  fix c :: "'p apdu_cable" and request touch r c'
  assume "apdu_exchange P c request touch = Some (r, c')"
  then obtain r0 where "ctap_msg P (c\<lparr>ac_touch := touch\<rparr>) request = Some (r0, c')"
    by (auto simp: apdu_exchange_def apdu_cbor_def)
  from ctap_msg_announces [OF this]
  show "ac_log c' = ac_log c \<or> (\<exists>kind name. touch = Some kind \<and> ac_log c' = ac_log c @ [(kind, name)])"
    by (simp add: apdu_announced_def)
qed

section \<open>A card that answers\<close>

lemma apdu_loop_Next:
  "apdu_turn P apdu out n b c = Next apdu2 out2 n2 b2 c2 \<Longrightarrow>
     apdu_loop P apdu out n b c = apdu_loop P apdu2 out2 n2 b2 c2"
  by (subst apdu_loop.simps) simp

lemma apdu_loop_Done: "apdu_turn P apdu out n b c = Done r c2 \<Longrightarrow> apdu_loop P apdu out n b c = Some (r, c2)"
  by (subst apdu_loop.simps) simp

definition status_word :: "u8 \<Rightarrow> u8 \<Rightarrow> u16" where
  "status_word hi lo = push_bit 8 (ucast hi) OR ucast lo"

lemma low_byte_masked: "(ucast (lo :: u8) :: u16) AND 0xFF00 = 0"
proof -
  have "(ucast lo :: u16) = ucast lo AND mask 8"
    by (rule bit_word_eqI) (auto simp: bit_simps dest: bit_imp_le_length)
  then have "(ucast lo :: u16) AND 0xFF00 = (ucast lo AND mask 8) AND 0xFF00" by simp
  also have "\<dots> = ucast lo AND (mask 8 AND 0xFF00)" by (rule and.assoc)
  also have "(mask 8 AND 0xFF00 :: u16) = 0" by (simp add: mask_eq_exp_minus_1)
  finally show ?thesis by simp
qed

lemma high_byte_masked: "push_bit 8 (ucast (hi :: u8) :: u16) AND 0xFF00 = push_bit 8 (ucast hi)"
proof -
  define x where "x = push_bit 8 (ucast hi :: u16)"
  have "(0xFF :: u16) = mask 8" by (simp add: mask_eq_exp_minus_1)
  moreover have "x AND mask 8 = 0"
    unfolding x_def by (rule bit_word_eqI) (auto simp: bit_simps simp del: mask_numeral)
  ultimately have low: "x AND 0xFF = 0" by simp
  have "x AND 0xFF00 = (x AND 0xFF00) OR (x AND 0xFF)" by (simp only: low or.right_neutral)
  also have "\<dots> = x AND (0xFF00 OR 0xFF)" by (rule bit.conj_disj_distrib [symmetric])
  also have "(0xFF00 OR 0xFF :: u16) = -1" by simp
  finally show ?thesis by (simp only: x_def and.right_neutral)
qed

lemma status_word_chained: "status_word hi lo AND 0xFF00 = 0x6100 \<longleftrightarrow> hi = 0x61"
proof -
  have "status_word hi lo AND 0xFF00 = push_bit 8 (ucast hi)"
    by (simp add: status_word_def bit.conj_disj_distrib2 high_byte_masked low_byte_masked)
  moreover have "push_bit 8 (ucast hi :: u16) = 0x6100 \<longleftrightarrow> hi = 0x61"
  proof
    assume eq: "push_bit 8 (ucast hi :: u16) = 0x6100"
    show "hi = 0x61"
    proof (rule bit_word_eqI)
      fix n
      assume "n < LENGTH(8)"
      have "bit (push_bit 8 (ucast hi :: u16)) (n + 8) = bit (push_bit 8 (ucast (0x61 :: u8) :: u16)) (n + 8)"
        using eq by simp
      with \<open>n < LENGTH(8)\<close> show "bit hi n = bit (0x61 :: u8) n"
        by (simp add: bit_push_bit_iff bit_ucast_iff del: push_bit_numeral)
    qed
  qed simp
  ultimately show ?thesis by simp
qed

lemma transceive_response:
  assumes "transmit P (ac_port c) apdu = (Inr (data @ [hi, lo]), p)"
  shows "transceive P c apdu = (Inr (data, status_word hi lo), c\<lparr>ac_port := p\<rparr>)"
  using assms by (simp add: transceive_def status_word_def nth_append)

text \<open>A card that gives a script of responses and then is gone.\<close>

definition card_port :: "(bytes list) apdu_port" where
  "card_port =
     \<lparr>transmit = \<lambda>p apdu. (case p of [] \<Rightarrow> (Inl NoCard, p) | r # rs \<Rightarrow> (Inr r, rs)),
      poll_delay = \<lambda>p. p, apdu_product = \<lambda>p. ''Fake Card'', apdu_path = \<lambda>p. ''card:0''\<rparr>"

datatype reply_part = Wait | Part bytes u8

fun part_response :: "reply_part \<Rightarrow> bytes" where
  "part_response Wait = [0x91, 0x00]"
| "part_response (Part data left) = data @ [0x61, left]"

fun part_data :: "reply_part \<Rightarrow> bytes" where
  "part_data Wait = []"
| "part_data (Part data left) = data"

definition waits :: "reply_part list \<Rightarrow> nat" where
  "waits ps = length (filter (\<lambda>p. p = Wait) ps)"

lemma apdu_loop_script:
  assumes "ac_port c = map part_response ps @ [data @ [0x90, 0x00]] @ rs" and "n \<le> MAX_POLLS"
  shows "\<exists>c'. apdu_loop card_port apdu out n b c =
    Some (if n + waits ps \<le> MAX_POLLS then Inr (out @ concat (map part_data ps) @ data) else Inl CableTimedOut, c')
    \<and> (n + waits ps \<le> MAX_POLLS \<longrightarrow> ac_port c' = rs)"
  using assms
proof (induction ps arbitrary: apdu out n b c)
  case Nil
  then have "transmit card_port (ac_port c) apdu = (Inr (data @ [0x90, 0x00]), rs)"
    by (simp add: card_port_def)
  from transceive_response [OF this]
  have "apdu_turn card_port apdu out n b c = Done (Inr (out @ data)) (c\<lparr>ac_port := rs\<rparr>)"
    by (simp add: apdu_turn_def status_word_def SW_OK_def)
  from apdu_loop_Done [OF this] show ?case
    using Nil.prems(2) by (simp add: waits_def)
next
  case (Cons p ps)
  define tail where "tail = map part_response ps @ [data @ [0x90, 0x00]] @ rs"
  have tr: "transmit card_port (ac_port c) apdu = (Inr (part_response p), tail)"
    using Cons.prems by (simp add: card_port_def tail_def)
  show ?case
  proof (cases p)
    case Wait
    with tr have "transmit card_port (ac_port c) apdu = (Inr ([] @ [0x91, 0x00]), tail)" by simp
    note resp = transceive_response [OF this]
    have sw: "status_word 0x91 0x00 = SW_KEEPALIVE" "SW_KEEPALIVE \<noteq> SW_OK"
      by (simp_all add: status_word_def SW_KEEPALIVE_def SW_OK_def)
    show ?thesis
    proof (cases "MAX_POLLS < n + 1")
      case True
      then have "apdu_turn card_port apdu out n b c = Done (Inl CableTimedOut) (c\<lparr>ac_port := tail\<rparr>)"
        by (simp add: apdu_turn_def resp sw)
      from apdu_loop_Done [OF this] True Wait show ?thesis by (simp add: waits_def)
    next
      case False
      obtain b2 c2 where an: "announce_touch card_port b (c\<lparr>ac_port := tail\<rparr>) = (b2, c2)" by force
      then have port: "ac_port c2 = tail"
        by (auto simp: announce_touch_def split: if_splits option.splits)
      define c3 where "c3 = c2\<lparr>ac_port := poll_delay card_port (ac_port c2)\<rparr>"
      have "apdu_turn card_port apdu out n b c =
          Next [CLA, INS_GET_RESPONSE, 0x00, 0x00, 0x00] out (n + 1) b2 c3"
        using False by (simp add: apdu_turn_def resp sw an c3_def)
      moreover have "ac_port c3 = tail" by (simp add: c3_def port card_port_def)
      ultimately show ?thesis
        using False Cons.IH [of c3 "n + 1" "[CLA, INS_GET_RESPONSE, 0x00, 0x00, 0x00]" out b2] Wait
        by (auto simp: apdu_loop_Next tail_def waits_def split: if_splits)
    qed
  next
    case (Part d left)
    with tr have "transmit card_port (ac_port c) apdu = (Inr (d @ [0x61, left]), tail)" by simp
    note resp = transceive_response [OF this]
    have ne: "status_word 0x61 left \<noteq> SW_OK" "status_word 0x61 left \<noteq> SW_KEEPALIVE"
      using status_word_chained [of "0x61" left] by (auto simp: SW_OK_def SW_KEEPALIVE_def)
    have "apdu_turn card_port apdu out n b c =
        Next [0x00, 0xC0, 0x00, 0x00, ucast (status_word 0x61 left AND 0xFF)] (out @ d) n b (c\<lparr>ac_port := tail\<rparr>)"
      using status_word_chained [of "0x61" left] ne by (simp add: apdu_turn_def resp)
    then show ?thesis
      using Cons.IH [of "c\<lparr>ac_port := tail\<rparr>" n
          "[0x00, 0xC0, 0x00, 0x00, ucast (status_word 0x61 left AND 0xFF)]" "out @ d" b] Part Cons.prems(2)
      by (auto simp: apdu_loop_Next tail_def waits_def split: if_splits)
  qed
qed

section \<open>Properties\<close>

lemma first_command_fits: "length request \<le> 0xFFFF \<Longrightarrow> \<exists>apdu. first_command_apdu request = Inr apdu"
  by (simp add: first_command_apdu_def)

text \<open>
  A card's answer is assembled whole. However the card splits the reply into chained parts and
  however it interleaves at most 300 keepalives, the body behind the success status is returned; with
  one keepalive more the exchange ends as timed out.
\<close>

theorem apdu_exchange_reply:
  assumes "length request \<le> 0xFFFF" and "concat (map part_data ps) @ data = 0 # body"
    and "ac_port c = map part_response ps @ [data @ [0x90, 0x00]] @ rs"
  shows "\<exists>c'. apdu_exchange card_port c request touch =
    Some (if waits ps \<le> 300 then Inr body else Inl CableTimedOut, c')"
proof -
  obtain b c1 where an: "announce_touch card_port False (c\<lparr>ac_touch := touch\<rparr>) = (b, c1)" by force
  then have port: "ac_port c1 = map part_response ps @ [data @ [0x90, 0x00]] @ rs"
    using assms(3) by (auto simp: announce_touch_def split: if_splits option.splits)
  obtain apdu where apdu: "first_command_apdu request = Inr apdu"
    using first_command_fits [OF assms(1)] by blast
  obtain c' where "apdu_loop card_port apdu [] 0 b c1 = Some (if waits ps \<le> MAX_POLLS
      then Inr (concat (map part_data ps) @ data) else Inl CableTimedOut, c')"
    using apdu_loop_script [OF port, of 0 apdu "[]" b] by auto
  then have "ctap_msg card_port (c\<lparr>ac_touch := touch\<rparr>) request =
      Some (if waits ps \<le> MAX_POLLS then Inr (0 # body) else Inl CableTimedOut, c')"
    by (simp add: ctap_msg_def an apdu assms(2))
  then show ?thesis
    by (simp add: apdu_exchange_def apdu_cbor_def read_status_def split_response_def
        status_from_byte_def is_success_def MAX_POLLS_def)
qed

theorem apdu_exchange_reply_witness:
  "\<exists>c'. apdu_exchange card_port
      \<lparr>ac_port = [[0x91, 0x00], [0, 1, 0x61, 2], [2, 3, 0x90, 0x00]], ac_touch = None,
       ac_on_touch = True, ac_log = []\<rparr> [4] (Some Presence) = Some (Inr [1, 2, 3], c')"
  using apdu_exchange_reply [of "[4]" "[Wait, Part [0, 1] 2]" "[2, 3]" "[1, 2, 3]"
      "\<lparr>ac_port = [[0x91, 0x00], [0, 1, 0x61, 2], [2, 3, 0x90, 0x00]], ac_touch = None,
       ac_on_touch = True, ac_log = []\<rparr>" "[]" "Some Presence"]
  by (simp add: waits_def)

text \<open>Keepalives alone cannot hold an exchange; endless chaining can.\<close>

definition never_chains :: "'p apdu_port \<Rightarrow> bool" where
  "never_chains P \<longleftrightarrow> (\<forall>p apdu. case fst (transmit P p apdu) of
     Inl _ \<Rightarrow> True | Inr resp \<Rightarrow> 2 \<le> length resp \<longrightarrow> resp ! (length resp - 2) \<noteq> 0x61)"

lemma transceive_never_chains:
  assumes "never_chains P" and "transceive P c apdu = (Inr (data, sw), c1)"
  shows "sw AND 0xFF00 \<noteq> 0x6100"
proof -
  obtain resp where "fst (transmit P (ac_port c) apdu) = Inr resp" "2 \<le> length resp"
      "sw = status_word (resp ! (length resp - 2)) (resp ! (length resp - 1))"
    using assms(2) by (auto simp: transceive_def status_word_def Let_def split: prod.splits sum.splits if_splits)
  with assms(1) status_word_chained show ?thesis
    by (force simp: never_chains_def split: sum.splits dest: spec)
qed

lemma apdu_loop_returns:
  assumes "never_chains P"
  shows "apdu_loop P apdu out n b c \<noteq> None"
proof (induction "MAX_POLLS + 1 - n" arbitrary: apdu out n b c rule: less_induct)
  case less
  show ?case
  proof (cases "apdu_turn P apdu out n b c")
    case (Done r c2)
    then show ?thesis by (simp add: apdu_loop_Done)
  next
    case (Next apdu2 out2 n2 b2 c2)
    obtain res c1 where tr: "transceive P c apdu = (res, c1)" by force
    have "n2 = n + 1 \<and> n < MAX_POLLS"
    proof (cases res)
      case (Inl e)
      with Next tr show ?thesis by (simp add: apdu_turn_def)
    next
      case (Inr r)
      obtain data sw where r: "r = (data, sw)" by force
      have "sw AND 0xFF00 \<noteq> 0x6100" using transceive_never_chains [OF assms] tr Inr r by blast
      with Next tr Inr r show ?thesis
        by (auto simp: apdu_turn_def split: if_splits prod.splits)
    qed
    then have "MAX_POLLS + 1 - n2 < MAX_POLLS + 1 - n" by linarith
    from less [OF this] have "apdu_loop P apdu2 out2 n2 b2 c2 \<noteq> None" .
    with Next show ?thesis by (simp add: apdu_loop_Next)
  qed
qed

definition endless_port :: "unit apdu_port" where
  "endless_port =
     \<lparr>transmit = \<lambda>p apdu. (Inr [0x61, 0x00], p), poll_delay = \<lambda>p. p, apdu_product = \<lambda>p. [], apdu_path = \<lambda>p. []\<rparr>"



end
