(* ===== verification/WebAuthn.thy ===== *)
theory WebAuthn
  imports CtapCommands
begin

text \<open>
  \<open>webauthn.rs\<close>: the public key and the credential id inside an attestation, the acceptance rules of
  client data, the message an authenticator signs, and the recovery of a key from signatures. CBOR,
  COSE, DER and the curve are the crates' and come as a record of functions over abstract types of
  points (\<open>'v\<close>) and signatures (\<open>'s\<close>).
\<close>

section \<open>The crates\<close>

datatype cose_label = LInt int | LText string

record cose_key =
  is_ec2 :: bool
  kty_debug :: string
  cose_params :: "(cose_label \<times> cbor) list"

text \<open>
  \<open>cbor_front\<close> reads one item off the front and gives the number of bytes it read; \<open>recover\<close> takes
  the message, the signature and the recovery id.
\<close>

record ('v, 's) curve =
  cbor_value :: "bytes \<Rightarrow> string + cbor"
  cbor_front :: "bytes \<Rightarrow> string + nat"
  cose_from_slice :: "bytes \<Rightarrow> string + cose_key"
  point_from_sec1 :: "bytes \<Rightarrow> 'v option"
  point_sec1 :: "'v \<Rightarrow> bytes"
  sig_from_der :: "bytes \<Rightarrow> string + 's"
  sig_from_slice :: "bytes \<Rightarrow> string + 's"
  normalize_s :: "'s \<Rightarrow> 's"
  sig_bytes :: "'s \<Rightarrow> bytes"
  sig_der :: "'s \<Rightarrow> bytes"
  recover_point :: "bytes \<Rightarrow> 's \<Rightarrow> nat \<Rightarrow> 'v option"
  verify_prehash :: "'v \<Rightarrow> bytes \<Rightarrow> 's \<Rightarrow> bool"
  curve_sha256 :: "bytes \<Rightarrow> bytes"

section \<open>Attested credential data\<close>

text \<open>\<open>to_be_bytes\<close> read back: two bytes of a length.\<close>

definition be16 :: "u8 \<Rightarrow> u8 \<Rightarrow> nat" where
  "be16 hi lo = 256 * unat hi + unat lo"

fun find_auth_data :: "(cbor \<times> cbor) list \<Rightarrow> bytes option" where
  "find_auth_data [] = None"
| "find_auth_data ((k, v) # entries) =
     (case (k = CText ''authData'', v) of (True, CBytes bs) \<Rightarrow> Some bs | _ \<Rightarrow> find_auth_data entries)"

definition auth_data_of :: "('v, 's) curve \<Rightarrow> bytes \<Rightarrow> core_error + bytes" where
  "auth_data_of K att =
     (case cbor_value K att of
        Inl e \<Rightarrow> Inl (InvalidCbor (''attestation object: '' @ e))
      | Inr (CMap entries) \<Rightarrow>
          (case find_auth_data entries of
             None \<Rightarrow> Inl (InvalidCbor ''no authData byte string in map'')
           | Some bs \<Rightarrow> Inr bs)
      | Inr _ \<Rightarrow> Inl (InvalidCbor ''attestation object is not a CBOR map''))"

definition cbor_item_len :: "('v, 's) curve \<Rightarrow> bytes \<Rightarrow> core_error + nat" where
  "cbor_item_len K data =
     (case cbor_front K data of
        Inl e \<Rightarrow> Inl (InvalidCbor (''COSE key region: '' @ e))
      | Inr n \<Rightarrow> Inr n)"

text \<open>The loop over the parameters: the last value of each label stands.\<close>

fun cose_scan ::
  "(cose_label \<times> cbor) list \<Rightarrow> bytes option \<times> bytes option \<times> bool \<Rightarrow> bytes option \<times> bytes option \<times> bool" where
  "cose_scan [] acc = acc"
| "cose_scan ((label, v) # ps) (x, y, crv_ok) =
     cose_scan ps
       (if label = LInt (-1) then (x, y, v = CInteger 1)
        else if label = LInt (-2) then (case v of CBytes bs \<Rightarrow> Some bs | _ \<Rightarrow> None, y, crv_ok)
        else if label = LInt (-3) then (x, case v of CBytes bs \<Rightarrow> Some bs | _ \<Rightarrow> None, crv_ok)
        else (x, y, crv_ok))"

definition p256_from_cose_key :: "('v, 's) curve \<Rightarrow> cose_key \<Rightarrow> core_error + p256_public_key" where
  "p256_from_cose_key K key =
     (if \<not> is_ec2 key then Inl (InvalidCoseKey (''kty is '' @ kty_debug key @ '', expected EC2''))
      else case cose_scan (cose_params key) (None, None, False) of
          (ox, oy, crv_ok) \<Rightarrow>
            if \<not> crv_ok then Inl (InvalidCoseKey ''crv is not P-256'')
            else case (ox, oy) of
                (Some x, Some y) \<Rightarrow>
                  if length x \<noteq> 32 \<or> length y \<noteq> 32
                  then Inl (InvalidCoseKey (''coordinate lengths '' @ show_nat (length x) @ ''/''
                            @ show_nat (length y) @ '', expected 32/32''))
                  else (case point_from_sec1 K (0x04 # x @ y) of
                          None \<Rightarrow> Inl (InvalidPublicKey ''point is not on P-256'')
                        | Some _ \<Rightarrow> Inr \<lparr>pk_x = x, pk_y = y\<rparr>)
              | _ \<Rightarrow> Inl (InvalidCoseKey ''missing x/y coordinates''))"

definition extract_attestation_public_key :: "('v, 's) curve \<Rightarrow> bytes \<Rightarrow> core_error + p256_public_key" where
  "extract_attestation_public_key K att =
     (case auth_data_of K att of
        Inl e \<Rightarrow> Inl e
      | Inr auth_data \<Rightarrow>
          if length auth_data \<le> 37
          then Inl (InvalidCbor (''authData too short: '' @ show_nat (length auth_data) @ '' bytes''))
          else if auth_data ! 32 AND 0x40 = 0
          then Inl (InvalidCbor (''AT flag not set '' @ [CHR 0xE2, CHR 0x80, CHR 0x94] @ '' no attested credential data''))
          else if length auth_data \<le> 55
          then Inl (InvalidCbor ''authData truncated before credential id'')
          else (let cred_id_len = be16 (auth_data ! 53) (auth_data ! 54);
                    cose_offset = 55 + cred_id_len
                in if length auth_data \<le> cose_offset
                   then Inl (InvalidCbor ''authData truncated before COSE key'')
                   else (let cose_slice = drop cose_offset auth_data
                         in case cbor_item_len K cose_slice of
                              Inl e \<Rightarrow> Inl e
                            | Inr key_len \<Rightarrow>
                                (case cose_from_slice K (take key_len cose_slice) of
                                   Inl e \<Rightarrow> Inl (InvalidCoseKey (''COSE parse: '' @ e))
                                 | Inr key \<Rightarrow> p256_from_cose_key K key))))"

definition attested_credential_id :: "bytes \<Rightarrow> core_error + bytes" where
  "attested_credential_id auth_data =
     (if length auth_data \<le> 55
      then Inl (InvalidCbor (''authData too short for attested credential data: '' @ show_nat (length auth_data) @ '' bytes''))
      else if auth_data ! 32 AND 0x40 = 0
      then Inl (InvalidCbor (''AT flag not set '' @ [CHR 0xE2, CHR 0x80, CHR 0x94] @ '' no attested credential data''))
      else (let len = be16 (auth_data ! 53) (auth_data ! 54)
            in if 55 + len \<le> length auth_data then Inr (subslice 55 (55 + len) auth_data)
               else Inl (InvalidCbor (''authData declares a '' @ show_nat len
                         @ ''-byte credential id it does not contain''))))"

definition extract_attestation :: "('v, 's) curve \<Rightarrow> string \<Rightarrow> core_error + string" where
  "extract_attestation K attestation_object_hex =
     (case from_hex attestation_object_hex of
        Inl e \<Rightarrow> Inl e
      | Inr bs \<Rightarrow>
     (case auth_data_of K bs of
        Inl e \<Rightarrow> Inl e
      | Inr auth_data \<Rightarrow>
          if length auth_data \<le> 32 then Inl (InvalidCbor ''authData has no flags byte'')
          else (let flags = auth_data ! 32
                in if flags AND 0x40 = 0 \<or> length auth_data < 53
                   then Inl (InvalidCbor ''no attested credential data (AAGUID) in authData'')
                   else Inr (to_hex ([1] @ subslice 37 53 auth_data @ [flags] @ [0x00, 0x00]) False))))"

section \<open>Client data\<close>

datatype client_data_kind = Create | Get

definition GET_PREFIX :: bytes where
  \<open>GET_PREFIX = as_bytes ''{"type":"webauthn.get","challenge":"''\<close>

definition CREATE_PREFIX :: bytes where
  \<open>CREATE_PREFIX = as_bytes ''{"type":"webauthn.create","challenge":"''\<close>

definition validate_client_data :: "client_data_kind \<Rightarrow> bytes \<Rightarrow> bytes \<Rightarrow> core_error + unit" where
  "validate_client_data kind client_data_json authenticator_data =
     (let prefix = (case kind of Get \<Rightarrow> GET_PREFIX | Create \<Rightarrow> CREATE_PREFIX)
      in if take (length prefix) client_data_json \<noteq> prefix
         then Inl (InvalidClientData ''clientDataJSON field order incompatible (prefix mismatch)'')
         else if client_data_json = [] \<or> last client_data_json \<noteq> 0x7D
         then Inl (InvalidClientData (''clientDataJSON does not end with }''))
         else if kind = Get \<and> length authenticator_data < 33
         then Inl (InvalidClientData ''authenticatorData too short'')
         else if kind = Get \<and> authenticator_data ! 32 AND 0x04 \<noteq> 0x04
         then Inl (InvalidClientData (''User Verification flag not set (flags=0x''
                   @ show_hex (unat (authenticator_data ! 32)) @ '')''))
         else Inr ())"

definition webauthn_signing_hash :: "('v, 's) curve \<Rightarrow> bytes \<Rightarrow> bytes \<Rightarrow> bytes" where
  "webauthn_signing_hash K authenticator_data client_data_json =
     curve_sha256 K (authenticator_data @ curve_sha256 K client_data_json)"

section \<open>Signatures and recovery\<close>

record web_authn_assertion =
  wa_authenticator_data :: bytes
  wa_client_data_json :: bytes
  wa_signature_der :: bytes

definition der_signature_to_raw_low_s :: "('v, 's) curve \<Rightarrow> bytes \<Rightarrow> core_error + bytes" where
  "der_signature_to_raw_low_s K der =
     (case sig_from_der K der of
        Inl e \<Rightarrow> Inl (InvalidSignature (''DER parse: '' @ e))
      | Inr sig \<Rightarrow> Inr (sig_bytes K (normalize_s K sig)))"

fun candidate_points :: "('v, 's) curve \<Rightarrow> bytes \<Rightarrow> 's \<Rightarrow> nat list \<Rightarrow> 'v list \<Rightarrow> 'v list" where
  "candidate_points K prehash sig [] out = out"
| "candidate_points K prehash sig (recid # ids) out =
     candidate_points K prehash sig ids
       (case recover_point K prehash sig recid of
          None \<Rightarrow> out
        | Some key \<Rightarrow> if verify_prehash K key prehash sig \<and> key \<notin> set out then out @ [key] else out)"

definition candidates :: "('v, 's) curve \<Rightarrow> bytes \<Rightarrow> bytes \<Rightarrow> core_error + 'v list" where
  "candidates K raw_sig prehash =
     (case sig_from_slice K raw_sig of
        Inl e \<Rightarrow> Inl (InvalidSignature (''r'' @ [CHR 0xE2, CHR 0x80, CHR 0x96] @ ''s parse: '' @ e))
      | Inr sig \<Rightarrow> Inr (candidate_points K prehash sig [0, 1, 2, 3] []))"

definition recover_public_key_from_assertions ::
  "('v, 's) curve \<Rightarrow> web_authn_assertion \<Rightarrow> web_authn_assertion \<Rightarrow> core_error + p256_public_key option" where
  "recover_public_key_from_assertions K a b =
     (case der_signature_to_raw_low_s K (wa_signature_der a) of
        Inl e \<Rightarrow> Inl e
      | Inr raw_a \<Rightarrow>
     (case der_signature_to_raw_low_s K (wa_signature_der b) of
        Inl e \<Rightarrow> Inl e
      | Inr raw_b \<Rightarrow>
          if raw_a = raw_b then Inr None
          else
     (case candidates K raw_a (webauthn_signing_hash K (wa_authenticator_data a) (wa_client_data_json a)) of
        Inl e \<Rightarrow> Inl e
      | Inr candidates_a \<Rightarrow>
     (case candidates K raw_b (webauthn_signing_hash K (wa_authenticator_data b) (wa_client_data_json b)) of
        Inl e \<Rightarrow> Inl e
      | Inr candidates_b \<Rightarrow>
          (case filter (\<lambda>k. k \<in> set candidates_b) candidates_a of
             [key] \<Rightarrow>
               (let bs = point_sec1 K key
                in if length bs \<noteq> 65 then Inl (Internal (''unexpected SEC1 point length '' @ show_nat (length bs)))
                   else Inr (Some \<lparr>pk_x = subslice 1 33 bs, pk_y = subslice 33 65 bs\<rparr>))
           | _ \<Rightarrow> Inr None)))))"

fun candidate_hexes :: "('v, 's) curve \<Rightarrow> 'v list \<Rightarrow> core_error + string list" where
  "candidate_hexes K [] = Inr []"
| "candidate_hexes K (key # keys) =
     (let bs = point_sec1 K key
      in if length bs \<noteq> 65 then Inl (Internal (''unexpected SEC1 point length '' @ show_nat (length bs)))
         else map_sum id ((#) (to_hex bs False)) (candidate_hexes K keys))"

definition recover_candidates :: "('v, 's) curve \<Rightarrow> web_authn_assertion \<Rightarrow> core_error + string list" where
  "recover_candidates K assertion =
     (case der_signature_to_raw_low_s K (wa_signature_der assertion) of
        Inl e \<Rightarrow> Inl e
      | Inr raw \<Rightarrow>
     (case candidates K raw (webauthn_signing_hash K (wa_authenticator_data assertion) (wa_client_data_json assertion)) of
        Inl e \<Rightarrow> Inl e
      | Inr keys \<Rightarrow> candidate_hexes K keys))"

section \<open>What an attestation carries\<close>

text \<open>Authenticator data laid out as the WebAuthn specification lays it out.\<close>

definition attested_data :: "bytes \<Rightarrow> u8 \<Rightarrow> bytes \<Rightarrow> bytes \<Rightarrow> u8 \<Rightarrow> u8 \<Rightarrow> bytes \<Rightarrow> bytes \<Rightarrow> bytes \<Rightarrow> bytes" where
  "attested_data rp flags counter aaguid hi lo cred cose ext =
     rp @ [flags] @ counter @ aaguid @ [hi, lo] @ cred @ cose @ ext"

lemma attested_data_at:
  fixes rp counter aaguid cred cose ext :: bytes and flags hi lo :: u8
  assumes "length rp = 32" and "length counter = 4" and "length aaguid = 16"
  defines "d \<equiv> attested_data rp flags counter aaguid hi lo cred cose ext"
  shows "d ! 32 = flags" "subslice 37 53 d = aaguid" "d ! 53 = hi" "d ! 54 = lo"
    "subslice 55 (55 + length cred) d = cred" "drop (55 + length cred) d = cose @ ext"
    "length d = 55 + length cred + length cose + length ext"
proof -
  have front: "d = (rp @ [flags] @ counter) @ aaguid @ hi # lo # cred @ cose @ ext"
      "d = (rp @ [flags] @ counter @ aaguid) @ hi # lo # cred @ cose @ ext"
      "d = (rp @ [flags] @ counter @ aaguid @ [hi, lo]) @ cred @ cose @ ext"
      "d = (rp @ [flags] @ counter @ aaguid @ [hi, lo] @ cred) @ cose @ ext"
    by (simp_all add: d_def attested_data_def)
  show "d ! 32 = flags" using assms(1) by (simp add: d_def attested_data_def nth_append)
  show "subslice 37 53 d = aaguid" using assms(1-3) by (subst front(1)) (simp add: subslice_def)
  show "d ! 53 = hi" "d ! 54 = lo" using assms(1-3) by (subst front(2), simp add: nth_append)+
  show "subslice 55 (55 + length cred) d = cred" using assms(1-3) by (subst front(3)) (simp add: subslice_def)
  show "drop (55 + length cred) d = cose @ ext"
    using assms(1-3) by (subst front(4)) (rule drop_append_exact, simp)
  show "length d = 55 + length cred + length cose + length ext"
    using assms(1-3) by (simp add: d_def attested_data_def)
qed

lemma find_auth_data_attestation:
  "auth_data_of K obj = Inr (mr_auth_data r)" if "cbor_value K obj = Inr (attestation_value r)"
  using that by (simp add: auth_data_of_def attestation_value_def)

section \<open>What recovery means\<close>

lemma candidate_points_props:
  "distinct out \<Longrightarrow> distinct (candidate_points K h sig ids out)"
  "set (candidate_points K h sig ids out) =
     set out \<union> {key. (\<exists>i\<in>set ids. recover_point K h sig i = Some key) \<and> verify_prehash K key h sig}"
proof -
  show "distinct out \<Longrightarrow> distinct (candidate_points K h sig ids out)"
    by (induction ids arbitrary: out) (auto split: option.splits)
  show "set (candidate_points K h sig ids out) =
     set out \<union> {key. (\<exists>i\<in>set ids. recover_point K h sig i = Some key) \<and> verify_prehash K key h sig}"
    by (induction ids arbitrary: out) (auto split: option.splits)
qed

text \<open>A key an assertion could have been signed by, and that verifies it.\<close>

definition could_sign :: "('v, 's) curve \<Rightarrow> web_authn_assertion \<Rightarrow> 's \<Rightarrow> 'v \<Rightarrow> bool" where
  "could_sign K a sig key \<longleftrightarrow>
     (let h = webauthn_signing_hash K (wa_authenticator_data a) (wa_client_data_json a)
      in (\<exists>i\<in>{0, 1, 2, 3}. recover_point K h sig i = Some key) \<and> verify_prehash K key h sig)"

lemma candidates_eq:
  assumes "candidates K raw (webauthn_signing_hash K (wa_authenticator_data a) (wa_client_data_json a)) = Inr keys"
  obtains sig where "sig_from_slice K raw = Inr sig" "distinct keys" "set keys = {key. could_sign K a sig key}"
proof -
  obtain sig where sig: "sig_from_slice K raw = Inr sig"
    using assms by (auto simp: candidates_def split: sum.splits)
  define h where "h = webauthn_signing_hash K (wa_authenticator_data a) (wa_client_data_json a)"
  have keys: "keys = candidate_points K h sig [0, 1, 2, 3] []"
    using assms sig by (simp add: candidates_def h_def del: candidate_points.simps)
  show thesis
  proof (rule that [OF sig])
    show "distinct keys" unfolding keys by (rule candidate_points_props(1)) simp
    show "set keys = {key. could_sign K a sig key}"
      unfolding keys candidate_points_props(2) could_sign_def Let_def h_def by auto
  qed
qed

lemma filter_singleton:
  assumes "filter P xs = [x]"
  shows "x \<in> set xs" "P x" "\<forall>y\<in>set xs. P y \<longrightarrow> y = x"
proof -
  have "set (filter P xs) = {x}" using assms by simp
  then show "x \<in> set xs" "P x" "\<forall>y\<in>set xs. P y \<longrightarrow> y = x" by auto
qed

lemma recovered_key:
  assumes "recover_public_key_from_assertions K a b = Inr (Some pk)"
  obtains raw_a raw_b sa sb key where
    "der_signature_to_raw_low_s K (wa_signature_der a) = Inr raw_a"
    "der_signature_to_raw_low_s K (wa_signature_der b) = Inr raw_b" "raw_a \<noteq> raw_b"
    "sig_from_slice K raw_a = Inr sa" "sig_from_slice K raw_b = Inr sb"
    "could_sign K a sa key" "could_sign K b sb key"
    "\<forall>k. could_sign K a sa k \<and> could_sign K b sb k \<longrightarrow> k = key"
    "length (point_sec1 K key) = 65" "drop 1 (point_sec1 K key) = pk_x pk @ pk_y pk"
proof -
  from assms obtain raw_a raw_b ka kb where
    raws: "der_signature_to_raw_low_s K (wa_signature_der a) = Inr raw_a"
      "der_signature_to_raw_low_s K (wa_signature_der b) = Inr raw_b" "raw_a \<noteq> raw_b"
    and ka: "candidates K raw_a (webauthn_signing_hash K (wa_authenticator_data a) (wa_client_data_json a)) = Inr ka"
    and kb: "candidates K raw_b (webauthn_signing_hash K (wa_authenticator_data b) (wa_client_data_json b)) = Inr kb"
    by (auto simp: recover_public_key_from_assertions_def split: sum.splits if_splits)
  with assms obtain key where shared: "filter (\<lambda>k. k \<in> set kb) ka = [key]"
      and pk: "length (point_sec1 K key) = 65"
        "pk = \<lparr>pk_x = subslice 1 33 (point_sec1 K key), pk_y = subslice 33 65 (point_sec1 K key)\<rparr>"
    by (auto simp: recover_public_key_from_assertions_def Let_def split: list.splits if_splits)
  obtain sa where sa: "sig_from_slice K raw_a = Inr sa" "set ka = {k. could_sign K a sa k}"
    by (rule candidates_eq [OF ka])
  obtain sb where sb: "sig_from_slice K raw_b = Inr sb" "set kb = {k. could_sign K b sb k}"
    by (rule candidates_eq [OF kb])
  have "drop 1 (point_sec1 K key) = subslice 1 33 (point_sec1 K key) @ subslice 33 65 (point_sec1 K key)"
  proof -
    define bs where "bs = drop 1 (point_sec1 K key)"
    have "length bs = 64" using pk(1) by (simp add: bs_def)
    then have "bs = take 32 bs @ take 32 (drop 32 bs)" by (simp add: take_all)
    then show ?thesis by (simp add: bs_def subslice_def)
  qed
  moreover have "pk_x pk = subslice 1 33 (point_sec1 K key)" "pk_y pk = subslice 33 65 (point_sec1 K key)"
    by (simp_all add: pk(2))
  ultimately have sec1: "drop 1 (point_sec1 K key) = pk_x pk @ pk_y pk" by simp
  note one = filter_singleton [OF shared, unfolded sa(2) sb(2)]
  have "could_sign K a sa key" "could_sign K b sb key"
    "\<forall>k. could_sign K a sa k \<and> could_sign K b sb k \<longrightarrow> k = key"
    using one by blast+
  then show thesis by (rule that [OF raws sa(1) sb(1) _ _ _ pk(1) sec1])
qed

section \<open>Properties\<close>

text \<open>
  What an authenticator attests is what the wallet stores. From authenticator data laid out as the
  specification lays it out the credential id, the public key and the registry's 20-byte attestation
  are exactly the authenticator's, whatever extensions follow the key.
\<close>

theorem attestation_read_back:
  assumes "length rp = 32" and "length counter = 4" and "length aaguid = 16" and "flags AND 0x40 \<noteq> 0"
    and "length cred = be16 hi lo" and "cose \<noteq> []"
    and "mr_auth_data r = attested_data rp flags counter aaguid hi lo cred cose ext"
    and "attestation_object ser r = Inr obj" and "cbor_value K obj = Inr (attestation_value r)"
    and "cbor_front K (cose @ ext) = Inr (length cose)" and "cose_from_slice K cose = Inr key"
  shows "extract_attestation_public_key K obj = p256_from_cose_key K key
    \<and> attested_credential_id (mr_auth_data r) = Inr cred
    \<and> extract_attestation K (to_hex obj p) = Inr (to_hex ([1] @ aaguid @ [flags, 0, 0]) False)"
proof -
  note at = attested_data_at [OF assms(1-3), where flags = flags and hi = hi and lo = lo and cred = cred
      and cose = cose and ext = ext]
  have d: "auth_data_of K obj = Inr (attested_data rp flags counter aaguid hi lo cred cose ext)"
    using find_auth_data_attestation [OF assms(9)] assms(7) by simp
  have "0 < length cose" using assms(6) by simp
  then have "extract_attestation_public_key K obj = p256_from_cose_key K key"
    using assms(4,10,11)
    by (simp add: extract_attestation_public_key_def d at Let_def assms(5) [symmetric] cbor_item_len_def)
  moreover have "attested_credential_id (mr_auth_data r) = Inr cred"
    using assms(4) \<open>0 < length cose\<close>
    by (simp add: attested_credential_id_def assms(7) at Let_def assms(5) [symmetric])
  moreover have "extract_attestation K (to_hex obj p) = Inr (to_hex ([1] @ aaguid @ [flags, 0, 0]) False)"
    using assms(4) by (simp add: extract_attestation_def from_hex_to_hex d at Let_def)
  ultimately show ?thesis by blast
qed

text \<open>
  A toy instance: a point and a signature are their bytes, a signature's first byte is its key, and
  the readers give a fixed value, length and key.
\<close>

definition toy_curve :: "cbor \<Rightarrow> nat \<Rightarrow> (bytes, bytes) curve" where
  "toy_curve v n =
     \<lparr>cbor_value = \<lambda>_. Inr v, cbor_front = \<lambda>_. Inr n,
      cose_from_slice = \<lambda>_. Inr \<lparr>is_ec2 = True, kty_debug = ''EC2'',
        cose_params = [(LInt (-1), CInteger 1), (LInt (-2), CBytes (replicate 32 1)), (LInt (-3), CBytes (replicate 32 2))]\<rparr>,
      point_from_sec1 = \<lambda>bs. if length bs = 65 then Some bs else None, point_sec1 = \<lambda>p. p,
      sig_from_der = \<lambda>der. if length der = 64 then Inr der else Inl ''der'',
      sig_from_slice = \<lambda>s. if length s = 64 then Inr s else Inl ''raw'',
      normalize_s = \<lambda>s. s, sig_bytes = \<lambda>s. s, sig_der = \<lambda>s. s,
      recover_point = \<lambda>h s i. if i = 0 then Some (4 # take 1 s @ zeros 63) else None,
      verify_prehash = \<lambda>p h s. take 1 (drop 1 p) = take 1 s,
      curve_sha256 = \<lambda>m. take 32 (m @ zeros 32)\<rparr>"

theorem attestation_read_back_witness:
  "attested_credential_id (attested_data (zeros 32) 0x45 (zeros 4) (replicate 16 9) 0 2 [5, 6] [0xA0] [0xA1, 1]) = Inr [5, 6]
   \<and> extract_attestation_public_key
      (toy_curve (attestation_value \<lparr>mr_fmt = ''none'',
          mr_auth_data = attested_data (zeros 32) 0x45 (zeros 4) (replicate 16 9) 0 2 [5, 6] [0xA0] [0xA1, 1],
          mr_att_stmt = CMap []\<rparr>) 1) [1] = Inr \<lparr>pk_x = replicate 32 1, pk_y = replicate 32 2\<rparr>"
proof -
  let ?d = "attested_data (zeros 32) 0x45 (zeros 4) (replicate 16 9) 0 2 [5, 6] [0xA0] [0xA1, 1]"
  let ?r = "\<lparr>mr_fmt = ''none'', mr_auth_data = ?d, mr_att_stmt = CMap []\<rparr>"
  let ?K = "toy_curve (attestation_value ?r) 1"
  let ?key = "\<lparr>is_ec2 = True, kty_debug = ''EC2'', cose_params =
    [(LInt (-1), CInteger 1), (LInt (-2), CBytes (replicate 32 1)), (LInt (-3), CBytes (replicate 32 2))]\<rparr>"
  have "extract_attestation_public_key ?K [1] = p256_from_cose_key ?K ?key
    \<and> attested_credential_id (mr_auth_data ?r) = Inr [5, 6]
    \<and> extract_attestation ?K (to_hex [1] False) = Inr (to_hex ([1] @ replicate 16 9 @ [0x45, 0, 0]) False)"
    by (rule attestation_read_back [where ser = "\<lambda>_. Inr [1]" and cose = "[0xA0]" and ext = "[0xA1, 1]"
          and rp = "zeros 32" and counter = "zeros 4" and hi = 0 and lo = 2])
       (simp_all add: be16_def attestation_object_def toy_curve_def)
  then show ?thesis by (simp add: p256_from_cose_key_def toy_curve_def)
qed

text \<open>
  C33: recovery pins down one key or none. A key recovered from two assertions verifies both of their
  signatures over what each authenticator signed, and is the only candidate of both; the same
  signature twice never yields a key.
\<close>

theorem recovery_sound:
  assumes "recover_public_key_from_assertions K a b = Inr (Some pk)"
  shows "\<exists>raw_a raw_b sa sb key.
      der_signature_to_raw_low_s K (wa_signature_der a) = Inr raw_a
      \<and> der_signature_to_raw_low_s K (wa_signature_der b) = Inr raw_b \<and> raw_a \<noteq> raw_b
      \<and> sig_from_slice K raw_a = Inr sa \<and> sig_from_slice K raw_b = Inr sb
      \<and> verify_prehash K key (webauthn_signing_hash K (wa_authenticator_data a) (wa_client_data_json a)) sa
      \<and> verify_prehash K key (webauthn_signing_hash K (wa_authenticator_data b) (wa_client_data_json b)) sb
      \<and> (\<forall>k. could_sign K a sa k \<and> could_sign K b sb k \<longrightarrow> k = key)
      \<and> drop 1 (point_sec1 K key) = pk_x pk @ pk_y pk"
proof -
  obtain raw_a raw_b sa sb key where
    "der_signature_to_raw_low_s K (wa_signature_der a) = Inr raw_a"
    "der_signature_to_raw_low_s K (wa_signature_der b) = Inr raw_b" "raw_a \<noteq> raw_b"
    "sig_from_slice K raw_a = Inr sa" "sig_from_slice K raw_b = Inr sb"
    "could_sign K a sa key" "could_sign K b sb key"
    "\<forall>k. could_sign K a sa k \<and> could_sign K b sb k \<longrightarrow> k = key"
    "drop 1 (point_sec1 K key) = pk_x pk @ pk_y pk"
    by (rule recovered_key [OF assms])
  moreover from this have
    "verify_prehash K key (webauthn_signing_hash K (wa_authenticator_data a) (wa_client_data_json a)) sa"
    "verify_prehash K key (webauthn_signing_hash K (wa_authenticator_data b) (wa_client_data_json b)) sb"
    by (simp_all add: could_sign_def Let_def)
  ultimately show ?thesis by blast
qed

theorem recovery_sound_witness:
  "\<exists>key. verify_prehash (toy_curve CNull 0) key (webauthn_signing_hash (toy_curve CNull 0) [] []) (7 # zeros 63)
    \<and> drop 1 (point_sec1 (toy_curve CNull 0) key) = (7 # zeros 31) @ zeros 32"
proof -
  let ?a = "\<lparr>wa_authenticator_data = [], wa_client_data_json = [], wa_signature_der = 7 # zeros 63\<rparr>"
  let ?b = "\<lparr>wa_authenticator_data = [], wa_client_data_json = [], wa_signature_der = 7 # replicate 63 1\<rparr>"
  have "recover_public_key_from_assertions (toy_curve CNull 0) ?a ?b = Inr (Some \<lparr>pk_x = 7 # zeros 31, pk_y = zeros 32\<rparr>)"
    by (simp add: recover_public_key_from_assertions_def der_signature_to_raw_low_s_def candidates_def
        toy_curve_def subslice_def)
  from recovery_sound [OF this] obtain raw_a sa key where
    "der_signature_to_raw_low_s (toy_curve CNull 0) (7 # zeros 63) = Inr raw_a"
    "sig_from_slice (toy_curve CNull 0) raw_a = Inr sa"
    "verify_prehash (toy_curve CNull 0) key (webauthn_signing_hash (toy_curve CNull 0) [] []) sa"
    "drop 1 (point_sec1 (toy_curve CNull 0) key) = (7 # zeros 31) @ zeros 32"
    by auto
  moreover from this(1,2) have "sa = 7 # zeros 63"
    by (auto simp: der_signature_to_raw_low_s_def toy_curve_def split: if_splits)
  ultimately show ?thesis by blast
qed

end
