(* ===== verification/Utf8.thy ===== *)
theory Utf8
  imports Text
begin

text \<open>
  UTF-8 as Rust's standard library reads it: one step over a character or over the longest invalid
  prefix, \<open>chars()\<close>, \<open>String::from_utf8_lossy\<close>, code points, and the splitting operations on
  one-byte separators the address and header parsers use.
\<close>

section \<open>One step\<close>

definition byte_at :: "string \<Rightarrow> nat \<Rightarrow> nat" where
  "byte_at s i = (if i < length s then byte_of (s ! i) else 0)"

definition is_cont :: "nat \<Rightarrow> bool" where
  "is_cont b \<longleftrightarrow> 128 \<le> b \<and> b < 192"

text \<open>The second bytes allowed after a lead byte of three and of four.\<close>

definition second_of_three :: "nat \<Rightarrow> nat \<Rightarrow> bool" where
  "second_of_three b c \<longleftrightarrow>
     (b = 0xE0 \<and> 0xA0 \<le> c \<and> c \<le> 0xBF) \<or> (0xE1 \<le> b \<and> b \<le> 0xEC \<and> is_cont c)
     \<or> (b = 0xED \<and> 0x80 \<le> c \<and> c \<le> 0x9F) \<or> (0xEE \<le> b \<and> b \<le> 0xEF \<and> is_cont c)"

definition second_of_four :: "nat \<Rightarrow> nat \<Rightarrow> bool" where
  "second_of_four b c \<longleftrightarrow>
     (b = 0xF0 \<and> 0x90 \<le> c \<and> c \<le> 0xBF) \<or> (0xF1 \<le> b \<and> b \<le> 0xF3 \<and> is_cont c)
     \<or> (b = 0xF4 \<and> 0x80 \<le> c \<and> c \<le> 0x8F)"

text \<open>Whether a character stands in front, and how many bytes it (or the invalid prefix) has.\<close>

definition utf8_step :: "string \<Rightarrow> bool \<times> nat" where
  "utf8_step s =
     (let b = byte_at s 0
      in if b < 128 then (True, 1)
         else if 0xC2 \<le> b \<and> b \<le> 0xDF then (if is_cont (byte_at s 1) then (True, 2) else (False, 1))
         else if 0xE0 \<le> b \<and> b \<le> 0xEF
         then (if \<not> second_of_three b (byte_at s 1) then (False, 1)
               else if is_cont (byte_at s 2) then (True, 3) else (False, 2))
         else if 0xF0 \<le> b \<and> b \<le> 0xF4
         then (if \<not> second_of_four b (byte_at s 1) then (False, 1)
               else if \<not> is_cont (byte_at s 2) then (False, 2)
               else if is_cont (byte_at s 3) then (True, 4) else (False, 3))
         else (False, 1))"

lemma utf8_step_pos: "0 < snd (utf8_step s)"
  by (simp add: utf8_step_def Let_def)

function chars :: "string \<Rightarrow> string list" where
  "chars s = (if s = [] then [] else let n = snd (utf8_step s) in take n s # chars (drop n s))"
  by pat_completeness auto
termination
  by (relation "measure length") (auto simp: utf8_step_pos)

declare chars.simps [simp del]

text \<open>Each invalid prefix becomes one U+FFFD.\<close>

function from_utf8_lossy :: "string \<Rightarrow> string" where
  "from_utf8_lossy s =
     (if s = [] then []
      else let (valid, n) = utf8_step s
           in (if valid then take n s else [CHR 0xEF, CHR 0xBF, CHR 0xBD]) @ from_utf8_lossy (drop n s))"
  by pat_completeness auto
termination
proof (relation "measure length")
  fix s :: string and p valid n
  assume "s \<noteq> []" "p = utf8_step s" "(valid, n) = p"
  with utf8_step_pos [of s] show "(drop n s, s) \<in> measure length"
    by (metis in_measure length_drop diff_less length_greater_0_conv snd_conv)
qed simp

declare from_utf8_lossy.simps [simp del]

function valid_utf8 :: "string \<Rightarrow> bool" where
  "valid_utf8 s =
     (if s = [] then True
      else if fst (utf8_step s) then valid_utf8 (drop (snd (utf8_step s)) s) else False)"
  by pat_completeness auto
termination
  by (relation "measure length") (auto simp: utf8_step_pos)

declare valid_utf8.simps [simp del]

lemma from_utf8_lossy_valid: "valid_utf8 s \<Longrightarrow> from_utf8_lossy s = s"
proof (induction s rule: valid_utf8.induct)
  case (1 s)
  show ?case
  proof (cases "s = []")
    case False
    with 1 have "fst (utf8_step s)" "from_utf8_lossy (drop (snd (utf8_step s)) s) = drop (snd (utf8_step s)) s"
      by (simp_all add: valid_utf8.simps [of s] split: if_splits)
    with False show ?thesis by (simp add: from_utf8_lossy.simps [of s] case_prod_beta Let_def)
  qed (simp add: from_utf8_lossy.simps)
qed

lemma utf8_step_ascii: "byte_of c < 128 \<Longrightarrow> utf8_step (c # s) = (True, 1)"
  by (simp add: utf8_step_def byte_at_def)

lemma valid_utf8_Cons: "byte_of c < 128 \<Longrightarrow> valid_utf8 (c # s) = valid_utf8 s"
  by (simp add: valid_utf8.simps [of "c # s"] utf8_step_ascii)

lemma valid_utf8_Nil [simp]: "valid_utf8 []"
  by (simp add: valid_utf8.simps)

lemma valid_utf8_ascii: "is_ascii s \<Longrightarrow> valid_utf8 s"
  by (induction s) (simp_all add: is_ascii_def valid_utf8_Cons)

lemma from_utf8_lossy_ascii: "is_ascii s \<Longrightarrow> from_utf8_lossy s = s"
  by (simp add: from_utf8_lossy_valid valid_utf8_ascii)

lemma chars_Nil [simp]: "chars [] = []"
  by (simp add: chars.simps)

lemma chars_ascii_Cons: "byte_of c < 128 \<Longrightarrow> chars (c # s) = [c] # chars s"
  by (simp add: chars.simps [of "c # s"] utf8_step_ascii)

lemma chars_ascii: "is_ascii s \<Longrightarrow> chars s = map (\<lambda>c. [c]) s"
  by (induction s) (simp_all add: is_ascii_def chars_ascii_Cons)

lemma concat_chars: "concat (chars s) = s"
proof (induction s rule: chars.induct)
  case (1 s)
  then show ?case by (cases "s = []") (simp_all add: chars.simps [of s] Let_def)
qed

lemma chars_nonempty: "ch \<in> set (chars s) \<Longrightarrow> ch \<noteq> []"
proof (induction s rule: chars.induct)
  case (1 s)
  then show ?case
    using utf8_step_pos [of s] by (cases "s = []") (auto simp: chars.simps [of s] Let_def)
qed

section \<open>Code points\<close>

text \<open>The scalar value of one encoded character.\<close>

definition code_point :: "string \<Rightarrow> nat" where
  "code_point ch =
     (if length ch \<le> 1 then byte_at ch 0
      else if length ch = 2 then (byte_at ch 0 - 0xC0) * 64 + (byte_at ch 1 - 128)
      else if length ch = 3 then (byte_at ch 0 - 0xE0) * 4096 + (byte_at ch 1 - 128) * 64 + (byte_at ch 2 - 128)
      else (byte_at ch 0 - 0xF0) * 262144 + (byte_at ch 1 - 128) * 4096 + (byte_at ch 2 - 128) * 64
           + (byte_at ch 3 - 128))"

definition is_whitespace :: "string \<Rightarrow> bool" where
  "is_whitespace ch \<longleftrightarrow> ch \<in> set white_space"

definition is_control :: "string \<Rightarrow> bool" where
  "is_control ch \<longleftrightarrow> code_point ch < 32 \<or> (127 \<le> code_point ch \<and> code_point ch < 160)"

section \<open>Splitting\<close>

text \<open>\<open>split(c)\<close> and \<open>split("..")\<close>, \<open>rsplit(c).next()\<close> and \<open>rsplit_once(c)\<close>.\<close>

fun split_char :: "char \<Rightarrow> string \<Rightarrow> string list" where
  "split_char c [] = [[]]"
| "split_char c (x # xs) =
     (if x = c then [] # split_char c xs
      else case split_char c xs of [] \<Rightarrow> [[x]] | p # ps \<Rightarrow> (x # p) # ps)"

lemma split_char_nonempty: "split_char c s \<noteq> []"
  by (induction s) (auto split: list.splits)

lemma split_char_none: "c \<notin> set s \<Longrightarrow> split_char c s = [s]"
  by (induction s) auto

lemma split_char_append: "c \<notin> set a \<Longrightarrow> split_char c (a @ c # s) = a # split_char c s"
  by (induction a) auto

lemma split_once_char:
  "split_once s [c] = (if c \<in> set s then Some (takeWhile (\<lambda>x. x \<noteq> c) s, tl (dropWhile (\<lambda>x. x \<noteq> c) s)) else None)"
  by (induction s) (auto simp: starts_with_def)

lemma split_once_shorter: "split_once s sep = Some (a, b) \<Longrightarrow> sep \<noteq> [] \<Longrightarrow> length b < length s"
  by (drule split_once_append) simp

function split_str :: "string \<Rightarrow> string \<Rightarrow> string list" where
  "split_str sep s =
     (if sep = [] then [s]
      else case split_once s sep of None \<Rightarrow> [s] | Some (a, b) \<Rightarrow> a # split_str sep b)"
  by pat_completeness auto
termination
  by (relation "measure (\<lambda>(sep, s). length s)") (auto dest: split_once_shorter)

declare split_str.simps [simp del]

definition rsplit_once :: "string \<Rightarrow> char \<Rightarrow> (string \<times> string) option" where
  "rsplit_once s c = map_option (\<lambda>(b, a). (rev a, rev b)) (split_once (rev s) [c])"

definition rsplit_last :: "string \<Rightarrow> char \<Rightarrow> string" where
  "rsplit_last s c = (case rsplit_once s c of None \<Rightarrow> s | Some (_, b) \<Rightarrow> b)"

text \<open>\<open>split(['/', '?', '#']).next()\<close>: up to the first of the characters.\<close>

definition upto_any :: "char list \<Rightarrow> string \<Rightarrow> string" where
  "upto_any cs s = takeWhile (\<lambda>c. c \<notin> set cs) s"

lemma upto_any_prefix: "\<exists>rest. s = upto_any cs s @ rest \<and> (rest = [] \<or> hd rest \<in> set cs)"
proof
  show "s = upto_any cs s @ dropWhile (\<lambda>c. c \<notin> set cs) s \<and>
      (dropWhile (\<lambda>c. c \<notin> set cs) s = [] \<or> hd (dropWhile (\<lambda>c. c \<notin> set cs) s) \<in> set cs)"
    by (metis (mono_tags, lifting) upto_any_def hd_dropWhile takeWhile_dropWhile_id)
qed

lemma upto_any_append:
  "\<forall>c\<in>set a. c \<notin> set cs \<Longrightarrow> rest = [] \<or> hd rest \<in> set cs \<Longrightarrow> upto_any cs (a @ rest) = a"
  unfolding upto_any_def by (cases rest) (auto simp: takeWhile_append)

end
