(* ===== verification/CtapCeremony.thy ===== *)
theory CtapCeremony
  imports Cables WebAuthn Utf8
begin

text \<open>
  The ceremonies of \<open>ctap/ceremony.rs\<close> over its two seams: registration and assertion, the PIN/UV
  session before them, and the walk through the credentials of one authenticator. The cable and the
  person are a world \<open>'w\<close> the operations pass along; the CBOR, COSE, curve and hash crates come as a
  record of functions.
\<close>

section \<open>The crates, the cable and the person\<close>

record ('k, 'p) ctap_env =
  cx_crypto :: crypto
  cx_ser :: "cbor \<Rightarrow> string + bytes"
  cx_de :: "bytes \<Rightarrow> string + cbor"
  cx_cose_value :: "p256_public_key \<Rightarrow> core_error + cbor"
  cx_read_cose :: "bytes \<Rightarrow> core_error + p256_public_key"
  cx_peer :: "bytes \<Rightarrow> string + 'p"
  cx_scalar :: "bytes \<Rightarrow> 'k option"
  cx_dh :: "'k \<Rightarrow> 'p \<Rightarrow> bytes"
  cx_public :: "'k \<Rightarrow> p256_public_key"
  cx_b64 :: "bytes \<Rightarrow> string"
  cx_debug_str :: "string \<Rightarrow> string"

record pin_request =
  pq_product :: string
  pq_device :: string
  pq_retries :: "u32 option"
  pq_retry :: bool

record credential_choice =
  cc_name :: string
  cc_credential_id :: string
  cc_product :: string

text \<open>\<open>exchange\<close> is \<open>None\<close> when it never returns.\<close>

record 'w ports =
  po_exchange :: "'w \<Rightarrow> bytes \<Rightarrow> touch_kind option \<Rightarrow> ((cable_error + bytes) \<times> 'w) option"
  po_cancel :: "'w \<Rightarrow> 'w"
  po_product :: "'w \<Rightarrow> string"
  po_path :: "'w \<Rightarrow> string"
  po_pin :: "'w \<Rightarrow> pin_request \<Rightarrow> string option \<times> 'w"
  po_pick :: "'w \<Rightarrow> credential_choice list \<Rightarrow> nat option \<times> 'w"
  po_random :: "'w \<Rightarrow> nat \<Rightarrow> bytes \<times> 'w"
  po_note :: "'w \<Rightarrow> string \<Rightarrow> 'w"

text \<open>A step of a ceremony; \<open>None\<close> when it does not return. \<open>then_do\<close> is the \<open>?\<close> of the code.\<close>

type_synonym ('w, 'e, 'a) act = "'w \<Rightarrow> (('e + 'a) \<times> 'w) option"

definition give :: "'e + 'a \<Rightarrow> ('w, 'e, 'a) act" where
  "give r = (\<lambda>w. Some (r, w))"

definition then_do :: "('w, 'e, 'a) act \<Rightarrow> ('a \<Rightarrow> ('w, 'e, 'b) act) \<Rightarrow> ('w, 'e, 'b) act" where
  "then_do m f = (\<lambda>w. case m w of
      None \<Rightarrow> None
    | Some (Inl e, w1) \<Rightarrow> Some (Inl e, w1)
    | Some (Inr a, w1) \<Rightarrow> f a w1)"

definition map_err :: "('e \<Rightarrow> 'd) \<Rightarrow> ('w, 'e, 'a) act \<Rightarrow> ('w, 'd, 'a) act" where
  "map_err g m = (\<lambda>w. map_option (\<lambda>(r, w1). (map_sum g id r, w1)) (m w))"

definition err_text :: "string \<Rightarrow> core_error + 'a \<Rightarrow> ceremony_error + 'a" where
  "err_text what r = map_sum (\<lambda>e. other (what @ core_error_text e)) id r"

definition encode_failed :: "core_error \<Rightarrow> ceremony_error" where
  "encode_failed e = other (''could not build the CTAP2 request: '' @ core_error_text e)"

definition no_pin :: "string \<Rightarrow> ceremony_error" where
  "no_pin product =
     other (product @ '' has no PIN set. Set one with the manufacturer'' @ [CHR 0x27] @ ''s tool and try again ''
            @ em_dash @ '' a wallet key has to be able to verify that it is you.'')"

section \<open>What the ceremony signs over\<close>

definition client_data_json :: "('k, 'p) ctap_env \<Rightarrow> client_data_kind \<Rightarrow> bytes \<Rightarrow> string \<Rightarrow> string" where
  \<open>client_data_json E kind challenge origin =
     ''{"type":"'' @ (case kind of Create \<Rightarrow> ''webauthn.create'' | Get \<Rightarrow> ''webauthn.get'')
     @ ''","challenge":"'' @ to_base64url (cx_b64 E) challenge
     @ ''","origin":"'' @ origin @ ''","crossOrigin":false}''\<close>

text \<open>\<open>uuid\<close> has 16 bytes; version and variant are stamped in.\<close>

definition stamp_uuid :: "bytes \<Rightarrow> bytes" where
  "stamp_uuid uuid = (let u = uuid[6 := (uuid ! 6 AND 0x0F) OR 0x40] in u[8 := (u ! 8 AND 0x3F) OR 0x80])"

definition user_handle :: "string \<Rightarrow> bytes \<Rightarrow> bytes" where
  "user_handle name uuid =
     (let hex = to_hex (stamp_uuid uuid) False;
          formatted = subslice 0 8 hex @ ''-'' @ subslice 8 12 hex @ ''-'' @ subslice 12 16 hex @ ''-''
                      @ subslice 16 20 hex @ ''-'' @ subslice 20 32 hex
      in as_bytes name @ [0] @ as_bytes formatted)"

definition wallet_name_from_handle :: "bytes \<Rightarrow> string" where
  "wallet_name_from_handle handle =
     (let name = string_of_bytes (takeWhile (\<lambda>b. b \<noteq> 0) handle) in if valid_utf8 name then name else [])"

section \<open>The client\<close>

record ctap_registration =
  cr_credential_id_hex :: string
  cr_attestation_object_hex :: string
  cr_client_data_json_hex :: string

record ctap_assertion =
  ca_credential_id_hex :: string
  ca_signature_der_hex :: string
  ca_authenticator_data_hex :: string
  ca_client_data_json_hex :: string
  ca_user_id_hex :: "string option"

record relying_party =
  rp_id :: string
  rp_name :: string
  rp_origin :: string

definition MAX_ENUMERATED_CREDENTIALS :: nat where
  "MAX_ENUMERATED_CREDENTIALS = 16"

text \<open>The diagnostics line; \<open>cx_debug_str\<close> is the \<open>Debug\<close> form of a string.\<close>

definition show_bool :: "bool \<Rightarrow> string" where
  "show_bool b = (if b then ''true'' else ''false'')"

fun debug_items :: "string list \<Rightarrow> string" where
  "debug_items [] = []"
| "debug_items [x] = x"
| "debug_items (x # xs) = x @ '', '' @ debug_items xs"

definition debug_list :: "string list \<Rightarrow> string" where
  "debug_list xs = ''['' @ debug_items xs @ '']''"

definition info_line :: "('k, 'p) ctap_env \<Rightarrow> string \<Rightarrow> authenticator_info \<Rightarrow> string" where
  "info_line E product info =
     product @ '': versions='' @ debug_list (map (cx_debug_str E) (ai_versions info))
     @ '' rk='' @ show_bool (ai_resident_key info) @ '' clientPin='' @ show_bool (ai_client_pin_set info)
     @ '' uv='' @ show_bool (ai_user_verification info)
     @ '' pinUvAuthToken='' @ show_bool (ai_pin_uv_auth_token info)
     @ '' protocols='' @ debug_list (map (\<lambda>p. show_nat (unat p)) (ai_pin_protocols info))"

definition exchange :: "'w ports \<Rightarrow> bytes \<Rightarrow> touch_kind option \<Rightarrow> ('w, cable_error, bytes) act" where
  "exchange D request touch = (\<lambda>w. po_exchange D w request touch)"

definition get_info :: "('k, 'p) ctap_env \<Rightarrow> 'w ports \<Rightarrow> ('w, ceremony_error, authenticator_info) act" where
  "get_info E D =
     then_do (give (map_sum encode_failed id get_info_request)) (\<lambda>request.
     then_do (map_err failure_for (exchange D request None)) (\<lambda>body.
     then_do (give (err_text ''malformed getInfo reply: '' (parse_get_info (cx_de E) body))) (\<lambda>info w.
       Some (Inr info, po_note D w (info_line E (po_product D w) info)))))"

definition verifiable :: "'w ports \<Rightarrow> authenticator_info \<Rightarrow> ('w, ceremony_error, unit) act" where
  "verifiable D info =
     (\<lambda>w. if ai_client_pin_set info \<or> ai_user_verification info then Some (Inr (), w)
          else Some (Inl (no_pin (po_product D w)), w))"

definition random :: "'w ports \<Rightarrow> nat \<Rightarrow> ('w, 'e, bytes) act" where
  "random D n = (\<lambda>w. let (bs, w1) = po_random D w n in Some (Inr bs, w1))"

definition send :: "'w ports \<Rightarrow> bytes \<Rightarrow> ('w, ceremony_error, bytes) act" where
  "send D request =
     (\<lambda>w. case exchange D request (Some Presence) w of
        None \<Rightarrow> None
      | Some (Inr body, w1) \<Rightarrow> Some (Inr body, w1)
      | Some (Inl e, w1) \<Rightarrow> Some (Inl (failure_for e), po_cancel D w1))"

section \<open>The PIN/UV session\<close>

text \<open>\<open>key_agreement\<close>; the scalar is drawn until one is valid.\<close>

partial_function (option) draw_scalar :: "('k, 'p) ctap_env \<Rightarrow> 'w ports \<Rightarrow> 'w \<Rightarrow> ('k \<times> 'w) option" where
  "draw_scalar E D w =
     (let (bs, w1) = po_random D w 32
      in case cx_scalar E bs of Some k \<Rightarrow> Some (k, w1) | None \<Rightarrow> draw_scalar E D w1)"

definition agree_key ::
  "('k, 'p) ctap_env \<Rightarrow> 'w ports \<Rightarrow> protocol \<Rightarrow> ('w, ceremony_error, shared_secret \<times> p256_public_key) act" where
  "agree_key E D protocol =
     then_do (give (map_sum encode_failed id (client_pin_encode (cx_cose_value E) (cx_ser E) (key_agreement protocol)))) (\<lambda>request.
     then_do (map_err failure_for (exchange D request None)) (\<lambda>body.
     then_do (give (err_text ''malformed keyAgreement: '' (parse_client_pin (cx_de E) (cx_ser E) (cx_read_cose E) body))) (\<lambda>response.
     then_do (give (case pr_key_agreement response of
                      None \<Rightarrow> Inl (other ''the security key returned no keyAgreement key'') | Some k \<Rightarrow> Inr k)) (\<lambda>authenticator_key.
     then_do (give (map_sum (\<lambda>e. other (''keyAgreement key rejected: '' @ e)) id
                      (cx_peer E (0x04 # pk_x authenticator_key @ pk_y authenticator_key)))) (\<lambda>peer w.
       case draw_scalar E D w of
         None \<Rightarrow> None
       | Some (ephemeral, w1) \<Rightarrow>
           give (map_sum (\<lambda>e. other (''PIN key derivation failed: '' @ core_error_text e))
                   (\<lambda>secret. (secret, cx_public E ephemeral))
                   (derive (cx_crypto E) protocol (cx_dh E ephemeral peer))) w1)))))"

definition ask_pin_retries :: "('k, 'p) ctap_env \<Rightarrow> 'w ports \<Rightarrow> protocol \<Rightarrow> 'w \<Rightarrow> (u32 option \<times> 'w) option" where
  "ask_pin_retries E D protocol w =
     (case client_pin_encode (cx_cose_value E) (cx_ser E) (pin_retries protocol) of
        Inl _ \<Rightarrow> Some (None, w)
      | Inr request \<Rightarrow>
          (case exchange D request None w of
             None \<Rightarrow> None
           | Some (Inl _, w1) \<Rightarrow> Some (None, w1)
           | Some (Inr body, w1) \<Rightarrow>
               Some (case parse_client_pin (cx_de E) (cx_ser E) (cx_read_cose E) body of
                       Inl _ \<Rightarrow> None | Inr response \<Rightarrow> pr_pin_retries response, w1)))"

definition BOTH :: permissions where
  "BOTH = MAKE_CREDENTIAL OR GET_ASSERTION"

definition fetch_uv_token ::
  "('k, 'p) ctap_env \<Rightarrow> 'w ports \<Rightarrow> relying_party \<Rightarrow> protocol \<Rightarrow> ('w, cable_error, pin_uv_auth_token) act" where
  "fetch_uv_token E D rp protocol =
     then_do (map_err (\<lambda>_. Ctap UvFailed) (agree_key E D protocol)) (\<lambda>(secret, platform_key).
     then_do (give (map_sum (\<lambda>e. CableOther (core_error_text e)) id
                      (client_pin_encode (cx_cose_value E) (cx_ser E)
                         (uv_token protocol platform_key BOTH (Some (rp_id rp)))))) (\<lambda>request.
     then_do (exchange D request (Some Fingerprint)) (\<lambda>body.
     then_do (give (map_sum (\<lambda>e. CableOther (core_error_text e)) id
                      (parse_client_pin (cx_de E) (cx_ser E) (cx_read_cose E) body))) (\<lambda>response.
     then_do (give (case pr_pin_uv_auth_token response of None \<Rightarrow> Inl (Ctap UvFailed) | Some t \<Rightarrow> Inr t)) (\<lambda>encrypted.
       give (map_sum (\<lambda>e. CableOther (core_error_text e)) id (decrypt_token (cx_crypto E) secret encrypted)))))))"

text \<open>One turn of the PIN dialog: settled, or asked again after a refused PIN.\<close>

datatype pin_turn = Token "pin_uv_auth_token option" | AskAgain

definition pin_locked :: "string \<Rightarrow> ceremony_error" where
  "pin_locked product =
     other (product @ '' is locked. Unplug it and plug it back in, or '' @ em_dash
            @ '' if it asks for a reset '' @ em_dash @ '' be aware a reset erases every passkey on it.'')"

definition token_from_reply ::
  "('k, 'p) ctap_env \<Rightarrow> shared_secret \<Rightarrow> bytes \<Rightarrow> ceremony_error + pin_turn" where
  "token_from_reply E secret body =
     (case parse_client_pin (cx_de E) (cx_ser E) (cx_read_cose E) body of
        Inl e \<Rightarrow> Inl (other (''malformed clientPIN reply: '' @ core_error_text e))
      | Inr response \<Rightarrow>
          (case pr_pin_uv_auth_token response of
             None \<Rightarrow> Inl (other ''the security key returned no pinUvAuthToken'')
           | Some encrypted \<Rightarrow>
               map_sum (\<lambda>e. other (''the PIN token could not be unwrapped: '' @ core_error_text e))
                 (\<lambda>t. Token (Some t)) (decrypt_token (cx_crypto E) secret encrypted)))"

definition pin_refusal :: "string \<Rightarrow> cable_error \<Rightarrow> ceremony_error + pin_turn" where
  "pin_refusal product e =
     (if e = Ctap PinRequired then Inr AskAgain
      else if e = Ctap PinNotSet then Inl (no_pin product)
      else if e = Ctap PinBlocked then Inl (pin_locked product)
      else Inl (failure_for e))"

definition pin_attempt ::
  "('k, 'p) ctap_env \<Rightarrow> 'w ports \<Rightarrow> relying_party \<Rightarrow> authenticator_info \<Rightarrow> protocol \<Rightarrow> bool
   \<Rightarrow> ('w, ceremony_error, pin_turn) act" where
  "pin_attempt E D rp info protocol retry =
     (\<lambda>w. case ask_pin_retries E D protocol w of
        None \<Rightarrow> None
      | Some (retries, w1) \<Rightarrow>
          (case po_pin D w1 \<lparr>pq_product = po_product D w1, pq_device = po_path D w1,
                             pq_retries = retries, pq_retry = retry\<rparr> of
             (None, w2) \<Rightarrow> Some (Inl cancelled, w2)
           | (Some pin, w2) \<Rightarrow>
               then_do (agree_key E D protocol) (\<lambda>(secret, platform_key).
               then_do (random D 16) (\<lambda>iv.
               then_do (give (err_text ''PIN encryption failed: '' (encrypt_pin_hash (cx_crypto E) secret pin iv))) (\<lambda>pin_hash_enc.
               let permissions = (if ai_pin_uv_auth_token info then Some BOTH else None)
               in then_do (give (map_sum encode_failed id
                             (client_pin_encode (cx_cose_value E) (cx_ser E)
                                (pin_token protocol platform_key pin_hash_enc permissions
                                   (map_option (\<lambda>_. rp_id rp) permissions))))) (\<lambda>request w3.
                 case exchange D request None w3 of
                   None \<Rightarrow> None
                 | Some (Inr body, w4) \<Rightarrow> Some (token_from_reply E secret body, w4)
                 | Some (Inl e, w4) \<Rightarrow> Some (pin_refusal (po_product D w4) e, w4))))) w2))"

text \<open>The loop may not end: the person may be asked for as long as the authenticator refuses.\<close>

partial_function (option) pin_loop ::
  "('k, 'p) ctap_env \<Rightarrow> 'w ports \<Rightarrow> relying_party \<Rightarrow> authenticator_info \<Rightarrow> protocol \<Rightarrow> bool
   \<Rightarrow> 'w \<Rightarrow> ((ceremony_error + pin_uv_auth_token option) \<times> 'w) option" where
  "pin_loop E D rp info protocol retry w =
     (case pin_attempt E D rp info protocol retry w of
        None \<Rightarrow> None
      | Some (Inl e, w1) \<Rightarrow> Some (Inl e, w1)
      | Some (Inr (Token t), w1) \<Rightarrow> Some (Inr t, w1)
      | Some (Inr AskAgain, w1) \<Rightarrow> pin_loop E D rp info protocol True w1)"

definition no_fingerprint :: "string \<Rightarrow> ceremony_error" where
  "no_fingerprint product =
     other (product @ '' could not verify your fingerprint, and it has no PIN set as a fallback.'')"

definition pin_protocol :: "authenticator_info \<Rightarrow> protocol" where
  "pin_protocol info = unwrap_or (best_of (ai_pin_protocols info)) One"

definition by_pin ::
  "('k, 'p) ctap_env \<Rightarrow> 'w ports \<Rightarrow> relying_party \<Rightarrow> authenticator_info
   \<Rightarrow> ('w, ceremony_error, pin_uv_auth_token option) act" where
  "by_pin E D rp info =
     (if \<not> ai_client_pin_set info then give (Inr None)
      else pin_loop E D rp info (pin_protocol info) False)"

definition pin_session ::
  "('k, 'p) ctap_env \<Rightarrow> 'w ports \<Rightarrow> relying_party \<Rightarrow> authenticator_info
   \<Rightarrow> ('w, ceremony_error, pin_uv_auth_token option) act" where
  "pin_session E D rp info =
     (if \<not> ai_user_verification info then by_pin E D rp info
      else if \<not> ai_pin_uv_auth_token info then give (Inr None)
      else (\<lambda>w. case fetch_uv_token E D rp (pin_protocol info) w of
              None \<Rightarrow> None
            | Some (Inr token, w1) \<Rightarrow> Some (Inr (Some token), w1)
            | Some (Inl e, w1) \<Rightarrow>
                if e = Ctap UvFailed \<and> ai_client_pin_set info then by_pin E D rp info w1
                else if e = Ctap UvFailed then Some (Inl (no_fingerprint (po_product D w1)), w1)
                else Some (Inl (failure_for e), w1)))"

section \<open>Registration\<close>

definition user_handle_of :: "'w ports \<Rightarrow> string \<Rightarrow> ('w, ceremony_error, bytes) act" where
  "user_handle_of D name =
     (\<lambda>w. let (uuid, w1) = po_random D w 16
           in if length uuid = 16 then Some (Inr (user_handle name uuid), w1) else None)"

definition rejected :: "'w ports \<Rightarrow> ('w \<Rightarrow> ceremony_error) \<Rightarrow> bool \<Rightarrow> ('w, ceremony_error, unit) act" where
  "rejected D e bad = (\<lambda>w. Some (if bad then Inl (e w) else Inr (), w))"

definition not_discoverable :: "string \<Rightarrow> ceremony_error" where
  "not_discoverable product =
     classified NotDiscoverable
       (product @ '' cannot store a discoverable passkey, so a wallet created on it could never sign in.'')"

definition descriptors :: "string list \<Rightarrow> bytes list" where
  "descriptors ids = List.map_filter (\<lambda>i. case from_hex i of Inl _ \<Rightarrow> None | Inr bs \<Rightarrow> Some bs) ids"

definition make_credential_of ::
  "('k, 'p) ctap_env \<Rightarrow> relying_party \<Rightarrow> string \<Rightarrow> string list \<Rightarrow> bytes \<Rightarrow> pin_uv_auth_token option \<Rightarrow> bytes
   \<Rightarrow> make_credential" where
  "make_credential_of E rp name exclude the_hash token user_id =
     \<lparr>mc_client_data_hash = the_hash, mc_rp_id = rp_id rp, mc_rp_name = rp_name rp, mc_user_id = user_id,
      mc_user_name = name, mc_user_display_name = name, mc_exclude = descriptors exclude,
      mc_resident_key = True, mc_user_verification = (token = None),
      mc_pin_uv_auth = map_option (\<lambda>t. param (cx_crypto E) t the_hash) token\<rparr>"

definition registration_of ::
  "('k, 'p) ctap_env \<Rightarrow> string \<Rightarrow> bytes \<Rightarrow> ceremony_error + ctap_registration" where
  "registration_of E client_data body =
     (case parse_make_credential (cx_de E) body of
        Inl e \<Rightarrow> Inl (other (''malformed makeCredential reply: '' @ core_error_text e))
      | Inr response \<Rightarrow>
     (case attested_credential_id (mr_auth_data response) of
        Inl e \<Rightarrow> Inl (other (''malformed credential: '' @ core_error_text e))
      | Inr credential_id \<Rightarrow>
     (case attestation_object (cx_ser E) response of
        Inl e \<Rightarrow> Inl (other (''malformed attestation: '' @ core_error_text e))
      | Inr attestation \<Rightarrow>
          Inr \<lparr>cr_credential_id_hex = to_hex credential_id False,
               cr_attestation_object_hex = to_hex attestation False,
               cr_client_data_json_hex = to_hex (as_bytes client_data) False\<rparr>)))"

definition register_with ::
  "('k, 'p) ctap_env \<Rightarrow> 'w ports \<Rightarrow> relying_party \<Rightarrow> string \<Rightarrow> string list \<Rightarrow> string \<Rightarrow> pin_uv_auth_token option
   \<Rightarrow> ('w, ceremony_error, ctap_registration) act" where
  "register_with E D rp name exclude client_data token =
     then_do (user_handle_of D name) (\<lambda>user_id.
     then_do (give (map_sum encode_failed id (make_credential_encode (cx_ser E)
                (make_credential_of E rp name exclude (sha256 (cx_crypto E) (as_bytes client_data)) token user_id)))) (\<lambda>request.
     then_do (send D request) (\<lambda>body.
       give (registration_of E client_data body))))"

definition register ::
  "('k, 'p) ctap_env \<Rightarrow> 'w ports \<Rightarrow> relying_party \<Rightarrow> string \<Rightarrow> string list
   \<Rightarrow> ('w, ceremony_error, ctap_registration) act" where
  "register E D rp name exclude =
     then_do (get_info E D) (\<lambda>info.
     then_do (verifiable D info) (\<lambda>_.
     then_do (rejected D (\<lambda>w. not_discoverable (po_product D w)) (\<not> ai_resident_key info)) (\<lambda>_.
     then_do (random D 32) (\<lambda>challenge.
     then_do (pin_session E D rp info) (\<lambda>token.
       register_with E D rp name exclude (client_data_json E Create challenge (rp_origin rp)) token)))))"

section \<open>Assertion\<close>

text \<open>The walk through the rest of the credentials: it stops at the first answer that is none.\<close>

fun collect_next ::
  "('k, 'p) ctap_env \<Rightarrow> 'w ports \<Rightarrow> nat \<Rightarrow> get_assertion_response list
   \<Rightarrow> ('w, ceremony_error, get_assertion_response list) act" where
  "collect_next E D 0 so_far = give (Inr so_far)"
| "collect_next E D (Suc n) so_far =
     then_do (give (map_sum encode_failed id get_next_assertion_request)) (\<lambda>request w.
       case exchange D request None w of
         None \<Rightarrow> None
       | Some (Inl _, w1) \<Rightarrow> Some (Inr so_far, w1)
       | Some (Inr body, w1) \<Rightarrow>
           (case parse_get_assertion (cx_de E) body of
              Inl _ \<Rightarrow> Some (Inr so_far, w1)
            | Inr next \<Rightarrow> collect_next E D n (so_far @ [next]) w1))"

definition choice_row :: "string \<Rightarrow> get_assertion_response \<Rightarrow> credential_choice" where
  "choice_row product a =
     \<lparr>cc_name = (case gr_user_id a of None \<Rightarrow> [] | Some h \<Rightarrow> wallet_name_from_handle h),
      cc_credential_id = (case gr_credential_id a of None \<Rightarrow> [] | Some i \<Rightarrow> to_hex i False),
      cc_product = product\<rparr>"

definition choose_credential ::
  "('k, 'p) ctap_env \<Rightarrow> 'w ports \<Rightarrow> get_assertion_response \<Rightarrow> u32
   \<Rightarrow> ('w, ceremony_error, get_assertion_response) act" where
  "choose_credential E D first reported =
     then_do (collect_next E D (min (unat reported - 1) MAX_ENUMERATED_CREDENTIALS) [first]) (\<lambda>answers w.
       if length answers = 1 then Some (Inr (hd answers), w)
       else (case po_pick D w (map (choice_row (po_product D w)) answers) of
               (None, w1) \<Rightarrow> Some (Inl cancelled, w1)
             | (Some i, w1) \<Rightarrow>
                 Some (if i < length answers then Inr (answers ! i)
                       else Inl (other ''that wallet is no longer in the list''), w1)))"

definition allow_list :: "string option \<Rightarrow> bytes list" where
  "allow_list credential =
     (case credential of
        None \<Rightarrow> [] | Some i \<Rightarrow> (case from_hex i of Inl _ \<Rightarrow> [] | Inr bs \<Rightarrow> [bs]))"

definition get_assertion_of ::
  "('k, 'p) ctap_env \<Rightarrow> relying_party \<Rightarrow> string option \<Rightarrow> bytes \<Rightarrow> pin_uv_auth_token option \<Rightarrow> get_assertion" where
  "get_assertion_of E rp credential the_hash token =
     \<lparr>ga_rp_id = rp_id rp, ga_client_data_hash = the_hash, ga_allow = allow_list credential,
      ga_user_presence = True, ga_user_verification = (token = None),
      ga_pin_uv_auth = map_option (\<lambda>t. param (cx_crypto E) t the_hash) token\<rparr>"

definition resolved_credential ::
  "get_assertion_response \<Rightarrow> string option \<Rightarrow> ceremony_error + string" where
  "resolved_credential response requested =
     (case gr_credential_id response of
        Some bs \<Rightarrow> Inr (to_hex bs False)
      | None \<Rightarrow>
          (case requested of
             Some i \<Rightarrow> Inr (trim_start_0x i)
           | None \<Rightarrow> Inl (other ''the security key signed without saying which credential it used'')))"

definition assertion_of :: "string \<Rightarrow> get_assertion_response \<Rightarrow> string \<Rightarrow> ctap_assertion" where
  "assertion_of client_data response resolved =
     \<lparr>ca_credential_id_hex = resolved, ca_signature_der_hex = to_hex (gr_signature_der response) False,
      ca_authenticator_data_hex = to_hex (gr_auth_data response) False,
      ca_client_data_json_hex = to_hex (as_bytes client_data) False,
      ca_user_id_hex = (case gr_user_id response of
          Some (b # bs) \<Rightarrow> Some (to_hex (b # bs) False) | _ \<Rightarrow> None)\<rparr>"

text \<open>From the request on: the token, if there is one, is already agreed.\<close>

definition assert_with ::
  "('k, 'p) ctap_env \<Rightarrow> 'w ports \<Rightarrow> relying_party \<Rightarrow> string option \<Rightarrow> string \<Rightarrow> pin_uv_auth_token option
   \<Rightarrow> ('w, ceremony_error, ctap_assertion) act" where
  "assert_with E D rp credential client_data token =
     then_do (give (map_sum encode_failed id (get_assertion_encode (cx_ser E)
                (get_assertion_of E rp credential (sha256 (cx_crypto E) (as_bytes client_data)) token)))) (\<lambda>request.
     then_do (send D request) (\<lambda>body.
     then_do (give (err_text ''malformed getAssertion reply: '' (parse_get_assertion (cx_de E) body))) (\<lambda>first.
     then_do (case gr_number_of_credentials first of
                Some reported \<Rightarrow>
                  if 1 < reported \<and> credential = None then choose_credential E D first reported else give (Inr first)
              | None \<Rightarrow> give (Inr first)) (\<lambda>response.
     then_do (give (resolved_credential response credential)) (\<lambda>resolved.
       give (Inr (assertion_of client_data response resolved)))))))"

definition assert_credential ::
  "('k, 'p) ctap_env \<Rightarrow> 'w ports \<Rightarrow> relying_party \<Rightarrow> bytes \<Rightarrow> string option
   \<Rightarrow> ('w, ceremony_error, ctap_assertion) act" where
  "assert_credential E D rp challenge credential =
     then_do (get_info E D) (\<lambda>info.
     then_do (verifiable D info) (\<lambda>_.
     then_do (pin_session E D rp info) (\<lambda>token.
       assert_with E D rp credential (client_data_json E Get challenge (rp_origin rp)) token)))"

section \<open>What goes over the cable\<close>

text \<open>The same ports with every exchange written down: the request, the touch asked for, the reply.\<close>

type_synonym exchanges = "(bytes \<times> touch_kind option \<times> (cable_error + bytes)) list"

definition logged :: "'w ports \<Rightarrow> ('w \<times> exchanges) ports" where
  "logged D =
     \<lparr>po_exchange = (\<lambda>(w, l) request touch.
        map_option (\<lambda>(r, w1). (r, (w1, l @ [(request, touch, r)]))) (po_exchange D w request touch)),
      po_cancel = (\<lambda>(w, l). (po_cancel D w, l)),
      po_product = (\<lambda>(w, l). po_product D w),
      po_path = (\<lambda>(w, l). po_path D w),
      po_pin = (\<lambda>(w, l) q. let (a, w1) = po_pin D w q in (a, (w1, l))),
      po_pick = (\<lambda>(w, l) cs. let (a, w1) = po_pick D w cs in (a, (w1, l))),
      po_random = (\<lambda>(w, l) n. let (a, w1) = po_random D w n in (a, (w1, l))),
      po_note = (\<lambda>(w, l) s. (po_note D w s, l))\<rparr>"

lemma logged_simps [simp]:
  "po_exchange (logged D) (w, l) request touch =
     map_option (\<lambda>(r, w1). (r, (w1, l @ [(request, touch, r)]))) (po_exchange D w request touch)"
  "po_cancel (logged D) (w, l) = (po_cancel D w, l)"
  "po_product (logged D) (w, l) = po_product D w"
  "po_path (logged D) (w, l) = po_path D w"
  "po_pin (logged D) (w, l) q = (let (a, w1) = po_pin D w q in (a, (w1, l)))"
  "po_pick (logged D) (w, l) cs = (let (a, w1) = po_pick D w cs in (a, (w1, l)))"
  "po_random (logged D) (w, l) n = (let (a, w1) = po_random D w n in (a, (w1, l)))"
  "po_note (logged D) (w, l) s = (po_note D w s, l)"
  by (simp_all add: logged_def)

definition emits ::
  "('w \<times> exchanges, 'e, 'a) act \<Rightarrow> ('e + 'a \<Rightarrow> exchanges \<Rightarrow> bool) \<Rightarrow> bool" where
  "emits m P \<longleftrightarrow> (\<forall>w l r w' l'. m (w, l) = Some (r, (w', l')) \<longrightarrow> (\<exists>new. l' = l @ new \<and> P r new))"

lemma emits_weaken: "emits m P \<Longrightarrow> (\<And>r new. P r new \<Longrightarrow> Q r new) \<Longrightarrow> emits m Q"
  unfolding emits_def by meson

lemma emits_give: "P r [] \<Longrightarrow> emits (give r) P"
  by (simp add: emits_def give_def)

lemma emits_then:
  assumes m: "emits m Q" and left: "\<And>e new. Q (Inl e) new \<Longrightarrow> R (Inl e) new"
    and right: "\<And>a new. Q (Inr a) new \<Longrightarrow> emits (f a) (\<lambda>r more. R r (new @ more))"
  shows "emits (then_do m f) R"
  unfolding emits_def
proof (intro allI impI)
  fix w l r w' l'
  assume run: "then_do m f (w, l) = Some (r, (w', l'))"
  then obtain r1 w1 l1 where first: "m (w, l) = Some (r1, (w1, l1))"
    by (auto simp: then_do_def split: option.splits)
  then obtain new where new: "l1 = l @ new" "Q r1 new" using m unfolding emits_def by blast
  show "\<exists>new. l' = l @ new \<and> R r new"
  proof (cases r1)
    case (Inl e)
    with run first new left show ?thesis by (auto simp: then_do_def)
  next
    case (Inr a)
    with run first have "f a (w1, l1) = Some (r, (w', l'))" by (simp add: then_do_def)
    with right new Inr obtain more where "l' = l1 @ more" "R r (new @ more)" unfolding emits_def by blast
    with new show ?thesis by simp
  qed
qed

lemma emits_map_err: "emits m (\<lambda>r new. P (map_sum g id r) new) \<Longrightarrow> emits (map_err g m) P"
  unfolding emits_def map_err_def by auto

lemma emits_exchange: "(\<And>r. P r [(request, touch, r)]) \<Longrightarrow> emits (exchange (logged D) request touch) P"
  by (auto simp: emits_def exchange_def)

lemma emits_random: "(\<And>bs. P (Inr bs) []) \<Longrightarrow> emits (random (logged D) n) P"
  by (auto simp: emits_def random_def split: prod.splits)

text \<open>Exchanges that ask nothing of the person but, at most, a finger for a token of this relying party.\<close>

definition quiet :: "('k, 'p) ctap_env \<Rightarrow> relying_party \<Rightarrow> bytes \<times> touch_kind option \<times> (cable_error + bytes) \<Rightarrow> bool" where
  "quiet E rp x =
     (case x of (request, touch, _) \<Rightarrow>
        touch = None
        \<or> (touch = Some Fingerprint
           \<and> (\<exists>protocol key. client_pin_encode (cx_cose_value E) (cx_ser E)
                (uv_token protocol key BOTH (Some (rp_id rp))) = Inr request)))"

definition quietly :: "('k, 'p) ctap_env \<Rightarrow> relying_party \<Rightarrow> ('w \<times> exchanges, 'e, 'a) act \<Rightarrow> bool" where
  "quietly E rp m = emits m (\<lambda>_ new. list_all (quiet E rp) new)"

lemma quietly_give: "quietly E rp (give r)"
  by (simp add: quietly_def emits_give)

lemma quietly_then: "quietly E rp m \<Longrightarrow> (\<And>a. quietly E rp (f a)) \<Longrightarrow> quietly E rp (then_do m f)"
  unfolding quietly_def
  by (rule emits_then [where Q = "\<lambda>_ new. list_all (quiet E rp) new"])
     (auto elim: emits_weaken)

lemma quietly_map_err: "quietly E rp m \<Longrightarrow> quietly E rp (map_err g m)"
  unfolding quietly_def by (rule emits_map_err)

lemma quietly_exchange: "(\<And>r. quiet E rp (request, touch, r)) \<Longrightarrow> quietly E rp (exchange (logged D) request touch)"
  unfolding quietly_def by (rule emits_exchange) simp

lemma quietly_random: "quietly E rp (random (logged D) n)"
  by (simp add: quietly_def emits_random)

lemmas quietly_intros = quietly_give quietly_then quietly_map_err quietly_exchange quietly_random

lemma quietD: "quietly E rp m \<Longrightarrow> m (w, l) = Some (r, (w', l')) \<Longrightarrow> \<exists>new. l' = l @ new \<and> list_all (quiet E rp) new"
  unfolding quietly_def emits_def by blast

lemma quietI: "(\<And>w l r w' l'. m (w, l) = Some (r, (w', l')) \<Longrightarrow> \<exists>new. l' = l @ new \<and> list_all (quiet E rp) new) \<Longrightarrow> quietly E rp m"
  unfolding quietly_def emits_def by blast

lemma quiet_None: "quiet E rp (request, None, r)"
  by (simp add: quiet_def)

lemma draw_scalar_log: "draw_scalar E D' s = Some y \<Longrightarrow> D' = logged D \<Longrightarrow> snd (snd y) = snd s"
proof (induction E D' s y rule: draw_scalar.raw_induct [rotated, consumes 1])
  case (1 f E D' s y)
  then show ?case
    by (cases s) (auto simp: Let_def split: prod.splits option.splits)
qed

lemma quietly_agree_key: "quietly E rp (agree_key E (logged D) protocol)"
  unfolding agree_key_def
proof (intro quietly_intros quiet_None)
  fix a b c d peer
  show "quietly E rp (\<lambda>w. case draw_scalar E (logged D) w of None \<Rightarrow> None
       | Some (ephemeral, w1) \<Rightarrow> give (map_sum (\<lambda>e. other (''PIN key derivation failed: '' @ core_error_text e))
           (\<lambda>secret. (secret, cx_public E ephemeral)) (derive (cx_crypto E) protocol (cx_dh E ephemeral peer))) w1)"
    by (rule quietI) (auto simp: give_def dest: draw_scalar_log [OF _ refl] split: option.splits prod.splits)
qed

lemma quietly_ask_finger:
  assumes "\<And>body. quietly E rp (f body)"
  shows "quietly E rp (then_do (give (map_sum g id
          (client_pin_encode (cx_cose_value E) (cx_ser E) (uv_token protocol key BOTH (Some (rp_id rp))))))
        (\<lambda>request. then_do (exchange (logged D) request (Some Fingerprint)) f))"
proof (cases "client_pin_encode (cx_cose_value E) (cx_ser E) (uv_token protocol key BOTH (Some (rp_id rp)))")
  case (Inl e)
  then show ?thesis by (simp add: quietly_def emits_def then_do_def give_def)
next
  case (Inr request)
  have "quietly E rp (then_do (exchange (logged D) request (Some Fingerprint)) f)"
    by (intro quietly_then quietly_exchange assms) (use Inr in \<open>auto simp: quiet_def\<close>)
  with Inr show ?thesis by (simp add: then_do_def give_def)
qed

lemma quietly_uv_token: "quietly E rp (fetch_uv_token E (logged D) rp protocol)"
  unfolding fetch_uv_token_def case_prod_beta
  by (rule quietly_then [OF quietly_map_err [OF quietly_agree_key] quietly_ask_finger]) (intro quietly_then quietly_give)

lemma quietly_ask_pin_retries:
  "ask_pin_retries E (logged D) protocol (w, l) = Some (n, (w', l')) \<Longrightarrow> \<exists>new. l' = l @ new \<and> list_all (quiet E rp) new"
  by (auto simp: ask_pin_retries_def exchange_def quiet_None split: sum.splits option.splits)

lemma quietly_pin_attempt: "quietly E rp (pin_attempt E (logged D) rp info protocol retry)"
proof (rule quietI)
  fix w l r w' l'
  assume run: "pin_attempt E (logged D) rp info protocol retry (w, l) = Some (r, (w', l'))"
  then obtain n w1 l1 where ask: "ask_pin_retries E (logged D) protocol (w, l) = Some (n, (w1, l1))"
    by (auto simp: pin_attempt_def split: option.splits)
  define rest where "rest = (\<lambda>pin. then_do (agree_key E (logged D) protocol) (\<lambda>(secret, platform_key).
     then_do (random (logged D) 16) (\<lambda>iv.
     then_do (give (err_text ''PIN encryption failed: '' (encrypt_pin_hash (cx_crypto E) secret pin iv))) (\<lambda>pin_hash_enc.
     let permissions = (if ai_pin_uv_auth_token info then Some BOTH else None)
     in then_do (give (map_sum encode_failed id
                   (client_pin_encode (cx_cose_value E) (cx_ser E)
                      (pin_token protocol platform_key pin_hash_enc permissions
                         (map_option (\<lambda>_. rp_id rp) permissions))))) (\<lambda>request w3.
       case exchange (logged D) request None w3 of
         None \<Rightarrow> None
       | Some (Inr body, w4) \<Rightarrow> Some (token_from_reply E secret body, w4)
       | Some (Inl e, w4) \<Rightarrow> Some (pin_refusal (po_product (logged D) w4) e, w4))))))"
  have last: "quietly E rp (\<lambda>w3. case exchange (logged D) request None w3 of
         None \<Rightarrow> None
       | Some (Inr body, w4) \<Rightarrow> Some (token_from_reply E secret body, w4)
       | Some (Inl e, w4) \<Rightarrow> Some (pin_refusal (po_product (logged D) w4) e, w4))" for request secret
    by (rule quietI) (auto simp: exchange_def quiet_None split: option.splits sum.splits)
  have q: "quietly E rp (rest pin)" for pin
    unfolding rest_def case_prod_beta Let_def
    by (intro quietly_then quietly_agree_key quietly_random quietly_give last [unfolded case_prod_beta])
  obtain new where new: "l1 = l @ new" "list_all (quiet E rp) new" using quietly_ask_pin_retries [OF ask] by blast
  obtain answer w2 where pin: "po_pin D w1 \<lparr>pq_product = po_product D w1, pq_device = po_path D w1,
      pq_retries = n, pq_retry = retry\<rparr> = (answer, w2)" by force
  show "\<exists>new. l' = l @ new \<and> list_all (quiet E rp) new"
  proof (cases answer)
    case None
    with run ask pin new show ?thesis by (auto simp: pin_attempt_def)
  next
    case (Some p)
    with run ask pin have "rest p (w2, l1) = Some (r, (w', l'))"
      by (simp add: pin_attempt_def rest_def)
    from quietD [OF q this] new show ?thesis by auto
  qed
qed

lemma quiet_pin_loop:
  "pin_loop E D' rp info protocol retry s = Some y \<Longrightarrow> D' = logged D \<Longrightarrow>
   \<exists>new. snd (snd y) = snd s @ new \<and> list_all (quiet E rp) new"
proof (induction E D' rp info protocol retry s y rule: pin_loop.raw_induct [rotated, consumes 1])
  case (1 f E D' rp info protocol retry s y)
  obtain r s1 where step: "pin_attempt E D' rp info protocol retry s = Some (r, s1)"
    using 1(2) by (auto split: option.splits)
  then obtain new where new: "snd s1 = snd s @ new" "list_all (quiet E rp) new"
    using quietD [OF quietly_pin_attempt] 1(3) by (metis prod.collapse)
  show ?case
  proof (cases "r = Inr AskAgain")
    case True
    with 1(2) step have "f E D' rp info protocol True s1 = Some y" by simp
    from 1(1) [OF this 1(3)] new show ?thesis by auto
  next
    case False
    with 1(2) step have "snd y = s1" by (auto split: sum.splits pin_turn.splits)
    with new show ?thesis by auto
  qed
qed

lemma quietly_pin_loop: "quietly E rp (pin_loop E (logged D) rp info protocol retry)"
  by (rule quietI) (use quiet_pin_loop [OF _ refl] in fastforce)

lemma quietly_by_pin: "quietly E rp (by_pin E (logged D) rp info)"
  by (simp add: by_pin_def quietly_pin_loop quietly_give)

lemma quietly_pin_session: "quietly E rp (pin_session E (logged D) rp info)"
proof (cases "ai_user_verification info \<and> ai_pin_uv_auth_token info")
  case False
  then show ?thesis
    by (cases "ai_user_verification info") (simp_all add: pin_session_def quietly_by_pin quietly_give)
next
  case True
  show ?thesis
  proof (rule quietI)
    fix w l r w' l'
    assume run: "pin_session E (logged D) rp info (w, l) = Some (r, (w', l'))"
    with True obtain r1 w1 l1 where uv: "fetch_uv_token E (logged D) rp (pin_protocol info) (w, l) = Some (r1, (w1, l1))"
      by (cases "fetch_uv_token E (logged D) rp (pin_protocol info) (w, l)") (auto simp: pin_session_def)
    obtain new where new: "l1 = l @ new" "list_all (quiet E rp) new" using quietD [OF quietly_uv_token uv] by blast
    have "l' = l1 \<or> by_pin E (logged D) rp info (w1, l1) = Some (r, (w', l'))"
      using run uv True by (auto simp: pin_session_def split: sum.splits if_splits)
    then obtain more where "l' = l1 @ more" "list_all (quiet E rp) more"
    proof (elim disjE)
      assume "l' = l1"
      then show thesis using that [of "[]"] by simp
    next
      assume "by_pin E (logged D) rp info (w1, l1) = Some (r, (w', l'))"
      from quietD [OF quietly_by_pin this] show thesis using that by blast
    qed
    with new show "\<exists>new. l' = l @ new \<and> list_all (quiet E rp) new"
      by (intro exI [of _ "new @ more"]) simp
  qed
qed

lemma map_sum_Inr [simp]:
  "map_sum f id r = Inr x \<longleftrightarrow> r = Inr x" "Inr x = map_sum f id r \<longleftrightarrow> r = Inr x"
  by (cases r; auto)+

lemma emits_ofD: "emits m P \<Longrightarrow> m (w, l) = Some (r, (w', l')) \<Longrightarrow> \<exists>new. l' = l @ new \<and> P r new"
  unfolding emits_def by blast

lemma emits_quietly: "quietly E rp m \<Longrightarrow> (\<And>r new. list_all (quiet E rp) new \<Longrightarrow> P r new) \<Longrightarrow> emits m P"
  unfolding quietly_def by (rule emits_weaken)

definition asked_info ::
  "('k, 'p) ctap_env \<Rightarrow> ceremony_error + authenticator_info \<Rightarrow> exchanges \<Rightarrow> bool" where
  "asked_info E r new \<longleftrightarrow>
     (\<exists>reply. new = [([0x04], None, reply)]
        \<and> (\<forall>info. r = Inr info \<longrightarrow> (\<exists>body. reply = Inr body \<and> parse_get_info (cx_de E) body = Inr info)))"

lemma emits_get_info: "emits (get_info E (logged D)) (asked_info E)"
  unfolding emits_def get_info_def asked_info_def get_info_request_def
  by (auto simp: then_do_def give_def map_err_def exchange_def encode_value_def err_text_def
      split: option.splits sum.splits)

lemma emits_send:
  "emits (send (logged D) request)
     (\<lambda>r new. \<exists>reply. new = [(request, Some Presence, reply)] \<and> (\<forall>body. r = Inr body \<longrightarrow> reply = Inr body))"
  unfolding emits_def send_def exchange_def
  by (auto split: option.splits sum.splits)

text \<open>One assertion a reply carries, and the walk through the rest of them.\<close>

definition answered :: "('k, 'p) ctap_env \<Rightarrow> get_assertion_response \<Rightarrow> bytes \<times> touch_kind option \<times> (cable_error + bytes) \<Rightarrow> bool" where
  "answered E g x = (case x of (_, _, Inr body) \<Rightarrow> parse_get_assertion (cx_de E) body = Inr g | _ \<Rightarrow> False)"

definition is_next :: "bytes \<times> touch_kind option \<times> (cable_error + bytes) \<Rightarrow> bool" where
  "is_next x = (case x of (request, touch, _) \<Rightarrow> request = [0x08] \<and> touch = None)"

lemma emits_collect_next:
  "emits (collect_next E (logged D) n so_far)
     (\<lambda>r new. length new \<le> n \<and> list_all is_next new
        \<and> (\<exists>got. r = Inr (so_far @ got) \<and> (\<forall>g\<in>set got. \<exists>x\<in>set new. answered E g x)))"
proof (induction n arbitrary: so_far)
  case 0
  show ?case by (simp add: emits_def give_def)
next
  case (Suc n)
  have req: "get_next_assertion_request = Inr [0x08]"
    by (simp add: get_next_assertion_request_def encode_value_def)
  show ?case
    unfolding emits_def
  proof (intro allI impI)
    fix w l r w' l'
    assume run: "collect_next E (logged D) (Suc n) so_far (w, l) = Some (r, (w', l'))"
    then obtain reply w1 where ex: "po_exchange D w [0x08] None = Some (reply, w1)"
      by (auto simp: req then_do_def give_def exchange_def split: option.splits)
    let ?x = "([0x08], None, reply) :: bytes \<times> touch_kind option \<times> (cable_error + bytes)"
    show "\<exists>new. l' = l @ new \<and> length new \<le> Suc n \<and> list_all is_next new
        \<and> (\<exists>got. r = Inr (so_far @ got) \<and> (\<forall>g\<in>set got. \<exists>x\<in>set new. answered E g x))"
    proof (cases "\<exists>body nxt. reply = Inr body \<and> parse_get_assertion (cx_de E) body = Inr nxt")
      case True
      then obtain body nxt where more: "reply = Inr body" "parse_get_assertion (cx_de E) body = Inr nxt" by blast
      with run ex have "collect_next E (logged D) n (so_far @ [nxt]) (w1, l @ [?x]) = Some (r, (w', l'))"
        by (simp add: req then_do_def give_def exchange_def)
      from emits_ofD [OF Suc.IH this] obtain new got where
        new: "l' = (l @ [?x]) @ new" "length new \<le> n" "list_all is_next new" "r = Inr ((so_far @ [nxt]) @ got)"
        "\<forall>g\<in>set got. \<exists>x\<in>set new. answered E g x" by auto
      have "answered E nxt ?x" using more by (simp add: answered_def)
      with new show ?thesis
        by (intro exI [of _ "?x # new"] conjI exI [of _ "nxt # got"]) (simp_all add: is_next_def)
    next
      case False
      with run ex have "l' = l @ [?x]" "r = Inr so_far"
        by (auto simp: req then_do_def give_def exchange_def split: sum.splits)
      then show ?thesis by (intro exI [of _ "[?x]"] conjI exI [of _ "[]"]) (simp_all add: is_next_def)
    qed
  qed
qed

lemma emits_choose:
  "emits (choose_credential E (logged D) first reported)
     (\<lambda>r new. length new \<le> MAX_ENUMERATED_CREDENTIALS \<and> list_all is_next new
        \<and> (\<forall>g. r = Inr g \<longrightarrow> g = first \<or> (\<exists>x\<in>set new. answered E g x)))"
  unfolding choose_credential_def
proof (rule emits_then [OF emits_collect_next], goal_cases)
  case (2 answers new)
  then obtain got where got: "answers = first # got" "\<forall>g\<in>set got. \<exists>x\<in>set new. answered E g x"
      "length new \<le> min (unat reported - 1) MAX_ENUMERATED_CREDENTIALS" "list_all is_next new" by auto
  then have all: "g = first \<or> (\<exists>x\<in>set new. answered E g x)" if "g \<in> set answers" for g
    using that by auto
  have "answers \<noteq> []" using got by simp
  then have "hd answers = first \<or> (\<exists>x\<in>set new. answered E (hd answers) x)"
      and "\<forall>i<length answers. answers ! i = first \<or> (\<exists>x\<in>set new. answered E (answers ! i) x)"
    using all by (simp_all del: One_nat_def)
  with got(3,4) show ?case
    by (auto simp: emits_def Let_def split: prod.splits option.splits if_splits)
qed auto

section \<open>A ceremony's trace\<close>

text \<open>
  What an assertion may put on the wire: \<open>getInfo\<close>; then nothing unless the authenticator can verify
  its user; then a session with no touch but a finger; then at most one request that asks for a touch,
  which names the relying party, covers the client data of this challenge and demands verification by
  a token over that hash or by the authenticator itself; then at most sixteen more for the rest of its
  credentials. An answer is one the authenticator gave to those requests.
\<close>

definition demands_verification ::
  "('k, 'p) ctap_env \<Rightarrow> bool \<Rightarrow> pin_uv_auth option \<Rightarrow> bytes \<Rightarrow> bool" where
  "demands_verification E uv auth the_hash \<longleftrightarrow>
     (if uv then auth = None else (\<exists>t. auth = Some (param (cx_crypto E) t the_hash)))"

definition after_info ::
  "('k, 'p) ctap_env \<Rightarrow> relying_party \<Rightarrow> (authenticator_info \<Rightarrow> bool) \<Rightarrow> exchanges \<Rightarrow> exchanges \<Rightarrow> exchanges \<Rightarrow> bool" where
  "after_info E rp can new before rest \<longleftrightarrow>
     (\<exists>body info. new = ([0x04], None, Inr body) # before @ rest
        \<and> parse_get_info (cx_de E) body = Inr info
        \<and> (ai_client_pin_set info \<or> ai_user_verification info) \<and> can info
        \<and> list_all (quiet E rp) before)"

definition assertion_asked ::
  "('k, 'p) ctap_env \<Rightarrow> relying_party \<Rightarrow> bytes \<Rightarrow> string option \<Rightarrow> bytes \<times> touch_kind option \<times> (cable_error + bytes) \<Rightarrow> bool" where
  "assertion_asked E rp the_hash credential x \<longleftrightarrow>
     (\<exists>q reply request. x = (request, Some Presence, reply) \<and> get_assertion_encode (cx_ser E) q = Inr request
        \<and> ga_rp_id q = rp_id rp \<and> ga_client_data_hash q = the_hash \<and> ga_allow q = allow_list credential
        \<and> demands_verification E (ga_user_verification q) (ga_pin_uv_auth q) the_hash)"

definition assertion_trace ::
  "('k, 'p) ctap_env \<Rightarrow> relying_party \<Rightarrow> bytes \<Rightarrow> string option \<Rightarrow> ceremony_error + ctap_assertion \<Rightarrow> exchanges \<Rightarrow> bool" where
  "assertion_trace E rp challenge credential r new \<longleftrightarrow>
     (let client_data = client_data_json E Get challenge (rp_origin rp);
          the_hash = sha256 (cx_crypto E) (as_bytes client_data)
      in (\<exists>e reply. r = Inl e \<and> new = [([0x04], None, reply)])
         \<or> (\<exists>before rest. after_info E rp (\<lambda>_. True) new before rest
             \<and> (if rest = [] then (\<exists>e. r = Inl e)
                else assertion_asked E rp the_hash credential (hd rest)
                  \<and> list_all is_next (tl rest) \<and> length (tl rest) \<le> MAX_ENUMERATED_CREDENTIALS
                  \<and> (\<forall>a. r = Inr a \<longrightarrow> (\<exists>g resolved. (\<exists>x\<in>set rest. answered E g x)
                       \<and> resolved_credential g credential = Inr resolved \<and> a = assertion_of client_data g resolved)))))"

definition registration_asked ::
  "('k, 'p) ctap_env \<Rightarrow> relying_party \<Rightarrow> bytes \<Rightarrow> bytes \<times> touch_kind option \<times> (cable_error + bytes) \<Rightarrow> bool" where
  "registration_asked E rp the_hash x \<longleftrightarrow>
     (\<exists>q reply request. x = (request, Some Presence, reply) \<and> make_credential_encode (cx_ser E) q = Inr request
        \<and> mc_rp_id q = rp_id rp \<and> mc_client_data_hash q = the_hash \<and> mc_resident_key q
        \<and> demands_verification E (mc_user_verification q) (mc_pin_uv_auth q) the_hash)"

definition registration_trace ::
  "('k, 'p) ctap_env \<Rightarrow> relying_party \<Rightarrow> ceremony_error + ctap_registration \<Rightarrow> exchanges \<Rightarrow> bool" where
  "registration_trace E rp r new \<longleftrightarrow>
     (\<exists>e reply. r = Inl e \<and> new = [([0x04], None, reply)])
     \<or> (\<exists>before rest. after_info E rp ai_resident_key new before rest
         \<and> (if rest = [] then (\<exists>e. r = Inl e)
            else (\<exists>challenge. let client_data = client_data_json E Create challenge (rp_origin rp);
                              the_hash = sha256 (cx_crypto E) (as_bytes client_data)
                  in (\<exists>x. rest = [x] \<and> registration_asked E rp the_hash x
                       \<and> (\<forall>g. r = Inr g \<longrightarrow> (\<exists>request touch body. x = (request, touch, Inr body)
                            \<and> registration_of E client_data body = Inr g))))))"

lemma emits_verifiable:
  "emits (verifiable (logged D) info)
     (\<lambda>r new. new = [] \<and> (\<forall>u. r = Inr u \<longrightarrow> ai_client_pin_set info \<or> ai_user_verification info))"
  by (auto simp: emits_def verifiable_def)

lemma emits_rejected: "emits (rejected (logged D) e bad) (\<lambda>r new. new = [] \<and> (\<forall>u. r = Inr u \<longrightarrow> \<not> bad))"
  by (auto simp: emits_def rejected_def)

lemma emits_user_handle: "emits (user_handle_of (logged D) name) (\<lambda>_ new. new = [])"
  by (auto simp: emits_def user_handle_of_def Let_def split: prod.splits)

lemma emits_give_result: "emits (give r) (\<lambda>r' new. r' = r \<and> new = [])"
  by (rule emits_give) simp

lemma demands_token: "demands_verification E (token = None) (map_option (\<lambda>t. param (cx_crypto E) t h) token) h"
  by (cases token) (auto simp: demands_verification_def)

lemma emits_assert_with:
  fixes E :: "('k, 'p) ctap_env" and credential client_data token
  defines "the_hash \<equiv> sha256 (cx_crypto E) (as_bytes client_data)"
  shows "emits (assert_with E (logged D) rp credential client_data token)
     (\<lambda>r rest. if rest = [] then (\<exists>e. r = Inl e)
        else assertion_asked E rp the_hash credential (hd rest)
          \<and> list_all is_next (tl rest) \<and> length (tl rest) \<le> MAX_ENUMERATED_CREDENTIALS
          \<and> (\<forall>a. r = Inr a \<longrightarrow> (\<exists>g resolved. (\<exists>x\<in>set rest. answered E g x)
               \<and> resolved_credential g credential = Inr resolved \<and> a = assertion_of client_data g resolved)))"
    (is "emits _ ?R")
  unfolding assert_with_def
proof (rule emits_then [OF emits_give_result], goal_cases)
  case (1 e new)
  then show ?case by simp
next
  case (2 request new)
  define q where "q = get_assertion_of E rp credential the_hash token"
  have q: "get_assertion_encode (cx_ser E) q = Inr request"
    using 2 by (cases "get_assertion_encode (cx_ser E) q") (simp_all add: q_def the_hash_def)
  have asked: "assertion_asked E rp the_hash credential (request, Some Presence, reply)" for reply
    unfolding assertion_asked_def using q
    by (intro exI [of _ q] exI [of _ reply] exI [of _ request]) (simp add: q_def get_assertion_of_def demands_token)
  have walk: "emits (case gr_number_of_credentials first of
                Some reported \<Rightarrow>
                  if 1 < reported \<and> credential = None then choose_credential E (logged D) first reported else give (Inr first)
              | None \<Rightarrow> give (Inr first))
     (\<lambda>r new. length new \<le> MAX_ENUMERATED_CREDENTIALS \<and> list_all is_next new
        \<and> (\<forall>g. r = Inr g \<longrightarrow> g = first \<or> (\<exists>x\<in>set new. answered E g x)))" for first
    using emits_choose [of E D first] by (auto intro!: emits_give split: option.splits)
  from 2 have "new = []" by simp
  show ?case
    unfolding \<open>new = []\<close> append_Nil
  proof (rule emits_then [OF emits_send], goal_cases)
    case (1 e new)
    then show ?case using asked by auto
  next
    case (2 body new)
    then have new: "new = [(request, Some Presence, Inr body)]" by auto
    show ?case
      unfolding new
    proof (rule emits_then [OF emits_give_result], goal_cases)
      case (1 e new)
      then show ?case using asked by auto
    next
      case (2 first new)
      then have first: "answered E first (request, Some Presence, Inr body)" "new = []"
        by (auto simp: answered_def err_text_def)
      show ?case
        unfolding first(2) append_Nil2
      proof (rule emits_then [OF walk], goal_cases)
        case (1 e new)
        then show ?case using asked by auto
      next
        case (2 response new)
        then have g: "\<exists>x\<in>set ((request, Some Presence, Inr body) # new). answered E response x" using first by auto
        show ?case
        proof (rule emits_then [OF emits_give_result], goal_cases)
          case (1 e new2)
          then show ?case using asked 2 by auto
        next
          case (2 resolved new2)
          then have "resolved_credential response credential = Inr resolved" "new2 = []" by auto
          with g have "\<exists>g r'. (\<exists>x\<in>set ((request, Some Presence, Inr body) # new). answered E g x)
              \<and> resolved_credential g credential = Inr r'
              \<and> assertion_of client_data response resolved = assertion_of client_data g r'"
            by blast
          with \<open>length new \<le> _ \<and> _\<close> \<open>new2 = []\<close> asked show ?case
            by (intro emits_give) simp
        qed
      qed
    qed
  qed
qed

lemma emits_assert: "emits (assert_credential E (logged D) rp challenge credential) (assertion_trace E rp challenge credential)"
  unfolding assert_credential_def
proof (rule emits_then [OF emits_get_info], goal_cases)
  case (1 e new)
  then show ?case by (auto simp: asked_info_def assertion_trace_def)
next
  case (2 info new)
  then obtain body where new: "new = [([0x04], None, Inr body)]" and info: "parse_get_info (cx_de E) body = Inr info"
    by (auto simp: asked_info_def)
  show ?case
    unfolding new
  proof (rule emits_then [OF emits_verifiable], goal_cases)
    case (1 e new2)
    then show ?case by (auto simp: assertion_trace_def)
  next
    case (2 u new2)
    then have "new2 = []" and can: "ai_client_pin_set info \<or> ai_user_verification info" by auto
    have after: "after_info E rp (\<lambda>_. True) ([([0x04], None, Inr body)] @ before @ rest) before rest"
      if "list_all (quiet E rp) before" for before rest
      using that info can by (simp add: after_info_def)
    show ?case
      unfolding \<open>new2 = []\<close> append_Nil
    proof (rule emits_then [OF quietly_pin_session [unfolded quietly_def]], goal_cases)
      case (1 e before)
      from after [OF this, of "[]"] show ?case by (auto simp: assertion_trace_def)
    next
      case (2 token before)
      show ?case
      proof (rule emits_weaken [OF emits_assert_with])
        fix r :: "ceremony_error + ctap_assertion" and rest
        assume "if rest = [] then (\<exists>e. r = Inl e)
          else assertion_asked E rp (sha256 (cx_crypto E) (as_bytes (client_data_json E Get challenge (rp_origin rp)))) credential (hd rest)
            \<and> list_all is_next (tl rest) \<and> length (tl rest) \<le> MAX_ENUMERATED_CREDENTIALS
            \<and> (\<forall>a. r = Inr a \<longrightarrow> (\<exists>g resolved. (\<exists>x\<in>set rest. answered E g x)
                 \<and> resolved_credential g credential = Inr resolved
                 \<and> a = assertion_of (client_data_json E Get challenge (rp_origin rp)) g resolved))"
        with after [OF 2, of rest]
        show "assertion_trace E rp challenge credential r ([([0x04], None, Inr body)] @ before @ rest)"
          unfolding assertion_trace_def Let_def by blast
      qed
    qed
  qed
qed

lemma emits_register_with:
  fixes E :: "('k, 'p) ctap_env" and client_data token name exclude
  defines "the_hash \<equiv> sha256 (cx_crypto E) (as_bytes client_data)"
  shows "emits (register_with E (logged D) rp name exclude client_data token)
     (\<lambda>r rest. if rest = [] then (\<exists>e. r = Inl e)
        else (\<exists>x. rest = [x] \<and> registration_asked E rp the_hash x
               \<and> (\<forall>g. r = Inr g \<longrightarrow> (\<exists>request touch body. x = (request, touch, Inr body)
                    \<and> registration_of E client_data body = Inr g))))"
  unfolding register_with_def
proof (rule emits_then [OF emits_user_handle], goal_cases)
  case (1 e new)
  then show ?case by simp
next
  case (2 user_id new)
  then have "new = []" by simp
  show ?case
    unfolding \<open>new = []\<close> append_Nil
  proof (rule emits_then [OF emits_give_result], goal_cases)
    case (1 e new)
    then show ?case by simp
  next
    case (2 request new)
    define q where "q = make_credential_of E rp name exclude the_hash token user_id"
    have q: "make_credential_encode (cx_ser E) q = Inr request" "new = []"
      using 2 by (simp_all add: q_def the_hash_def)
    then have asked: "registration_asked E rp the_hash (request, Some Presence, reply)" for reply
      unfolding registration_asked_def
      by (intro exI [of _ q] exI [of _ reply] exI [of _ request]) (simp add: q_def make_credential_of_def demands_token)
    show ?case
      unfolding q(2) append_Nil
    proof (rule emits_then [OF emits_send], goal_cases)
      case (1 e new)
      then show ?case using asked by auto
    next
      case (2 body new)
      then show ?case using asked by (intro emits_give) auto
    qed
  qed
qed

lemma emits_register: "emits (register E (logged D) rp name exclude) (registration_trace E rp)"
  unfolding register_def
proof (rule emits_then [OF emits_get_info], goal_cases)
  case (1 e new)
  then show ?case by (auto simp: asked_info_def registration_trace_def)
next
  case (2 info new)
  then obtain body where new: "new = [([0x04], None, Inr body)]" and info: "parse_get_info (cx_de E) body = Inr info"
    by (auto simp: asked_info_def)
  show ?case
    unfolding new
  proof (rule emits_then [OF emits_verifiable], goal_cases)
    case (1 e new2)
    then show ?case by (auto simp: registration_trace_def)
  next
    case (2 u new2)
    then have "new2 = []" and can: "ai_client_pin_set info \<or> ai_user_verification info" by auto
    show ?case
      unfolding \<open>new2 = []\<close> append_Nil
    proof (rule emits_then [OF emits_rejected], goal_cases)
      case (1 e new3)
      then show ?case by (auto simp: registration_trace_def)
    next
      case (2 u2 new3)
      then have "new3 = []" "ai_resident_key info" by auto
      then have after: "after_info E rp ai_resident_key ([([0x04], None, Inr body)] @ before @ rest) before rest"
        if "list_all (quiet E rp) before" for before rest
        using that info can by (simp add: after_info_def)
      show ?case
        unfolding \<open>new3 = []\<close> append_Nil
      proof (rule emits_then [OF emits_random [where P = "\<lambda>r new. new = [] \<and> (\<exists>bs. r = Inr bs)"]], goal_cases)
        case (3 challenge new4)
        then have "new4 = []" by simp
        show ?case
          unfolding \<open>new4 = []\<close> append_Nil
        proof (rule emits_then [OF quietly_pin_session [unfolded quietly_def]], goal_cases)
          case (1 e before)
          from after [OF this, of "[]"] show ?case by (auto simp: registration_trace_def)
        next
          case (2 token before)
          show ?case
          proof (rule emits_weaken [OF emits_register_with])
            fix r :: "ceremony_error + ctap_registration" and rest
            assume "if rest = [] then (\<exists>e. r = Inl e)
              else (\<exists>x. rest = [x] \<and> registration_asked E rp
                       (sha256 (cx_crypto E) (as_bytes (client_data_json E Create challenge (rp_origin rp)))) x
                     \<and> (\<forall>g. r = Inr g \<longrightarrow> (\<exists>request touch body. x = (request, touch, Inr body)
                          \<and> registration_of E (client_data_json E Create challenge (rp_origin rp)) body = Inr g)))"
            with after [OF 2, of rest]
            show "registration_trace E rp r ([([0x04], None, Inr body)] @ before @ rest)"
              unfolding registration_trace_def Let_def
              by (intro disjI2 exI [of _ before] exI [of _ rest]) (cases "rest = []"; simp; blast)
          qed
        qed
      qed auto
    qed
  qed
qed

section \<open>What the wallet reads back\<close>

lemma validate_own_client_data:
  "validate_client_data kind (as_bytes (client_data_json E kind challenge origin)) ad
   = (if kind = Create then Inr ()
      else if length ad < 33 then Inl (InvalidClientData ''authenticatorData too short'')
      else if ad ! 32 AND 0x04 \<noteq> 0x04
      then Inl (InvalidClientData (''User Verification flag not set (flags=0x'' @ show_hex (unat (ad ! 32)) @ '')''))
      else Inr ())"
  by (cases kind) (simp_all add: validate_client_data_def client_data_json_def GET_PREFIX_def CREATE_PREFIX_def as_bytes_def)

lemma takeWhile_name: "(\<forall>c\<in>set name. byte_of c \<noteq> 0) \<Longrightarrow> takeWhile (\<lambda>b. b \<noteq> 0) (as_bytes name @ 0 # rest) = as_bytes name"
proof -
  assume name: "\<forall>c\<in>set name. byte_of c \<noteq> 0"
  have "(of_nat (byte_of c) :: u8) \<noteq> 0" if "byte_of c \<noteq> 0" for c
    using that byte_of_bound [of c] by (metis unat_0 unat_of_nat_u8 mod_less)
  with name have "\<forall>b\<in>set (as_bytes name). b \<noteq> 0" by (auto simp: as_bytes_def)
  then show ?thesis by (simp add: takeWhile_append)
qed

lemma length_stamp_uuid: "length (stamp_uuid uuid) = length uuid"
  by (simp add: stamp_uuid_def Let_def)

lemma length_user_handle: "length uuid = 16 \<Longrightarrow> length (user_handle name uuid) = length name + 37"
  by (simp add: user_handle_def Let_def length_to_hex length_stamp_uuid subslice_def)

section \<open>Properties\<close>


text \<open>
  What a ceremony writes the wallet accepts and reads back. The client data it builds passes the
  wallet's own check, an assertion's exactly when the authenticator set the verification flag; and a
  user handle gives back the wallet's name and fits WebAuthn's 64 bytes exactly for names of up to 27.
\<close>

theorem ceremony_text_read_back:
  assumes "valid_utf8 name" and "\<forall>c\<in>set name. byte_of c \<noteq> 0" and "length uuid = 16"
  shows "validate_client_data Create (as_bytes (client_data_json E Create challenge origin)) ad = Inr ()
    \<and> (validate_client_data Get (as_bytes (client_data_json E Get challenge origin)) ad = Inr ()
         \<longleftrightarrow> 33 \<le> length ad \<and> ad ! 32 AND 0x04 = 0x04)
    \<and> wallet_name_from_handle (user_handle name uuid) = name
    \<and> (length (user_handle name uuid) \<le> 64 \<longleftrightarrow> length name \<le> 27)"
proof -
  have "wallet_name_from_handle (user_handle name uuid) = name"
    using assms(1) takeWhile_name [OF assms(2)]
    by (simp add: wallet_name_from_handle_def user_handle_def Let_def)
  then show ?thesis
    using length_user_handle [OF assms(3), of name] by (auto simp: validate_own_client_data)
qed

theorem ceremony_text_read_back_witness:
  "wallet_name_from_handle (user_handle ''me'' (zeros 16)) = ''me''"
proof -
  have "valid_utf8 ''me''" by (rule valid_utf8_ascii) (simp add: is_ascii_def)
  then show ?thesis
    by (rule ceremony_text_read_back [THEN conjunct2, THEN conjunct2, THEN conjunct1]) simp_all
qed

end
