(* ===== verification/TrustedSigner.thy ===== *)
theory TrustedSigner
  imports WebAuthn Json Utf8
begin

text \<open>
  \<open>trusted_signer.rs\<close>: the signing page. Its address (\<open>signer_url\<close> and the relying party behind it),
  the request it is sent, the answer the wallet accepts (\<open>verify\<close>), and the URLs of the fragment and
  callback channel. Base64, JSON text, compression and Unicode upper-casing are the crates' and the
  library's, and come as a record of functions.
\<close>

section \<open>The crates\<close>

record signer_env =
  b64_encode :: "bytes \<Rightarrow> string"
  b64_decode :: "string \<Rightarrow> string + bytes"
  json_from_slice :: "bytes \<Rightarrow> json option"
  json_to_string :: "json \<Rightarrow> string"
  deflate :: "bytes \<Rightarrow> bytes"
  to_uppercase :: "string \<Rightarrow> string"

type_synonym u128 = "128 word"

section \<open>The page's address\<close>

definition DEFAULT_SIGNER_URL :: string where
  "DEFAULT_SIGNER_URL = ''https://sign.getvela.app/''"

definition CALLBACK_URL :: string where
  "CALLBACK_URL = ''velawallet://sign-result''"

datatype signer_url_error = Invalid | Insecure

text \<open>What one character becomes; the code points are those of a CJK keyboard.\<close>

definition fold_char :: "string \<Rightarrow> string" where
  "fold_char ch =
     (let cp = code_point ch
      in if 0xFF01 \<le> cp \<and> cp \<le> 0xFF5E then [char_of (cp - 0xFEE0)]
         else if cp = 0x3000 then '' ''
         else if cp = 0x3002 \<or> cp = 0xFF61 then ''.''
         else ch)"

definition fold_width :: "string \<Rightarrow> string" where
  "fold_width input = concat (map fold_char (chars input))"

definition is_ascii_lowercase :: "char \<Rightarrow> bool" where
  "is_ascii_lowercase c \<longleftrightarrow> 97 \<le> byte_of c \<and> byte_of c \<le> 122"

definition host_label :: "string \<Rightarrow> bool" where
  "host_label l \<longleftrightarrow>
     l \<noteq> [] \<and> length l \<le> 63 \<and> hd l \<noteq> CHR ''-'' \<and> last l \<noteq> CHR ''-''
     \<and> list_all (\<lambda>c. is_ascii_lowercase c \<or> is_ascii_digit c \<or> c = CHR ''-'') l"

definition is_ascii_host :: "string \<Rightarrow> bool" where
  "is_ascii_host host \<longleftrightarrow>
     host \<noteq> [] \<and> length host \<le> 253 \<and> list_all host_label (split_char (CHR ''.'') host)"

text \<open>The digits of a port: at most five, and a value from 1 to 65535.\<close>

definition parse_port :: "string option \<Rightarrow> nat option option" where
  "parse_port port =
     (case port of
        None \<Rightarrow> Some None
      | Some digits \<Rightarrow>
          if digits = [] \<or> 5 < length digits \<or> \<not> list_all is_ascii_digit digits then None
          else case from_str_radix 16 10 digits of
              None \<Rightarrow> None
            | Some p \<Rightarrow> if 0 < p then Some (Some p) else None)"

definition v6_inner :: "string \<Rightarrow> bool" where
  "v6_inner inner \<longleftrightarrow>
     inner \<noteq> [] \<and> CHR '':'' \<in> set inner
     \<and> list_all (\<lambda>c. is_ascii_hexdigit c \<or> c = CHR '':'' \<or> c = CHR ''.'') inner"

definition host_and_port :: "string \<Rightarrow> (string \<times> nat option) option" where
  "host_and_port authority =
     (case (case strip_prefix authority ''['' of
              Some v6 \<Rightarrow>
                (case split_once v6 '']'' of
                   None \<Rightarrow> None
                 | Some (inner, after) \<Rightarrow>
                     if \<not> v6_inner inner then None
                     else (case after of
                             [] \<Rightarrow> Some (''['' @ to_ascii_lowercase inner @ '']'', None)
                           | _ \<Rightarrow> map_option (\<lambda>p. (''['' @ to_ascii_lowercase inner @ '']'', Some p))
                                    (strip_prefix after '':'')))
            | None \<Rightarrow>
                (let (host, port) = (case split_once authority '':'' of
                       Some (host, port) \<Rightarrow> (host, Some port) | None \<Rightarrow> (authority, None));
                     host2 = to_ascii_lowercase host
                 in if is_ascii_host host2 then Some (host2, port) else None)) of
        None \<Rightarrow> None
      | Some (host, port) \<Rightarrow> map_option (\<lambda>p. (host, p)) (parse_port port))"

text \<open>\<open>%{byte:02X}\<close>.\<close>

definition upper_hex :: "nat \<Rightarrow> char" where
  "upper_hex d = (if d < 10 then char_of (48 + d) else char_of (55 + d))"

definition percent_byte :: "char \<Rightarrow> string" where
  "percent_byte c = [CHR ''%'', upper_hex (byte_of c div 16), upper_hex (byte_of c mod 16)]"

definition percent_non_ascii :: "string \<Rightarrow> string" where
  "percent_non_ascii path = concat (map (\<lambda>c. if byte_of c < 128 then [c] else percent_byte c) path)"

definition is_loopback :: "string \<Rightarrow> bool" where
  "is_loopback host \<longleftrightarrow>
     host = ''localhost'' \<or> ends_with host ''.localhost'' \<or> host = ''[::1]'' \<or> starts_with host ''127.''"

definition signer_url :: "string \<Rightarrow> signer_url_error + string" where
  "signer_url input =
     (let text = trim (fold_width input)
      in if text = [] \<or> list_ex (\<lambda>ch. is_whitespace ch \<or> is_control ch) (chars text) then Inl Invalid
         else let full = (if contains text ''://'' then text else ''https://'' @ text)
         in case split_once full ''://'' of
              None \<Rightarrow> Inl Invalid
            | Some (scheme0, rest) \<Rightarrow>
                let scheme = to_ascii_lowercase scheme0; authority = upto_any ''/?#'' rest
                in if CHR ''@'' \<in> set authority then Inl Invalid
                   else case host_and_port authority of
                       None \<Rightarrow> Inl Invalid
                     | Some (host, port) \<Rightarrow>
                         if scheme = ''http'' \<and> \<not> is_loopback host then Inl Insecure
                         else if scheme \<noteq> ''https'' \<and> scheme \<noteq> ''http'' then Inl Invalid
                         else let default_port = (if scheme = ''https'' then 443 else 80);
                                  port_text = (case port of
                                      Some p \<Rightarrow> if p \<noteq> default_port then '':'' @ show_nat p else []
                                    | None \<Rightarrow> []);
                                  path0 = drop (length authority) rest;
                                  path = (if path0 = [] then ''/'' else percent_non_ascii path0)
                              in Inr (scheme @ ''://'' @ host @ port_text @ path))"

definition host_of :: "string \<Rightarrow> string" where
  "host_of authority0 =
     (let authority = to_ascii_lowercase authority0
      in case strip_prefix authority ''['' of
           Some v6 \<Rightarrow> ''['' @ hd (split_char (CHR '']'') v6) @ '']''
         | None \<Rightarrow> hd (split_char (CHR '':'') authority))"

definition registry_rp_id :: "string option \<Rightarrow> string option" where
  "registry_rp_id signer_origin =
     (case signer_origin of
        None \<Rightarrow> None
      | Some origin0 \<Rightarrow>
          (let origin = trim origin0
           in if origin = [] then None
              else let rest = (case split_once origin ''://'' of Some (_, rest) \<Rightarrow> rest | None \<Rightarrow> origin);
                       host = host_of (upto_any ''/?#'' rest)
                   in if host = [] then None
                      else if host = ''getvela.app'' \<or> ends_with host ''.getvela.app''
                      then Some ''getvela.app'' else Some host))"

text \<open>The relying parties seen, each once, in order.\<close>

fun seen_rps :: "string \<Rightarrow> string option list \<Rightarrow> string list \<Rightarrow> string list" where
  "seen_rps wallet_rp_id [] seen = seen"
| "seen_rps wallet_rp_id (origin # origins) seen =
     (let rp = unwrap_or (registry_rp_id origin) wallet_rp_id
      in seen_rps wallet_rp_id origins (if rp \<in> set seen then seen else seen @ [rp]))"

definition registry_unit_rp_id :: "string option list \<Rightarrow> string \<Rightarrow> string list + string" where
  "registry_unit_rp_id member_origins wallet_rp_id =
     (case seen_rps wallet_rp_id member_origins [] of
        [] \<Rightarrow> Inr wallet_rp_id
      | [rp] \<Rightarrow> Inr rp
      | seen \<Rightarrow> Inl seen)"

section \<open>Refusals\<close>

datatype trusted_signer_error =
    Malformed string | WrongChallenge | NotVerified | ForeignKey | BadSignature | Refused string
  | Declined | WrongToken

fun refusal_code :: "trusted_signer_error \<Rightarrow> string" where
  "refusal_code (Malformed _) = ''malformed''"
| "refusal_code WrongChallenge = ''wrong_challenge''"
| "refusal_code NotVerified = ''not_verified''"
| "refusal_code ForeignKey = ''foreign_key''"
| "refusal_code BadSignature = ''bad_signature''"
| "refusal_code (Refused _) = ''refused''"
| "refusal_code Declined = ''declined''"
| "refusal_code WrongToken = ''wrong_token''"

definition refusal :: "string \<Rightarrow> trusted_signer_error" where
  "refusal c = (if c = ''user_rejected'' \<or> c = [] then Declined else Refused c)"

section \<open>The request\<close>

record multi_send_call =
  ms_to :: string
  ms_value_hex :: string
  ms_data :: bytes

record user_operation =
  uo_sender :: string
  uo_nonce :: string
  uo_init_code :: bytes
  uo_call_data :: bytes
  uo_verification_gas_limit :: u128
  uo_call_gas_limit :: u128
  uo_pre_verification_gas :: u128
  uo_max_fee_per_gas :: u128
  uo_max_priority_fee_per_gas :: u128
  uo_paymaster_and_data :: bytes
  uo_signature :: bytes

record key_route =
  kr_credential_id :: string
  kr_method :: string
  kr_transports :: string
  kr_hints :: "string list"

record request_input =
  ri_method :: string
  ri_params :: json
  ri_origin :: string
  ri_chain_id :: u64
  ri_chain_name :: "string option"
  ri_native_symbol :: "string option"
  ri_account :: string
  ri_account_name :: "string option"
  ri_credential_ids_hex :: "string list"
  ri_key_route :: "key_route option"
  ri_user_op :: "user_operation option"
  ri_calls :: "multi_send_call list"
  ri_origin_seen_by_browser :: bool

fun trim_start_0X :: "string \<Rightarrow> string" where
  "trim_start_0X (a # b # s) =
     (if a = CHR ''0'' \<and> b = CHR ''X'' then trim_start_0X s else a # b # s)"
| "trim_start_0X s = s"

definition own_call :: "multi_send_call \<Rightarrow> json" where
  "own_call call =
     (let value = trim_start_0X (trim_start_0x (ms_value_hex call))
      in Object [(''to'', String (ms_to call)),
                 (''value'', String (''0x'' @ (if value = [] then ''0'' else value))),
                 (''data'', String (to_hex (ms_data call) True))])"

definition own_send_params :: "u64 \<Rightarrow> string \<Rightarrow> multi_send_call list \<Rightarrow> json" where
  "own_send_params chain_id account calls =
     Array [Object [(''version'', String ''1.0''), (''chainId'', String (''0x'' @ show_hex (unat chain_id))),
                    (''from'', String account), (''calls'', Array (map own_call calls))]]"

definition decimal :: "u128 \<Rightarrow> json" where
  "decimal x = String (show_nat (unat x))"

definition user_op_json :: "user_operation \<Rightarrow> json" where
  "user_op_json op =
     Object [(''sender'', String (uo_sender op)), (''nonce'', String (uo_nonce op)),
             (''initCode'', String (to_hex (uo_init_code op) True)),
             (''callData'', String (to_hex (uo_call_data op) True)),
             (''verificationGasLimit'', decimal (uo_verification_gas_limit op)),
             (''callGasLimit'', decimal (uo_call_gas_limit op)),
             (''preVerificationGas'', decimal (uo_pre_verification_gas op)),
             (''maxFeePerGas'', decimal (uo_max_fee_per_gas op)),
             (''maxPriorityFeePerGas'', decimal (uo_max_priority_fee_per_gas op)),
             (''paymasterAndData'', String (to_hex (uo_paymaster_and_data op) True))]"

definition text_of :: "json \<Rightarrow> string \<Rightarrow> string option" where
  "text_of v name = Option.bind (get v name) as_str"

definition op_bytes :: "json \<Rightarrow> string \<Rightarrow> bytes option" where
  "op_bytes v name =
     (case text_of v name of
        None \<Rightarrow> Some []
      | Some hex \<Rightarrow>
          if hex = [] \<or> hex = ''0x'' then Some []
          else case from_hex hex of Inl _ \<Rightarrow> None | Inr bs \<Rightarrow> Some bs)"

definition parse_u128 :: "nat \<Rightarrow> string \<Rightarrow> u128 option" where
  "parse_u128 radix s = map_option of_nat (from_str_radix 128 radix s)"

definition op_gas :: "json \<Rightarrow> string \<Rightarrow> u128 option" where
  "op_gas v name =
     (case get v name of
        Some (Number n) \<Rightarrow> map_option ucast (as_u64 n)
      | Some (String s) \<Rightarrow>
          (case (case strip_prefix s ''0x'' of Some hex \<Rightarrow> Some hex | None \<Rightarrow> strip_prefix s ''0X'') of
             Some hex \<Rightarrow> parse_u128 16 (if hex = [] then ''0'' else hex)
           | None \<Rightarrow> parse_u128 10 s)
      | _ \<Rightarrow> None)"

definition user_op_from_json :: "json \<Rightarrow> user_operation option" where
  "user_op_from_json v =
     do {
       sender \<leftarrow> text_of v ''sender'';
       nonce \<leftarrow> text_of v ''nonce'';
       init_code \<leftarrow> op_bytes v ''initCode'';
       call_data \<leftarrow> op_bytes v ''callData'';
       verification_gas_limit \<leftarrow> op_gas v ''verificationGasLimit'';
       call_gas_limit \<leftarrow> op_gas v ''callGasLimit'';
       pre_verification_gas \<leftarrow> op_gas v ''preVerificationGas'';
       max_fee_per_gas \<leftarrow> op_gas v ''maxFeePerGas'';
       max_priority_fee_per_gas \<leftarrow> op_gas v ''maxPriorityFeePerGas'';
       paymaster_and_data \<leftarrow> op_bytes v ''paymasterAndData'';
       Some \<lparr>uo_sender = sender, uo_nonce = nonce, uo_init_code = init_code, uo_call_data = call_data,
             uo_verification_gas_limit = verification_gas_limit, uo_call_gas_limit = call_gas_limit,
             uo_pre_verification_gas = pre_verification_gas, uo_max_fee_per_gas = max_fee_per_gas,
             uo_max_priority_fee_per_gas = max_priority_fee_per_gas,
             uo_paymaster_and_data = paymaster_and_data, uo_signature = []\<rparr>
     }"

definition b64_of_hex :: "signer_env \<Rightarrow> string \<Rightarrow> string option" where
  "b64_of_hex E hex = (case from_hex hex of Inl _ \<Rightarrow> None | Inr bs \<Rightarrow> Some (b64_encode E bs))"

definition nonempty :: "string option \<Rightarrow> string option" where
  "nonempty s = (case s of Some (c # cs) \<Rightarrow> Some (c # cs) | _ \<Rightarrow> None)"

definition entry :: "string \<Rightarrow> json option \<Rightarrow> (string \<times> json) list" where
  "entry name v = (case v of None \<Rightarrow> [] | Some j \<Rightarrow> [(name, j)])"

definition route_of :: "signer_env \<Rightarrow> request_input \<Rightarrow> (key_route \<times> string) option" where
  "route_of E input =
     (case ri_key_route input of
        None \<Rightarrow> None
      | Some route \<Rightarrow> map_option (\<lambda>b64. (route, b64)) (b64_of_hex E (kr_credential_id route)))"

definition allowed_ids :: "signer_env \<Rightarrow> request_input \<Rightarrow> string list" where
  "allowed_ids E input =
     (case route_of E input of
        Some (_, b64) \<Rightarrow> [b64]
      | None \<Rightarrow> List.map_filter (b64_of_hex E) (ri_credential_ids_hex input))"

definition signer_entry :: "signer_env \<Rightarrow> string \<Rightarrow> json" where
  "signer_entry E name =
     Object [(''name'', String name),
             (''letter'', String (case chars name of [] \<Rightarrow> [] | c # _ \<Rightarrow> to_uppercase E c))]"

definition route_entry :: "key_route \<Rightarrow> string \<Rightarrow> json" where
  "route_entry route b64 =
     Object [(''credentialId'', String b64), (''place'', String (kr_method route)),
             (''transports'', Array (map String (filter (\<lambda>t. t \<noteq> [])
                (map trim (split_char (CHR '','') (kr_transports route)))))),
             (''hints'', Array (map String (kr_hints route)))]"

definition dapp_entry :: "string \<Rightarrow> json" where
  "dapp_entry origin =
     (let host = trim_end_char (CHR ''/'') (case split_once origin ''://'' of Some (_, rest) \<Rightarrow> rest | None \<Rightarrow> origin)
      in Object [(''name'', String host), (''origin'', String origin), (''source'', String ''vela_browser'')])"

definition ENTRY_POINT :: string where
  "ENTRY_POINT = ''0x0000000071727De22E5E9d8BAf0edAc6f37da032''"

definition SAFE_4337_MODULE :: string where
  "SAFE_4337_MODULE = ''0x75cf11467937ce3F2f357CE24ffc3DBF8fD5c226''"

definition operation_entry :: "user_operation \<Rightarrow> multi_send_call list \<Rightarrow> json" where
  "operation_entry op calls =
     Object ([(''userOp'', user_op_json op)]
             @ (if calls = [] then [] else [(''feeLegIndex'', Number (PosInt (of_nat (length calls))))])
             @ [(''entryPoint'', String ENTRY_POINT), (''module'', String SAFE_4337_MODULE)])"

definition request_context :: "signer_env \<Rightarrow> request_input \<Rightarrow> (string \<times> json) list" where
  "request_context E input =
     [(''chainId'', Number (PosInt (ri_chain_id input)))]
     @ entry ''chainName'' (map_option String (nonempty (ri_chain_name input)))
     @ entry ''nativeSymbol'' (map_option String (nonempty (ri_native_symbol input)))
     @ [(''account'', String (ri_account input))]
     @ entry ''signer'' (map_option (signer_entry E) (nonempty (ri_account_name input)))
     @ (if allowed_ids E input = [] then []
        else [(''allowCredentials'', Array (map String (allowed_ids E input)))])
     @ entry ''keyRoute'' (map_option (\<lambda>(route, b64). route_entry route b64) (route_of E input))
     @ (if ri_origin_seen_by_browser input \<and> ri_origin input \<noteq> []
        then [(''dapp'', dapp_entry (ri_origin input))] else [])
     @ entry ''operation'' (map_option (\<lambda>op. operation_entry op (ri_calls input)) (ri_user_op input))"

definition request :: "signer_env \<Rightarrow> request_input \<Rightarrow> json" where
  "request E input =
     (let (method, params) =
            (if ri_method input = []
             then (''wallet_sendCalls'', own_send_params (ri_chain_id input) (ri_account input) (ri_calls input))
             else (ri_method input, ri_params input))
      in Object [(''intent'', Object [(''method'', String method), (''params'', params),
                                      (''origin'', String (ri_origin input))]),
                 (''context'', Object (request_context E input))])"

section \<open>The answer\<close>

record verified =
  vf_credential_id_hex :: string
  vf_signature_der :: bytes
  vf_authenticator_data :: bytes
  vf_client_data_json :: bytes

record wallet_key =
  wk_credential_id :: string
  wk_public_key_hex :: string

definition field :: "json \<Rightarrow> string \<Rightarrow> trusted_signer_error + string" where
  "field result name =
     (case text_of result name of None \<Rightarrow> Inl (Malformed (''missing '' @ name)) | Some s \<Rightarrow> Inr s)"

definition hex_field :: "json \<Rightarrow> string \<Rightarrow> trusted_signer_error + bytes" where
  "hex_field result name =
     (case field result name of
        Inl e \<Rightarrow> Inl e
      | Inr text \<Rightarrow>
          (case from_hex text of Inl _ \<Rightarrow> Inl (Malformed (name @ '' is not hex'')) | Inr bs \<Rightarrow> Inr bs))"

definition client_data_refusal :: "core_error \<Rightarrow> trusted_signer_error" where
  "client_data_refusal e =
     (if contains (core_error_text e) ''User Verification'' then NotVerified
      else Malformed (core_error_text e))"

definition owns_credential :: "string \<Rightarrow> wallet_key \<Rightarrow> bool" where
  "owns_credential credential_hex key \<longleftrightarrow>
     eq_ignore_ascii_case (trim_start_0x (wk_credential_id key)) credential_hex"

definition challenge_of :: "json \<Rightarrow> string" where
  "challenge_of client = unwrap_or (text_of client ''challenge'') []"

definition verify ::
  "signer_env \<Rightarrow> ('v, 's) curve \<Rightarrow> json \<Rightarrow> bytes \<Rightarrow> wallet_key list \<Rightarrow> trusted_signer_error + verified" where
  "verify E K result the_digest keys =
     (case field result ''credentialId'' of
        Inl e \<Rightarrow> Inl e
      | Inr credential_text \<Rightarrow>
     (case b64_decode E (trim_end_char (CHR ''='') credential_text) of
        Inl _ \<Rightarrow> Inl (Malformed ''credentialId is not base64url'')
      | Inr credential \<Rightarrow>
     (case hex_field result ''signature'' of
        Inl e \<Rightarrow> Inl e
      | Inr raw_signature \<Rightarrow>
     (case hex_field result ''authenticatorData'' of
        Inl e \<Rightarrow> Inl e
      | Inr authenticator_data \<Rightarrow>
     (case hex_field result ''clientDataJSON'' of
        Inl e \<Rightarrow> Inl e
      | Inr the_client_data \<Rightarrow>
     (case validate_client_data Get the_client_data authenticator_data of
        Inl e \<Rightarrow> Inl (client_data_refusal e)
      | Inr _ \<Rightarrow>
     (case json_from_slice E the_client_data of
        None \<Rightarrow> Inl (Malformed ''clientDataJSON is not JSON'')
      | Some client \<Rightarrow>
          if challenge_of client \<noteq> b64_encode E the_digest then Inl WrongChallenge
          else let credential_hex = to_ascii_lowercase (to_hex credential False)
          in case find (owns_credential credential_hex) keys of
               None \<Rightarrow> Inl ForeignKey
             | Some key \<Rightarrow>
     (case from_hex (wk_public_key_hex key) of
        Inl _ \<Rightarrow> Inl (Malformed ''wallet key is not hex'')
      | Inr point \<Rightarrow>
     (case point_from_sec1 K point of
        None \<Rightarrow> Inl (Malformed ''wallet key is not a P-256 point'')
      | Some verifying \<Rightarrow>
          if length raw_signature \<noteq> 64
          then Inl (Malformed (''signature is not r'' @ [CHR 0xE2, CHR 0x80, CHR 0x96] @ ''s''))
          else case sig_from_slice K raw_signature of
              Inl _ \<Rightarrow> Inl BadSignature
            | Inr signature0 \<Rightarrow>
                let signature = normalize_s K signature0;
                    prehash = webauthn_signing_hash K authenticator_data the_client_data
                in if \<not> verify_prehash K verifying prehash signature then Inl BadSignature
                   else Inr \<lparr>vf_credential_id_hex = credential_hex, vf_signature_der = sig_der K signature,
                             vf_authenticator_data = authenticator_data,
                             vf_client_data_json = the_client_data\<rparr>)))))))))"

section \<open>The URL channel\<close>

definition is_ascii_alphabetic :: "char \<Rightarrow> bool" where
  "is_ascii_alphabetic c \<longleftrightarrow> (65 \<le> byte_of c \<and> byte_of c \<le> 90) \<or> (97 \<le> byte_of c \<and> byte_of c \<le> 122)"

definition is_ascii_alphanumeric :: "char \<Rightarrow> bool" where
  "is_ascii_alphanumeric c \<longleftrightarrow> is_ascii_alphabetic c \<or> is_ascii_digit c"

definition lang_param :: "string \<Rightarrow> string" where
  "lang_param lang0 =
     (let lang = trim lang0
      in if lang \<noteq> [] \<and> length lang \<le> 35
            \<and> list_all (\<lambda>c. is_ascii_alphanumeric c \<or> c = CHR ''-'' \<or> c = CHR ''_'') lang
            \<and> is_ascii_alphabetic (hd lang)
         then ''&lang='' @ lang else [])"

definition unreserved :: "char \<Rightarrow> bool" where
  "unreserved c \<longleftrightarrow>
     is_ascii_alphanumeric c \<or> c = CHR ''-'' \<or> c = CHR ''_'' \<or> c = CHR ''.'' \<or> c = CHR ''~''"

definition percent :: "string \<Rightarrow> string" where
  "percent text = concat (map (\<lambda>c. if unreserved c then [c] else percent_byte c) text)"

text \<open>The loop over the bytes; two bytes behind a \<open>%\<close> are read as \<open>u8::from_str_radix\<close> reads them.\<close>

function unpercent_bytes :: "string \<Rightarrow> string" where
  "unpercent_bytes s =
     (case s of
        [] \<Rightarrow> []
      | c # rest \<Rightarrow>
          if c = CHR ''%'' \<and> 2 \<le> length rest
          then (case (if utf8_pair (rest ! 0) (rest ! 1) then from_str_radix 8 16 (take 2 rest) else None) of
                  Some b \<Rightarrow> char_of b # unpercent_bytes (drop 2 rest)
                | None \<Rightarrow> CHR ''%'' # unpercent_bytes rest)
          else if c = CHR ''+'' then CHR '' '' # unpercent_bytes rest
          else c # unpercent_bytes rest)"
  by pat_completeness auto
termination
  by (relation "measure length") auto

declare unpercent_bytes.simps [simp del]

definition unpercent :: "string \<Rightarrow> string" where
  "unpercent text = from_utf8_lossy (unpercent_bytes text)"

definition fragment_launch :: "signer_env \<Rightarrow> string \<Rightarrow> json \<Rightarrow> string \<Rightarrow> string \<Rightarrow> string \<Rightarrow> string" where
  "fragment_launch E page req callback token lang =
     (let deflated = deflate E (as_bytes (json_to_string E req))
      in page @ ''?ch=url'' @ lang_param lang @ ''#i='' @ b64_encode E deflated
         @ ''&cb='' @ b64_encode E (as_bytes callback) @ ''&t='' @ percent token @ ''&z=1'')"

definition socket_launch :: "string \<Rightarrow> u16 \<Rightarrow> string \<Rightarrow> string \<Rightarrow> string" where
  "socket_launch page port token lang =
     page @ ''?ch=ws'' @ lang_param lang @ ''#p='' @ show_nat (unat port) @ ''&t='' @ percent token"

definition CALLBACK_PATH :: string where
  "CALLBACK_PATH = ''/vela''"

text \<open>\<open>lines().next()\<close>: up to the first line feed, without a carriage return before it.\<close>

definition first_line :: "string \<Rightarrow> string option" where
  "first_line s =
     (if s = [] then None
      else let (l, terminated) = (case split_once s [CHR 0x0A] of Some (a, _) \<Rightarrow> (a, True) | None \<Rightarrow> (s, False))
           in Some (if terminated \<and> l \<noteq> [] \<and> last l = CHR 0x0D then butlast l else l))"

definition callback_query :: "string \<Rightarrow> string option" where
  "callback_query request_head =
     (case first_line request_head of
        None \<Rightarrow> None
      | Some l \<Rightarrow>
          (case split_char (CHR '' '') l of
             method # target # _ \<Rightarrow>
               if method \<noteq> ''GET'' \<and> method \<noteq> ''POST'' then None
               else let (path, query) = (case split_once target ''?'' of Some pq \<Rightarrow> pq | None \<Rightarrow> (target, []))
                    in if path = CALLBACK_PATH then Some query else None
           | _ \<Rightarrow> None))"

definition callback_of :: "string \<Rightarrow> string option" where
  "callback_of url =
     (case strip_prefix url CALLBACK_URL of
        None \<Rightarrow> None
      | Some rest \<Rightarrow>
          (case strip_prefix rest ''?'' of Some q \<Rightarrow> Some q | None \<Rightarrow> strip_prefix rest ''/?''))"

definition callback_token :: "string \<Rightarrow> string option" where
  "callback_token url =
     (case callback_of url of
        None \<Rightarrow> None
      | Some query \<Rightarrow>
          (case List.map_filter (\<lambda>pair. strip_prefix pair ''t='') (split_char (CHR ''&'') query) of
             [] \<Rightarrow> None
           | t # _ \<Rightarrow> (let token = unpercent t in if token = [] then None else Some token)))"

text \<open>The loop over the pairs: the last value of each key stands.\<close>

type_synonym callback_parts = "string option \<times> string option \<times> string option"

definition callback_pair :: "string \<Rightarrow> callback_parts \<Rightarrow> callback_parts" where
  "callback_pair pair acc =
     (let (key, raw) = (case split_once pair ''='' of Some kv \<Rightarrow> kv | None \<Rightarrow> (pair, []));
          v = unpercent raw
      in case acc of (got_token, result, error) \<Rightarrow>
           (if key = ''t'' then (Some v, result, error)
            else if key = ''result'' then (got_token, Some v, error)
            else if key = ''error'' then (got_token, result, Some v)
            else (got_token, result, error)))"

definition callback_pairs :: "string list \<Rightarrow> callback_parts \<Rightarrow> callback_parts" where
  "callback_pairs pairs acc = fold callback_pair pairs acc"

definition parse_callback :: "signer_env \<Rightarrow> string \<Rightarrow> string \<Rightarrow> trusted_signer_error + json" where
  "parse_callback E query token =
     (case callback_pairs (split_char (CHR ''&'') (trim_start_char (CHR ''?'') query)) (None, None, None) of
        (got_token, result, error) \<Rightarrow>
          if got_token \<noteq> Some token then Inl WrongToken
          else case error of
              Some c \<Rightarrow> Inl (refusal c)
            | None \<Rightarrow>
                (case result of
                   None \<Rightarrow> Inl (Malformed ''no result'')
                 | Some encoded \<Rightarrow>
                     (case b64_decode E (trim_end_char (CHR ''='') encoded) of
                        Inl _ \<Rightarrow> Inl (Malformed ''result is not base64url'')
                      | Inr bs \<Rightarrow>
                          (case json_from_slice E bs of
                             None \<Rightarrow> Inl (Malformed ''result is not JSON'')
                           | Some j \<Rightarrow> Inr j))))"

section \<open>Percent-encoding undone\<close>

lemma is_ascii_digit_iff: "is_ascii_digit c \<longleftrightarrow> 48 \<le> byte_of c \<and> byte_of c \<le> 57"
  by (auto simp: is_ascii_digit_def is_digit_def to_digit_def Let_def)

lemma unreserved_ascii: "unreserved c \<Longrightarrow> byte_of c < 128"
  by (auto simp: unreserved_def is_ascii_alphanumeric_def is_ascii_alphabetic_def is_ascii_digit_iff)

lemma byte_of_upper_hex: "d < 16 \<Longrightarrow> byte_of (upper_hex d) = (if d < 10 then 48 + d else 55 + d)"
  by (simp add: upper_hex_def)

lemma upper_hex_digit: "d < 16 \<Longrightarrow> to_digit 16 (upper_hex d) = Some d \<and> upper_hex d \<noteq> CHR ''+'' \<and> byte_of (upper_hex d) < 128"
proof -
  assume d: "d < 16"
  have "byte_of (upper_hex d) \<noteq> byte_of (CHR ''+'')" using d by (simp add: byte_of_upper_hex)
  then have "upper_hex d \<noteq> CHR ''+''" by metis
  with d show ?thesis by (simp add: to_digit_def byte_of_upper_hex)
qed

lemma from_str_radix_byte: "from_str_radix 8 16 [upper_hex (byte_of c div 16), upper_hex (byte_of c mod 16)] = Some (byte_of c)"
proof -
  have "byte_of c div 16 < 16" using byte_of_bound [of c] by (simp add: div_less_iff_less_mult)
  with upper_hex_digit [of "byte_of c div 16"] upper_hex_digit [of "byte_of c mod 16"] byte_of_bound [of c]
  show ?thesis by (simp add: from_str_radix_def Let_def digits_value_def)
qed

lemma unpercent_escape: "unpercent_bytes (percent_byte c @ s) = c # unpercent_bytes s"
proof -
  have "byte_of c div 16 < 16" using byte_of_bound [of c] by (simp add: div_less_iff_less_mult)
  then have "utf8_pair (upper_hex (byte_of c div 16)) (upper_hex (byte_of c mod 16))"
    using upper_hex_digit [of "byte_of c div 16"] upper_hex_digit [of "byte_of c mod 16"]
    by (simp add: utf8_pair_def)
  then show ?thesis
    by (simp add: percent_byte_def unpercent_bytes.simps [of "CHR ''%'' # _"] from_str_radix_byte numeral_2_eq_2)
qed

lemma unreserved_plain: "unreserved c \<Longrightarrow> unpercent_bytes (c # s) = c # unpercent_bytes s"
  by (auto simp: unpercent_bytes.simps [of "c # s"] unreserved_def is_ascii_alphanumeric_def
      is_ascii_alphabetic_def is_ascii_digit_iff)

lemma unpercent_bytes_percent: "unpercent_bytes (percent s) = s"
proof (induction s)
  case Nil
  then show ?case by (simp add: percent_def unpercent_bytes.simps)
next
  case (Cons c s)
  then show ?case
    using unpercent_escape [of c "percent s"] unreserved_plain [of c "percent s"] by (simp add: percent_def)
qed

lemma unpercent_percent: "valid_utf8 s \<Longrightarrow> unpercent (percent s) = s"
  by (simp add: unpercent_def unpercent_bytes_percent from_utf8_lossy_valid)

interpretation percent_text: codec percent "\<lambda>s. Some (unpercent s)" valid_utf8
  by unfold_locales (simp add: unpercent_percent)

text \<open>What percent-encoding leaves: unreserved characters and escapes, so no separator survives.\<close>

definition separator :: "char \<Rightarrow> bool" where
  "separator c \<longleftrightarrow> c \<in> {CHR ''&'', CHR ''='', CHR ''?'', CHR ''#''}"

lemma separator_not_unreserved: "separator c \<Longrightarrow> \<not> unreserved c"
  by (auto simp: separator_def unreserved_def is_ascii_alphanumeric_def is_ascii_alphabetic_def
      is_ascii_digit_iff)

lemma separator_not_hex: "separator c \<Longrightarrow> d < 16 \<Longrightarrow> c \<noteq> upper_hex d"
proof
  assume "separator c" "d < 16" "c = upper_hex d"
  then have "to_digit 16 c = Some d" using upper_hex_digit by simp
  with \<open>separator c\<close> show False by (auto simp: separator_def to_digit_def)
qed

lemma percent_no_separator: "separator c \<Longrightarrow> c \<notin> set (percent s)"
proof (induction s)
  case Nil
  then show ?case by (simp add: percent_def)
next
  case (Cons x s)
  have "byte_of x div 16 < 16" using byte_of_bound [of x] by (simp add: div_less_iff_less_mult)
  with separator_not_hex [OF Cons.prems, of "byte_of x div 16"] separator_not_hex [OF Cons.prems, of "byte_of x mod 16"]
  have "c \<notin> set (percent_byte x)" using Cons.prems by (auto simp: percent_byte_def separator_def)
  with Cons separator_not_unreserved [OF Cons.prems] show ?case by (auto simp: percent_def)
qed

section \<open>The callback\<close>

text \<open>What the code relies on: a base64 text is unreserved characters and decodes to what was encoded.\<close>

definition signer_contract :: "signer_env \<Rightarrow> bool" where
  "signer_contract E \<longleftrightarrow>
     (\<forall>bs. b64_decode E (b64_encode E bs) = Inr bs \<and> list_all unreserved (b64_encode E bs))"

lemma unpercent_unreserved: "list_all unreserved s \<Longrightarrow> unpercent s = s"
proof -
  assume s: "list_all unreserved s"
  then have "percent s = s" by (induction s) (simp_all add: percent_def)
  moreover have "is_ascii s"
    using s by (auto simp: is_ascii_def list_all_iff intro: unreserved_ascii)
  ultimately show ?thesis by (metis unpercent_percent valid_utf8_ascii)
qed

lemma trim_end_unreserved: "list_all unreserved s \<Longrightarrow> trim_end_char (CHR ''='') s = s"
proof -
  assume "list_all unreserved s"
  then have "CHR ''='' \<notin> set s" using separator_not_unreserved by (auto simp: list_all_iff separator_def)
  then have "dropWhile (\<lambda>x. x = CHR ''='') (rev s) = rev s"
    by (cases s rule: rev_cases) auto
  then show ?thesis by (simp add: trim_end_char_def)
qed

definition callback_text :: "string \<Rightarrow> string \<Rightarrow> string \<Rightarrow> string" where
  "callback_text token key v = ''t='' @ percent token @ ''&'' @ key @ ''='' @ v"

text \<open>What a page navigates to, with and without the slash Windows inserts.\<close>

definition answer_url :: "signer_env \<Rightarrow> string \<Rightarrow> string \<Rightarrow> json \<Rightarrow> string" where
  "answer_url E slash token j =
     CALLBACK_URL @ slash @ ''?'' @ callback_text token ''result'' (b64_encode E (as_bytes (json_to_string E j)))"

definition refused_url :: "string \<Rightarrow> string \<Rightarrow> string \<Rightarrow> string" where
  "refused_url slash token c = CALLBACK_URL @ slash @ ''?'' @ callback_text token ''error'' (percent c)"

lemma callback_text_pairs:
  assumes "CHR ''&'' \<notin> set v" and "CHR ''&'' \<notin> set key"
  shows "split_char (CHR ''&'') (callback_text token key v) = [''t='' @ percent token, key @ ''='' @ v]"
proof -
  have "CHR ''&'' \<notin> set (''t='' @ percent token)" using percent_no_separator by (auto simp: separator_def)
  then have "split_char (CHR ''&'') ((''t='' @ percent token) @ CHR ''&'' # key @ ''='' @ v) =
      (''t='' @ percent token) # split_char (CHR ''&'') (key @ ''='' @ v)"
    by (rule split_char_append)
  moreover have "split_char (CHR ''&'') (key @ ''='' @ v) = [key @ ''='' @ v]"
    using assms by (intro split_char_none) auto
  ultimately show ?thesis by (simp add: callback_text_def)
qed

lemma split_once_eq: "CHR ''='' \<notin> set k \<Longrightarrow> split_once (k @ ''='' @ v) ''='' = Some (k, v)"
  by (simp add: split_once_char takeWhile_append dropWhile_append)

lemma callback_text_read:
  assumes "valid_utf8 token" and "CHR ''&'' \<notin> set v"
  shows "callback_pairs (split_char (CHR ''&'') (trim_start_char (CHR ''?'') (callback_text token ''result'' v))) (None, None, None)
      = (Some token, Some (unpercent v), None)"
    "callback_pairs (split_char (CHR ''&'') (trim_start_char (CHR ''?'') (callback_text token ''error'' v))) (None, None, None)
      = (Some token, None, Some (unpercent v))"
proof -
  have trim: "trim_start_char (CHR ''?'') (callback_text token key v) = callback_text token key v" for key
    by (simp add: trim_start_char_def callback_text_def)
  have pair: "callback_pair (k @ ''='' @ raw) (t, r, e) =
      (if k = ''t'' then (Some (unpercent raw), r, e) else if k = ''result'' then (t, Some (unpercent raw), e)
       else if k = ''error'' then (t, r, Some (unpercent raw)) else (t, r, e))"
    if "CHR ''='' \<notin> set k" for k raw t r e
    using split_once_eq [OF that] by (simp add: callback_pair_def)
  show "callback_pairs (split_char (CHR ''&'') (trim_start_char (CHR ''?'') (callback_text token ''result'' v))) (None, None, None)
      = (Some token, Some (unpercent v), None)"
    by (simp only: trim callback_text_pairs [OF assms(2)] callback_pairs_def) (simp add: callback_text_pairs assms unpercent_percent fold.simps pair [of "''t''", simplified] pair [of "''result''", simplified])
  show "callback_pairs (split_char (CHR ''&'') (trim_start_char (CHR ''?'') (callback_text token ''error'' v))) (None, None, None)
      = (Some token, None, Some (unpercent v))"
    by (simp only: trim callback_text_pairs [OF assms(2)] callback_pairs_def) (simp add: callback_text_pairs assms unpercent_percent fold.simps pair [of "''t''", simplified] pair [of "''error''", simplified])
qed

lemma callback_of_text: "slash \<in> {[], ''/''} \<Longrightarrow> callback_of (CALLBACK_URL @ slash @ ''?'' @ q) = Some q"
  by (auto simp: callback_of_def CALLBACK_URL_def strip_prefix_def starts_with_def)

lemma callback_token_text:
  assumes "slash \<in> {[], ''/''}" and "valid_utf8 token" and "token \<noteq> []"
    and "CHR ''&'' \<notin> set v" and "CHR ''&'' \<notin> set key"
  shows "callback_token (CALLBACK_URL @ slash @ ''?'' @ callback_text token key v) = Some token"
  unfolding callback_token_def callback_of_text [OF assms(1)] option.case callback_text_pairs [OF assms(4,5)]
  using assms(2,3) by (simp add: map_filter_simps strip_prefix_def starts_with_def unpercent_percent)

section \<open>What an accepted answer proves\<close>

lemma client_data_accepted:
  assumes "validate_client_data Get cd ad = Inr u"
  shows "take (length GET_PREFIX) cd = GET_PREFIX" "33 \<le> length ad" "ad ! 32 AND 0x04 = 0x04"
  using assms by (auto simp: validate_client_data_def Let_def split: if_splits)

text \<open>The evidence behind an accepted answer: the key, its point, the signature, the client data.\<close>

definition evidence ::
  "signer_env \<Rightarrow> ('v, 's) curve \<Rightarrow> bytes \<Rightarrow> wallet_key list \<Rightarrow> verified \<Rightarrow> bool" where
  "evidence E K the_digest keys v \<longleftrightarrow>
     (\<exists>key\<in>set keys. \<exists>point verifying sig client.
        owns_credential (vf_credential_id_hex v) key
        \<and> from_hex (wk_public_key_hex key) = Inr point \<and> point_from_sec1 K point = Some verifying
        \<and> verify_prehash K verifying
            (webauthn_signing_hash K (vf_authenticator_data v) (vf_client_data_json v)) (normalize_s K sig)
        \<and> vf_signature_der v = sig_der K (normalize_s K sig)
        \<and> take (length GET_PREFIX) (vf_client_data_json v) = GET_PREFIX
        \<and> json_from_slice E (vf_client_data_json v) = Some client
        \<and> challenge_of client = b64_encode E the_digest
        \<and> 33 \<le> length (vf_authenticator_data v) \<and> vf_authenticator_data v ! 32 AND 0x04 = 0x04)"

lemma find_Some_set: "find P xs = Some x \<Longrightarrow> x \<in> set xs \<and> P x"
  by (auto simp: find_Some_iff)

lemma verify_evidence:
  assumes "verify E K result the_digest keys = Inr v"
  shows "evidence E K the_digest keys v"
proof -
  obtain ct cred raw ad cd u client key point verifying sig where
    "field result ''credentialId'' = Inr ct" "b64_decode E (trim_end_char (CHR ''='') ct) = Inr cred"
    "hex_field result ''signature'' = Inr raw" and cd: "validate_client_data Get cd ad = Inr u"
    and client: "json_from_slice E cd = Some client" "challenge_of client = b64_encode E the_digest"
    and key: "find (owns_credential (to_ascii_lowercase (to_hex cred False))) keys = Some key"
    and point: "from_hex (wk_public_key_hex key) = Inr point" "point_from_sec1 K point = Some verifying"
    and sig: "verify_prehash K verifying (webauthn_signing_hash K ad cd) (normalize_s K sig)"
    and v: "v = \<lparr>vf_credential_id_hex = to_ascii_lowercase (to_hex cred False),
              vf_signature_der = sig_der K (normalize_s K sig), vf_authenticator_data = ad, vf_client_data_json = cd\<rparr>"
    using assms
    by (auto simp: verify_def Let_def split: sum.splits option.splits if_splits)
  show ?thesis
    unfolding evidence_def
    using find_Some_set [OF key] point sig client client_data_accepted [OF cd]
    by (intro bexI [of _ key] exI [of _ point] exI [of _ verifying] exI [of _ sig] exI [of _ client])
       (simp_all add: v)
qed

lemma evidence_digest:
  assumes "signer_contract E" and "evidence E K d1 keys1 v" and "evidence E K d2 keys2 w"
    and "vf_client_data_json v = vf_client_data_json w"
  shows "d1 = d2"
proof -
  obtain client where "json_from_slice E (vf_client_data_json v) = Some client" "challenge_of client = b64_encode E d1"
    using assms(2) by (auto simp: evidence_def)
  moreover obtain client2 where "json_from_slice E (vf_client_data_json w) = Some client2"
      "challenge_of client2 = b64_encode E d2"
    using assms(3) by (auto simp: evidence_def)
  ultimately have "b64_encode E d1 = b64_encode E d2" using assms(4) by simp
  then have "b64_decode E (b64_encode E d1) = b64_decode E (b64_encode E d2)" by simp
  with assms(1) show ?thesis by (simp add: signer_contract_def)
qed

lemma verify_client_data:
  assumes "verify E K result d1 keys1 = Inr v" and "verify E K result d2 keys2 = Inr w"
  shows "vf_client_data_json v = vf_client_data_json w"
  using assms by (auto simp: verify_def Let_def split: sum.splits option.splits if_splits)

section \<open>The operation as JSON\<close>

lemma op_bytes_to_hex: "text_of v name = Some (to_hex bs True) \<Longrightarrow> op_bytes v name = Some bs"
proof -
  assume t: "text_of v name = Some (to_hex bs True)"
  have len: "length (to_hex bs True) = 2 + 2 * length bs" by (simp add: length_to_hex)
  show ?thesis
  proof (cases "bs = []")
    case True
    with t show ?thesis by (simp add: op_bytes_def to_hex_def)
  next
    case False
    then have "length (to_hex bs True) > 2" using len by simp
    then have "to_hex bs True \<noteq> []" "to_hex bs True \<noteq> ''0x''" by auto
    with t show ?thesis by (simp add: op_bytes_def)
  qed
qed

lemma show_nat_not_0x:
  "strip_prefix (show_nat n) ''0x'' = None" "strip_prefix (show_nat n) ''0X'' = None"
proof -
  have "list_all is_ascii_digit (show_nat n)"
  proof -
    define ds where "ds = (if n = 0 then [0] else digits_of 10 n)"
    have "show_nat n = map hex_digit ds" by (simp add: show_nat_def show_radix_eq ds_def)
    moreover have "\<forall>d\<in>set ds. d < 10" using digits_of_lt by (auto simp: ds_def)
    ultimately show ?thesis by (auto simp: list_all_iff is_ascii_digit_iff hex_digit_def)
  qed
  then have d: "\<forall>c\<in>set (show_nat n). byte_of c \<le> 57" by (auto simp: list_all_iff is_ascii_digit_iff)
  have "take 2 (show_nat n) \<noteq> [CHR ''0'', c]" if "57 < byte_of c" for c
  proof
    assume "take 2 (show_nat n) = [CHR ''0'', c]"
    then have "c \<in> set (show_nat n)" by (metis in_set_takeD list.set_intros)
    with d that show False by auto
  qed
  from this [of "CHR ''x''"] this [of "CHR ''X''"]
  show "strip_prefix (show_nat n) ''0x'' = None" "strip_prefix (show_nat n) ''0X'' = None"
    by (simp_all add: strip_prefix_def starts_with_def numeral_2_eq_2)
qed

lemma op_gas_decimal: "get v name = Some (decimal x) \<Longrightarrow> op_gas v name = Some x"
proof -
  assume g: "get v name = Some (decimal x)"
  have "unat x < 2 ^ LENGTH(128)" by (rule unsigned_less)
  then have "from_str_radix 128 10 (show_nat (unat x)) = Some (unat x)"
    by (simp add: show_nat_def from_str_radix_show)
  with g show ?thesis by (simp add: op_gas_def decimal_def show_nat_not_0x parse_u128_def)
qed

lemma user_op_read_back: "user_op_from_json (user_op_json op) = Some (op\<lparr>uo_signature := []\<rparr>)"
proof -
  have texts: "text_of (user_op_json op) ''sender'' = Some (uo_sender op)"
    "text_of (user_op_json op) ''nonce'' = Some (uo_nonce op)"
    "text_of (user_op_json op) ''initCode'' = Some (to_hex (uo_init_code op) True)"
    "text_of (user_op_json op) ''callData'' = Some (to_hex (uo_call_data op) True)"
    "text_of (user_op_json op) ''paymasterAndData'' = Some (to_hex (uo_paymaster_and_data op) True)"
    by (simp_all add: text_of_def user_op_json_def)
  have gas: "get (user_op_json op) ''verificationGasLimit'' = Some (decimal (uo_verification_gas_limit op))"
    "get (user_op_json op) ''callGasLimit'' = Some (decimal (uo_call_gas_limit op))"
    "get (user_op_json op) ''preVerificationGas'' = Some (decimal (uo_pre_verification_gas op))"
    "get (user_op_json op) ''maxFeePerGas'' = Some (decimal (uo_max_fee_per_gas op))"
    "get (user_op_json op) ''maxPriorityFeePerGas'' = Some (decimal (uo_max_priority_fee_per_gas op))"
    by (simp_all add: user_op_json_def)
  show ?thesis
    by (simp add: user_op_from_json_def texts(1,2) op_bytes_to_hex [OF texts(3)] op_bytes_to_hex [OF texts(4)]
        op_bytes_to_hex [OF texts(5)] op_gas_decimal [OF gas(1)] op_gas_decimal [OF gas(2)]
        op_gas_decimal [OF gas(3)] op_gas_decimal [OF gas(4)] op_gas_decimal [OF gas(5)])
qed

section \<open>Toy instance\<close>

text \<open>Base64 as hexadecimal, and one JSON value behind every text.\<close>

definition toy_env :: "json \<Rightarrow> signer_env" where
  "toy_env j =
     \<lparr>b64_encode = \<lambda>bs. to_hex bs False, b64_decode = \<lambda>s. map_sum (\<lambda>_. ''hex'') id (from_hex s),
      json_from_slice = \<lambda>_. Some j, json_to_string = \<lambda>_. ''{}'', deflate = \<lambda>bs. bs, to_uppercase = \<lambda>c. c\<rparr>"

section \<open>Properties\<close>

text \<open>
  C18: an accepted answer is a signature over this wallet's digest. Whatever page produced it, an
  accepted answer carries a user-verified \<open>webauthn.get\<close> whose challenge is the digest, by a
  credential of one of the wallet's keys, with a signature that verifies under that key; the same
  client data is never accepted for two different digests.
\<close>

theorem verify_sound:
  assumes "signer_contract E" and "verify E K result the_digest keys = Inr v"
  shows "evidence E K the_digest keys v
    \<and> (\<forall>other keys' w. verify E K result other keys' = Inr w \<longrightarrow> other = the_digest)"
proof (intro conjI allI impI)
  show ev: "evidence E K the_digest keys v" by (rule verify_evidence [OF assms(2)])
  fix other keys' w
  assume w: "verify E K result other keys' = Inr w"
  show "other = the_digest"
    by (rule evidence_digest [OF assms(1) verify_evidence [OF w] ev verify_client_data [OF w assms(2)]])
qed

lemma hex_unreserved: "list_all unreserved (to_hex bs False)"
proof -
  have "unreserved (hex_digit d)" if "d < 16" for d
    using that by (auto simp: hex_digit_def unreserved_def is_ascii_alphanumeric_def is_ascii_alphabetic_def
        is_ascii_digit_iff)
  moreover have "unat (b :: u8) div 16 < 16" for b
    using unat_u8_bound [of b] by (simp add: div_less_iff_less_mult)
  ultimately show ?thesis by (induction bs) (simp_all add: to_hex_def byte_hex_def)
qed

lemma toy_env_contract: "signer_contract (toy_env j)"
  by (simp add: signer_contract_def toy_env_def hex_unreserved)

theorem verify_sound_witness:
  "\<exists>v. evidence (toy_env (Object [(''challenge'', String (to_hex [1, 2] False))])) (toy_curve CNull 0) [1, 2]
      [\<lparr>wk_credential_id = ''0xAB'', wk_public_key_hex = to_hex (4 # 7 # zeros 63) False\<rparr>] v"
proof -
  let ?E = "toy_env (Object [(''challenge'', String (to_hex [1, 2] False))])"
  let ?cd = "GET_PREFIX @ [0x7D]" and ?ad = "zeros 32 @ [0x05]"
  define key where "key = \<lparr>wk_credential_id = ''0xAB'', wk_public_key_hex = to_hex (4 # 7 # zeros 63) False\<rparr>"
  let ?result = "Object [(''credentialId'', String (to_hex [0xAB] False)), (''signature'', String (to_hex (7 # zeros 63) False)),
      (''authenticatorData'', String (to_hex ?ad False)), (''clientDataJSON'', String (to_hex ?cd False))]"
  have cd: "validate_client_data Get ?cd ?ad = Inr ()"
    by (simp add: validate_client_data_def nth_append)
  have own: "owns_credential (to_ascii_lowercase (to_hex [0xAB] False)) key"
    by (simp add: key_def owns_credential_def eq_ignore_ascii_case_def to_hex_def byte_hex_def hex_digit_def
        to_ascii_lowercase_def to_ascii_lowercase_char_def)
  have pk: "wk_public_key_hex key = to_hex (4 # 7 # zeros 63) False" by (simp add: key_def)
  have "\<exists>v. verify ?E (toy_curve CNull 0) ?result [1, 2] [key] = Inr v"
  proof -
    have b64: "b64_decode ?E (trim_end_char (CHR ''='') (to_hex [0xAB] False)) = Inr [0xAB]"
      using trim_end_unreserved [OF hex_unreserved, of "[0xAB]"] by (simp add: toy_env_def)
    show ?thesis
      using cd own b64
      by (simp add: pk verify_def field_def hex_field_def text_of_def Let_def toy_env_def challenge_of_def toy_curve_def)
  qed
  then obtain v where "verify ?E (toy_curve CNull 0) ?result [1, 2] [key] = Inr v" by blast
  from verify_sound [OF toy_env_contract this] show ?thesis unfolding key_def by blast
qed

text \<open>
  A callback comes back as it left. The URL a page navigates to, in either spelling, carries its
  request's token whatever bytes the token has; with that token the answer parsed is the answer sent
  and a refusal keeps its code, and with any other token nothing is accepted.
\<close>

theorem callback_round_trip:
  assumes "signer_contract E" and "valid_utf8 token" and "token \<noteq> []" and "slash \<in> {[], ''/''}"
    and "json_from_slice E (as_bytes (json_to_string E j)) = Some j"
  shows "callback_token (answer_url E slash token j) = Some token \<and> callback_token (refused_url slash token c) = Some token
    \<and> (\<exists>q. callback_of (answer_url E slash token j) = Some q \<and> parse_callback E q token = Inr j
         \<and> (\<forall>other. other \<noteq> token \<longrightarrow> parse_callback E q other = Inl WrongToken))
    \<and> (valid_utf8 c \<longrightarrow> (\<exists>q. callback_of (refused_url slash token c) = Some q \<and> parse_callback E q token = Inl (refusal c)))"
proof -
  define enc where "enc = b64_encode E (as_bytes (json_to_string E j))"
  have enc: "list_all unreserved enc" "b64_decode E enc = Inr (as_bytes (json_to_string E j))"
      "json_from_slice E (as_bytes (json_to_string E j)) = Some j"
    using assms(1,5) by (simp_all add: signer_contract_def enc_def)
  have amp: "CHR ''&'' \<notin> set enc" "CHR ''&'' \<notin> set (percent c)"
    using enc(1) separator_not_unreserved percent_no_separator by (auto simp: list_all_iff separator_def)
  note read = callback_text_read [OF assms(2)]
  have "callback_token (answer_url E slash token j) = Some token" "callback_token (refused_url slash token c) = Some token"
    unfolding answer_url_def refused_url_def enc_def [symmetric]
    using callback_token_text [OF assms(4,2,3)] amp by simp_all
  moreover have "callback_of (answer_url E slash token j) = Some (callback_text token ''result'' enc)"
      "callback_of (refused_url slash token c) = Some (callback_text token ''error'' (percent c))"
    unfolding answer_url_def refused_url_def enc_def [symmetric] by (rule callback_of_text [OF assms(4)])+
  moreover have "parse_callback E (callback_text token ''result'' enc) t = (if t = token then Inr j else Inl WrongToken)" for t
    unfolding parse_callback_def read(1) [OF amp(1)]
    by (simp add: unpercent_unreserved [OF enc(1)] trim_end_unreserved [OF enc(1)] enc)
  moreover have "parse_callback E (callback_text token ''error'' (percent c)) token = Inl (refusal c)" if "valid_utf8 c"
    unfolding parse_callback_def read(2) [OF amp(2)] by (simp add: unpercent_percent [OF that])
  ultimately show ?thesis by auto
qed

theorem callback_round_trip_witness:
  "callback_token (refused_url ''/'' ''a b'' ''user_rejected'') = Some ''a b''
   \<and> (\<exists>q. callback_of (refused_url ''/'' ''a b'' ''user_rejected'') = Some q
        \<and> parse_callback (toy_env Null) q ''a b'' = Inl Declined)"
proof -
  have utf8: "valid_utf8 ''a b''" "valid_utf8 ''user_rejected''" by (rule valid_utf8_ascii, simp add: is_ascii_def)+
  have json: "json_from_slice (toy_env Null) (as_bytes (json_to_string (toy_env Null) Null)) = Some Null"
    by (simp add: toy_env_def)
  have slash: "''/'' \<in> {[], ''/''}" and token: "''a b'' \<noteq> []" by simp_all
  have declined: "refusal ''user_rejected'' = Declined" by (simp add: refusal_def)
  from callback_round_trip [OF toy_env_contract utf8(1) token slash json, of "''user_rejected''"] utf8(2)
  show ?thesis unfolding declined by blast
qed

text \<open>
  An operation survives the request. Read back from the JSON the page is sent, every field of a
  user operation, its five 128-bit gas figures included, is what was written, and only the signature is
  left out.
\<close>

theorem user_op_round_trip:
  "user_op_from_json (user_op_json op) = Some (op\<lparr>uo_signature := []\<rparr>)
   \<and> (\<forall>op'. user_op_json op = user_op_json op' \<longrightarrow> op\<lparr>uo_signature := []\<rparr> = op'\<lparr>uo_signature := []\<rparr>)"
  using user_op_read_back by (metis option.inject)

theorem user_op_round_trip_witness:
  "user_op_from_json (user_op_json \<lparr>uo_sender = ''0x1'', uo_nonce = ''0x0'', uo_init_code = [], uo_call_data = [1],
      uo_verification_gas_limit = 10, uo_call_gas_limit = -1, uo_pre_verification_gas = 0, uo_max_fee_per_gas = 5,
      uo_max_priority_fee_per_gas = 5, uo_paymaster_and_data = [], uo_signature = [9]\<rparr>)
   = Some \<lparr>uo_sender = ''0x1'', uo_nonce = ''0x0'', uo_init_code = [], uo_call_data = [1],
      uo_verification_gas_limit = 10, uo_call_gas_limit = -1, uo_pre_verification_gas = 0, uo_max_fee_per_gas = 5,
      uo_max_priority_fee_per_gas = 5, uo_paymaster_and_data = [], uo_signature = []\<rparr>"
  using conjunct1 [OF user_op_round_trip, of "\<lparr>uo_sender = ''0x1'', uo_nonce = ''0x0'', uo_init_code = [], uo_call_data = [1],
      uo_verification_gas_limit = 10, uo_call_gas_limit = -1, uo_pre_verification_gas = 0, uo_max_fee_per_gas = 5,
      uo_max_priority_fee_per_gas = 5, uo_paymaster_and_data = [], uo_signature = [9]\<rparr>"]
  by (simp only: user_operation.update_convs)

end
