(* ===== verification/PageIntegrity.thy ===== *)
theory PageIntegrity
  imports TrustedSigner
begin

text \<open>
  \<open>trusted_signer/integrity.rs\<close> and \<open>trusted_signer/launch.rs\<close>: which version of the signing page is
  fetched, whether the bytes it served may be opened, for how long a check vouches, and the launch URL
  only a checked page can build. The shells fetch and hash; SHA-256 is a parameter of \<open>hash_page\<close>. The
  wording of the time of a check (\<open>checked_time\<close>) is not modelled: it formats dates.
\<close>

section \<open>The versions this build knows\<close>

definition BUILD_ALLOWED :: "string list" where
  "BUILD_ALLOWED =
     [''f14e755aace5937d245c3debe4318fd7b6640d5c17032c472b976b72509f46a8'',
      ''245c9ea1a365f85bc9dfa16ff4d67b9242a7936168e7b3dbb3450f5e2301b0f6'',
      ''2d19fa497c4131a9341f69248fb68a79c3bbf750aed0559747b0d34ac9fa009d'',
      ''364b8737d0646aa87be17162bf8af6621e1aeb31f8f96d19a7613edf562c2b23'',
      ''0ba8ee8cc9bb7490a1f31d9d2059a93f6796beec6185a8b76e3db0184b290242'',
      ''8c002ee4886869375d79d01c81d52f109449d663020bcf4bf03ca8ebbe368658'',
      ''82fae7f245cd053f8cf0404262c224e0d123bf6c3812b741cb1e7fe5e8da4f1e'',
      ''ec038e11ec6498c922d0935da6009f46b4d43885e119ff0e984b88227433c886'',
      ''e3ef90a6040fe896a34c6b32fcab232417bf1dd70e62d473c88a0bed7dc97d5f'',
      ''584b7102a089759f410312dfa37a8834bfcdc25033a71d6a338cf1f80e6305a5'',
      ''74b512ddc5e55e584249739e7d0a08d2ea5f4fb4c628fbb2350dbf7d1ec7494f'',
      ''d554facb4e2a4cae1bba8e36fa1dcc53219e7fed3b611762e72ee0cbc46aa66e'',
      ''6ffe9ef204ad9ba623cc34d0d403d880269081bdd326e7e7a7e17da15c14a4a6'',
      ''4563215b962d9b615c5dc93bb8121ae02aba6d6b3c20b62e9146d69f03b1e505'',
      ''802b2fced1eb1fdcd4d935da15b62ac3d9ba13cfafdf6768a67d5e1296a3e0b6'',
      ''810db7c5dbb461897287ae6e8a8c863e9075779e96a07af06efff98fbd925178'']"

definition ENFORCE :: bool where
  "ENFORCE = True"

definition LAUNCH :: string where
  "LAUNCH = ''f14e755aace5937d245c3debe4318fd7b6640d5c17032c472b976b72509f46a8''"

definition OFFICIAL_HOST :: string where
  "OFFICIAL_HOST = ''sign.getvela.app''"

datatype check_failure = Unreachable | NoCachedBytes | NotChecked

datatype no_version = NothingPublishedThisWalletKnows | EverythingUsableIsBlocked

datatype verdict =
    Open
  | OpenUnverified
  | Denied string
  | RefusedPage string "string list"
  | AskToTrust string
  | CouldNotCheck check_failure
  | NoVersionToAsk no_version

record page =
  pg_url :: string
  pg_observed :: "string option"
  pg_failure :: check_failure
  pg_trusted :: "string list"
  pg_blocked :: "string list"
  pg_verification_off :: bool

definition hash_page :: "(bytes \<Rightarrow> bytes) \<Rightarrow> bytes \<Rightarrow> string" where
  "hash_page sha bs = concat (map byte_hex (sha bs))"

definition normalize_hash :: "string \<Rightarrow> string option" where
  "normalize_hash input =
     (let text = trim input
      in if length text \<noteq> 64 \<or> \<not> list_all is_ascii_hexdigit text then None
         else Some (to_ascii_lowercase text))"

definition is_official :: "string \<Rightarrow> bool" where
  "is_official url =
     (let rest = (case split_once (trim url) ''://'' of Some (_, r) \<Rightarrow> r | None \<Rightarrow> trim url);
          authority = upto_any ''/?#'' rest;
          host0 = (case rsplit_once authority (CHR ''@'') of Some (_, h) \<Rightarrow> h | None \<Rightarrow> authority);
          host = (case split_once host0 '':'' of Some (h, _) \<Rightarrow> h | None \<Rightarrow> host0)
      in eq_ignore_ascii_case host OFFICIAL_HOST)"

definition content_addressed_url :: "string \<Rightarrow> string \<Rightarrow> string option" where
  "content_addressed_url url hash0 =
     (case normalize_hash hash0 of
        None \<Rightarrow> None
      | Some h \<Rightarrow>
          (let base = trim_end_char (CHR ''/'') (trim url)
           in if base = [] then None else Some (base @ ''/b/'' @ h @ ''/sign.html'')))"

text \<open>\<open>contains\<close> of both files, and the normal forms of a list.\<close>

definition normal_hashes :: "string list \<Rightarrow> string list" where
  "normal_hashes hs = List.map_filter normalize_hash hs"

definition holds_hash :: "string list \<Rightarrow> string \<Rightarrow> bool" where
  "holds_hash hs h \<longleftrightarrow> h \<in> set (normal_hashes hs)"

definition usable_candidates :: "string list \<Rightarrow> string list \<Rightarrow> string list" where
  "usable_candidates available trusted =
     filter (\<lambda>c. c \<in> set (normal_hashes available)) (normal_hashes BUILD_ALLOWED @ normal_hashes trusted)"

definition choose_version :: "string list \<Rightarrow> string list \<Rightarrow> string list \<Rightarrow> no_version + string" where
  "choose_version available trusted blocked =
     (case find (\<lambda>c. \<not> holds_hash blocked c) (usable_candidates available trusted) of
        Some usable \<Rightarrow> Inr usable
      | None \<Rightarrow>
          if usable_candidates available trusted \<noteq> [] then Inl EverythingUsableIsBlocked
          else Inl NothingPublishedThisWalletKnows)"

definition decide :: "page \<Rightarrow> verdict" where
  "decide p =
     (case Option.bind (pg_observed p) normalize_hash of
        None \<Rightarrow> CouldNotCheck (pg_failure p)
      | Some observed \<Rightarrow>
          if holds_hash (pg_blocked p) observed then Denied observed
          else if holds_hash BUILD_ALLOWED observed \<or> holds_hash (pg_trusted p) observed then Open
          else if is_official (pg_url p) then RefusedPage observed BUILD_ALLOWED
          else if pg_verification_off p then OpenUnverified
          else AskToTrust observed)"

section \<open>How long a check vouches\<close>

definition MAX_CHECK_AGE_MS :: u64 where
  "MAX_CHECK_AGE_MS = 24 * 60 * 60 * 1000"

definition REFRESH_AFTER_MS :: u64 where
  "REFRESH_AFTER_MS = MAX_CHECK_AGE_MS div 2"

definition REFRESH_POLL_MS :: u64 where
  "REFRESH_POLL_MS = 60 * 60 * 1000"

definition RETRY_AFTER_MS :: u64 where
  "RETRY_AFTER_MS = 10 * 60 * 1000"

definition CHECK_HEADERS :: "(string \<times> string) list" where
  "CHECK_HEADERS = [(''Accept'', ''text/html,application/xhtml+xml,application/xml;q=0.9,*/*;q=0.8'')]"

definition saturating_sub :: "u64 \<Rightarrow> u64 \<Rightarrow> u64" where
  "saturating_sub a b = (if a < b then 0 else a - b)"

definition refresh_due :: "u64 option \<Rightarrow> u64 option \<Rightarrow> u64 \<Rightarrow> bool" where
  "refresh_due checked_at last_attempt now \<longleftrightarrow>
     (let stale = (case checked_at of None \<Rightarrow> True | Some at \<Rightarrow> REFRESH_AFTER_MS < saturating_sub now at);
          resting = (case last_attempt of None \<Rightarrow> False | Some at \<Rightarrow> saturating_sub now at < RETRY_AFTER_MS)
      in stale \<and> \<not> resting)"

definition is_fresh_at :: "u64 \<Rightarrow> u64 \<Rightarrow> bool" where
  "is_fresh_at checked_at now \<longleftrightarrow> saturating_sub now checked_at \<le> MAX_CHECK_AGE_MS"

text \<open>U+00A0 and U+2060, and a text no line may break inside.\<close>

definition NBSP :: string where
  "NBSP = [CHR 0xC2, CHR 0xA0]"

definition WORD_JOINER :: string where
  "WORD_JOINER = [CHR 0xE2, CHR 0x81, CHR 0xA0]"

definition breaks_beside :: "string \<Rightarrow> bool" where
  "breaks_beside c \<longleftrightarrow>
     (let p = code_point c
      in (0x1100 \<le> p \<and> p \<le> 0x11FF) \<or> (0x2E80 \<le> p \<and> p \<le> 0xA4CF) \<or> (0xAC00 \<le> p \<and> p \<le> 0xD7FF)
         \<or> (0xF900 \<le> p \<and> p \<le> 0xFAFF) \<or> (0xFE30 \<le> p \<and> p \<le> 0xFE4F) \<or> (0xFF00 \<le> p \<and> p \<le> 0xFFEF)
         \<or> (0x20000 \<le> p \<and> p \<le> 0x3FFFF))"

fun unbreakable_from :: "string option \<Rightarrow> string list \<Rightarrow> string" where
  "unbreakable_from previous [] = []"
| "unbreakable_from previous (c0 # cs) =
     (let c = (if c0 = '' '' then NBSP else c0);
          joiner = (case previous of
              Some before \<Rightarrow>
                if before \<noteq> NBSP \<and> c \<noteq> NBSP \<and> (breaks_beside before \<or> breaks_beside c) then WORD_JOINER else []
            | None \<Rightarrow> [])
      in joiner @ c @ unbreakable_from (Some c) cs)"

definition unbreakable :: "string \<Rightarrow> string" where
  "unbreakable text = unbreakable_from None (chars text)"

section \<open>Which page\<close>

record target =
  tg_base :: string
  tg_version :: string
  tg_url :: string
  tg_proposed :: bool

text \<open>\<open>get(..8)\<close>, or the whole when eight bytes do not end at a character.\<close>

definition first_eight :: "string \<Rightarrow> string" where
  "first_eight s = (if 8 \<le> length s \<and> is_char_boundary s 8 then take 8 s else s)"

definition short_version :: "target \<Rightarrow> string" where
  "short_version t = first_eight (tg_version t)"

definition page_url :: "string \<Rightarrow> string \<Rightarrow> string" where
  "page_url base version =
     (let root = trim_end_char (CHR ''/'') (trim base)
      in if is_official base then root @ ''/b/'' @ version @ ''/sign''
         else root @ ''/b/'' @ version @ ''/sign.html'')"

definition new_target :: "string \<Rightarrow> string \<Rightarrow> bool \<Rightarrow> target" where
  "new_target base version proposed =
     \<lparr>tg_base = base, tg_version = version, tg_url = page_url base version, tg_proposed = proposed\<rparr>"

definition trusted_for :: "string \<Rightarrow> string list \<Rightarrow> string list" where
  "trusted_for base trusted = (if is_official base then [] else trusted)"

definition target_of ::
  "string \<Rightarrow> string list option \<Rightarrow> string list \<Rightarrow> string list \<Rightarrow> no_version + target" where
  "target_of base0 index trusted0 blocked =
     (let base = (case signer_url base0 of Inr b \<Rightarrow> b | Inl _ \<Rightarrow> trim base0);
          official = is_official base;
          trusted = trusted_for base trusted0;
          candidates = normal_hashes (BUILD_ALLOWED @ trusted)
      in case index of
           None \<Rightarrow>
             (case find (\<lambda>h. \<not> holds_hash blocked h)
                     ((if official then normal_hashes [LAUNCH] else []) @ candidates) of
                Some version \<Rightarrow> Inr (new_target base version False)
              | None \<Rightarrow>
                  Inl (if candidates = [] then NothingPublishedThisWalletKnows else EverythingUsableIsBlocked))
         | Some listed \<Rightarrow>
             (case choose_version listed trusted blocked of
                Inr version \<Rightarrow> Inr (new_target base version False)
              | Inl why \<Rightarrow>
                  if official then Inl why
                  else case find (\<lambda>h. \<not> holds_hash blocked h) (normal_hashes listed) of
                      Some version \<Rightarrow> Inr (new_target base version True)
                    | None \<Rightarrow> Inl why))"

section \<open>Admission\<close>

record checked_page =
  cp_target :: target
  cp_verdict :: verdict
  cp_checked_at_ms :: u64

datatype admission = Admitted checked_page | RefusedAdmission target verdict

datatype integrity_state =
  Checking | Matches | TrustedHere | Unchecked | Mismatch | BlockedHere | StateAskToTrust
  | StateCouldNotCheck | StateNoVersion | AllBlocked

fun state_key :: "integrity_state \<Rightarrow> string" where
  "state_key Checking = ''componentsUi.signing.integrity.checking''"
| "state_key Matches = ''componentsUi.signing.integrity.matches''"
| "state_key TrustedHere = ''componentsUi.signing.integrity.trusted''"
| "state_key Unchecked = ''componentsUi.signing.integrity.unchecked''"
| "state_key Mismatch = ''componentsUi.signing.integrity.mismatch''"
| "state_key BlockedHere = ''componentsUi.signing.integrity.blocked''"
| "state_key StateAskToTrust = ''componentsUi.signing.integrity.askTrust''"
| "state_key StateCouldNotCheck = ''componentsUi.signing.integrity.couldNotCheck''"
| "state_key StateNoVersion = ''componentsUi.signing.integrity.noVersion''"
| "state_key AllBlocked = ''componentsUi.signing.integrity.allBlocked''"

definition state_opens :: "integrity_state \<Rightarrow> bool" where
  "state_opens s \<longleftrightarrow> s = Matches \<or> s = TrustedHere \<or> s = Unchecked"

record integrity_line =
  il_state :: integrity_state
  il_version :: string
  il_checked_at_ms :: "u64 option"
  il_key :: string
  il_opens :: bool

definition line_with :: "integrity_state \<Rightarrow> string \<Rightarrow> u64 option \<Rightarrow> integrity_line" where
  "line_with s version checked_at =
     \<lparr>il_state = s, il_version = first_eight version, il_checked_at_ms = checked_at,
      il_key = state_key s, il_opens = state_opens s\<rparr>"

definition line_checking :: integrity_line where
  "line_checking = line_with Checking [] None"

fun line_no_version :: "no_version \<Rightarrow> integrity_line" where
  "line_no_version NothingPublishedThisWalletKnows = line_with StateNoVersion [] None"
| "line_no_version EverythingUsableIsBlocked = line_with AllBlocked [] None"

definition line_of :: "verdict \<Rightarrow> string \<Rightarrow> u64 option \<Rightarrow> integrity_line" where
  "line_of v version checked_at =
     (case v of
        Open \<Rightarrow>
          if list_ex (\<lambda>h. eq_ignore_ascii_case h version) BUILD_ALLOWED
          then line_with Matches version checked_at else line_with TrustedHere version checked_at
      | OpenUnverified \<Rightarrow> line_with Unchecked [] checked_at
      | Denied h \<Rightarrow> line_with BlockedHere h None
      | RefusedPage actual _ \<Rightarrow> line_with Mismatch actual None
      | AskToTrust actual \<Rightarrow> line_with StateAskToTrust actual None
      | CouldNotCheck _ \<Rightarrow> line_with StateCouldNotCheck [] None
      | NoVersionToAsk why \<Rightarrow> line_no_version why)"

definition page_is_fresh :: "checked_page \<Rightarrow> u64 \<Rightarrow> bool" where
  "page_is_fresh p now \<longleftrightarrow> is_fresh_at (cp_checked_at_ms p) now"

definition page_line :: "checked_page \<Rightarrow> u64 \<Rightarrow> integrity_line" where
  "page_line p now =
     (if page_is_fresh p now
      then line_of (cp_verdict p) (tg_version (cp_target p)) (Some (cp_checked_at_ms p)) else line_checking)"

fun admission_line :: "admission \<Rightarrow> integrity_line" where
  "admission_line (Admitted p) = page_line p (cp_checked_at_ms p)"
| "admission_line (RefusedAdmission t v) = line_of v (tg_version t) None"

fun admission_page :: "admission \<Rightarrow> checked_page option" where
  "admission_page (Admitted p) = Some p"
| "admission_page (RefusedAdmission _ _) = None"

definition admission_is_fresh :: "admission \<Rightarrow> u64 \<Rightarrow> bool" where
  "admission_is_fresh a now \<longleftrightarrow> (case admission_page a of None \<Rightarrow> False | Some p \<Rightarrow> page_is_fresh p now)"

fun version_to_trust :: "admission \<Rightarrow> string option" where
  "version_to_trust (RefusedAdmission _ (AskToTrust actual)) = Some actual"
| "version_to_trust _ = None"

definition admission_refresh_due :: "admission \<Rightarrow> u64 option \<Rightarrow> u64 \<Rightarrow> bool" where
  "admission_refresh_due a last_attempt now =
     refresh_due (map_option cp_checked_at_ms (admission_page a)) last_attempt now"

fun incomplete :: "admission \<Rightarrow> bool" where
  "incomplete (RefusedAdmission _ (CouldNotCheck _)) = True"
| "incomplete _ = False"

definition keeps_previous :: "admission option \<Rightarrow> admission \<Rightarrow> u64 \<Rightarrow> bool" where
  "keeps_previous previous next_check now \<longleftrightarrow>
     incomplete next_check \<and> (case previous of None \<Rightarrow> False | Some a \<Rightarrow> admission_is_fresh a now)"

definition keep_or_replace :: "admission option \<Rightarrow> admission \<Rightarrow> u64 \<Rightarrow> admission" where
  "keep_or_replace previous next_check now =
     (case previous of
        Some a \<Rightarrow> if keeps_previous (Some a) next_check now then a else next_check
      | None \<Rightarrow> next_check)"

definition line_while_checking :: "admission option \<Rightarrow> u64 \<Rightarrow> integrity_line" where
  "line_while_checking previous now =
     (case Option.bind previous admission_page of
        Some p \<Rightarrow> if page_is_fresh p now then page_line p now else line_checking
      | None \<Rightarrow> line_checking)"

text \<open>\<open>matches!(verdict, Verdict::Open | Verdict::AskToTrust { .. })\<close>.\<close>

fun opens_or_asks :: "verdict \<Rightarrow> bool" where
  "opens_or_asks Open = True"
| "opens_or_asks (AskToTrust _) = True"
| "opens_or_asks _ = False"

definition admit ::
  "target \<Rightarrow> string option \<Rightarrow> check_failure \<Rightarrow> string list \<Rightarrow> string list \<Rightarrow> bool \<Rightarrow> u64 \<Rightarrow> admission" where
  "admit t observed failure trusted blocked verification_off checked_at =
     (let verdict0 = decide \<lparr>pg_url = tg_base t, pg_observed = observed, pg_failure = failure,
                             pg_trusted = trusted_for (tg_base t) trusted, pg_blocked = blocked,
                             pg_verification_off = verification_off\<rparr>;
          actual = Option.bind observed normalize_hash;
          verdict = (if opens_or_asks verdict0 \<and> actual \<noteq> Some (tg_version t)
                     then RefusedPage (unwrap_or actual []) [tg_version t] else verdict0)
      in if verdict = Open \<or> verdict = OpenUnverified \<or> \<not> ENFORCE
         then Admitted \<lparr>cp_target = t, cp_verdict = verdict, cp_checked_at_ms = checked_at\<rparr>
         else RefusedAdmission t verdict)"

datatype launch_refused = Stale

definition url_launch ::
  "signer_env \<Rightarrow> checked_page \<Rightarrow> json \<Rightarrow> string \<Rightarrow> string \<Rightarrow> string \<Rightarrow> u64 \<Rightarrow> launch_refused + string" where
  "url_launch E p req callback token lang now =
     (if \<not> page_is_fresh p now then Inl Stale
      else Inr (fragment_launch E (tg_url (cp_target p)) req callback token lang))"

definition ws_launch :: "checked_page \<Rightarrow> u16 \<Rightarrow> string \<Rightarrow> string \<Rightarrow> u64 \<Rightarrow> launch_refused + string" where
  "ws_launch p port token lang now =
     (if \<not> page_is_fresh p now then Inl Stale
      else Inr (socket_launch (tg_url (cp_target p)) port token lang))"

section \<open>Hashes in normal form\<close>

lemma hexdigit_lower: "is_ascii_hexdigit c \<Longrightarrow> is_ascii_hexdigit (to_ascii_lowercase_char c)"
  by (auto simp: is_ascii_hexdigit_def is_digit_def to_digit_def to_ascii_lowercase_char_def Let_def split: if_splits)

lemma hexdigit_printable: "is_ascii_hexdigit c \<Longrightarrow> printable c"
  by (auto simp: is_ascii_hexdigit_def is_digit_def to_digit_def printable_def Let_def split: if_splits)

lemma trim_hex:
  assumes "list_all is_ascii_hexdigit s"
  shows "trim s = s"
proof (rule trim_id)
  show "s = [] \<or> printable (hd s) \<and> printable (last s)"
    using assms by (cases "s = []") (auto simp: list_all_iff intro!: hexdigit_printable)
qed

lemma normalize_hash_normal:
  assumes "normalize_hash h = Some n"
  shows "normalize_hash n = Some n" and "length n = 64"
proof -
  have n: "n = to_ascii_lowercase (trim h)" "length (trim h) = 64" "list_all is_ascii_hexdigit (trim h)"
    using assms by (auto simp: normalize_hash_def Let_def split: if_splits)
  then have "list_all is_ascii_hexdigit n"
    by (auto simp: to_ascii_lowercase_def list_all_iff hexdigit_lower)
  moreover show "length n = 64" using n by (simp add: to_ascii_lowercase_def)
  ultimately show "normalize_hash n = Some n"
    using n by (simp add: normalize_hash_def trim_hex)
qed

lemma normal_hashes_normal: "n \<in> set (normal_hashes hs) \<Longrightarrow> normalize_hash n = Some n"
  by (induction hs) (auto simp: normal_hashes_def List.map_filter_simps normalize_hash_normal split: option.splits)

lemma normal_hashes_append: "normal_hashes (a @ b) = normal_hashes a @ normal_hashes b"
  by (induction a) (auto simp: normal_hashes_def List.map_filter_simps split: option.split)

section \<open>What an admission means\<close>

text \<open>Bytes whose hash was decided on in advance: shipped, or trusted here for a page of one's own.\<close>

definition decided_in_advance :: "string \<Rightarrow> string list \<Rightarrow> string list \<Rightarrow> string \<Rightarrow> bool" where
  "decided_in_advance base trusted blocked h \<longleftrightarrow>
     \<not> holds_hash blocked h
     \<and> (holds_hash BUILD_ALLOWED h \<or> (\<not> is_official base \<and> holds_hash trusted h))"

lemma decide_Open:
  "decide p = Open \<Longrightarrow> \<exists>h. Option.bind (pg_observed p) normalize_hash = Some h \<and> \<not> holds_hash (pg_blocked p) h
     \<and> (holds_hash BUILD_ALLOWED h \<or> holds_hash (pg_trusted p) h)"
  by (auto simp: decide_def split: option.splits if_splits)

lemma decide_OpenUnverified:
  "decide p = OpenUnverified \<Longrightarrow> \<exists>h. Option.bind (pg_observed p) normalize_hash = Some h
     \<and> \<not> holds_hash (pg_blocked p) h \<and> \<not> is_official (pg_url p) \<and> pg_verification_off p"
  by (auto simp: decide_def split: option.splits if_splits)

lemma admitted:
  assumes "admit t observed failure trusted blocked verification_off checked_at = Admitted p"
  shows "cp_target p = t" and "cp_checked_at_ms p = checked_at"
    and "cp_verdict p = Open \<or> cp_verdict p = OpenUnverified"
    and "\<exists>h. Option.bind observed normalize_hash = Some h \<and> \<not> holds_hash blocked h
      \<and> (if cp_verdict p = Open then h = tg_version t \<and> decided_in_advance (tg_base t) trusted blocked h
         else \<not> is_official (tg_base t) \<and> verification_off)"
proof -
  let ?p = "\<lparr>pg_url = tg_base t, pg_observed = observed, pg_failure = failure, pg_trusted = trusted_for (tg_base t) trusted,
      pg_blocked = blocked, pg_verification_off = verification_off\<rparr>"
  have p: "p = \<lparr>cp_target = t, cp_verdict = decide ?p, cp_checked_at_ms = checked_at\<rparr>"
      and opens: "decide ?p = Open \<and> Option.bind observed normalize_hash = Some (tg_version t) \<or> decide ?p = OpenUnverified"
    using assms by (auto simp: admit_def ENFORCE_def Let_def split: if_splits)
  then show "cp_target p = t" "cp_checked_at_ms p = checked_at" "cp_verdict p = Open \<or> cp_verdict p = OpenUnverified"
    by auto
  show "\<exists>h. Option.bind observed normalize_hash = Some h \<and> \<not> holds_hash blocked h
      \<and> (if cp_verdict p = Open then h = tg_version t \<and> decided_in_advance (tg_base t) trusted blocked h
         else \<not> is_official (tg_base t) \<and> verification_off)"
    using opens
  proof
    assume o: "decide ?p = Open \<and> Option.bind observed normalize_hash = Some (tg_version t)"
    with decide_Open [of ?p] show ?thesis
      by (auto simp: p decided_in_advance_def trusted_for_def holds_hash_def normal_hashes_def List.map_filter_simps split: if_splits)
  next
    assume "decide ?p = OpenUnverified"
    with decide_OpenUnverified [of ?p] show ?thesis by (auto simp: p)
  qed
qed

lemma admitted_line_opens:
  assumes "cp_verdict p = Open \<or> cp_verdict p = OpenUnverified"
  shows "il_opens (page_line p now) \<longleftrightarrow> page_is_fresh p now"
  using assms by (auto simp: page_line_def line_of_def line_with_def state_opens_def line_checking_def)

section \<open>The target\<close>

lemma find_Some: "find P xs = Some x \<Longrightarrow> x \<in> set xs \<and> P x"
  by (induction xs) (auto split: if_splits)

lemma find_None: "find P xs = None \<Longrightarrow> \<forall>x\<in>set xs. \<not> P x"
  by (induction xs) (auto split: if_splits)

lemma LAUNCH_shipped: "set (normal_hashes [LAUNCH]) \<subseteq> set (normal_hashes BUILD_ALLOWED)"
  by (auto simp: normal_hashes_def List.map_filter_simps BUILD_ALLOWED_def LAUNCH_def split: option.split)

lemma target_base:
  "target_of base0 index trusted blocked = Inr t \<Longrightarrow>
   tg_base t = (case signer_url base0 of Inr b \<Rightarrow> b | Inl _ \<Rightarrow> trim base0) \<and> tg_url t = page_url (tg_base t) (tg_version t)"
  by (auto simp: target_of_def new_target_def Let_def split: option.splits sum.splits if_splits)

lemma target_known:
  assumes "target_of base0 index trusted blocked = Inr t" and "\<not> tg_proposed t"
  shows "decided_in_advance (tg_base t) trusted blocked (tg_version t)
    \<and> (\<forall>listed. index = Some listed \<longrightarrow> tg_version t \<in> set (normal_hashes listed))"
proof -
  define base where "base = (case signer_url base0 of Inr b \<Rightarrow> b | Inl _ \<Rightarrow> trim base0)"
  have b: "tg_base t = base" using target_base [OF assms(1)] by (simp add: base_def)
  have decided: "decided_in_advance base trusted blocked h"
    if "h \<in> set (normal_hashes BUILD_ALLOWED) \<union> set (normal_hashes (trusted_for base trusted))" "\<not> holds_hash blocked h" for h
    using that by (auto simp: decided_in_advance_def holds_hash_def trusted_for_def normal_hashes_def List.map_filter_simps
        split: if_splits)
  show ?thesis
  proof (cases index)
    case None
    with assms have "find (\<lambda>h. \<not> holds_hash blocked h) ((if is_official base then normal_hashes [LAUNCH] else [])
        @ normal_hashes (BUILD_ALLOWED @ trusted_for base trusted)) = Some (tg_version t)"
      by (auto simp: target_of_def new_target_def Let_def base_def split: option.splits sum.splits)
    from find_Some [OF this] LAUNCH_shipped None show ?thesis
      unfolding b by (intro conjI decided) (auto simp: normal_hashes_append split: if_splits)
  next
    case (Some listed)
    with assms have "choose_version listed (trusted_for base trusted) blocked = Inr (tg_version t)"
      by (auto simp: target_of_def new_target_def Let_def base_def split: option.splits sum.splits if_splits)
    then have "find (\<lambda>c. \<not> holds_hash blocked c) (usable_candidates listed (trusted_for base trusted)) = Some (tg_version t)"
      by (auto simp: choose_version_def split: option.splits if_splits)
    from find_Some [OF this] Some show ?thesis
      unfolding b by (auto simp: usable_candidates_def intro!: decided)
  qed
qed

lemma target_proposed:
  assumes "target_of base0 index trusted blocked = Inr t" and "tg_proposed t"
  shows "\<not> is_official (tg_base t) \<and> \<not> holds_hash BUILD_ALLOWED (tg_version t) \<and> \<not> holds_hash trusted (tg_version t)
    \<and> (\<exists>listed. index = Some listed \<and> tg_version t \<in> set (normal_hashes listed)) \<and> \<not> holds_hash blocked (tg_version t)"
proof -
  define base where "base = (case signer_url base0 of Inr b \<Rightarrow> b | Inl _ \<Rightarrow> trim base0)"
  have b: "tg_base t = base" using target_base [OF assms(1)] by (simp add: base_def)
  obtain listed where listed: "index = Some listed" and custom: "\<not> is_official base"
      and none: "find (\<lambda>c. \<not> holds_hash blocked c) (usable_candidates listed (trusted_for base trusted)) = None"
      and first: "find (\<lambda>h. \<not> holds_hash blocked h) (normal_hashes listed) = Some (tg_version t)"
    using assms by (auto simp: target_of_def new_target_def choose_version_def Let_def base_def
        split: option.splits sum.splits if_splits)
  from find_Some [OF first] find_None [OF none] custom listed show ?thesis
    unfolding b by (auto simp: usable_candidates_def holds_hash_def trusted_for_def)
qed

section \<open>A page of one's own\<close>

definition own_hash :: string where
  "own_hash = replicate 64 (CHR ''a'')"

lemma own_hash_normal: "normalize_hash own_hash = Some own_hash"
proof -
  have "list_all is_ascii_hexdigit own_hash"
    by (simp add: own_hash_def list_all_iff is_ascii_hexdigit_def is_digit_def to_digit_def)
  then show ?thesis
    by (simp add: normalize_hash_def trim_hex Let_def) (simp add: own_hash_def to_ascii_lowercase_def to_ascii_lowercase_char_def)
qed

lemma own_hashes [simp]: "normal_hashes [own_hash] = [own_hash]" "normal_hashes [] = []"
  by (simp_all add: normal_hashes_def List.map_filter_simps own_hash_normal)

lemma no_address: "signer_url [] = Inl Invalid" "\<not> is_official []"
  by (simp_all add: signer_url_def fold_width_def is_official_def upto_any_def rsplit_once_def eq_ignore_ascii_case_def
      to_ascii_lowercase_def OFFICIAL_HOST_def Let_def)

lemma find_filter_eq: "x \<in> set xs \<Longrightarrow> P x \<Longrightarrow> find P (filter (\<lambda>c. c = x) xs) = Some x"
  by (induction xs) auto

lemma own_target: "target_of [] (Some [own_hash]) [own_hash] [] = Inr (new_target [] own_hash False)"
  by (simp add: target_of_def no_address trusted_for_def choose_version_def usable_candidates_def holds_hash_def Let_def
      find_filter_eq [where x = own_hash] del: filter_append)

lemma lower_hexdigit: "c \<in> set ''0123456789abcdef'' \<Longrightarrow> is_ascii_hexdigit c \<and> to_ascii_lowercase_char c = c"
  by (auto simp: is_ascii_hexdigit_def is_digit_def to_digit_def to_ascii_lowercase_char_def)

lemma normalize_hash_id: "length h = 64 \<Longrightarrow> set h \<subseteq> set ''0123456789abcdef'' \<Longrightarrow> normalize_hash h = Some h"
proof -
  assume len: "length h = 64" and "set h \<subseteq> set ''0123456789abcdef''"
  then have c: "\<forall>c\<in>set h. is_ascii_hexdigit c \<and> to_ascii_lowercase_char c = c" using lower_hexdigit by blast
  then have "map to_ascii_lowercase_char h = h" by (simp add: map_idI)
  with c len show "normalize_hash h = Some h"
    by (simp add: normalize_hash_def trim_hex list_all_iff to_ascii_lowercase_def Let_def)
qed

lemma BUILD_ALLOWED_normal: "normal_hashes BUILD_ALLOWED = BUILD_ALLOWED"
proof -
  have "\<forall>h\<in>set BUILD_ALLOWED. length h = 64 \<and> set h \<subseteq> set ''0123456789abcdef''"
    by (simp add: BUILD_ALLOWED_def)
  then have "\<forall>h\<in>set BUILD_ALLOWED. normalize_hash h = Some h" using normalize_hash_id by blast
  then have "List.map_filter normalize_hash hs = hs" if "set hs \<subseteq> set BUILD_ALLOWED" for hs
    using that by (induction hs) (auto simp: List.map_filter_simps)
  then show ?thesis by (simp add: normal_hashes_def)
qed

lemma own_hash_not_shipped: "\<not> holds_hash BUILD_ALLOWED own_hash"
proof -
  have "list_all (\<lambda>h. hd h \<noteq> CHR ''a'') BUILD_ALLOWED" by (simp add: BUILD_ALLOWED_def)
  then show ?thesis unfolding holds_hash_def BUILD_ALLOWED_normal by (auto simp: list_all_iff own_hash_def numeral_eq_Suc)
qed

lemma line_no_version_shut: "\<not> il_opens (line_no_version why)"
  by (cases why) (simp_all add: line_with_def state_opens_def)

section \<open>Properties\<close>


lemma own_admitted:
  "admit (new_target [] own_hash False) (Some own_hash) NotChecked [own_hash] [] False 5
   = Admitted \<lparr>cp_target = new_target [] own_hash False, cp_verdict = Open, cp_checked_at_ms = 5\<rparr>"
  by (simp add: admit_def decide_def new_target_def own_hash_normal no_address trusted_for_def holds_hash_def Let_def)


text \<open>
  The index narrows and never chooses. A version fetched for its own sake is one shipped or trusted
  here, unblocked, and listed when the index could be read; a version only the index named is fetched
  for a page of one's own alone, and checking it opens nothing unless checking was turned off.
\<close>

theorem index_never_chooses:
  assumes "target_of base index trusted blocked = Inr t"
  shows "if tg_proposed t
    then \<not> is_official (tg_base t)
      \<and> (\<forall>observed failure checked_at p. admit t observed failure trusted blocked False checked_at \<noteq> Admitted p)
    else decided_in_advance (tg_base t) trusted blocked (tg_version t)
      \<and> (\<forall>listed. index = Some listed \<longrightarrow> tg_version t \<in> set (normal_hashes listed))"
proof (cases "tg_proposed t")
  case True
  note t = target_proposed [OF assms True]
  have False if "admit t observed failure trusted blocked False checked_at = Admitted p" for observed failure checked_at p
    using admitted(4) [OF that] t by (auto simp: decided_in_advance_def split: if_splits)
  with True t show ?thesis by auto
next
  case False
  with target_known [OF assms False] show ?thesis by simp
qed

theorem index_never_chooses_witness:
  "target_of [] (Some [own_hash]) [] [] = Inr (new_target [] own_hash True)
   \<and> (\<forall>observed failure checked_at p. admit (new_target [] own_hash True) observed failure [] [] False checked_at \<noteq> Admitted p)"
proof -
  have "own_hash \<notin> set (normal_hashes BUILD_ALLOWED)" using own_hash_not_shipped by (simp add: holds_hash_def)
  then have "filter (\<lambda>c. c = own_hash) (normal_hashes BUILD_ALLOWED) = []" by (auto simp: filter_empty_conv)
  then have t: "target_of [] (Some [own_hash]) [] [] = Inr (new_target [] own_hash True)"
    by (simp add: target_of_def no_address trusted_for_def choose_version_def usable_candidates_def holds_hash_def Let_def)
  from index_never_chooses [OF t] t show ?thesis by (simp add: new_target_def)
qed

text \<open>
  The Open button tells the truth. For every check and every moment, the line drawn offers to open
  the page exactly when a launch at that moment succeeds; a refused check never offers it.
\<close>

theorem open_button_honest:
  "case admit t observed failure trusted blocked verification_off checked_at of
     Admitted p \<Rightarrow> il_opens (page_line p now) = (\<exists>url. url_launch E p req callback token lang now = Inr url)
       \<and> il_opens (page_line p now) = admission_is_fresh (Admitted p) now
   | RefusedAdmission t' v \<Rightarrow> \<not> il_opens (admission_line (RefusedAdmission t' v)) \<and> admission_page (RefusedAdmission t' v) = None"
proof (cases "admit t observed failure trusted blocked verification_off checked_at")
  case (Admitted p)
  with admitted(3) [OF Admitted] admitted_line_opens [of p now] show ?thesis
    by (auto simp: url_launch_def admission_is_fresh_def)
next
  case (RefusedAdmission t' v)
  then have "v \<noteq> Open" "v \<noteq> OpenUnverified" by (auto simp: admit_def Let_def split: if_splits)
  with RefusedAdmission show ?thesis
    by (cases v) (simp_all add: line_of_def line_with_def state_opens_def line_no_version_shut)
qed

end
