(* ===== verification/WsServer.thy ===== *)
theory WsServer
  imports TrustedSigner
begin

text \<open>
  \<open>trusted_signer/ws.rs\<close>: the signing page's WebSocket on the wallet's loopback, as the shell drives
  it: bytes in, bytes and an outcome out. The WebSocket handshake, the frames, the origin, the token
  and the order of the messages are modelled; SHA-1, base64 and JSON text are the crates' and come as a
  record of functions.
\<close>

record ws_env =
  ws_json_from_str :: "string \<Rightarrow> json option"
  ws_json_to_string :: "json \<Rightarrow> string"
  ws_sha1 :: "bytes \<Rightarrow> bytes"
  ws_standard_encode :: "bytes \<Rightarrow> string"

section \<open>Messages\<close>

definition intent_message :: "ws_env \<Rightarrow> string \<Rightarrow> json \<Rightarrow> string" where
  "intent_message E request_id req =
     ws_json_to_string E (Object
       [(''v'', Number (PosInt 1)), (''t'', String ''intent''), (''id'', String request_id),
        (''intent'', unwrap_or (get req ''intent'') Null),
        (''context'', unwrap_or (get req ''context'') Null)])"

datatype message = HelloMsg string | ResultMsg string json | ErrorMsg string trusted_signer_error | Ignored

fun is_object :: "json \<Rightarrow> bool" where
  "is_object (Object _) = True"
| "is_object _ = False"

definition parse_message :: "ws_env \<Rightarrow> string \<Rightarrow> message" where
  "parse_message E text =
     (case ws_json_from_str E text of
        Some (Object kvs) \<Rightarrow>
          (let m = Object kvs; text_at = (\<lambda>name. unwrap_or (text_of m name) []); t = text_of m ''t''
           in if t = Some ''hello'' then HelloMsg (text_at ''token'')
              else if t = Some ''result''
              then (case get m ''result'' of
                      Some result \<Rightarrow>
                        if is_object result then ResultMsg (text_at ''id'') result
                        else if get m ''registration'' \<noteq> None \<or> get m ''assertion'' \<noteq> None
                        then ResultMsg (text_at ''id'') m else Ignored
                    | None \<Rightarrow>
                        if get m ''registration'' \<noteq> None \<or> get m ''assertion'' \<noteq> None
                        then ResultMsg (text_at ''id'') m else Ignored)
              else if t = Some ''error'' then ErrorMsg (text_at ''id'') (refusal (text_at ''code''))
              else Ignored)
      | _ \<Rightarrow> Ignored)"

section \<open>Frames\<close>

definition MAX_MESSAGE :: nat where
  "MAX_MESSAGE = 256 * 1024"

definition MAX_HEAD :: nat where
  "MAX_HEAD = 16 * 1024"

definition GUID :: string where
  "GUID = ''258EAFA5-E914-47DA-95CA-C5AB0DC85B11''"

datatype frame = FText bool bytes | FBinary | FClose | FPing bytes | FPong | FBad

text \<open>\<open>bytes.get(a..b)\<close>.\<close>

definition get_range :: "nat \<Rightarrow> nat \<Rightarrow> bytes \<Rightarrow> bytes option" where
  "get_range a b bs = (if b \<le> length bs then Some (subslice a b bs) else None)"

text \<open>\<open>byte ^ mask[i % 4]\<close>, for the bytes from index \<open>i\<close> on.\<close>

fun unmask :: "bytes \<Rightarrow> nat \<Rightarrow> bytes \<Rightarrow> bytes" where
  "unmask key i [] = []"
| "unmask key i (b # bs) = (b XOR key ! (i mod 4)) # unmask key (Suc i) bs"

definition frame_of :: "u8 \<Rightarrow> bool \<Rightarrow> bytes \<Rightarrow> frame" where
  "frame_of opcode fin payload =
     (if opcode = 0x0 \<or> opcode = 0x1 then FText fin payload
      else if opcode = 0x2 then FBinary
      else if opcode = 0x8 then FClose
      else if opcode = 0x9 then FPing payload
      else if opcode = 0xA then FPong
      else FBad)"

text \<open>The payload's length and the index after it; a length past \<open>usize\<close> is over the limit either way.\<close>

definition frame_length :: "bytes \<Rightarrow> (nat \<times> nat) option" where
  "frame_length bs =
     (let short = (bs ! 1) AND 0x7F
      in if short = 126 then map_option (\<lambda>b. (nat_of_be b, 4)) (get_range 2 4 bs)
         else if short = 127 then map_option (\<lambda>b. (nat_of_be b, 10)) (get_range 2 10 bs)
         else Some (unat short, 2))"

definition decode :: "bytes \<Rightarrow> (frame \<times> nat) option" where
  "decode bs =
     (if length bs < 2 then None
      else let fin = ((bs ! 0) AND 0x80 \<noteq> 0); opcode = (bs ! 0) AND 0x0F; masked = ((bs ! 1) AND 0x80 \<noteq> 0)
      in case frame_length bs of
           None \<Rightarrow> None
         | Some (len, at) \<Rightarrow>
             if \<not> masked \<or> MAX_MESSAGE < len \<or> (bs ! 0) AND 0x70 \<noteq> 0 then Some (FBad, length bs)
             else case get_range at (at + 4) bs of
                 None \<Rightarrow> None
               | Some key \<Rightarrow>
                   (case get_range (at + 4) (at + 4 + len) bs of
                      None \<Rightarrow> None
                    | Some raw \<Rightarrow> Some (frame_of opcode fin (unmask key 0 raw), at + 4 + len)))"

definition encode :: "u8 \<Rightarrow> bytes \<Rightarrow> bytes" where
  "encode opcode payload =
     (let n = length payload
      in [0x80 OR opcode]
         @ (if n < 126 then [of_nat n]
            else if n \<le> 0xFFFF then 126 # be_of_nat 2 n
            else 127 # be_of_nat 8 n)
         @ payload)"

definition close_frame :: "u16 \<Rightarrow> bytes" where
  "close_frame c = encode 0x8 (u16_be c)"

section \<open>The handshake\<close>

text \<open>\<open>windows(n).position(|w| w == needle)\<close>.\<close>

definition find_bytes :: "bytes \<Rightarrow> bytes \<Rightarrow> nat option" where
  "find_bytes haystack needle =
     position (\<lambda>i. subslice i (i + length needle) haystack = needle)
       [0..<Suc (length haystack) - length needle]"

definition CRLF :: string where
  "CRLF = [CHR 0x0D, CHR 0x0A]"

definition origin_of :: "string \<Rightarrow> string" where
  "origin_of url0 =
     (let url = trim url0
      in case split_once url ''://'' of
           None \<Rightarrow> []
         | Some (scheme0, rest) \<Rightarrow>
             let authority0 = rsplit_last (upto_any ''/?#'' rest) (CHR ''@'');
                 scheme = to_ascii_lowercase scheme0;
                 authority1 = to_ascii_lowercase authority0;
                 authority = (case rsplit_once authority1 (CHR '':'') of
                     Some (host, port) \<Rightarrow>
                       if (scheme = ''https'' \<and> port = ''443'') \<or> (scheme = ''http'' \<and> port = ''80'')
                       then host else authority1
                   | None \<Rightarrow> authority1)
             in scheme @ ''://'' @ authority)"

record headers =
  hd_key :: "string option"
  hd_upgrade :: bool
  hd_from :: "string option"

definition read_header :: "headers \<Rightarrow> string \<Rightarrow> headers" where
  "read_header h line =
     (case split_once line '':'' of
        None \<Rightarrow> h
      | Some (name0, value0) \<Rightarrow>
          (let value = trim value0; name = to_ascii_lowercase (trim name0)
           in if name = ''upgrade'' then h\<lparr>hd_upgrade := eq_ignore_ascii_case value ''websocket''\<rparr>
              else if name = ''sec-websocket-key'' then h\<lparr>hd_key := Some value\<rparr>
              else if name = ''origin'' then h\<lparr>hd_from := Some (to_ascii_lowercase value)\<rparr>
              else h))"

definition read_headers :: "string list \<Rightarrow> headers" where
  "read_headers lines = foldl read_header \<lparr>hd_key = None, hd_upgrade = False, hd_from = None\<rparr> lines"

definition accept :: "ws_env \<Rightarrow> string \<Rightarrow> string \<Rightarrow> string option" where
  "accept E head origin =
     (case split_str CRLF head of
        [] \<Rightarrow> None
      | request_line # lines \<Rightarrow>
          if \<not> starts_with request_line ''GET '' then None
          else let h = read_headers lines
          in if \<not> hd_upgrade h \<or> origin = [] \<or> hd_from h \<noteq> Some origin then None
             else case hd_key h of
                 None \<Rightarrow> None
               | Some key \<Rightarrow>
                   let digest = ws_standard_encode E (ws_sha1 E (as_bytes key @ as_bytes GUID))
                   in Some (''HTTP/1.1 101 Switching Protocols'' @ CRLF @ ''Upgrade: websocket'' @ CRLF
                            @ ''Connection: Upgrade'' @ CRLF @ ''Sec-WebSocket-Accept: '' @ digest @ CRLF @ CRLF))"

text \<open>The comparison of tokens, byte by byte, with the accumulator of the code.\<close>

definition same :: "string \<Rightarrow> string \<Rightarrow> bool" where
  "same a b \<longleftrightarrow>
     length a = length b
     \<and> foldl (\<lambda>acc (x, y). acc OR (x XOR y)) (0 :: u8) (zip (as_bytes a) (as_bytes b)) = 0"

section \<open>The connection\<close>

datatype phase = Handshake | Hello | Answer | Idle | Done

record connection =
  cn_origin :: string
  cn_token :: string
  cn_id :: string
  cn_intent :: string
  cn_phase :: phase
  cn_inbox :: bytes
  cn_partial :: bytes

record step =
  st_write :: bytes
  st_close :: bool
  st_outcome :: "(trusted_signer_error + json) option"

definition empty_step :: step where
  "empty_step = \<lparr>st_write = [], st_close = False, st_outcome = None\<rparr>"

definition put_out :: "step \<Rightarrow> bytes \<Rightarrow> step" where
  "put_out st bs = st\<lparr>st_write := st_write st @ bs\<rparr>"

definition new_connection :: "ws_env \<Rightarrow> string \<Rightarrow> string \<Rightarrow> string \<Rightarrow> json \<Rightarrow> connection" where
  "new_connection E page_url token request_id req =
     \<lparr>cn_origin = origin_of page_url, cn_token = token, cn_id = request_id,
      cn_intent = intent_message E request_id req, cn_phase = Handshake, cn_inbox = [], cn_partial = []\<rparr>"

text \<open>\<open>fail\<close>, \<open>refuse_http\<close> and \<open>message\<close> write into the step and change the phase.\<close>

definition fail :: "step \<Rightarrow> connection \<Rightarrow> u16 \<Rightarrow> step \<times> connection" where
  "fail st c status =
     (let st1 = (if cn_phase c = Answer
                 then st\<lparr>st_outcome := Some (Inl (Malformed (''websocket close '' @ show_nat (unat status))))\<rparr>
                 else st)
      in ((put_out st1 (close_frame status))\<lparr>st_close := True\<rparr>, c\<lparr>cn_phase := Done\<rparr>))"

definition refuse_http :: "step \<Rightarrow> connection \<Rightarrow> step \<times> connection" where
  "refuse_http st c =
     ((put_out st (as_bytes (''HTTP/1.1 403 Forbidden'' @ CRLF @ ''Content-Length: 0'' @ CRLF
         @ ''Connection: close'' @ CRLF @ CRLF)))\<lparr>st_close := True\<rparr>, c\<lparr>cn_phase := Done\<rparr>)"

definition on_message :: "ws_env \<Rightarrow> string \<Rightarrow> step \<Rightarrow> connection \<Rightarrow> step \<times> connection" where
  "on_message E text st c =
     (case (cn_phase c, parse_message E text) of
        (Hello, HelloMsg token) \<Rightarrow>
          if same token (cn_token c)
          then (put_out st (encode 0x1 (as_bytes (cn_intent c))), c\<lparr>cn_phase := Answer\<rparr>)
          else fail st c 1008
      | (Answer, ResultMsg i result) \<Rightarrow>
          if i = cn_id c then (st\<lparr>st_outcome := Some (Inr result)\<rparr>, c\<lparr>cn_phase := Idle\<rparr>) else (st, c)
      | (Answer, ErrorMsg i e) \<Rightarrow>
          if i = cn_id c then (st\<lparr>st_outcome := Some (Inl e)\<rparr>, c\<lparr>cn_phase := Idle\<rparr>) else (st, c)
      | _ \<Rightarrow> (st, c))"

text \<open>One frame: the match in the loop of \<open>feed\<close>.\<close>

definition on_frame :: "ws_env \<Rightarrow> frame \<Rightarrow> step \<Rightarrow> connection \<Rightarrow> step \<times> connection" where
  "on_frame E frame st c =
     (case frame of
        FBad \<Rightarrow> fail st c 1002
      | FPing payload \<Rightarrow> (put_out st (encode 0xA payload), c)
      | FPong \<Rightarrow> (st, c)
      | FBinary \<Rightarrow> (st, c)
      | FClose \<Rightarrow>
          (let st1 = (if cn_phase c = Answer then st\<lparr>st_outcome := Some (Inl Declined)\<rparr> else st)
           in ((put_out st1 (close_frame 1000))\<lparr>st_close := True\<rparr>, c\<lparr>cn_phase := Done\<rparr>))
      | FText fin payload \<Rightarrow>
          (let joined = cn_partial c @ payload; c1 = c\<lparr>cn_partial := joined\<rparr>
           in if MAX_MESSAGE < length joined then fail st c1 1009
              else if fin then on_message E (from_utf8_lossy (string_of_bytes joined)) st (c1\<lparr>cn_partial := []\<rparr>)
              else (st, c1)))"

lemma on_frame_inbox [simp]: "cn_inbox (snd (on_frame E f st c)) = cn_inbox c"
  by (simp add: on_frame_def on_message_def fail_def Let_def split: frame.split phase.split message.split)

lemma decode_used: "decode bs = Some (f, n) \<Longrightarrow> 0 < n \<and> n \<le> length bs"
  by (auto simp: decode_def get_range_def Let_def split: if_splits option.splits prod.splits)

function feed_loop :: "ws_env \<Rightarrow> step \<Rightarrow> connection \<Rightarrow> step \<times> connection" where
  "feed_loop E st c =
     (if cn_phase c = Done then (st, c)
      else case decode (cn_inbox c) of
          None \<Rightarrow> if MAX_MESSAGE + 14 < length (cn_inbox c) then fail st c 1009 else (st, c)
        | Some (frame, used) \<Rightarrow>
            let r = on_frame E frame st (c\<lparr>cn_inbox := drop used (cn_inbox c)\<rparr>)
            in feed_loop E (fst r) (snd r))"
  by pat_completeness auto
termination
proof (relation "measure (\<lambda>(E, st, c). length (cn_inbox c))")
  fix E st and c :: connection and x and frame :: frame and used and r :: "step \<times> connection"
  assume "decode (cn_inbox c) = Some x" "(frame, used) = x"
    and r: "r = on_frame E frame st (c\<lparr>cn_inbox := drop used (cn_inbox c)\<rparr>)"
  then have "0 < used \<and> used \<le> length (cn_inbox c)" by (auto dest: decode_used)
  moreover have "cn_inbox (snd r) = drop used (cn_inbox c)" by (simp add: r)
  ultimately show "((E, fst r, snd r), E, st, c) \<in> measure (\<lambda>(E, st, c). length (cn_inbox c))"
    by (simp add: case_prod_beta) linarith
qed simp

declare feed_loop.simps [simp del]

definition CRLF2 :: bytes where
  "CRLF2 = as_bytes (CRLF @ CRLF)"

definition feed :: "ws_env \<Rightarrow> connection \<Rightarrow> bytes \<Rightarrow> step \<times> connection" where
  "feed E c bs =
     (if cn_phase c = Done then (empty_step, c)
      else let c1 = c\<lparr>cn_inbox := cn_inbox c @ bs\<rparr>
      in if cn_phase c = Handshake
         then (case find_bytes (cn_inbox c1) CRLF2 of
                 None \<Rightarrow> if MAX_HEAD < length (cn_inbox c1) then refuse_http empty_step c1 else (empty_step, c1)
               | Some e \<Rightarrow>
                   (let head = from_utf8_lossy (string_of_bytes (take e (cn_inbox c1)));
                        c2 = c1\<lparr>cn_inbox := drop (e + 4) (cn_inbox c1)\<rparr>
                    in case accept E head (cn_origin c) of
                         Some response \<Rightarrow>
                           feed_loop E (put_out empty_step (as_bytes response)) (c2\<lparr>cn_phase := Hello\<rparr>)
                       | None \<Rightarrow> refuse_http empty_step c2))
         else feed_loop E empty_step c1)"

definition closed :: "connection \<Rightarrow> trusted_signer_error option \<times> connection" where
  "closed c = (if cn_phase c = Answer then Some Declined else None, c\<lparr>cn_phase := Done\<rparr>)"

definition send :: "ws_env \<Rightarrow> connection \<Rightarrow> string \<Rightarrow> json \<Rightarrow> step \<times> connection" where
  "send E c request_id req =
     (if cn_phase c = Idle
      then (put_out empty_step (encode 0x1 (as_bytes (intent_message E request_id req))),
            c\<lparr>cn_id := request_id, cn_phase := Answer\<rparr>)
      else (empty_step, c))"

definition end_session :: "ws_env \<Rightarrow> connection \<Rightarrow> step \<times> connection" where
  "end_session E c =
     (let bye = ws_json_to_string E (Object
            [(''v'', Number (PosInt 1)), (''t'', String ''bye''), (''reason'', String ''done'')]);
          st = (if cn_phase c \<noteq> Done \<and> cn_phase c \<noteq> Handshake
                then put_out empty_step (encode 0x1 (as_bytes bye)) else empty_step)
      in ((put_out st (close_frame 1000))\<lparr>st_close := True\<rparr>, c\<lparr>cn_phase := Done\<rparr>))"

section \<open>The other side's frames\<close>

text \<open>A masked frame as a browser writes it (RFC 6455, section 5): the specification \<open>decode\<close> meets.\<close>

definition client_frame :: "bytes \<Rightarrow> bool \<Rightarrow> u8 \<Rightarrow> bytes \<Rightarrow> bytes" where
  "client_frame key fin opcode payload =
     (let n = length payload
      in [(if fin then 0x80 else 0) OR opcode]
         @ (if n < 126 then [0x80 OR of_nat n]
            else if n \<le> 0xFFFF then 0xFE # be_of_nat 2 n
            else 0xFF # be_of_nat 8 n)
         @ key @ unmask key 0 payload)"

definition opcode_of :: "frame \<Rightarrow> u8" where
  "opcode_of f = (case f of FText _ _ \<Rightarrow> 0x1 | FBinary \<Rightarrow> 0x2 | FClose \<Rightarrow> 0x8 | FPing _ \<Rightarrow> 0x9 | FPong \<Rightarrow> 0xA | FBad \<Rightarrow> 0x3)"

definition payload_of :: "frame \<Rightarrow> bytes" where
  "payload_of f = (case f of FText _ p \<Rightarrow> p | FPing p \<Rightarrow> p | _ \<Rightarrow> [])"

definition fin_of :: "frame \<Rightarrow> bool" where
  "fin_of f = (case f of FText fin _ \<Rightarrow> fin | _ \<Rightarrow> True)"

definition browser_frame :: "bytes \<Rightarrow> frame \<Rightarrow> bytes" where
  "browser_frame key f = client_frame key (fin_of f) (opcode_of f) (payload_of f)"

definition sendable :: "bytes \<Rightarrow> frame \<Rightarrow> bool" where
  "sendable key f \<longleftrightarrow> length key = 4 \<and> f \<noteq> FBad \<and> length (payload_of f) \<le> MAX_MESSAGE"

lemma length_unmask [simp]: "length (unmask key i bs) = length bs"
  by (induction bs arbitrary: i) simp_all

lemma unmask_unmask [simp]: "unmask key i (unmask key i bs) = bs"
  by (induction bs arbitrary: i) (simp_all add: xor.assoc)

lemma get_range_append: "get_range a b bs = Some r \<Longrightarrow> get_range a b (bs @ cs) = Some r"
  by (cases "a \<le> b") (auto simp: get_range_def subslice_def split: if_splits)

lemma get_range_front:
  "a = length xs \<Longrightarrow> b = length xs + length ys \<Longrightarrow> get_range a b (xs @ ys @ zs) = Some ys"
  by (simp add: get_range_def subslice_def)

text \<open>The two bytes every frame opens with.\<close>

lemma opcode_bits: "(opcode :: u8) < 16 \<Longrightarrow> opcode AND 0xF = opcode"
proof -
  assume "opcode < 16"
  then have "opcode AND mask 4 = opcode" by (intro less_mask_eq) simp
  then show ?thesis by (simp add: mask_eq_exp_minus_1)
qed

lemma low_bits: "n < 128 \<Longrightarrow> (of_nat n :: u8) AND 0x7F = of_nat n"
proof -
  assume "n < 128"
  then have "(of_nat n :: u8) < 2 ^ 7" by (simp add: word_less_nat_alt unat_of_nat)
  then have "(of_nat n :: u8) AND mask 7 = of_nat n" by (rule less_mask_eq)
  then show ?thesis by (simp add: mask_eq_exp_minus_1)
qed

lemma first_byte:
  assumes "(opcode :: u8) < 16"
  shows "(((if fin then 0x80 else 0) OR opcode) AND 0x80 \<noteq> (0 :: u8)) = fin"
    and "((if fin then 0x80 else 0) OR opcode) AND 0x0F = (opcode :: u8)"
    and "((if fin then 0x80 else 0) OR opcode) AND 0x70 = (0 :: u8)"
proof -
  obtain y where y: "opcode = y AND 0xF" using opcode_bits [OF assms] by metis
  show "(((if fin then 0x80 else 0) OR opcode) AND 0x80 \<noteq> (0 :: u8)) = fin"
    and "((if fin then 0x80 else 0) OR opcode) AND 0x0F = (opcode :: u8)"
    and "((if fin then 0x80 else 0) OR opcode) AND 0x70 = (0 :: u8)"
    unfolding y by (simp_all add: bit.conj_disj_distrib2 and.assoc)
qed

lemma length_byte:
  assumes "n < 128"
  shows "(0x80 OR of_nat n :: u8) AND 0x7F = of_nat n" and "(0x80 OR of_nat n :: u8) AND 0x80 \<noteq> 0"
proof -
  show "(0x80 OR of_nat n :: u8) AND 0x7F = of_nat n" using low_bits [OF assms] by (simp add: bit.conj_disj_distrib2)
  have "(0x80 OR of_nat n :: u8) AND 0x80 = 0x80" by (simp add: bit.conj_disj_distrib2 and.commute)
  then show "(0x80 OR of_nat n :: u8) AND 0x80 \<noteq> 0" by simp
qed

lemma client_frame_length:
  "n \<le> MAX_MESSAGE \<Longrightarrow> length payload = n \<Longrightarrow>
   length (client_frame key fin opcode payload)
     = 2 + (if n < 126 then 0 else if n \<le> 0xFFFF then 2 else 8) + length key + n"
  by (simp add: client_frame_def Let_def)

lemma decode_client_frame:
  assumes "length key = 4" and "opcode < 16" and "length payload \<le> MAX_MESSAGE"
  shows "decode (client_frame key fin opcode payload @ rest)
    = Some (frame_of opcode fin payload, length (client_frame key fin opcode payload))"
proof -
  define n where "n = length payload"
  define b0 where "b0 = (if fin then 0x80 else 0) OR opcode"
  define lb where "lb = (if n < 126 then [0x80 OR of_nat n] else if n \<le> 0xFFFF then 0xFE # be_of_nat 2 n else (0xFF :: u8) # be_of_nat 8 n)"
  define at where "at = Suc (length lb)"
  note b0 = first_byte [OF assms(2), of fin, folded b0_def]
  have n: "n \<le> 262144" using assms(3) by (simp add: n_def MAX_MESSAGE_def)
  have frame: "client_frame key fin opcode payload = (b0 # lb) @ key @ unmask key 0 payload"
    by (simp add: client_frame_def Let_def n_def b0_def lb_def)
  let ?bs = "(b0 # lb) @ key @ unmask key 0 payload @ rest"
  have len: "lb \<noteq> []" "key \<noteq> []" using assms(1) by (auto simp: lb_def)
  have masked: "?bs ! 1 AND 0x80 \<noteq> 0" using length_byte(2) [of n] by (simp add: lb_def)
  have fl: "frame_length ?bs = Some (n, at)"
  proof (cases "n < 126")
    case True
    then have "(of_nat n :: u8) \<noteq> 126" "(of_nat n :: u8) \<noteq> 127"
      by (simp_all add: word_unat_eq_iff unat_of_nat)
    with True show ?thesis
      using length_byte(1) [of n] by (simp add: frame_length_def lb_def at_def Let_def unat_of_nat)
  next
    case False
    then show ?thesis
      using n nat_of_be_be_of_nat_id [of n 2] nat_of_be_be_of_nat_id [of n 8]
      by (simp add: frame_length_def lb_def at_def Let_def get_range_def subslice_def)
  qed
  have mk: "get_range at (at + 4) ?bs = Some key"
    using get_range_front [of at "b0 # lb" "at + 4" key] assms(1) by (simp add: at_def)
  have raw: "get_range (at + 4) (at + 4 + n) ?bs = Some (unmask key 0 payload)"
    using get_range_front [of "at + 4" "(b0 # lb) @ key" "at + 4 + n" "unmask key 0 payload" rest] assms(1)
    by (simp add: at_def n_def)
  have "decode ?bs = Some (frame_of opcode fin payload, at + 4 + n)"
    using len fl mk raw masked n b0 by (simp add: decode_def Let_def MAX_MESSAGE_def)
  moreover have "length (client_frame key fin opcode payload) = at + 4 + n"
    by (simp add: frame at_def n_def assms(1))
  ultimately show ?thesis by (simp add: frame)
qed

lemma frame_of_opcode [simp]: "f \<noteq> FBad \<Longrightarrow> frame_of (opcode_of f) (fin_of f) (payload_of f) = f"
  by (cases f) (simp_all add: frame_of_def opcode_of_def fin_of_def payload_of_def)

interpretation frames: stream_codec "browser_frame key" decode "sendable key" for key
proof
  fix f rest
  assume "sendable key f"
  moreover have "opcode_of f < 16" by (cases f) (simp_all add: opcode_of_def)
  ultimately show "decode (browser_frame key f @ rest) = Some (f, length (browser_frame key f))"
    by (simp add: browser_frame_def sendable_def decode_client_frame)
qed

section \<open>Reading in pieces\<close>

lemma frame_length_append:
  "2 \<le> length a \<Longrightarrow> frame_length a = Some r \<Longrightarrow> frame_length (a @ b) = Some r"
  by (auto simp: frame_length_def Let_def nth_append split: if_splits dest: get_range_append)

text \<open>A frame read out of the front stays the frame read, whatever arrives behind it.\<close>

lemma decode_append:
  assumes "decode a = Some (f, n)"
  shows "\<exists>n'. decode (a @ b) = Some (f, n') \<and> (f \<noteq> FBad \<longrightarrow> n' = n)"
proof -
  have two: "2 \<le> length a" using assms by (auto simp: decode_def split: if_splits)
  then obtain len at where fl: "frame_length a = Some (len, at)"
    using assms by (auto simp: decode_def Let_def split: option.splits)
  note fl2 = frame_length_append [OF two fl, of b]
  have nth: "(a @ b) ! 0 = a ! 0" "(a @ b) ! 1 = a ! 1" using two by (auto simp: nth_append)
  show ?thesis
  proof (cases "(a ! 1) AND 0x80 = 0 \<or> MAX_MESSAGE < len \<or> (a ! 0) AND 0x70 \<noteq> 0")
    case True
    with assms fl fl2 two nth show ?thesis by (auto simp: decode_def Let_def)
  next
    case False
    with assms fl two obtain key raw where
        "get_range at (at + 4) a = Some key" "get_range (at + 4) (at + 4 + len) a = Some raw"
      by (auto simp: decode_def Let_def split: option.splits)
    with False assms fl fl2 two nth show ?thesis
      using get_range_append [of at "at + 4" a key b] get_range_append [of "at + 4" "at + 4 + len" a raw b]
      by (auto simp: decode_def Let_def)
  qed
qed

text \<open>A buffer that holds no whole frame is short: the limit on its length is never what stops a page.\<close>

lemma decode_None_short:
  assumes "decode bs = None"
  shows "length bs < MAX_MESSAGE + 14"
proof (rule ccontr)
  assume long: "\<not> length bs < MAX_MESSAGE + 14"
  then have two: "\<not> length bs < 2" by simp
  have "frame_length bs \<noteq> None"
    using long by (simp add: frame_length_def Let_def get_range_def MAX_MESSAGE_def)
  then obtain len at where fl: "frame_length bs = Some (len, at)" by auto
  then have at: "at \<le> 10" by (auto simp: frame_length_def Let_def split: if_splits)
  show False
  proof (cases "(bs ! 1) AND 0x80 = 0 \<or> MAX_MESSAGE < len \<or> (bs ! 0) AND 0x70 \<noteq> 0")
    case True
    with two fl assms show ?thesis by (auto simp: decode_def Let_def)
  next
    case False
    then have "at + 4 + len \<le> length bs" using long at by simp
    with two fl assms False show ?thesis by (simp add: decode_def Let_def get_range_def)
  qed
qed

definition then_step :: "step \<Rightarrow> step \<Rightarrow> step" where
  "then_step s1 s2 =
     \<lparr>st_write = st_write s1 @ st_write s2, st_close = (st_close s1 \<or> st_close s2),
      st_outcome = (case st_outcome s2 of None \<Rightarrow> st_outcome s1 | x \<Rightarrow> x)\<rparr>"

lemma then_step_empty [simp]: "then_step st empty_step = st" "then_step empty_step st = st"
  by (simp_all add: then_step_def empty_step_def split: option.split)

lemma then_step_assoc: "then_step (then_step a b) c = then_step a (then_step b c)"
  by (simp add: then_step_def split: option.split)

lemma on_frame_step: "fst (on_frame E f st c) = then_step st (fst (on_frame E f empty_step c))"
    "snd (on_frame E f st c) = snd (on_frame E f empty_step c)"
  by (simp_all add: on_frame_def on_message_def fail_def put_out_def then_step_def empty_step_def Let_def
      split: frame.split phase.split message.split option.split)

lemma on_frame_carry:
  "on_frame E f st (c\<lparr>cn_inbox := x\<rparr>) = (fst (on_frame E f st c), snd (on_frame E f st c)\<lparr>cn_inbox := x\<rparr>)"
  by (simp add: on_frame_def on_message_def fail_def Let_def split: frame.split phase.split message.split)

lemma feed_loop_Done [simp]: "cn_phase c = Done \<Longrightarrow> feed_loop E st c = (st, c)"
  by (simp add: feed_loop.simps)

lemma feed_loop_None: "decode (cn_inbox c) = None \<Longrightarrow> feed_loop E st c = (st, c)"
  using decode_None_short [of "cn_inbox c"] by (auto simp: feed_loop.simps)

lemma feed_loop_Some:
  "cn_phase c \<noteq> Done \<Longrightarrow> decode (cn_inbox c) = Some (f, used) \<Longrightarrow>
   feed_loop E st c =
     (let r = on_frame E f st (c\<lparr>cn_inbox := drop used (cn_inbox c)\<rparr>) in feed_loop E (fst r) (snd r))"
  by (simp add: feed_loop.simps [of E st c])

text \<open>The loop's cases as an induction: done, no whole frame, or one frame and the rest.\<close>

lemma feed_loop_cases [case_names Done Wait Frame]:
  assumes "cn_phase c = Done \<Longrightarrow> P" and "cn_phase c \<noteq> Done \<Longrightarrow> decode (cn_inbox c) = None \<Longrightarrow> P"
    and "\<And>f used. cn_phase c \<noteq> Done \<Longrightarrow> decode (cn_inbox c) = Some (f, used) \<Longrightarrow> 0 < used \<Longrightarrow>
      used \<le> length (cn_inbox c) \<Longrightarrow> P"
  shows P
  using assms decode_used by (cases "decode (cn_inbox c)") (metis prod.collapse)+

lemma feed_loop_step:
  "feed_loop E st c = (then_step st (fst (feed_loop E empty_step c)), snd (feed_loop E empty_step c))"
proof (induction "length (cn_inbox c)" arbitrary: st c rule: less_induct)
  case less
  show ?case
  proof (cases c rule: feed_loop_cases)
    case (Frame f used)
    define c1 where "c1 = c\<lparr>cn_inbox := drop used (cn_inbox c)\<rparr>"
    define q where "q = on_frame E f empty_step c1"
    have unfold: "feed_loop E s c = feed_loop E (then_step s (fst q)) (snd q)" for s
      using Frame on_frame_step [of E f s c1] by (simp add: feed_loop_Some c1_def q_def Let_def)
    have "length (cn_inbox (snd q)) < length (cn_inbox c)" using Frame by (simp add: q_def c1_def)
    from less [OF this] show ?thesis
      using unfold [of st] unfold [of empty_step] by (metis fst_conv snd_conv then_step_assoc then_step_empty(2))
  qed (simp_all add: feed_loop_None)
qed

text \<open>A prefix of the bytes first, the rest after it.\<close>

lemma feed_loop_append:
  "(let r = feed_loop E st c; r' = feed_loop E st (c\<lparr>cn_inbox := cn_inbox c @ b\<rparr>)
    in if cn_phase (snd r) = Done then fst r' = fst r \<and> (\<exists>i. snd r' = snd r\<lparr>cn_inbox := i\<rparr>)
       else r' = feed_loop E (fst r) (snd r\<lparr>cn_inbox := cn_inbox (snd r) @ b\<rparr>))"
proof (induction "length (cn_inbox c)" arbitrary: st c rule: less_induct)
  case less
  show ?case
  proof (cases c rule: feed_loop_cases)
    case (Frame f used)
    define c1 where "c1 = c\<lparr>cn_inbox := drop used (cn_inbox c)\<rparr>"
    define q where "q = on_frame E f st c1"
    have r: "feed_loop E st c = feed_loop E (fst q) (snd q)"
      using Frame by (simp add: feed_loop_Some c1_def q_def Let_def)
    obtain n where n: "decode (cn_inbox c @ b) = Some (f, n)" "f \<noteq> FBad \<longrightarrow> n = used"
      using decode_append [OF Frame(2), of b] by blast
    have r': "feed_loop E st (c\<lparr>cn_inbox := cn_inbox c @ b\<rparr>)
        = feed_loop E (fst q) (snd q\<lparr>cn_inbox := drop n (cn_inbox c @ b)\<rparr>)"
      using Frame n(1) on_frame_carry [of E f st "drop n (cn_inbox c @ b)" c1]
      by (simp add: feed_loop_Some c1_def q_def Let_def)
    show ?thesis
    proof (cases "f = FBad")
      case True
      then have "cn_phase (snd q) = Done" by (simp add: q_def on_frame_def fail_def Let_def)
      then show ?thesis unfolding r r' by (auto simp: Let_def)
    next
      case False
      with n(2) Frame have "drop n (cn_inbox c @ b) = cn_inbox (snd q) @ b" by (simp add: q_def c1_def)
      moreover have "length (cn_inbox (snd q)) < length (cn_inbox c)" using Frame by (simp add: q_def c1_def)
      ultimately show ?thesis using less [of "snd q" "fst q"] unfolding r r' by simp
    qed
  qed (auto simp: feed_loop_None Let_def)
qed

lemma on_frame_not_Handshake: "cn_phase c \<noteq> Handshake \<Longrightarrow> cn_phase (snd (on_frame E f st c)) \<noteq> Handshake"
  by (simp add: on_frame_def on_message_def fail_def Let_def split: frame.split phase.split message.split)

lemma feed_loop_not_Handshake: "cn_phase c \<noteq> Handshake \<Longrightarrow> cn_phase (snd (feed_loop E st c)) \<noteq> Handshake"
proof (induction "length (cn_inbox c)" arbitrary: st c rule: less_induct)
  case less
  then show ?case
    by (cases c rule: feed_loop_cases) (auto simp: feed_loop_None feed_loop_Some Let_def on_frame_not_Handshake)
qed

text \<open>The same, for the bytes of one \<open>feed\<close> split over two.\<close>

lemma feed_append:
  assumes "cn_phase c \<noteq> Handshake"
  shows "(let r = feed E c a; r2 = feed E (snd r) b; r' = feed E c (a @ b)
    in fst r' = then_step (fst r) (fst r2) \<and> (\<exists>i. snd r' = snd r2\<lparr>cn_inbox := i\<rparr> \<and> (cn_phase (snd r2) \<noteq> Done \<longrightarrow> i = cn_inbox (snd r2))))"
proof (cases "cn_phase c = Done")
  case True
  then show ?thesis by (auto simp: feed_def Let_def) (metis connection.surjective connection.update_convs(6))
next
  case False
  define c1 where "c1 = c\<lparr>cn_inbox := cn_inbox c @ a\<rparr>"
  define r where "r = feed_loop E empty_step c1"
  have fa: "feed E c a = r" using assms False by (simp add: feed_def c1_def r_def)
  have fab: "feed E c (a @ b) = feed_loop E empty_step (c1\<lparr>cn_inbox := cn_inbox c1 @ b\<rparr>)"
    using assms False by (simp add: feed_def c1_def)
  note app = feed_loop_append [of E empty_step c1 b, folded r_def fab]
  show ?thesis
  proof (cases "cn_phase (snd r) = Done")
    case True
    then have "feed E (snd r) b = (empty_step, snd r)" by (simp add: feed_def)
    with True app show ?thesis by (auto simp: Let_def fa)
  next
    case False
    then have "feed E c (a @ b) = feed_loop E (fst r) (snd r\<lparr>cn_inbox := cn_inbox (snd r) @ b\<rparr>)"
      using app by (simp add: Let_def)
    moreover have "cn_phase (snd r) \<noteq> Handshake"
      using assms by (simp add: r_def c1_def feed_loop_not_Handshake)
    then have "feed E (snd r) b = feed_loop E empty_step (snd r\<lparr>cn_inbox := cn_inbox (snd r) @ b\<rparr>)"
      using False by (simp add: feed_def)
    ultimately show ?thesis
      using feed_loop_step [of E "fst r" "snd r\<lparr>cn_inbox := cn_inbox (snd r) @ b\<rparr>"]
      by (auto simp: Let_def fa intro!: exI [of _ "cn_inbox (snd (feed E (snd r) b))"])
  qed
qed

section \<open>What the page has said\<close>

text \<open>
  The texts in a stream of frames, fragments joined: a reader with no state of the conversation. It
  gives the texts, and what is left (the open fragment and the bytes of no whole frame), unless the
  stream ended.
\<close>

function said :: "bytes \<Rightarrow> bytes \<Rightarrow> string list \<times> (bytes \<times> bytes) option" where
  "said p bs =
     (case decode bs of
        None \<Rightarrow> ([], Some (p, bs))
      | Some (f, n) \<Rightarrow>
          (case f of
             FBad \<Rightarrow> ([], None)
           | FClose \<Rightarrow> ([], None)
           | FText fin payload \<Rightarrow>
               if MAX_MESSAGE < length (p @ payload) then ([], None)
               else if fin
               then let r = said [] (drop n bs) in (from_utf8_lossy (string_of_bytes (p @ payload)) # fst r, snd r)
               else said (p @ payload) (drop n bs)
           | _ \<Rightarrow> said p (drop n bs)))"
  by pat_completeness auto
termination
  by (relation "measure (\<lambda>(p, bs). length bs)") (auto dest!: decode_used)

declare said.simps [simp del]

lemma said_append:
  "(case snd (said p a) of None \<Rightarrow> said p (a @ b) = said p a
    | Some (p1, l1) \<Rightarrow> said p (a @ b) = (fst (said p a) @ fst (said p1 (l1 @ b)), snd (said p1 (l1 @ b))))"
proof (induction p a rule: said.induct)
  case (1 p bs)
  show ?case
  proof (cases "decode bs")
    case None
    then show ?thesis by (simp add: said.simps [of p bs])
  next
    case (Some fn)
    obtain f n where fn: "fn = (f, n)" by (cases fn)
    note IH = 1 [OF Some fn [symmetric]]
    have n: "n \<le> length bs" using decode_used Some fn by blast
    obtain n' where n': "decode (bs @ b) = Some (f, n')" "f \<noteq> FBad \<longrightarrow> n' = n"
      using decode_append Some fn by blast
    show ?thesis
      using IH n n' Some fn
      by (cases f) (auto simp: said.simps [of p bs] said.simps [of p "bs @ b"] Let_def split: option.splits if_splits)
  qed
qed

lemma on_frame_fields [simp]:
  "cn_token (snd (on_frame E f st c)) = cn_token c" "cn_origin (snd (on_frame E f st c)) = cn_origin c"
  by (simp_all add: on_frame_def on_message_def fail_def Let_def split: frame.split phase.split message.split)

lemma feed_loop_fields [simp]:
  "cn_token (snd (feed_loop E st c)) = cn_token c" "cn_origin (snd (feed_loop E st c)) = cn_origin c"
proof -
  have "cn_token (snd (feed_loop E st c)) = cn_token c \<and> cn_origin (snd (feed_loop E st c)) = cn_origin c"
  proof (induction "length (cn_inbox c)" arbitrary: st c rule: less_induct)
    case less
    show ?case
      by (cases c rule: feed_loop_cases) (auto simp: feed_loop_None feed_loop_Some Let_def less)
  qed
  then show "cn_token (snd (feed_loop E st c)) = cn_token c" "cn_origin (snd (feed_loop E st c)) = cn_origin c"
    by simp_all
qed

lemma u8_xor_zero: "(x :: u8) XOR y = 0 \<longleftrightarrow> x = y"
proof
  assume "x XOR y = 0"
  then have "x XOR (x XOR y) = x XOR 0" by simp
  then show "x = y" by (simp add: xor.assoc [symmetric])
qed simp

lemma foldl_or_zero:
  "foldl (\<lambda>acc (x, y). acc OR (x XOR y)) (a :: u8) ps = 0 \<longleftrightarrow> a = 0 \<and> (\<forall>(x, y)\<in>set ps. x = y)"
proof (induction ps arbitrary: a)
  case (Cons p ps)
  obtain x y where p: "p = (x, y)" by (cases p)
  have "a OR (x XOR y) = 0 \<longleftrightarrow> a = 0 \<and> x = y"
    by (simp add: or_eq_0_iff u8_xor_zero)
  with Cons p show ?case by auto
qed simp

lemma as_bytes_inject: "as_bytes a = as_bytes b \<longleftrightarrow> a = b"
  by (metis string_of_as_bytes)

lemma same_iff: "same a b \<longleftrightarrow> a = b"
proof -
  have "same a b \<longleftrightarrow> as_bytes a = as_bytes b"
    unfolding list_eq_iff_zip_eq [of "as_bytes a"] by (simp add: same_def foldl_or_zero)
  then show ?thesis by (simp add: as_bytes_inject)
qed

text \<open>The page has said hello with the token.\<close>

definition heard :: "ws_env \<Rightarrow> string \<Rightarrow> string list \<Rightarrow> bool" where
  "heard E token texts \<longleftrightarrow> (\<exists>t\<in>set texts. parse_message E t = HelloMsg token)"

definition admitted_phase :: "phase \<Rightarrow> bool" where
  "admitted_phase p \<longleftrightarrow> p = Answer \<or> p = Idle"

text \<open>What one frame can change: it opens the conversation only as a hello with the token.\<close>

lemma on_message_admits:
  assumes "admitted_phase (cn_phase (snd (on_message E t st c))) \<or> st_outcome (fst (on_message E t st c)) \<noteq> None"
  shows "admitted_phase (cn_phase c) \<or> st_outcome st \<noteq> None \<or> parse_message E t = HelloMsg (cn_token c)"
  using assms
  by (auto simp: on_message_def fail_def put_out_def admitted_phase_def same_iff Let_def
      split: phase.splits message.splits if_splits)

lemma on_message_fields [simp]:
  "cn_inbox (snd (on_message E t st c)) = cn_inbox c" "cn_partial (snd (on_message E t st c)) = cn_partial c"
  "cn_token (snd (on_message E t st c)) = cn_token c"
  by (simp_all add: on_message_def fail_def Let_def split: phase.split message.split)

lemma fail_result [simp]:
  "cn_phase (snd (fail st c n)) = Done"
  "st_outcome (fst (fail st c n)) = None \<longleftrightarrow> cn_phase c \<noteq> Answer \<and> st_outcome st = None"
  by (simp_all add: fail_def put_out_def Let_def)

definition follows :: "ws_env \<Rightarrow> step \<Rightarrow> connection \<Rightarrow> step \<times> connection \<Rightarrow> bool" where
  "follows E st c r \<longleftrightarrow>
     (let s = said (cn_partial c) (cn_inbox c)
      in (cn_phase (snd r) \<noteq> Done \<longrightarrow> snd s = Some (cn_partial (snd r), cn_inbox (snd r)))
         \<and> (admitted_phase (cn_phase (snd r)) \<or> st_outcome (fst r) \<noteq> None
             \<longrightarrow> admitted_phase (cn_phase c) \<or> st_outcome st \<noteq> None \<or> heard E (cn_token c) (fst s)))"

lemma feed_loop_follows: "cn_phase c \<noteq> Handshake \<Longrightarrow> follows E st c (feed_loop E st c)"
proof (induction "length (cn_inbox c)" arbitrary: st c rule: less_induct)
  case less
  show ?case
  proof (cases c rule: feed_loop_cases)
    case Done
    then show ?thesis by (simp add: follows_def admitted_phase_def Let_def)
  next
    case Wait
    then show ?thesis by (simp add: follows_def feed_loop_None said.simps Let_def)
  next
    case (Frame f used)
    define c1 where "c1 = c\<lparr>cn_inbox := drop used (cn_inbox c)\<rparr>"
    define q where "q = on_frame E f st c1"
    have loop: "feed_loop E st c = feed_loop E (fst q) (snd q)"
      using Frame by (simp add: feed_loop_Some c1_def q_def Let_def)
    have "length (cn_inbox (snd q)) < length (cn_inbox c)" using Frame by (simp add: q_def c1_def)
    then have IH: "follows E (fst q) (snd q) (feed_loop E st c)"
      unfolding loop using less on_frame_not_Handshake by (simp add: q_def c1_def)
    have token: "cn_token (snd q) = cn_token c" by (simp add: q_def c1_def)
    have ended: "follows E st c (feed_loop E st c)"
      if "cn_phase (snd q) = Done" and "cn_phase c \<noteq> Answer \<and> st_outcome st = None \<longrightarrow> st_outcome (fst q) = None"
      using that unfolding loop by (auto simp: follows_def admitted_phase_def Let_def)
    show ?thesis
    proof (cases f)
      case FBad
      then show ?thesis by (intro ended) (simp_all add: q_def c1_def on_frame_def)
    next
      case FClose
      then show ?thesis by (intro ended) (simp_all add: q_def c1_def on_frame_def put_out_def Let_def)
    next
      case (FText fin payload)
      define joined where "joined = cn_partial c @ payload"
      show ?thesis
      proof (cases "MAX_MESSAGE < length joined")
        case True
        with FText show ?thesis
          by (intro ended) (simp_all add: q_def c1_def on_frame_def joined_def Let_def)
      next
        case False
        show ?thesis
        proof (cases fin)
          case True
          let ?t = "from_utf8_lossy (string_of_bytes joined)"
          have q: "q = on_message E ?t st (c1\<lparr>cn_partial := []\<rparr>)"
            using FText False True by (simp add: q_def c1_def on_frame_def joined_def Let_def)
          have s: "said (cn_partial c) (cn_inbox c) = (let r = said [] (drop used (cn_inbox c)) in (?t # fst r, snd r))"
            using Frame FText False True by (simp add: said.simps [of "cn_partial c"] joined_def)
          have "cn_partial (snd q) = []" "cn_inbox (snd q) = drop used (cn_inbox c)" by (simp_all add: q c1_def)
          with IH token s show ?thesis
            using on_message_admits [of E ?t st "c1\<lparr>cn_partial := []\<rparr>", folded q]
            by (auto simp: follows_def Let_def heard_def c1_def)
        next
          case False
          with FText \<open>\<not> MAX_MESSAGE < length joined\<close> have q: "q = (st, c1\<lparr>cn_partial := joined\<rparr>)"
            by (simp add: q_def c1_def on_frame_def joined_def Let_def)
          have "said (cn_partial c) (cn_inbox c) = said joined (drop used (cn_inbox c))"
            using Frame FText False \<open>\<not> MAX_MESSAGE < length joined\<close>
            by (simp add: said.simps [of "cn_partial c"] joined_def)
          with IH token show ?thesis by (simp add: follows_def q c1_def)
        qed
      qed
    qed (use IH Frame in \<open>simp_all add: follows_def q_def c1_def on_frame_def put_out_def said.simps [of "cn_partial c"] Let_def\<close>)
  qed
qed

lemma find_bytes_Some:
  assumes "find_bytes hs nd = Some e"
  shows "hs = take e hs @ nd @ drop (e + length nd) hs"
proof -
  note p = position_Some [OF assms [unfolded find_bytes_def]]
  then have e: "e < Suc (length hs) - length nd" by simp
  with p have "subslice e (e + length nd) hs = nd" by (simp del: upt_Suc)
  then have "take (length nd) (drop e hs) = nd" by (simp add: subslice_def)
  then show ?thesis by (metis append_take_drop_id drop_drop add.commute)
qed

lemma length_CRLF2 [simp]: "length CRLF2 = 4"
  by (simp add: CRLF2_def CRLF_def as_bytes_def)

section \<open>The connection as a machine\<close>

datatype shell_event = Fed bytes | Sent string json | Ended | Closed

definition shell_step :: "ws_env \<Rightarrow> connection \<Rightarrow> shell_event \<Rightarrow> step \<times> connection" where
  "shell_step E c e =
     (case e of
        Fed bs \<Rightarrow> feed E c bs
      | Sent request_id req \<Rightarrow> send E c request_id req
      | Ended \<Rightarrow> end_session E c
      | Closed \<Rightarrow> (empty_step\<lparr>st_outcome := map_option Inl (fst (closed c))\<rparr>, snd (closed c)))"

fun fed_bytes :: "shell_event \<Rightarrow> bytes" where
  "fed_bytes (Fed bs) = bs"
| "fed_bytes _ = []"

text \<open>The connection with every byte the socket gave it.\<close>

definition traced_step :: "ws_env \<Rightarrow> connection \<times> bytes \<Rightarrow> shell_event \<Rightarrow> step \<times> (connection \<times> bytes)" where
  "traced_step E s e =
     (let r = shell_step E (fst s) e in (fst r, (snd r, snd s @ fed_bytes e)))"

text \<open>The bytes open with an accepted upgrade of that origin, and a hello with that token follows.\<close>

definition greeted :: "ws_env \<Rightarrow> string \<Rightarrow> bytes \<Rightarrow> bytes \<Rightarrow> bool" where
  "greeted E origin h rest \<longleftrightarrow>
     (\<exists>head. h = head @ CRLF2 @ rest \<and> accept E (from_utf8_lossy (string_of_bytes head)) origin \<noteq> None)"

definition proved :: "ws_env \<Rightarrow> string \<Rightarrow> string \<Rightarrow> bytes \<Rightarrow> bool" where
  "proved E origin token h \<longleftrightarrow> (\<exists>rest. greeted E origin h rest \<and> heard E token (fst (said [] rest)))"

definition traced_inv :: "ws_env \<Rightarrow> string \<Rightarrow> string \<Rightarrow> connection \<times> bytes \<Rightarrow> bool" where
  "traced_inv E origin token s \<longleftrightarrow>
     cn_token (fst s) = token \<and> cn_origin (fst s) = origin
     \<and> (cn_phase (fst s) = Handshake \<longrightarrow> cn_inbox (fst s) = snd s \<and> cn_partial (fst s) = [])
     \<and> (cn_phase (fst s) \<noteq> Handshake \<and> cn_phase (fst s) \<noteq> Done \<longrightarrow>
          (\<exists>rest. greeted E origin (snd s) rest
             \<and> snd (said [] rest) = Some (cn_partial (fst s), cn_inbox (fst s))
             \<and> (admitted_phase (cn_phase (fst s)) \<longrightarrow> heard E token (fst (said [] rest)))))"

lemma heard_append [simp]: "heard E t (a @ b) \<longleftrightarrow> heard E t a \<or> heard E t b"
  by (auto simp: heard_def)

lemma greeted_append: "greeted E origin h rest \<Longrightarrow> greeted E origin (h @ bs) (rest @ bs)"
  by (auto simp: greeted_def)

text \<open>The invariant and the answer of one \<open>feed\<close>, before and after the handshake.\<close>

lemma traced_feed_open:
  assumes inv: "traced_inv E origin token (c, h)" and live: "cn_phase c \<noteq> Handshake" "cn_phase c \<noteq> Done"
  shows "traced_inv E origin token (snd (feed E c bs), h @ bs)"
    and "st_outcome (fst (feed E c bs)) \<noteq> None \<Longrightarrow> proved E origin token (h @ bs)"
proof -
  define c1 where "c1 = c\<lparr>cn_inbox := cn_inbox c @ bs\<rparr>"
  have feed: "feed E c bs = feed_loop E empty_step c1" using live by (simp add: feed_def c1_def)
  from inv live obtain rest where rest: "greeted E origin h rest"
      "snd (said [] rest) = Some (cn_partial c, cn_inbox c)"
      "admitted_phase (cn_phase c) \<longrightarrow> heard E token (fst (said [] rest))"
    and token: "cn_token c = token" "cn_origin c = origin"
    by (auto simp: traced_inv_def)
  have said: "said [] (rest @ bs) = (fst (said [] rest) @ fst (said (cn_partial c) (cn_inbox c @ bs)),
      snd (said (cn_partial c) (cn_inbox c @ bs)))"
    using said_append [of "[]" rest bs] rest(2) by simp
  have "follows E empty_step c1 (feed E c bs)"
    unfolding feed by (rule feed_loop_follows) (simp add: c1_def live)
  then have f: "cn_phase (snd (feed E c bs)) \<noteq> Done \<longrightarrow> snd (said [] (rest @ bs)) =
      Some (cn_partial (snd (feed E c bs)), cn_inbox (snd (feed E c bs)))"
    "admitted_phase (cn_phase (snd (feed E c bs))) \<or> st_outcome (fst (feed E c bs)) \<noteq> None
      \<longrightarrow> heard E token (fst (said [] (rest @ bs)))"
    using rest(3) token by (auto simp: follows_def c1_def said Let_def empty_step_def)
  have "cn_phase (snd (feed E c bs)) \<noteq> Handshake"
    unfolding feed by (rule feed_loop_not_Handshake) (simp add: c1_def live)
  then show "traced_inv E origin token (snd (feed E c bs), h @ bs)"
    using f greeted_append [OF rest(1)] token by (auto simp: traced_inv_def feed c1_def)
  show "proved E origin token (h @ bs)" if "st_outcome (fst (feed E c bs)) \<noteq> None"
    using f(2) that greeted_append [OF rest(1)] by (auto simp: proved_def)
qed

lemma traced_feed_head:
  assumes inv: "traced_inv E origin token (c, h)" and head: "cn_phase c = Handshake"
  shows "traced_inv E origin token (snd (feed E c bs), h @ bs)"
    and "st_outcome (fst (feed E c bs)) \<noteq> None \<Longrightarrow> proved E origin token (h @ bs)"
proof -
  have c: "cn_inbox c = h" "cn_partial c = []" "cn_token c = token" "cn_origin c = origin"
    using inv head by (simp_all add: traced_inv_def)
  have "traced_inv E origin token (snd (feed E c bs), h @ bs)
      \<and> (st_outcome (fst (feed E c bs)) \<noteq> None \<longrightarrow> proved E origin token (h @ bs))"
  proof (cases "find_bytes (h @ bs) CRLF2")
    case None
    then show ?thesis using c head
      by (auto simp: feed_def refuse_http_def put_out_def empty_step_def traced_inv_def Let_def)
  next
    case (Some e)
    let ?rest = "drop (e + 4) (h @ bs)"
    let ?head = "from_utf8_lossy (string_of_bytes (take e (h @ bs)))"
    show ?thesis
    proof (cases "accept E ?head origin")
      case None
      then show ?thesis using c head Some
        by (auto simp: feed_def refuse_http_def put_out_def empty_step_def traced_inv_def)
    next
      case (Some response)
      define c2 where "c2 = c\<lparr>cn_inbox := ?rest, cn_phase := Hello\<rparr>"
      have feed: "feed E c bs = feed_loop E (put_out empty_step (as_bytes response)) c2"
        using c head \<open>find_bytes (h @ bs) CRLF2 = Some e\<close> Some by (simp add: feed_def c2_def)
      have greeted: "greeted E origin (h @ bs) ?rest"
        unfolding greeted_def
        by (rule exI [of _ "take e (h @ bs)"], rule conjI,
            rule find_bytes_Some [OF \<open>find_bytes (h @ bs) CRLF2 = Some e\<close>, unfolded length_CRLF2]) (simp only: Some, simp)
      have "follows E (put_out empty_step (as_bytes response)) c2 (feed E c bs)"
        unfolding feed by (rule feed_loop_follows) (simp add: c2_def)
      moreover have "cn_phase (snd (feed E c bs)) \<noteq> Handshake"
        unfolding feed by (rule feed_loop_not_Handshake) (simp add: c2_def)
      ultimately show ?thesis
        using greeted c by (auto simp: follows_def traced_inv_def proved_def feed c2_def put_out_def empty_step_def
            admitted_phase_def Let_def)
    qed
  qed
  then show "traced_inv E origin token (snd (feed E c bs), h @ bs)"
    and "st_outcome (fst (feed E c bs)) \<noteq> None \<Longrightarrow> proved E origin token (h @ bs)" by auto
qed

lemma traced_keep:
  assumes "traced_inv E origin token (c, h)"
  shows "traced_inv E origin token (snd (traced_step E (c, h) e))"
    and "st_outcome (fst (traced_step E (c, h) e)) \<noteq> None \<Longrightarrow> proved E origin token (h @ fed_bytes e)"
proof -
  have fed: "traced_inv E origin token (snd (feed E c bs), h @ bs)
      \<and> (st_outcome (fst (feed E c bs)) \<noteq> None \<longrightarrow> proved E origin token (h @ bs))" for bs
  proof -
    consider "cn_phase c = Done" | "cn_phase c = Handshake" | "cn_phase c \<noteq> Handshake" "cn_phase c \<noteq> Done" by blast
    then show ?thesis
    proof cases
      case 1
      with assms show ?thesis by (simp add: traced_inv_def feed_def empty_step_def)
    qed (use traced_feed_head [OF assms] traced_feed_open [OF assms] in blast)+
  qed
  have "traced_inv E origin token (snd (traced_step E (c, h) e))
      \<and> (st_outcome (fst (traced_step E (c, h) e)) \<noteq> None \<longrightarrow> proved E origin token (h @ fed_bytes e))"
  proof (cases e)
    case (Fed bs)
    with fed [of bs] show ?thesis by (simp add: traced_step_def shell_step_def Let_def)
  qed (use assms in \<open>auto simp: traced_step_def shell_step_def send_def end_session_def closed_def put_out_def
      empty_step_def traced_inv_def admitted_phase_def proved_def Let_def\<close>)
  then show "traced_inv E origin token (snd (traced_step E (c, h) e))"
    and "st_outcome (fst (traced_step E (c, h) e)) \<noteq> None \<Longrightarrow> proved E origin token (h @ fed_bytes e)" by auto
qed

interpretation signer: safe_machine "traced_step E" "(new_connection E url token i req, [])"
  "traced_inv E (origin_of url) token" "\<lambda>s e st. st_outcome st \<noteq> None \<longrightarrow> proved E (origin_of url) token (snd s @ fed_bytes e)"
  for E url token i req
proof
  show "traced_inv E (origin_of url) token (new_connection E url token i req, [])"
    by (simp add: traced_inv_def new_connection_def)
qed (use traced_keep in \<open>auto simp del: not_None_eq\<close>)

section \<open>Bounded buffers\<close>

definition bounded :: "connection \<Rightarrow> bool" where
  "bounded c \<longleftrightarrow>
     (cn_phase c = Handshake \<longrightarrow> length (cn_inbox c) \<le> MAX_HEAD)
     \<and> (cn_phase c \<noteq> Handshake \<and> cn_phase c \<noteq> Done \<longrightarrow> decode (cn_inbox c) = None)
     \<and> (cn_phase c \<noteq> Done \<longrightarrow> length (cn_partial c) \<le> MAX_MESSAGE)"

lemma on_frame_partial:
  "length (cn_partial c) \<le> MAX_MESSAGE \<Longrightarrow> cn_phase (snd (on_frame E f st c)) = Done \<or>
   length (cn_partial (snd (on_frame E f st c))) \<le> MAX_MESSAGE"
  by (cases f) (auto simp: on_frame_def Let_def fail_def)

lemma feed_loop_bounded:
  "cn_phase c \<noteq> Handshake \<Longrightarrow> length (cn_partial c) \<le> MAX_MESSAGE \<or> cn_phase c = Done \<Longrightarrow> bounded (snd (feed_loop E st c))"
proof (induction "length (cn_inbox c)" arbitrary: st c rule: less_induct)
  case less
  show ?case
  proof (cases c rule: feed_loop_cases)
    case (Frame f used)
    define q where "q = on_frame E f st (c\<lparr>cn_inbox := drop used (cn_inbox c)\<rparr>)"
    have "length (cn_inbox (snd q)) < length (cn_inbox c)" using Frame by (simp add: q_def)
    moreover have "cn_phase (snd q) \<noteq> Handshake" using less.prems by (simp add: q_def on_frame_not_Handshake)
    moreover have "length (cn_partial (snd q)) \<le> MAX_MESSAGE \<or> cn_phase (snd q) = Done"
      using on_frame_partial [of "c\<lparr>cn_inbox := drop used (cn_inbox c)\<rparr>" E f st] less.prems Frame by (auto simp: q_def)
    moreover have "feed_loop E st c = feed_loop E (fst q) (snd q)"
      using Frame by (simp add: feed_loop_Some q_def Let_def)
    ultimately show ?thesis using less.hyps by simp
  qed (use less.prems in \<open>auto simp: bounded_def feed_loop_None\<close>)
qed

lemma bounded_feed: "bounded c \<Longrightarrow> bounded (snd (feed E c bs))"
  by (auto simp: feed_def refuse_http_def Let_def bounded_def [of c] split: option.split intro!: feed_loop_bounded)
    (auto simp: bounded_def)

interpretation buffers: event_machine "shell_step E" "new_connection E url token i req" bounded for E url token i req
proof
  fix c e
  assume "bounded c"
  then show "bounded (snd (shell_step E c e))"
    by (cases e) (auto simp: shell_step_def bounded_feed send_def end_session_def closed_def Let_def, auto simp: bounded_def)
qed (simp add: bounded_def new_connection_def)

section \<open>Frames, however the bytes are cut\<close>

text \<open>The specification: the frames one at a time, with no bytes.\<close>

fun run_frames :: "ws_env \<Rightarrow> step \<Rightarrow> connection \<Rightarrow> frame list \<Rightarrow> step \<times> connection" where
  "run_frames E st c [] = (st, c)"
| "run_frames E st c (f # fs) =
     (if cn_phase c = Done then (st, c)
      else let r = on_frame E f st c in run_frames E (fst r) (snd r) fs)"

fun feed_all :: "ws_env \<Rightarrow> connection \<Rightarrow> bytes list \<Rightarrow> step \<times> connection" where
  "feed_all E c [] = (empty_step, c)"
| "feed_all E c (b # bs) =
     (let r = feed E c b; r2 = feed_all E (snd r) bs in (then_step (fst r) (fst r2), snd r2))"

text \<open>Connections that differ at most in the bytes a closed one no longer reads.\<close>

definition like :: "connection \<Rightarrow> connection \<Rightarrow> bool" where
  "like c d \<longleftrightarrow> c\<lparr>cn_inbox := []\<rparr> = d\<lparr>cn_inbox := []\<rparr> \<and> (cn_phase c \<noteq> Done \<longrightarrow> cn_inbox c = cn_inbox d)"

lemma like_refl [simp]: "like c c"
  by (simp add: like_def)

lemma like_Done: "cn_phase c = Done \<Longrightarrow> like c (c\<lparr>cn_inbox := i\<rparr>)"
  by (simp add: like_def)

lemma like_trans: "like a b \<Longrightarrow> like b c \<Longrightarrow> like a c"
  unfolding like_def by (cases a, cases b, cases c) auto

lemma decode_Nil [simp]: "decode [] = None"
  by (simp add: decode_def)

lemma feed_loop_frames:
  assumes "list_all (sendable key) fs" and "cn_inbox c = concat (map (browser_frame key) fs)"
  shows "fst (feed_loop E st c) = fst (run_frames E st (c\<lparr>cn_inbox := []\<rparr>) fs)
    \<and> like (snd (feed_loop E st c)) (snd (run_frames E st (c\<lparr>cn_inbox := []\<rparr>) fs))"
  using assms
proof (induction fs arbitrary: st c)
  case Nil
  then show ?case by (simp add: feed_loop_None like_def)
next
  case (Cons f fs)
  show ?case
  proof (cases "cn_phase c = Done")
    case True
    then show ?thesis by (simp add: like_Done)
  next
    case False
    let ?rest = "concat (map (browser_frame key) fs)"
    have d: "decode (cn_inbox c) = Some (f, length (browser_frame key f))"
      using frames.dec_front [of key f ?rest] Cons.prems by simp
    define q where "q = on_frame E f st (c\<lparr>cn_inbox := ?rest\<rparr>)"
    have loop: "feed_loop E st c = feed_loop E (fst q) (snd q)"
      using False d Cons.prems by (simp add: feed_loop_Some q_def Let_def)
    have q: "on_frame E f st (c\<lparr>cn_inbox := []\<rparr>) = (fst q, snd q\<lparr>cn_inbox := []\<rparr>)"
      by (simp add: q_def on_frame_carry [of E f st _ c])
    have "cn_inbox (snd q) = ?rest" by (simp add: q_def)
    with Cons.IH [of "snd q" "fst q"] Cons.prems False show ?thesis
      by (simp add: loop q Let_def)
  qed
qed

lemma feed_not_Handshake: "cn_phase c \<noteq> Handshake \<Longrightarrow> cn_phase (snd (feed E c b)) \<noteq> Handshake"
  by (simp add: feed_def feed_loop_not_Handshake)

lemma feed_like:
  assumes "like c d" and "cn_phase c \<noteq> Handshake"
  shows "fst (feed E c b) = fst (feed E d b) \<and> like (snd (feed E c b)) (snd (feed E d b))"
proof (cases "cn_phase c = Done")
  case True
  then have "cn_phase d = Done" using assms by (auto simp: like_def) (metis connection.select_convs(5) connection.surjective connection.update_convs(6))
  with True assms show ?thesis by (simp add: feed_def)
next
  case False
  then have "c = d" using assms unfolding like_def by (cases c, cases d) auto
  then show ?thesis by simp
qed

lemma feed_all_concat:
  "cn_phase c \<noteq> Handshake \<Longrightarrow> bs \<noteq> [] \<Longrightarrow>
   fst (feed_all E c bs) = fst (feed E c (concat bs)) \<and> like (snd (feed_all E c bs)) (snd (feed E c (concat bs)))"
proof (induction bs arbitrary: c)
  case (Cons b bs)
  show ?case
  proof (cases "bs = []")
    case False
    let ?r = "feed E c b"
    have IH: "fst (feed_all E (snd ?r) bs) = fst (feed E (snd ?r) (concat bs))"
        "like (snd (feed_all E (snd ?r) bs)) (snd (feed E (snd ?r) (concat bs)))"
      using Cons.IH [of "snd ?r"] Cons.prems(1) False feed_not_Handshake by auto
    obtain i where i: "fst (feed E c (b @ concat bs)) = then_step (fst ?r) (fst (feed E (snd ?r) (concat bs)))"
        "snd (feed E c (b @ concat bs)) = snd (feed E (snd ?r) (concat bs))\<lparr>cn_inbox := i\<rparr>"
        "cn_phase (snd (feed E (snd ?r) (concat bs))) \<noteq> Done \<longrightarrow> i = cn_inbox (snd (feed E (snd ?r) (concat bs)))"
      using feed_append [OF Cons.prems(1), of E b "concat bs"] by (auto simp: Let_def)
    have "like (snd (feed E (snd ?r) (concat bs))) (snd (feed E c (b @ concat bs)))"
      unfolding i(2) using i(3) by (auto simp: like_def)
    with IH i(1) show ?thesis by (simp add: Let_def) (blast intro: like_trans)
  qed (simp add: Let_def)
qed simp

text \<open>However the socket cuts the bytes of the frames, the connection does what the frames say.\<close>

lemma feed_all_frames:
  assumes "cn_phase c \<noteq> Handshake" and "cn_inbox c = []" and "list_all (sendable key) fs"
    and "concat bs = concat (map (browser_frame key) fs)"
  shows "fst (feed_all E c bs) = fst (run_frames E empty_step c fs)
    \<and> like (snd (feed_all E c bs)) (snd (run_frames E empty_step c fs))"
proof (cases "bs = []")
  case True
  have "browser_frame key f \<noteq> []" for f by (simp add: browser_frame_def client_frame_def Let_def)
  with True assms(4) have "fs = []" by (cases fs) auto
  with True show ?thesis by simp
next
  case False
  have "fst (feed E c (concat bs)) = fst (run_frames E empty_step c fs)
      \<and> like (snd (feed E c (concat bs))) (snd (run_frames E empty_step c fs))"
  proof (cases "cn_phase c = Done")
    case True
    then show ?thesis by (cases fs) (simp_all add: feed_def)
  next
    case False
    have "c\<lparr>cn_inbox := []\<rparr> = c" using assms(2) by simp
    with False assms feed_loop_frames [of key fs "c\<lparr>cn_inbox := concat bs\<rparr>" E empty_step] show ?thesis
      by (simp add: feed_def)
  qed
  with feed_all_concat [OF assms(1) False, of E] show ?thesis using like_trans by metis
qed

section \<open>A whole conversation\<close>

lemma position_append: "position p xs = Some i \<Longrightarrow> position p (xs @ ys) = Some i"
  by (induction xs arbitrary: i) auto

lemma position_cong: "\<forall>x\<in>set xs. p x = q x \<Longrightarrow> position p xs = position q xs"
  by (induction xs) auto

lemma find_bytes_extend:
  assumes "find_bytes (a @ nd) nd = Some (length a)"
  shows "find_bytes (a @ nd @ x) nd = Some (length a)"
proof -
  let ?p = "\<lambda>hs i. subslice i (i + length nd) hs = nd"
  have p: "position (?p (a @ nd)) [0..<Suc (length a)] = Some (length a)"
    using assms by (simp add: find_bytes_def del: upt_Suc)
  have "\<forall>i\<in>set [0..<Suc (length a)]. ?p (a @ nd) i = ?p (a @ nd @ x) i"
    by (auto simp: subslice_def simp flip: append_assoc)
  from position_cong [OF this] p
  have "position (?p (a @ nd @ x)) [0..<Suc (length a)] = Some (length a)" by simp
  moreover have "[0..<Suc (length (a @ nd @ x)) - length nd] = [0..<Suc (length a)] @ [Suc (length a)..<Suc (length a) + length x]"
    using upt_add_eq_append [of 0 "Suc (length a)" "length x"] by simp
  ultimately show ?thesis by (simp only: find_bytes_def position_append)
qed

text \<open>A text message in one frame.\<close>

definition text_frame :: "bytes \<Rightarrow> string \<Rightarrow> bytes" where
  "text_frame key t = browser_frame key (FText True (as_bytes t))"

definition plain_text :: "string \<Rightarrow> bool" where
  "plain_text t \<longleftrightarrow> valid_utf8 t \<and> length t \<le> MAX_MESSAGE"

lemma sendable_text: "plain_text t \<Longrightarrow> length key = 4 \<Longrightarrow> sendable key (FText True (as_bytes t))"
  by (simp add: sendable_def plain_text_def payload_of_def)

lemma feed_loop_one:
  assumes "cn_phase c \<noteq> Done" and "sendable key f" and "cn_inbox c = browser_frame key f"
  shows "feed_loop E st c = on_frame E f st (c\<lparr>cn_inbox := []\<rparr>)"
proof -
  define r where "r = on_frame E f st (c\<lparr>cn_inbox := []\<rparr>)"
  have "feed_loop E st c = feed_loop E (fst r) (snd r)"
    using assms frames.dec_whole [OF assms(2)] by (simp add: feed_loop_Some r_def Let_def)
  moreover have "cn_inbox (snd r) = []" by (simp add: r_def)
  ultimately show ?thesis by (simp add: feed_loop_None r_def)
qed

lemma feed_one:
  assumes "cn_phase c \<noteq> Done" and "cn_phase c \<noteq> Handshake" and "sendable key f" and "cn_inbox c = []"
  shows "feed E c (browser_frame key f) = on_frame E f empty_step c"
proof -
  have "c\<lparr>cn_inbox := []\<rparr> = c" using assms(4) by simp
  with assms feed_loop_one [of "c\<lparr>cn_inbox := browser_frame key f\<rparr>" key f E empty_step] show ?thesis
    by (simp add: feed_def)
qed

lemma feed_text:
  assumes "cn_phase c \<noteq> Done" and "cn_phase c \<noteq> Handshake" and "plain_text t" and "length key = 4"
    and "cn_inbox c = []" and "cn_partial c = []"
  shows "feed E c (text_frame key t) = on_message E t empty_step c"
proof -
  have same: "c\<lparr>cn_partial := []\<rparr> = c" using assms(6) by simp
  show ?thesis
    using assms(3,6) feed_one [OF assms(1,2) sendable_text [OF assms(3,4)] assms(5), of E]
    by (simp add: text_frame_def on_frame_def plain_text_def from_utf8_lossy_valid same Let_def)
qed

definition in_phase :: "ws_env \<Rightarrow> string \<Rightarrow> string \<Rightarrow> string \<Rightarrow> json \<Rightarrow> string \<Rightarrow> phase \<Rightarrow> connection" where
  "in_phase E url token i req j p =
     (new_connection E url token i req)\<lparr>cn_id := j, cn_phase := p, cn_inbox := [], cn_partial := []\<rparr>"

lemma in_phase_fields [simp]:
  "cn_phase (in_phase E url token i req j p) = p" "cn_inbox (in_phase E url token i req j p) = []"
  "cn_partial (in_phase E url token i req j p) = []" "cn_token (in_phase E url token i req j p) = token"
  "cn_id (in_phase E url token i req j p) = j" "cn_intent (in_phase E url token i req j p) = intent_message E i req"
  "in_phase E url token i req j p\<lparr>cn_phase := p'\<rparr> = in_phase E url token i req j p'"
  "in_phase E url token i req j p\<lparr>cn_id := j', cn_phase := p'\<rparr> = in_phase E url token i req j' p'"
  by (simp_all add: in_phase_def new_connection_def)

lemma feed_upgrade:
  assumes "find_bytes (head @ CRLF2) CRLF2 = Some (length head)"
    and "accept E (from_utf8_lossy (string_of_bytes head)) (origin_of url) = Some response"
    and "plain_text hello" and "length key = 4" and "parse_message E hello = HelloMsg token"
  shows "feed E (new_connection E url token i req) (head @ CRLF2 @ text_frame key hello)
    = (\<lparr>st_write = as_bytes response @ encode 0x1 (as_bytes (intent_message E i req)), st_close = False,
        st_outcome = None\<rparr>, in_phase E url token i req i Answer)"
proof -
  let ?c = "new_connection E url token i req"
  let ?st = "put_out empty_step (as_bytes response)"
  have c: "cn_phase ?c = Handshake" "cn_origin ?c = origin_of url" "cn_inbox ?c = []" by (simp_all add: new_connection_def)
  let ?c2 = "?c\<lparr>cn_inbox := text_frame key hello, cn_phase := Hello\<rparr>"
  have "feed E ?c (head @ CRLF2 @ text_frame key hello) = feed_loop E ?st ?c2"
    using c find_bytes_extend [OF assms(1), of "text_frame key hello"] assms(2) by (simp add: feed_def)
  also have "\<dots> = on_frame E (FText True (as_bytes hello)) ?st (?c2\<lparr>cn_inbox := []\<rparr>)"
    by (rule feed_loop_one [OF _ sendable_text [OF assms(3,4)]]) (simp_all add: text_frame_def)
  also have "\<dots> = on_message E hello ?st (in_phase E url token i req i Hello)"
    using assms(3) by (simp add: on_frame_def plain_text_def from_utf8_lossy_valid new_connection_def in_phase_def Let_def)
  finally show ?thesis
    using assms(5) by (simp add: on_message_def same_iff put_out_def empty_step_def)
qed

section \<open>A wallet and a page\<close>

text \<open>A token, two answers and the JSON behind three one-letter texts; the hash and base64 are trivial.\<close>

definition toy_ws :: ws_env where
  "toy_ws =
     \<lparr>ws_json_from_str = \<lambda>s.
        if s = ''h'' then Some (Object [(''t'', String ''hello''), (''token'', String ''T'')])
        else if s = ''r'' then Some (Object [(''t'', String ''result''), (''id'', String ''1''), (''result'', Object [])])
        else if s = ''e'' then Some (Object [(''t'', String ''error''), (''id'', String ''2''), (''code'', String [])])
        else None,
      ws_json_to_string = \<lambda>_. ''{}'', ws_sha1 = \<lambda>bs. bs, ws_standard_encode = \<lambda>_. ''A''\<rparr>"

definition toy_head :: string where
  "toy_head = ''GET '' @ CRLF @ ''upgrade:websocket'' @ CRLF @ ''sec-websocket-key:k'' @ CRLF @ ''origin:a://b''"

lemma split_str_next: "split_once s CRLF = Some (a, b) \<Longrightarrow> split_str CRLF s = a # split_str CRLF b"
  by (simp add: split_str.simps [of CRLF s]) (simp add: CRLF_def)

lemma split_str_last: "split_once s CRLF = None \<Longrightarrow> split_str CRLF s = [s]"
  by (simp add: split_str.simps [of CRLF s])

lemma toy_lines: "split_str CRLF toy_head = [''GET '', ''upgrade:websocket'', ''sec-websocket-key:k'', ''origin:a://b'']"
proof -
  have "split_once toy_head CRLF = Some (''GET '', ''upgrade:websocket'' @ CRLF @ ''sec-websocket-key:k'' @ CRLF @ ''origin:a://b'')"
    by (simp add: toy_head_def CRLF_def starts_with_def)
  moreover have "split_once (''upgrade:websocket'' @ CRLF @ ''sec-websocket-key:k'' @ CRLF @ ''origin:a://b'') CRLF
      = Some (''upgrade:websocket'', ''sec-websocket-key:k'' @ CRLF @ ''origin:a://b'')"
    by (simp add: CRLF_def starts_with_def)
  moreover have "split_once (''sec-websocket-key:k'' @ CRLF @ ''origin:a://b'') CRLF
      = Some (''sec-websocket-key:k'', ''origin:a://b'')"
    by (simp add: CRLF_def starts_with_def)
  moreover have "split_once ''origin:a://b'' CRLF = None" by (simp add: CRLF_def starts_with_def)
  ultimately show ?thesis by (simp add: split_str_next split_str_last del: split_once.simps)
qed

lemma toy_trims:
  "trim ''upgrade'' = ''upgrade''" "trim ''websocket'' = ''websocket''" "trim ''sec-websocket-key'' = ''sec-websocket-key''"
  "trim ''k'' = ''k''" "trim ''origin'' = ''origin''" "trim ''a://b'' = ''a://b''"
  by (rule trim_id, simp add: printable_def)+

lemma toy_lower:
  "to_ascii_lowercase ''upgrade'' = ''upgrade''" "to_ascii_lowercase ''sec-websocket-key'' = ''sec-websocket-key''"
  "to_ascii_lowercase ''origin'' = ''origin''" "to_ascii_lowercase ''a://b'' = ''a://b''"
  "to_ascii_lowercase ''a'' = ''a''" "to_ascii_lowercase ''b'' = ''b''"
  by (simp_all add: to_ascii_lowercase_def to_ascii_lowercase_char_def)

lemma toy_origin: "origin_of ''a://b'' = ''a://b''"
proof -
  have "split_once ''a://b'' ''://'' = Some (''a'', ''b'')" by (simp add: starts_with_def)
  then show ?thesis
    by (simp add: origin_of_def toy_trims toy_lower upto_any_def rsplit_last_def rsplit_once_def starts_with_def Let_def
        del: split_once.simps)
      (simp add: split_once_char toy_lower)
qed

lemma toy_headers:
  "read_headers [''upgrade:websocket'', ''sec-websocket-key:k'', ''origin:a://b'']
   = \<lparr>hd_key = Some ''k'', hd_upgrade = True, hd_from = Some ''a://b''\<rparr>"
proof -
  have "split_once ''upgrade:websocket'' '':'' = Some (''upgrade'', ''websocket'')"
      "split_once ''sec-websocket-key:k'' '':'' = Some (''sec-websocket-key'', ''k'')"
      "split_once ''origin:a://b'' '':'' = Some (''origin'', ''a://b'')"
    by (simp_all add: starts_with_def)
  then show ?thesis by (simp add: read_headers_def read_header_def toy_trims toy_lower Let_def del: split_once.simps)
qed

lemma toy_accept: "\<exists>r. accept toy_ws (from_utf8_lossy (string_of_bytes (as_bytes toy_head))) (origin_of ''a://b'') = Some r"
proof -
  have "is_ascii toy_head" by (simp add: is_ascii_def toy_head_def CRLF_def)
  moreover have "starts_with ''GET '' ''GET ''" by (simp add: starts_with_def)
  ultimately show ?thesis
    by (simp add: from_utf8_lossy_ascii accept_def toy_lines toy_headers toy_origin Let_def)
qed

lemma toy_find: "find_bytes (as_bytes toy_head @ CRLF2) CRLF2 = Some (length (as_bytes toy_head))"
  by code_simp

lemma toy_messages:
  "parse_message toy_ws ''h'' = HelloMsg ''T''" "parse_message toy_ws ''r'' = ResultMsg ''1'' (Object [])"
  "parse_message toy_ws ''e'' = ErrorMsg ''2'' Declined"
  by (simp_all add: parse_message_def toy_ws_def text_of_def refusal_def Let_def)

lemma toy_texts: "plain_text ''h''" "plain_text ''r''" "plain_text ''e''"
  by (simp_all add: plain_text_def MAX_MESSAGE_def valid_utf8_Cons)

section \<open>Properties\<close>


lemma toy_upgrade:
  "\<exists>r. feed toy_ws (new_connection toy_ws ''a://b'' ''T'' ''1'' req) (as_bytes toy_head @ CRLF2 @ text_frame [1, 2, 3, 4] ''h'')
    = (r, in_phase toy_ws ''a://b'' ''T'' ''1'' req ''1'' Answer)"
proof -
  obtain r where r: "accept toy_ws (from_utf8_lossy (string_of_bytes (as_bytes toy_head))) (origin_of ''a://b'') = Some r"
    using toy_accept by blast
  show ?thesis
    using feed_upgrade [OF toy_find r toy_texts(1) _ toy_messages(1), of "[1, 2, 3, 4]" "''1''" req] by auto
qed






text \<open>
  The conversation of the file's header. An upgrade from the signer page and its hello get the 101
  and the request; the answer is the outcome and leaves the session open; the next request is sent, its
  refusal is the outcome of its own id only, closing the page then is declining, and ending says bye and
  closes.
\<close>

theorem conversation:
  assumes "find_bytes (head @ CRLF2) CRLF2 = Some (length head)"
    and "accept E (from_utf8_lossy (string_of_bytes head)) (origin_of url) = Some response"
    and "length key = 4" and "plain_text hello" and "plain_text answer" and "plain_text refused"
    and "parse_message E hello = HelloMsg token" and "parse_message E answer = ResultMsg i result"
    and "parse_message E refused = ErrorMsg j e"
  shows "\<exists>c1 c2 c3.
      feed E (new_connection E url token i req) (head @ CRLF2 @ text_frame key hello)
        = (\<lparr>st_write = as_bytes response @ encode 0x1 (as_bytes (intent_message E i req)), st_close = False,
            st_outcome = None\<rparr>, c1)
      \<and> feed E c1 (text_frame key answer) = (\<lparr>st_write = [], st_close = False, st_outcome = Some (Inr result)\<rparr>, c2)
      \<and> send E c2 j' req' = (\<lparr>st_write = encode 0x1 (as_bytes (intent_message E j' req')), st_close = False,
            st_outcome = None\<rparr>, c3)
      \<and> st_outcome (fst (feed E c3 (text_frame key refused))) = (if j = j' then Some (Inl e) else None)
      \<and> fst (feed E c3 (browser_frame key FClose))
          = \<lparr>st_write = close_frame 1000, st_close = True, st_outcome = Some (Inl Declined)\<rparr>
      \<and> fst (closed c3) = Some Declined \<and> fst (closed c2) = None
      \<and> send E c1 j' req' = (empty_step, c1) \<and> st_close (fst (end_session E c2))"
proof (intro exI conjI)
  let ?c = "\<lambda>k p. in_phase E url token i req k p"
  show "feed E (new_connection E url token i req) (head @ CRLF2 @ text_frame key hello)
      = (\<lparr>st_write = as_bytes response @ encode 0x1 (as_bytes (intent_message E i req)), st_close = False,
          st_outcome = None\<rparr>, ?c i Answer)"
    by (rule feed_upgrade [OF assms(1,2,4,3,7)])
  show "feed E (?c i Answer) (text_frame key answer)
      = (\<lparr>st_write = [], st_close = False, st_outcome = Some (Inr result)\<rparr>, ?c i Idle)"
    using assms(8) by (simp add: feed_text assms(3,5) on_message_def empty_step_def)
  show "send E (?c i Idle) j' req' = (\<lparr>st_write = encode 0x1 (as_bytes (intent_message E j' req')), st_close = False,
      st_outcome = None\<rparr>, ?c j' Answer)"
    by (simp add: send_def put_out_def empty_step_def)
  show "st_outcome (fst (feed E (?c j' Answer) (text_frame key refused))) = (if j = j' then Some (Inl e) else None)"
    using assms(9) by (simp add: feed_text assms(3,6) on_message_def empty_step_def)
  have "sendable key FClose" by (simp add: sendable_def payload_of_def assms(3))
  then show "fst (feed E (?c j' Answer) (browser_frame key FClose))
      = \<lparr>st_write = close_frame 1000, st_close = True, st_outcome = Some (Inl Declined)\<rparr>"
    by (simp add: feed_one on_frame_def put_out_def empty_step_def)
qed (simp_all add: closed_def send_def end_session_def put_out_def Let_def)

theorem conversation_witness:
  "\<exists>c1 c2 c3.
      feed toy_ws (new_connection toy_ws ''a://b'' ''T'' ''1'' Null) (as_bytes toy_head @ CRLF2 @ text_frame [1, 2, 3, 4] ''h'')
        = (c1 :: step \<times> connection)
      \<and> st_outcome (fst (feed toy_ws (snd c1) (text_frame [1, 2, 3, 4] ''r''))) = Some (Inr (Object []))
      \<and> send toy_ws c2 ''2'' Null = c3 \<and> st_outcome (fst (feed toy_ws (snd c3) (text_frame [1, 2, 3, 4] ''e''))) = Some (Inl Declined)"
proof -
  obtain r where r: "accept toy_ws (from_utf8_lossy (string_of_bytes (as_bytes toy_head))) (origin_of ''a://b'') = Some r"
    using toy_accept by blast
  have "length [1, 2, 3, 4 :: u8] = 4" by simp
  from conversation [OF toy_find r this toy_texts toy_messages, of Null "''2''" Null] show ?thesis
    by (metis fst_conv snd_conv step.select_convs(3))
qed

end
