(* ===== verification/SigningVenue.thy ===== *)
theory SigningVenue
  imports PageIntegrity WsServer
begin

text \<open>
  \<open>signing_venue.rs\<close>, the account record of \<open>app/mod.rs\<close> and the transports of \<open>passkey.rs\<close> and
  \<open>wallet_keys.rs\<close>: where an account reviews and signs, which venues its keys can be used on, and the
  reader that gives a stored record (of this build or an older one) its domain, its venue and its
  sign-in key. A record is modelled as its JSON fields after \<open>serde\<close> has typed them; Unicode
  lower-casing is a parameter.
\<close>

section \<open>Venues\<close>

definition APP_DOMAIN :: string where
  "APP_DOMAIN = ''getvela.app''"

datatype signing_venue = InVela | VenuePage string

definition official_venue :: signing_venue where
  "official_venue = VenuePage DEFAULT_SIGNER_URL"

definition venue_page :: "string \<Rightarrow> signing_venue option" where
  "venue_page url = (case signer_url url of Inr u \<Rightarrow> Some (VenuePage u) | Inl _ \<Rightarrow> None)"

fun venue_page_url :: "signing_venue \<Rightarrow> string option" where
  "venue_page_url InVela = None"
| "venue_page_url (VenuePage url) = Some url"

definition domain_of_page :: "string \<Rightarrow> string" where
  "domain_of_page url = unwrap_or (registry_rp_id (Some url)) []"

fun venue_domain :: "signing_venue \<Rightarrow> string" where
  "venue_domain InVela = APP_DOMAIN"
| "venue_domain (VenuePage url) = domain_of_page url"

definition normal_page :: "string \<Rightarrow> string" where
  "normal_page url = (case signer_url url of Inr u \<Rightarrow> u | Inl _ \<Rightarrow> url)"

definition same_page :: "string \<Rightarrow> string \<Rightarrow> bool" where
  "same_page a b \<longleftrightarrow> normal_page a = normal_page b"

fun same_venue :: "signing_venue \<Rightarrow> signing_venue \<Rightarrow> bool" where
  "same_venue InVela InVela = True"
| "same_venue (VenuePage a) (VenuePage b) = same_page a b"
| "same_venue _ _ = False"

definition is_app_domain :: "string \<Rightarrow> bool" where
  "is_app_domain domain \<longleftrightarrow> eq_ignore_ascii_case (trim domain) APP_DOMAIN"

definition locked_to_page :: "string \<Rightarrow> bool" where
  "locked_to_page domain \<longleftrightarrow> \<not> is_app_domain domain"

section \<open>Reachability (R1)\<close>

datatype venue_block = AppCannotReach string | PageOnOtherDomain string string | NotOnWeb

fun block_key :: "venue_block \<Rightarrow> string" where
  "block_key (AppCannotReach _) = ''settings.venue.blockedApp''"
| "block_key (PageOnOtherDomain _ _) = ''settings.venue.blockedPage''"
| "block_key NotOnWeb = ''settings.venue.blockedWeb''"

fun block_vars :: "venue_block \<Rightarrow> (string \<times> string) list" where
  "block_vars (AppCannotReach domain) = [(''domain'', domain)]"
| "block_vars (PageOnOtherDomain page_domain domain) = [(''pageDomain'', page_domain), (''domain'', domain)]"
| "block_vars NotOnWeb = []"

definition reachability :: "string \<Rightarrow> signing_venue \<Rightarrow> venue_block + unit" where
  "reachability domain0 venue =
     (let domain = to_ascii_lowercase (trim domain0)
      in case venue of
           InVela \<Rightarrow> if is_app_domain domain then Inr () else Inl (AppCannotReach domain)
         | VenuePage url \<Rightarrow>
             (let page_domain = (case signer_url url of Inr u \<Rightarrow> domain_of_page u | Inl _ \<Rightarrow> [])
              in if page_domain \<noteq> [] \<and> page_domain = domain then Inr ()
                 else Inl (PageOnOtherDomain page_domain domain)))"

definition reaches :: "string \<Rightarrow> signing_venue \<Rightarrow> bool" where
  "reaches domain venue \<longleftrightarrow> reachability domain venue = Inr ()"

definition block_of :: "string \<Rightarrow> signing_venue \<Rightarrow> venue_block option" where
  "block_of domain venue = (case reachability domain venue of Inl b \<Rightarrow> Some b | Inr _ \<Rightarrow> None)"

section \<open>The choices (R2)\<close>

record signing_page =
  sp_url :: string
  sp_name :: string
  sp_trusted :: "string list"

definition new_signing_page :: "string \<Rightarrow> string \<Rightarrow> signing_page" where
  "new_signing_page url name = \<lparr>sp_url = url, sp_name = name, sp_trusted = []\<rparr>"

definition trusted_versions :: "signing_page list \<Rightarrow> string \<Rightarrow> string list" where
  "trusted_versions saved url =
     (if is_official url then []
      else case find (\<lambda>p. same_page (sp_url p) url) saved of Some p \<Rightarrow> sp_trusted p | None \<Rightarrow> [])"

record venue_choice =
  vc_venue :: signing_venue
  vc_name :: string
  vc_domain :: string
  vc_official :: bool
  vc_active :: bool
  vc_blocked :: "venue_block option"

type_synonym venue_row = "signing_venue \<times> string \<times> bool"

definition listed :: "venue_row list \<Rightarrow> signing_venue \<Rightarrow> bool" where
  "listed rows venue \<longleftrightarrow> list_ex (\<lambda>(v, _). same_venue v venue) rows"

fun saved_rows :: "venue_row list \<Rightarrow> signing_page list \<Rightarrow> venue_row list" where
  "saved_rows rows [] = rows"
| "saved_rows rows (p # ps) =
     (case venue_page (sp_url p) of
        None \<Rightarrow> saved_rows rows ps
      | Some venue \<Rightarrow>
          if listed rows venue then saved_rows rows ps
          else saved_rows (rows @ [(venue, trim (sp_name p), False)]) ps)"

definition venue_rows :: "signing_venue \<Rightarrow> signing_page list \<Rightarrow> venue_row list" where
  "venue_rows active saved =
     (let rows = saved_rows [(InVela, [], False), (official_venue, [], True)] saved
      in if listed rows active then rows else rows @ [(active, [], False)])"

definition choice_of :: "string \<Rightarrow> signing_venue \<Rightarrow> venue_row \<Rightarrow> venue_choice" where
  "choice_of domain active row =
     (case row of (venue, name, official) \<Rightarrow>
        \<lparr>vc_venue = venue, vc_name = name, vc_domain = venue_domain venue, vc_official = official,
         vc_active = same_venue venue active, vc_blocked = block_of domain venue\<rparr>)"

definition venue_choices :: "string \<Rightarrow> signing_venue \<Rightarrow> signing_page list \<Rightarrow> venue_choice list" where
  "venue_choices domain active saved = map (choice_of domain active) (venue_rows active saved)"

definition block_on_web :: "venue_choice \<Rightarrow> venue_choice" where
  "block_on_web row =
     (if vc_venue row \<noteq> InVela \<and> vc_blocked row = None then row\<lparr>vc_blocked := Some NotOnWeb\<rparr> else row)"

definition venue_choices_on_web :: "string \<Rightarrow> signing_venue \<Rightarrow> signing_page list \<Rightarrow> venue_choice list" where
  "venue_choices_on_web domain active saved = map block_on_web (venue_choices domain active saved)"

definition default_venue :: "string \<Rightarrow> string list \<Rightarrow> signing_venue option" where
  "default_venue domain pages =
     (if is_app_domain domain then Some InVela
      else find (reaches domain) (List.map_filter venue_page pages))"

section \<open>Which venue a request goes to (R3, R4)\<close>

definition ceremony_page :: "string option \<Rightarrow> string option" where
  "ceremony_page page =
     (case page of
        None \<Rightarrow> None
      | Some p \<Rightarrow>
          (case signer_url p of
             Inl _ \<Rightarrow> None
           | Inr url \<Rightarrow>
               (let domain = domain_of_page url
                in if domain \<noteq> [] \<and> \<not> is_app_domain domain then Some url else None)))"

datatype signature_kind = UserOperation | PersonalSign | TypedData | KeyCeremony

definition venue_for :: "signature_kind \<Rightarrow> string \<Rightarrow> signing_venue \<Rightarrow> signing_venue" where
  "venue_for kind domain venue =
     (if kind = KeyCeremony \<and> is_app_domain domain then InVela else venue)"

section \<open>The key route (R5)\<close>

datatype key_method = Platform | Hybrid | SecurityKey

fun method_name :: "key_method \<Rightarrow> string" where
  "method_name Platform = ''platform''"
| "method_name Hybrid = ''hybrid''"
| "method_name SecurityKey = ''security_key''"

definition hints_of :: "string \<Rightarrow> string list" where
  "hints_of m =
     (if m = ''platform'' then [''client-device'']
      else if m = ''hybrid'' then [''hybrid'']
      else if m = ''security_key'' then [''security-key'']
      else [])"

definition new_key_route :: "string \<Rightarrow> string \<Rightarrow> string \<Rightarrow> key_route" where
  "new_key_route credential m transports =
     \<lparr>kr_credential_id = credential, kr_method = m, kr_transports = transports, kr_hints = hints_of m\<rparr>"

definition place_title_key :: "string \<Rightarrow> string" where
  "place_title_key m =
     (if m = ''hybrid'' then ''onboarding.create.methodHybridTitle''
      else if m = ''security_key'' then ''onboarding.create.methodSecurityKeyTitle''
      else ''onboarding.create.methodPlatformTitle'')"

definition CONFIRM_WITH_LABEL :: string where
  "CONFIRM_WITH_LABEL = ''componentsUi.signing.confirmWithLabel''"

definition NEW_KEY_ON_LABEL :: string where
  "NEW_KEY_ON_LABEL = ''componentsUi.signing.newKeyOnLabel''"

record key_label =
  kl_name :: "string option"
  kl_place_key :: string
  kl_label_key :: string

definition label_of :: "(string \<Rightarrow> string) \<Rightarrow> string option \<Rightarrow> string \<Rightarrow> string \<Rightarrow> key_label" where
  "label_of to_lowercase key_name wallet_name m =
     (let wallet = to_lowercase (trim wallet_name)
      in \<lparr>kl_name = (case map_option trim key_name of
             Some n \<Rightarrow> if n \<noteq> [] \<and> to_lowercase n \<noteq> wallet then Some n else None
           | None \<Rightarrow> None),
          kl_place_key = place_title_key m, kl_label_key = CONFIRM_WITH_LABEL\<rparr>)"

definition label_of_ceremony :: "string \<Rightarrow> bool \<Rightarrow> key_label" where
  "label_of_ceremony m making =
     \<lparr>kl_name = None, kl_place_key = place_title_key m,
      kl_label_key = (if making then NEW_KEY_ON_LABEL else CONFIRM_WITH_LABEL)\<rparr>"

definition label_text :: "key_label \<Rightarrow> (string \<Rightarrow> string) \<Rightarrow> string" where
  "label_text l translate = (case kl_name l of Some n \<Rightarrow> n | None \<Rightarrow> translate (kl_place_key l))"

record signing_plan =
  pl_domain :: string
  pl_venue :: signing_venue
  pl_blocked :: "venue_block option"
  pl_key :: "key_route option"
  pl_key_label :: key_label

definition on_web :: "signing_plan \<Rightarrow> signing_plan" where
  "on_web p =
     (if pl_blocked p \<noteq> None then p
      else if is_app_domain (pl_domain p) then p\<lparr>pl_venue := InVela\<rparr>
      else p\<lparr>pl_blocked := Some NotOnWeb\<rparr>)"

section \<open>Transports\<close>

definition comma_list :: "string \<Rightarrow> string list" where
  "comma_list s = map trim (split_char (CHR '','') s)"

fun join_comma :: "string list \<Rightarrow> string" where
  "join_comma [] = []"
| "join_comma [s] = s"
| "join_comma (s # ss) = s @ '','' @ join_comma ss"

definition ROUTABLE :: "string list" where
  "ROUTABLE = [''usb'', ''nfc'', ''ble'', ''hybrid'', ''internal'']"

definition allowlist_transports :: "string \<Rightarrow> string" where
  "allowlist_transports reported = join_comma (filter (\<lambda>v. v \<in> set ROUTABLE) (comma_list reported))"

definition reported_method_name :: "string \<Rightarrow> string \<Rightarrow> string option" where
  "reported_method_name attachment transports =
     (let transport = (\<lambda>name. name \<in> set (comma_list transports))
      in if transport ''usb'' \<or> transport ''nfc'' \<or> transport ''ble'' then Some ''security_key''
         else if transport ''hybrid'' \<and> (attachment = ''cross-platform'' \<or> \<not> transport ''internal'') then Some ''hybrid''
         else if transport ''internal'' \<or> attachment = ''platform'' then Some ''platform''
         else if attachment = ''cross-platform'' then Some ''security_key''
         else None)"

definition reported_method :: "string \<Rightarrow> string \<Rightarrow> key_method option" where
  "reported_method attachment transports =
     (case reported_method_name attachment transports of
        None \<Rightarrow> None
      | Some n \<Rightarrow>
          Some (if n = ''security_key'' then SecurityKey else if n = ''hybrid'' then Hybrid else Platform))"

definition transports_of_method :: "string \<Rightarrow> string option" where
  "transports_of_method m =
     (if m = ''platform'' then Some ''internal''
      else if m = ''hybrid'' then Some ''hybrid,internal''
      else if m = ''security_key'' then Some ''usb,nfc,ble''
      else None)"

fun join_new :: "string list \<Rightarrow> string list \<Rightarrow> string list" where
  "join_new joined [] = joined"
| "join_new joined (v # vs) =
     join_new (if v \<noteq> [] \<and> v \<notin> set joined then joined @ [v] else joined) vs"

definition joined_transports :: "string \<Rightarrow> string \<Rightarrow> string" where
  "joined_transports a b = join_comma (join_new [] (comma_list a @ comma_list b))"

section \<open>Rows are distinct venues\<close>

definition venue_key :: "signing_venue \<Rightarrow> string option" where
  "venue_key v = map_option normal_page (venue_page_url v)"

lemma same_venue_key: "same_venue a b \<longleftrightarrow> venue_key a = venue_key b"
  by (cases a; cases b) (simp_all add: venue_key_def same_page_def)

abbreviation row_keys :: "venue_row list \<Rightarrow> string option list" where
  "row_keys rows \<equiv> map (\<lambda>r. venue_key (fst r)) rows"

lemma listed_keys: "listed rows v \<longleftrightarrow> venue_key v \<in> set (row_keys rows)"
  by (force simp: listed_def list_ex_iff same_venue_key)

lemma saved_rows_keys:
  "distinct (row_keys rows) \<Longrightarrow> distinct (row_keys (saved_rows rows ps)) \<and> set (row_keys rows) \<subseteq> set (row_keys (saved_rows rows ps))
     \<and> (\<forall>p\<in>set ps. \<forall>v. venue_page (sp_url p) = Some v \<longrightarrow> listed (saved_rows rows ps) v)
     \<and> (\<exists>more. saved_rows rows ps = rows @ more)"
proof (induction ps arbitrary: rows)
  case (Cons p ps)
  show ?case
  proof (cases "venue_page (sp_url p)")
    case None
    with Cons show ?thesis by simp
  next
    case (Some v)
    show ?thesis
    proof (cases "listed rows v")
      case True
      with Cons.IH [OF Cons.prems] Some show ?thesis by (auto simp: listed_keys)
    next
      case False
      let ?rows = "rows @ [(v, trim (sp_name p), False)]"
      have "distinct (row_keys ?rows)" using Cons.prems False by (simp add: listed_keys)
      from Cons.IH [OF this] Some False show ?thesis by (auto simp: listed_keys)
    qed
  qed
qed simp

lemma venue_rows_keys:
  "distinct (row_keys (venue_rows active saved)) \<and> listed (venue_rows active saved) active
   \<and> (\<forall>p\<in>set saved. \<forall>v. venue_page (sp_url p) = Some v \<longrightarrow> listed (venue_rows active saved) v)
   \<and> (\<exists>more. venue_rows active saved = (InVela, [], False) # (official_venue, [], True) # more)"
proof -
  have "distinct (row_keys [(InVela, [], False), (official_venue, [], True)])"
    by (simp add: venue_key_def official_venue_def)
  note rows = saved_rows_keys [OF this, of saved]
  show ?thesis
  proof (cases "listed (saved_rows [(InVela, [], False), (official_venue, [], True)] saved) active")
    case True
    with rows show ?thesis by (auto simp: venue_rows_def Let_def)
  next
    case False
    with rows show ?thesis by (auto simp: venue_rows_def listed_keys Let_def)
  qed
qed

lemma filter_distinct_one: "distinct xs \<Longrightarrow> length (filter (\<lambda>x. x = k) xs) = (if k \<in> set xs then 1 else 0)"
  by (induction xs) auto

lemma block_of_None: "block_of domain v = None \<longleftrightarrow> reaches domain v"
  by (auto simp: block_of_def reaches_def split: sum.split)

section \<open>Properties\<close>

text \<open>
  An account has one venue, and sees every one it could have. The rows of "where you review and
  sign" are Vela's sheet, the official page and every saved page that is an address, each venue once,
  with exactly one marked active; a row is offered exactly when it can use the account's keys, and on
  the web only Vela's sheet ever is.
\<close>

theorem venue_choices_complete:
  "length (filter vc_active (venue_choices domain active saved)) = 1
   \<and> distinct (map (\<lambda>c. venue_key (vc_venue c)) (venue_choices domain active saved))
   \<and> (\<forall>c\<in>set (venue_choices domain active saved). vc_blocked c = None \<longleftrightarrow> reaches domain (vc_venue c))
   \<and> InVela \<in> vc_venue ` set (venue_choices domain active saved)
   \<and> official_venue \<in> vc_venue ` set (venue_choices domain active saved)
   \<and> (\<forall>p\<in>set saved. \<forall>v. venue_page (sp_url p) = Some v \<longrightarrow>
        (\<exists>c\<in>set (venue_choices domain active saved). same_venue (vc_venue c) v))
   \<and> (\<forall>c\<in>set (venue_choices_on_web domain active saved). vc_blocked c = None \<longrightarrow> vc_venue c = InVela)"
proof -
  let ?rows = "venue_rows active saved"
  note rows = venue_rows_keys [of active saved]
  have venue [simp]: "vc_venue (choice_of domain active r) = fst r" for r by (simp add: choice_of_def split: prod.split)
  have keys: "map (\<lambda>c. venue_key (vc_venue c)) (venue_choices domain active saved) = row_keys ?rows"
    by (simp add: venue_choices_def comp_def)
  have "filter vc_active (venue_choices domain active saved) = map (choice_of domain active) (filter (\<lambda>r. venue_key (fst r) = venue_key active) ?rows)"
    by (simp add: venue_choices_def filter_map comp_def choice_of_def same_venue_key case_prod_beta)
  then have "length (filter vc_active (venue_choices domain active saved))
      = length (filter (\<lambda>k. k = venue_key active) (row_keys ?rows))" by (simp add: filter_map comp_def)
  also have "\<dots> = 1" using rows filter_distinct_one [of "row_keys ?rows" "venue_key active"] by (simp add: listed_keys)
  finally have active: "length (filter vc_active (venue_choices domain active saved)) = 1" .
  have blocked: "\<forall>c\<in>set (venue_choices domain active saved). vc_blocked c = None \<longleftrightarrow> reaches domain (vc_venue c)"
    by (auto simp: venue_choices_def choice_of_def block_of_None)
  have there: "v \<in> vc_venue ` set (venue_choices domain active saved)" if "v \<in> fst ` set ?rows" for v
    using that by (force simp: venue_choices_def image_image)
  obtain more where "?rows = (InVela, [], False) # (official_venue, [], True) # more" using rows by blast
  then have "InVela \<in> fst ` set ?rows" "official_venue \<in> fst ` set ?rows" by simp_all
  moreover have "\<forall>p\<in>set saved. \<forall>v. venue_page (sp_url p) = Some v \<longrightarrow>
      (\<exists>c\<in>set (venue_choices domain active saved). same_venue (vc_venue c) v)"
  proof (intro ballI allI impI)
    fix p v
    assume "p \<in> set saved" "venue_page (sp_url p) = Some v"
    with rows have "listed ?rows v" by blast
    then obtain r where "r \<in> set ?rows" "same_venue (fst r) v" by (auto simp: listed_def list_ex_iff)
    then show "\<exists>c\<in>set (venue_choices domain active saved). same_venue (vc_venue c) v"
      by (intro bexI [of _ "choice_of domain active r"]) (simp_all add: venue_choices_def)
  qed
  moreover have "\<forall>c\<in>set (venue_choices_on_web domain active saved). vc_blocked c = None \<longrightarrow> vc_venue c = InVela"
    by (auto simp: venue_choices_on_web_def block_on_web_def)
  ultimately show ?thesis using active blocked there rows keys by simp
qed

theorem venue_choices_complete_witness:
  "length (filter vc_active (venue_choices APP_DOMAIN (VenuePage ''x'') [])) = 1
   \<and> VenuePage ''x'' \<notin> vc_venue ` set (filter (\<lambda>c. vc_blocked c = None) (venue_choices_on_web APP_DOMAIN (VenuePage ''x'') []))"
proof -
  note rows = venue_choices_complete [of APP_DOMAIN "VenuePage ''x''" "[]"]
  have "\<forall>c\<in>set (venue_choices_on_web APP_DOMAIN (VenuePage ''x'') []). vc_blocked c = None \<longrightarrow> vc_venue c = InVela"
    using rows by blast
  then have "VenuePage ''x'' \<notin> vc_venue ` set (filter (\<lambda>c. vc_blocked c = None) (venue_choices_on_web APP_DOMAIN (VenuePage ''x'') []))"
    by auto
  with rows show ?thesis by blast
qed

end
