(* ===== verification/Accounts.thy ===== *)
theory Accounts
  imports SigningVenue
begin

text \<open>
  The account record of \<open>app/mod.rs\<close>: its keys, the key this device signs with, its signing domain and
  venue; the plan it signs by; and the reader and the writer of the stored record, with the migration
  of what earlier builds wrote. A stored record is modelled as its fields once \<open>serde\<close> has typed them
  (\<open>None\<close> for a field that is absent or that this build cannot read).
\<close>

section \<open>The record\<close>

record account_key =
  ak_credential_id :: string
  ak_public_key_hex :: string
  ak_name :: string
  ak_transports :: string
  ak_signer_origin :: "string option"

record sign_in_key =
  sk_credential_id :: string
  sk_method :: key_method
  sk_transports :: string

record account =
  ac_id :: string
  ac_name :: string
  ac_address :: string
  ac_public_key_hex :: string
  ac_created_at_iso :: string
  ac_keys :: "account_key list"
  ac_sign_in_key :: "sign_in_key option"
  ac_signing_domain :: string
  ac_signing_venue :: signing_venue

definition key_hexes :: "account \<Rightarrow> string list" where
  "key_hexes a = (if ac_keys a = [] then [ac_public_key_hex a] else map ak_public_key_hex (ac_keys a))"

definition matches_credential :: "account \<Rightarrow> string \<Rightarrow> bool" where
  "matches_credential a credential \<longleftrightarrow>
     ac_id a = credential \<or> list_ex (\<lambda>k. ak_credential_id k = credential) (ac_keys a)"

definition account_key_route :: "account \<Rightarrow> key_route option" where
  "account_key_route a =
     (case ac_sign_in_key a of
        None \<Rightarrow> None
      | Some key \<Rightarrow>
          if sk_credential_id key = [] \<or> \<not> matches_credential a (sk_credential_id key) then None
          else let m = method_name (sk_method key)
          in map_option (\<lambda>routed. new_key_route (sk_credential_id key) m (joined_transports routed (sk_transports key)))
               (transports_of_method m))"

definition account_key_label :: "(string \<Rightarrow> string) \<Rightarrow> account \<Rightarrow> key_label" where
  "account_key_label to_lowercase a =
     (let (key, m) =
        (case ac_sign_in_key a of
           Some s \<Rightarrow>
             if matches_credential a (sk_credential_id s)
             then (find (\<lambda>k. ak_credential_id k = sk_credential_id s) (ac_keys a), sk_method s)
             else (find (\<lambda>_. True) (ac_keys a),
                   unwrap_or (Option.bind (find (\<lambda>_. True) (ac_keys a)) (\<lambda>k. reported_method [] (ak_transports k))) Platform)
         | None \<Rightarrow>
             (find (\<lambda>_. True) (ac_keys a),
              unwrap_or (Option.bind (find (\<lambda>_. True) (ac_keys a)) (\<lambda>k. reported_method [] (ak_transports k))) Platform))
      in label_of to_lowercase (map_option ak_name key) (ac_name a) (method_name m))"

definition account_signing_plan :: "(string \<Rightarrow> string) \<Rightarrow> account \<Rightarrow> signing_plan" where
  "account_signing_plan to_lowercase a =
     \<lparr>pl_domain = ac_signing_domain a, pl_venue = ac_signing_venue a,
      pl_blocked = block_of (ac_signing_domain a) (ac_signing_venue a),
      pl_key = account_key_route a, pl_key_label = account_key_label to_lowercase a\<rparr>"

definition choose_venue :: "account \<Rightarrow> signing_venue \<Rightarrow> venue_block + account" where
  "choose_venue a venue0 =
     (let venue = (case venue0 of VenuePage url \<Rightarrow> unwrap_or (venue_page url) (VenuePage url) | InVela \<Rightarrow> InVela)
      in case reachability (ac_signing_domain a) venue of
           Inl b \<Rightarrow> Inl b
         | Inr _ \<Rightarrow> Inr (a\<lparr>ac_signing_venue := venue\<rparr>))"

definition stamp_key :: "string \<Rightarrow> account_key \<Rightarrow> account_key" where
  "stamp_key origin k =
     (if ak_signer_origin k = None \<or> ak_signer_origin k = Some [] then k\<lparr>ak_signer_origin := Some origin\<rparr> else k)"

definition stamp_page_origin :: "account \<Rightarrow> account" where
  "stamp_page_origin a =
     (if \<not> locked_to_page (ac_signing_domain a) then a
      else case venue_page_url (ac_signing_venue a) of
          None \<Rightarrow> a
        | Some url \<Rightarrow>
            (let origin = origin_of url
             in if origin = [] then a else a\<lparr>ac_keys := map (stamp_key origin) (ac_keys a)\<rparr>))"

definition new_signing :: "string option \<Rightarrow> string \<times> signing_venue" where
  "new_signing page =
     (case Option.bind page venue_page of
        Some venue \<Rightarrow>
          (let domain = (case map_option domain_of_page (venue_page_url venue) of
               Some d \<Rightarrow> if d \<noteq> [] then d else APP_DOMAIN
             | None \<Rightarrow> APP_DOMAIN)
           in (domain, venue))
      | None \<Rightarrow> (APP_DOMAIN, InVela))"

section \<open>The stored record\<close>

record key_wire =
  kw_credential_id :: "string option"
  kw_credential_id_camel :: "string option"
  kw_public_key_hex :: "string option"
  kw_public_key_hex_camel :: "string option"
  kw_name :: string
  kw_transports :: string
  kw_signer_origin :: "string option"

datatype legacy_method = LegacyPlatform | LegacyHybrid | LegacySecurityKey | LegacyTrustedSigner

record legacy_sign_in =
  ls_credential_id :: string
  ls_method :: legacy_method
  ls_transports :: string
  ls_signer_origin :: "string option"

record account_wire =
  aw_id :: string
  aw_name :: string
  aw_address :: string
  aw_public_key_hex :: "string option"
  aw_public_key_hex_camel :: "string option"
  aw_created_at_iso :: "string option"
  aw_created_at_camel :: "string option"
  aw_keys :: "key_wire list"
  aw_sign_in_key :: "sign_in_key option"
  aw_signed_in_with :: "legacy_sign_in option"
  aw_signing_domain :: "string option"
  aw_signing_venue :: "signing_venue option"

definition either :: "string option \<Rightarrow> string option \<Rightarrow> string option" where
  "either snake camel = (case snake of Some s \<Rightarrow> Some s | None \<Rightarrow> camel)"

definition read_key :: "key_wire \<Rightarrow> account_key option" where
  "read_key w =
     do {
       credential \<leftarrow> either (kw_credential_id w) (kw_credential_id_camel w);
       public_key \<leftarrow> either (kw_public_key_hex w) (kw_public_key_hex_camel w);
       Some \<lparr>ak_credential_id = credential, ak_public_key_hex = public_key, ak_name = kw_name w,
             ak_transports = kw_transports w, ak_signer_origin = nonempty (kw_signer_origin w)\<rparr>
     }"

fun read_all :: "('a \<Rightarrow> 'b option) \<Rightarrow> 'a list \<Rightarrow> 'b list option" where
  "read_all f [] = Some []"
| "read_all f (x # xs) = do { y \<leftarrow> f x; ys \<leftarrow> read_all f xs; Some (y # ys) }"

definition origin_of_record :: "string option \<Rightarrow> string option" where
  "origin_of_record origin = nonempty (map_option trim origin)"

definition held_key :: "account_key list \<Rightarrow> string \<Rightarrow> account_key option" where
  "held_key keys credential = find (\<lambda>k. ak_credential_id k = credential) keys"

definition key_origins :: "account_key list \<Rightarrow> string list" where
  "key_origins keys = List.map_filter (\<lambda>k. origin_of_record (ak_signer_origin k)) keys"

text \<open>The page a record of an earlier build signed on, if it signed on one.\<close>

definition legacy_page :: "account_key list \<Rightarrow> legacy_sign_in option \<Rightarrow> string option" where
  "legacy_page keys legacy =
     (case legacy of
        Some s \<Rightarrow>
          if ls_method s = LegacyTrustedSigner
          then Some (case origin_of_record (ls_signer_origin s) of
                 Some o1 \<Rightarrow> o1
               | None \<Rightarrow>
                   unwrap_or (Option.bind (held_key keys (ls_credential_id s)) (\<lambda>k. origin_of_record (ak_signer_origin k)))
                     DEFAULT_SIGNER_URL)
          else None
      | None \<Rightarrow>
          Option.bind (find (\<lambda>k. ak_credential_id k \<noteq> []) keys) (\<lambda>k. origin_of_record (ak_signer_origin k)))"

fun method_of_legacy :: "legacy_method \<Rightarrow> string \<Rightarrow> key_method" where
  "method_of_legacy LegacyPlatform stored = Platform"
| "method_of_legacy LegacyHybrid stored = Hybrid"
| "method_of_legacy LegacySecurityKey stored = SecurityKey"
| "method_of_legacy LegacyTrustedSigner stored = unwrap_or (reported_method [] stored) Platform"

definition migrate_key :: "account_key list \<Rightarrow> legacy_sign_in \<Rightarrow> sign_in_key" where
  "migrate_key keys s =
     (let stored = unwrap_or (map_option ak_transports (held_key keys (ls_credential_id s))) []
      in \<lparr>sk_credential_id = ls_credential_id s, sk_method = method_of_legacy (ls_method s) stored,
          sk_transports = (if ls_transports s = [] \<and> ls_method s = LegacyTrustedSigner
                           then allowlist_transports stored else ls_transports s)\<rparr>)"

record migrated =
  mg_sign_in_key :: "sign_in_key option"
  mg_domain :: string
  mg_venue :: signing_venue

definition find_map :: "('a \<Rightarrow> 'b option) \<Rightarrow> 'a list \<Rightarrow> 'b option" where
  "find_map f xs = (case List.map_filter f xs of [] \<Rightarrow> None | y # _ \<Rightarrow> Some y)"

definition migrate :: "account_key list \<Rightarrow> legacy_sign_in option \<Rightarrow> migrated" where
  "migrate keys legacy =
     (let page = legacy_page keys legacy;
          domain = (case Option.bind page (\<lambda>o1. registry_rp_id (Some o1)) of
              Some d \<Rightarrow> d
            | None \<Rightarrow> unwrap_or (find_map (\<lambda>o1. registry_rp_id (Some o1)) (key_origins keys)) APP_DOMAIN);
          on_page = (case Option.bind page venue_page of
              Some v \<Rightarrow> if reaches domain v then Some v else None
            | None \<Rightarrow> None);
          venue = (case on_page of Some v \<Rightarrow> v | None \<Rightarrow> unwrap_or (default_venue domain (key_origins keys)) InVela)
      in \<lparr>mg_sign_in_key = map_option (migrate_key keys) legacy, mg_domain = domain, mg_venue = venue\<rparr>)"

definition settle_venue ::
  "string \<Rightarrow> account_key list \<Rightarrow> signing_venue option \<Rightarrow> signing_venue \<Rightarrow> signing_venue" where
  "settle_venue domain keys stored migrated_venue =
     (case find (reaches domain) ((case stored of Some v \<Rightarrow> [v] | None \<Rightarrow> []) @ [migrated_venue]) of
        Some v \<Rightarrow> v
      | None \<Rightarrow> unwrap_or (default_venue domain (key_origins keys)) migrated_venue)"

fun settle_key :: "sign_in_key option \<Rightarrow> sign_in_key option \<Rightarrow> sign_in_key option" where
  "settle_key (Some current) (Some copy) =
     (if sk_credential_id copy \<noteq> sk_credential_id current then Some copy else Some current)"
| "settle_key (Some current) None = Some current"
| "settle_key None copy = copy"

definition read_account :: "account_wire \<Rightarrow> account option" where
  "read_account w =
     do {
       keys \<leftarrow> read_all read_key (aw_keys w);
       public_key \<leftarrow> either (aw_public_key_hex w) (aw_public_key_hex_camel w);
       created_at \<leftarrow> either (aw_created_at_iso w) (aw_created_at_camel w);
       let m = migrate keys (aw_signed_in_with w);
       let domain = unwrap_or (nonempty (map_option (\<lambda>d. to_ascii_lowercase (trim d)) (aw_signing_domain w))) (mg_domain m);
       Some (stamp_page_origin
         \<lparr>ac_id = aw_id w, ac_name = aw_name w, ac_address = aw_address w, ac_public_key_hex = public_key,
          ac_created_at_iso = created_at, ac_keys = keys,
          ac_sign_in_key = settle_key (aw_sign_in_key w) (mg_sign_in_key m),
          ac_signing_domain = domain,
          ac_signing_venue = settle_venue domain keys (aw_signing_venue w) (mg_venue m)\<rparr>)
     }"

section \<open>The writer\<close>

definition write_key :: "account_key \<Rightarrow> key_wire" where
  "write_key k =
     \<lparr>kw_credential_id = Some (ak_credential_id k), kw_credential_id_camel = None,
      kw_public_key_hex = Some (ak_public_key_hex k), kw_public_key_hex_camel = None,
      kw_name = ak_name k, kw_transports = ak_transports k, kw_signer_origin = ak_signer_origin k\<rparr>"

fun legacy_of_method :: "key_method \<Rightarrow> legacy_method" where
  "legacy_of_method Platform = LegacyPlatform"
| "legacy_of_method Hybrid = LegacyHybrid"
| "legacy_of_method SecurityKey = LegacySecurityKey"

definition older_builds_copy :: "sign_in_key \<Rightarrow> legacy_sign_in" where
  "older_builds_copy k =
     \<lparr>ls_credential_id = sk_credential_id k, ls_method = legacy_of_method (sk_method k),
      ls_transports = sk_transports k, ls_signer_origin = None\<rparr>"

definition write_account :: "account \<Rightarrow> account_wire" where
  "write_account a =
     \<lparr>aw_id = ac_id a, aw_name = ac_name a, aw_address = ac_address a,
      aw_public_key_hex = Some (ac_public_key_hex a), aw_public_key_hex_camel = None,
      aw_created_at_iso = Some (ac_created_at_iso a), aw_created_at_camel = None,
      aw_keys = map write_key (ac_keys a), aw_sign_in_key = ac_sign_in_key a,
      aw_signed_in_with = (if locked_to_page (ac_signing_domain a) then None
                           else map_option older_builds_copy (ac_sign_in_key a)),
      aw_signing_domain = Some (ac_signing_domain a), aw_signing_venue = Some (ac_signing_venue a)\<rparr>"

section \<open>The outbox\<close>

record pending_upload_member =
  pm_credential_id :: string
  pm_name :: string
  pm_public_key_hex :: string
  pm_attestation_object_hex :: string
  pm_authenticator_attachment :: string
  pm_transports :: string
  pm_signer_origin :: "string option"

record pending_upload =
  pu_id :: string
  pu_name :: string
  pu_public_key_hex :: string
  pu_attestation_object_hex :: string
  pu_created_at_iso :: string
  pu_authenticator_attachment :: string
  pu_transports :: string
  pu_members :: "pending_upload_member list"
  pu_task_id :: "string option"

definition awaits_landing :: "pending_upload \<Rightarrow> string option" where
  "awaits_landing p = (if 1 < length (pu_members p) then None else nonempty (pu_task_id p))"

record member_wire =
  mw_credential_id :: "string option"
  mw_credential_id_camel :: "string option"
  mw_name :: string
  mw_public_key_hex :: "string option"
  mw_public_key_hex_camel :: "string option"
  mw_attestation_object_hex :: "string option"
  mw_attestation_object_hex_camel :: "string option"
  mw_authenticator_attachment :: string
  mw_authenticator_attachment_camel :: string
  mw_transports :: string
  mw_signer_origin :: "string option"

definition read_member :: "member_wire \<Rightarrow> pending_upload_member option" where
  "read_member w =
     do {
       credential \<leftarrow> either (mw_credential_id w) (mw_credential_id_camel w);
       public_key \<leftarrow> either (mw_public_key_hex w) (mw_public_key_hex_camel w);
       attestation \<leftarrow> either (mw_attestation_object_hex w) (mw_attestation_object_hex_camel w);
       Some \<lparr>pm_credential_id = credential, pm_name = mw_name w, pm_public_key_hex = public_key,
             pm_attestation_object_hex = attestation,
             pm_authenticator_attachment = (if mw_authenticator_attachment w = []
               then mw_authenticator_attachment_camel w else mw_authenticator_attachment w),
             pm_transports = mw_transports w, pm_signer_origin = nonempty (mw_signer_origin w)\<rparr>
     }"

record upload_wire =
  uw_id :: string
  uw_name :: string
  uw_public_key_hex :: "string option"
  uw_public_key_hex_camel :: "string option"
  uw_attestation_object_hex :: "string option"
  uw_attestation_object_hex_camel :: "string option"
  uw_created_at_iso :: "string option"
  uw_created_at_camel :: "string option"
  uw_authenticator_attachment :: string
  uw_authenticator_attachment_camel :: string
  uw_transports :: string
  uw_members :: "member_wire list"
  uw_task_id :: "string option"

definition read_upload :: "upload_wire \<Rightarrow> pending_upload option" where
  "read_upload w =
     do {
       members \<leftarrow> read_all read_member (uw_members w);
       public_key \<leftarrow> either (uw_public_key_hex w) (uw_public_key_hex_camel w);
       attestation \<leftarrow> either (uw_attestation_object_hex w) (uw_attestation_object_hex_camel w);
       created_at \<leftarrow> either (uw_created_at_iso w) (uw_created_at_camel w);
       Some \<lparr>pu_id = uw_id w, pu_name = uw_name w, pu_public_key_hex = public_key,
             pu_attestation_object_hex = attestation, pu_created_at_iso = created_at,
             pu_authenticator_attachment = (if uw_authenticator_attachment w = []
               then uw_authenticator_attachment_camel w else uw_authenticator_attachment w),
             pu_transports = uw_transports w, pu_members = members, pu_task_id = nonempty (uw_task_id w)\<rparr>
     }"

section \<open>A venue that can sign\<close>

lemma find_reaches: "find (reaches d) vs = Some v \<Longrightarrow> reaches d v"
  by (induction vs) (auto split: if_splits)

lemma app_domain_in_vela: "is_app_domain d \<Longrightarrow> reaches d InVela"
proof -
  assume "is_app_domain d"
  then have "to_ascii_lowercase (trim d) = APP_DOMAIN"
    by (simp add: is_app_domain_def eq_ignore_ascii_case_def APP_DOMAIN_def to_ascii_lowercase_def to_ascii_lowercase_char_def)
  moreover have "trim APP_DOMAIN = APP_DOMAIN" by (rule trim_id) (simp add: APP_DOMAIN_def printable_def)
  ultimately show ?thesis by (simp add: reaches_def reachability_def is_app_domain_def)
qed

lemma default_venue_reaches: "default_venue d pages = Some v \<Longrightarrow> reaches d v"
  by (auto simp: default_venue_def app_domain_in_vela split: if_splits intro: find_reaches)

lemma default_venue_none:
  "default_venue d pages = None \<Longrightarrow> \<not> is_app_domain d \<and> (\<forall>u\<in>set pages. \<forall>v. venue_page u = Some v \<longrightarrow> \<not> reaches d v)"
  by (auto simp: default_venue_def List.map_filter_def find_None_iff split: if_splits)

text \<open>Nothing this record knows can use keys of the domain.\<close>

definition stranded :: "string \<Rightarrow> account_key list \<Rightarrow> signing_venue option \<Rightarrow> bool" where
  "stranded domain keys stored \<longleftrightarrow>
     \<not> is_app_domain domain
     \<and> (\<forall>v. stored = Some v \<longrightarrow> \<not> reaches domain v)
     \<and> (\<forall>u\<in>set (key_origins keys). \<forall>v. venue_page u = Some v \<longrightarrow> \<not> reaches domain v)"

lemma settle_venue_reaches:
  "reaches domain (settle_venue domain keys stored mv) \<or> stranded domain keys stored"
proof (cases "find (reaches domain) ((case stored of Some v \<Rightarrow> [v] | None \<Rightarrow> []) @ [mv])")
  case (Some v)
  then show ?thesis by (simp add: settle_venue_def find_reaches)
next
  case None
  then have stored: "\<forall>v. stored = Some v \<longrightarrow> \<not> reaches domain v" by (auto simp: find_None_iff split: option.splits)
  show ?thesis
  proof (cases "default_venue domain (key_origins keys)")
    case None
    with default_venue_none [OF None] stored show ?thesis by (simp add: stranded_def)
  next
    case (Some v)
    with \<open>find _ _ = None\<close> default_venue_reaches [OF Some] show ?thesis by (simp add: settle_venue_def)
  qed
qed

lemma stamp_page_origin_fields [simp]:
  "ac_signing_domain (stamp_page_origin a) = ac_signing_domain a"
  "ac_signing_venue (stamp_page_origin a) = ac_signing_venue a"
  "ac_sign_in_key (stamp_page_origin a) = ac_sign_in_key a"
  by (simp_all add: stamp_page_origin_def Let_def split: option.split)

lemma read_account_venue:
  assumes "read_account w = Some a" and "read_all read_key (aw_keys w) = Some keys"
  shows "reaches (ac_signing_domain a) (ac_signing_venue a) \<or> stranded (ac_signing_domain a) keys (aw_signing_venue w)"
  using assms by (auto simp: read_account_def Let_def split: Option.bind_splits) (use settle_venue_reaches in blast)

text \<open>The person's choices, one after another; a refused one changes nothing.\<close>

fun choose_all :: "account \<Rightarrow> signing_venue list \<Rightarrow> account" where
  "choose_all a [] = a"
| "choose_all a (v # vs) = choose_all (case choose_venue a v of Inr b \<Rightarrow> b | Inl _ \<Rightarrow> a) vs"

lemma choose_venue_Inr:
  "choose_venue a v = Inr b \<Longrightarrow> ac_signing_domain b = ac_signing_domain a \<and> reaches (ac_signing_domain b) (ac_signing_venue b)"
  by (auto simp: choose_venue_def reaches_def Let_def split: sum.splits)

lemma choose_all_reaches:
  "ac_signing_domain (choose_all a vs) = ac_signing_domain a
   \<and> (choose_all a vs = a \<or> reaches (ac_signing_domain a) (ac_signing_venue (choose_all a vs)))"
proof (induction vs arbitrary: a)
  case (Cons v vs)
  show ?case
  proof (cases "choose_venue a v")
    case (Inr b)
    with Cons.IH [of b] choose_venue_Inr [OF Inr] show ?thesis by auto
  qed (use Cons.IH [of a] in simp)
qed simp

section \<open>Written and read back\<close>

lemma nonempty_Some [simp]: "nonempty x \<noteq> Some []" "nonempty None = None" "s \<noteq> [] \<Longrightarrow> nonempty (Some s) = Some s"
  by (auto simp: nonempty_def split: option.splits list.splits)

lemma read_write_key: "ak_signer_origin k \<noteq> Some [] \<Longrightarrow> read_key (write_key k) = Some k"
  by (cases "ak_signer_origin k") (simp_all add: read_key_def write_key_def either_def)

lemma read_write_keys: "\<forall>k\<in>set keys. ak_signer_origin k \<noteq> Some [] \<Longrightarrow> read_all read_key (map write_key keys) = Some keys"
  by (induction keys) (simp_all add: read_write_key)

lemma migrate_older_copy: "migrate_key keys (older_builds_copy k) = k"
  by (cases "sk_method k") (simp_all add: migrate_key_def older_builds_copy_def)

lemma migrate_key_eq: "mg_sign_in_key (migrate keys legacy) = map_option (migrate_key keys) legacy"
  by (simp add: migrate_def Let_def)

text \<open>
  A record this build keeps: its domain in normal form, a venue that reaches it, the keys of a custom
  domain stamped with its page, no empty origin.
\<close>

definition kept :: "account \<Rightarrow> bool" where
  "kept a \<longleftrightarrow>
     ac_signing_domain a \<noteq> [] \<and> to_ascii_lowercase (trim (ac_signing_domain a)) = ac_signing_domain a
     \<and> reaches (ac_signing_domain a) (ac_signing_venue a) \<and> stamp_page_origin a = a
     \<and> (\<forall>k\<in>set (ac_keys a). ak_signer_origin k \<noteq> Some [])"

lemma settle_key_copy:
  "settle_key s (mg_sign_in_key (migrate keys (if locked then None else map_option older_builds_copy s))) = s"
  by (cases s; cases locked) (simp_all add: migrate_key_eq migrate_older_copy)

lemma read_write_account:
  assumes "kept a"
  shows "read_account (write_account a) = Some a"
proof -
  have keys: "read_all read_key (map write_key (ac_keys a)) = Some (ac_keys a)"
    using assms by (simp add: kept_def read_write_keys)
  have domain: "to_ascii_lowercase (trim (ac_signing_domain a)) = ac_signing_domain a" "ac_signing_domain a \<noteq> []"
    using assms by (simp_all add: kept_def)
  have venue: "settle_venue (ac_signing_domain a) keys (Some (ac_signing_venue a)) mv = ac_signing_venue a" for keys mv
    using assms by (simp add: settle_venue_def kept_def)
  have surj: "\<lparr>ac_id = ac_id a, ac_name = ac_name a, ac_address = ac_address a, ac_public_key_hex = ac_public_key_hex a,
      ac_created_at_iso = ac_created_at_iso a, ac_keys = ac_keys a, ac_sign_in_key = ac_sign_in_key a,
      ac_signing_domain = ac_signing_domain a, ac_signing_venue = ac_signing_venue a\<rparr> = a"
    by (cases a) simp
  have "read_account (write_account a) = Some (stamp_page_origin a)"
    using keys domain venue settle_key_copy [of "ac_sign_in_key a"]
    by (simp add: read_account_def write_account_def either_def surj Let_def)
  with assms show ?thesis by (simp add: kept_def)
qed

section \<open>Properties\<close>

text \<open>
  C21: an account never points at a venue that cannot sign for it. Read from any stored record, of this
  build or an older one, and after any choices made on this device, the account's venue reaches its keys
  and its plan is not blocked; the exception is a custom-domain record where neither the stored venue
  nor any page its keys name can reach them, and there the plan is blocked with the reason. No choice
  changes the domain.
\<close>

theorem account_can_sign:
  assumes "read_account w = Some a" and "read_all read_key (aw_keys w) = Some keys"
  shows "ac_signing_domain (choose_all a vs) = ac_signing_domain a
    \<and> (pl_blocked (account_signing_plan lower (choose_all a vs)) = None
       \<or> (choose_all a vs = a \<and> stranded (ac_signing_domain a) keys (aw_signing_venue w)))"
  using choose_all_reaches [of a vs] read_account_venue [OF assms]
  by (auto simp: account_signing_plan_def block_of_None)

definition old_wire :: account_wire where
  "old_wire =
     \<lparr>aw_id = ''01'', aw_name = ''Savings'', aw_address = ''0x1'', aw_public_key_hex = None,
      aw_public_key_hex_camel = Some ''04'', aw_created_at_iso = None, aw_created_at_camel = Some ''2025'',
      aw_keys = [], aw_sign_in_key = None, aw_signed_in_with = None, aw_signing_domain = None,
      aw_signing_venue = None\<rparr>"

lemma old_account:
  "read_account old_wire = Some
     \<lparr>ac_id = ''01'', ac_name = ''Savings'', ac_address = ''0x1'', ac_public_key_hex = ''04'', ac_created_at_iso = ''2025'',
      ac_keys = [], ac_sign_in_key = None, ac_signing_domain = APP_DOMAIN, ac_signing_venue = InVela\<rparr>"
proof -
  have app: "is_app_domain APP_DOMAIN"
  proof -
    have "trim APP_DOMAIN = APP_DOMAIN" by (rule trim_id) (simp add: APP_DOMAIN_def printable_def)
    then show ?thesis by (simp add: is_app_domain_def)
  qed
  have m: "migrate [] None = \<lparr>mg_sign_in_key = None, mg_domain = APP_DOMAIN, mg_venue = InVela\<rparr>"
    using app by (simp add: migrate_def legacy_page_def key_origins_def find_map_def List.map_filter_simps default_venue_def Let_def)
  have "settle_venue APP_DOMAIN [] None InVela = InVela" by (simp add: settle_venue_def app_domain_in_vela [OF app])
  with m app show ?thesis
    by (simp add: read_account_def old_wire_def either_def stamp_page_origin_def locked_to_page_def Let_def)
qed

theorem account_can_sign_witness:
  "\<exists>a. read_account old_wire = Some a
     \<and> pl_blocked (account_signing_plan (\<lambda>s. s) (choose_all a [VenuePage ''x''])) = None"
proof -
  obtain a where a: "read_account old_wire = Some a" "is_app_domain (ac_signing_domain a)"
  proof -
    have "trim APP_DOMAIN = APP_DOMAIN" by (rule trim_id) (simp add: APP_DOMAIN_def printable_def)
    then have "is_app_domain APP_DOMAIN" by (simp add: is_app_domain_def)
    with that old_account show ?thesis by simp
  qed
  have "read_all read_key (aw_keys old_wire) = Some []" by (simp add: old_wire_def)
  from account_can_sign [OF a(1) this, of "[VenuePage ''x'']" "\<lambda>s. s"] a show ?thesis
    by (auto simp: stranded_def)
qed

text \<open>
  An account written is the account read. Every record this build keeps comes back field by field
  from what it stores, and the copy kept for older builds, written for the apps' own domain only, never
  overrides the sign-in key it copies.
\<close>

theorem account_round_trip:
  assumes "kept a"
  shows "read_account (write_account a) = Some a
    \<and> (aw_signed_in_with (write_account a) = None \<longleftrightarrow> locked_to_page (ac_signing_domain a) \<or> ac_sign_in_key a = None)"
  using read_write_account [OF assms] by (auto simp: write_account_def)

theorem account_round_trip_witness:
  "read_account (write_account
     \<lparr>ac_id = ''01'', ac_name = ''Savings'', ac_address = ''0x1'', ac_public_key_hex = ''04'', ac_created_at_iso = ''2025'',
      ac_keys = [\<lparr>ak_credential_id = ''01'', ak_public_key_hex = ''04'', ak_name = [], ak_transports = ''usb'', ak_signer_origin = None\<rparr>],
      ac_sign_in_key = Some \<lparr>sk_credential_id = ''01'', sk_method = SecurityKey, sk_transports = []\<rparr>,
      ac_signing_domain = APP_DOMAIN, ac_signing_venue = InVela\<rparr>) \<noteq> None"
proof -
  have trim: "trim APP_DOMAIN = APP_DOMAIN" by (rule trim_id) (simp add: APP_DOMAIN_def printable_def)
  have lower: "to_ascii_lowercase APP_DOMAIN = APP_DOMAIN"
    by (simp add: APP_DOMAIN_def to_ascii_lowercase_def to_ascii_lowercase_char_def)
  have app: "is_app_domain APP_DOMAIN" by (simp add: is_app_domain_def trim)
  let ?a = "\<lparr>ac_id = ''01'', ac_name = ''Savings'', ac_address = ''0x1'', ac_public_key_hex = ''04'', ac_created_at_iso = ''2025'',
      ac_keys = [\<lparr>ak_credential_id = ''01'', ak_public_key_hex = ''04'', ak_name = [], ak_transports = ''usb'', ak_signer_origin = None\<rparr>],
      ac_sign_in_key = Some \<lparr>sk_credential_id = ''01'', sk_method = SecurityKey, sk_transports = []\<rparr>,
      ac_signing_domain = APP_DOMAIN, ac_signing_venue = InVela\<rparr>"
  have "APP_DOMAIN \<noteq> []" by (simp add: APP_DOMAIN_def)
  then have "kept ?a"
    by (simp add: kept_def trim lower app_domain_in_vela [OF app] stamp_page_origin_def locked_to_page_def app)
  from account_round_trip [OF this] show ?thesis by simp
qed

end
