(* ===== verification/SignerCeremony.thy ===== *)
theory SignerCeremony
  imports Accounts WsServer
begin

text \<open>
  \<open>trusted_signer/ceremony.rs\<close>: the passkey ceremonies besides signing (making a key, signing in, the
  proofs) run on the signing page. The request the page is sent, and the answer the wallet accepts:
  from the page it opened, over a challenge the page was allowed to derive, by the key that was named.
  Reading a ceremony from an operation's JSON is \<open>serde\<close>'s and is left out.
\<close>

section \<open>The ceremonies\<close>

definition CREATE :: string where
  "CREATE = ''vela_createPasskey''"

definition SIGN_IN :: string where
  "SIGN_IN = ''vela_signIn''"

definition PROOF :: string where
  "PROOF = ''vela_proof''"

definition MEMBER_PROOF :: string where
  "MEMBER_PROOF = ''vela_memberProof''"

datatype proof_purpose = ProveNew | RecoverFirst | RecoverSecond

datatype ceremony =
    RegisterPasskey string "string list" key_method
  | AuthenticatePasskey key_method
  | SignProof string proof_purpose key_method string
  | SignMemberProof string string string string key_method string

fun title_key :: "ceremony \<Rightarrow> string" where
  "title_key (RegisterPasskey _ _ _) = ''componentsUi.signing.ceremonyCreate''"
| "title_key (AuthenticatePasskey _) = ''componentsUi.signing.ceremonySignIn''"
| "title_key (SignProof _ RecoverFirst _ _) = ''componentsUi.signing.ceremonySignIn''"
| "title_key (SignProof _ RecoverSecond _ _) = ''componentsUi.signing.ceremonySignIn''"
| "title_key (SignProof _ ProveNew _ _) = ''componentsUi.signing.ceremonyConfirm''"
| "title_key (SignMemberProof _ _ _ _ _ _) = ''componentsUi.signing.ceremonyConfirm''"

fun place :: "ceremony \<Rightarrow> key_method option" where
  "place (RegisterPasskey _ _ m) = Some m"
| "place (AuthenticatePasskey m) = Some m"
| "place (SignProof _ _ m _) = Some m"
| "place (SignMemberProof _ _ _ _ m _) = Some m"

definition is_register :: "ceremony \<Rightarrow> bool" where
  "is_register c = (case c of RegisterPasskey _ _ _ \<Rightarrow> True | _ \<Rightarrow> False)"

definition ceremony_key_label :: "ceremony \<Rightarrow> key_label" where
  "ceremony_key_label c =
     label_of_ceremony (method_name (case place c of Some m \<Rightarrow> m | None \<Rightarrow> Platform)) (is_register c)"

section \<open>The request\<close>

definition transport_list :: "string \<Rightarrow> string list" where
  "transport_list transports = filter (\<lambda>t. t \<noteq> []) (map trim (split_char (CHR '','') transports))"

definition hex_to_b64url :: "signer_env \<Rightarrow> string \<Rightarrow> string" where
  "hex_to_b64url E hex = (case from_hex (trim_start_0x hex) of Inl _ \<Rightarrow> [] | Inr bs \<Rightarrow> b64_encode E bs)"

fun purpose_name :: "proof_purpose \<Rightarrow> string" where
  "purpose_name ProveNew = ''verify''"
| "purpose_name RecoverFirst = ''recover_first''"
| "purpose_name RecoverSecond = ''recover_second''"

record registry_deployment =
  rd_chain_id :: u64
  rd_contract :: string

definition strings :: "string list \<Rightarrow> json" where
  "strings xs = Array (map String xs)"

definition or_null :: "json option \<Rightarrow> json" where
  "or_null v = unwrap_or v Null"

fun ceremony_params ::
  "signer_env \<Rightarrow> ceremony \<Rightarrow> string \<Rightarrow> registry_deployment option \<Rightarrow> string \<times> (string \<times> json) list" where
  "ceremony_params E (RegisterPasskey name exclude m) registry deployment =
     (CREATE,
      [(''name'', String name),
       (''excludeCredentialIds'', strings (filter (\<lambda>i. i \<noteq> []) (map (hex_to_b64url E) exclude))),
       (''place'', String (method_name m))])"
| "ceremony_params E (AuthenticatePasskey m) registry deployment =
     (SIGN_IN, [(''place'', String (method_name m))])"
| "ceremony_params E (SignProof credential purpose m transports) registry deployment =
     (PROOF,
      [(''credentialId'', String (hex_to_b64url E credential)),
       (''purpose'', String (purpose_name purpose)),
       (''place'', String (method_name m)),
       (''transports'', strings (transport_list transports))])"
| "ceremony_params E (SignMemberProof credential public_key attestation group_key m transports) registry deployment =
     (MEMBER_PROOF,
      [(''credentialId'', String (hex_to_b64url E credential)),
       (''publicKey'', String public_key),
       (''attestation'', String attestation),
       (''groupPublicKey'', String group_key),
       (''registry'', String registry),
       (''chainId'', or_null (map_option (\<lambda>d. Number (PosInt (rd_chain_id d))) deployment)),
       (''registryContract'', or_null (map_option (\<lambda>d. String (rd_contract d)) deployment)),
       (''place'', String (method_name m)),
       (''transports'', strings (transport_list transports))])"

definition ceremony_request ::
  "signer_env \<Rightarrow> ceremony \<Rightarrow> string \<Rightarrow> string \<Rightarrow> string \<Rightarrow> registry_deployment option \<Rightarrow> json" where
  "ceremony_request E c req_id wallet_name registry deployment =
     (let (method, params0) = ceremony_params E c registry deployment;
          params = (case place c of
                      Some p \<Rightarrow> params0 @ [(''hints'', strings (hints_of (method_name p)))]
                    | None \<Rightarrow> params0)
      in Object [(''id'', String req_id),
                 (''intent'', Object [(''method'', String method), (''params'', Array [Object params]),
                                      (''origin'', String [])]),
                 (''context'', Object [(''walletName'', String wallet_name)])])"

section \<open>The answer\<close>

record registration =
  rg_credential_id :: string
  rg_attestation_object_hex :: string
  rg_client_data_json_hex :: string
  rg_authenticator_attachment :: string
  rg_transports :: string
  rg_signer_origin :: "string option"

record assertion =
  as_credential_id :: string
  as_signature_der_hex :: string
  as_authenticator_data_hex :: string
  as_client_data_json_hex :: string
  as_user_id_hex :: "string option"
  as_authenticator_attachment :: string
  as_signer_origin :: "string option"

datatype answer = Registration registration | Assertion assertion

definition credential_hex :: "signer_env \<Rightarrow> json \<Rightarrow> trusted_signer_error + string" where
  "credential_hex E obj =
     (case field obj ''credentialId'' of
        Inl e \<Rightarrow> Inl e
      | Inr text \<Rightarrow>
          (case b64_decode E (trim_end_char (CHR ''='') text) of
             Inl _ \<Rightarrow> Inl (Malformed ''credentialId is not base64url'')
           | Inr bs \<Rightarrow> Inr (to_ascii_lowercase (to_hex bs False))))"

definition client_data_of :: "signer_env \<Rightarrow> bytes \<Rightarrow> trusted_signer_error + json" where
  "client_data_of E bs =
     (case json_from_slice E bs of
        None \<Rightarrow> Inl (Malformed ''clientDataJSON is not JSON'') | Some client \<Rightarrow> Inr client)"

definition same_origin :: "json \<Rightarrow> string \<Rightarrow> trusted_signer_error + unit" where
  "same_origin client signer_origin =
     (let seen = unwrap_or (text_of client ''origin'') []
      in if origin_of seen = [] \<or> origin_of seen \<noteq> origin_of signer_origin
         then Inl (Malformed (''the answer came from '' @ seen @ '', not from the signing page''))
         else Inr ())"

definition challenge_bytes :: "signer_env \<Rightarrow> json \<Rightarrow> trusted_signer_error + bytes" where
  "challenge_bytes E client =
     (let text = unwrap_or (text_of client ''challenge'') []
      in case b64_decode E (trim_end_char (CHR ''='') text) of
           Inl _ \<Rightarrow> Inl WrongChallenge | Inr bs \<Rightarrow> Inr bs)"

definition derived :: "bytes \<Rightarrow> string \<Rightarrow> bool" where
  "derived challenge prefix \<longleftrightarrow>
     length challenge \<noteq> 32 \<and> take (length prefix) challenge = as_bytes prefix \<and> length prefix < length challenge"

definition public_key_hex_from_attestation :: "('v, 's) curve \<Rightarrow> string \<Rightarrow> core_error + string" where
  "public_key_hex_from_attestation K attestation_object_hex =
     (case from_hex attestation_object_hex of
        Inl e \<Rightarrow> Inl e
      | Inr bs \<Rightarrow>
          (case extract_attestation_public_key K bs of
             Inl e \<Rightarrow> Inl e
           | Inr key \<Rightarrow> Inr (''04'' @ to_hex (pk_x key) False @ to_hex (pk_y key) False)))"

definition verify_registration ::
  "signer_env \<Rightarrow> ('v, 's) curve \<Rightarrow> json \<Rightarrow> string \<Rightarrow> trusted_signer_error + answer" where
  "verify_registration E K ans signer_origin =
     (case get ans ''registration'' of
        None \<Rightarrow> Inl (Malformed ''missing registration'')
      | Some reg \<Rightarrow>
     (case hex_field reg ''clientDataJSON'' of
        Inl e \<Rightarrow> Inl e
      | Inr client_json \<Rightarrow>
     (case validate_client_data Create client_json [] of
        Inl e \<Rightarrow> Inl (Malformed (core_error_text e))
      | Inr _ \<Rightarrow>
     (case client_data_of E client_json of
        Inl e \<Rightarrow> Inl e
      | Inr client \<Rightarrow>
     (case same_origin client signer_origin of
        Inl e \<Rightarrow> Inl e
      | Inr _ \<Rightarrow>
     (case field reg ''attestationObject'' of
        Inl e \<Rightarrow> Inl e
      | Inr attestation0 \<Rightarrow>
          let attestation = to_ascii_lowercase attestation0
          in case public_key_hex_from_attestation K attestation of
               Inl e \<Rightarrow> Inl (Malformed (core_error_text e))
             | Inr _ \<Rightarrow>
     (case credential_hex E reg of
        Inl e \<Rightarrow> Inl e
      | Inr credential \<Rightarrow>
          Inr (Registration
            \<lparr>rg_credential_id = credential, rg_attestation_object_hex = attestation,
             rg_client_data_json_hex = to_hex client_json False,
             rg_authenticator_attachment = unwrap_or (text_of reg ''authenticatorAttachment'') [],
             rg_transports = unwrap_or (text_of reg ''transports'') [],
             rg_signer_origin = nonempty (Some (origin_of signer_origin))\<rparr>))))))))"

fun challenge_allowed :: "ceremony \<Rightarrow> bytes option \<Rightarrow> bytes \<Rightarrow> bool" where
  "challenge_allowed (AuthenticatePasskey _) expected challenge = derived challenge ''vela-signin-''"
| "challenge_allowed (SignProof _ ProveNew _ _) expected challenge = derived challenge ''vela-verify-''"
| "challenge_allowed (SignProof _ _ _ _) expected challenge = derived challenge ''vela-recover-''"
| "challenge_allowed (SignMemberProof _ _ _ _ _ _) expected challenge = (expected = Some challenge)"
| "challenge_allowed (RegisterPasskey _ _ _) expected challenge = False"

fun named_credential :: "ceremony \<Rightarrow> string option" where
  "named_credential (SignProof credential _ _ _) = Some credential"
| "named_credential (SignMemberProof credential _ _ _ _ _) = Some credential"
| "named_credential _ = None"

definition is_named :: "string option \<Rightarrow> string \<Rightarrow> bool" where
  "is_named named credential =
     (case named of None \<Rightarrow> True | Some n \<Rightarrow> eq_ignore_ascii_case (trim_start_0x n) credential)"

definition ceremony_verify ::
  "signer_env \<Rightarrow> ('v, 's) curve \<Rightarrow> ceremony \<Rightarrow> json \<Rightarrow> string \<Rightarrow> bytes option \<Rightarrow> trusted_signer_error + answer" where
  "ceremony_verify E K c ans signer_origin expected =
     (if text_of ans ''t'' = Some ''error'' then Inl (refusal (unwrap_or (text_of ans ''code'') []))
      else if is_register c then verify_registration E K ans signer_origin
      else case get ans ''assertion'' of
        None \<Rightarrow> Inl (Malformed ''missing assertion'')
      | Some asr \<Rightarrow>
     (case hex_field asr ''authenticatorData'' of
        Inl e \<Rightarrow> Inl e
      | Inr authenticator_data \<Rightarrow>
     (case hex_field asr ''clientDataJSON'' of
        Inl e \<Rightarrow> Inl e
      | Inr client_json \<Rightarrow>
     (case validate_client_data Get client_json authenticator_data of
        Inl e \<Rightarrow> Inl (client_data_refusal e)
      | Inr _ \<Rightarrow>
     (case client_data_of E client_json of
        Inl e \<Rightarrow> Inl e
      | Inr client \<Rightarrow>
     (case same_origin client signer_origin of
        Inl e \<Rightarrow> Inl e
      | Inr _ \<Rightarrow>
     (case challenge_bytes E client of
        Inl e \<Rightarrow> Inl e
      | Inr challenge \<Rightarrow>
          if \<not> challenge_allowed c expected challenge then Inl WrongChallenge
          else
     (case credential_hex E asr of
        Inl e \<Rightarrow> Inl e
      | Inr credential \<Rightarrow>
          if \<not> is_named (named_credential c) credential then Inl ForeignKey
          else
     (case field asr ''signatureDer'' of
        Inl e \<Rightarrow> Inl e
      | Inr der \<Rightarrow>
          Inr (Assertion
            \<lparr>as_credential_id = credential, as_signature_der_hex = to_ascii_lowercase der,
             as_authenticator_data_hex = to_hex authenticator_data False,
             as_client_data_json_hex = to_hex client_json False,
             as_user_id_hex = map_option to_ascii_lowercase (nonempty (text_of asr ''userHandle'')),
             as_authenticator_attachment = unwrap_or (text_of asr ''authenticatorAttachment'') [],
             as_signer_origin = nonempty (Some (origin_of signer_origin))\<rparr>))))))))))"

section \<open>What an accepted ceremony proves\<close>

text \<open>The evidence behind an accepted assertion.\<close>

definition ceremony_evidence ::
  "signer_env \<Rightarrow> ceremony \<Rightarrow> string \<Rightarrow> bytes option \<Rightarrow> assertion \<Rightarrow> bytes \<Rightarrow> bytes \<Rightarrow> bytes \<Rightarrow> bool" where
  "ceremony_evidence E c signer_origin expected a authenticator_data client_json challenge \<longleftrightarrow>
     as_authenticator_data_hex a = to_hex authenticator_data False
     \<and> as_client_data_json_hex a = to_hex client_json False
     \<and> 33 \<le> length authenticator_data \<and> authenticator_data ! 32 AND 0x04 = 0x04
     \<and> take (length GET_PREFIX) client_json = GET_PREFIX
     \<and> (\<exists>client. json_from_slice E client_json = Some client
          \<and> origin_of (unwrap_or (text_of client ''origin'') []) = origin_of signer_origin
          \<and> origin_of signer_origin \<noteq> []
          \<and> challenge_bytes E client = Inr challenge)
     \<and> challenge_allowed c expected challenge
     \<and> is_named (named_credential c) (as_credential_id a)
     \<and> as_signer_origin a = Some (origin_of signer_origin)"

lemma same_origin_iff:
  "same_origin client signer_origin = Inr u \<longleftrightarrow>
     origin_of (unwrap_or (text_of client ''origin'') []) = origin_of signer_origin \<and> origin_of signer_origin \<noteq> []"
  by (auto simp: same_origin_def Let_def)

lemma verify_registration_kind: "verify_registration E K ans signer_origin \<noteq> Inr (Assertion a)"
  by (auto simp: verify_registration_def Let_def split: option.splits sum.splits)

lemma challenge_not_32:
  assumes "challenge_allowed c expected challenge" and "length challenge = 32"
  shows "expected = Some challenge"
  using assms by (cases "(c, expected, challenge)" rule: challenge_allowed.cases) (auto simp: derived_def)

lemma ceremony_verify_evidence:
  assumes "ceremony_verify E K c ans signer_origin expected = Inr (Assertion a)"
  shows "\<exists>ad cd challenge. ceremony_evidence E c signer_origin expected a ad cd challenge"
proof -
  obtain asr ad cd u client u2 challenge credential der where
    cd: "validate_client_data Get cd ad = Inr u" and client: "client_data_of E cd = Inr client"
    and origin: "same_origin client signer_origin = Inr u2" and challenge: "challenge_bytes E client = Inr challenge"
    and allowed: "challenge_allowed c expected challenge" "is_named (named_credential c) credential"
    and a: "a = \<lparr>as_credential_id = credential, as_signature_der_hex = to_ascii_lowercase der,
             as_authenticator_data_hex = to_hex ad False,
             as_client_data_json_hex = to_hex cd False,
             as_user_id_hex = map_option to_ascii_lowercase (nonempty (text_of asr ''userHandle'')),
             as_authenticator_attachment = unwrap_or (text_of asr ''authenticatorAttachment'') [],
             as_signer_origin = nonempty (Some (origin_of signer_origin))\<rparr>"
    using assms
    by (auto simp: ceremony_verify_def verify_registration_kind Let_def split: sum.splits option.splits if_splits)
  have "json_from_slice E cd = Some client"
    using client by (auto simp: client_data_of_def split: option.splits)
  with client_data_accepted [OF cd] origin challenge allowed show ?thesis
    unfolding ceremony_evidence_def same_origin_iff
    by (intro exI [of _ ad] exI [of _ cd] exI [of _ challenge]) (simp add: a nonempty_Some)
qed

lemma ceremony_digest:
  assumes "signer_contract E" and "ceremony_evidence E c signer_origin expected a ad cd challenge"
    and "evidence E K d keys v" and "vf_client_data_json v = cd"
  shows "challenge = d"
proof -
  obtain client where j: "json_from_slice E cd = Some client" and ch: "challenge_bytes E client = Inr challenge"
    using assms(2) by (auto simp: ceremony_evidence_def)
  moreover have "challenge_of client = b64_encode E d"
    using assms(3,4) j by (auto simp: evidence_def)
  moreover have "trim_end_char (CHR ''='') (b64_encode E d) = b64_encode E d" "b64_decode E (b64_encode E d) = Inr d"
    using assms(1) trim_end_unreserved by (simp_all add: signer_contract_def)
  ultimately show ?thesis by (simp add: challenge_bytes_def challenge_of_def)
qed

section \<open>Properties\<close>



end
