(* ===== verification/Safe.thy ===== *)
theory Safe
  imports SelfCallGuard TrustedSigner "HOL-Library.List_Lexorder" "HOL-Library.Product_Lexorder" "HOL-Library.Multiset"
begin

text \<open>
  \<open>safe.rs\<close>: the counterfactual address of an account. Its set-up calldata (the owners, the module,
  one signer proxy per further key), the salt and the CREATE2 address, for one passkey and for a
  founding set, and the gas splitter. Keccak, CREATE2, the checksum casing, the selector of a
  signature and the 256-bit parser are \<open>alloy\<close>'s and come as a record of functions;
  \<open>chain_contract\<close> states what the code relies on.
\<close>

section \<open>The crates\<close>

record chain_env =
  keccak256 :: "bytes \<Rightarrow> bytes"
  to_checksum :: "bytes \<Rightarrow> string"
  create2 :: "bytes \<Rightarrow> bytes \<Rightarrow> bytes \<Rightarrow> bytes"
  parse_selector :: "string \<Rightarrow> string + bytes"
  u256_parse :: "string \<Rightarrow> nat \<Rightarrow> string + nat"

text \<open>The \<open>?\<close> operator, and \<open>map(f).collect::<Result<Vec<_>, _>>()\<close>.\<close>

fun attempt :: "'e + 'a \<Rightarrow> ('a \<Rightarrow> 'e + 'b) \<Rightarrow> 'e + 'b" where
  "attempt (Inl e) f = Inl e"
| "attempt (Inr x) f = f x"

fun collect_results :: "('a \<Rightarrow> 'e + 'b) \<Rightarrow> 'a list \<Rightarrow> 'e + 'b list" where
  "collect_results f [] = Inr []"
| "collect_results f (x # xs) = attempt (f x) (\<lambda>y. attempt (collect_results f xs) (\<lambda>ys. Inr (y # ys)))"

abbreviation selector :: "chain_env \<Rightarrow> string \<Rightarrow> core_error + bytes" where
  "selector E \<equiv> function_selector (parse_selector E)"

abbreviation uint256 :: "chain_env \<Rightarrow> string \<Rightarrow> core_error + bytes" where
  "uint256 E \<equiv> abi_encode_uint256 (u256_parse E)"

section \<open>The deployed contracts\<close>

definition SAFE_PROXY_FACTORY :: string where
  "SAFE_PROXY_FACTORY = ''0x4e1DCf7AD4e460CfD30791CCC4F9c8a4f820ec67''"

definition SAFE_SINGLETON :: string where
  "SAFE_SINGLETON = ''0x29fcB43b46531BcA003ddC8FCB67FFE91900C762''"

definition SAFE_MODULE_SETUP :: string where
  "SAFE_MODULE_SETUP = ''0x2dd68b007B46fBe91B9A7c3EDa5A7a1063cB5b47''"

definition WEBAUTHN_SIGNER :: string where
  "WEBAUTHN_SIGNER = ''0x94a4F6affBd8975951142c3999aEAB7ecee555c2''"

definition MULTI_SEND_ADDRESS :: string where
  "MULTI_SEND_ADDRESS = ''0x38869bf66a61cF6bDB996A6aE40D5853Fd43B526''"

definition WEBAUTHN_SIGNER_FACTORY :: string where
  "WEBAUTHN_SIGNER_FACTORY = ''0x1d31F259eE307358a26dFb23EB365939E8641195''"

definition WEBAUTHN_SIGNER_SINGLETON :: string where
  "WEBAUTHN_SIGNER_SINGLETON = ''0x4E27b51350e6c2083EE19011120F50DAfEc5CA50''"

definition WEBAUTHN_VERIFIERS_HEX :: string where
  "WEBAUTHN_VERIFIERS_HEX = ''100''"

definition WEBAUTHN_SIGNER_PROXY_CREATION_CODE :: string where
  "WEBAUTHN_SIGNER_PROXY_CREATION_CODE = concat [
     ''610100346100ad57601f6101b538819003918201601f19168301916001600160401b038311848410176100b257808492'',
     ''6080946040528339810103126100ad578051906001600160a01b03821682036100ad5760208101516040820151606090'',
     ''920151926001600160b01b03841684036100ad5760805260a05260c05260e05260405160ec90816100c9823960805181'',
     ''6082015260a05181604d015260c051816027015260e0518160010152f35b600080fd5b634e487b7160e01b6000526041'',
     ''60045260246000fdfe7f000000000000000000000000000000000000000000000000000000000000000060b63601527f'',
     ''000000000000000000000000000000000000000000000000000000000000000060a03601527f00000000000000000000'',
     ''0000000000000000000000000000000000000000000036608001523660006080376000806056360160807f0000000000'',
     ''0000000000000000000000000000000000000000000000000000005af43d600060803e60b1573d6080fd5b3d6080f3fe'',
     ''a26469706673582212201660515548d15702d720bbc046b457ca85e941a4559ab9f9518488e4c82e5ee964736f6c6343'',
     ''00081a0033'']"

definition PROXY_CREATION_CODE :: string where
  "PROXY_CREATION_CODE = concat [
     ''608060405234801561001057600080fd5b506040516101e63803806101e6833981810160405260208110156100335760'',
     ''0080fd5b8101908080519060200190929190505050600073ffffffffffffffffffffffffffffffffffffffff168173ff'',
     ''ffffffffffffffffffffffffffffffffffffff1614156100ca576040517f08c379a00000000000000000000000000000'',
     ''000000000000000000000000000081526004018080602001828103825260228152602001806101c46022913960400191'',
     ''505060405180910390fd5b806000806101000a81548173ffffffffffffffffffffffffffffffffffffffff0219169083'',
     ''73ffffffffffffffffffffffffffffffffffffffff1602179055505060ab806101196000396000f3fe608060405273ff'',
     ''ffffffffffffffffffffffffffffffffffffff600054167fa619486e0000000000000000000000000000000000000000'',
     ''000000000000000060003514156050578060005260206000f35b3660008037600080366000845af43d6000803e600081'',
     ''14156070573d6000fd5b3d6000f3fea264697066735822122003d1488ee65e08fa41e58e888a9865554c535f2c77126a'',
     ''82cb4c0f917f31441364736f6c63430007060033496e76616c69642073696e676c65746f6e2061646472657373207072'',
     ''6f7669646564'']"

definition PROXY_RUNTIME_SEPARATOR :: string where
  "PROXY_RUNTIME_SEPARATOR = ''6000396000f3fe''"

definition VELA_SPLITTER_FACTORY :: string where
  "VELA_SPLITTER_FACTORY = ''0x4e59b44847b379578588920cA78FbF26c0B4956C''"

definition VELA_SPLITTER_SALT :: string where
  "VELA_SPLITTER_SALT =
     ''650cb20978a0e7efdcf6f077240c609a59f2f02401ed16fb4a222a2b51cb9720''"

definition VELA_SPLITTER_CREATION_CODE :: string where
  "VELA_SPLITTER_CREATION_CODE = concat [
     ''60a060405234801561001057600080fd5b506040516105f13803806105f1833981810160405281019061003291906101'',
     ''35565b600073ffffffffffffffffffffffffffffffffffffffff168173ffffffffffffffffffffffffffffffffffffff'',
     ''ff1603610098576040517fd92e233d000000000000000000000000000000000000000000000000000000008152600401'',
     ''60405180910390fd5b8073ffffffffffffffffffffffffffffffffffffffff1660808173ffffffffffffffffffffffff'',
     ''ffffffffffffffff168152505050610162565b600080fd5b600073ffffffffffffffffffffffffffffffffffffffff82'',
     ''169050919050565b6000610102826100d7565b9050919050565b610112816100f7565b811461011d57600080fd5b5056'',
     ''5b60008151905061012f81610109565b92915050565b60006020828403121561014b5761014a6100d2565b5b60006101'',
     ''5984828501610120565b91505092915050565b60805161045f6101926000396000818161010a01528181610199015281'',
     ''816101fa01526102b5015261045f6000f3fe6080604052600436106100225760003560e01c806361d027b31461028857'',
     ''610283565b36610283576000329050600060023461003b9190610310565b905060008111156100f85760008273ffffff'',
     ''ffffffffffffffffffffffffffffffffff168260405161006c90610372565b60006040518083038185875af192505050'',
     ''3d80600081146100a9576040519150601f19603f3d011682016040523d82523d6000602084013e6100ae565b60609150'',
     ''5b50509050806100f65782826040517f1c43b97600000000000000000000000000000000000000000000000000000000'',
     ''81526004016100ed9291906103d7565b60405180910390fd5b505b600047905060008111156101f85760007f00000000'',
     ''0000000000000000000000000000000000000000000000000000000073ffffffffffffffffffffffffffffffffffffff'',
     ''ff168260405161014c90610372565b60006040518083038185875af1925050503d806000811461018957604051915060'',
     ''1f19603f3d011682016040523d82523d6000602084013e61018e565b606091505b50509050806101f6577f0000000000'',
     ''000000000000000000000000000000000000000000000000000000826040517f1c43b976000000000000000000000000'',
     ''0000000000000000000000000000000081526004016101ed9291906103d7565b60405180910390fd5b505b7f00000000'',
     ''0000000000000000000000000000000000000000000000000000000073ffffffffffffffffffffffffffffffffffffff'',
     ''ff168373ffffffffffffffffffffffffffffffffffffffff167fa4e98e523c3e239a66755f9f6a3d3559544e2da7102a'',
     ''26ec45994c3a29599d4234858560405161027993929190610400565b60405180910390a3005b600080fd5b3480156102'',
     ''9457600080fd5b5061029d6102b3565b6040516102aa9190610437565b60405180910390f35b7f000000000000000000'',
     ''000000000000000000000000000000000000000000000081565b6000819050919050565b7f4e487b7100000000000000'',
     ''000000000000000000000000000000000000000000600052601260045260246000fd5b600061031b826102d7565b9150'',
     ''610326836102d7565b925082610336576103356102e1565b5b828204905092915050565b600081905092915050565b50'',
     ''565b600061035c600083610341565b91506103678261034c565b600082019050919050565b600061037d8261034f565b'',
     ''9150819050919050565b600073ffffffffffffffffffffffffffffffffffffffff82169050919050565b60006103b282'',
     ''610387565b9050919050565b6103c2816103a7565b82525050565b6103d1816102d7565b82525050565b600060408201'',
     ''90506103ec60008301856103b9565b6103f960208301846103c8565b9392505050565b60006060820190506104156000'',
     ''8301866103c8565b61042260208301856103c8565b61042f60408301846103c8565b949350505050565b600060208201'',
     ''905061044c60008301846103b9565b9291505056fea164736f6c634300081c000a'']"

definition MAX_MULTI_KEYS :: nat where
  "MAX_MULTI_KEYS = 7"

definition PROXY_RUNTIME_LEN_BYTES :: nat where
  "PROXY_RUNTIME_LEN_BYTES = 0xab"

definition safe_proxy_runtime_code :: "core_error + string" where
  "safe_proxy_runtime_code =
     (case split_once PROXY_CREATION_CODE PROXY_RUNTIME_SEPARATOR of
        None \<Rightarrow> Inl (Internal ''proxy runtime separator not found'')
      | Some (before, _) \<Rightarrow>
          let start = length before + length PROXY_RUNTIME_SEPARATOR;
              end = start + PROXY_RUNTIME_LEN_BYTES * 2
          in case str_slice PROXY_CREATION_CODE start end of
               None \<Rightarrow> Inl (Internal ''proxy runtime region out of range'')
             | Some runtime \<Rightarrow> Inr (''0x'' @ runtime))"

section \<open>Keys\<close>

definition by_times_y :: string where
  "by_times_y = ''x'' @ [CHR 0xE2, CHR 0x80, CHR 0x96] @ ''y''"

definition parse_public_key :: "string \<Rightarrow> core_error + p256_public_key" where
  "parse_public_key hex =
     (let clean0 = unwrap_or (strip_prefix hex ''0x'') hex;
          clean = unwrap_or (strip_prefix clean0 ''04'') clean0
      in if length clean \<noteq> 128
         then Inl (InvalidPublicKey (''expected 128 hex chars of '' @ by_times_y @ '', got '' @ show_nat (length clean)))
         else case from_hex clean of
             Inl _ \<Rightarrow> Inl (InvalidPublicKey ''not valid hex'')
           | Inr bs \<Rightarrow> Inr \<lparr>pk_x = take 32 bs, pk_y = drop 32 bs\<rparr>)"

definition require_coords :: "bytes \<Rightarrow> bytes \<Rightarrow> core_error + unit" where
  "require_coords x y =
     (if length x \<noteq> 32 \<or> length y \<noteq> 32
      then Inl (InvalidPublicKey (''coordinates must be 32 bytes each, got '' @ show_nat (length x) @ ''/''
                                  @ show_nat (length y)))
      else Inr ())"

section \<open>Set-up calldata\<close>

definition encode_multisend_tx :: "chain_env \<Rightarrow> string \<Rightarrow> bytes \<Rightarrow> u8 \<Rightarrow> core_error + bytes" where
  "encode_multisend_tx E to data operation =
     attempt (parse_address to) (\<lambda>to_addr.
     attempt (uint256 E (show_hex (length data))) (\<lambda>len.
     Inr ([operation] @ to_addr @ zeros 32 @ len @ data)))"

definition compute_webauthn_signer_address :: "chain_env \<Rightarrow> bytes \<Rightarrow> bytes \<Rightarrow> core_error + string" where
  "compute_webauthn_signer_address E x y =
     attempt (require_coords x y) (\<lambda>_.
     attempt (map_sum (\<lambda>_. Internal ''WEBAUTHN_SIGNER_PROXY_CREATION_CODE not hex'') (\<lambda>b. b)
                (from_hex WEBAUTHN_SIGNER_PROXY_CREATION_CODE)) (\<lambda>creation.
     attempt (abi_encode_address WEBAUTHN_SIGNER_SINGLETON) (\<lambda>singleton.
     attempt (abi_encode_bytes32 x) (\<lambda>wx.
     attempt (abi_encode_bytes32 y) (\<lambda>wy.
     attempt (uint256 E WEBAUTHN_VERIFIERS_HEX) (\<lambda>verifiers.
     create2_address (create2 E) (to_checksum E) WEBAUTHN_SIGNER_FACTORY (zeros 32)
       (keccak256 E (creation @ singleton @ wx @ wy @ verifiers))))))))"

definition padding :: "nat \<Rightarrow> bytes" where
  "padding len = zeros ((32 - len mod 32) mod 32)"

definition enable_modules :: "chain_env \<Rightarrow> core_error + bytes" where
  "enable_modules E =
     attempt (selector E ''enableModules(address[])'') (\<lambda>d.
     attempt (uint256 E ''0x20'') (\<lambda>offset.
     attempt (uint256 E ''0x1'') (\<lambda>count.
     attempt (abi_encode_address SAFE_4337_MODULE) (\<lambda>module.
     Inr (d @ offset @ count @ module)))))"

text \<open>The words \<open>x\<close>, \<open>y\<close> and the verifiers behind a selector: \<open>configure\<close> and \<open>createSigner\<close>.\<close>

definition key_call :: "chain_env \<Rightarrow> string \<Rightarrow> bytes \<Rightarrow> bytes \<Rightarrow> core_error + bytes" where
  "key_call E signature x y =
     attempt (selector E signature) (\<lambda>d.
     attempt (abi_encode_bytes32 x) (\<lambda>wx.
     attempt (abi_encode_bytes32 y) (\<lambda>wy.
     attempt (uint256 E WEBAUTHN_VERIFIERS_HEX) (\<lambda>verifiers.
     Inr (d @ wx @ wy @ verifiers)))))"

text \<open>The loop over the further keys: their owners and the legs that deploy their proxies.\<close>

fun extra_signers :: "chain_env \<Rightarrow> p256_public_key list \<Rightarrow> core_error + string list \<times> bytes" where
  "extra_signers E [] = Inr ([], [])"
| "extra_signers E (key # keys) =
     attempt (compute_webauthn_signer_address E (pk_x key) (pk_y key)) (\<lambda>owner.
     attempt (key_call E ''createSigner(uint256,uint256,uint176)'' (pk_x key) (pk_y key)) (\<lambda>create_signer.
     attempt (encode_multisend_tx E WEBAUTHN_SIGNER_FACTORY create_signer 0) (\<lambda>leg.
     attempt (extra_signers E keys) (\<lambda>(owners, legs).
     Inr (owner # owners, leg @ legs)))))"

definition multi_send_data :: "chain_env \<Rightarrow> bytes \<Rightarrow> core_error + bytes" where
  "multi_send_data E packed =
     attempt (selector E ''multiSend(bytes)'') (\<lambda>d.
     attempt (uint256 E ''0x20'') (\<lambda>offset.
     attempt (uint256 E (show_hex (length packed))) (\<lambda>len.
     Inr (d @ offset @ len @ packed @ padding (length packed)))))"

definition ZERO_ADDRESS :: string where
  "ZERO_ADDRESS = ''0x0000000000000000000000000000000000000000''"

definition setup_call :: "chain_env \<Rightarrow> string list \<Rightarrow> bytes \<Rightarrow> core_error + bytes" where
  "setup_call E extra_owners data =
     (let owner_count = 1 + length extra_owners in
     attempt (selector E ''setup(address[],uint256,address,bytes,address,address,uint256,address)'') (\<lambda>d.
     attempt (uint256 E ''0x100'') (\<lambda>owners_offset.
     attempt (uint256 E ''0x1'') (\<lambda>threshold.
     attempt (abi_encode_address MULTI_SEND_ADDRESS) (\<lambda>multi_send.
     attempt (uint256 E (show_hex (0x120 + owner_count * 0x20))) (\<lambda>data_offset.
     attempt (abi_encode_address SAFE_4337_MODULE) (\<lambda>fallback_handler.
     attempt (abi_encode_address ZERO_ADDRESS) (\<lambda>payment_token.
     attempt (uint256 E ''0x0'') (\<lambda>payment.
     attempt (abi_encode_address ZERO_ADDRESS) (\<lambda>payment_receiver.
     attempt (uint256 E (show_hex owner_count)) (\<lambda>count.
     attempt (abi_encode_address WEBAUTHN_SIGNER) (\<lambda>first_owner.
     attempt (collect_results abi_encode_address extra_owners) (\<lambda>owners.
     attempt (uint256 E (show_hex (length data))) (\<lambda>len.
     Inr (d @ owners_offset @ threshold @ multi_send @ data_offset @ fallback_handler @ payment_token
          @ payment @ payment_receiver @ count @ first_owner @ concat owners @ len @ data
          @ padding (length data))))))))))))))))"

definition encode_setup_data ::
  "chain_env \<Rightarrow> bytes \<Rightarrow> bytes \<Rightarrow> p256_public_key list \<Rightarrow> core_error + bytes" where
  "encode_setup_data E x y extra_keys =
     attempt (enable_modules E) (\<lambda>enable.
     attempt (key_call E ''configure((uint256,uint256,uint176))'' x y) (\<lambda>configure.
     attempt (encode_multisend_tx E SAFE_MODULE_SETUP enable 1) (\<lambda>leg1.
     attempt (encode_multisend_tx E WEBAUTHN_SIGNER configure 1) (\<lambda>leg2.
     attempt (extra_signers E extra_keys) (\<lambda>(extra_owners, legs).
     attempt (multi_send_data E (leg1 @ leg2 @ legs)) (\<lambda>data.
     setup_call E extra_owners data))))))"

section \<open>The address\<close>

record safe_address_info =
  sa_address :: string
  sa_salt_nonce :: bytes
  sa_setup_data :: bytes
  sa_init_code_hash :: bytes

definition assemble_safe_address :: "chain_env \<Rightarrow> bytes \<Rightarrow> bytes \<Rightarrow> core_error + safe_address_info" where
  "assemble_safe_address E salt_nonce setup_data =
     attempt (map_sum (\<lambda>_. Internal ''PROXY_CREATION_CODE not hex'') (\<lambda>b. b) (from_hex PROXY_CREATION_CODE))
       (\<lambda>creation.
     attempt (abi_encode_address SAFE_SINGLETON) (\<lambda>singleton.
     let init_code_hash = keccak256 E (creation @ singleton);
         salt = keccak256 E (keccak256 E setup_data @ salt_nonce)
     in attempt (create2_address (create2 E) (to_checksum E) SAFE_PROXY_FACTORY salt init_code_hash) (\<lambda>address.
        Inr \<lparr>sa_address = address, sa_salt_nonce = salt_nonce, sa_setup_data = setup_data,
             sa_init_code_hash = init_code_hash\<rparr>)))"

definition compute_safe_address :: "chain_env \<Rightarrow> bytes \<Rightarrow> bytes \<Rightarrow> core_error + safe_address_info" where
  "compute_safe_address E x y =
     attempt (require_coords x y) (\<lambda>_.
     attempt (abi_encode_bytes32 x) (\<lambda>wx.
     attempt (abi_encode_bytes32 y) (\<lambda>wy.
     attempt (encode_setup_data E x y []) (\<lambda>setup_data.
     assemble_safe_address E (keccak256 E (wx @ wy)) setup_data))))"

text \<open>The order of the keys behind the first: by \<open>x\<close>, then by \<open>y\<close>, as byte strings.\<close>

instantiation p256_public_key_ext :: (linorder) linorder
begin

definition less_eq_p256_public_key_ext ::
  "'a p256_public_key_scheme \<Rightarrow> 'a p256_public_key_scheme \<Rightarrow> bool" where
  "k \<le> l \<longleftrightarrow> (pk_x k, pk_y k, p256_public_key.more k) \<le> (pk_x l, pk_y l, p256_public_key.more l)"

definition less_p256_public_key_ext ::
  "'a p256_public_key_scheme \<Rightarrow> 'a p256_public_key_scheme \<Rightarrow> bool" where
  "k < l \<longleftrightarrow> (pk_x k, pk_y k, p256_public_key.more k) < (pk_x l, pk_y l, p256_public_key.more l)"

instance
proof
  fix k l m :: "'a p256_public_key_scheme"
  show "(k < l) = (k \<le> l \<and> \<not> l \<le> k)"
    unfolding less_eq_p256_public_key_ext_def less_p256_public_key_ext_def by (rule less_le_not_le)
  show "k \<le> k" by (simp add: less_eq_p256_public_key_ext_def)
  show "k \<le> l \<Longrightarrow> l \<le> m \<Longrightarrow> k \<le> m"
    unfolding less_eq_p256_public_key_ext_def by (rule order_trans)
  show "k \<le> l \<Longrightarrow> l \<le> k \<Longrightarrow> k = l"
    unfolding less_eq_p256_public_key_ext_def by (drule antisym, assumption) (simp add: p256_public_key.equality)
  show "k \<le> l \<or> l \<le> k" unfolding less_eq_p256_public_key_ext_def by (rule linear)
qed

end

fun require_all_coords :: "p256_public_key list \<Rightarrow> core_error + unit" where
  "require_all_coords [] = Inr ()"
| "require_all_coords (k # ks) = attempt (require_coords (pk_x k) (pk_y k)) (\<lambda>_. require_all_coords ks)"

definition same_point :: "p256_public_key \<Rightarrow> p256_public_key \<Rightarrow> bool" where
  "same_point a b \<longleftrightarrow> pk_x a = pk_x b \<and> pk_y a = pk_y b"

definition duplicated :: "p256_public_key \<Rightarrow> p256_public_key list \<Rightarrow> bool" where
  "duplicated first rest \<longleftrightarrow>
     list_ex (\<lambda>(a, b). same_point a b) (zip rest (tl rest)) \<or> list_ex (\<lambda>k. same_point k first) rest"

definition key_words :: "p256_public_key \<Rightarrow> core_error + bytes" where
  "key_words key =
     attempt (abi_encode_bytes32 (pk_x key)) (\<lambda>wx. attempt (abi_encode_bytes32 (pk_y key)) (\<lambda>wy. Inr (wx @ wy)))"

definition compute_safe_address_multi :: "chain_env \<Rightarrow> p256_public_key list \<Rightarrow> core_error + safe_address_info" where
  "compute_safe_address_multi E keys =
     (if MAX_MULTI_KEYS < length keys
      then Inl (InvalidPublicKey (''at most '' @ show_nat MAX_MULTI_KEYS @ '' keys per wallet, got ''
                                  @ show_nat (length keys)))
      else case keys of
          [] \<Rightarrow> Inl (InvalidPublicKey ''at least one key required'')
        | first # others \<Rightarrow>
            attempt (require_all_coords keys) (\<lambda>_.
            let rest = sort others in
            if duplicated first rest then Inl (InvalidPublicKey ''duplicate public key in owner set'')
            else attempt (collect_results key_words (first # rest)) (\<lambda>all_xy.
                 attempt (encode_setup_data E (pk_x first) (pk_y first) rest) (\<lambda>setup_data.
                 assemble_safe_address E (keccak256 E (concat all_xy)) setup_data))))"

section \<open>The splitter\<close>

definition splitter_init_code :: "string \<Rightarrow> core_error + bytes" where
  "splitter_init_code treasury =
     attempt (map_sum (\<lambda>_. Internal ''VELA_SPLITTER_CREATION_CODE not hex'') (\<lambda>b. b)
                (from_hex VELA_SPLITTER_CREATION_CODE)) (\<lambda>creation.
     attempt (abi_encode_address treasury) (\<lambda>word. Inr (creation @ word)))"

definition splitter_salt :: "core_error + bytes" where
  "splitter_salt = map_sum (\<lambda>_. Internal ''VELA_SPLITTER_SALT not hex'') (\<lambda>b. b) (from_hex VELA_SPLITTER_SALT)"

definition compute_splitter_address :: "chain_env \<Rightarrow> string \<Rightarrow> core_error + string" where
  "compute_splitter_address E treasury_hex =
     attempt (splitter_init_code treasury_hex) (\<lambda>init_code.
     attempt splitter_salt (\<lambda>salt.
     create2_address (create2 E) (to_checksum E) VELA_SPLITTER_FACTORY salt (keccak256 E init_code)))"

definition encode_splitter_deploy_call :: "string \<Rightarrow> core_error + bytes" where
  "encode_splitter_deploy_call treasury_hex =
     attempt splitter_salt (\<lambda>salt. attempt (splitter_init_code treasury_hex) (\<lambda>init_code. Inr (salt @ init_code)))"

section \<open>What the code relies on\<close>

text \<open>
  Keccak has 32 bytes; the checksum casing of an address reads back as the address; CREATE2 is the
  tail of a hash; the selectors of the signatures the code names are the heads of their hashes (two of
  them fixed by the contracts); the 256-bit parser reads hexadecimal digits.
\<close>

definition SIGNATURES :: "string list" where
  "SIGNATURES =
     [''enableModules(address[])'', ''configure((uint256,uint256,uint176))'',
      ''createSigner(uint256,uint256,uint176)'', ''multiSend(bytes)'',
      ''setup(address[],uint256,address,bytes,address,address,uint256,address)'',
      ''createProxyWithNonce(address,bytes,uint256)'', ''executeUserOp(address,uint256,bytes,uint8)'',
      ''transfer(address,uint256)'']"

definition sel :: "chain_env \<Rightarrow> string \<Rightarrow> bytes" where
  "sel E sig = take 4 (keccak256 E (as_bytes sig))"

definition chain_contract :: "chain_env \<Rightarrow> bool" where
  "chain_contract E \<longleftrightarrow>
     (\<forall>b. length (keccak256 E b) = 32)
     \<and> (\<forall>a. length a = 20 \<longrightarrow> from_hex (to_checksum E a) = Inr a)
     \<and> (\<forall>a s h. length a = 20 \<longrightarrow> length s = 32 \<longrightarrow> length h = 32 \<longrightarrow>
          create2 E a s h = drop 12 (keccak256 E (0xff # a @ s @ h)))
     \<and> (\<forall>sig\<in>set SIGNATURES. parse_selector E sig = Inr (sel E sig))
     \<and> sel E ''multiSend(bytes)'' = [0x8d, 0x80, 0xff, 0x0a]
     \<and> sel E ''transfer(address,uint256)'' = [0xa9, 0x05, 0x9c, 0xbb]
     \<and> (\<forall>s. s \<noteq> [] \<longrightarrow> list_all is_ascii_hexdigit s \<longrightarrow>
          (case from_str_radix 256 16 s of
             Some n \<Rightarrow> u256_parse E s 16 = Inr n
           | None \<Rightarrow> \<exists>e. u256_parse E s 16 = Inl e))"

definition example_keccak :: "bytes \<Rightarrow> bytes" where
  "example_keccak b =
     (if b = as_bytes ''multiSend(bytes)'' then [0x8d, 0x80, 0xff, 0x0a] @ zeros 28
      else if b = as_bytes ''transfer(address,uint256)'' then [0xa9, 0x05, 0x9c, 0xbb] @ zeros 28
      else be_of_nat 32 (nat_of_be b))"

definition example_chain :: chain_env where
  "example_chain = \<lparr>keccak256 = example_keccak, to_checksum = (\<lambda>a. to_hex a True),
     create2 = (\<lambda>a s h. drop 12 (example_keccak (0xff # a @ s @ h))),
     parse_selector = (\<lambda>s. Inr (take 4 (example_keccak (as_bytes s)))),
     u256_parse = (\<lambda>s r. case from_str_radix 256 r s of Some n \<Rightarrow> Inr n | None \<Rightarrow> Inl ''overflow'')\<rparr>"

lemma length_example_keccak [simp]: "length (example_keccak b) = 32"
  by (simp add: example_keccak_def)

lemma as_bytes_eq: "as_bytes s = as_bytes t \<longleftrightarrow> s = t"
  by (metis string_of_as_bytes)

lemma example_chain_contract: "chain_contract example_chain"
  unfolding chain_contract_def
proof (intro conjI allI impI ballI)
  show "length (keccak256 example_chain b) = 32" for b
    by (simp add: example_chain_def)
  show "from_hex (to_checksum example_chain a) = Inr a" for a
    by (simp add: example_chain_def)
  show "create2 example_chain a s h = drop 12 (keccak256 example_chain (0xff # a @ s @ h))" for a s h
    by (simp add: example_chain_def)
  show "parse_selector example_chain sig = Inr (sel example_chain sig)" for sig
    by (simp add: example_chain_def sel_def)
  show "sel example_chain ''multiSend(bytes)'' = [0x8d, 0x80, 0xff, 0x0a]"
    by (simp add: example_chain_def sel_def example_keccak_def)
  show "sel example_chain ''transfer(address,uint256)'' = [0xa9, 0x05, 0x9c, 0xbb]"
    by (simp add: example_chain_def sel_def example_keccak_def as_bytes_eq)
  show "case from_str_radix 256 16 s of Some n \<Rightarrow> u256_parse example_chain s 16 = Inr n
      | None \<Rightarrow> \<exists>e. u256_parse example_chain s 16 = Inl e" for s
    by (cases "from_str_radix 256 16 s") (simp_all add: example_chain_def)
qed

lemma contract_length [simp]: "chain_contract E \<Longrightarrow> length (keccak256 E b) = 32"
  unfolding chain_contract_def by (elim conjE) (erule spec)

lemma contract_checksum: "chain_contract E \<Longrightarrow> length a = 20 \<Longrightarrow> from_hex (to_checksum E a) = Inr a"
  unfolding chain_contract_def by (elim conjE) blast

lemma contract_create2:
  "chain_contract E \<Longrightarrow> length a = 20 \<Longrightarrow> length s = 32 \<Longrightarrow> length h = 32
   \<Longrightarrow> create2 E a s h = drop 12 (keccak256 E (0xff # a @ s @ h))"
  unfolding chain_contract_def by (elim conjE) blast

lemma contract_parse_selector:
  "chain_contract E \<Longrightarrow> sig \<in> set SIGNATURES \<Longrightarrow> parse_selector E sig = Inr (sel E sig)"
  unfolding chain_contract_def by (elim conjE) (erule bspec)

lemma contract_selector: "chain_contract E \<Longrightarrow> sig \<in> set SIGNATURES \<Longrightarrow> selector E sig = Inr (sel E sig)"
  by (simp add: function_selector_def contract_parse_selector)

lemma contract_selectors:
  "chain_contract E \<Longrightarrow> sel E ''multiSend(bytes)'' = [0x8d, 0x80, 0xff, 0x0a]"
  "chain_contract E \<Longrightarrow> sel E ''transfer(address,uint256)'' = [0xa9, 0x05, 0x9c, 0xbb]"
  unfolding chain_contract_def by (elim conjE, assumption)+

lemma length_sel [simp]: "chain_contract E \<Longrightarrow> length (sel E s) = 4"
  by (simp add: sel_def)

lemma contract_u256_cases:
  "chain_contract E \<Longrightarrow> s \<noteq> [] \<Longrightarrow> list_all is_ascii_hexdigit s \<Longrightarrow>
     (case from_str_radix 256 16 s of Some n \<Rightarrow> u256_parse E s 16 = Inr n
      | None \<Rightarrow> \<exists>e. u256_parse E s 16 = Inl e)"
  unfolding chain_contract_def by (elim conjE, erule allE [of _ s], erule impE, assumption, erule impE)

lemma contract_u256:
  "chain_contract E \<Longrightarrow> s \<noteq> [] \<Longrightarrow> list_all is_ascii_hexdigit s \<Longrightarrow> from_str_radix 256 16 s = Some n
   \<Longrightarrow> u256_parse E s 16 = Inr n"
  using contract_u256_cases [of E s] by simp

section \<open>Constants in hexadecimal\<close>

text \<open>A decision by the bits of the characters, for the long literals.\<close>

fun hex_char :: "char \<Rightarrow> bool" where
  "hex_char (Char b0 b1 b2 b3 b4 b5 b6 b7) \<longleftrightarrow>
     \<not> b7 \<and> (if b4 then b5 \<and> \<not> b6 \<and> \<not> (b3 \<and> (b1 \<or> b2))
               else b6 \<and> \<not> b3 \<and> (b0 \<or> b1 \<or> b2) \<and> \<not> (b0 \<and> b1 \<and> b2))"

fun hex_text :: "string \<Rightarrow> bool" where
  "hex_text [] = True"
| "hex_text [_] = False"
| "hex_text (a # b # s) \<longleftrightarrow> hex_char a \<and> hex_char b \<and> hex_text s"

lemma hex_text_append: "hex_text a \<Longrightarrow> hex_text b \<Longrightarrow> hex_text (a @ b)"
  by (induction a rule: hex_text.induct) auto

lemma hex_text_concat: "list_all hex_text ss \<Longrightarrow> hex_text (concat ss)"
  by (induction ss) (auto intro: hex_text_append)

lemma hex_char_digit: "hex_char c \<Longrightarrow> is_ascii_hexdigit c"
proof (cases c)
  case (Char b0 b1 b2 b3 b4 b5 b6 b7)
  assume "hex_char c"
  then show ?thesis unfolding Char
    by (cases b0; cases b1; cases b2; cases b3; cases b4; cases b5; cases b6; cases b7)
      (simp_all add: is_ascii_hexdigit_def is_digit_def to_digit_def)
qed

lemma hex_text_digits: "hex_text s \<Longrightarrow> list_all is_ascii_hexdigit s \<and> even (length s)"
  by (induction s rule: hex_text.induct) (auto intro: hex_char_digit)

lemma hex_digits_accepted: "list_all is_ascii_hexdigit s \<Longrightarrow> even (length s) \<Longrightarrow> accepted_pairs s"
  by (induction s rule: accepted_pairs.induct) auto

lemma hex_pairs_length: "hex_pairs s = Inr bs \<Longrightarrow> length bs = length s div 2"
  by (induction s arbitrary: bs rule: hex_pairs.induct) (auto split: if_splits option.splits sum.splits)

lemma not_hex_x: "is_ascii_hexdigit (CHR ''x'') = False"
  by (simp add: is_ascii_hexdigit_def is_digit_def to_digit_def)

lemma hex_digits_no_0x: "list_all is_ascii_hexdigit s \<Longrightarrow> strip_prefix s ''0x'' = None"
  by (cases s rule: hex_text.cases) (auto simp: strip_prefix_def starts_with_def not_hex_x numeral_2_eq_2)

lemma from_hex_digits:
  assumes "list_all is_ascii_hexdigit s" and "even (length s)"
  shows "\<exists>bs. from_hex s = Inr bs \<and> from_hex (''0x'' @ s) = Inr bs \<and> length bs = length s div 2"
proof -
  obtain bs where "hex_pairs s = Inr bs"
    using hex_pairs_accepts [OF assms(2)] hex_digits_accepted [OF assms] by blast
  with assms show ?thesis
    by (auto simp: from_hex_def hex_digits_no_0x strip_prefix_def [of "CHR ''0'' # CHR ''x'' # s"]
        starts_with_def dest: hex_pairs_length)
qed

definition bytes_of :: "string \<Rightarrow> bytes" where
  "bytes_of s = (case from_hex s of Inl _ \<Rightarrow> [] | Inr bs \<Rightarrow> bs)"

definition ADDRESSES :: "string list" where
  "ADDRESSES = [SAFE_PROXY_FACTORY, SAFE_SINGLETON, SAFE_MODULE_SETUP, WEBAUTHN_SIGNER, MULTI_SEND_ADDRESS,
     WEBAUTHN_SIGNER_FACTORY, WEBAUTHN_SIGNER_SINGLETON, VELA_SPLITTER_FACTORY, SAFE_4337_MODULE,
     ENTRY_POINT, ZERO_ADDRESS]"

definition address_text :: "string \<Rightarrow> bool" where
  "address_text s \<longleftrightarrow> take 2 s = ''0x'' \<and> length s = 42 \<and> hex_text (drop 2 s)"

lemma ADDRESSES_texts: "list_all address_text ADDRESSES"
  by code_simp

lemma address_text_parses:
  assumes "address_text s"
  shows "parse_address s = Inr (bytes_of s) \<and> length (bytes_of s) = 20"
proof -
  have s: "s = ''0x'' @ drop 2 s"
    using assms append_take_drop_id [of 2 s] unfolding address_text_def by metis
  have len: "length (drop 2 s) = 40" using assms by (simp add: address_text_def)
  obtain bs where "from_hex (''0x'' @ drop 2 s) = Inr bs" "length bs = 20"
    using from_hex_digits [of "drop 2 s"] hex_text_digits [of "drop 2 s"] assms len
    by (auto simp: address_text_def)
  then have "from_hex s = Inr bs" "length bs = 20" using s by metis+
  then show ?thesis by (simp add: parse_address_def bytes_of_def)
qed

lemma address_parses:
  "s \<in> set ADDRESSES \<Longrightarrow> parse_address s = Inr (bytes_of s)"
  "s \<in> set ADDRESSES \<Longrightarrow> length (bytes_of s) = 20"
  using ADDRESSES_texts address_text_parses by (simp_all add: list_all_iff)

section \<open>Closed forms\<close>

abbreviation word :: "nat \<Rightarrow> bytes" where
  "word n \<equiv> be_of_nat 32 n"

abbreviation addr_word :: "bytes \<Rightarrow> bytes" where
  "addr_word a \<equiv> zeros 12 @ a"

lemma be_of_nat_0: "be_of_nat k 0 = zeros k"
  by (induction k) (simp_all add: replicate_append_same)

lemma be_of_nat_widen: "n < 256 ^ k \<Longrightarrow> be_of_nat (j + k) n = zeros j @ be_of_nat k n"
proof (induction k arbitrary: n)
  case 0
  then show ?case by (simp add: be_of_nat_0)
next
  case (Suc k)
  have "n div 256 < 256 ^ k" using Suc.prems by (simp add: less_mult_imp_div_less mult.commute)
  with Suc.IH show ?case by simp
qed

lemma word_widen: "n < 2 ^ 32 \<Longrightarrow> word n = zeros 28 @ be_of_nat 4 n"
  using be_of_nat_widen [of n 4 28] by simp

lemma uint256_digits:
  assumes "chain_contract E" and "s \<noteq> []" and "list_all is_ascii_hexdigit s"
    and "from_str_radix 256 16 s = Some n"
  shows "uint256 E s = Inr (word n)" and "uint256 E (''0x'' @ s) = Inr (word n)"
  using assms contract_u256 [OF assms]
  by (simp_all add: abi_encode_uint256_def Let_def hex_digits_no_0x
      strip_prefix_def [of "CHR ''0'' # CHR ''x'' # s"] starts_with_def)

lemma uint256_show_hex:
  assumes "chain_contract E" and "n < 2 ^ 256"
  shows "uint256 E (show_hex n) = Inr (word n)"
proof (rule uint256_digits(1) [OF assms(1)])
  show "list_all is_ascii_hexdigit (show_hex n)"
    using show_hex_digits [of n] by (simp add: list_all_iff is_ascii_hexdigit_def)
  show "from_str_radix 256 16 (show_hex n) = Some n"
    using from_str_radix_show [of 16 n 256] assms(2) by (simp add: show_hex_def)
qed simp

lemma uint256_constants:
  assumes "chain_contract E"
  shows "uint256 E ''0x0'' = Inr (word 0)" and "uint256 E ''0x1'' = Inr (word 1)"
    and "uint256 E ''0x20'' = Inr (word 32)" and "uint256 E ''0x100'' = Inr (word 256)"
    and "uint256 E WEBAUTHN_VERIFIERS_HEX = Inr (word 256)"
  using uint256_digits [OF assms, of "''0''" 0] uint256_digits [OF assms, of "''1''" 1]
    uint256_digits [OF assms, of "''20''" 32] uint256_digits [OF assms, of "''100''" 256]
  by (simp_all add: WEBAUTHN_VERIFIERS_HEX_def is_ascii_hexdigit_def is_digit_def to_digit_def
      from_str_radix_def digits_value_def)

lemma encode_address_constant: "s \<in> set ADDRESSES \<Longrightarrow> abi_encode_address s = Inr (addr_word (bytes_of s))"
  by (simp add: abi_encode_address_def address_parses copy_at_def)

lemma encode_address_checksum:
  assumes "chain_contract E" and "length a = 20"
  shows "abi_encode_address (to_checksum E a) = Inr (addr_word a)"
    and "parse_address (to_checksum E a) = Inr a"
  using contract_checksum [OF assms] assms(2)
  by (simp_all add: abi_encode_address_def parse_address_def copy_at_def)

lemma encode_bytes32: "length b = 32 \<Longrightarrow> abi_encode_bytes32 b = Inr b"
  by (simp add: abi_encode_bytes32_def copy_at_def)

lemma ADDRESSES_in:
  "SAFE_PROXY_FACTORY \<in> set ADDRESSES" "SAFE_SINGLETON \<in> set ADDRESSES" "SAFE_MODULE_SETUP \<in> set ADDRESSES"
  "WEBAUTHN_SIGNER \<in> set ADDRESSES" "MULTI_SEND_ADDRESS \<in> set ADDRESSES" "WEBAUTHN_SIGNER_FACTORY \<in> set ADDRESSES"
  "WEBAUTHN_SIGNER_SINGLETON \<in> set ADDRESSES" "VELA_SPLITTER_FACTORY \<in> set ADDRESSES"
  "SAFE_4337_MODULE \<in> set ADDRESSES" "ENTRY_POINT \<in> set ADDRESSES" "ZERO_ADDRESS \<in> set ADDRESSES"
  by (simp_all add: ADDRESSES_def)

lemmas address_forms = address_parses(1) encode_address_constant ADDRESSES_in
lemmas address_lengths = ADDRESSES_in [THEN address_parses(2)]

lemma create2_address_ok:
  assumes "chain_contract E" and "d \<in> set ADDRESSES" and "length s = 32" and "length h = 32"
  shows "create2_address (create2 E) (to_checksum E) d s h
    = Inr (to_checksum E (drop 12 (keccak256 E (0xff # bytes_of d @ s @ h))))"
  using assms by (simp add: create2_address_def address_parses contract_create2)

lemma codes_are_hex:
  "from_hex WEBAUTHN_SIGNER_PROXY_CREATION_CODE = Inr (bytes_of WEBAUTHN_SIGNER_PROXY_CREATION_CODE)"
  "from_hex PROXY_CREATION_CODE = Inr (bytes_of PROXY_CREATION_CODE)"
  "from_hex VELA_SPLITTER_CREATION_CODE = Inr (bytes_of VELA_SPLITTER_CREATION_CODE)"
  "from_hex VELA_SPLITTER_SALT = Inr (bytes_of VELA_SPLITTER_SALT)"
  "length (bytes_of VELA_SPLITTER_SALT) = 32"
proof -
  have read: "from_hex s = Inr (bytes_of s) \<and> length (bytes_of s) = length s div 2" if "hex_text s" for s
    using from_hex_digits [of s] hex_text_digits [OF that] by (auto simp: bytes_of_def)
  have "hex_text WEBAUTHN_SIGNER_PROXY_CREATION_CODE"
    unfolding WEBAUTHN_SIGNER_PROXY_CREATION_CODE_def by (rule hex_text_concat) code_simp
  then show "from_hex WEBAUTHN_SIGNER_PROXY_CREATION_CODE = Inr (bytes_of WEBAUTHN_SIGNER_PROXY_CREATION_CODE)"
    by (simp add: read)
  have "hex_text PROXY_CREATION_CODE"
    unfolding PROXY_CREATION_CODE_def by (rule hex_text_concat) code_simp
  then show "from_hex PROXY_CREATION_CODE = Inr (bytes_of PROXY_CREATION_CODE)" by (simp add: read)
  have "hex_text VELA_SPLITTER_CREATION_CODE"
    unfolding VELA_SPLITTER_CREATION_CODE_def by (rule hex_text_concat) code_simp
  then show "from_hex VELA_SPLITTER_CREATION_CODE = Inr (bytes_of VELA_SPLITTER_CREATION_CODE)" by (simp add: read)
  have salt: "hex_text VELA_SPLITTER_SALT" unfolding VELA_SPLITTER_SALT_def by code_simp
  then show "from_hex VELA_SPLITTER_SALT = Inr (bytes_of VELA_SPLITTER_SALT)" by (simp add: read)
  show "length (bytes_of VELA_SPLITTER_SALT) = 32"
    using read [OF salt] by (simp add: VELA_SPLITTER_SALT_def)
qed

section \<open>What the set-up is\<close>

text \<open>The reference: the signer contract of a key, the legs of the set-up and its arguments.\<close>

definition sized :: "p256_public_key \<Rightarrow> bool" where
  "sized k \<longleftrightarrow> length (pk_x k) = 32 \<and> length (pk_y k) = 32"

definition signer_bytes :: "chain_env \<Rightarrow> p256_public_key \<Rightarrow> bytes" where
  "signer_bytes E k = drop 12 (keccak256 E (0xff # bytes_of WEBAUTHN_SIGNER_FACTORY @ zeros 32
     @ keccak256 E (bytes_of WEBAUTHN_SIGNER_PROXY_CREATION_CODE @ addr_word (bytes_of WEBAUTHN_SIGNER_SINGLETON)
         @ pk_x k @ pk_y k @ word 256)))"

definition key_calldata :: "chain_env \<Rightarrow> string \<Rightarrow> p256_public_key \<Rightarrow> bytes" where
  "key_calldata E signature k = sel E signature @ pk_x k @ pk_y k @ word 256"

definition call_leg :: "u8 \<Rightarrow> bytes \<Rightarrow> bytes \<Rightarrow> packed_leg" where
  "call_leg operation to data = \<lparr>pl_operation = operation, pl_to = to, pl_value = zeros 32, pl_data = data\<rparr>"

definition enable_leg :: "chain_env \<Rightarrow> packed_leg" where
  "enable_leg E = call_leg 1 (bytes_of SAFE_MODULE_SETUP)
     (sel E ''enableModules(address[])'' @ word 32 @ word 1 @ addr_word (bytes_of SAFE_4337_MODULE))"

definition configure_leg :: "chain_env \<Rightarrow> p256_public_key \<Rightarrow> packed_leg" where
  "configure_leg E k = call_leg 1 (bytes_of WEBAUTHN_SIGNER) (key_calldata E ''configure((uint256,uint256,uint176))'' k)"

definition create_leg :: "chain_env \<Rightarrow> p256_public_key \<Rightarrow> packed_leg" where
  "create_leg E k = call_leg 0 (bytes_of WEBAUTHN_SIGNER_FACTORY)
     (key_calldata E ''createSigner(uint256,uint256,uint176)'' k)"

definition setup_legs :: "chain_env \<Rightarrow> p256_public_key \<Rightarrow> p256_public_key list \<Rightarrow> packed_leg list" where
  "setup_legs E first rest = enable_leg E # configure_leg E first # map (create_leg E) rest"

definition owners_of :: "chain_env \<Rightarrow> p256_public_key list \<Rightarrow> bytes list" where
  "owners_of E rest = bytes_of WEBAUTHN_SIGNER # map (signer_bytes E) rest"

definition legs_data :: "packed_leg list \<Rightarrow> bytes" where
  "legs_data legs = pack_multi_send legs @ padding (length (concat (map pack_leg legs)))"

definition setup_bytes :: "chain_env \<Rightarrow> bytes list \<Rightarrow> bytes \<Rightarrow> bytes" where
  "setup_bytes E owners data =
     sel E ''setup(address[],uint256,address,bytes,address,address,uint256,address)''
     @ word 256 @ word 1 @ addr_word (bytes_of MULTI_SEND_ADDRESS) @ word (288 + length owners * 32)
     @ addr_word (bytes_of SAFE_4337_MODULE) @ addr_word (bytes_of ZERO_ADDRESS) @ word 0
     @ addr_word (bytes_of ZERO_ADDRESS) @ word (length owners) @ concat (map addr_word owners)
     @ word (length data) @ data @ padding (length data)"

lemma length_signer_bytes [simp]: "chain_contract E \<Longrightarrow> length (signer_bytes E k) = 20"
  by (simp add: signer_bytes_def)

lemma signer_address_ok:
  assumes "chain_contract E" and "sized k"
  shows "compute_webauthn_signer_address E (pk_x k) (pk_y k) = Inr (to_checksum E (signer_bytes E k))"
  using assms
  by (simp add: compute_webauthn_signer_address_def require_coords_def sized_def codes_are_hex encode_bytes32
      uint256_constants address_forms create2_address_ok signer_bytes_def)

lemma key_call_ok:
  assumes "chain_contract E" and "sized k" and "sig \<in> set SIGNATURES"
  shows "key_call E sig (pk_x k) (pk_y k) = Inr (key_calldata E sig k)"
  using assms
  by (simp add: key_call_def sized_def encode_bytes32 contract_selector uint256_constants key_calldata_def)

lemma length_key_calldata: "chain_contract E \<Longrightarrow> sized k \<Longrightarrow> length (key_calldata E sig k) = 100"
  by (simp add: key_calldata_def sized_def)

lemma signatures_in:
  "''enableModules(address[])'' \<in> set SIGNATURES" "''configure((uint256,uint256,uint176))'' \<in> set SIGNATURES"
  "''createSigner(uint256,uint256,uint176)'' \<in> set SIGNATURES" "''multiSend(bytes)'' \<in> set SIGNATURES"
  "''setup(address[],uint256,address,bytes,address,address,uint256,address)'' \<in> set SIGNATURES"
  "''createProxyWithNonce(address,bytes,uint256)'' \<in> set SIGNATURES"
  "''executeUserOp(address,uint256,bytes,uint8)'' \<in> set SIGNATURES" "''transfer(address,uint256)'' \<in> set SIGNATURES"
  by (simp_all add: SIGNATURES_def)

lemmas selector_forms = signatures_in [THEN contract_selector [rotated]]

lemma multisend_tx_ok:
  assumes "chain_contract E" and "to \<in> set ADDRESSES" and "length data < 2 ^ 32"
  shows "encode_multisend_tx E to data operation = Inr (pack_leg (call_leg operation (bytes_of to) data))"
  using assms
  by (simp add: encode_multisend_tx_def address_parses uint256_show_hex pack_leg_def call_leg_def word_widen)

lemma extra_signers_ok:
  assumes "chain_contract E" and "list_all sized ks"
  shows "extra_signers E ks
    = Inr (map (\<lambda>k. to_checksum E (signer_bytes E k)) ks, concat (map (\<lambda>k. pack_leg (create_leg E k)) ks))"
  using assms(2)
proof (induction ks)
  case (Cons k ks)
  then have "length (key_calldata E ''createSigner(uint256,uint256,uint176)'' k) < 2 ^ 32"
    using length_key_calldata [OF assms(1)] by simp
  with Cons assms(1) show ?case
    by (simp add: signer_address_ok key_call_ok signatures_in multisend_tx_ok ADDRESSES_in create_leg_def)
qed simp

lemma multi_send_data_ok:
  assumes "chain_contract E" and "length (concat (map pack_leg legs)) < 2 ^ 32"
  shows "multi_send_data E (concat (map pack_leg legs)) = Inr (legs_data legs)"
proof -
  have "word 32 = zeros 31 @ [0x20]" using be_of_nat_widen [of 32 1 31] by simp
  with assms show ?thesis
    by (simp add: multi_send_data_def selector_forms contract_selectors uint256_constants uint256_show_hex
        legs_data_def pack_multi_send_def Let_def word_widen)
qed

lemma collect_addresses:
  "chain_contract E \<Longrightarrow> \<forall>a\<in>set as. length a = 20 \<Longrightarrow>
   collect_results abi_encode_address (map (to_checksum E) as) = Inr (map addr_word as)"
  by (induction as) (simp_all add: encode_address_checksum)

lemma setup_call_ok:
  assumes "chain_contract E" and "\<forall>a\<in>set as. length a = 20" and "length as < 2 ^ 32" and "length data < 2 ^ 32"
  shows "setup_call E (map (to_checksum E) as) data = Inr (setup_bytes E (bytes_of WEBAUTHN_SIGNER # as) data)"
proof -
  have "0x120 + (1 + length as) * 0x20 < 2 ^ 256" and "1 + length as < 2 ^ 256" and "length data < 2 ^ 256"
    using assms(3,4) by simp_all
  note numbers = this [THEN uint256_show_hex [OF assms(1)]]
  show ?thesis
    unfolding setup_call_def Let_def length_map numbers
    using assms
    by (simp add: selector_forms uint256_constants address_forms collect_addresses setup_bytes_def)
qed

lemma length_pack_leg: "well_formed_leg l \<Longrightarrow> length (pack_leg l) = 85 + length (pl_data l)"
  by (simp add: pack_leg_def well_formed_leg_def)

lemma setup_legs_sized:
  assumes "chain_contract E" and "sized first" and "list_all sized rest"
  shows "\<forall>l\<in>set (setup_legs E first rest). well_formed_leg l \<and> length (pl_data l) = 100"
  using assms
  by (auto simp: setup_legs_def enable_leg_def configure_leg_def create_leg_def call_leg_def well_formed_leg_def
      address_lengths length_key_calldata list_all_iff)

lemma length_packed_legs:
  "\<forall>l\<in>set legs. well_formed_leg l \<and> length (pl_data l) = 100 \<Longrightarrow>
   length (concat (map pack_leg legs)) = 185 * length legs"
  by (induction legs) (simp_all add: length_pack_leg)

lemma length_padding: "length (padding n) < 32"
  by (simp add: padding_def)

lemma length_legs_data:
  assumes "length (concat (map pack_leg legs)) = n"
  shows "length (legs_data legs) < n + 100" and "length (pack_multi_send legs) = 68 + n"
  using assms length_padding [of n] by (simp_all add: legs_data_def pack_multi_send_def Let_def)

lemma encode_setup_ok:
  assumes "chain_contract E" and "sized first" and "list_all sized rest" and "length rest \<le> 6"
  shows "encode_setup_data E (pk_x first) (pk_y first) rest
    = Inr (setup_bytes E (owners_of E rest) (legs_data (setup_legs E first rest)))"
proof -
  let ?legs = "setup_legs E first rest"
  have packed: "length (concat (map pack_leg ?legs)) = 185 * length ?legs"
    by (rule length_packed_legs [OF setup_legs_sized [OF assms(1-3)]])
  then have small: "length (concat (map pack_leg ?legs)) < 2 ^ 32" "length (legs_data ?legs) < 2 ^ 32"
    using length_legs_data(1) [OF packed] assms(4) by (simp_all add: setup_legs_def)
  have "enable_modules E = Inr (pl_data (enable_leg E))"
    using assms(1) by (simp add: enable_modules_def selector_forms uint256_constants address_forms
        enable_leg_def call_leg_def)
  moreover have "encode_multisend_tx E SAFE_MODULE_SETUP (pl_data (enable_leg E)) 1 = Inr (pack_leg (enable_leg E))"
    using assms(1) by (simp add: multisend_tx_ok ADDRESSES_in enable_leg_def call_leg_def address_lengths)
  moreover have "key_call E ''configure((uint256,uint256,uint176))'' (pk_x first) (pk_y first)
      = Inr (pl_data (configure_leg E first))"
    using assms by (simp add: key_call_ok signatures_in configure_leg_def call_leg_def)
  moreover have "encode_multisend_tx E WEBAUTHN_SIGNER (pl_data (configure_leg E first)) 1
      = Inr (pack_leg (configure_leg E first))"
    using assms by (simp add: multisend_tx_ok ADDRESSES_in configure_leg_def call_leg_def length_key_calldata)
  moreover have "multi_send_data E (pack_leg (enable_leg E) @ pack_leg (configure_leg E first)
      @ concat (map (\<lambda>k. pack_leg (create_leg E k)) rest)) = Inr (legs_data ?legs)"
    using multi_send_data_ok [OF assms(1) small(1)] by (simp add: setup_legs_def comp_def)
  moreover have "setup_call E (map (\<lambda>k. to_checksum E (signer_bytes E k)) rest) (legs_data ?legs)
      = Inr (setup_bytes E (owners_of E rest) (legs_data ?legs))"
    using setup_call_ok [OF assms(1) _ _ small(2), of "map (signer_bytes E) rest"] assms(1,4)
    by (simp add: owners_of_def comp_def)
  ultimately show ?thesis
    using assms by (simp add: encode_setup_data_def extra_signers_ok)
qed

section \<open>Reading calldata\<close>

text \<open>The words, addresses and byte strings a contract reads at an offset of its arguments.\<close>

definition word_at :: "bytes \<Rightarrow> nat \<Rightarrow> nat" where
  "word_at args i = nat_of_be (subslice i (i + 32) args)"

definition address_at :: "bytes \<Rightarrow> nat \<Rightarrow> bytes" where
  "address_at args i = subslice (i + 12) (i + 32) args"

definition bytes_at :: "bytes \<Rightarrow> nat \<Rightarrow> bytes" where
  "bytes_at args i = subslice (i + 32) (i + 32 + word_at args i) args"

lemma subslice_skip: "length a \<le> i \<Longrightarrow> subslice i j (a @ b) = subslice (i - length a) (j - length a) b"
  by (simp add: subslice_def)

lemma word_at_skip: "length a \<le> i \<Longrightarrow> word_at (a @ b) i = word_at b (i - length a)"
  by (simp add: word_at_def subslice_skip)

lemma address_at_skip: "length a \<le> i \<Longrightarrow> address_at (a @ b) i = address_at b (i - length a)"
  by (simp add: address_at_def subslice_skip)

lemma bytes_at_skip: "length a \<le> i \<Longrightarrow> bytes_at (a @ b) i = bytes_at b (i - length a)"
  by (simp add: bytes_at_def word_at_skip subslice_skip)

lemma word_at_word: "word_at (word n @ b) 0 = n mod 2 ^ 256"
  by (simp add: word_at_def subslice_def nat_of_be_be_of_nat)

lemma address_at_word: "length a = 20 \<Longrightarrow> address_at (zeros 12 @ a @ b) 0 = a"
  by (simp add: address_at_def subslice_def)

lemma bytes_at_bytes: "length d < 2 ^ 256 \<Longrightarrow> bytes_at (word (length d) @ d @ b) 0 = d"
  by (simp add: bytes_at_def word_at_word) (simp add: subslice_def)

lemmas read_at = word_at_skip address_at_skip bytes_at_skip word_at_word address_at_word bytes_at_bytes

lemma length_concat_addr_words:
  "\<forall>a\<in>set as. length a = 20 \<Longrightarrow> length (concat (map addr_word as)) = 32 * length as"
  by (induction as) simp_all

lemma address_at_nth:
  "\<forall>a\<in>set as. length a = 20 \<Longrightarrow> j < length as \<Longrightarrow> address_at (concat (map addr_word as) @ r) (32 * j) = as ! j"
proof (induction as arbitrary: j)
  case (Cons a as)
  have word: "length (addr_word a) = 32" using Cons.prems by simp
  show ?case
  proof (cases j)
    case 0
    with Cons.prems show ?thesis using address_at_word [of a "concat (map addr_word as) @ r"] by simp
  next
    case (Suc i)
    have "address_at (addr_word a @ concat (map addr_word as) @ r) (32 * j)
        = address_at (concat (map addr_word as) @ r) (32 * i)"
      using word Suc by (subst address_at_skip) simp_all
    with Cons Suc show ?thesis by simp
  qed
qed simp

record setup_args =
  su_owners :: "bytes list"
  su_threshold :: nat
  su_to :: bytes
  su_data :: bytes
  su_fallback_handler :: bytes
  su_payment_token :: bytes
  su_payment :: nat
  su_payment_receiver :: bytes

definition read_setup :: "bytes \<Rightarrow> setup_args" where
  "read_setup calldata =
     (let args = drop 4 calldata; owners = word_at args 0
      in \<lparr>su_owners = map (\<lambda>j. address_at args (owners + 32 + 32 * j)) [0..<word_at args owners],
          su_threshold = word_at args 32, su_to = address_at args 64, su_data = bytes_at args (word_at args 96),
          su_fallback_handler = address_at args 128, su_payment_token = address_at args 160,
          su_payment = word_at args 192, su_payment_receiver = address_at args 224\<rparr>)"

lemma read_setup_bytes:
  assumes "chain_contract E" and "\<forall>a\<in>set as. length a = 20" and "length as < 2 ^ 32" and "length data < 2 ^ 32"
  shows "read_setup (setup_bytes E as data) =
    \<lparr>su_owners = as, su_threshold = 1, su_to = bytes_of MULTI_SEND_ADDRESS, su_data = data,
     su_fallback_handler = bytes_of SAFE_4337_MODULE, su_payment_token = bytes_of ZERO_ADDRESS,
     su_payment = 0, su_payment_receiver = bytes_of ZERO_ADDRESS\<rparr>"
proof -
  define tail where "tail = word (length data) @ data @ padding (length data)"
  define heads where "heads = word 256 @ word 1 @ addr_word (bytes_of MULTI_SEND_ADDRESS)
     @ word (288 + length as * 32) @ addr_word (bytes_of SAFE_4337_MODULE) @ addr_word (bytes_of ZERO_ADDRESS)
     @ word 0 @ addr_word (bytes_of ZERO_ADDRESS)"
  define args where "args = heads @ word (length as) @ concat (map addr_word as) @ tail"
  have heads: "length heads = 256" by (simp add: heads_def address_lengths)
  have front: "drop 4 (setup_bytes E as data) = args"
    using assms(1) by (simp add: setup_bytes_def args_def heads_def tail_def)
  have addrs: "length (concat (map addr_word as)) = 32 * length as"
    by (rule length_concat_addr_words [OF assms(2)])
  have fixed: "word_at args 0 = 256" "word_at args 32 = 1" "address_at args 64 = bytes_of MULTI_SEND_ADDRESS"
    "word_at args 96 = 288 + length as * 32" "address_at args 128 = bytes_of SAFE_4337_MODULE"
    "address_at args 160 = bytes_of ZERO_ADDRESS" "word_at args 192 = 0" "address_at args 224 = bytes_of ZERO_ADDRESS"
    using assms(3) unfolding args_def heads_def append_assoc by (simp_all add: read_at address_lengths)
  have count: "word_at args 256 = length as"
    using assms(3) heads unfolding args_def by (simp add: read_at)
  have owner: "address_at args (288 + 32 * j) = as ! j" if "j < length as" for j
    using heads address_at_nth [OF assms(2) that, of tail] unfolding args_def by (simp add: read_at)
  have data: "bytes_at args (288 + length as * 32) = data"
  proof -
    have "bytes_at args (288 + length as * 32) = bytes_at tail 0"
      using heads addrs unfolding args_def by (simp add: bytes_at_skip)
    also have "\<dots> = data" using assms(4) unfolding tail_def by (intro bytes_at_bytes) simp
    finally show ?thesis .
  qed
  have "map (\<lambda>j. address_at args (256 + 32 + 32 * j)) [0..<length as] = as"
    by (rule nth_equalityI) (simp_all add: owner)
  then show ?thesis unfolding read_setup_def front Let_def fixed count data by simp
qed

section \<open>Which founding sets have an address\<close>

text \<open>The address the proxy factory gives to an initializer and a nonce.\<close>

definition deployed_proxy :: "chain_env \<Rightarrow> bytes \<Rightarrow> bytes \<Rightarrow> bytes" where
  "deployed_proxy E initializer salt_nonce =
     drop 12 (keccak256 E (0xff # bytes_of SAFE_PROXY_FACTORY @ keccak256 E (keccak256 E initializer @ salt_nonce)
        @ keccak256 E (bytes_of PROXY_CREATION_CODE @ addr_word (bytes_of SAFE_SINGLETON))))"

definition coordinates :: "p256_public_key \<Rightarrow> bytes" where
  "coordinates k = pk_x k @ pk_y k"

definition founding_info :: "chain_env \<Rightarrow> p256_public_key \<Rightarrow> p256_public_key list \<Rightarrow> safe_address_info" where
  "founding_info E first rest =
     (let salt = keccak256 E (concat (map coordinates (first # rest)));
          setup = setup_bytes E (owners_of E rest) (legs_data (setup_legs E first rest))
      in \<lparr>sa_address = to_checksum E (deployed_proxy E setup salt), sa_salt_nonce = salt, sa_setup_data = setup,
          sa_init_code_hash = keccak256 E (bytes_of PROXY_CREATION_CODE @ addr_word (bytes_of SAFE_SINGLETON))\<rparr>)"

lemma assemble_ok:
  assumes "chain_contract E"
  shows "assemble_safe_address E salt setup = Inr \<lparr>sa_address = to_checksum E (deployed_proxy E setup salt),
    sa_salt_nonce = salt, sa_setup_data = setup,
    sa_init_code_hash = keccak256 E (bytes_of PROXY_CREATION_CODE @ addr_word (bytes_of SAFE_SINGLETON))\<rparr>"
  using assms by (simp add: assemble_safe_address_def codes_are_hex address_forms create2_address_ok
      deployed_proxy_def Let_def)

lemma same_point_eq [simp]: "same_point a b \<longleftrightarrow> a = b"
  by (auto simp: same_point_def intro: p256_public_key.equality)

lemma adjacent_duplicates:
  "sorted xs \<Longrightarrow> list_ex (\<lambda>(a, b). same_point a b) (zip xs (tl xs)) \<longleftrightarrow> \<not> distinct xs"
proof (induction xs rule: induct_list012)
  case (3 x y zs)
  have "x \<in> set zs \<Longrightarrow> x = y" using 3(3) by (auto intro: antisym)
  with 3 show ?case by auto
qed simp_all

lemma duplicated_iff: "duplicated first (sort others) \<longleftrightarrow> \<not> distinct (first # others)"
  using adjacent_duplicates [of "sort others"] by (auto simp: duplicated_def list_ex_iff)

lemma require_all_coords_iff: "require_all_coords ks = Inr () \<longleftrightarrow> list_all sized ks"
proof (induction ks)
  case (Cons k ks)
  then show ?case by (cases "sized k") (auto simp: require_coords_def sized_def)
qed simp

lemma key_words_ok: "list_all sized ks \<Longrightarrow> collect_results key_words ks = Inr (map coordinates ks)"
  by (induction ks) (simp_all add: key_words_def encode_bytes32 sized_def coordinates_def)

lemma list_all_sort: "list_all P (sort xs) \<longleftrightarrow> list_all P xs"
  by (simp add: list_all_iff)

lemma multi_ok:
  assumes "chain_contract E" and "length others \<le> 6" and "list_all sized (first # others)"
    and "distinct (first # others)"
  shows "compute_safe_address_multi E (first # others) = Inr (founding_info E first (sort others))"
proof -
  have rest: "list_all sized (sort others)" "sized first" "length (sort others) \<le> 6"
    using assms by (simp_all add: list_all_sort)
  have coords: "require_all_coords (first # others) = Inr ()" using assms(3) require_all_coords_iff by blast
  have words: "collect_results key_words (first # sort others) = Inr (map coordinates (first # sort others))"
    using rest by (intro key_words_ok) simp
  have "\<not> MAX_MULTI_KEYS < length (first # others)" using assms(2) by (simp add: MAX_MULTI_KEYS_def)
  then show ?thesis
    unfolding compute_safe_address_multi_def list.case coords attempt.simps Let_def words
      encode_setup_ok [OF assms(1) rest(2,1,3)] assemble_ok [OF assms(1)]
    using assms(4) by (simp add: duplicated_iff founding_info_def Let_def)
qed

lemma multi_error:
  assumes "\<not> (keys \<noteq> [] \<and> length keys \<le> 7 \<and> list_all sized keys \<and> distinct keys)"
  shows "\<exists>e. compute_safe_address_multi E keys = Inl (InvalidPublicKey e)"
proof (cases keys)
  case Nil
  then show ?thesis by (simp add: compute_safe_address_multi_def MAX_MULTI_KEYS_def)
next
  case (Cons first others)
  show ?thesis
  proof (cases "7 < length keys")
    case False
    have bad: "\<exists>e. require_all_coords ks = Inl (InvalidPublicKey e)" if "\<not> list_all sized ks" for ks
      using that by (induction ks) (auto simp: require_coords_def sized_def)
    note unfolded = compute_safe_address_multi_def Cons list.case MAX_MULTI_KEYS_def if_not_P [OF False [unfolded Cons]]
    show ?thesis
    proof (cases "list_all sized keys")
      case True
      with assms False Cons have "\<not> distinct (first # others)" by auto
      moreover have "require_all_coords (first # others) = Inr ()" using True Cons require_all_coords_iff by blast
      ultimately show ?thesis unfolding unfolded by (simp add: duplicated_iff del: require_all_coords.simps)
    next
      case not_sized: False
      then obtain e where "require_all_coords (first # others) = Inl (InvalidPublicKey e)" using bad Cons by blast
      then show ?thesis unfolding unfolded by (simp del: require_all_coords.simps)
    qed
  qed (simp add: compute_safe_address_multi_def MAX_MULTI_KEYS_def)
qed

lemma founding_cases:
  assumes "chain_contract E" and "compute_safe_address_multi E keys = Inr info"
  obtains first others where "keys = first # others" "length others \<le> 6" "list_all sized keys" "distinct keys"
    "info = founding_info E first (sort others)"
proof -
  have valid: "keys \<noteq> [] \<and> length keys \<le> 7 \<and> list_all sized keys \<and> distinct keys"
    using multi_error [of keys E] assms(2) by (metis sum.distinct(1))
  then obtain first others where keys: "keys = first # others" by (cases keys) auto
  with valid have "length others \<le> 6" by simp
  from that [OF keys this] valid multi_ok [OF assms(1) this] assms(2) keys show ?thesis by auto
qed

lemma setup_legs_read:
  assumes "chain_contract E" and "list_all sized (first # rest)" and "length rest \<le> 6" and "33 \<le> w"
  shows "decode_multi_send w (to_hex (legs_data (setup_legs E first rest)) True)
    = Some (map leg_call (setup_legs E first rest))"
  unfolding legs_data_def
proof (rule decode_multi_send_pack [OF _ _ assms(4)])
  have legs: "\<forall>l\<in>set (setup_legs E first rest). well_formed_leg l \<and> length (pl_data l) = 100"
    using assms(2) by (intro setup_legs_sized [OF assms(1)]) simp_all
  then show "\<forall>l\<in>set (setup_legs E first rest). well_formed_leg l" by blast
  have "length (pack_multi_send (setup_legs E first rest)) = 68 + 185 * length (setup_legs E first rest)"
    by (rule length_legs_data(2) [OF length_packed_legs [OF legs]])
  moreover have "length (setup_legs E first rest) \<le> 8" using assms(3) by (simp add: setup_legs_def)
  moreover note length_padding [of "length (concat (map pack_leg (setup_legs E first rest)))"]
  moreover have "(68 + 185 * 8 + 32 :: nat) < 2 ^ 32" by simp
  ultimately show "length (pack_multi_send (setup_legs E first rest))
      + length (padding (length (concat (map pack_leg (setup_legs E first rest))))) < 2 ^ 32"
    by linarith
qed

lemma multi_single: "compute_safe_address_multi E [k] = compute_safe_address E (pk_x k) (pk_y k)"
proof -
  have "require_all_coords [k] = require_coords (pk_x k) (pk_y k)"
    by (cases "require_coords (pk_x k) (pk_y k)") simp_all
  then show ?thesis
    by (cases "require_coords (pk_x k) (pk_y k)"; cases "abi_encode_bytes32 (pk_x k)"; cases "abi_encode_bytes32 (pk_y k)")
      (simp_all add: compute_safe_address_multi_def compute_safe_address_def MAX_MULTI_KEYS_def duplicated_def
        key_words_def Let_def)
qed

text \<open>
  A key without the SEC1 tag is refused when its first byte happens to be 4: the byte is taken for the tag.
\<close>

lemma untagged_key_refused:
  assumes "length bs = 63"
  shows "\<exists>e. parse_public_key (to_hex (4 # bs) False) = Inl (InvalidPublicKey e)"
proof -
  have hex: "to_hex (4 # bs) False = ''04'' @ concat (map byte_hex bs)"
  proof -
    have "byte_hex 4 = ''04''" by code_simp
    then show ?thesis by (simp add: to_hex_def)
  qed
  then show ?thesis
    using assms by (simp add: parse_public_key_def strip_prefix_def starts_with_def Let_def)
qed

section \<open>Properties\<close>

text \<open>
  One key, and the order of the others. A founding set of one key has exactly the address (and set-up,
  salt and init-code hash, or the same error) of the single-key path that existing accounts use, with no
  assumption on the crates; and where all coordinates are 32 bytes, the order in which the keys behind
  the first are listed changes nothing.
\<close>

theorem founding_identity:
  "compute_safe_address_multi E [k] = compute_safe_address E (pk_x k) (pk_y k)
   \<and> (list_all sized (k # ks) \<longrightarrow> mset ks' = mset ks \<longrightarrow>
        compute_safe_address_multi E (k # ks') = compute_safe_address_multi E (k # ks))"
proof
  show "compute_safe_address_multi E [k] = compute_safe_address E (pk_x k) (pk_y k)" by (rule multi_single)
  show "list_all sized (k # ks) \<longrightarrow> mset ks' = mset ks \<longrightarrow>
      compute_safe_address_multi E (k # ks') = compute_safe_address_multi E (k # ks)"
  proof (intro impI)
    assume sized: "list_all sized (k # ks)" and same: "mset ks' = mset ks"
    have len: "length ks' = length ks" and set: "set ks' = set ks"
      using same by (rule mset_eq_length, rule mset_eq_setD)
    have sort: "sort ks' = sort ks" using same by (metis properties_for_sort mset_sort sorted_sort)
    have "require_all_coords (k # ks) = Inr ()" "require_all_coords (k # ks') = Inr ()"
      using sized set unfolding require_all_coords_iff by (simp_all add: list_all_iff)
    then show "compute_safe_address_multi E (k # ks') = compute_safe_address_multi E (k # ks)"
      unfolding compute_safe_address_multi_def list.case sort by (simp add: len del: require_all_coords.simps)
  qed
qed

text \<open>
  C35: which founding sets have an address: from one to seven keys, all different, with coordinates of 32
  bytes, and no other. Every other set is refused as an invalid public key.
\<close>

theorem founding_sets_accepted:
  assumes "chain_contract E"
  shows "if keys \<noteq> [] \<and> length keys \<le> 7 \<and> list_all sized keys \<and> distinct keys
    then \<exists>info. compute_safe_address_multi E keys = Inr info
      \<and> parse_address (sa_address info) = Inr (deployed_proxy E (sa_setup_data info) (sa_salt_nonce info))
    else \<exists>e. compute_safe_address_multi E keys = Inl (InvalidPublicKey e)"
proof (cases "keys \<noteq> [] \<and> length keys \<le> 7 \<and> list_all sized keys \<and> distinct keys")
  case True
  then obtain first others where "keys = first # others" by (cases keys) auto
  moreover have "length (deployed_proxy E s n) = 20" for s n using assms by (simp add: deployed_proxy_def)
  ultimately show ?thesis
    using True multi_ok [OF assms, of others first]
    by (simp add: founding_info_def Let_def encode_address_checksum [OF assms])
next
  case False
  show ?thesis unfolding if_not_P [OF False] by (rule multi_error [OF False])
qed

text \<open>
  C26: what the account is founded with. Read as \<open>Safe.setup\<close> reads its arguments, the set-up data of
  an accepted set names as owners the shared signer and the signer contract of every further key, with
  threshold one, the 4337 module as fallback handler and nothing paid; and its inner \<open>multiSend\<close>,
  read by the decoder of the self-call guard, enables that module, configures the shared signer with the
  first key and deploys the signer contract of every further key by a plain CALL.
\<close>

theorem setup_read_back:
  assumes "chain_contract E" and "compute_safe_address_multi E (first # others) = Inr info" and "33 \<le> w"
  shows "\<exists>data. read_setup (sa_setup_data info) =
      \<lparr>su_owners = bytes_of WEBAUTHN_SIGNER # map (signer_bytes E) (sort others), su_threshold = 1,
       su_to = bytes_of MULTI_SEND_ADDRESS, su_data = data, su_fallback_handler = bytes_of SAFE_4337_MODULE,
       su_payment_token = bytes_of ZERO_ADDRESS, su_payment = 0, su_payment_receiver = bytes_of ZERO_ADDRESS\<rparr>
    \<and> decode_multi_send w (to_hex data True)
      = Some (map leg_call (enable_leg E # configure_leg E first # map (create_leg E) (sort others)))"
proof -
  from assms(1,2) obtain "length others \<le> 6" "list_all sized (first # others)" "distinct (first # others)"
    "info = founding_info E first (sort others)" by (rule founding_cases) auto
  note valid = this
  let ?legs = "setup_legs E first (sort others)"
  have rest: "list_all sized (first # sort others)" "length (sort others) \<le> 6"
    using valid by (simp_all add: list_all_sort)
  have owners: "\<forall>a\<in>set (owners_of E (sort others)). length a = 20" "length (owners_of E (sort others)) < 2 ^ 32"
    using assms(1) rest(2) by (auto simp: owners_of_def address_lengths)
  have data: "length (legs_data ?legs) < 2 ^ 32"
    using length_legs_data(1) [OF length_packed_legs [OF setup_legs_sized [OF assms(1)]], of first "sort others"] rest
    by (simp add: setup_legs_def)
  show ?thesis
    using read_setup_bytes [OF assms(1) owners data] setup_legs_read [OF assms(1) rest assms(3)]
    by (auto simp: valid(4) founding_info_def Let_def owners_of_def setup_legs_def)
qed

definition three_keys :: "p256_public_key list" where
  "three_keys = map (\<lambda>n. \<lparr>pk_x = replicate 32 n, pk_y = replicate 32 (n + 1)\<rparr>) [5, 7, 1]"

lemma three_keys_valid:
  "three_keys = hd three_keys # tl three_keys" "length (tl three_keys) \<le> 6" "list_all sized three_keys"
  "distinct three_keys" "length three_keys \<le> 7" "three_keys \<noteq> []"
  by (simp_all add: three_keys_def sized_def)

lemma three_keys_ok:
  "\<exists>info. compute_safe_address_multi example_chain (hd three_keys # tl three_keys) = Inr info"
  using multi_ok [OF example_chain_contract three_keys_valid(2), of "hd three_keys"] three_keys_valid by auto

theorem founding_identity_witness:
  "compute_safe_address_multi example_chain (hd three_keys # rev (tl three_keys))
   = compute_safe_address_multi example_chain (hd three_keys # tl three_keys)"
  using founding_identity [of example_chain "hd three_keys" "tl three_keys" "rev (tl three_keys)"] three_keys_valid
  by simp

theorem founding_sets_accepted_witness:
  "\<exists>info. compute_safe_address_multi example_chain three_keys = Inr info
     \<and> parse_address (sa_address info) = Inr (deployed_proxy example_chain (sa_setup_data info) (sa_salt_nonce info))"
  using founding_sets_accepted [OF example_chain_contract, of three_keys] three_keys_valid by simp

theorem setup_read_back_witness:
  "\<exists>info. compute_safe_address_multi example_chain (hd three_keys # tl three_keys) = Inr info
     \<and> su_threshold (read_setup (sa_setup_data info)) = 1 \<and> length (su_owners (read_setup (sa_setup_data info))) = 3"
proof -
  obtain info where info: "compute_safe_address_multi example_chain (hd three_keys # tl three_keys) = Inr info"
    using three_keys_ok by blast
  from setup_read_back [OF example_chain_contract info, of 64] have
    "su_threshold (read_setup (sa_setup_data info)) = 1 \<and> length (su_owners (read_setup (sa_setup_data info))) = 3"
    by (auto simp: three_keys_def)
  with info show ?thesis by blast
qed

text \<open>What the derivation of an address hashes, from the outside in, but for the set-up data.\<close>

definition address_preimages :: "chain_env \<Rightarrow> p256_public_key \<Rightarrow> p256_public_key list \<Rightarrow> bytes list" where
  "address_preimages E first rest =
     (let xy = concat (map coordinates (first # rest));
          salt_input = keccak256 E (setup_bytes E (owners_of E rest) (legs_data (setup_legs E first rest))) @ keccak256 E xy
      in [0xff # bytes_of SAFE_PROXY_FACTORY @ keccak256 E salt_input
            @ keccak256 E (bytes_of PROXY_CREATION_CODE @ addr_word (bytes_of SAFE_SINGLETON)),
          salt_input, xy])"

definition collision :: "chain_env \<Rightarrow> bytes \<times> bytes \<Rightarrow> bool" where
  "collision E p \<longleftrightarrow> fst p \<noteq> snd p \<and> drop 12 (keccak256 E (fst p)) = drop 12 (keccak256 E (snd p))"

lemma concat_chunks_injective:
  "0 < n \<Longrightarrow> \<forall>x\<in>set xs. length x = n \<Longrightarrow> \<forall>y\<in>set ys. length y = n \<Longrightarrow> concat xs = concat ys \<Longrightarrow> xs = ys"
proof (induction xs arbitrary: ys)
  case Nil
  then show ?case by (cases ys) auto
next
  case (Cons x xs)
  have "ys \<noteq> []" using Cons.prems(1,2,4) by force
  then obtain y ys' where ys: "ys = y # ys'" by (cases ys) simp_all
  have "length x = length y" using Cons.prems(2,3) ys by simp
  then have "x = y" and "concat xs = concat ys'" using Cons.prems(4) ys by simp_all
  then show ?case using Cons.IH [of ys'] Cons.prems(1-3) ys by simp
qed

lemma coordinates_injective: "sized k \<Longrightarrow> sized l \<Longrightarrow> coordinates k = coordinates l \<Longrightarrow> k = l"
  by (auto simp: coordinates_def sized_def intro: p256_public_key.equality)

lemma map_coordinates_injective:
  "list_all sized ks \<Longrightarrow> list_all sized ls \<Longrightarrow> concat (map coordinates ks) = concat (map coordinates ls) \<Longrightarrow> ks = ls"
proof -
  assume sized: "list_all sized ks" "list_all sized ls"
    and "concat (map coordinates ks) = concat (map coordinates ls)"
  then have "map coordinates ks = map coordinates ls"
    by (intro concat_chunks_injective [of 64]) (auto simp: list_all_iff coordinates_def sized_def)
  then show ?thesis
    using sized by (intro list.inj_map_strong [of ks ls coordinates coordinates])
      (auto simp: list_all_iff coordinates_injective)
qed

lemma no_collision_inverts:
  "\<not> collision E (a, b) \<Longrightarrow> drop 12 (keccak256 E a) = drop 12 (keccak256 E b) \<Longrightarrow> a = b"
  by (auto simp: collision_def)

lemma preimages_bind:
  assumes "chain_contract E" and "list_all sized (first # rest)" and "list_all sized (first' # rest')"
    and "drop 12 (keccak256 E (hd (address_preimages E first rest)))
       = drop 12 (keccak256 E (hd (address_preimages E first' rest')))"
    and "\<not> list_ex (collision E) (zip (address_preimages E first rest) (address_preimages E first' rest'))"
  shows "first # rest = first' # rest'"
proof -
  define xy where "xy = (\<lambda>first rest. concat (map coordinates (first # rest)))"
  define initializer where "initializer = (\<lambda>first rest. setup_bytes E (owners_of E rest) (legs_data (setup_legs E first rest)))"
  define salt where "salt = (\<lambda>first rest. keccak256 E (initializer first rest) @ keccak256 E (xy first rest))"
  define outer where "outer = (\<lambda>first rest. 0xff # bytes_of SAFE_PROXY_FACTORY @ keccak256 E (salt first rest)
            @ keccak256 E (bytes_of PROXY_CREATION_CODE @ addr_word (bytes_of SAFE_SINGLETON)))"
  have pre: "address_preimages E f r = [outer f r, salt f r, xy f r]" for f r
    unfolding address_preimages_def Let_def outer_def salt_def initializer_def xy_def by (rule refl)
  have free: "\<not> collision E (outer first rest, outer first' rest')" "\<not> collision E (salt first rest, salt first' rest')"
    "\<not> collision E (xy first rest, xy first' rest')"
    using assms(5) unfolding pre by simp_all
  have "outer first rest = outer first' rest'"
    using no_collision_inverts [OF free(1)] assms(4) unfolding pre by simp
  then have "keccak256 E (salt first rest) = keccak256 E (salt first' rest')"
    using assms(1) by (simp add: outer_def)
  then have "salt first rest = salt first' rest'" using no_collision_inverts [OF free(2)] by simp
  then have "keccak256 E (xy first rest) = keccak256 E (xy first' rest')"
    using assms(1) by (simp add: salt_def)
  then have "xy first rest = xy first' rest'" using no_collision_inverts [OF free(3)] by simp
  then show ?thesis unfolding xy_def by (rule map_coordinates_injective [OF assms(2,3)])
qed

text \<open>
  C9: the address names its keys. Two accepted founding sets with the same address have the same first
  key and the same others, in whatever order they were listed, unless one of the three pairs of inputs
  the two derivations hash is a collision of the last twenty bytes of Keccak.
\<close>

theorem address_binds_keys:
  assumes "chain_contract E" and "compute_safe_address_multi E (first # others) = Inr info"
    and "compute_safe_address_multi E (first' # others') = Inr info'" and "sa_address info = sa_address info'"
  shows "(first = first' \<and> mset others = mset others')
    \<or> list_ex (collision E) (zip (address_preimages E first (sort others)) (address_preimages E first' (sort others')))"
proof -
  from assms(1,2) obtain "list_all sized (first # others)" "info = founding_info E first (sort others)"
    by (rule founding_cases) auto
  note a = this
  from assms(1,3) obtain "list_all sized (first' # others')" "info' = founding_info E first' (sort others')"
    by (rule founding_cases) auto
  note b = this
  have sized: "list_all sized (first # sort others)" "list_all sized (first' # sort others')"
    using a(1) b(1) by (simp_all add: list_all_sort)
  have address: "from_hex (sa_address (founding_info E f r)) = Inr (drop 12 (keccak256 E (hd (address_preimages E f r))))" for f r
    using assms(1) by (simp add: founding_info_def Let_def deployed_proxy_def contract_checksum address_preimages_def)
  have "drop 12 (keccak256 E (hd (address_preimages E first (sort others))))
      = drop 12 (keccak256 E (hd (address_preimages E first' (sort others'))))"
    using address [of first "sort others"] address [of first' "sort others'"] assms(4) a(2) b(2) by simp
  from preimages_bind [OF assms(1) sized this] show ?thesis by (metis list.inject mset_sort)
qed

theorem address_binds_keys_witness:
  "mset (rev (tl three_keys)) = mset (tl three_keys)
   \<or> list_ex (collision example_chain) (zip (address_preimages example_chain (hd three_keys) (sort (rev (tl three_keys))))
       (address_preimages example_chain (hd three_keys) (sort (tl three_keys))))"
proof -
  obtain info where info: "compute_safe_address_multi example_chain (hd three_keys # tl three_keys) = Inr info"
    using three_keys_ok by blast
  obtain info' where info': "compute_safe_address_multi example_chain (hd three_keys # rev (tl three_keys)) = Inr info'"
    using multi_ok [OF example_chain_contract, of "rev (tl three_keys)" "hd three_keys"] by (auto simp: three_keys_def sized_def)
  have "sort (rev (tl three_keys)) = sort (tl three_keys)" by (metis mset_rev mset_sort properties_for_sort sorted_sort)
  then have "sa_address info' = sa_address info"
    using info info' multi_ok [OF example_chain_contract, of "rev (tl three_keys)" "hd three_keys"]
      multi_ok [OF example_chain_contract, of "tl three_keys" "hd three_keys"]
    by (simp add: three_keys_def sized_def)
  from address_binds_keys [OF example_chain_contract info' info this] show ?thesis by blast
qed

text \<open>
  The splitter is deployed where it is expected. The deploy call is the salt and the init code, and
  the address computed for the treasury is the CREATE2 address of the factory for exactly those; the
  init code ends in the treasury. A treasury that is no address is refused by both, with one error.
\<close>

theorem splitter_where_expected:
  assumes "chain_contract E"
  shows "case parse_address treasury of
      Inl e \<Rightarrow> compute_splitter_address E treasury = Inl e \<and> encode_splitter_deploy_call treasury = Inl e
    | Inr t \<Rightarrow> (\<exists>salt init. encode_splitter_deploy_call treasury = Inr (salt @ init) \<and> length salt = 32
        \<and> drop (length init - 20) init = t
        \<and> compute_splitter_address E treasury = Inr (to_checksum E
            (drop 12 (keccak256 E (0xff # bytes_of VELA_SPLITTER_FACTORY @ salt @ keccak256 E init)))))"
proof (cases "parse_address treasury")
  case (Inl e)
  then show ?thesis
    by (simp add: compute_splitter_address_def encode_splitter_deploy_call_def splitter_init_code_def splitter_salt_def
        codes_are_hex abi_encode_address_def)
next
  case (Inr t)
  have len: "length t = 20" using Inr by (auto simp: parse_address_def split: sum.splits if_splits)
  let ?init = "bytes_of VELA_SPLITTER_CREATION_CODE @ addr_word t"
  have init: "splitter_init_code treasury = Inr ?init"
    using Inr len by (simp add: splitter_init_code_def codes_are_hex abi_encode_address_def copy_at_def)
  have salt: "splitter_salt = Inr (bytes_of VELA_SPLITTER_SALT)" by (simp add: splitter_salt_def codes_are_hex)
  have "encode_splitter_deploy_call treasury = Inr (bytes_of VELA_SPLITTER_SALT @ ?init)"
    by (simp add: encode_splitter_deploy_call_def init salt)
  moreover have "compute_splitter_address E treasury = Inr (to_checksum E (drop 12 (keccak256 E
      (0xff # bytes_of VELA_SPLITTER_FACTORY @ bytes_of VELA_SPLITTER_SALT @ keccak256 E ?init))))"
    using assms by (simp add: compute_splitter_address_def init salt create2_address_ok ADDRESSES_in codes_are_hex)
  moreover have "drop (length ?init - 20) ?init = t" using len by simp
  ultimately show ?thesis unfolding Inr sum.case using codes_are_hex(5) by blast
qed

theorem splitter_where_expected_witness:
  "\<exists>salt init. encode_splitter_deploy_call (to_hex (replicate 20 9) True) = Inr (salt @ init) \<and> length salt = 32
     \<and> drop (length init - 20) init = replicate 20 9"
  using splitter_where_expected [OF example_chain_contract, of "to_hex (replicate 20 9) True"]
  by (auto simp: parse_address_def)

end
