(* ===== verification/UserOp.thy ===== *)
theory UserOp
  imports Safe
begin

text \<open>
  \<open>user_op.rs\<close>: the user operation of an account, assembled, hashed and signed. The calldata of one call
  or a batch, the init code of a founding set, the hash the passkey signs and the hash the EntryPoint
  files the operation under, the contract signature around an assertion, the gas limits, the wire form
  and the parsers of the relay's wording. The crates are those of \<open>Safe\<close>; \<open>u128\<close> sums that the code
  does not check wrap, as the release build does.
\<close>

section \<open>Constants\<close>

definition VERIFICATION_GAS_DEPLOYED :: u128 where
  "VERIFICATION_GAS_DEPLOYED = 300000"

definition VERIFICATION_GAS_UNDEPLOYED :: u128 where
  "VERIFICATION_GAS_UNDEPLOYED = 2000000"

definition CALL_GAS_LIMIT :: u128 where
  "CALL_GAS_LIMIT = 200000"

definition PRE_VERIFICATION_GAS :: u128 where
  "PRE_VERIFICATION_GAS = 100000"

definition ESTIMATION_DUMMY_TARGET :: string where
  "ESTIMATION_DUMMY_TARGET = ''0x0000000000000000000000000000000000000004''"

definition SAFE_OP_TYPE :: string where
  "SAFE_OP_TYPE = concat [''SafeOp(address safe,uint256 nonce,bytes initCode,bytes callData,'',
     ''uint128 verificationGasLimit,uint128 callGasLimit,uint256 preVerificationGas,'',
     ''uint128 maxPriorityFeePerGas,uint128 maxFeePerGas,bytes paymasterAndData,'',
     ''uint48 validAfter,uint48 validUntil,address entryPoint)'']"

definition DOMAIN_TYPE :: string where
  "DOMAIN_TYPE = ''EIP712Domain(uint256 chainId,address verifyingContract)''"

definition SAFE_MESSAGE_TYPE :: string where
  "SAFE_MESSAGE_TYPE = ''SafeMessage(bytes message)''"

section \<open>Small encoders\<close>

definition word_u128 :: "u128 \<Rightarrow> bytes" where
  "word_u128 v = copy_at 16 (be_of_nat 16 (unat v)) (zeros 32)"

definition word_usize :: "nat \<Rightarrow> bytes" where
  "word_usize n = word_u128 (of_nat n)"

definition pad_to_word :: "nat \<Rightarrow> bytes" where
  "pad_to_word len = zeros ((32 - len mod 32) mod 32)"

definition encode_erc20_transfer :: "chain_env \<Rightarrow> string \<Rightarrow> u128 \<Rightarrow> core_error + bytes" where
  "encode_erc20_transfer E to amount =
     attempt (selector E ''transfer(address,uint256)'') (\<lambda>d.
     attempt (abi_encode_address to) (\<lambda>word_to. Inr (d @ word_to @ word_u128 amount)))"

definition is_plain_transfer_call :: "bytes \<Rightarrow> bool" where
  "is_plain_transfer_call data \<longleftrightarrow>
     data = [] \<or> (length data = 68 \<and> take 4 data = [0xa9, 0x05, 0x9c, 0xbb])"

section \<open>Calldata\<close>

definition build_execute_call_data :: "chain_env \<Rightarrow> string \<Rightarrow> string \<Rightarrow> bytes \<Rightarrow> core_error + bytes" where
  "build_execute_call_data E to value_hex data =
     attempt (selector E ''executeUserOp(address,uint256,bytes,uint8)'') (\<lambda>d.
     attempt (abi_encode_address to) (\<lambda>word_to.
     attempt (uint256 E value_hex) (\<lambda>value.
     Inr (d @ word_to @ value @ word_u128 128 @ word_u128 0 @ word_usize (length data) @ data
          @ pad_to_word (length data)))))"

definition encode_multi_send_call :: "chain_env \<Rightarrow> multi_send_call \<Rightarrow> core_error + bytes" where
  "encode_multi_send_call E call =
     (let value0 = unwrap_or (strip_prefix (ms_value_hex call) ''0x'') (ms_value_hex call);
          value = (if value0 = [] then ''0'' else value0)
      in attempt (parse_address (ms_to call)) (\<lambda>to.
         attempt (uint256 E value) (\<lambda>value.
         Inr (0 # to @ value @ word_usize (length (ms_data call)) @ ms_data call))))"

definition build_multi_send_execute_call_data :: "chain_env \<Rightarrow> multi_send_call list \<Rightarrow> core_error + bytes" where
  "build_multi_send_execute_call_data E calls =
     attempt (collect_results (encode_multi_send_call E) calls) (\<lambda>legs.
     let packed = concat legs in
     attempt (selector E ''multiSend(bytes)'') (\<lambda>m.
     let payload = m @ word_u128 32 @ word_usize (length packed) @ packed @ pad_to_word (length packed) in
     attempt (selector E ''executeUserOp(address,uint256,bytes,uint8)'') (\<lambda>d.
     attempt (abi_encode_address MULTI_SEND_ADDRESS) (\<lambda>multi_send.
     Inr (d @ multi_send @ word_u128 0 @ word_u128 128 @ word_u128 1 @ word_usize (length payload) @ payload
          @ pad_to_word (length payload))))))"

fun build_native_call_data :: "chain_env \<Rightarrow> multi_send_call list \<Rightarrow> bool \<Rightarrow> core_error + bytes" where
  "build_native_call_data E [only] False =
     build_execute_call_data E (ms_to only) (ms_value_hex only) (ms_data only)"
| "build_native_call_data E calls always_multi_send = build_multi_send_execute_call_data E calls"

definition build_in_band_fee_leg :: "chain_env \<Rightarrow> string option \<Rightarrow> string \<Rightarrow> u128 \<Rightarrow> core_error + multi_send_call" where
  "build_in_band_fee_leg E gas_fee_token recipient amount =
     (case gas_fee_token of
        Some token \<Rightarrow>
          attempt (encode_erc20_transfer E recipient amount) (\<lambda>data.
          Inr \<lparr>ms_to = token, ms_value_hex = ''0'', ms_data = data\<rparr>)
      | None \<Rightarrow> Inr \<lparr>ms_to = recipient, ms_value_hex = ''0x'' @ show_hex (unat amount), ms_data = []\<rparr>)"

section \<open>Init code and the signer\<close>

definition assemble_init_code :: "chain_env \<Rightarrow> bytes \<Rightarrow> bytes \<Rightarrow> core_error + bytes" where
  "assemble_init_code E setup_data salt_nonce =
     attempt (selector E ''createProxyWithNonce(address,bytes,uint256)'') (\<lambda>d.
     attempt (abi_encode_address SAFE_SINGLETON) (\<lambda>singleton.
     attempt (abi_encode_bytes32 salt_nonce) (\<lambda>salt.
     attempt (parse_address SAFE_PROXY_FACTORY) (\<lambda>factory.
     Inr (factory @ d @ singleton @ word_u128 96 @ salt @ word_usize (length setup_data) @ setup_data
          @ pad_to_word (length setup_data))))))"

definition build_init_code_for_keys :: "chain_env \<Rightarrow> string list \<Rightarrow> core_error + bytes" where
  "build_init_code_for_keys E public_key_hexes =
     attempt (case public_key_hexes of
         [] \<Rightarrow> Inl (InvalidPublicKey ''a wallet has at least one founding key'')
       | [only] \<Rightarrow> attempt (parse_public_key only) (\<lambda>key. compute_safe_address E (pk_x key) (pk_y key))
       | many \<Rightarrow> attempt (collect_results parse_public_key many) (compute_safe_address_multi E)) (\<lambda>info.
     assemble_init_code E (sa_setup_data info) (sa_salt_nonce info))"

definition normal_id :: "string \<Rightarrow> string" where
  "normal_id i = to_ascii_lowercase (unwrap_or (strip_prefix i ''0x'') i)"

definition signer_address_for :: "chain_env \<Rightarrow> wallet_key list \<Rightarrow> string option \<Rightarrow> core_error + string" where
  "signer_address_for E keys credential_id =
     (if length keys \<le> 1 then Inr WEBAUTHN_SIGNER
      else case credential_id of
          None \<Rightarrow> Inr WEBAUTHN_SIGNER
        | Some credential \<Rightarrow>
            (case position (\<lambda>key. normal_id (wk_credential_id key) = normal_id credential) keys of
               None \<Rightarrow> Inl (InvalidSignature ''signing credential does not belong to this wallet'')
             | Some index \<Rightarrow>
                 if index = 0 then Inr WEBAUTHN_SIGNER
                 else attempt (parse_public_key (wk_public_key_hex (keys ! index))) (\<lambda>key.
                      compute_webauthn_signer_address E (pk_x key) (pk_y key))))"

section \<open>Hashes\<close>

definition domain_separator :: "chain_env \<Rightarrow> u64 \<Rightarrow> string \<Rightarrow> core_error + bytes" where
  "domain_separator E chain_id verifying_contract =
     attempt (abi_encode_address verifying_contract) (\<lambda>contract.
     Inr (keccak256 E (keccak256 E (as_bytes DOMAIN_TYPE) @ word_u128 (ucast chain_id) @ contract)))"

definition eip712_digest :: "chain_env \<Rightarrow> bytes \<Rightarrow> bytes \<Rightarrow> bytes" where
  "eip712_digest E dom_sep struct_hash = keccak256 E ([0x19, 0x01] @ dom_sep @ struct_hash)"

definition safe_op_struct :: "chain_env \<Rightarrow> user_operation \<Rightarrow> core_error + bytes" where
  "safe_op_struct E op =
     attempt (abi_encode_address (uo_sender op)) (\<lambda>sender.
     attempt (uint256 E (uo_nonce op)) (\<lambda>nonce.
     attempt (abi_encode_address ENTRY_POINT) (\<lambda>entry_point.
     Inr (keccak256 E (as_bytes SAFE_OP_TYPE) @ sender @ nonce @ keccak256 E (uo_init_code op)
          @ keccak256 E (uo_call_data op) @ word_u128 (uo_verification_gas_limit op)
          @ word_u128 (uo_call_gas_limit op) @ word_u128 (uo_pre_verification_gas op)
          @ word_u128 (uo_max_priority_fee_per_gas op) @ word_u128 (uo_max_fee_per_gas op)
          @ keccak256 E (uo_paymaster_and_data op) @ word_u128 0 @ word_u128 0 @ entry_point))))"

definition calculate_safe_op_hash :: "chain_env \<Rightarrow> user_operation \<Rightarrow> u64 \<Rightarrow> core_error + bytes" where
  "calculate_safe_op_hash E op chain_id =
     attempt (safe_op_struct E op) (\<lambda>preimage.
     attempt (domain_separator E chain_id SAFE_4337_MODULE) (\<lambda>domain_sep.
     Inr (eip712_digest E domain_sep (keccak256 E preimage))))"

definition compute_safe_message_hash :: "chain_env \<Rightarrow> bytes \<Rightarrow> u64 \<Rightarrow> string \<Rightarrow> core_error + bytes" where
  "compute_safe_message_hash E original_hash chain_id safe_address =
     attempt (abi_encode_bytes32 original_hash) (\<lambda>message.
     attempt (domain_separator E chain_id safe_address) (\<lambda>domain_sep.
     Inr (eip712_digest E domain_sep
       (keccak256 E (keccak256 E (as_bytes SAFE_MESSAGE_TYPE) @ keccak256 E message)))))"

definition gas_pair :: "u128 \<Rightarrow> u128 \<Rightarrow> bytes" where
  "gas_pair high low = be_of_nat 16 (unat high) @ be_of_nat 16 (unat low)"

definition packed_init_code :: "user_operation \<Rightarrow> bytes" where
  "packed_init_code op = (if 20 \<le> length (uo_init_code op) then uo_init_code op else [])"

definition packed_paymaster :: "user_operation \<Rightarrow> bytes" where
  "packed_paymaster op =
     (if 20 \<le> length (uo_paymaster_and_data op)
      then take 20 (uo_paymaster_and_data op) @ zeros 32 @ drop 20 (uo_paymaster_and_data op) else [])"

definition user_op_hash :: "chain_env \<Rightarrow> user_operation \<Rightarrow> u64 \<Rightarrow> core_error + string" where
  "user_op_hash E op chain_id =
     attempt (abi_encode_address (uo_sender op)) (\<lambda>sender.
     attempt (uint256 E (uo_nonce op)) (\<lambda>nonce.
     attempt (abi_encode_address ENTRY_POINT) (\<lambda>entry_point.
     let packed = sender @ nonce @ keccak256 E (packed_init_code op) @ keccak256 E (uo_call_data op)
           @ gas_pair (uo_verification_gas_limit op) (uo_call_gas_limit op)
           @ word_u128 (uo_pre_verification_gas op)
           @ gas_pair (uo_max_priority_fee_per_gas op) (uo_max_fee_per_gas op)
           @ keccak256 E (packed_paymaster op)
     in Inr (to_hex (keccak256 E (keccak256 E packed @ entry_point @ word_u128 (ucast chain_id))) True))))"

section \<open>The signature\<close>

definition extract_client_data_fields :: "bytes \<Rightarrow> string" where
  "extract_client_data_fields client_data_json =
     (let json = from_utf8_lossy (string_of_bytes client_data_json); KEY = [CHR 0x22] @ ''challenge'' @ [CHR 0x22] @ '':'' @ [CHR 0x22]
      in case split_once json KEY of
           None \<Rightarrow> []
         | Some (before, rest) \<Rightarrow>
             (case split_once rest [CHR 0x22] of
                None \<Rightarrow> []
              | Some (challenge, _) \<Rightarrow>
                  let skip_index = length before + length KEY + length challenge + 2; end_index = length json - 1
                  in if end_index \<le> skip_index then []
                     else unwrap_or (str_slice json skip_index end_index) []))"

definition require_word :: "string \<Rightarrow> bytes \<Rightarrow> core_error + unit" where
  "require_word name bs =
     (if length bs \<noteq> 32 then Inl (InvalidSignature (name @ '' must be 32 bytes, got '' @ show_nat (length bs)))
      else Inr ())"

definition abi_encode_webauthn_sig :: "bytes \<Rightarrow> string \<Rightarrow> bytes \<Rightarrow> bytes \<Rightarrow> core_error + bytes" where
  "abi_encode_webauthn_sig authenticator_data client_data_fields r s =
     attempt (require_word ''r'' r) (\<lambda>_.
     attempt (require_word ''s'' s) (\<lambda>_.
     let fields = as_bytes client_data_fields;
         auth_tail = word_usize (length authenticator_data) @ authenticator_data
                       @ pad_to_word (length authenticator_data);
         client_tail = word_usize (length fields) @ fields @ pad_to_word (length fields);
         auth_offset = 128; client_offset = auth_offset + length auth_tail
     in attempt (abi_encode_bytes32 r) (\<lambda>wr.
        attempt (abi_encode_bytes32 s) (\<lambda>ws.
        Inr (word_usize auth_offset @ word_usize client_offset @ wr @ ws @ auth_tail @ client_tail)))))"

definition build_contract_signature_core ::
  "bytes \<Rightarrow> string \<Rightarrow> bytes \<Rightarrow> bytes \<Rightarrow> string \<Rightarrow> core_error + bytes" where
  "build_contract_signature_core authenticator_data client_data_fields r s signer_address =
     attempt (abi_encode_webauthn_sig authenticator_data client_data_fields r s) (\<lambda>dynamic.
     attempt (abi_encode_address signer_address) (\<lambda>signer.
     Inr (signer @ word_u128 65 @ [0x00] @ word_usize (length dynamic) @ dynamic)))"

definition build_user_op_signature ::
  "bytes \<Rightarrow> string \<Rightarrow> bytes \<Rightarrow> bytes \<Rightarrow> string \<Rightarrow> core_error + bytes" where
  "build_user_op_signature authenticator_data client_data_fields r s signer_address =
     attempt (build_contract_signature_core authenticator_data client_data_fields r s signer_address) (\<lambda>core.
     Inr (zeros 12 @ core))"

definition build_eip1271_signature ::
  "bytes \<Rightarrow> string \<Rightarrow> bytes \<Rightarrow> bytes \<Rightarrow> string \<Rightarrow> core_error + bytes" where
  "build_eip1271_signature authenticator_data client_data_fields r s signer_address =
     build_contract_signature_core authenticator_data client_data_fields r s signer_address"

definition DUMMY_FIELDS :: string where
  "DUMMY_FIELDS = [CHR 0x22] @ ''origin'' @ [CHR 0x22] @ '':'' @ [CHR 0x22] @ ''https://getvela.app'' @ [CHR 0x22]
     @ '','' @ [CHR 0x22] @ ''crossOrigin'' @ [CHR 0x22] @ '':false''"

definition build_dummy_signature :: "core_error + bytes" where
  "build_dummy_signature =
     attempt (from_hex ''a69533717b230610f14ea657c0bd8231dd6fc7b7108f1215a874fbb1d14df349'') (\<lambda>rp.
     let auth_data = rp @ [0x05] @ [0, 0, 0, 0]; one = zeros 31 @ [0x01]
     in build_user_op_signature auth_data DUMMY_FIELDS one one WEBAUTHN_SIGNER)"

section \<open>Gas limits\<close>

definition UNDEPLOYED_CALL_GAS_FLOOR :: u128 where
  "UNDEPLOYED_CALL_GAS_FLOOR = 100000"

record gas_estimate =
  ge_verification_gas_limit :: u128
  ge_call_gas_limit :: u128
  ge_pre_verification_gas :: u128
  ge_settlement_gas :: "u128 option"

record gas_limits =
  gl_verification_gas_limit :: u128
  gl_call_gas_limit :: u128
  gl_pre_verification_gas :: u128

definition sat_add :: "u128 \<Rightarrow> u128 \<Rightarrow> u128" where
  "sat_add a b = (if unat a + unat b < 2 ^ 128 then a + b else - 1)"

definition total_gas :: "gas_limits \<Rightarrow> u128" where
  "total_gas l = sat_add (sat_add (gl_verification_gas_limit l) (gl_call_gas_limit l)) (gl_pre_verification_gas l)"

definition in_band_gas_limits :: "gas_estimate \<Rightarrow> bool \<Rightarrow> u128 option \<Rightarrow> gas_limits" where
  "in_band_gas_limits estimate deployed inner_floor =
     \<lparr>gl_verification_gas_limit =
        (if \<not> deployed \<and> ge_settlement_gas estimate = None
         then max (ge_verification_gas_limit estimate) VERIFICATION_GAS_UNDEPLOYED
         else ge_verification_gas_limit estimate),
      gl_call_gas_limit = max (max (ge_call_gas_limit estimate) (if deployed then 0 else UNDEPLOYED_CALL_GAS_FLOOR))
                            (unwrap_or inner_floor 0),
      gl_pre_verification_gas = ge_pre_verification_gas estimate\<rparr>"

text \<open>\<open>checked_mul(15)\<close>: none when the product does not fit.\<close>

definition half_again :: "u128 \<Rightarrow> u128" where
  "half_again limit = (if unat limit * 15 < 2 ^ 128 then limit * 15 div 10 else - 1)"

definition tempo_gas_limits :: "gas_estimate \<Rightarrow> u128 \<Rightarrow> u128 \<Rightarrow> gas_limits" where
  "tempo_gas_limits estimate verification_floor call_floor =
     \<lparr>gl_verification_gas_limit = max (half_again (ge_verification_gas_limit estimate)) verification_floor,
      gl_call_gas_limit = max (half_again (ge_call_gas_limit estimate)) call_floor,
      gl_pre_verification_gas = sat_add (ge_pre_verification_gas estimate) 10000\<rparr>"

definition inner_calls_gas_floor :: "u128 list \<Rightarrow> nat \<Rightarrow> u128 option" where
  "inner_calls_gas_floor measured call_count =
     (if measured = [] then None
      else Some (sum_list (map (\<lambda>gas. gas * 125 div 100 + 60000) measured) + 50000 * of_nat call_count))"

section \<open>The wire\<close>

definition quantity :: "u128 \<Rightarrow> json" where
  "quantity v = String (''0x'' @ show_hex (unat v))"

definition hex_json :: "bytes \<Rightarrow> json" where
  "hex_json bs = String (to_hex bs True)"

definition user_op_fields :: "user_operation \<Rightarrow> (string \<times> json) list" where
  "user_op_fields op =
     [(''sender'', String (uo_sender op)), (''nonce'', String (uo_nonce op)),
      (''callData'', hex_json (uo_call_data op)), (''callGasLimit'', quantity (uo_call_gas_limit op)),
      (''verificationGasLimit'', quantity (uo_verification_gas_limit op)),
      (''preVerificationGas'', quantity (uo_pre_verification_gas op)),
      (''maxFeePerGas'', quantity (uo_max_fee_per_gas op)),
      (''maxPriorityFeePerGas'', quantity (uo_max_priority_fee_per_gas op)),
      (''signature'', hex_json (uo_signature op))]
     @ (if 20 \<le> length (uo_init_code op)
        then [(''factory'', hex_json (take 20 (uo_init_code op))), (''factoryData'', hex_json (drop 20 (uo_init_code op)))]
        else [])
     @ (if 20 \<le> length (uo_paymaster_and_data op)
        then [(''paymaster'', hex_json (take 20 (uo_paymaster_and_data op))),
              (''paymasterData'', hex_json (drop 20 (uo_paymaster_and_data op))),
              (''paymasterVerificationGasLimit'', String ''0x0''), (''paymasterPostOpGasLimit'', String ''0x0'')]
        else [])"

definition user_op_to_json :: "user_operation \<Rightarrow> (string \<times> string) list \<Rightarrow> json" where
  "user_op_to_json op extra = Object (fold (\<lambda>(k, v). insert_key k (String v)) extra (user_op_fields op))"

section \<open>The relay's wording\<close>

definition MARK :: string where
  "MARK = ''[existingHash:0x''"

text \<open>The loop over the places of the mark: past one that is not well formed it goes on behind it.\<close>

function parse_existing_user_op_hash :: "string \<Rightarrow> string option" where
  "parse_existing_user_op_hash message =
     (case split_once message MARK of
        None \<Rightarrow> None
      | Some (_, rest) \<Rightarrow>
          let hex = takeWhile is_ascii_hexdigit rest
          in if hex \<noteq> [] \<and> take 1 (drop (length hex) rest) = '']'' then Some (''0x'' @ hex)
             else parse_existing_user_op_hash rest)"
  by pat_completeness auto
termination
  by (relation "measure length") (auto intro: split_once_shorter simp: MARK_def)

declare parse_existing_user_op_hash.simps [simp del]

datatype existing_op = ThisOne string | Another string

definition existing_op :: "string \<Rightarrow> string \<Rightarrow> existing_op option" where
  "existing_op message own_user_op_hash =
     map_option (\<lambda>existing. if eq_ignore_ascii_case existing own_user_op_hash then ThisOne existing else Another existing)
       (parse_existing_user_op_hash message)"

definition nonce_in_flight_hash :: "(string \<Rightarrow> json option) \<Rightarrow> string \<Rightarrow> string option" where
  "nonce_in_flight_hash from_str error_json =
     do {
       value \<leftarrow> from_str error_json;
       let error = unwrap_or (get value ''error'') value;
       data \<leftarrow> get error ''data'';
       if Option.bind (get data ''reason'') as_str \<noteq> Some ''nonce_in_flight'' then None
       else do {
         hash \<leftarrow> Option.bind (get data ''existingHash'') as_str;
         hex \<leftarrow> strip_prefix hash ''0x'';
         if hex \<noteq> [] \<and> list_all is_ascii_hexdigit hex then Some hash else None
       }
     }"

definition parse_hex_quantity :: "string option \<Rightarrow> (string \<Rightarrow> string) \<Rightarrow> core_error + u128" where
  "parse_hex_quantity value parse_int_error =
     (case value of
        None \<Rightarrow> Inr 0
      | Some v \<Rightarrow>
          let clean = unwrap_or (strip_prefix v ''0x'') v
          in if clean = [] then Inr 0
             else case parse_u128 16 clean of
                 Some n \<Rightarrow> Inr n
               | None \<Rightarrow> Inl (InvalidQuantity (''`'' @ v @ ''`: '' @ parse_int_error clean)))"

section \<open>Words\<close>

lemma word_u128_word: "word_u128 v = word (unat v)"
proof -
  have "unat v < 2 ^ LENGTH(128)" by (rule unsigned_less)
  then have "unat v < 256 ^ 16" by simp
  then show ?thesis using be_of_nat_widen [of "unat v" 16 16] by (simp add: word_u128_def copy_at_def)
qed

lemma word_usize_word: "n < 2 ^ 128 \<Longrightarrow> word_usize n = word n"
  by (simp add: word_usize_def word_u128_word unat_of_nat)

lemma pad_to_word_padding: "pad_to_word n = padding n"
  by (simp add: pad_to_word_def padding_def)

lemma attempt_Inr: "attempt x f = Inr y \<longleftrightarrow> (\<exists>z. x = Inr z \<and> f z = Inr y)"
  by (cases x) simp_all

lemma abi_encode_address_Inr: "abi_encode_address s = Inr w \<longleftrightarrow> (\<exists>a. parse_address s = Inr a \<and> w = addr_word a)"
  by (auto simp: abi_encode_address_def copy_at_def parse_address_def split: sum.splits if_splits)

lemma parse_address_length: "parse_address s = Inr a \<Longrightarrow> length a = 20"
  by (auto simp: parse_address_def split: sum.splits if_splits)

text \<open>The digits of a value: the code strips the prefix where it reads a batch and where it encodes.\<close>

definition value_digits :: "string \<Rightarrow> string" where
  "value_digits v =
     (let once = unwrap_or (strip_prefix v ''0x'') v; filled = if once = [] then ''0'' else once
      in unwrap_or (strip_prefix filled ''0x'') filled)"

lemma uint256_Inr:
  assumes "chain_contract E" and "uint256 E v = Inr w"
  shows "\<exists>n. from_str_radix 256 16 (unwrap_or (strip_prefix v ''0x'') v) = Some n \<and> w = word n
    \<and> unwrap_or (strip_prefix v ''0x'') v \<noteq> [] \<and> list_all is_ascii_hexdigit (unwrap_or (strip_prefix v ''0x'') v)"
proof -
  let ?s = "unwrap_or (strip_prefix v ''0x'') v"
  have s: "?s \<noteq> []" "list_all is_ascii_hexdigit ?s"
    using assms(2) by (auto simp: abi_encode_uint256_def Let_def split: if_splits)
  with contract_u256_cases [OF assms(1) s] assms(2) show ?thesis
    by (cases "from_str_radix 256 16 ?s") (auto simp: abi_encode_uint256_def Let_def)
qed

section \<open>What the account executes\<close>

text \<open>
  The arguments of \<open>executeUserOp\<close>, the legs of a packed batch, and the calls an operation executes:
  its own, or those of the batch it delegates to \<open>MultiSend\<close>.
\<close>

record execution =
  ex_to :: bytes
  ex_value :: nat
  ex_data :: bytes
  ex_operation :: nat

definition read_execute :: "bytes \<Rightarrow> execution" where
  "read_execute calldata =
     (let args = drop 4 calldata
      in \<lparr>ex_to = address_at args 0, ex_value = word_at args 32, ex_data = bytes_at args (word_at args 64),
          ex_operation = word_at args 96\<rparr>)"

function read_legs :: "bytes \<Rightarrow> packed_leg list" where
  "read_legs bs =
     (if length bs < 85 then []
      else let end = 85 + word_at bs 53
           in \<lparr>pl_operation = bs ! 0, pl_to = subslice 1 21 bs, pl_value = subslice 21 53 bs,
               pl_data = subslice 85 end bs\<rparr> # read_legs (drop end bs))"
  by pat_completeness auto
termination
  by (relation "measure length") auto

declare read_legs.simps [simp del]

definition executed_calls :: "bytes \<Rightarrow> (nat \<times> bytes \<times> nat \<times> bytes) list" where
  "executed_calls calldata =
     (let e = read_execute calldata; args = drop 4 (ex_data e)
      in if ex_operation e = 1 \<and> ex_to e = bytes_of MULTI_SEND_ADDRESS
         then map (\<lambda>l. (unat (pl_operation l), pl_to l, nat_of_be (pl_value l), pl_data l))
                (read_legs (bytes_at args (word_at args 0)))
         else [(ex_operation e, ex_to e, ex_value e, ex_data e)])"

definition executes :: "multi_send_call \<Rightarrow> nat \<times> bytes \<times> nat \<times> bytes \<Rightarrow> bool" where
  "executes c e \<longleftrightarrow>
     (case e of (operation, to, value, data) \<Rightarrow>
        operation = 0 \<and> parse_address (ms_to c) = Inr to
        \<and> from_str_radix 256 16 (value_digits (ms_value_hex c)) = Some value \<and> data = ms_data c)"

lemma read_leg:
  assumes "length to = 20" and "length data < 2 ^ 128"
  shows "read_legs ((op # to @ word v @ word (length data) @ data) @ rest)
    = \<lparr>pl_operation = op, pl_to = to, pl_value = word v, pl_data = data\<rparr> # read_legs rest"
proof -
  let ?bs = "(op # to @ word v @ word (length data) @ data) @ rest"
  have "?bs = (op # to @ word v) @ word (length data) @ data @ rest" by simp
  moreover have "word_at ((op # to @ word v) @ word (length data) @ data @ rest) 53
      = word_at (word (length data) @ data @ rest) 0"
    using assms(1) by (subst word_at_skip) simp_all
  ultimately have len: "word_at ?bs 53 = length data" using assms(2) by (simp add: word_at_word)
  have "85 + length data = length (op # to @ word v @ word (length data) @ data)" using assms(1) by simp
  from drop_append_exact [OF this] have rest: "drop (85 + length data) ?bs = rest" .
  have "subslice 85 (85 + length data) ?bs = data"
    "subslice 1 21 ?bs = to" "subslice 21 53 ?bs = word v"
    using assms(1) by (simp_all add: subslice_def)
  then show ?thesis unfolding read_legs.simps [of ?bs] Let_def len rest using assms(1) by simp
qed

lemma encoded_leg:
  assumes "chain_contract E" and "encode_multi_send_call E c = Inr leg" and "length (ms_data c) < 2 ^ 128"
  shows "\<exists>to n. parse_address (ms_to c) = Inr to \<and> from_str_radix 256 16 (value_digits (ms_value_hex c)) = Some n
    \<and> leg = 0 # to @ word n @ word (length (ms_data c)) @ ms_data c"
proof -
  let ?v = "let once = unwrap_or (strip_prefix (ms_value_hex c) ''0x'') (ms_value_hex c)
            in if once = [] then ''0'' else once"
  obtain to w where tw: "parse_address (ms_to c) = Inr to" "uint256 E ?v = Inr w"
    "leg = 0 # to @ w @ word (length (ms_data c)) @ ms_data c"
    using assms(2,3) by (auto simp: encode_multi_send_call_def Let_def attempt_Inr word_usize_word split: if_splits)
  from uint256_Inr [OF assms(1) tw(2)] tw(1,3) show ?thesis
    by (auto simp: value_digits_def Let_def)
qed

lemma from_str_radix_word: "from_str_radix 256 16 s = Some n \<Longrightarrow> nat_of_be (word n) = n"
  using from_str_radix_bound [of 256 16 s n] by (simp add: nat_of_be_be_of_nat)

lemma read_encoded_legs:
  assumes "chain_contract E" and "collect_results (encode_multi_send_call E) calls = Inr legs"
    and "length (concat legs) < 2 ^ 128"
  shows "list_all2 executes calls (map (\<lambda>l. (unat (pl_operation l), pl_to l, nat_of_be (pl_value l), pl_data l))
    (read_legs (concat legs)))"
  using assms(2,3)
proof (induction calls arbitrary: legs)
  case Nil
  then show ?case by (simp add: read_legs.simps)
next
  case (Cons c calls)
  from Cons.prems(1) obtain leg legs' where l: "encode_multi_send_call E c = Inr leg"
    "collect_results (encode_multi_send_call E) calls = Inr legs'" "legs = leg # legs'"
    by (auto simp: attempt_Inr)
  have "length (ms_data c) \<le> length leg"
    using l(1) by (auto simp: encode_multi_send_call_def Let_def attempt_Inr)
  then have "length (ms_data c) < 2 ^ 128" using Cons.prems(2) l(3) by simp
  note small = this
  from encoded_leg [OF assms(1) l(1) small] obtain to n where leg: "parse_address (ms_to c) = Inr to"
    "from_str_radix 256 16 (value_digits (ms_value_hex c)) = Some n"
    "leg = 0 # to @ word n @ word (length (ms_data c)) @ ms_data c" by blast
  have "read_legs (concat legs) = \<lparr>pl_operation = 0, pl_to = to, pl_value = word n, pl_data = ms_data c\<rparr>
      # read_legs (concat legs')"
    using read_leg [OF parse_address_length [OF leg(1)] small, of 0 n "concat legs'"] l(3) leg(3) by simp
  moreover have "list_all2 executes calls (map (\<lambda>l. (unat (pl_operation l), pl_to l, nat_of_be (pl_value l), pl_data l))
      (read_legs (concat legs')))"
    using Cons.IH [OF l(2)] Cons.prems(2) l(3) by simp
  moreover have "executes c (0, to, n, ms_data c)" using leg(1,2) by (simp add: executes_def)
  ultimately show ?case by (simp add: from_str_radix_word [OF leg(2)])
qed

lemma execute_read:
  assumes "chain_contract E" and "length to = 20" and "length data < 2 ^ 128" and "op < 2 ^ 128" and "v < 2 ^ 256"
  shows "read_execute (sel E s @ addr_word to @ word v @ word 128 @ word op @ word (length data) @ data @ pad)
    = \<lparr>ex_to = to, ex_value = v, ex_data = data, ex_operation = op\<rparr>"
proof -
  define args where "args = addr_word to @ word v @ word 128 @ word op @ word (length data) @ data @ pad"
  have "word_at args 32 = v" "word_at args 64 = 128" "word_at args 96 = op" "address_at args 0 = to"
    "bytes_at args 128 = data"
    using assms(2-5) unfolding args_def append_assoc by (simp_all add: read_at)
  moreover have "drop 4 (sel E s @ addr_word to @ word v @ word 128 @ word op @ word (length data) @ data @ pad) = args"
    using assms(1) by (simp add: args_def)
  ultimately show ?thesis by (simp only: read_execute_def Let_def)
qed

lemma single_executed:
  assumes "chain_contract E" and "build_execute_call_data E (ms_to c) (ms_value_hex c) (ms_data c) = Inr cd"
    and "length cd < 2 ^ 64"
  shows "list_all2 executes [c] (executed_calls cd)"
proof -
  from assms(2) obtain to w where tw: "parse_address (ms_to c) = Inr to" "uint256 E (ms_value_hex c) = Inr w"
    "cd = sel E ''executeUserOp(address,uint256,bytes,uint8)'' @ addr_word to @ w @ word_u128 128 @ word_u128 0
       @ word_usize (length (ms_data c)) @ ms_data c @ pad_to_word (length (ms_data c))"
    using assms(1) by (auto simp: build_execute_call_data_def attempt_Inr selector_forms abi_encode_address_Inr)
  obtain n where n: "from_str_radix 256 16 (unwrap_or (strip_prefix (ms_value_hex c) ''0x'') (ms_value_hex c)) = Some n"
    "w = word n" "unwrap_or (strip_prefix (ms_value_hex c) ''0x'') (ms_value_hex c) \<noteq> []"
    "list_all is_ascii_hexdigit (unwrap_or (strip_prefix (ms_value_hex c) ''0x'') (ms_value_hex c))"
    using uint256_Inr [OF assms(1) tw(2)] by blast
  have digits: "from_str_radix 256 16 (value_digits (ms_value_hex c)) = Some n"
    using n by (simp add: value_digits_def hex_digits_no_0x)
  have data: "length (ms_data c) < 2 ^ 128" using assms(3) tw(3) by simp
  have "read_execute cd = \<lparr>ex_to = to, ex_value = n, ex_data = ms_data c, ex_operation = 0\<rparr>"
    using execute_read [OF assms(1) parse_address_length [OF tw(1)] data, of 0 n] from_str_radix_bound [OF n(1)]
    by (simp add: tw(3) n(2) word_u128_word word_usize_word [OF data])
  then show ?thesis using tw(1) digits by (simp add: executed_calls_def executes_def)
qed

lemma batch_executed:
  assumes "chain_contract E" and "build_multi_send_execute_call_data E calls = Inr cd" and "length cd < 2 ^ 64"
  shows "list_all2 executes calls (executed_calls cd)"
proof -
  from assms(2) obtain legs payload where lp: "collect_results (encode_multi_send_call E) calls = Inr legs"
    "payload = sel E ''multiSend(bytes)'' @ word_u128 32 @ word_usize (length (concat legs)) @ concat legs
       @ pad_to_word (length (concat legs))"
    "cd = sel E ''executeUserOp(address,uint256,bytes,uint8)'' @ addr_word (bytes_of MULTI_SEND_ADDRESS) @ word_u128 0
       @ word_u128 128 @ word_u128 1 @ word_usize (length payload) @ payload @ pad_to_word (length payload)"
    using assms(1)
    by (auto simp: build_multi_send_execute_call_data_def attempt_Inr selector_forms address_forms Let_def
        simp del: append_assoc)
  have payload: "length payload < 2 ^ 64" using assms(3) lp(3) by simp
  then have packed: "length (concat legs) < 2 ^ 64" unfolding lp(2) by simp
  have p128: "length payload < 2 ^ 128" "length (concat legs) < 2 ^ 128"
    using payload packed by simp_all
  have "read_execute cd = \<lparr>ex_to = bytes_of MULTI_SEND_ADDRESS, ex_value = 0, ex_data = payload, ex_operation = 1\<rparr>"
    using execute_read [OF assms(1) address_lengths(5) p128(1), of 1 0]
    by (simp add: lp(3) word_u128_word word_usize_word [OF p128(1)])
  moreover have "bytes_at (drop 4 payload) (word_at (drop 4 payload) 0) = concat legs"
  proof -
    have drop: "drop 4 payload = word 32 @ word (length (concat legs)) @ concat legs @ pad_to_word (length (concat legs))"
      unfolding lp(2) using assms(1) by (simp add: word_u128_word word_usize_word [OF p128(2)])
    have "length (concat legs) < 2 ^ 256" using p128(2) by simp
    then show ?thesis unfolding drop by (simp add: word_at_word bytes_at_skip bytes_at_bytes del: length_concat)
  qed
  ultimately show ?thesis
    using read_encoded_legs [OF assms(1) lp(1) p128(2)] by (simp add: executed_calls_def)
qed

section \<open>What the factory deploys\<close>

text \<open>The arguments of \<open>createProxyWithNonce\<close> behind the factory's address, and the account it deploys.\<close>

record creation =
  cr_factory :: bytes
  cr_singleton :: bytes
  cr_initializer :: bytes
  cr_nonce :: bytes

definition read_creation :: "bytes \<Rightarrow> creation" where
  "read_creation init_code =
     (let args = drop 24 init_code
      in \<lparr>cr_factory = take 20 init_code, cr_singleton = address_at args 0,
          cr_initializer = bytes_at args (word_at args 32), cr_nonce = subslice 64 96 args\<rparr>)"

definition deploys :: "chain_env \<Rightarrow> bytes \<Rightarrow> bytes" where
  "deploys E init_code =
     (let c = read_creation init_code
      in drop 12 (keccak256 E (0xff # cr_factory c @ keccak256 E (keccak256 E (cr_initializer c) @ cr_nonce c)
           @ keccak256 E (bytes_of PROXY_CREATION_CODE @ addr_word (cr_singleton c)))))"

lemma init_code_read:
  assumes "chain_contract E" and "length salt = 32" and "length data < 2 ^ 128"
  shows "\<exists>ic. assemble_init_code E data salt = Inr ic
    \<and> read_creation ic = \<lparr>cr_factory = bytes_of SAFE_PROXY_FACTORY, cr_singleton = bytes_of SAFE_SINGLETON,
        cr_initializer = data, cr_nonce = salt\<rparr>"
proof -
  define args where "args = addr_word (bytes_of SAFE_SINGLETON) @ word 96 @ salt @ word (length data) @ data
    @ pad_to_word (length data)"
  have "word_at args 32 = 96" "bytes_at args 96 = data"
    using assms(2,3) unfolding args_def append_assoc by (simp_all add: read_at address_lengths)
  moreover have "address_at args 0 = bytes_of SAFE_SINGLETON"
    unfolding args_def append_assoc by (simp add: read_at address_lengths)
  moreover have "subslice 64 96 args = salt"
    using assms(2) unfolding args_def by (simp add: subslice_def address_lengths)
  moreover have "assemble_init_code E data salt = Inr (bytes_of SAFE_PROXY_FACTORY
      @ sel E ''createProxyWithNonce(address,bytes,uint256)'' @ args)"
    using assms by (simp add: assemble_init_code_def selector_forms address_forms encode_bytes32 word_u128_word
        word_usize_word args_def)
  moreover have "drop 24 (bytes_of SAFE_PROXY_FACTORY @ sel E ''createProxyWithNonce(address,bytes,uint256)'' @ args) = args"
    "take 20 (bytes_of SAFE_PROXY_FACTORY @ sel E ''createProxyWithNonce(address,bytes,uint256)'' @ args)
      = bytes_of SAFE_PROXY_FACTORY"
    using assms(1) by (simp_all add: address_lengths)
  ultimately show ?thesis unfolding read_creation_def Let_def by (intro exI conjI) (assumption, simp)
qed

text \<open>The set-up data of an accepted set is short, so its length is written out in full.\<close>

lemma setup_data_small:
  assumes "chain_contract E" and "compute_safe_address_multi E keys = Inr info"
  shows "length (sa_setup_data info) < 2 ^ 128 \<and> length (sa_salt_nonce info) = 32"
proof -
  from assms obtain first others where valid: "length others \<le> 6" "list_all sized keys" "keys = first # others"
    "info = founding_info E first (sort others)" by (rule founding_cases)
  let ?rest = "sort others" let ?data = "legs_data (setup_legs E first ?rest)" let ?owners = "owners_of E ?rest"
  have sized: "sized first" "list_all sized ?rest" using valid by (simp_all add: list_all_sort)
  have "length ?data < 185 * length (setup_legs E first ?rest) + 100"
    by (rule length_legs_data(1) [OF length_packed_legs [OF setup_legs_sized [OF assms(1) sized]]])
  moreover have "length (setup_legs E first ?rest) \<le> 8" using valid(1) by (simp add: setup_legs_def)
  ultimately have data: "length ?data < 2000" by linarith
  have "\<forall>a\<in>set ?owners. length a = 20" using assms(1) by (auto simp: owners_of_def address_lengths)
  then have "length (concat (map addr_word ?owners)) = 32 * length ?owners" by (rule length_concat_addr_words)
  moreover have "length ?owners \<le> 7" using valid(1) by (simp add: owners_of_def)
  ultimately have owners: "length (concat (map addr_word ?owners)) \<le> 224" by linarith
  have parts: "length (setup_bytes E ?owners ?data) = 4 + 10 * 32 + length (concat (map addr_word ?owners))
      + length ?data + length (padding (length ?data))"
    using assms(1) by (simp add: setup_bytes_def address_lengths del: length_concat)
  have "length (setup_bytes E ?owners ?data) < 3000"
    unfolding parts using data owners length_padding [of "length ?data"] by linarith
  moreover have "(3000 :: nat) < 2 ^ 128" by simp
  ultimately have "length (setup_bytes E ?owners ?data) < 2 ^ 128" by linarith
  then show ?thesis using assms(1) by (simp add: valid(4) founding_info_def Let_def)
qed

lemma build_init_code_Inr:
  assumes "chain_contract E" and "build_init_code_for_keys E hexes = Inr ic"
  shows "\<exists>keys info. collect_results parse_public_key hexes = Inr keys \<and> compute_safe_address_multi E keys = Inr info
    \<and> assemble_init_code E (sa_setup_data info) (sa_salt_nonce info) = Inr ic"
proof -
  obtain info where info: "(case hexes of
         [] \<Rightarrow> Inl (InvalidPublicKey ''a wallet has at least one founding key'')
       | [only] \<Rightarrow> attempt (parse_public_key only) (\<lambda>key. compute_safe_address E (pk_x key) (pk_y key))
       | many \<Rightarrow> attempt (collect_results parse_public_key many) (compute_safe_address_multi E)) = Inr info"
    "assemble_init_code E (sa_setup_data info) (sa_salt_nonce info) = Inr ic"
    using assms(2) unfolding build_init_code_for_keys_def attempt_Inr by blast
  have "\<exists>keys. collect_results parse_public_key hexes = Inr keys \<and> compute_safe_address_multi E keys = Inr info"
  proof (cases hexes rule: remdups_adj.cases)
    case 1
    with info(1) show ?thesis by simp
  next
    case (2 only)
    with info(1) obtain key where "parse_public_key only = Inr key" "compute_safe_address E (pk_x key) (pk_y key) = Inr info"
      by (auto simp: attempt_Inr)
    with 2 show ?thesis by (simp add: multi_single)
  next
    case (3 x y xs)
    then show ?thesis using info(1) by (simp only: list.case attempt_Inr)
  qed
  with info(2) show ?thesis by blast
qed

lemma init_code_founds:
  assumes "chain_contract E" and "build_init_code_for_keys E hexes = Inr ic"
  shows "\<exists>keys info. collect_results parse_public_key hexes = Inr keys \<and> compute_safe_address_multi E keys = Inr info
    \<and> read_creation ic = \<lparr>cr_factory = bytes_of SAFE_PROXY_FACTORY, cr_singleton = bytes_of SAFE_SINGLETON,
        cr_initializer = sa_setup_data info, cr_nonce = sa_salt_nonce info\<rparr>"
proof -
  obtain keys info where k: "collect_results parse_public_key hexes = Inr keys"
    "compute_safe_address_multi E keys = Inr info"
    "assemble_init_code E (sa_setup_data info) (sa_salt_nonce info) = Inr ic"
    using build_init_code_Inr [OF assms] by blast
  show ?thesis
    using setup_data_small [OF assms(1) k(2)] init_code_read [OF assms(1), of "sa_salt_nonce info" "sa_setup_data info"] k
    by auto
qed

lemma collect_results_nth:
  "collect_results f xs = Inr ys \<Longrightarrow> length ys = length xs \<and> (\<forall>i<length xs. f (xs ! i) = Inr (ys ! i))"
proof (induction xs arbitrary: ys)
  case (Cons x xs)
  then obtain y ys' where "f x = Inr y" "collect_results f xs = Inr ys'" "ys = y # ys'"
    by (auto simp: attempt_Inr)
  with Cons.IH [of ys'] show ?case by (auto simp: less_Suc_eq_0_disj)
qed simp

lemma founding_address:
  assumes "chain_contract E" and "compute_safe_address_multi E keys = Inr info"
  shows "parse_address (sa_address info) = Inr (deployed_proxy E (sa_setup_data info) (sa_salt_nonce info))"
proof -
  from assms obtain first others where "info = founding_info E first (sort others)" by (rule founding_cases)
  moreover have "length (deployed_proxy E s n) = 20" for s n using assms(1) by (simp add: deployed_proxy_def)
  ultimately show ?thesis by (simp add: founding_info_def Let_def encode_address_checksum [OF assms(1)])
qed

lemma founding_owners:
  assumes "chain_contract E" and "compute_safe_address_multi E (first # others) = Inr info"
  shows "su_owners (read_setup (sa_setup_data info)) = owners_of E (sort others)"
proof -
  from assms obtain first' others' where valid: "first # others = first' # others'" "length others' \<le> 6"
    "list_all sized (first # others)" "info = founding_info E first' (sort others')" by (rule founding_cases)
  have owners: "\<forall>a\<in>set (owners_of E (sort others)). length a = 20" "length (owners_of E (sort others)) < 2 ^ 32"
    using assms(1) valid(1,2) by (auto simp: owners_of_def address_lengths)
  have data: "length (legs_data (setup_legs E first (sort others))) < 2 ^ 32"
    using length_legs_data(1) [OF length_packed_legs [OF setup_legs_sized [OF assms(1)]], of first "sort others"] valid(1-3)
    by (simp add: setup_legs_def list_all_sort)
  show ?thesis
    using read_setup_bytes [OF assms(1) owners data] valid(1,4) by (simp add: founding_info_def Let_def)
qed

lemma parse_address_WEBAUTHN: "parse_address WEBAUTHN_SIGNER = Inr (bytes_of WEBAUTHN_SIGNER)"
  by (simp add: address_forms)

lemma signer_of_index:
  assumes "chain_contract E" and "build_init_code_for_keys E (map wk_public_key_hex keys) = Inr ic"
    and "position (\<lambda>key. normal_id (wk_credential_id key) = normal_id credential) keys = Some i"
  shows "\<exists>key a b. parse_public_key (wk_public_key_hex (keys ! i)) = Inr key
    \<and> signer_address_for E keys (Some credential) = Inr a \<and> parse_address a = Inr b
    \<and> b = (if i = 0 then bytes_of WEBAUTHN_SIGNER else signer_bytes E key)
    \<and> b \<in> set (su_owners (read_setup (cr_initializer (read_creation ic))))"
proof -
  obtain ks info where k: "collect_results parse_public_key (map wk_public_key_hex keys) = Inr ks"
    "compute_safe_address_multi E ks = Inr info" "cr_initializer (read_creation ic) = sa_setup_data info"
    using init_code_founds [OF assms(1,2)] by auto
  from assms(1) k(2) obtain first others where valid: "ks = first # others" "list_all sized ks"
    by (rule founding_cases) auto
  have owners: "set (su_owners (read_setup (cr_initializer (read_creation ic))))
      = insert (bytes_of WEBAUTHN_SIGNER) (signer_bytes E ` set others)"
    using founding_owners [OF assms(1)] k(2,3) valid(1) by (simp add: owners_of_def)
  have index: "i < length keys" using position_Some [OF assms(3)] by blast
  have len: "length ks = length keys" and keys: "parse_public_key (wk_public_key_hex (keys ! i)) = Inr (ks ! i)"
    using collect_results_nth [OF k(1)] index by simp_all
  show ?thesis
  proof (cases "i = 0")
    case True
    then have "signer_address_for E keys (Some credential) = Inr WEBAUTHN_SIGNER"
      using assms(3) by (auto simp: signer_address_for_def)
    then show ?thesis unfolding owners using True keys parse_address_WEBAUTHN by auto
  next
    case False
    then have i: "i \<noteq> 0" "\<not> length keys \<le> 1" using index by simp_all
    have member: "ks ! i \<in> set others" using index i(1) len valid(1) by (cases i) simp_all
    then have sized: "sized (ks ! i)" using valid by (simp add: list_all_iff)
    have "signer_address_for E keys (Some credential) = Inr (to_checksum E (signer_bytes E (ks ! i)))"
      using assms(3) i keys signer_address_ok [OF assms(1) sized] by (simp add: signer_address_for_def)
    moreover have "parse_address (to_checksum E (signer_bytes E (ks ! i))) = Inr (signer_bytes E (ks ! i))"
      using assms(1) by (simp add: encode_address_checksum)
    ultimately show ?thesis unfolding owners using member keys i(1) by auto
  qed
qed

section \<open>The signature as the account reads it\<close>

text \<open>
  A contract signature: the verifier, the offset of its data and the type byte, then the assertion as
  \<open>abi.decode(bytes, string, uint256, uint256)\<close> reads it.
\<close>

record contract_signature =
  cs_signer :: bytes
  cs_offset :: nat
  cs_type :: u8
  cs_authenticator_data :: bytes
  cs_fields :: bytes
  cs_r :: bytes
  cs_s :: bytes

definition read_signature :: "bytes \<Rightarrow> contract_signature" where
  "read_signature bs =
     (let dynamic = bytes_at bs (word_at bs 32)
      in \<lparr>cs_signer = address_at bs 0, cs_offset = word_at bs 32, cs_type = bs ! 64,
          cs_authenticator_data = bytes_at dynamic (word_at dynamic 0),
          cs_fields = bytes_at dynamic (word_at dynamic 32),
          cs_r = subslice 64 96 dynamic, cs_s = subslice 96 128 dynamic\<rparr>)"

lemma webauthn_sig_form:
  assumes "length r = 32" and "length s = 32" and "length auth < 2 ^ 64" and "length cdf < 2 ^ 64"
  shows "abi_encode_webauthn_sig auth cdf r s = Inr (word 128
     @ word (160 + (length auth + length (padding (length auth)))) @ r @ s
     @ (word (length auth) @ auth @ padding (length auth))
     @ word (length cdf) @ as_bytes cdf @ padding (length cdf))"
proof -
  have "length (padding (length auth)) < 32" by (rule length_padding)
  moreover have "(2 :: nat) ^ 64 + 200 < 2 ^ 128" "(2 :: nat) ^ 64 < 2 ^ 128" by simp_all
  ultimately have "word_usize (160 + (length auth + length (padding (length auth))))
      = word (160 + (length auth + length (padding (length auth))))"
    "word_usize (length auth) = word (length auth)" "word_usize (length cdf) = word (length cdf)"
    using assms(3,4) by (simp_all add: word_usize_word)
  moreover have "word_usize 128 = word 128" by (simp add: word_usize_word)
  ultimately show ?thesis
    using assms(1,2)
    by (simp add: abi_encode_webauthn_sig_def Let_def require_word_def encode_bytes32 pad_to_word_padding)
qed

lemma signature_read:
  assumes "length r = 32" and "length s = 32" and "length auth < 2 ^ 64" and "length cdf < 2 ^ 64"
    and "parse_address signer = Inr a"
  shows "\<exists>bs. build_contract_signature_core auth cdf r s signer = Inr bs
    \<and> read_signature bs = \<lparr>cs_signer = a, cs_offset = 65, cs_type = 0, cs_authenticator_data = auth,
        cs_fields = as_bytes cdf, cs_r = r, cs_s = s\<rparr>"
proof -
  define tail where "tail = word (length cdf) @ as_bytes cdf @ padding (length cdf)"
  define offset where "offset = 160 + (length auth + length (padding (length auth)))"
  define dynamic where "dynamic = word 128 @ word offset @ r @ s @ (word (length auth) @ auth @ padding (length auth)) @ tail"
  have pads: "length (padding n) < 32" for n by (rule length_padding)
  have big: "(2 :: nat) ^ 64 * 10 < 2 ^ 128" "(2 :: nat) ^ 128 < 2 ^ 256" "(2 :: nat) ^ 64 = 18446744073709551616"
    by simp_all
  have a: "length a = 20" by (rule parse_address_length [OF assms(5)])
  have "length dynamic = 192 + length auth + length (padding (length auth)) + length cdf + length (padding (length cdf))"
    using assms(1,2) by (simp add: dynamic_def tail_def)
  then have dyn: "length dynamic < 2 ^ 128" "offset < 2 ^ 256"
    using assms(3,4) pads [of "length auth"] pads [of "length cdf"] big unfolding offset_def by linarith+
  have encoded: "abi_encode_webauthn_sig auth cdf r s = Inr dynamic"
    using webauthn_sig_form [OF assms(1-4)] by (simp add: dynamic_def tail_def offset_def)
  define bs where "bs = addr_word a @ word 65 @ [0] @ word (length dynamic) @ dynamic"
  have built: "build_contract_signature_core auth cdf r s signer = Inr bs"
    using assms(5) dyn(1) by (simp add: build_contract_signature_core_def encoded abi_encode_address_Inr [THEN iffD2]
        word_u128_word word_usize_word bs_def)
  have heads: "address_at bs 0 = a" "word_at bs 32 = 65" "bs ! 64 = 0"
    using a unfolding bs_def append_assoc by (simp_all add: read_at nth_append)
  have data: "bytes_at bs 65 = dynamic"
  proof -
    have "bs = (addr_word a @ word 65 @ [0]) @ word (length dynamic) @ dynamic @ []" by (simp add: bs_def)
    also have "bytes_at \<dots> 65 = bytes_at (word (length dynamic) @ dynamic @ []) 0"
      using a by (subst bytes_at_skip) simp_all
    also have "\<dots> = dynamic" using dyn(1) big(2) by (intro bytes_at_bytes) linarith
    finally show ?thesis .
  qed
  have "length auth < 2 ^ 256" "length (as_bytes cdf) < 2 ^ 256" using assms(3,4) by simp_all
  then have inner: "word_at dynamic 0 = 128" "word_at dynamic 32 = offset" "bytes_at dynamic 128 = auth"
    "subslice 64 96 dynamic = r" "subslice 96 128 dynamic = s"
    using assms(1,2) dyn(2) unfolding dynamic_def append_assoc
    by (simp_all add: read_at) (simp_all add: subslice_def)
  have fields_read: "bytes_at dynamic offset = as_bytes cdf"
  proof -
    have "dynamic = (word 128 @ word offset @ r @ s @ word (length auth) @ auth @ padding (length auth)) @ tail"
      by (simp add: dynamic_def)
    also have "bytes_at \<dots> offset = bytes_at tail 0"
      using assms(1,2) by (subst bytes_at_skip) (simp_all add: offset_def)
    also have "\<dots> = as_bytes cdf"
      using bytes_at_bytes [of "as_bytes cdf"] assms(4) by (simp add: tail_def)
    finally show ?thesis .
  qed
  have "read_signature bs = \<lparr>cs_signer = a, cs_offset = 65, cs_type = 0, cs_authenticator_data = auth,
        cs_fields = as_bytes cdf, cs_r = r, cs_s = s\<rparr>"
    unfolding read_signature_def Let_def heads data inner fields_read by (rule refl)
  with built show ?thesis by blast
qed

section \<open>What a signature commits to\<close>

text \<open>
  The part of an operation that is hashed: its sender as an address, its nonce as a number, and the
  rest as it is, but for the signature.
\<close>

definition signed_view :: "chain_env \<Rightarrow> user_operation \<Rightarrow> (core_error + bytes) \<times> (core_error + bytes) \<times> user_operation" where
  "signed_view E op =
     (abi_encode_address (uo_sender op), uint256 E (uo_nonce op),
      op\<lparr>uo_sender := [], uo_nonce := [], uo_signature := []\<rparr>)"

definition domain_preimage :: "chain_env \<Rightarrow> u64 \<Rightarrow> bytes" where
  "domain_preimage E chain_id =
     keccak256 E (as_bytes DOMAIN_TYPE) @ word_u128 (ucast chain_id) @ addr_word (bytes_of SAFE_4337_MODULE)"

definition safe_op_preimages :: "chain_env \<Rightarrow> user_operation \<Rightarrow> u64 \<Rightarrow> bytes list" where
  "safe_op_preimages E op chain_id =
     (case safe_op_struct E op of
        Inl _ \<Rightarrow> []
      | Inr struct \<Rightarrow> [[0x19, 0x01] @ keccak256 E (domain_preimage E chain_id) @ keccak256 E struct, struct,
          domain_preimage E chain_id, uo_init_code op, uo_call_data op, uo_paymaster_and_data op])"

definition full_collision :: "chain_env \<Rightarrow> bytes \<times> bytes \<Rightarrow> bool" where
  "full_collision E p \<longleftrightarrow> fst p \<noteq> snd p \<and> keccak256 E (fst p) = keccak256 E (snd p)"

lemma word_u128_injective [simp]: "word_u128 a = word_u128 b \<longleftrightarrow> a = b"
proof
  assume "word_u128 a = word_u128 b"
  then have "nat_of_be (word (unat a)) = nat_of_be (word (unat b))" by (simp add: word_u128_word)
  moreover have "unat v < 256 ^ 32" for v :: u128
  proof -
    have "unat v < 2 ^ LENGTH(128)" by (rule unsigned_less)
    then show ?thesis by simp
  qed
  ultimately have "unat a = unat b" by (simp add: nat_of_be_be_of_nat_id)
  then show "a = b" by (rule unsigned_word_eqI)
qed simp

lemma length_word_u128 [simp]: "length (word_u128 v) = 32"
  by (simp add: word_u128_word)

lemma unat_ucast_u64: "unat (ucast (c :: u64) :: u128) = unat c"
proof -
  have "unat c < 2 ^ LENGTH(64)" by (rule unsigned_less)
  then show ?thesis by (simp add: unsigned_ucast_eq take_bit_nat_eq_self)
qed

lemma ucast_u64_injective: "(ucast a :: u128) = ucast b \<longleftrightarrow> a = (b :: u64)"
  by (metis unat_ucast_u64 unsigned_word_eqI)

lemma safe_op_struct_Inr:
  "safe_op_struct E op = Inr bs \<longleftrightarrow> (\<exists>sender nonce. abi_encode_address (uo_sender op) = Inr sender
     \<and> uint256 E (uo_nonce op) = Inr nonce
     \<and> bs = keccak256 E (as_bytes SAFE_OP_TYPE) @ sender @ nonce @ keccak256 E (uo_init_code op)
          @ keccak256 E (uo_call_data op) @ word_u128 (uo_verification_gas_limit op)
          @ word_u128 (uo_call_gas_limit op) @ word_u128 (uo_pre_verification_gas op)
          @ word_u128 (uo_max_priority_fee_per_gas op) @ word_u128 (uo_max_fee_per_gas op)
          @ keccak256 E (uo_paymaster_and_data op) @ word_u128 0 @ word_u128 0 @ addr_word (bytes_of ENTRY_POINT))"
  by (auto simp: safe_op_struct_def attempt_Inr address_forms)

lemma struct_binds:
  assumes "chain_contract E" and "safe_op_struct E op = Inr bs" and "safe_op_struct E op' = Inr bs"
    and "\<not> full_collision E (uo_init_code op, uo_init_code op')" and "\<not> full_collision E (uo_call_data op, uo_call_data op')"
    and "\<not> full_collision E (uo_paymaster_and_data op, uo_paymaster_and_data op')"
  shows "signed_view E op = signed_view E op'"
proof -
  have len: "abi_encode_address s = Inr w \<Longrightarrow> length w = 32" "uint256 E v = Inr w \<Longrightarrow> length w = 32" for s v w
    using uint256_Inr [OF assms(1), of v w] by (auto simp: abi_encode_address_Inr dest: parse_address_length)
  from assms(2,3) obtain s n s' n' where parts:
    "abi_encode_address (uo_sender op) = Inr s" "uint256 E (uo_nonce op) = Inr n"
    "abi_encode_address (uo_sender op') = Inr s'" "uint256 E (uo_nonce op') = Inr n'"
    "s @ n @ keccak256 E (uo_init_code op) @ keccak256 E (uo_call_data op) @ word_u128 (uo_verification_gas_limit op)
       @ word_u128 (uo_call_gas_limit op) @ word_u128 (uo_pre_verification_gas op)
       @ word_u128 (uo_max_priority_fee_per_gas op) @ word_u128 (uo_max_fee_per_gas op)
       @ keccak256 E (uo_paymaster_and_data op)
     = s' @ n' @ keccak256 E (uo_init_code op') @ keccak256 E (uo_call_data op') @ word_u128 (uo_verification_gas_limit op')
       @ word_u128 (uo_call_gas_limit op') @ word_u128 (uo_pre_verification_gas op')
       @ word_u128 (uo_max_priority_fee_per_gas op') @ word_u128 (uo_max_fee_per_gas op')
       @ keccak256 E (uo_paymaster_and_data op')"
    unfolding safe_op_struct_Inr by auto
  have "s = s'" "n = n'" "keccak256 E (uo_init_code op) = keccak256 E (uo_init_code op')"
    "keccak256 E (uo_call_data op) = keccak256 E (uo_call_data op')"
    "uo_verification_gas_limit op = uo_verification_gas_limit op'" "uo_call_gas_limit op = uo_call_gas_limit op'"
    "uo_pre_verification_gas op = uo_pre_verification_gas op'"
    "uo_max_priority_fee_per_gas op = uo_max_priority_fee_per_gas op'"
    "uo_max_fee_per_gas op = uo_max_fee_per_gas op'"
    "keccak256 E (uo_paymaster_and_data op) = keccak256 E (uo_paymaster_and_data op')"
    using parts(5) len(1) [OF parts(1)] len(2) [OF parts(2)] len(1) [OF parts(3)] len(2) [OF parts(4)] assms(1)
    by simp_all
  moreover from this assms(4-6) have "uo_init_code op = uo_init_code op'" "uo_call_data op = uo_call_data op'"
    "uo_paymaster_and_data op = uo_paymaster_and_data op'" by (auto simp: full_collision_def)
  ultimately show ?thesis using parts(1-4) by (cases op; cases op') (simp add: signed_view_def)
qed

lemma domain_separator_module:
  "domain_separator E chain_id SAFE_4337_MODULE = Inr (keccak256 E (domain_preimage E chain_id))"
  by (simp add: domain_separator_def address_forms domain_preimage_def)

lemma safe_op_hash_Inr:
  "calculate_safe_op_hash E op chain_id = Inr h \<longleftrightarrow> (\<exists>bs. safe_op_struct E op = Inr bs
     \<and> h = keccak256 E ([0x19, 0x01] @ keccak256 E (domain_preimage E chain_id) @ keccak256 E bs))"
  by (auto simp: calculate_safe_op_hash_def attempt_Inr domain_separator_module eip712_digest_def)

text \<open>
  C7: what the passkey signs is one operation. Two operations with the same SafeOp hash have the same
  sender address, nonce, init code, calldata, gas fields and paymaster data and are for the same chain
  (the signature aside), unless one of the six pairs of inputs the two computations hash is a collision.
\<close>

theorem safe_op_hash_binds:
  assumes "chain_contract E" and "calculate_safe_op_hash E op chain_id = Inr h"
    and "calculate_safe_op_hash E op' chain_id' = Inr h"
  shows "(chain_id = chain_id' \<and> signed_view E op = signed_view E op')
    \<or> list_ex (full_collision E) (zip (safe_op_preimages E op chain_id) (safe_op_preimages E op' chain_id'))"
proof (rule disjCI)
  assume no: "\<not> list_ex (full_collision E) (zip (safe_op_preimages E op chain_id) (safe_op_preimages E op' chain_id'))"
  from assms(2,3) obtain bs bs' where structs: "safe_op_struct E op = Inr bs" "safe_op_struct E op' = Inr bs'"
    "keccak256 E ([0x19, 0x01] @ keccak256 E (domain_preimage E chain_id) @ keccak256 E bs)
     = keccak256 E ([0x19, 0x01] @ keccak256 E (domain_preimage E chain_id') @ keccak256 E bs')"
    unfolding safe_op_hash_Inr by auto
  have free: "\<not> full_collision E ([0x19, 0x01] @ keccak256 E (domain_preimage E chain_id) @ keccak256 E bs,
       [0x19, 0x01] @ keccak256 E (domain_preimage E chain_id') @ keccak256 E bs')"
    "\<not> full_collision E (bs, bs')" "\<not> full_collision E (domain_preimage E chain_id, domain_preimage E chain_id')"
    "\<not> full_collision E (uo_init_code op, uo_init_code op')" "\<not> full_collision E (uo_call_data op, uo_call_data op')"
    "\<not> full_collision E (uo_paymaster_and_data op, uo_paymaster_and_data op')"
    using no by (simp_all add: safe_op_preimages_def structs)
  have invert: "\<not> full_collision E (a, b) \<Longrightarrow> keccak256 E a = keccak256 E b \<Longrightarrow> a = b" for a b
    by (simp add: full_collision_def)
  have "keccak256 E (domain_preimage E chain_id) @ keccak256 E bs = keccak256 E (domain_preimage E chain_id') @ keccak256 E bs'"
    using invert [OF free(1) structs(3)] by simp
  then have eqs: "keccak256 E (domain_preimage E chain_id) = keccak256 E (domain_preimage E chain_id')"
    "keccak256 E bs = keccak256 E bs'" using assms(1) by simp_all
  have "bs = bs'" by (rule invert [OF free(2) eqs(2)])
  then have "signed_view E op = signed_view E op'"
    using struct_binds [OF assms(1) structs(1) _ free(4-6)] structs(2) by simp
  moreover have "chain_id = chain_id'"
    using invert [OF free(3) eqs(1)] by (simp add: domain_preimage_def ucast_u64_injective)
  ultimately show "chain_id = chain_id' \<and> signed_view E op = signed_view E op'" by simp
qed

definition example_op :: user_operation where
  "example_op = \<lparr>uo_sender = to_hex (replicate 20 7) True, uo_nonce = ''0x5'', uo_init_code = [], uo_call_data = [1, 2, 3],
     uo_verification_gas_limit = 100, uo_call_gas_limit = 200, uo_pre_verification_gas = 300, uo_max_fee_per_gas = 400,
     uo_max_priority_fee_per_gas = 500, uo_paymaster_and_data = [], uo_signature = [9]\<rparr>"

lemma example_op_nonce: "uint256 example_chain ''0x5'' = Inr (word 5)"
  using uint256_digits(2) [OF example_chain_contract, of "''5''" 5]
  by (simp add: is_ascii_hexdigit_def is_digit_def to_digit_def from_str_radix_def digits_value_def)

lemma example_op_struct: "\<exists>bs. safe_op_struct example_chain (example_op\<lparr>uo_signature := sig\<rparr>) = Inr bs"
  by (simp add: safe_op_struct_Inr example_op_def abi_encode_address_Inr example_op_nonce parse_address_def)

theorem safe_op_hash_binds_witness:
  "signed_view example_chain example_op = signed_view example_chain (example_op\<lparr>uo_signature := [1]\<rparr>)
   \<or> list_ex (full_collision example_chain)
       (zip (safe_op_preimages example_chain example_op 1)
            (safe_op_preimages example_chain (example_op\<lparr>uo_signature := [1]\<rparr>) 1))"
proof -
  obtain bs where bs: "safe_op_struct example_chain (example_op\<lparr>uo_signature := [1]\<rparr>) = Inr bs"
    using example_op_struct by blast
  then have "safe_op_struct example_chain example_op = Inr bs" by (simp add: safe_op_struct_Inr)
  with bs obtain h where "calculate_safe_op_hash example_chain example_op 1 = Inr h"
    "calculate_safe_op_hash example_chain (example_op\<lparr>uo_signature := [1]\<rparr>) 1 = Inr h"
    unfolding safe_op_hash_Inr by blast
  from safe_op_hash_binds [OF example_chain_contract this] show ?thesis by blast
qed

text \<open>
  C11: the calldata executes the calls. Read as the account's module and \<open>MultiSend\<close> read it, the calldata
  built for a list of calls performs exactly those calls, in their order, each a plain CALL to its
  address with its value and data, whether it is sent alone or as a batch.
\<close>

theorem call_data_executes:
  assumes "chain_contract E" and "build_native_call_data E calls always = Inr cd" and "length cd < 2 ^ 64"
  shows "list_all2 executes calls (executed_calls cd)"
proof -
  consider only where "calls = [only]" "\<not> always"
    | "build_native_call_data E calls always = build_multi_send_execute_call_data E calls"
    by (cases "(E, calls, always)" rule: build_native_call_data.cases) auto
  then show ?thesis
  proof cases
    case 1
    then show ?thesis using assms single_executed [OF assms(1), of only cd] by simp
  next
    case 2
    then show ?thesis using assms batch_executed [OF assms(1), of calls cd] by simp
  qed
qed

theorem call_data_executes_witness:
  "\<exists>cd. build_native_call_data example_chain [\<lparr>ms_to = to_hex (replicate 20 3) True, ms_value_hex = ''0x5'', ms_data = [1, 2]\<rparr>] False
       = Inr cd
     \<and> list_all2 executes [\<lparr>ms_to = to_hex (replicate 20 3) True, ms_value_hex = ''0x5'', ms_data = [1, 2]\<rparr>] (executed_calls cd)"
proof -
  let ?c = "\<lparr>ms_to = to_hex (replicate 20 3) True, ms_value_hex = ''0x5'', ms_data = [1, 2]\<rparr>"
  have "\<exists>cd. build_native_call_data example_chain [?c] False = Inr cd \<and> length cd < 2 ^ 64"
    using example_chain_contract
    by (simp add: build_execute_call_data_def selector_forms abi_encode_address_def copy_at_def parse_address_def
        example_op_nonce word_u128_word word_usize_word pad_to_word_def)
  then obtain cd where cd: "build_native_call_data example_chain [?c] False = Inr cd" "length cd < 2 ^ 64" by blast
  from call_data_executes [OF example_chain_contract cd] cd(1) show ?thesis by blast
qed

text \<open>
  C16: the first operation deploys the account it is sent from. For every key set whose init code is built,
  the keys parse, their founding address is computed, and the proxy the factory deploys for that init
  code has exactly that address.
\<close>

theorem init_code_deploys_account:
  assumes "chain_contract E" and "build_init_code_for_keys E hexes = Inr ic"
  shows "\<exists>keys info. collect_results parse_public_key hexes = Inr keys \<and> compute_safe_address_multi E keys = Inr info
    \<and> cr_factory (read_creation ic) = bytes_of SAFE_PROXY_FACTORY
    \<and> cr_initializer (read_creation ic) = sa_setup_data info
    \<and> parse_address (sa_address info) = Inr (deploys E ic)"
proof -
  obtain keys info where k: "collect_results parse_public_key hexes = Inr keys" "compute_safe_address_multi E keys = Inr info"
    "read_creation ic = \<lparr>cr_factory = bytes_of SAFE_PROXY_FACTORY, cr_singleton = bytes_of SAFE_SINGLETON,
        cr_initializer = sa_setup_data info, cr_nonce = sa_salt_nonce info\<rparr>"
    using init_code_founds [OF assms] by blast
  then have "deploys E ic = deployed_proxy E (sa_setup_data info) (sa_salt_nonce info)"
    by (simp add: deploys_def deployed_proxy_def Let_def)
  with k founding_address [OF assms(1) k(2)] show ?thesis by auto
qed

definition key_text :: "u8 \<Rightarrow> string" where
  "key_text n = ''04'' @ to_hex (replicate 64 n) False"

lemma key_text_parses: "n \<noteq> 0 \<Longrightarrow> parse_public_key (key_text n) = Inr \<lparr>pk_x = replicate 32 n, pk_y = replicate 32 n\<rparr>"
  by (simp add: parse_public_key_def key_text_def strip_prefix_def starts_with_def length_to_hex Let_def)

definition two_wallet_keys :: "wallet_key list" where
  "two_wallet_keys = [\<lparr>wk_credential_id = ''0xaa'', wk_public_key_hex = key_text 5\<rparr>,
     \<lparr>wk_credential_id = ''bb'', wk_public_key_hex = key_text 6\<rparr>]"

lemma two_wallet_keys_built: "\<exists>ic. build_init_code_for_keys example_chain (map wk_public_key_hex two_wallet_keys) = Inr ic"
proof -
  let ?keys = "[\<lparr>pk_x = replicate 32 5, pk_y = replicate 32 5\<rparr>, \<lparr>pk_x = replicate 32 6, pk_y = replicate 32 6\<rparr>]"
  have "\<exists>info. compute_safe_address_multi example_chain ?keys = Inr info"
    using multi_ok [OF example_chain_contract, of "tl ?keys" "hd ?keys"] by (simp add: sized_def)
  then obtain info where info: "compute_safe_address_multi example_chain ?keys = Inr info" by blast
  with setup_data_small [OF example_chain_contract info]
    init_code_read [OF example_chain_contract, of "sa_salt_nonce info" "sa_setup_data info"]
  show ?thesis by (auto simp: build_init_code_for_keys_def two_wallet_keys_def key_text_parses)
qed

theorem init_code_deploys_account_witness:
  "\<exists>ic (info :: safe_address_info). build_init_code_for_keys example_chain (map wk_public_key_hex two_wallet_keys) = Inr ic
     \<and> parse_address (sa_address info) = Inr (deploys example_chain ic)"
proof -
  obtain ic where ic: "build_init_code_for_keys example_chain (map wk_public_key_hex two_wallet_keys) = Inr ic"
    using two_wallet_keys_built by blast
  from init_code_deploys_account [OF example_chain_contract ic] ic show ?thesis by blast
qed



text \<open>
  C27: the signature is read as it was meant. Behind its twelve bytes of validity window the signature of
  an operation names the verifier, points at its data behind itself, is of the contract kind, and
  decodes to the assertion's authenticator data, client-data fields and both halves of the signature;
  the EIP-1271 form is the same without the window.
\<close>

theorem signature_read_back:
  assumes "length r = 32" and "length s = 32" and "length auth < 2 ^ 64" and "length cdf < 2 ^ 64"
    and "parse_address signer = Inr a"
  shows "\<exists>bs. build_eip1271_signature auth cdf r s signer = Inr bs
    \<and> build_user_op_signature auth cdf r s signer = Inr (zeros 12 @ bs)
    \<and> read_signature bs = \<lparr>cs_signer = a, cs_offset = 65, cs_type = 0, cs_authenticator_data = auth,
        cs_fields = as_bytes cdf, cs_r = r, cs_s = s\<rparr>"
  using signature_read [OF assms] by (auto simp: build_eip1271_signature_def build_user_op_signature_def)

theorem signature_read_back_witness:
  "\<exists>bs. build_user_op_signature [1, 2] ''x'' (replicate 32 3) (replicate 32 4) WEBAUTHN_SIGNER = Inr (zeros 12 @ bs)
     \<and> cs_signer (read_signature bs) = bytes_of WEBAUTHN_SIGNER \<and> cs_authenticator_data (read_signature bs) = [1, 2]"
  using signature_read_back [OF _ _ _ _ parse_address_WEBAUTHN, of "replicate 32 3" "replicate 32 4" "[1, 2]" "''x''"]
  by fastforce

section \<open>The wire form and the operation's hash\<close>

text \<open>
  The bundler's reading of the wire form: absent fields are empty, quantities are hexadecimal, the factory
  and its data are the init code, the paymaster is followed by its two gas limits and its data.
\<close>

definition wire_bytes :: "json \<Rightarrow> string \<Rightarrow> bytes" where
  "wire_bytes j k = bytes_of (unwrap_or (text_of j k) [])"

definition wire_gas :: "json \<Rightarrow> string \<Rightarrow> nat" where
  "wire_gas j k = unwrap_or (from_str_radix 128 16 (drop 2 (unwrap_or (text_of j k) ''0x0''))) 0"

definition repacked :: "chain_env \<Rightarrow> json \<Rightarrow> core_error + bytes" where
  "repacked E j =
     attempt (abi_encode_address (unwrap_or (text_of j ''sender'') [])) (\<lambda>sender.
     attempt (uint256 E (unwrap_or (text_of j ''nonce'') [])) (\<lambda>nonce.
     Inr (sender @ nonce @ keccak256 E (wire_bytes j ''factory'' @ wire_bytes j ''factoryData'')
       @ keccak256 E (wire_bytes j ''callData'')
       @ be_of_nat 16 (wire_gas j ''verificationGasLimit'') @ be_of_nat 16 (wire_gas j ''callGasLimit'')
       @ word (wire_gas j ''preVerificationGas'')
       @ be_of_nat 16 (wire_gas j ''maxPriorityFeePerGas'') @ be_of_nat 16 (wire_gas j ''maxFeePerGas'')
       @ keccak256 E (if get j ''paymaster'' = None then []
           else wire_bytes j ''paymaster'' @ be_of_nat 16 (wire_gas j ''paymasterVerificationGasLimit'')
             @ be_of_nat 16 (wire_gas j ''paymasterPostOpGasLimit'') @ wire_bytes j ''paymasterData''))))"

definition wire_hash :: "chain_env \<Rightarrow> json \<Rightarrow> u64 \<Rightarrow> core_error + string" where
  "wire_hash E j chain_id =
     attempt (repacked E j) (\<lambda>packed.
     Inr (to_hex (keccak256 E (keccak256 E packed @ addr_word (bytes_of ENTRY_POINT) @ word (unat chain_id))) True))"

definition WIRE_FIELDS :: "string list" where
  "WIRE_FIELDS = [''sender'', ''nonce'', ''callData'', ''callGasLimit'', ''verificationGasLimit'', ''preVerificationGas'',
     ''maxFeePerGas'', ''maxPriorityFeePerGas'', ''signature'', ''factory'', ''factoryData'', ''paymaster'',
     ''paymasterData'', ''paymasterVerificationGasLimit'', ''paymasterPostOpGasLimit'']"

lemma map_of_extras:
  "k' \<notin> fst ` set extra \<Longrightarrow> map_of (fold (\<lambda>(k, v). insert_key k (String v)) extra kvs) k' = map_of kvs k'"
  by (induction extra arbitrary: kvs) (auto simp: map_of_insert_key)

lemma wire_get:
  assumes "fst ` set extra \<inter> set WIRE_FIELDS = {}" and "k \<in> set WIRE_FIELDS"
  shows "get (user_op_to_json op extra) k = map_of (user_op_fields op) k"
  using assms by (simp add: user_op_to_json_def) (intro map_of_extras, blast)

lemma bytes_of_to_hex [simp]: "bytes_of (to_hex b p) = b"
  by (simp add: bytes_of_def)

lemma bytes_of_Nil [simp]: "bytes_of [] = []"
  by (simp add: bytes_of_def from_hex_def strip_prefix_def starts_with_def)

lemma quantity_read: "from_str_radix 128 16 (show_hex (unat (v :: u128))) = Some (unat v)"
proof -
  have "unat v < 2 ^ LENGTH(128)" by (rule unsigned_less)
  then show ?thesis using from_str_radix_show [of 16 "unat v" 128] by (simp add: show_hex_def)
qed

lemma zero_read: "from_str_radix 128 16 ''0'' = Some 0"
  by (simp add: from_str_radix_def digits_value_def to_digit_def)

lemma wire_values:
  fixes op :: user_operation and extra :: "(string \<times> string) list"
  assumes "fst ` set extra \<inter> set WIRE_FIELDS = {}"
  defines "j \<equiv> user_op_to_json op extra"
  shows "text_of j ''sender'' = Some (uo_sender op)" "text_of j ''nonce'' = Some (uo_nonce op)"
    "wire_bytes j ''factory'' @ wire_bytes j ''factoryData'' = packed_init_code op"
    "wire_bytes j ''callData'' = uo_call_data op"
    "wire_gas j ''verificationGasLimit'' = unat (uo_verification_gas_limit op)"
    "wire_gas j ''callGasLimit'' = unat (uo_call_gas_limit op)"
    "wire_gas j ''preVerificationGas'' = unat (uo_pre_verification_gas op)"
    "wire_gas j ''maxPriorityFeePerGas'' = unat (uo_max_priority_fee_per_gas op)"
    "wire_gas j ''maxFeePerGas'' = unat (uo_max_fee_per_gas op)"
    "(if get j ''paymaster'' = None then []
           else wire_bytes j ''paymaster'' @ be_of_nat 16 (wire_gas j ''paymasterVerificationGasLimit'')
             @ be_of_nat 16 (wire_gas j ''paymasterPostOpGasLimit'') @ wire_bytes j ''paymasterData'') = packed_paymaster op"
proof -
  have get: "k \<in> set WIRE_FIELDS \<Longrightarrow> get j k = map_of (user_op_fields op) k" for k
    unfolding j_def by (rule wire_get [OF assms(1)])
  note read = text_of_def wire_bytes_def wire_gas_def get WIRE_FIELDS_def user_op_fields_def quantity_def hex_json_def
    quantity_read zero_read
  show "text_of j ''sender'' = Some (uo_sender op)" by (simp add: read)
  show "text_of j ''nonce'' = Some (uo_nonce op)" by (simp add: read)
  show "wire_bytes j ''factory'' @ wire_bytes j ''factoryData'' = packed_init_code op"
    by (simp add: read packed_init_code_def)
  show "wire_bytes j ''callData'' = uo_call_data op" by (simp add: read)
  show "wire_gas j ''verificationGasLimit'' = unat (uo_verification_gas_limit op)" by (simp add: read)
  show "wire_gas j ''callGasLimit'' = unat (uo_call_gas_limit op)" by (simp add: read)
  show "wire_gas j ''preVerificationGas'' = unat (uo_pre_verification_gas op)" by (simp add: read)
  show "wire_gas j ''maxPriorityFeePerGas'' = unat (uo_max_priority_fee_per_gas op)" by (simp add: read)
  show "wire_gas j ''maxFeePerGas'' = unat (uo_max_fee_per_gas op)" by (simp add: read)
  have z: "be_of_nat 16 0 @ be_of_nat 16 0 @ b = zeros 32 @ b" for b
    by (simp add: be_of_nat_0 flip: append_assoc replicate_add)
  show "(if get j ''paymaster'' = None then []
           else wire_bytes j ''paymaster'' @ be_of_nat 16 (wire_gas j ''paymasterVerificationGasLimit'')
             @ be_of_nat 16 (wire_gas j ''paymasterPostOpGasLimit'') @ wire_bytes j ''paymasterData'') = packed_paymaster op"
    by (simp add: read packed_paymaster_def z)
qed

text \<open>
  C28: the hash the wallet follows is the hash of what it sends. Whatever the operation, repacking its
  wire form as the bundler does gives the EntryPoint hash the wallet computed (or the same error),
  with any extension fields that are not the operation's own.
\<close>

theorem user_op_hash_of_wire:
  assumes "fst ` set extra \<inter> set WIRE_FIELDS = {}"
  shows "wire_hash E (user_op_to_json op extra) chain_id = user_op_hash E op chain_id"
proof -
  have "word_u128 (ucast chain_id) = word (unat chain_id)" by (simp add: word_u128_word unat_ucast_u64)
  then show ?thesis
    by (cases "abi_encode_address (uo_sender op)"; cases "uint256 E (uo_nonce op)")
      (simp_all add: wire_hash_def repacked_def wire_values [OF assms] user_op_hash_def gas_pair_def word_u128_word
        address_forms Let_def del: append_assoc, simp_all)
qed

theorem user_op_hash_of_wire_witness:
  "wire_hash example_chain (user_op_to_json example_op [(''feeToken'', ''0x1'')]) 1 = user_op_hash example_chain example_op 1"
  by (rule user_op_hash_of_wire) (simp add: WIRE_FIELDS_def)

section \<open>The fields of the client data\<close>

text \<open>The verifier's template: the client data it rebuilds around a challenge and the fields.\<close>

definition CLIENT_DATA_HEAD :: string where
  "CLIENT_DATA_HEAD = ''{'' @ [CHR 0x22] @ ''type'' @ [CHR 0x22] @ '':'' @ [CHR 0x22] @ ''webauthn.get'' @ [CHR 0x22] @ '',''"

definition CHALLENGE_KEY :: string where
  "CHALLENGE_KEY = [CHR 0x22] @ ''challenge'' @ [CHR 0x22] @ '':'' @ [CHR 0x22]"

definition rebuilt_client_data :: "string \<Rightarrow> string \<Rightarrow> string" where
  "rebuilt_client_data challenge cdf = CLIENT_DATA_HEAD @ CHALLENGE_KEY @ challenge @ [CHR 0x22] @ '','' @ cdf @ ''}''"

lemma split_once_quote: "CHR 0x22 \<notin> set s \<Longrightarrow> split_once (s @ [CHR 0x22] @ r) [CHR 0x22] = Some (s, r)"
  by (induction s) (auto simp: starts_with_def)

lemma split_at_challenge: "split_once (CLIENT_DATA_HEAD @ CHALLENGE_KEY @ r) CHALLENGE_KEY = Some (CLIENT_DATA_HEAD, r)"
  by (simp add: CLIENT_DATA_HEAD_def CHALLENGE_KEY_def starts_with_def)

lemma valid_utf8_append_ascii: "is_ascii a \<Longrightarrow> valid_utf8 (a @ s) = valid_utf8 s"
  by (induction a) (simp_all add: is_ascii_def valid_utf8_Cons)

lemma valid_utf8_lead:
  assumes "valid_utf8 s" and "s \<noteq> []"
  shows "\<not> (128 \<le> byte_of (hd s) \<and> byte_of (hd s) < 192)"
proof -
  obtain c r where s: "s = c # r" using assms(2) by (cases s) auto
  have "fst (utf8_step s)" using assms by (simp add: valid_utf8.simps [of s] split: prod.splits if_splits)
  then show ?thesis by (auto simp: s utf8_step_def byte_at_def Let_def split: if_splits)
qed

text \<open>
  The client data is rebuilt byte for byte. For the client data of an assertion with the challenge in
  its usual place, the fields the wallet sends make the verifier's template reproduce exactly the bytes
  the authenticator signed.
\<close>

theorem client_data_rebuilt:
  assumes "is_ascii challenge" and "CHR 0x22 \<notin> set challenge" and "valid_utf8 (cdf @ ''}'')" and "cdf \<noteq> []"
  shows "rebuilt_client_data challenge (extract_client_data_fields (as_bytes (rebuilt_client_data challenge cdf)))
    = rebuilt_client_data challenge cdf"
proof -
  let ?json = "rebuilt_client_data challenge cdf"
  have ascii: "is_ascii (CLIENT_DATA_HEAD @ CHALLENGE_KEY @ challenge @ [CHR 0x22] @ '','')"
    using assms(1) by (auto simp: is_ascii_def CLIENT_DATA_HEAD_def CHALLENGE_KEY_def)
  have valid: "valid_utf8 ?json"
    using valid_utf8_append_ascii [OF ascii, of "cdf @ ''}''"] assms(3) by (simp add: rebuilt_client_data_def)
  define start where "start = length CLIENT_DATA_HEAD + length CHALLENGE_KEY + length challenge + 2"
  have json: "?json = (CLIENT_DATA_HEAD @ CHALLENGE_KEY @ challenge @ [CHR 0x22] @ '','') @ cdf @ ''}''"
    by (simp add: rebuilt_client_data_def)
  have front: "length (CLIENT_DATA_HEAD @ CHALLENGE_KEY @ challenge @ [CHR 0x22] @ '','') = start"
    by (simp add: start_def)
  have len: "length ?json = start + length cdf + 1" unfolding json length_append [of _ "cdf @ ''}''"] front by simp
  have at: "?json ! start = hd cdf" "?json ! (start + length cdf) = CHR ''}''"
    unfolding json using front assms(4) by (simp_all only: nth_append) (simp_all add: hd_conv_nth nth_append)
  have "\<not> (128 \<le> byte_of (hd cdf) \<and> byte_of (hd cdf) < 192)"
    using valid_utf8_lead [OF assms(3)] assms(4) by (simp add: hd_append)
  then have slice: "str_slice ?json start (start + length cdf) = Some cdf"
    using at len front unfolding str_slice_def is_char_boundary_def
    by (simp add: json subslice_def del: append_assoc)
  have "extract_client_data_fields (as_bytes ?json) = cdf"
  proof -
    have "split_once ?json CHALLENGE_KEY = Some (CLIENT_DATA_HEAD, challenge @ [CHR 0x22] @ '','' @ cdf @ ''}'')"
      unfolding rebuilt_client_data_def by (rule split_at_challenge)
    moreover have "split_once (challenge @ [CHR 0x22] @ '','' @ cdf @ ''}'') [CHR 0x22]
        = Some (challenge, '','' @ cdf @ ''}'')"
      by (rule split_once_quote [OF assms(2)])
    moreover have "\<not> length ?json - 1 \<le> start" "length ?json - 1 = start + length cdf"
      using len assms(4) by simp_all
    ultimately show ?thesis
      unfolding extract_client_data_fields_def string_of_as_bytes from_utf8_lossy_valid [OF valid] Let_def
        CHALLENGE_KEY_def [symmetric]
      using slice by (simp add: start_def)
  qed
  then show ?thesis by simp
qed

theorem client_data_rebuilt_witness:
  "rebuilt_client_data ''abc'' (extract_client_data_fields (as_bytes (rebuilt_client_data ''abc'' ''x'')))
   = rebuilt_client_data ''abc'' ''x''"
  by (rule client_data_rebuilt) (simp_all add: is_ascii_def valid_utf8_ascii)

section \<open>The limits an operation is signed with\<close>

lemma half_again_value:
  "unat (half_again x) = (if unat x * 15 < 2 ^ 128 then unat x * 15 div 10 else 2 ^ 128 - 1)"
  by (simp add: half_again_def unat_div unat_word_ariths unsigned_minus_1_eq_mask mask_eq_exp_minus_1)

lemma half_again_ge: "x \<le> half_again x"
proof -
  have "unat x < 2 ^ LENGTH(128)" by (rule unsigned_less)
  moreover have "n \<le> n * 15 div 10" for n :: nat by presburger
  ultimately have "unat x \<le> unat (half_again x)" unfolding half_again_value by simp
  then show ?thesis by (simp add: word_le_nat_alt)
qed

text \<open>
  No limit is signed below what is known to be needed. The in-band limits are never below the
  relay's figures nor below the measured floor of the inner calls; an account that is not deployed
  keeps the call floor, and the verification floor against a relay that does not publish what it
  settles; a deployed account without a measured floor signs the relay's figures unchanged. The
  limits of a Tempo operation are at least the estimate's, half as much again unless that leaves 128 bits.
\<close>

theorem gas_limits_hold_floors:
  "(let l = in_band_gas_limits e deployed inner in
      ge_verification_gas_limit e \<le> gl_verification_gas_limit l \<and> ge_call_gas_limit e \<le> gl_call_gas_limit l
      \<and> gl_pre_verification_gas l = ge_pre_verification_gas e
      \<and> (\<forall>f. inner = Some f \<longrightarrow> f \<le> gl_call_gas_limit l)
      \<and> (\<not> deployed \<longrightarrow> 100000 \<le> gl_call_gas_limit l)
      \<and> (\<not> deployed \<longrightarrow> ge_settlement_gas e = None \<longrightarrow> 2000000 \<le> gl_verification_gas_limit l)
      \<and> (deployed \<longrightarrow> inner = None \<longrightarrow> l = \<lparr>gl_verification_gas_limit = ge_verification_gas_limit e,
           gl_call_gas_limit = ge_call_gas_limit e, gl_pre_verification_gas = ge_pre_verification_gas e\<rparr>))
   \<and> (let t = tempo_gas_limits e v c in
      max (ge_verification_gas_limit e) v \<le> gl_verification_gas_limit t \<and> max (ge_call_gas_limit e) c \<le> gl_call_gas_limit t
      \<and> (unat (ge_call_gas_limit e) * 15 < 2 ^ 128 \<longrightarrow>
           unat (gl_call_gas_limit t) = max (unat (ge_call_gas_limit e) * 15 div 10) (unat c)))"
proof
  show "let l = in_band_gas_limits e deployed inner in
      ge_verification_gas_limit e \<le> gl_verification_gas_limit l \<and> ge_call_gas_limit e \<le> gl_call_gas_limit l
      \<and> gl_pre_verification_gas l = ge_pre_verification_gas e
      \<and> (\<forall>f. inner = Some f \<longrightarrow> f \<le> gl_call_gas_limit l)
      \<and> (\<not> deployed \<longrightarrow> 100000 \<le> gl_call_gas_limit l)
      \<and> (\<not> deployed \<longrightarrow> ge_settlement_gas e = None \<longrightarrow> 2000000 \<le> gl_verification_gas_limit l)
      \<and> (deployed \<longrightarrow> inner = None \<longrightarrow> l = \<lparr>gl_verification_gas_limit = ge_verification_gas_limit e,
           gl_call_gas_limit = ge_call_gas_limit e, gl_pre_verification_gas = ge_pre_verification_gas e\<rparr>)"
    unfolding in_band_gas_limits_def VERIFICATION_GAS_UNDEPLOYED_def UNDEPLOYED_CALL_GAS_FLOOR_def
    by (cases deployed) (simp_all add: Let_def le_max_iff_disj max_absorb1)
  have "unat (max a b) = max (unat a) (unat b)" for a b :: u128 by (simp add: max_def word_le_nat_alt)
  then show "let t = tempo_gas_limits e v c in
      max (ge_verification_gas_limit e) v \<le> gl_verification_gas_limit t \<and> max (ge_call_gas_limit e) c \<le> gl_call_gas_limit t
      \<and> (unat (ge_call_gas_limit e) * 15 < 2 ^ 128 \<longrightarrow>
           unat (gl_call_gas_limit t) = max (unat (ge_call_gas_limit e) * 15 div 10) (unat c))"
    using max.mono [OF half_again_ge order_refl] by (simp add: Let_def tempo_gas_limits_def half_again_value)
qed

theorem gas_limits_hold_floors_witness:
  "2000000 \<le> gl_verification_gas_limit (in_band_gas_limits
     \<lparr>ge_verification_gas_limit = 100000, ge_call_gas_limit = 1, ge_pre_verification_gas = 2, ge_settlement_gas = None\<rparr> False (Some 7))"
  using gas_limits_hold_floors [of "\<lparr>ge_verification_gas_limit = 100000, ge_call_gas_limit = 1,
      ge_pre_verification_gas = 2, ge_settlement_gas = None\<rparr>" False "Some 7"] by (simp add: Let_def)

text \<open>
  The floor of the inner calls is computed unchecked: a measurement a node can answer makes it wrap to
  a small one.
\<close>

lemma inner_floor_wraps:
  "inner_calls_gas_floor [2722258935367507707706996859454145692] 1 = Some 110000"
  by (simp add: inner_calls_gas_floor_def)

section \<open>The operation the relay already holds\<close>

definition marks :: "string \<Rightarrow> string \<Rightarrow> bool" where
  "marks message hash \<longleftrightarrow> (\<exists>a hex b. message = a @ MARK @ hex @ '']'' @ b \<and> hash = ''0x'' @ hex \<and> hex \<noteq> []
     \<and> list_all is_ascii_hexdigit hex)"

lemma takeWhile_hex:
  "list_all is_ascii_hexdigit hex \<Longrightarrow> takeWhile is_ascii_hexdigit (hex @ CHR '']'' # b) = hex"
  by (induction hex) (simp_all add: is_ascii_hexdigit_def is_digit_def to_digit_def)

lemma MARK_inside:
  assumes "a @ MARK @ r = a' @ MARK @ r'" and "length a < length a'"
  shows "\<exists>c. r = c @ MARK @ r'"
proof -
  define d where "d = drop (length a) a'"
  have "take (length a) a' = a" using arg_cong [OF assms(1), of "take (length a)"] assms(2) by simp
  then have a': "a' = a @ d" using append_take_drop_id [of "length a" a'] by (simp add: d_def)
  then have d: "a' = a @ d" "MARK @ r = d @ MARK @ r'" "d \<noteq> []" using assms by simp_all
  show ?thesis
  proof (cases "length d < length MARK")
    case True
    have "(MARK @ r) ! length d = CHR ''[''" unfolding d(2) by (simp add: MARK_def nth_append)
    then have "MARK ! length d = CHR ''[''" using True by (simp add: nth_append)
    moreover have "\<forall>i\<in>set [1..<length MARK]. MARK ! i \<noteq> CHR ''[''" by (simp add: MARK_def upt_conv_Cons)
    moreover have "length d \<in> set [1..<length MARK]" using True d(3) by (cases d) simp_all
    ultimately show ?thesis by blast
  next
    case False
    then have "drop (length MARK) (MARK @ r) = drop (length MARK) d @ MARK @ r'" unfolding d(2) by simp
    then show ?thesis by auto
  qed
qed

lemma split_once_shortest:
  assumes "s = a' @ sep @ r'" and "sep \<noteq> []"
  shows "\<exists>a r. split_once s sep = Some (a, r) \<and> length a \<le> length a'"
  using assms
proof (induction s arbitrary: a')
  case (Cons c s)
  show ?case
  proof (cases "starts_with (c # s) sep")
    case False
    then obtain d where a': "a' = c # d" "s = d @ sep @ r'"
      using Cons.prems by (cases a') (auto simp: starts_with_def)
    from Cons.IH [OF a'(2) Cons.prems(2)] False a'(1) show ?thesis by auto
  qed simp
qed simp

lemma existing_sound: "parse_existing_user_op_hash message = Some h \<Longrightarrow> marks message h"
proof (induction message rule: parse_existing_user_op_hash.induct)
  case (1 message)
  from "1.prems" obtain a r where ar: "split_once message MARK = Some (a, r)"
    by (auto simp: parse_existing_user_op_hash.simps [of message] split: option.splits)
  note m = split_once_append [OF ar]
  let ?hex = "takeWhile is_ascii_hexdigit r"
  show ?case
  proof (cases "?hex \<noteq> [] \<and> take 1 (drop (length ?hex) r) = '']''")
    case True
    then have h: "h = ''0x'' @ ?hex" using "1.prems" ar by (simp add: parse_existing_user_op_hash.simps [of message] Let_def)
    have "r = ?hex @ take 1 (drop (length ?hex) r) @ drop 1 (drop (length ?hex) r)"
      by (metis append_take_drop_id takeWhile_eq_take)
    then have "message = a @ MARK @ ?hex @ '']'' @ drop 1 (drop (length ?hex) r)" using True m by metis
    with True h show ?thesis unfolding marks_def by (metis list_all_iff set_takeWhileD)
  next
    case False
    have "parse_existing_user_op_hash message = parse_existing_user_op_hash r"
      unfolding parse_existing_user_op_hash.simps [of message] ar option.case prod.case Let_def if_not_P [OF False] by (rule refl)
    with "1.prems" have "parse_existing_user_op_hash r = Some h" by simp
    from "1.IH" [OF ar refl refl False this] obtain a2 hex b where
      "r = a2 @ MARK @ hex @ '']'' @ b" "h = ''0x'' @ hex" "hex \<noteq> []" "list_all is_ascii_hexdigit hex"
      unfolding marks_def by blast
    then have "message = (a @ MARK @ a2) @ MARK @ hex @ '']'' @ b \<and> h = ''0x'' @ hex \<and> hex \<noteq> []
        \<and> list_all is_ascii_hexdigit hex" using m by simp
    then show ?thesis unfolding marks_def by blast
  qed
qed

lemma existing_complete: "marks message h \<Longrightarrow> parse_existing_user_op_hash message \<noteq> None"
proof (induction message rule: parse_existing_user_op_hash.induct)
  case (1 message)
  from "1.prems" obtain a' hex b where mark: "message = a' @ MARK @ hex @ '']'' @ b" "h = ''0x'' @ hex" "hex \<noteq> []"
    "list_all is_ascii_hexdigit hex" unfolding marks_def by blast
  have "MARK \<noteq> []" by (simp add: MARK_def)
  from split_once_shortest [OF mark(1) this] obtain a r where
    ar: "split_once message MARK = Some (a, r)" "length a \<le> length a'" by blast
  note m = split_once_append [OF ar(1)]
  let ?hex = "takeWhile is_ascii_hexdigit r"
  show ?case
  proof (cases "?hex \<noteq> [] \<and> take 1 (drop (length ?hex) r) = '']''")
    case True
    then show ?thesis using ar(1) by (simp add: parse_existing_user_op_hash.simps [of message] Let_def)
  next
    case False
    have "length a < length a'"
    proof (rule ccontr)
      assume "\<not> length a < length a'"
      with ar(2) have "length a = length a'" by simp
      moreover have "a @ MARK @ r = a' @ MARK @ hex @ '']'' @ b" using m mark(1) by metis
      ultimately have "r = hex @ '']'' @ b" by simp
      with False mark(3) takeWhile_hex [OF mark(4), of b] show False by simp
    qed
    moreover have "a @ MARK @ r = a' @ MARK @ hex @ '']'' @ b" using m mark(1) by metis
    ultimately obtain c where "r = c @ MARK @ hex @ '']'' @ b" using MARK_inside by blast
    then have "marks r h" using mark(2-4) unfolding marks_def by blast
    from "1.IH" [OF ar(1) refl refl False this] show ?thesis
      unfolding parse_existing_user_op_hash.simps [of message] ar(1) option.case prod.case Let_def if_not_P [OF False] .
  qed
qed

text \<open>
  The relay's marker is read exactly. A message that names an existing operation in the relay's form
  is always recognised, any other message never; the operation is taken for this one only when its hash
  is this operation's own, letter case aside, and a hash that is not its own never stands for it.
\<close>

theorem existing_op_exact:
  "(existing_op message own = None) = (\<forall>h. \<not> marks message h)
   \<and> (\<forall>h. existing_op message own = Some (ThisOne h) \<longrightarrow> marks message h \<and> eq_ignore_ascii_case h own)
   \<and> (\<forall>h. existing_op message own = Some (Another h) \<longrightarrow> marks message h \<and> \<not> eq_ignore_ascii_case h own)"
  using existing_sound [of message] existing_complete [of message]
  by (cases "parse_existing_user_op_hash message") (auto simp: existing_op_def split: if_splits)

theorem existing_op_exact_witness:
  "existing_op ''held [existingHash:0xAB]'' ''0xab'' = Some (ThisOne ''0xAB'') \<and> marks ''held [existingHash:0xAB]'' ''0xAB''"
proof -
  have "parse_existing_user_op_hash ''held [existingHash:0xAB]'' = Some ''0xAB''"
    by (simp add: parse_existing_user_op_hash.simps MARK_def starts_with_def Let_def is_ascii_hexdigit_def is_digit_def to_digit_def)
  moreover have "eq_ignore_ascii_case ''0xAB'' ''0xab''" by code_simp
  ultimately have "existing_op ''held [existingHash:0xAB]'' ''0xab'' = Some (ThisOne ''0xAB'')"
    by (simp add: existing_op_def)
  with existing_op_exact [of "''held [existingHash:0xAB]''" "''0xab''"] show ?thesis by blast
qed

end
