(* ===== verification/TypedData.thy ===== *)
theory TypedData
  imports Primitives Json Utf8 "HOL-Library.Sublist"
begin

text \<open>
  \<open>typed_data_request.rs\<close>, \<open>eip712.rs\<close> and \<open>sign_message.rs\<close>: the one strict reading of a typed-data
  request, the reconciliation of its document with what the hashing crate does to it, and the hash of a
  message a site asks to have signed. The JSON parser and printer and the crate's typed data (\<open>'td\<close>,
  its reader, its digest and its \<open>encodeType\<close>) come as a record of functions.
\<close>

section \<open>The crates\<close>

record 'td typed_env =
  te_parse :: "string \<Rightarrow> string + json"
  te_print :: "json \<Rightarrow> string"
  te_typed_data :: "json \<Rightarrow> string + 'td"
  te_signing_hash :: "'td \<Rightarrow> string + bytes"
  te_encode_type :: "'td \<Rightarrow> string + string"
  te_keccak :: "bytes \<Rightarrow> bytes"

fun as_object :: "json \<Rightarrow> (string \<times> json) list option" where
  "as_object (Object kvs) = Some kvs"
| "as_object _ = None"

text \<open>The \<open>?\<close> operator, and a loop over a list that changes a state and may fail.\<close>

fun try_with :: "'e + 'a \<Rightarrow> ('a \<Rightarrow> 'e + 'b) \<Rightarrow> 'e + 'b" where
  "try_with (Inl e) f = Inl e"
| "try_with (Inr x) f = f x"

fun for_each :: "('a \<Rightarrow> 's \<Rightarrow> 'e + 's) \<Rightarrow> 'a list \<Rightarrow> 's \<Rightarrow> 'e + 's" where
  "for_each f [] s = Inr s"
| "for_each f (x # xs) s = try_with (f x s) (for_each f xs)"

fun try_map :: "('a \<Rightarrow> 'e + 'b) \<Rightarrow> 'a list \<Rightarrow> 'e + 'b list" where
  "try_map f [] = Inr []"
| "try_map f (x # xs) = try_with (f x) (\<lambda>y. try_with (try_map f xs) (\<lambda>ys. Inr (y # ys)))"

lemma try_with_Inr: "try_with x f = Inr y \<longleftrightarrow> (\<exists>z. x = Inr z \<and> f z = Inr y)"
  by (cases x) simp_all

lemma try_with_cong [fundef_cong]: "x = y \<Longrightarrow> (\<And>z. y = Inr z \<Longrightarrow> f z = g z) \<Longrightarrow> try_with x f = try_with y g"
  by (cases y) simp_all

lemma for_each_cong [fundef_cong]:
  "xs = ys \<Longrightarrow> s = t \<Longrightarrow> (\<And>x u. x \<in> set ys \<Longrightarrow> f x u = g x u) \<Longrightarrow> for_each f xs s = for_each g ys t"
proof (induction ys arbitrary: xs s t)
  case (Cons y ys)
  have "for_each f ys u = for_each g ys u" for u using Cons.IH [of ys u u] Cons.prems(3) by simp
  then show ?case using Cons.prems by (cases "g y t") simp_all
qed simp

lemma try_map_cong [fundef_cong]:
  "xs = ys \<Longrightarrow> (\<And>x. x \<in> set ys \<Longrightarrow> f x = g x) \<Longrightarrow> try_map f xs = try_map g ys"
  by (induction ys arbitrary: xs) auto

section \<open>The domain\<close>

definition CANONICAL_DOMAIN :: "(string \<times> string) list" where
  "CANONICAL_DOMAIN = [(''name'', ''string''), (''version'', ''string''), (''chainId'', ''uint256''),
     (''verifyingContract'', ''address''), (''salt'', ''bytes32'')]"

text \<open>The loop over the declared fields, from the place \<open>cursor\<close> of the canonical list on.\<close>

fun scan_domain :: "nat \<Rightarrow> json list \<Rightarrow> core_error + string list" where
  "scan_domain cursor [] = Inr []"
| "scan_domain cursor (entry # entries) =
     (case (Option.bind (get entry ''name'') as_str, Option.bind (get entry ''type'') as_str) of
        (Some name, Some ty) \<Rightarrow>
          (case position (\<lambda>(n, _). n = name) (drop (min cursor (length CANONICAL_DOMAIN)) CANONICAL_DOMAIN) of
             Some offset \<Rightarrow>
               let (canon_name, canon_ty) = CANONICAL_DOMAIN ! (cursor + offset) in
               if ty \<noteq> canon_ty
               then Inl (Eip712NonCanonicalDomain (''field `'' @ canon_name @ ''` has type `'' @ ty @ ''`, expected `'' @ canon_ty @ ''`''))
               else try_with (scan_domain (cursor + offset + 1) entries) (\<lambda>declared. Inr (canon_name # declared))
           | None \<Rightarrow> Inl (Eip712NonCanonicalDomain (''field `'' @ name
               @ ''` is not a canonical EIP712Domain field, is out of order, or is duplicated'')))
      | _ \<Rightarrow> Inl (Eip712Parse ''types.EIP712Domain entry missing name/type''))"

definition populated :: "(string \<times> json) list \<Rightarrow> string \<Rightarrow> bool" where
  "populated kvs k \<longleftrightarrow> (case map_of kvs k of None \<Rightarrow> False | Some v \<Rightarrow> v \<noteq> Null)"

definition align_domain :: "json \<Rightarrow> core_error + json" where
  "align_domain raw =
     (case Option.bind (get raw ''types'') (\<lambda>types. get types ''EIP712Domain'') of
        None \<Rightarrow> Inr raw
      | Some entries \<Rightarrow>
          (case as_array entries of
             None \<Rightarrow> Inl (Eip712Parse ''types.EIP712Domain is not an array'')
           | Some entries \<Rightarrow>
               try_with (scan_domain 0 entries) (\<lambda>declared.
               case Option.bind (get raw ''domain'') as_object of
                 None \<Rightarrow> Inl (Eip712Parse ''payload has no domain object'')
               | Some domain \<Rightarrow>
                   (case find (\<lambda>name. \<not> populated domain name) declared of
                      Some name \<Rightarrow> Inl (Eip712NonCanonicalDomain (''types.EIP712Domain declares `'' @ name
                        @ ''` but domain does not populate it''))
                    | None \<Rightarrow> Inr (put raw ''domain'' (Object (filter (\<lambda>(k, v). v = Null \<or> k \<in> set declared
                        \<or> k \<notin> fst ` set CANONICAL_DOMAIN) domain)))))))"

section \<open>Under-width values\<close>

definition strip_suffix_char :: "char \<Rightarrow> string \<Rightarrow> string option" where
  "strip_suffix_char c s = (if s \<noteq> [] \<and> last s = c then Some (butlast s) else None)"

definition rfind :: "char \<Rightarrow> string \<Rightarrow> nat option" where
  "rfind c s = map_option (\<lambda>i. length s - 1 - i) (position (\<lambda>x. x = c) (rev s))"

definition array_base_type :: "string \<Rightarrow> string option" where
  "array_base_type ty =
     (case strip_suffix_char (CHR '']'') ty of
        None \<Rightarrow> None
      | Some stripped \<Rightarrow>
          (case rfind (CHR ''['') stripped of
             None \<Rightarrow> None
           | Some i \<Rightarrow>
               if list_all is_ascii_digit (drop (i + 1) stripped) \<and> 0 < i then Some (take i ty) else None))"

definition target_nibbles :: "string \<Rightarrow> nat option" where
  "target_nibbles ty =
     (if ty = ''address'' then Some 40
      else case strip_prefix ty ''bytes'' of
          None \<Rightarrow> None
        | Some n \<Rightarrow>
            (case from_str_radix 64 10 n of
               Some k \<Rightarrow> if 1 \<le> k \<and> k \<le> 32 then Some (k * 2) else None
             | None \<Rightarrow> None))"

definition pad_scalar :: "json \<Rightarrow> string \<Rightarrow> json" where
  "pad_scalar value ty =
     (case Option.bind (as_str value) (\<lambda>s. strip_prefix s ''0x'') of
        None \<Rightarrow> value
      | Some body \<Rightarrow>
          if \<not> list_all is_ascii_hexdigit body then value
          else (case target_nibbles ty of
              None \<Rightarrow> value
            | Some target \<Rightarrow>
                if target \<le> length body then value
                else let fill = replicate (target - length body) (CHR ''0'')
                     in String (''0x'' @ (if ty = ''address'' then fill @ body else body @ fill))))"

definition MAX_TYPE_DEPTH :: nat where
  "MAX_TYPE_DEPTH = 256"

definition normalize_domain_scalars :: "json \<Rightarrow> json" where
  "normalize_domain_scalars value =
     fold (\<lambda>(name, ty) v. case get v name of None \<Rightarrow> v | Some slot \<Rightarrow> put v name (pad_scalar slot ty))
       CANONICAL_DOMAIN value"

lemma array_base_type_shorter: "array_base_type ty = Some base \<Longrightarrow> length base < length ty"
  by (auto simp: array_base_type_def strip_suffix_char_def rfind_def split: option.splits if_splits
      dest!: position_Some)

function (sequential)
  normalize_struct :: "json \<Rightarrow> string \<Rightarrow> (string \<times> json) list \<Rightarrow> nat \<Rightarrow> core_error + json" and
  normalize_typed_value :: "json \<Rightarrow> string \<Rightarrow> (string \<times> json) list \<Rightarrow> nat \<Rightarrow> core_error + json"
where
  "normalize_struct value type_name types depth =
     (if MAX_TYPE_DEPTH < depth
      then Inl (Eip712Parse ''maximum type depth exceeded (circular type reference?)'')
      else case Option.bind (map_of types type_name) as_array of
          None \<Rightarrow> Inr (if type_name = ''EIP712Domain'' then normalize_domain_scalars value else value)
        | Some decls \<Rightarrow>
            if as_object value = None then Inr value
            else for_each (\<lambda>field obj.
                case (Option.bind (get field ''name'') as_str, Option.bind (get field ''type'') as_str) of
                  (Some name, Some ty) \<Rightarrow>
                    (case get obj name of
                       None \<Rightarrow> Inr obj
                     | Some slot \<Rightarrow>
                         try_with (normalize_typed_value slot ty types depth) (\<lambda>slot'. Inr (put obj name slot')))
                | _ \<Rightarrow> Inr obj) decls value)"
| "normalize_typed_value value ty types depth =
     (case array_base_type ty of
        Some base \<Rightarrow>
          (case as_array value of
             None \<Rightarrow> Inr value
           | Some items \<Rightarrow>
               try_with (try_map (\<lambda>item. normalize_typed_value item base types (depth + 1)) items) (\<lambda>items'. Inr (Array items')))
      | None \<Rightarrow>
          if map_of types ty \<noteq> None then normalize_struct value ty types (depth + 1)
          else Inr (pad_scalar value ty))"
  by pat_completeness auto
termination
  by (relation "inv_image (less_than <*lex*> less_than) (\<lambda>x. case x of
        Inl (value, type_name, types, depth) \<Rightarrow> (2 * (258 - depth), 0)
      | Inr (value, ty, types, depth) \<Rightarrow> (2 * (258 - depth) - 1, 1 + length ty))")
    (auto simp: MAX_TYPE_DEPTH_def dest: array_base_type_shorter)

declare normalize_struct.simps [simp del] normalize_typed_value.simps [simp del]

definition normalize_values :: "json \<Rightarrow> core_error + json" where
  "normalize_values raw =
     (case Option.bind (get raw ''types'') as_object of
        None \<Rightarrow> Inl (Eip712Parse ''payload has no types map'')
      | Some types \<Rightarrow>
     (case Option.bind (get raw ''primaryType'') as_str of
        None \<Rightarrow> Inl (Eip712Parse ''payload has no primaryType'')
      | Some primary \<Rightarrow>
          try_with (case get raw ''domain'' of
              None \<Rightarrow> Inr raw
            | Some domain \<Rightarrow>
                try_with (normalize_struct domain ''EIP712Domain'' types 0) (\<lambda>d. Inr (put raw ''domain'' d))) (\<lambda>raw1.
          if map_of types primary = None then Inr raw1
          else case get raw1 ''message'' of
              None \<Rightarrow> Inr raw1
            | Some message \<Rightarrow>
                try_with (normalize_struct message primary types 0) (\<lambda>m. Inr (put raw1 ''message'' m)))))"

definition normalize_payload :: "json \<Rightarrow> core_error + json" where
  "normalize_payload raw = try_with (align_domain raw) normalize_values"

section \<open>The digest of a document\<close>

definition parse_payload :: "'td typed_env \<Rightarrow> string \<Rightarrow> core_error + json" where
  "parse_payload E typed_data_json =
     (case te_parse E typed_data_json of
        Inl e \<Rightarrow> Inl (Eip712Parse (''not JSON: '' @ e))
      | Inr (String inner) \<Rightarrow> map_sum (\<lambda>e. Eip712Parse (''stringified payload: '' @ e)) (\<lambda>v. v) (te_parse E inner)
      | Inr other \<Rightarrow> Inr other)"

definition read_typed_data :: "'td typed_env \<Rightarrow> string \<Rightarrow> core_error + 'td" where
  "read_typed_data E typed_data_json =
     try_with (try_with (parse_payload E typed_data_json) normalize_payload) (\<lambda>raw.
     map_sum (\<lambda>e. Eip712Parse (''typed data: '' @ e)) (\<lambda>v. v) (te_typed_data E raw))"

definition hash_typed_data :: "'td typed_env \<Rightarrow> string \<Rightarrow> core_error + bytes" where
  "hash_typed_data E typed_data_json =
     try_with (read_typed_data E typed_data_json) (\<lambda>td.
     map_sum (\<lambda>e. Eip712Parse (''hashing failed: '' @ e)) (\<lambda>h. h) (te_signing_hash E td))"

definition encode_type :: "'td typed_env \<Rightarrow> string \<Rightarrow> core_error + string" where
  "encode_type E typed_data_json =
     try_with (read_typed_data E typed_data_json) (\<lambda>td.
     map_sum (\<lambda>e. Eip712Parse (''encode_type failed: '' @ e)) (\<lambda>t. t) (te_encode_type E td))"

section \<open>The request\<close>

datatype typed_data_method = Legacy | V3 | V4

definition method_of :: "string \<Rightarrow> typed_data_method option" where
  "method_of method =
     (if method = ''eth_signTypedData'' \<or> method = ''eth_signTypedData_v1'' then Some Legacy
      else if method = ''eth_signTypedData_v3'' then Some V3
      else if method = ''eth_signTypedData_v4'' then Some V4
      else None)"

fun document_index :: "typed_data_method \<Rightarrow> nat" where
  "document_index Legacy = 0"
| "document_index V3 = 1"
| "document_index V4 = 1"

definition account_index :: "typed_data_method \<Rightarrow> nat" where
  "account_index m = 1 - document_index m"

definition looks_like_typed_data :: "string \<Rightarrow> bool" where
  "looks_like_typed_data method = contains method ''signTypedData''"

datatype typed_data_error = UnsupportedMethod | NotTwoParams | BadAccount | BadDocument string

fun typed_data_message :: "typed_data_error \<Rightarrow> string" where
  "typed_data_message UnsupportedMethod = ''Unsupported typed-data method''"
| "typed_data_message NotTwoParams =
     ''Typed-data params must be exactly [address, typedData] (v3/v4) or [typedData, address] (legacy)''"
| "typed_data_message BadAccount = ''Typed-data params name no valid account''"
| "typed_data_message (BadDocument why) = ''Invalid typed data: '' @ why"

record canonical_typed_data =
  ct_method :: typed_data_method
  ct_account :: string
  ct_document :: json
  ct_document_json :: string

definition digest :: "'td typed_env \<Rightarrow> canonical_typed_data \<Rightarrow> typed_data_error + bytes" where
  "digest E c = map_sum (\<lambda>e. BadDocument (core_error_text e)) (\<lambda>h. h) (hash_typed_data E (ct_document_json c))"

definition params_of :: "canonical_typed_data \<Rightarrow> json" where
  "params_of c =
     (let account = String (ct_account c); document = String (ct_document_json c)
      in if ct_method c = Legacy then Array [document, account] else Array [account, document])"

definition request_params_json :: "'td typed_env \<Rightarrow> canonical_typed_data \<Rightarrow> string" where
  "request_params_json E c = te_print E (params_of c)"

definition is_address :: "string \<Rightarrow> bool" where
  "is_address v \<longleftrightarrow> length v = 42 \<and> starts_with v ''0x'' \<and> list_all is_ascii_hexdigit (drop 2 v)"

definition object_at :: "(string \<times> json) list \<Rightarrow> string \<Rightarrow> bool" where
  "object_at kvs key \<longleftrightarrow> Option.bind (map_of kvs key) as_object \<noteq> None"

definition names_primary :: "(string \<times> json) list \<Rightarrow> bool" where
  "names_primary kvs \<longleftrightarrow>
     (case Option.bind (map_of kvs ''primaryType'') as_str of None \<Rightarrow> False | Some name \<Rightarrow> name \<noteq> [])"

definition canonical_typed :: "'td typed_env \<Rightarrow> string \<Rightarrow> json \<Rightarrow> typed_data_error + canonical_typed_data" where
  "canonical_typed E method_name params =
     (case method_of method_name of
        None \<Rightarrow> Inl UnsupportedMethod
      | Some method \<Rightarrow>
     (case as_array params of
        None \<Rightarrow> Inl NotTwoParams
      | Some vs \<Rightarrow>
          if length vs \<noteq> 2 then Inl NotTwoParams
          else case as_str (vs ! account_index method) of
              None \<Rightarrow> Inl BadAccount
            | Some account \<Rightarrow>
                if \<not> is_address account then Inl BadAccount
                else try_with (case vs ! document_index method of
                       String text \<Rightarrow> map_sum (\<lambda>_. BadDocument ''not JSON'') (\<lambda>v. v) (te_parse E text)
                     | Object kvs \<Rightarrow> Inr (Object kvs)
                     | _ \<Rightarrow> Inl (BadDocument ''not a typed-data document'')) (\<lambda>document.
                     case as_object document of
                       None \<Rightarrow> Inl (BadDocument ''not an object'')
                     | Some kvs \<Rightarrow>
                         if \<not> (object_at kvs ''types'' \<and> names_primary kvs \<and> object_at kvs ''domain'' \<and> object_at kvs ''message'')
                         then Inl (BadDocument ''missing types, primaryType, domain or message'')
                         else Inr \<lparr>ct_method = method, ct_account = account, ct_document = document,
                                   ct_document_json = te_print E document\<rparr>)))"

definition signable :: "'td typed_env \<Rightarrow> string \<Rightarrow> json \<Rightarrow> typed_data_error + canonical_typed_data" where
  "signable E method params =
     try_with (canonical_typed E method params) (\<lambda>c. try_with (digest E c) (\<lambda>_. Inr c))"

definition canonical_json :: "'td typed_env \<Rightarrow> string \<Rightarrow> string \<Rightarrow> typed_data_error + canonical_typed_data" where
  "canonical_json E method params_json =
     try_with (map_sum (\<lambda>_. NotTwoParams) (\<lambda>v. v) (te_parse E params_json)) (canonical_typed E method)"

definition signable_json :: "'td typed_env \<Rightarrow> string \<Rightarrow> string \<Rightarrow> typed_data_error + canonical_typed_data" where
  "signable_json E method params_json =
     try_with (map_sum (\<lambda>_. NotTwoParams) (\<lambda>v. v) (te_parse E params_json)) (signable E method)"

definition document_json_of :: "'td typed_env \<Rightarrow> string \<Rightarrow> string \<Rightarrow> string option" where
  "document_json_of E method params_json =
     (case canonical_json E method params_json of Inl _ \<Rightarrow> None | Inr c \<Rightarrow> Some (ct_document_json c))"

section \<open>The hash of a message\<close>

definition is_message_method :: "string \<Rightarrow> bool" where
  "is_message_method method \<longleftrightarrow>
     method = ''personal_sign'' \<or> method = ''eth_sign'' \<or> contains method ''signTypedData''"

definition eip191 :: "bytes \<Rightarrow> bytes" where
  "eip191 bs = as_bytes ([CHR 0x19] @ ''Ethereum Signed Message:'' @ [CHR 0x0A] @ show_nat (length bs)) @ bs"

definition payload_bytes :: "string \<Rightarrow> bytes option" where
  "payload_bytes payload =
     (case strip_prefix payload ''0x'' of
        Some hex \<Rightarrow>
          if length hex mod 2 = 0 \<and> list_all is_ascii_hexdigit hex
          then (case from_hex payload of Inl _ \<Rightarrow> None | Inr bs \<Rightarrow> Some bs)
          else Some (as_bytes payload)
      | None \<Rightarrow> Some (as_bytes payload))"

definition original_hash :: "'td typed_env \<Rightarrow> string \<Rightarrow> string \<Rightarrow> bytes option" where
  "original_hash E method params_json =
     (case te_parse E params_json of
        Inl _ \<Rightarrow> None
      | Inr params \<Rightarrow>
     (case as_array params of
        None \<Rightarrow> None
      | Some vs \<Rightarrow>
          if method = ''personal_sign'' \<or> method = ''eth_sign''
          then do {
            element \<leftarrow> get_index params (if method = ''eth_sign'' then 1 else 0);
            payload \<leftarrow> as_str element;
            if payload = [] then None
            else map_option (\<lambda>bs. te_keccak E (eip191 bs)) (payload_bytes payload)
          }
          else (case canonical_typed E method (Array vs) of
              Inl _ \<Rightarrow> None
            | Inr c \<Rightarrow> (case digest E c of Inl _ \<Rightarrow> None | Inr h \<Rightarrow> Some h))))"

section \<open>What normalisation may change\<close>

text \<open>
  A value is only ever padded: an address on the left, fixed bytes on the right, and nothing else, in
  place, under the same keys and indices. A slot may be padded twice when its type declares it twice.
\<close>

inductive pads_to :: "json \<Rightarrow> json \<Rightarrow> bool" where
  pads_same: "pads_to v v"
| pads_trans: "pads_to u v \<Longrightarrow> pads_to v w \<Longrightarrow> pads_to u w"
| pads_address: "list_all is_ascii_hexdigit body \<Longrightarrow> length body \<le> 40 \<Longrightarrow>
     pads_to (String (''0x'' @ body)) (String (''0x'' @ replicate (40 - length body) (CHR ''0'') @ body))"
| pads_bytes: "list_all is_ascii_hexdigit body \<Longrightarrow> 1 \<le> n \<Longrightarrow> n \<le> 32 \<Longrightarrow> length body \<le> 2 * n \<Longrightarrow>
     pads_to (String (''0x'' @ body)) (String (''0x'' @ body @ replicate (2 * n - length body) (CHR ''0'')))"
| pads_items: "list_all2 pads_to vs ws \<Longrightarrow> pads_to (Array vs) (Array ws)"
| pads_member: "map_of kvs k = Some v \<Longrightarrow> pads_to v w \<Longrightarrow> pads_to (Object kvs) (Object (set_key k w kvs))"

inductive_cases pads_to_String: "pads_to (String s) v"

lemma keys_set_key [simp]: "List.map fst (set_key k v kvs) = List.map fst kvs"
  by (induction kvs) auto

lemma pads_to_shape:
  assumes "pads_to v w"
  shows "(w = Null) = (v = Null)" and "(as_str w = None) = (as_str v = None)"
    and "map_option (List.map fst) (as_object w) = map_option (List.map fst) (as_object v)"
    and "map_option length (as_array w) = map_option length (as_array v)"
  using assms by (induction) (auto dest: list_all2_lengthD)

lemma target_nibbles_Some:
  "target_nibbles ty = Some t \<longleftrightarrow> (if ty = ''address'' then t = 40
     else \<exists>n k. strip_prefix ty ''bytes'' = Some n \<and> from_str_radix 64 10 n = Some k \<and> 1 \<le> k \<and> k \<le> 32 \<and> t = 2 * k)"
  by (auto simp: target_nibbles_def split: option.splits)

lemma pad_scalar_pads: "pads_to v (pad_scalar v ty)"
proof (cases "pad_scalar v ty = v")
  case False
  then obtain s body t where *: "v = String s" "s = ''0x'' @ body" "list_all is_ascii_hexdigit body"
      "target_nibbles ty = Some t" "length body < t"
    by (cases v) (auto simp: pad_scalar_def strip_prefix_Some split: option.splits if_splits)
  show ?thesis
  proof (cases "ty = ''address''")
    case True
    then have "t = 40" using *(4) by (simp add: target_nibbles_Some)
    then show ?thesis using * True pads_address [of body] by (simp add: pad_scalar_def strip_prefix_def starts_with_def Let_def)
  next
    case False
    then obtain k where "1 \<le> k" "k \<le> 32" "t = 2 * k" using *(4) by (auto simp: target_nibbles_Some)
    then show ?thesis using * False pads_bytes [of body k] by (simp add: pad_scalar_def strip_prefix_def starts_with_def Let_def)
  qed
qed (simp add: pads_same)

lemma pads_put: "get j k = Some v \<Longrightarrow> pads_to v w \<Longrightarrow> pads_to j (put j k w)"
  by (cases j) (auto intro: pads_member)

lemma for_each_pads:
  assumes "for_each f xs u = Inr w"
    and "\<And>x u w. x \<in> set xs \<Longrightarrow> f x u = Inr w \<Longrightarrow> pads_to u w"
  shows "pads_to u w"
  using assms
proof (induction xs arbitrary: u)
  case (Cons x xs)
  then obtain v where "f x u = Inr v" "for_each f xs v = Inr w" by (auto simp: try_with_Inr)
  moreover have "pads_to v w" by (rule Cons.IH [OF calculation(2)]) (use Cons.prems(2) in auto)
  moreover have "pads_to u v" by (rule Cons.prems(2) [OF _ calculation(1)]) simp
  ultimately show ?case using pads_trans by blast
qed (simp add: pads_same)

lemma try_map_list_all2:
  "try_map f xs = Inr ys \<Longrightarrow> list_all2 (\<lambda>x y. f x = Inr y) xs ys"
  by (induction xs arbitrary: ys) (auto simp: try_with_Inr)

lemma normalize_domain_scalars_pads: "pads_to v (normalize_domain_scalars v)"
proof -
  have "pads_to u (fold (\<lambda>(name, ty) v. case get v name of None \<Rightarrow> v | Some slot \<Rightarrow> put v name (pad_scalar slot ty)) xs u)"
    for xs u
  proof (induction xs arbitrary: u)
    case (Cons x xs)
    let ?u = "case get u (fst x) of None \<Rightarrow> u | Some slot \<Rightarrow> put u (fst x) (pad_scalar slot (snd x))"
    have "pads_to u ?u" by (auto split: option.split intro: pads_same pads_put pad_scalar_pads)
    then show ?case using Cons [of ?u] pads_trans by (auto simp: case_prod_beta)
  qed (simp add: pads_same)
  then show ?thesis by (simp add: normalize_domain_scalars_def)
qed

lemma normalize_pads:
  "normalize_struct v type_name types depth = Inr w \<Longrightarrow> pads_to v w"
  "normalize_typed_value v' ty types' depth' = Inr w' \<Longrightarrow> pads_to v' w'"
proof (induction v type_name types depth and v' ty types' depth' arbitrary: w and w'
    rule: normalize_struct_normalize_typed_value.induct)
  case (1 v type_name types depth)
  show ?case
  proof (cases "Option.bind (map_of types type_name) as_array")
    case None
    then show ?thesis using "1.prems"
      by (auto simp: normalize_struct.simps [of v] normalize_domain_scalars_pads pads_same split: if_splits)
  next
    case (Some decls)
    have d: "\<not> MAX_TYPE_DEPTH < depth" using "1.prems" by (auto simp: normalize_struct.simps [of v])
    show ?thesis
    proof (cases "as_object v")
      case None
      then show ?thesis using "1.prems" Some d by (simp add: normalize_struct.simps [of v] pads_same)
    next
      case (Some kvs)
      note run = "1.prems" [unfolded normalize_struct.simps [of v] if_not_P [OF d]
          \<open>Option.bind (map_of types type_name) as_array = Some decls\<close> option.case]
      show ?thesis
      proof (rule for_each_pads)
        show "for_each (\<lambda>field obj.
                case (Option.bind (get field ''name'') as_str, Option.bind (get field ''type'') as_str) of
                  (Some name, Some ty) \<Rightarrow>
                    (case get obj name of
                       None \<Rightarrow> Inr obj
                     | Some slot \<Rightarrow>
                         try_with (normalize_typed_value slot ty types depth) (\<lambda>slot'. Inr (put obj name slot')))
                | _ \<Rightarrow> Inr obj) decls v = Inr w"
          using run Some by simp
      next
        fix field obj obj'
        assume "field \<in> set decls"
          and step: "(case (Option.bind (get field ''name'') as_str, Option.bind (get field ''type'') as_str) of
                  (Some name, Some ty) \<Rightarrow>
                    (case get obj name of
                       None \<Rightarrow> Inr obj
                     | Some slot \<Rightarrow>
                         try_with (normalize_typed_value slot ty types depth) (\<lambda>slot'. Inr (put obj name slot')))
                | _ \<Rightarrow> Inr obj) = Inr obj'"
        then show "pads_to obj obj'"
          using "1.IH" [OF d \<open>Option.bind (map_of types type_name) as_array = Some decls\<close> _ \<open>field \<in> set decls\<close>] Some
          by (auto simp: try_with_Inr pads_same split: option.splits intro: pads_put)
      qed
    qed
  qed
next
  case (2 v ty types depth)
  show ?case
  proof (cases "array_base_type ty")
    case None
    then show ?thesis using "2.prems" "2.IH"(1) [OF None] 
      by (auto simp: normalize_typed_value.simps [of v] pad_scalar_pads split: if_splits)
  next
    case (Some base)
    show ?thesis
    proof (cases "as_array v")
      case None
      then show ?thesis using "2.prems" Some by (simp add: normalize_typed_value.simps [of v] pads_same)
    next
      case (Some items)
      then have v: "v = Array items" by (cases v) auto
      obtain items' where i: "try_map (\<lambda>item. normalize_typed_value item base types (depth + 1)) items = Inr items'" "w' = Array items'"
        using "2.prems" Some \<open>array_base_type ty = Some base\<close>
        by (auto simp: normalize_typed_value.simps [of v] try_with_Inr)
      have "list_all2 pads_to items items'"
        using try_map_list_all2 [OF i(1)] "2.IH"(2) [OF \<open>array_base_type ty = Some base\<close> Some]
        by (auto simp: list_all2_conv_all_nth)
      then show ?thesis using v i(2) by (simp add: pads_items)
    qed
  qed
qed

section \<open>The domain that is hashed\<close>

text \<open>What a declaration says, entry by entry, and that it follows the canonical order.\<close>

definition declares :: "json list \<Rightarrow> (string \<times> string) list \<Rightarrow> bool" where
  "declares es ds \<longleftrightarrow> List.map (\<lambda>e. (Option.bind (get e ''name'') as_str, Option.bind (get e ''type'') as_str)) es
     = List.map (\<lambda>(n, t). (Some n, Some t)) ds"

lemma subseq_at: "i < length xs \<Longrightarrow> subseq ys (drop (i + 1) xs) \<Longrightarrow> subseq (xs ! i # ys) (drop c xs)" if "c \<le> i"
proof -
  assume "i < length xs" "subseq ys (drop (i + 1) xs)"
  then have "subseq (xs ! i # ys) (drop i xs)" by (simp add: Cons_nth_drop_Suc [symmetric])
  moreover have "drop i xs = drop (i - c) (drop c xs)" using that by simp
  ultimately show ?thesis by (metis suffix_drop suffix_imp_subseq subseq_order.trans)
qed

lemma scan_domain_canonical:
  "scan_domain c entries = Inr names \<Longrightarrow> \<exists>ds. names = List.map fst ds \<and> declares entries ds \<and> subseq ds (drop c CANONICAL_DOMAIN)"
proof (induction entries arbitrary: c names)
  case (Cons entry entries)
  from Cons.prems obtain name ty i where n: "Option.bind (get entry ''name'') as_str = Some name"
      "Option.bind (get entry ''type'') as_str = Some ty"
    and i: "position (\<lambda>(n, _). n = name) (drop (min c (length CANONICAL_DOMAIN)) CANONICAL_DOMAIN) = Some i"
    by (auto split: option.splits)
  have il: "c + i < length CANONICAL_DOMAIN" using position_Some [OF i] by auto
  obtain cn ct where cc: "CANONICAL_DOMAIN ! (c + i) = (cn, ct)" by (cases "CANONICAL_DOMAIN ! (c + i)")
  have "cn = name" using position_Some [OF i] cc by (auto simp: min_def split: if_splits)
  obtain rest where r: "scan_domain (c + i + 1) entries = Inr rest" "names = cn # rest"
    using Cons.prems n i cc by (auto simp: try_with_Inr split: if_splits)
  have "ty = ct" using Cons.prems n i cc by (auto split: if_splits)
  obtain ds where ds: "rest = List.map fst ds" "declares entries ds" "subseq ds (drop (c + i + 1) CANONICAL_DOMAIN)"
    using Cons.IH [OF r(1)] by blast
  show ?case
    using ds r(2) subseq_at [OF _ il ds(3), of c] cc n \<open>cn = name\<close> \<open>ty = ct\<close>
    by (intro exI [of _ "(cn, ct) # ds"]) (auto simp: declares_def)
qed (simp add: declares_def)

lemma populated_filter:
  "populated (filter (\<lambda>(k, v). v = Null \<or> P k) kvs) n \<longleftrightarrow> P n \<and> populated kvs n"
  by (induction kvs) (auto simp: populated_def split: option.splits)

lemma map_of_filter_key: "P n \<Longrightarrow> map_of (filter (\<lambda>(k, v). v = Null \<or> P k) kvs) n = map_of kvs n"
  by (induction kvs) auto

lemma align_domain_Some:
  assumes "align_domain raw = Inr raw'" and "Option.bind (get raw ''types'') (\<lambda>types. get types ''EIP712Domain'') = Some entries"
  obtains es ds kvs kvs' where "entries = Array es" "declares es ds" "subseq ds CANONICAL_DOMAIN"
    "get raw ''domain'' = Some (Object kvs)" "raw' = put raw ''domain'' (Object kvs')"
    "\<And>n. populated kvs' n \<longleftrightarrow> populated kvs n \<and> (n \<in> fst ` set CANONICAL_DOMAIN \<longrightarrow> n \<in> fst ` set ds)"
    "\<And>n. n \<in> fst ` set ds \<Longrightarrow> populated kvs n"
    "\<And>n. n \<in> fst ` set ds \<Longrightarrow> map_of kvs' n = map_of kvs n"
proof -
  obtain es where es: "entries = Array es" using assms by (cases entries) (auto simp: align_domain_def)
  obtain declared where d: "scan_domain 0 es = Inr declared"
    using assms es by (auto simp: align_domain_def try_with_Inr)
  obtain domain where dom: "get raw ''domain'' = Some domain" "as_object domain \<noteq> None"
    using assms es d by (auto simp: align_domain_def split: option.splits bind_splits)
  then obtain kvs where kvs: "domain = Object kvs" by (cases domain) auto
  have run: "(case find (\<lambda>name. \<not> populated kvs name) declared of
      Some name \<Rightarrow> Inl (Eip712NonCanonicalDomain (''types.EIP712Domain declares `'' @ name @ ''` but domain does not populate it''))
    | None \<Rightarrow> Inr (put raw ''domain'' (Object (filter (\<lambda>(k, v). v = Null \<or> k \<in> set declared \<or> k \<notin> fst ` set CANONICAL_DOMAIN) kvs)))) = Inr raw'"
    using assms es d dom kvs by (simp add: align_domain_def)
  then have f: "find (\<lambda>name. \<not> populated kvs name) declared = None"
    and out: "raw' = put raw ''domain'' (Object (filter (\<lambda>(k, v). v = Null \<or> k \<in> set declared \<or> k \<notin> fst ` set CANONICAL_DOMAIN) kvs))"
    by (auto split: option.splits)
  obtain ds where ds: "declared = List.map fst ds" "declares es ds" "subseq ds CANONICAL_DOMAIN"
    using scan_domain_canonical [OF d] by auto
  show thesis
    by (rule that [OF es ds(2,3) _ out]) (use dom kvs f ds(1) in \<open>auto simp: populated_filter find_None_iff map_of_filter_key\<close>)
qed

lemma align_domain_elsewhere:
  assumes "align_domain raw = Inr raw'" and "k \<noteq> ''domain''"
  shows "get raw' k = get raw k"
proof (cases "Option.bind (get raw ''types'') (\<lambda>types. get types ''EIP712Domain'')")
  case None
  then show ?thesis using assms(1) by (simp add: align_domain_def)
next
  case (Some entries)
  obtain kvs' where "raw' = put raw ''domain'' (Object kvs')" using assms(1) Some by (rule align_domain_Some)
  then show ?thesis using assms(2) by (simp add: get_put)
qed

lemma pads_to_members:
  assumes "pads_to v w" and "v = Object kvs"
  shows "\<exists>kvs'. w = Object kvs' \<and> List.map fst kvs' = List.map fst kvs
    \<and> (\<forall>n x. map_of kvs n = Some x \<longrightarrow> (\<exists>y. map_of kvs' n = Some y \<and> pads_to x y))"
  using assms
proof (induction arbitrary: kvs)
  case (pads_trans u v w)
  obtain kvs1 where 1: "v = Object kvs1" "List.map fst kvs1 = List.map fst kvs"
      "\<And>n x. map_of kvs n = Some x \<Longrightarrow> \<exists>y. map_of kvs1 n = Some y \<and> pads_to x y"
    using pads_trans.IH(1) [OF pads_trans.prems] by blast
  obtain kvs2 where 2: "w = Object kvs2" "List.map fst kvs2 = List.map fst kvs1"
      "\<And>n x. map_of kvs1 n = Some x \<Longrightarrow> \<exists>y. map_of kvs2 n = Some y \<and> pads_to x y"
    using pads_trans.IH(2) [OF 1(1)] by blast
  have "\<exists>y. map_of kvs2 n = Some y \<and> pads_to x y" if "map_of kvs n = Some x" for n x
    using 1(3) [OF that] 2(3) pads_to.pads_trans by blast
  then show ?case using 1(2) 2(1,2) by simp
next
  case (pads_member kvs0 k v w)
  then show ?case by (auto simp: map_of_set_key intro: pads_same)
qed (auto intro: pads_same)

lemma pads_to_populated:
  assumes "pads_to (Object kvs) (Object kvs')"
  shows "populated kvs' n \<longleftrightarrow> populated kvs n"
proof (cases "map_of kvs n")
  case None
  moreover from None have "map_of kvs' n = None"
    using pads_to_members [OF assms refl] by (metis json.inject(5) map_of_eq_None_iff set_map)
  ultimately show ?thesis by (simp add: populated_def)
next
  case (Some x)
  then obtain y where "map_of kvs' n = Some y" "pads_to x y" using pads_to_members [OF assms refl] by auto
  then show ?thesis using Some pads_to_shape(1) [of x y] by (simp add: populated_def)
qed

lemma normalize_values_pads:
  assumes "normalize_values raw = Inr raw'"
  obtains "\<And>k. k \<noteq> ''domain'' \<Longrightarrow> k \<noteq> ''message'' \<Longrightarrow> get raw' k = get raw k"
    "\<And>k. rel_option pads_to (get raw k) (get raw' k)"
proof -
  obtain types primary where p: "Option.bind (get raw ''types'') as_object = Some types"
      "Option.bind (get raw ''primaryType'') as_str = Some primary"
    using assms by (auto simp: normalize_values_def split: option.splits)
  obtain raw1 where d: "(case get raw ''domain'' of None \<Rightarrow> Inr raw
          | Some domain \<Rightarrow> try_with (normalize_struct domain ''EIP712Domain'' types 0) (\<lambda>d. Inr (put raw ''domain'' d))) = Inr raw1"
    and m: "(if map_of types primary = None then Inr raw1
          else case get raw1 ''message'' of None \<Rightarrow> Inr raw1
            | Some message \<Rightarrow> try_with (normalize_struct message primary types 0) (\<lambda>m. Inr (put raw1 ''message'' m))) = Inr raw'"
    using assms [unfolded normalize_values_def p option.case try_with_Inr] by blast
  have 1: "get raw1 k = get raw k" if "k \<noteq> ''domain''" for k
    using d that by (auto simp: try_with_Inr get_put split: option.splits)
  have 2: "rel_option pads_to (get raw ''domain'') (get raw1 ''domain'')"
    using d by (auto simp: try_with_Inr get_put pads_same intro: normalize_pads split: option.splits)
  have 3: "get raw' k = get raw1 k" if "k \<noteq> ''message''" for k
    using m that by (auto simp: try_with_Inr get_put split: option.splits if_splits)
  have 4: "rel_option pads_to (get raw1 ''message'') (get raw' ''message'')"
    using m by (auto simp: try_with_Inr get_put pads_same option.rel_refl intro: normalize_pads split: option.splits if_splits)
  have 5: "rel_option pads_to (get raw k) (get raw' k)" for k
    using 1 2 3 4 by (cases "k = ''domain''"; cases "k = ''message''") (auto simp: pads_same option.rel_refl)
  show thesis by (rule that) (use 1 3 5 in auto)
qed

text \<open>
  C10: the domain the crate hashes is the declared one: a declared type is a list of canonical fields in the
  canonical order with their canonical types, and among the canonical fields exactly the declared ones
  are populated in what the crate is handed, each with the value of the request or its padding.
\<close>

theorem domain_as_declared:
  assumes "normalize_payload raw = Inr raw'"
    and "Option.bind (get raw ''types'') (\<lambda>types. get types ''EIP712Domain'') = Some entries"
  shows "\<exists>es ds kvs kvs'. entries = Array es \<and> declares es ds \<and> subseq ds CANONICAL_DOMAIN
    \<and> get raw ''domain'' = Some (Object kvs) \<and> get raw' ''domain'' = Some (Object kvs')
    \<and> (\<forall>(n, _) \<in> set CANONICAL_DOMAIN. populated kvs' n = (n \<in> fst ` set ds))
    \<and> (\<forall>(n, _) \<in> set ds. \<exists>x y. map_of kvs n = Some x \<and> map_of kvs' n = Some y \<and> pads_to x y)"
proof -
  obtain raw1 where 1: "align_domain raw = Inr raw1" "normalize_values raw1 = Inr raw'"
    using assms(1) by (auto simp: normalize_payload_def try_with_Inr)
  from 1(1) assms(2) obtain es ds kvs kvs1 where a: "entries = Array es" "declares es ds" "subseq ds CANONICAL_DOMAIN"
    "get raw ''domain'' = Some (Object kvs)" "raw1 = put raw ''domain'' (Object kvs1)"
    and p: "\<And>n. populated kvs1 n \<longleftrightarrow> populated kvs n \<and> (n \<in> fst ` set CANONICAL_DOMAIN \<longrightarrow> n \<in> fst ` set ds)"
    and d: "\<And>n. n \<in> fst ` set ds \<Longrightarrow> populated kvs n"
    and same: "\<And>n. n \<in> fst ` set ds \<Longrightarrow> map_of kvs1 n = map_of kvs n"
    by (rule align_domain_Some) blast
  have "get raw1 ''domain'' = Some (Object kvs1)" using a(4,5) by (simp add: get_put)
  moreover have "rel_option pads_to (get raw1 ''domain'') (get raw' ''domain'')"
    using 1(2) by (rule normalize_values_pads) blast
  ultimately obtain w where w: "get raw' ''domain'' = Some w" "pads_to (Object kvs1) w"
    by (auto simp: option_rel_Some1)
  then obtain kvs' where k: "w = Object kvs'" using pads_to_members by blast
  have pop: "populated kvs' n = populated kvs1 n" for n using w(2) k by (simp add: pads_to_populated)
  have pads: "\<exists>x y. map_of kvs n = Some x \<and> map_of kvs' n = Some y \<and> pads_to x y" if in_ds: "n \<in> fst ` set ds" for n
  proof -
    obtain x where "map_of kvs1 n = Some x" using d [OF in_ds] same [OF in_ds] by (auto simp: populated_def split: option.splits)
    then show ?thesis using pads_to_members [OF w(2) refl] k same [OF in_ds] by force
  qed
  have "\<forall>(n, _) \<in> set CANONICAL_DOMAIN. populated kvs' n = (n \<in> fst ` set ds)"
  proof (rule ballI, clarify)
    fix n ty assume "(n, ty) \<in> set CANONICAL_DOMAIN"
    then have "n \<in> fst ` set CANONICAL_DOMAIN" by force
    then show "populated kvs' n = (n \<in> fst ` set ds)" using p [of n] d [of n] pop [of n] by metis
  qed
  moreover have "\<forall>(n, _) \<in> set ds. \<exists>x y. map_of kvs n = Some x \<and> map_of kvs' n = Some y \<and> pads_to x y"
  proof (rule ballI, clarify)
    fix n ty assume "(n, ty) \<in> set ds"
    then have "n \<in> fst ` set ds" by force
    then show "\<exists>x y. map_of kvs n = Some x \<and> map_of kvs' n = Some y \<and> pads_to x y" by (rule pads)
  qed
  moreover have "get raw' ''domain'' = Some (Object kvs')" using w(1) k by simp
  ultimately show ?thesis using a(1-4)
    by (intro exI [of _ es] exI [of _ ds] exI [of _ kvs] exI [of _ kvs'] conjI) assumption+
qed

text \<open>
  Normalisation rewrites a document in place: it touches the members \<open>domain\<close> and \<open>message\<close> alone, the
  message keeps its shape, its keys and every value that is not too narrow for its type.
\<close>

theorem message_only_padded:
  assumes "normalize_payload raw = Inr raw'"
  shows "(\<forall>k. k \<notin> {''domain'', ''message''} \<longrightarrow> get raw' k = get raw k)
    \<and> rel_option pads_to (get raw ''message'') (get raw' ''message'')"
proof -
  obtain raw1 where 1: "align_domain raw = Inr raw1" "normalize_values raw1 = Inr raw'"
    using assms by (auto simp: normalize_payload_def try_with_Inr)
  have "get raw1 k = get raw k" if "k \<noteq> ''domain''" for k
    using align_domain_elsewhere [OF 1(1) that] .
  then have 2: "get raw1 ''message'' = get raw ''message''" "k \<noteq> ''domain'' \<Longrightarrow> get raw1 k = get raw k" for k by simp_all
  obtain 3: "\<And>k. k \<noteq> ''domain'' \<Longrightarrow> k \<noteq> ''message'' \<Longrightarrow> get raw' k = get raw1 k" "\<And>k. rel_option pads_to (get raw1 k) (get raw' k)"
    using normalize_values_pads [OF 1(2)] by blast
  show ?thesis using 2 3(1) 3(2) [of "''message''"] by simp
qed

lemma request_document:
  assumes "canonical_typed E m params = Inr c"
  shows "method_of m = Some (ct_method c)" "is_address (ct_account c)" "ct_document_json c = te_print E (ct_document c)"
    "\<exists>kvs. ct_document c = Object kvs \<and> object_at kvs ''types'' \<and> names_primary kvs \<and> object_at kvs ''domain'' \<and> object_at kvs ''message''"
proof -
  obtain document where d: "as_object document \<noteq> None" "ct_document c = document"
    "\<And>kvs. as_object document = Some kvs \<Longrightarrow> object_at kvs ''types'' \<and> names_primary kvs \<and> object_at kvs ''domain'' \<and> object_at kvs ''message''"
    and rest: "method_of m = Some (ct_method c)" "is_address (ct_account c)" "ct_document_json c = te_print E (ct_document c)"
  proof -
    obtain meth vs account where s: "method_of m = Some meth" "as_array params = Some vs" "length vs = 2"
        "as_str (vs ! account_index meth) = Some account" "is_address account"
      using assms by (auto simp: canonical_typed_def split: option.splits if_splits)
    let ?ok = "\<lambda>kvs. object_at kvs ''types'' \<and> names_primary kvs \<and> object_at kvs ''domain'' \<and> object_at kvs ''message''"
    obtain document where o: "(case as_object document of
          None \<Rightarrow> Inl (BadDocument ''not an object'')
        | Some kvs \<Rightarrow> if \<not> ?ok kvs then Inl (BadDocument ''missing types, primaryType, domain or message'')
            else Inr \<lparr>ct_method = meth, ct_account = account, ct_document = document,
                   ct_document_json = te_print E document\<rparr>) = Inr c"
      using assms s by (auto simp: canonical_typed_def try_with_Inr)
    then obtain kvs where k: "as_object document = Some kvs" by (cases "as_object document") simp_all
    have ok: "?ok kvs" using o by (rule_tac ccontr) (simp add: k)
    have "c = \<lparr>ct_method = meth, ct_account = account, ct_document = document, ct_document_json = te_print E document\<rparr>"
      using o ok by (simp add: k)
    then show thesis using s k ok by (intro that [of document]) simp_all
  qed
  then show "method_of m = Some (ct_method c)" "is_address (ct_account c)" "ct_document_json c = te_print E (ct_document c)"
    by simp_all
  show "\<exists>kvs. ct_document c = Object kvs \<and> object_at kvs ''types'' \<and> names_primary kvs \<and> object_at kvs ''domain'' \<and> object_at kvs ''message''"
    using d by (cases document) auto
qed

lemma canonical_params:
  assumes "canonical_typed E m params = Inr c" and "te_parse E (te_print E (ct_document c)) = Inr (ct_document c)"
  shows "canonical_typed E m (params_of c) = Inr c"
proof -
  note r = request_document [OF assms(1)]
  obtain kvs where kvs: "ct_document c = Object kvs" "object_at kvs ''types''" "names_primary kvs" "object_at kvs ''domain''" "object_at kvs ''message''"
    using r(4) by blast
  have "params_of c = Array (if ct_method c = Legacy then [String (ct_document_json c), String (ct_account c)]
      else [String (ct_account c), String (ct_document_json c)])"
    by (simp add: params_of_def Let_def)
  then show ?thesis using r(1-3) kvs assms(2)
    by (cases "ct_method c") (simp_all add: canonical_typed_def account_index_def)
qed

text \<open>
  C2: what is shown is what is signed. A typed-data request that has a hash is one document under one of the
  four methods, for one well-formed account: the hash is that of the text the sheet shows, the request
  passes the check at arrival, and when the printer's output reads back, the parameters it is carried on
  as are read as the same document and have the same hash.
\<close>

theorem shown_is_signed:
  assumes "looks_like_typed_data m" and "original_hash E m text = Some h"
  shows "\<exists>c. document_json_of E m text = Some (ct_document_json c) \<and> signable_json E m text = Inr c
    \<and> method_of m = Some (ct_method c) \<and> is_address (ct_account c) \<and> hash_typed_data E (ct_document_json c) = Inr h
    \<and> (te_parse E (ct_document_json c) = Inr (ct_document c) \<and> te_parse E (request_params_json E c) = Inr (params_of c)
        \<longrightarrow> signable_json E m (request_params_json E c) = Inr c \<and> original_hash E m (request_params_json E c) = Some h)"
proof -
  have m: "m \<noteq> ''personal_sign''" "m \<noteq> ''eth_sign''" using assms(1) by (auto simp: looks_like_typed_data_def contains_def starts_with_def)
  obtain params vs c where p: "te_parse E text = Inr params" "as_array params = Some vs" "canonical_typed E m (Array vs) = Inr c" "digest E c = Inr h"
    using assms(2) m by (auto simp: original_hash_def split: option.splits sum.splits)
  have a: "params = Array vs" using p(2) by (cases params) auto
  note r = request_document [OF p(3)]
  have h: "hash_typed_data E (ct_document_json c) = Inr h" using p(4) by (cases "hash_typed_data E (ct_document_json c)") (auto simp: digest_def)
  have again: "signable_json E m (request_params_json E c) = Inr c \<and> original_hash E m (request_params_json E c) = Some h"
    if "te_parse E (ct_document_json c) = Inr (ct_document c)" "te_parse E (request_params_json E c) = Inr (params_of c)"
  proof -
    have "canonical_typed E m (params_of c) = Inr c" using canonical_params [OF p(3)] that(1) r(3) by simp
    moreover obtain ws where "params_of c = Array ws" by (cases "ct_method c") (simp_all add: params_of_def Let_def)
    ultimately show ?thesis using that(2) p(4) m by (simp add: signable_json_def signable_def original_hash_def)
  qed
  show ?thesis using p a r(1,2) h again
    by (intro exI [of _ c]) (simp add: document_json_of_def canonical_json_def signable_json_def signable_def)
qed

section \<open>Witnesses\<close>

definition field_decl :: "string \<Rightarrow> string \<Rightarrow> json" where
  "field_decl name ty = Object [(''name'', String name), (''type'', String ty)]"

definition example_document :: json where
  "example_document = Object
     [(''types'', Object [(''EIP712Domain'', Array [field_decl ''name'' ''string'', field_decl ''chainId'' ''uint256'']),
                         (''M'', Array [field_decl ''h'' ''bytes2''])]),
      (''primaryType'', String ''M''),
      (''domain'', Object [(''name'', String ''T''), (''salt'', String ''0x''), (''chainId'', Number (PosInt 1))]),
      (''message'', Object [(''h'', String ''0x1'')])]"

definition example_document_padded :: json where
  "example_document_padded = Object
     [(''types'', Object [(''EIP712Domain'', Array [field_decl ''name'' ''string'', field_decl ''chainId'' ''uint256'']),
                         (''M'', Array [field_decl ''h'' ''bytes2''])]),
      (''primaryType'', String ''M''),
      (''domain'', Object [(''name'', String ''T''), (''chainId'', Number (PosInt 1))]),
      (''message'', Object [(''h'', String ''0x1000'')])]"

definition example_types :: "(string \<times> json) list" where
  "example_types = [(''EIP712Domain'', Array [field_decl ''name'' ''string'', field_decl ''chainId'' ''uint256'']),
     (''M'', Array [field_decl ''h'' ''bytes2''])]"

lemma example_padding: "pad_scalar (String ''0x1'') ''bytes2'' = String ''0x1000''"
proof -
  have "from_str_radix 64 10 ''2'' = Some 2"
    by (simp add: from_str_radix_def digits_value_def to_digit_def Let_def)
  moreover have "strip_prefix ''bytes2'' ''bytes'' = Some ''2''" by (simp add: strip_prefix_Some)
  ultimately have "target_nibbles ''bytes2'' = Some 4" by (simp add: target_nibbles_def)
  moreover have "strip_prefix ''0x1'' ''0x'' = Some ''1''" by (simp add: strip_prefix_Some)
  moreover have "is_ascii_hexdigit (CHR ''1'')" by code_simp
  ultimately show ?thesis by (simp add: pad_scalar_def numeral_eq_Suc)
qed

lemma example_scalars:
  "array_base_type ''string'' = None" "array_base_type ''uint256'' = None" "array_base_type ''bytes2'' = None"
  "pad_scalar (String ''T'') ''string'' = String ''T''" "pad_scalar (Number (PosInt 1)) ''uint256'' = Number (PosInt 1)"
  "map_of example_types ''string'' = None" "map_of example_types ''uint256'' = None" "map_of example_types ''bytes2'' = None"
  "Option.bind (map_of example_types ''EIP712Domain'') as_array = Some [field_decl ''name'' ''string'', field_decl ''chainId'' ''uint256'']"
  "Option.bind (map_of example_types ''M'') as_array = Some [field_decl ''h'' ''bytes2'']"
  "Option.bind (get (field_decl n t) ''name'') as_str = Some n" "Option.bind (get (field_decl n t) ''type'') as_str = Some t"
  by code_simp+

lemma example_domain_struct:
  "normalize_struct (Object [(''name'', String ''T''), (''chainId'', Number (PosInt 1))]) ''EIP712Domain'' example_types 0
    = Inr (Object [(''name'', String ''T''), (''chainId'', Number (PosInt 1))])"
  by (simp add: normalize_struct.simps [of _ _ _ 0] normalize_typed_value.simps [of _ _ _ 0] example_scalars example_padding MAX_TYPE_DEPTH_def)

lemma example_message_struct:
  "normalize_struct (Object [(''h'', String ''0x1'')]) ''M'' example_types 0 = Inr (Object [(''h'', String ''0x1000'')])"
  by (simp add: normalize_struct.simps [of _ _ _ 0] normalize_typed_value.simps [of _ _ _ 0] example_scalars example_padding MAX_TYPE_DEPTH_def)

lemma example_aligned:
  "align_domain example_document = Inr (put example_document ''domain'' (Object [(''name'', String ''T''), (''chainId'', Number (PosInt 1))]))"
  by code_simp

lemma example_normalized: "normalize_payload example_document = Inr example_document_padded"
proof -
  let ?raw = "put example_document ''domain'' (Object [(''name'', String ''T''), (''chainId'', Number (PosInt 1))])"
  have "Option.bind (get ?raw ''types'') as_object = Some example_types" by (simp add: example_document_def example_types_def)
  moreover have "Option.bind (get ?raw ''primaryType'') as_str = Some ''M''" "map_of example_types ''M'' = Some (Array [field_decl ''h'' ''bytes2''])"
    by (simp_all add: example_document_def example_types_def)
  moreover have "get ?raw ''domain'' = Some (Object [(''name'', String ''T''), (''chainId'', Number (PosInt 1))])"
    "get ?raw ''message'' = Some (Object [(''h'', String ''0x1'')])" by (simp_all add: example_document_def)
  ultimately have "normalize_values ?raw = Inr (put (put ?raw ''domain'' (Object [(''name'', String ''T''), (''chainId'', Number (PosInt 1))]))
      ''message'' (Object [(''h'', String ''0x1000'')]))"
    by (simp add: normalize_values_def example_domain_struct example_message_struct get_put del: put.simps)
  then show ?thesis
    by (simp add: normalize_payload_def example_aligned) (simp add: example_document_def example_document_padded_def)
qed

theorem domain_as_declared_witness:
  "\<exists>es ds kvs kvs'. get example_document ''domain'' = Some (Object kvs)
    \<and> get example_document_padded ''domain'' = Some (Object kvs') \<and> declares es ds
    \<and> (\<forall>(n, _) \<in> set CANONICAL_DOMAIN. populated kvs' n = (n \<in> fst ` set ds))"
  using domain_as_declared [OF example_normalized, of "Array [field_decl ''name'' ''string'', field_decl ''chainId'' ''uint256'']"]
  by (auto simp: example_document_def)

theorem message_only_padded_witness:
  "rel_option pads_to (get example_document ''message'') (get example_document_padded ''message'')"
  using message_only_padded [OF example_normalized] by simp

definition example_account :: string where
  "example_account = ''0x'' @ replicate 40 (CHR ''a'')"

definition example_typed_env :: "json typed_env" where
  "example_typed_env = \<lparr>te_parse = (\<lambda>s. if s = ''document'' then Inr example_document
        else if s = ''params'' then Inr (Array [String example_account, String ''document''])
        else Inl ''bad''),
     te_print = (\<lambda>j. if j = example_document then ''document'' else ''params''),
     te_typed_data = Inr, te_signing_hash = (\<lambda>_. Inr [1, 2]), te_encode_type = (\<lambda>_. Inr []), te_keccak = (\<lambda>bs. bs)\<rparr>"

theorem shown_is_signed_witness:
  "\<exists>c :: canonical_typed_data. document_json_of example_typed_env ''eth_signTypedData_v4'' ''params'' = Some (ct_document_json c)
    \<and> hash_typed_data example_typed_env (ct_document_json c) = Inr [1, 2]"
proof -
  have looks: "looks_like_typed_data ''eth_signTypedData_v4''" by code_simp
  have orig: "original_hash example_typed_env ''eth_signTypedData_v4'' ''params'' = Some [1, 2]"
  proof -
    have parse: "te_parse example_typed_env ''document'' = Inr example_document"
      "te_print example_typed_env example_document = ''document''"
      "te_parse example_typed_env ''params'' = Inr (Array [String example_account, String ''document''])"
      "te_typed_data example_typed_env = Inr" "te_signing_hash example_typed_env = (\<lambda>_. Inr [1, 2])"
      by (simp_all add: example_typed_env_def)
    have doc: "parse_payload example_typed_env ''document'' = Inr example_document"
      by (simp add: parse_payload_def parse(1)) (simp add: example_document_def)
    have hash: "hash_typed_data example_typed_env ''document'' = Inr [1, 2]"
      by (simp add: hash_typed_data_def read_typed_data_def doc parse example_normalized)
    have m: "method_of ''eth_signTypedData_v4'' = Some V4" by (simp add: method_of_def)
    have a: "is_address example_account" by code_simp
    obtain kvs where o: "as_object example_document = Some kvs \<and> object_at kvs ''types'' \<and> names_primary kvs \<and> object_at kvs ''domain'' \<and> object_at kvs ''message''"
      by (simp add: example_document_def object_at_def names_primary_def)
    have "canonical_typed example_typed_env ''eth_signTypedData_v4'' (Array [String example_account, String ''document''])
      = Inr \<lparr>ct_method = V4, ct_account = example_account, ct_document = example_document, ct_document_json = ''document''\<rparr>"
      using o by (simp add: canonical_typed_def m account_index_def a parse(1,2))
    then show ?thesis by (simp add: original_hash_def parse digest_def hash)
  qed
  show ?thesis using shown_is_signed [OF looks orig] by blast
qed

end
