(* ===== verification/Origins.thy ===== *)
theory Origins
  imports Utf8
begin

text \<open>
  The origin rules of \<open>app/dapp_permissions.rs\<close> and the addresses of \<open>app/dapp_rpc.rs\<close>: reading an
  origin out of a URL, which origins are secure, local or public, who is offered the wallet, and what
  the address bar, an external link and a proposed RPC address turn into.
\<close>

section \<open>Reading an origin\<close>

definition is_ascii_alphabetic :: "char \<Rightarrow> bool" where
  "is_ascii_alphabetic c \<longleftrightarrow> (65 \<le> byte_of c \<and> byte_of c \<le> 90) \<or> (97 \<le> byte_of c \<and> byte_of c \<le> 122)"

definition is_ascii_alphanumeric :: "char \<Rightarrow> bool" where
  "is_ascii_alphanumeric c \<longleftrightarrow> is_ascii_alphabetic c \<or> is_ascii_digit c"

definition good_scheme :: "string \<Rightarrow> bool" where
  "good_scheme scheme \<longleftrightarrow>
     (case scheme of [] \<Rightarrow> False
      | c # cs \<Rightarrow> is_ascii_alphabetic c \<and> list_all (\<lambda>b. is_ascii_alphanumeric b \<or> b \<in> set ''+-.'') cs)"

text \<open>The host and the text of the port; a bracketed host keeps its brackets.\<close>

definition split_host_port :: "string \<Rightarrow> (string \<times> string option) option" where
  "split_host_port host_port =
     (if starts_with host_port ''[''
      then (case position (\<lambda>c. c = CHR '']'') host_port of
          None \<Rightarrow> None
        | Some close \<Rightarrow>
            let host = take (close + 1) host_port; after = drop (close + 1) host_port
            in if after = [] then Some (host, None)
               else map_option (\<lambda>port. (host, Some port)) (strip_prefix after '':''))
      else (case split_once host_port '':'' of
          Some (host, port) \<Rightarrow> Some (host, Some port)
        | None \<Rightarrow> Some (host_port, None)))"

definition good_host :: "string \<Rightarrow> bool" where
  "good_host host \<longleftrightarrow> host \<noteq> [] \<and> list_all (\<lambda>ch. \<not> is_whitespace ch \<and> \<not> is_control ch) (chars host)"

text \<open>The inner option is the port itself; no answer where the code returns \<open>None\<close>.\<close>

definition read_port :: "string option \<Rightarrow> nat option option" where
  "read_port port_raw =
     (case port_raw of
        None \<Rightarrow> Some None
      | Some digits \<Rightarrow>
          if digits = [] then Some None
          else if list_all is_ascii_digit digits
          then (case from_str_radix 32 10 digits of
              None \<Rightarrow> None
            | Some port \<Rightarrow> if 65535 < port then None else Some (Some port))
          else None)"

definition authority_of :: "string \<Rightarrow> string" where
  "authority_of rest = upto_any ''/?#'' rest"

definition parse_origin :: "string \<Rightarrow> (string \<times> string \<times> nat option) option" where
  "parse_origin value =
     do {
       (scheme, rest) \<leftarrow> split_once value ''://'';
       (if good_scheme scheme then Some () else None);
       (host, port_raw) \<leftarrow> split_host_port (rsplit_last (authority_of rest) (CHR ''@''));
       (if good_host host then Some () else None);
       port \<leftarrow> read_port port_raw;
       Some (to_ascii_lowercase scheme, to_ascii_lowercase host, port)
     }"

definition origin_text :: "string \<Rightarrow> string \<Rightarrow> nat option \<Rightarrow> string" where
  "origin_text scheme host port =
     scheme @ ''://'' @ host @ (case port of None \<Rightarrow> [] | Some p \<Rightarrow> '':'' @ show_nat p)"

definition origin_of :: "string \<Rightarrow> string option" where
  "origin_of url =
     (case parse_origin url of
        None \<Rightarrow> None
      | Some (scheme, host, port) \<Rightarrow>
          if scheme \<noteq> ''http'' \<and> scheme \<noteq> ''https'' then None
          else let default_port = (if scheme = ''http'' then 80 else 443)
               in Some (origin_text scheme host (if port = Some default_port then None else port)))"

section \<open>Local hosts\<close>

definition PRIVATE_NAMES :: "string list" where
  "PRIVATE_NAMES = [''localhost'', ''::1'']"

definition PRIVATE_SUFFIXES :: "string list" where
  "PRIVATE_SUFFIXES = [''.local'']"

definition PRIVATE_V6_FIRST_GROUP :: "(nat \<times> nat) list" where
  "PRIVATE_V6_FIRST_GROUP = [(0xfc00, 0xfdff), (0xfe80, 0xfe80)]"

definition PRIVATE_V4 :: "(nat \<times> nat \<times> nat) list" where
  "PRIVATE_V4 = [(127, 0, 255), (10, 0, 255), (192, 168, 168), (172, 16, 31), (169, 254, 254)]"

definition first_v6_group :: "string \<Rightarrow> nat option" where
  "first_v6_group h =
     (case split_once h '':'' of
        None \<Rightarrow> None
      | Some (grp, _) \<Rightarrow>
          if length grp \<noteq> 4 \<or> \<not> list_all is_ascii_hexdigit grp then None
          else from_str_radix 16 16 grp)"

definition octet :: "string \<Rightarrow> nat option" where
  "octet part =
     (if part = [] \<or> 3 < length part \<or> \<not> list_all is_ascii_digit part then None
      else case from_str_radix 16 10 part of None \<Rightarrow> None | Some n \<Rightarrow> if n \<le> 255 then Some n else None)"

fun dotted_quad_of :: "string list \<Rightarrow> (nat \<times> nat \<times> nat \<times> nat) option" where
  "dotted_quad_of [p, q, r, s] =
     do { a \<leftarrow> octet p; b \<leftarrow> octet q; c \<leftarrow> octet r; d \<leftarrow> octet s; Some (a, b, c, d) }"
| "dotted_quad_of _ = None"

definition dotted_quad :: "string \<Rightarrow> (nat \<times> nat \<times> nat \<times> nat) option" where
  "dotted_quad h = dotted_quad_of (split_char (CHR ''.'') h)"

definition is_loopback_host :: "string \<Rightarrow> bool" where
  "is_loopback_host host \<longleftrightarrow>
     (let h = to_ascii_lowercase host
      in h = ''localhost'' \<or> ends_with h ''.localhost'' \<or> h = ''[::1]''
         \<or> (case dotted_quad h of None \<Rightarrow> False | Some (a, _) \<Rightarrow> a = 127))"

definition strip_suffix :: "string \<Rightarrow> string \<Rightarrow> string option" where
  "strip_suffix s p = (if ends_with s p then Some (take (length s - length p) s) else None)"

definition bare_host :: "string \<Rightarrow> string" where
  "bare_host host =
     (let lower = to_ascii_lowercase host; h = unwrap_or (strip_prefix lower ''['') lower
      in unwrap_or (strip_suffix h '']'') h)"

definition is_loopback_or_private_host :: "string \<Rightarrow> bool" where
  "is_loopback_or_private_host host \<longleftrightarrow>
     (let h = bare_host host
      in if h \<in> set PRIVATE_NAMES \<or> (\<exists>suffix \<in> set PRIVATE_SUFFIXES. ends_with h suffix) then True
         else case first_v6_group h of
             Some grp \<Rightarrow> (\<exists>(lo, hi) \<in> set PRIVATE_V6_FIRST_GROUP. lo \<le> grp \<and> grp \<le> hi)
           | None \<Rightarrow>
               (case dotted_quad h of None \<Rightarrow> False
                | Some (a, b, _) \<Rightarrow> (\<exists>(first, lo, hi) \<in> set PRIVATE_V4. a = first \<and> lo \<le> b \<and> b \<le> hi)))"

section \<open>The rules\<close>

definition is_insecure_public_origin :: "string \<Rightarrow> bool" where
  "is_insecure_public_origin origin \<longleftrightarrow>
     (case parse_origin origin of None \<Rightarrow> True
      | Some (scheme, host, _) \<Rightarrow> scheme = ''http'' \<and> \<not> is_loopback_or_private_host host)"

datatype lock_mark = Secure | Local | Insecure

definition origin_lock :: "string \<Rightarrow> lock_mark" where
  "origin_lock origin =
     (case parse_origin origin of None \<Rightarrow> Insecure
      | Some (scheme, host, _) \<Rightarrow>
          if scheme = ''https'' then Secure
          else if scheme = ''http'' \<and> is_loopback_or_private_host host then Local
          else Insecure)"

definition is_secure_context :: "string \<Rightarrow> bool" where
  "is_secure_context origin \<longleftrightarrow>
     (case parse_origin origin of None \<Rightarrow> False
      | Some (scheme, host, _) \<Rightarrow>
          if scheme = ''https'' then True else if scheme = ''http'' then is_loopback_host host else False)"

definition offers_wallet :: "string \<Rightarrow> bool \<Rightarrow> bool" where
  "offers_wallet origin debug_mode \<longleftrightarrow>
     is_secure_context origin
     \<or> (debug_mode
        \<and> (case parse_origin origin of None \<Rightarrow> False
            | Some (scheme, host, _) \<Rightarrow> scheme = ''http'' \<and> is_loopback_or_private_host host))"

section \<open>Addresses a page or a person gives\<close>

definition ASK_URL_CHARS :: nat where
  "ASK_URL_CHARS = 512"

definition usable_rpc_url :: "string \<Rightarrow> bool \<Rightarrow> bool" where
  "usable_rpc_url url debug_mode \<longleftrightarrow>
     (if url = [] \<or> ASK_URL_CHARS < length (chars url) \<or> list_ex is_whitespace (chars url) then False
      else case split_once url ''://'' of
          None \<Rightarrow> False
        | Some (_, rest) \<Rightarrow>
            if contains (authority_of rest) ''@'' then False
            else (case origin_of url of None \<Rightarrow> False | Some origin \<Rightarrow> offers_wallet origin debug_mode))"

definition url_host :: "string \<Rightarrow> string option" where
  "url_host url = Option.bind (origin_of url) (\<lambda>origin. map_option snd (split_once origin ''://''))"

definition external_page_host :: "string \<Rightarrow> string option" where
  "external_page_host url0 =
     (let url = trim url0
      in case split_once url ''://'' of
          None \<Rightarrow> None
        | Some (scheme, rest) \<Rightarrow>
            if \<not> eq_ignore_ascii_case scheme ''https'' then None
            else let authority = authority_of rest
                 in if authority = [] \<or> contains authority ''@'' \<or> list_ex is_whitespace (chars url) then None
                    else Option.bind (origin_of url) (\<lambda>origin. strip_prefix origin ''https://''))"

definition is_ipv4 :: "string \<Rightarrow> bool" where
  "is_ipv4 host \<longleftrightarrow>
     (let parts = split_char (CHR ''.'') host
      in length parts = 4
         \<and> list_all (\<lambda>part. part \<noteq> [] \<and> length part \<le> 3 \<and> list_all is_ascii_digit part
              \<and> (case from_str_radix 16 10 part of None \<Rightarrow> False | Some n \<Rightarrow> n \<le> 255)) parts)"

definition SEARCH_URL_PREFIX :: string where
  "SEARCH_URL_PREFIX = ''https://duckduckgo.com/?q=''"

definition upper_hex :: "nat \<Rightarrow> char" where
  "upper_hex d = (if d < 10 then char_of (48 + d) else char_of (55 + d))"

definition search_byte :: "char \<Rightarrow> string" where
  "search_byte c =
     (if is_ascii_alphanumeric c \<or> c \<in> set ''-_.~'' then [c]
      else if c = CHR '' '' then ''+''
      else [CHR ''%'', upper_hex (byte_of c div 16), upper_hex (byte_of c mod 16)])"

definition search_url :: "string \<Rightarrow> string" where
  "search_url query = SEARCH_URL_PREFIX @ concat (map search_byte query)"

text \<open>The host without a numeric port, and whether it looks like one.\<close>

definition typed_host :: "string \<Rightarrow> string" where
  "typed_host host_port =
     (case rsplit_once host_port (CHR '':'') of
        None \<Rightarrow> host_port
      | Some (host, port) \<Rightarrow> if port \<noteq> [] \<and> list_all is_ascii_digit port then host else host_port)"

definition looks_like_host :: "string \<Rightarrow> bool" where
  "looks_like_host host \<longleftrightarrow>
     eq_ignore_ascii_case host ''localhost'' \<or> is_ipv4 host
     \<or> (CHR ''.'' \<in> set host
        \<and> list_all (\<lambda>label. label \<noteq> [] \<and> list_all (\<lambda>b. is_ascii_alphanumeric b \<or> b = CHR ''-'') label)
            (split_char (CHR ''.'') host)
        \<and> (let tld = rsplit_last host (CHR ''.'') in 2 \<le> length tld \<and> list_ex is_ascii_alphabetic tld))"

definition browser_input :: "string \<Rightarrow> string option" where
  "browser_input text0 =
     (let text = trim text0
      in if text = [] then None
         else let lower = to_ascii_lowercase text
         in if starts_with lower ''http://'' \<or> starts_with lower ''https://''
            then (if origin_of text \<noteq> None then Some text else Some (search_url text))
         else if list_ex is_whitespace (chars text) then Some (search_url text)
         else let host_port = authority_of text; host = typed_host host_port
         in if host = [] \<or> CHR ''@'' \<in> set host \<or> CHR '':'' \<in> set host then Some (search_url text)
         else if \<not> looks_like_host host then Some (search_url text)
         else if \<not> is_insecure_public_origin (''http://'' @ host_port) then Some (''http://'' @ text)
         else Some (''https://'' @ text))"

section \<open>Reading an origin back\<close>

lemma lower_byte_cases: "128 \<le> byte_of (to_ascii_lowercase_char c) \<longleftrightarrow> 128 \<le> byte_of c"
  "128 \<le> byte_of c \<Longrightarrow> to_ascii_lowercase_char c = c"
  by (auto simp: to_ascii_lowercase_char_def)

lemma byte_at_lower: "byte_at (to_ascii_lowercase s) i = (if 128 \<le> byte_at s i then byte_at s i else byte_at (to_ascii_lowercase s) i)"
  "128 \<le> byte_at (to_ascii_lowercase s) i \<longleftrightarrow> 128 \<le> byte_at s i"
  by (auto simp: byte_at_def to_ascii_lowercase_def lower_byte_cases)

lemma second_high: "second_of_three b c \<Longrightarrow> 128 \<le> c" "second_of_four b c \<Longrightarrow> 128 \<le> c" "is_cont c \<Longrightarrow> 128 \<le> c"
  by (auto simp: second_of_three_def second_of_four_def is_cont_def)

lemma utf8_step_lower: "utf8_step (to_ascii_lowercase s) = utf8_step s"
proof -
  have eq: "byte_at (to_ascii_lowercase s) i = byte_at s i \<or> byte_at (to_ascii_lowercase s) i < 128 \<and> byte_at s i < 128" for i
    using byte_at_lower [of s i] by (metis not_le)
  have cont: "is_cont (byte_at (to_ascii_lowercase s) i) = is_cont (byte_at s i)" for i
    using eq [of i] by (auto simp: is_cont_def)
  have second: "second_of_three b (byte_at (to_ascii_lowercase s) i) = second_of_three b (byte_at s i)"
    "second_of_four b (byte_at (to_ascii_lowercase s) i) = second_of_four b (byte_at s i)" for b i
    using eq [of i] second_high [of b] not_less by metis+
  show ?thesis
  proof (cases "byte_at s 0 < 128")
    case True
    then have "byte_at (to_ascii_lowercase s) 0 < 128" using eq [of 0] by auto
    with True show ?thesis by (simp add: utf8_step_def Let_def)
  next
    case False
    then have "byte_at (to_ascii_lowercase s) 0 = byte_at s 0" using eq [of 0] by auto
    then show ?thesis by (simp only: utf8_step_def Let_def cont second)
  qed
qed

lemma chars_lower: "chars (to_ascii_lowercase s) = List.map to_ascii_lowercase (chars s)"
proof (induction s rule: chars.induct)
  case (1 s)
  show ?case
  proof (cases "s = []")
    case False
    then have "chars (to_ascii_lowercase s)
      = take (snd (utf8_step s)) (to_ascii_lowercase s) # chars (drop (snd (utf8_step s)) (to_ascii_lowercase s))"
      by (simp add: chars.simps [of "to_ascii_lowercase s"] utf8_step_lower Let_def) (simp add: to_ascii_lowercase_def)
    also have "\<dots> = to_ascii_lowercase (take (snd (utf8_step s)) s) # chars (to_ascii_lowercase (drop (snd (utf8_step s)) s))"
      by (simp add: to_ascii_lowercase_def take_map drop_map)
    finally show ?thesis using 1 [OF False refl] False by (simp add: chars.simps [of s] Let_def)
  qed (simp add: to_ascii_lowercase_def)
qed

lemma lower_char_ascii:
  "is_ascii_alphabetic (to_ascii_lowercase_char c) = is_ascii_alphabetic c"
  "is_ascii_digit (to_ascii_lowercase_char c) = is_ascii_digit c"
  by (auto simp: is_ascii_alphabetic_def is_ascii_digit_def is_digit_def to_digit_def to_ascii_lowercase_char_def Let_def)

lemma lower_char_other: "\<not> is_ascii_alphabetic d \<Longrightarrow> to_ascii_lowercase_char c = d \<longleftrightarrow> c = d"
  by (auto simp: to_ascii_lowercase_char_def is_ascii_alphabetic_def)

lemma in_lower: "\<not> is_ascii_alphabetic d \<Longrightarrow> d \<in> set (to_ascii_lowercase s) \<longleftrightarrow> d \<in> set s"
  by (auto simp: to_ascii_lowercase_def image_iff lower_char_other eq_commute [of d])

lemma position_lower: "\<not> is_ascii_alphabetic d \<Longrightarrow>
    position (\<lambda>c. c = d) (to_ascii_lowercase s) = position (\<lambda>c. c = d) s"
  by (induction s) (simp_all add: to_ascii_lowercase_def lower_char_other)

lemma lower_bracket: "starts_with (to_ascii_lowercase h) ''['' = starts_with h ''[''"
  by (cases h) (simp_all add: starts_with_def to_ascii_lowercase_def lower_char_other is_ascii_alphabetic_def)

lemma good_scheme_lower: "good_scheme (to_ascii_lowercase s) = good_scheme s"
proof -
  have "to_ascii_lowercase_char c \<in> set ''+-.'' \<longleftrightarrow> c \<in> set ''+-.''" for c
    by (simp add: lower_char_other is_ascii_alphabetic_def)
  then show ?thesis
    by (cases s) (simp_all add: good_scheme_def to_ascii_lowercase_def list_all_iff lower_char_ascii is_ascii_alphanumeric_def)
qed

lemma is_whitespace_lower: "is_whitespace (to_ascii_lowercase ch) = is_whitespace ch"
proof -
  have ws: "list_all (\<lambda>w. list_all (\<lambda>c. \<not> is_ascii_alphabetic c) w) white_space"
    by (simp add: white_space_def is_ascii_alphabetic_def upt_conv_Cons)
  have "to_ascii_lowercase ch = w \<longleftrightarrow> ch = w" if "list_all (\<lambda>c. \<not> is_ascii_alphabetic c) w" for w
    using that
  proof (induction w arbitrary: ch)
    case Nil
    then show ?case by (simp add: to_ascii_lowercase_def)
  next
    case (Cons x w)
    then show ?case by (cases ch) (auto simp: to_ascii_lowercase_def lower_char_other)
  qed
  then show ?thesis using ws unfolding is_whitespace_def list_all_iff by metis
qed

lemma utf8_step_high:
  assumes "i < snd (utf8_step s)" and "1 < snd (utf8_step s)"
  shows "128 \<le> byte_at s i"
proof (cases "snd (utf8_step s) \<le> 2")
  case True
  then have "i = 0 \<or> i = 1" using assms(1) by auto
  then show ?thesis using assms(2) second_high
    by (auto simp: utf8_step_def Let_def split: if_splits)
next
  case False
  show ?thesis
  proof (cases "snd (utf8_step s) = 3")
    case True
    then have "i = 0 \<or> i = 1 \<or> i = 2" using assms(1) by auto
    then show ?thesis using True second_high
      by (auto simp: utf8_step_def Let_def split: if_splits)
  next
    case False
    then have four: "snd (utf8_step s) = 4" using \<open>\<not> snd (utf8_step s) \<le> 2\<close>
      by (auto simp: utf8_step_def Let_def split: if_splits)
    then have "i = 0 \<or> i = 1 \<or> i = 2 \<or> i = 3" using assms(1) by auto
    then show ?thesis using four second_high
      by (auto simp: utf8_step_def Let_def split: if_splits)
  qed
qed

lemma chars_high: "ch \<in> set (chars s) \<Longrightarrow> length ch = 1 \<or> (\<forall>c\<in>set ch. 128 \<le> byte_of c)"
proof (induction s rule: chars.induct)
  case (1 s)
  show ?case
  proof (cases "ch = take (snd (utf8_step s)) s \<and> s \<noteq> []")
    case True
    show ?thesis
    proof (cases "1 < snd (utf8_step s)")
      case big: True
      have "128 \<le> byte_of (s ! i)" if "i < length ch" for i
        using utf8_step_high [OF _ big, of i] True that by (simp add: byte_at_def)
      then show ?thesis using True by (auto simp: in_set_conv_nth)
    next
      case False
      then have "snd (utf8_step s) = 1" using utf8_step_pos [of s] by simp
      then show ?thesis using True by (cases s) auto
    qed
  next
    case False
    then show ?thesis using 1 by (cases "s = []") (auto simp: chars.simps [of s] Let_def)
  qed
qed

lemma is_control_lower: "ch \<in> set (chars s) \<Longrightarrow> is_control (to_ascii_lowercase ch) = is_control ch"
proof -
  assume "ch \<in> set (chars s)"
  then consider (one) c where "ch = [c]" | (high) "\<forall>c\<in>set ch. 128 \<le> byte_of c"
    using chars_high by (metis One_nat_def length_0_conv length_Suc_conv)
  then show ?thesis
  proof cases
    case one
    then show ?thesis
      by (auto simp: is_control_def code_point_def byte_at_def to_ascii_lowercase_def to_ascii_lowercase_char_def)
  next
    case high
    then have "to_ascii_lowercase ch = ch" unfolding to_ascii_lowercase_def by (intro map_idI) (simp add: lower_byte_cases)
    then show ?thesis by simp
  qed
qed

lemma good_host_lower: "good_host (to_ascii_lowercase h) = good_host h"
  by (auto simp: good_host_def chars_lower list_all_iff is_whitespace_lower is_control_lower) (auto simp: to_ascii_lowercase_def)

definition host_ok :: "string \<Rightarrow> bool" where
  "host_ok h \<longleftrightarrow> good_host h \<and> (\<forall>c \<in> set ''/?#@''. c \<notin> set h)
     \<and> (if starts_with h ''['' then position (\<lambda>c. c = CHR '']'') h = Some (length h - 1) else CHR '':'' \<notin> set h)"

lemma host_ok_lower: "host_ok (to_ascii_lowercase h) = host_ok h"
  by (auto simp: host_ok_def good_host_lower lower_bracket position_lower in_lower is_ascii_alphabetic_def)
    (simp_all add: to_ascii_lowercase_def)

lemma split_once_at: "CHR '':'' \<notin> set a \<Longrightarrow> split_once (a @ ''://'' @ b) ''://'' = Some (a, b)"
  by (induction a) (auto simp: starts_with_def)


lemma good_scheme_chars: "good_scheme s \<Longrightarrow> CHR '':'' \<notin> set s"
  by (auto simp: good_scheme_def list_all_iff is_ascii_alphanumeric_def is_ascii_alphabetic_def is_ascii_digit_def
      is_digit_def to_digit_def Let_def split: list.splits)

lemma rsplit_last_not_in: "c \<notin> set (rsplit_last s c)"
proof (cases "c \<in> set s")
  case True
  have "c \<notin> set (takeWhile (\<lambda>x. x \<noteq> c) (rev s))" by (metis (mono_tags) set_takeWhileD)
  then show ?thesis using True by (simp add: rsplit_last_def rsplit_once_def split_once_char)
qed (simp add: rsplit_last_def rsplit_once_def split_once_char)

lemma rsplit_last_id: "c \<notin> set s \<Longrightarrow> rsplit_last s c = s"
  by (simp add: rsplit_last_def rsplit_once_def split_once_char)

lemma rsplit_last_subset: "set (rsplit_last s c) \<subseteq> set s"
proof (cases "c \<in> set s")
  case True
  have "set (takeWhile (\<lambda>x. x \<noteq> c) (rev s)) \<subseteq> set s" by (auto dest: set_takeWhileD)
  then show ?thesis using True by (simp add: rsplit_last_def rsplit_once_def split_once_char)
qed (simp add: rsplit_last_id)

lemma position_take:
  "position p xs = Some i \<Longrightarrow> position p (take (Suc i) xs) = Some i"
proof (induction xs arbitrary: i)
  case (Cons x xs)
  then show ?case by (cases "p x") (auto split: nat.splits)
qed simp

lemma split_host_port_ok:
  assumes "split_host_port s = Some (h, pr)" and "good_host h" and "\<forall>c \<in> set ''/?#@''. c \<notin> set s"
  shows "host_ok h"
proof (cases "starts_with s ''[''")
  case True
  then obtain i where i: "position (\<lambda>c. c = CHR '']'') s = Some i" "h = take (i + 1) s"
    using assms(1) by (auto simp: split_host_port_def Let_def split: option.splits if_splits)
  have "i < length s" using position_Some [OF i(1)] by simp
  then have l: "length h - 1 = i" "starts_with h ''[''" using i(2) True by (auto simp: starts_with_def)
  have "set h \<subseteq> set s" using i(2) by (auto dest: in_set_takeD)
  then show ?thesis using assms(2,3) l i position_take [OF i(1)] by (auto simp: host_ok_def)
next
  case False
  then have h: "h = (if CHR '':'' \<in> set s then takeWhile (\<lambda>x. x \<noteq> CHR '':'') s else s)"
    using assms(1) by (auto simp: split_host_port_def split_once_char split: option.splits if_splits)
  then have "CHR '':'' \<notin> set h" "set h \<subseteq> set s" by (auto dest: set_takeWhileD)
  moreover have "\<not> starts_with h ''[''" using False h by (cases s) (auto simp: starts_with_def)
  ultimately show ?thesis using assms(2,3) by (auto simp: host_ok_def)
qed

lemma authority_chars: "c \<in> set ''/?#'' \<Longrightarrow> c \<notin> set (authority_of rest)"
  unfolding authority_of_def upto_any_def by (metis set_takeWhileD)

lemma read_port_bound: "read_port pr = Some (Some p) \<Longrightarrow> p \<le> 65535"
  by (auto simp: read_port_def split: option.splits if_splits)

lemma parse_origin_parts:
  assumes "parse_origin v = Some (s, h, p)"
  shows "good_scheme s" "to_ascii_lowercase s = s" "host_ok h" "to_ascii_lowercase h = h"
    "case p of None \<Rightarrow> True | Some n \<Rightarrow> n \<le> 65535"
proof -
  obtain scheme rest h0 pr where v: "split_once v ''://'' = Some (scheme, rest)" "good_scheme scheme"
      "split_host_port (rsplit_last (authority_of rest) (CHR ''@'')) = Some (h0, pr)" "good_host h0" "read_port pr = Some p"
    and out: "s = to_ascii_lowercase scheme" "h = to_ascii_lowercase h0"
    using assms by (auto simp: parse_origin_def split: bind_splits if_splits)
  have "\<forall>c \<in> set ''/?#@''. c \<notin> set (rsplit_last (authority_of rest) (CHR ''@''))"
    using authority_chars [of _ rest] rsplit_last_subset [of "authority_of rest" "CHR ''@''"] rsplit_last_not_in by fastforce
  then have "host_ok h0" using split_host_port_ok [OF v(3,4)] by blast
  then show "good_scheme s" "to_ascii_lowercase s = s" "host_ok h" "to_ascii_lowercase h = h"
    using out v(2) by (simp_all add: good_scheme_lower host_ok_lower)
  show "case p of None \<Rightarrow> True | Some n \<Rightarrow> n \<le> 65535" using v(5) read_port_bound by (auto split: option.splits)
qed

lemma digit_not_delim: "is_ascii_digit c \<Longrightarrow> c \<notin> set ''/?#@:[]''"
  by (auto simp: is_ascii_digit_def is_digit_def to_digit_def Let_def)

lemma read_port_text: "n \<le> 65535 \<Longrightarrow> read_port (Some (show_nat n)) = Some (Some n)"
proof -
  assume "n \<le> 65535"
  then have "from_str_radix 32 10 (show_nat n) = Some n" unfolding show_nat_def by (intro from_str_radix_show) simp_all
  then show ?thesis using \<open>n \<le> 65535\<close> show_nat_digits [of _ n] by (simp add: read_port_def show_nat_nonempty list_all_iff)
qed

lemma host_ok_nonempty: "host_ok h \<Longrightarrow> h \<noteq> []"
  by (simp add: host_ok_def good_host_def)

lemma position_some_append: "position p xs = Some i \<Longrightarrow> position p (xs @ ys) = Some i"
  by (induction xs arbitrary: i) auto

lemma split_host_port_text:
  assumes "host_ok h"
  shows "split_host_port (h @ (case p of None \<Rightarrow> [] | Some n \<Rightarrow> '':'' @ show_nat n)) = Some (h, map_option show_nat p)"
proof (cases "starts_with h ''[''")
  case True
  let ?t = "case p of None \<Rightarrow> [] | Some n \<Rightarrow> '':'' @ show_nat n"
  have "position (\<lambda>c. c = CHR '']'') h = Some (length h - 1)" using assms True by (simp add: host_ok_def)
  then have "position (\<lambda>c. c = CHR '']'') (h @ ?t) = Some (length h - 1)" by (rule position_some_append)
  moreover have "starts_with (h @ ?t) ''[''" using True by (cases h) (auto simp: starts_with_def)
  moreover have "length h - 1 + 1 = length h" using host_ok_nonempty [OF assms] by (cases h) auto
  ultimately show ?thesis
    by (cases p) (simp_all add: split_host_port_def Let_def strip_prefix_def starts_with_def)
next
  case False
  have c: "CHR '':'' \<notin> set h" using assms False by (simp add: host_ok_def)
  have "\<not> starts_with (h @ x) ''[''" for x using False host_ok_nonempty [OF assms] by (cases h) (auto simp: starts_with_def)
  moreover have "split_once h '':'' = None" using c by (simp add: split_once_char)
  moreover have "split_once (h @ '':'' @ x) '':'' = Some (h, x)" for x using c by (induction h) (auto simp: starts_with_def)
  ultimately show ?thesis by (cases p) (simp_all add: split_host_port_def del: append_Cons append_Nil2, simp add: split_host_port_def)
qed

lemma parse_origin_text:
  assumes "good_scheme s" "to_ascii_lowercase s = s" "host_ok h" "to_ascii_lowercase h = h"
    and "case p of None \<Rightarrow> True | Some n \<Rightarrow> n \<le> 65535"
  shows "parse_origin (origin_text s h p) = Some (s, h, p)"
proof -
  let ?t = "case p of None \<Rightarrow> [] | Some n \<Rightarrow> '':'' @ show_nat n"
  have d: "x \<notin> set ''/?#@''" if "x \<in> set (show_nat n)" for x n
    using digit_not_delim [OF show_nat_digits [OF that]] by simp
  have t: "c \<notin> set ''/?#@''" if "c \<in> set ?t" for c
  proof (cases p)
    case (Some n)
    then have "c = CHR '':'' \<or> c \<in> set (show_nat n)" using that by simp
    then show ?thesis using d [of c n] by (elim disjE) simp_all
  qed (use that in simp)
  have ht: "\<forall>c \<in> set (h @ ?t). c \<notin> set ''/?#@''" 
  proof
    fix c assume "c \<in> set (h @ ?t)"
    then consider "c \<in> set h" | "c \<in> set ?t" by auto
    then show "c \<notin> set ''/?#@''" using t assms(3) unfolding host_ok_def by cases blast+
  qed
  have 1: "authority_of (h @ ?t) = h @ ?t" unfolding authority_of_def upto_any_def using ht by (subst takeWhile_eq_all_conv) auto
  have 2: "rsplit_last (h @ ?t) (CHR ''@'') = h @ ?t" using ht by (intro rsplit_last_id) auto
  have 3: "read_port (map_option show_nat p) = Some p"
    using assms(5) read_port_text by (cases p) (auto simp: read_port_def)
  have 4: "good_host h" using assms(3) by (simp add: host_ok_def)
  have 5: "split_once (origin_text s h p) ''://'' = Some (s, h @ ?t)"
    unfolding origin_text_def by (rule split_once_at [OF good_scheme_chars [OF assms(1)]])
  show ?thesis
    unfolding parse_origin_def 5 Option.bind_lunit prod.case 1 2 split_host_port_text [OF assms(3)] if_P [OF assms(1)] if_P [OF 4] 3
      assms(2,4) by (rule refl)
qed

section \<open>Which hosts are local\<close>

text \<open>The address ranges as networks: a 32-bit address and the length of its prefix.\<close>

definition ipv4_value :: "string \<Rightarrow> nat option" where
  "ipv4_value h = map_option (\<lambda>(a, b, c, d). ((a * 256 + b) * 256 + c) * 256 + d) (dotted_quad h)"

definition LOCAL_NETWORKS :: "(nat \<times> nat) list" where
  "LOCAL_NETWORKS = [(0x7F000000, 8), (0x0A000000, 8), (0xC0A80000, 16), (0xAC100000, 12), (0xA9FE0000, 16)]"

definition in_network :: "nat \<Rightarrow> nat \<times> nat \<Rightarrow> bool" where
  "in_network ip net \<longleftrightarrow> ip div 2 ^ (32 - snd net) = fst net div 2 ^ (32 - snd net)"

lemma octet_bound: "octet p = Some n \<Longrightarrow> n \<le> 255"
  by (auto simp: octet_def split: if_splits option.splits)

lemma dotted_quad_Some:
  assumes "dotted_quad h = Some (a, b, c, d)"
  obtains p q r s where "split_char (CHR ''.'') h = [p, q, r, s]" "octet p = Some a" "octet q = Some b" "octet r = Some c" "octet s = Some d"
proof -
  have "dotted_quad_of (split_char (CHR ''.'') h) = Some (a, b, c, d)" using assms by (simp add: dotted_quad_def)
  then show thesis by (cases "split_char (CHR ''.'') h" rule: dotted_quad_of.cases) (auto intro: that split: bind_splits)
qed

lemma network_test:
  assumes "a \<le> 255" "b \<le> 255" "c \<le> 255" "d \<le> (255::nat)"
  shows "(\<exists>(first, lo, hi) \<in> set PRIVATE_V4. a = first \<and> lo \<le> b \<and> b \<le> hi)
    \<longleftrightarrow> list_ex (in_network (((a * 256 + b) * 256 + c) * 256 + d)) LOCAL_NETWORKS"
proof -
  define ip where "ip = ((a * 256 + b) * 256 + c) * 256 + d"
  have 8: "ip div 16777216 = a" using assms unfolding ip_def by (intro div_nat_eqI) simp_all
  have 16: "ip div 65536 = a * 256 + b" using assms unfolding ip_def by (intro div_nat_eqI) simp_all
  have 12: "ip div 1048576 = a * 16 + b div 16"
  proof -
    have "ip div 1048576 = ip div 65536 div 16" by (simp add: div_mult2_eq [symmetric])
    also have "\<dots> = (a * 256 + b) div 16" by (simp only: 16)
    also have "\<dots> = a * 16 + b div 16" by presburger
    finally show ?thesis .
  qed
  have q: "b div 16 \<le> 15" "b div 16 = 1 \<longleftrightarrow> 16 \<le> b \<and> b \<le> 31" using assms(2) by presburger+
  have "a * 16 + q = 2753 \<longleftrightarrow> a = 172 \<and> q = 1" if "q \<le> 15" for q using that by arith
  from this [OF q(1)] have "a * 16 + b div 16 = 2753 \<longleftrightarrow> a = 172 \<and> 16 \<le> b \<and> b \<le> 31" using q(2) by simp
  moreover have "a * 256 + b = 49320 \<longleftrightarrow> a = 192 \<and> b = 168" "a * 256 + b = 43518 \<longleftrightarrow> a = 169 \<and> b = 254"
    using assms(2) by arith+
  ultimately show ?thesis using assms(2) unfolding ip_def [symmetric]
    by (simp add: PRIVATE_V4_def LOCAL_NETWORKS_def in_network_def 8 16 12) auto
qed

text \<open>
  Exactly the names and networks that are local: a host without a colon is exempt from the rules
  against plain HTTP just when it is \<open>localhost\<close>, a \<open>.local\<close> name, or a complete dotted quad inside one
  of the five networks, never a name that only begins with such an address.
\<close>

theorem local_hosts_exact:
  assumes "CHR '':'' \<notin> set host"
  shows "is_loopback_or_private_host host \<longleftrightarrow> bare_host host = ''localhost'' \<or> ends_with (bare_host host) ''.local''
    \<or> (case ipv4_value (bare_host host) of None \<Rightarrow> False | Some ip \<Rightarrow> list_ex (in_network ip) LOCAL_NETWORKS)"
proof -
  let ?h = "bare_host host"
  have sub: "set (bare_host host) \<subseteq> set (to_ascii_lowercase host)"
    by (auto simp: bare_host_def Let_def strip_prefix_def strip_suffix_def unwrap_or_def
        dest!: in_set_takeD in_set_dropD split: option.splits if_splits)
  then have c: "CHR '':'' \<notin> set ?h" using assms by (auto simp: in_lower is_ascii_alphabetic_def)
  then have v6: "first_v6_group ?h = None" by (simp add: first_v6_group_def split_once_char)
  have "?h \<noteq> ''::1''" using c by auto
  then have "is_loopback_or_private_host host \<longleftrightarrow> ?h = ''localhost'' \<or> ends_with ?h ''.local''
    \<or> (case dotted_quad ?h of None \<Rightarrow> False
       | Some (a, b, _) \<Rightarrow> (\<exists>(first, lo, hi) \<in> set PRIVATE_V4. a = first \<and> lo \<le> b \<and> b \<le> hi))"
    by (simp add: is_loopback_or_private_host_def Let_def v6 PRIVATE_NAMES_def PRIVATE_SUFFIXES_def)
  moreover have "(case dotted_quad ?h of None \<Rightarrow> False
       | Some (a, b, _) \<Rightarrow> (\<exists>(first, lo, hi) \<in> set PRIVATE_V4. a = first \<and> lo \<le> b \<and> b \<le> hi))
     \<longleftrightarrow> (case ipv4_value ?h of None \<Rightarrow> False | Some ip \<Rightarrow> list_ex (in_network ip) LOCAL_NETWORKS)"
  proof (cases "dotted_quad ?h")
    case (Some abcd)
    obtain a b c d where abcd: "abcd = (a, b, c, d)" by (cases abcd)
    have "a \<le> 255" "b \<le> 255" "c \<le> 255" "d \<le> 255"
      using dotted_quad_Some [OF Some [unfolded abcd]] octet_bound by metis+
    from network_test [OF this] show ?thesis by (simp add: Some abcd ipv4_value_def)
  qed (simp add: ipv4_value_def)
  ultimately show ?thesis by simp
qed

theorem local_hosts_exact_witness:
  "\<not> is_loopback_or_private_host ''10.0.0.1.evil.com'' \<and> is_loopback_or_private_host ''172.31.0.9''"
proof -
  have "ipv4_value ''10.0.0.1.evil.com'' = None" "bare_host ''10.0.0.1.evil.com'' = ''10.0.0.1.evil.com''" by code_simp+
  moreover have "ipv4_value ''172.31.0.9'' = Some 2887712777" "bare_host ''172.31.0.9'' = ''172.31.0.9''"
    by (simp_all add: ipv4_value_def dotted_quad_def octet_def is_ascii_digit_def is_digit_def to_digit_def
        from_str_radix_def digits_value_def bare_host_def strip_prefix_def strip_suffix_def starts_with_def ends_with_def
        to_ascii_lowercase_def to_ascii_lowercase_char_def Let_def)
  ultimately show ?thesis
    using local_hosts_exact [of "''10.0.0.1.evil.com''"] local_hosts_exact [of "''172.31.0.9''"]
    by (simp add: ends_with_def LOCAL_NETWORKS_def in_network_def)
qed

section \<open>The rules agree\<close>

lemma split_char_join: "concat (List.map (\<lambda>p. c # p) (split_char c s)) = c # s"
  by (induction s) (auto simp: split_char_nonempty split: list.splits)

lemma loopback_is_local:
  assumes "is_loopback_host h"
  shows "is_loopback_or_private_host h \<or> ends_with (to_ascii_lowercase h) ''.localhost''"
proof -
  let ?l = "to_ascii_lowercase h"
  consider "?l = ''localhost''" | "ends_with ?l ''.localhost''" | "?l = ''[::1]''"
    | b c d where "dotted_quad ?l = Some (127, b, c, d)"
    using assms by (auto simp: is_loopback_host_def Let_def split: option.splits)
  then show ?thesis
  proof cases
    case (4 b c d)
    then obtain p q r s where sp: "split_char (CHR ''.'') ?l = [p, q, r, s]" "octet p = Some 127" "octet q = Some b" "octet r = Some c" "octet s = Some d"
      by (rule dotted_quad_Some) blast
    have digits: "list_all is_ascii_digit p" "p \<noteq> []" "list_all is_ascii_digit q" "list_all is_ascii_digit s" "s \<noteq> []" "list_all is_ascii_digit r"
      using sp(2-5) by (auto simp: octet_def split: if_splits)
    have l: "?l = p @ ''.'' @ q @ ''.'' @ r @ ''.'' @ s" using split_char_join [of "CHR ''.''" ?l] sp(1) by simp
    have "CHR '':'' \<notin> set x" if "list_all is_ascii_digit x" for x
      using that digit_not_delim [of "CHR '':''"] by (auto simp: list_all_iff)
    then have "CHR '':'' \<notin> set ?l" using digits l by simp
    then have v6: "first_v6_group ?l = None" by (simp add: first_v6_group_def split_once_char)
    have nb: "\<not> is_ascii_digit (CHR ''['')" "\<not> is_ascii_digit (CHR '']'')"
      by (simp_all add: is_ascii_digit_def is_digit_def to_digit_def)
    have "\<not> starts_with ?l ''[''" using digits(1,2) nb l by (cases p) (auto simp: starts_with_def)
    moreover have "\<not> ends_with ?l '']''" 
    proof
      assume "ends_with ?l '']''"
      then have "last ?l = CHR '']''" by (auto simp: ends_with_iff)
      moreover have "last ?l = last s" using l digits(5) by simp
      ultimately show False using digits(4,5) nb(2) by (metis last_in_set list_all_iff)
    qed
    ultimately have bare: "bare_host h = ?l" by (simp add: bare_host_def Let_def strip_prefix_def strip_suffix_def)
    have "b \<le> 255" using sp(3) by (rule octet_bound)
    then have "\<exists>(first, lo, hi) \<in> set PRIVATE_V4. 127 = first \<and> lo \<le> b \<and> b \<le> hi" by (simp add: PRIVATE_V4_def)
    then have "is_loopback_or_private_host h" using 4 v6 by (simp add: is_loopback_or_private_host_def Let_def bare)
    then show ?thesis ..
  qed (simp_all add: is_loopback_or_private_host_def bare_host_def Let_def PRIVATE_NAMES_def strip_prefix_def
      strip_suffix_def starts_with_def ends_with_def)
qed


lemma parse_origin_of:
  assumes "origin_of url = Some og"
  obtains s h p q where "parse_origin url = Some (s, h, p)" "parse_origin og = Some (s, h, q)" "origin_of og = Some og"
    "s = ''http'' \<or> s = ''https''"
proof -
  obtain s h p where u: "parse_origin url = Some (s, h, p)" "s = ''http'' \<or> s = ''https''"
    using assms by (auto simp: origin_of_def Let_def split: option.splits if_splits)
  define q where "q = (if p = Some (if s = ''http'' then 80 else 443) then None else p)"
  have og: "og = origin_text s h q" using assms u by (auto simp: origin_of_def Let_def q_def)
  note parts = parse_origin_parts [OF u(1)]
  have po: "parse_origin og = Some (s, h, q)"
    unfolding og by (rule parse_origin_text) (use parts in \<open>auto simp: q_def\<close>)
  moreover have "origin_of og = Some og" using po u(2) og by (auto simp: origin_of_def Let_def q_def)
  ultimately show thesis using that u by blast
qed

text \<open>
  The origin of a URL is in normal form and carries every rule: reading it again gives itself, and the
  rules judge the URL and its origin alike.
\<close>

theorem origin_is_canonical:
  assumes "origin_of url = Some origin"
  shows "origin_of origin = Some origin \<and> is_insecure_public_origin origin = is_insecure_public_origin url
    \<and> origin_lock origin = origin_lock url \<and> offers_wallet origin debug_mode = offers_wallet url debug_mode"
proof -
  obtain s h p q where u: "parse_origin url = Some (s, h, p)" "parse_origin origin = Some (s, h, q)" "origin_of origin = Some origin"
    using assms by (rule parse_origin_of)
  then show ?thesis by (simp add: is_insecure_public_origin_def origin_lock_def offers_wallet_def is_secure_context_def)
qed

lemma good_host_printable:
  assumes "h \<noteq> []" and "list_all (\<lambda>c. 32 < byte_of c \<and> byte_of c < 127) h"
  shows "good_host h"
proof -
  have "is_ascii h" using assms(2) by (auto simp: is_ascii_def list_all_iff)
  then have "chars h = List.map (\<lambda>c. [c]) h" by (rule chars_ascii)
  moreover have "\<not> is_whitespace [c] \<and> \<not> is_control [c]" if "c \<in> set h" for c
  proof -
    have c: "32 < byte_of c" "byte_of c < 127" using assms(2) that by (auto simp: list_all_iff)
    then have "\<not> is_whitespace [c]" using white_space_not_printable [of "[c]"] by (auto simp: is_whitespace_def printable_def)
    moreover have "\<not> is_control [c]" using c by (simp add: is_control_def code_point_def byte_at_def)
    ultimately show ?thesis ..
  qed
  ultimately show ?thesis using assms(1) by (simp add: good_host_def list_all_iff)
qed

lemmas origin_eval = origin_of_def parse_origin_def good_scheme_def is_ascii_alphabetic_def is_ascii_alphanumeric_def
  is_ascii_digit_def is_digit_def to_digit_def authority_of_def upto_any_def rsplit_last_def rsplit_once_def
  split_host_port_def starts_with_def read_port_def from_str_radix_def digits_value_def origin_text_def Let_def

theorem origin_is_canonical_witness:
  "offers_wallet ''http://127.0.0.1'' False = offers_wallet ''HTTP://user@127.0.0.1:80/a'' False"
proof -
  have "origin_of ''HTTP://user@127.0.0.1:80/a'' = Some ''http://127.0.0.1''"
  proof -
    have "good_host ''127.0.0.1''" by (rule good_host_printable) simp_all
    moreover have "to_ascii_lowercase ''HTTP'' = ''http''" "to_ascii_lowercase ''127.0.0.1'' = ''127.0.0.1''" by code_simp+
    ultimately show ?thesis by (simp add: origin_eval)
  qed
  then show ?thesis using origin_is_canonical by blast
qed

section \<open>What a person types, and what another app asks to open\<close>

lemma authority_idem [simp]: "authority_of (authority_of x) = authority_of x"
  unfolding authority_of_def upto_any_def by (subst takeWhile_eq_all_conv) (auto dest: set_takeWhileD)

lemma parse_origin_authority:
  assumes "CHR '':'' \<notin> set s"
  shows "parse_origin (s @ ''://'' @ authority_of x) = parse_origin (s @ ''://'' @ x)"
  using split_once_at [OF assms] by (simp add: parse_origin_def)

text \<open>
  What is typed is never loaded in the clear unasked: the address bar opens a page over HTTPS (a search
  among them), or the text itself when it is a well-formed HTTP address, or an HTTP page of a local host.
\<close>

theorem typed_text_opens:
  assumes "browser_input text = Some url"
  shows "starts_with (to_ascii_lowercase url) ''https://''
    \<or> (url = trim text \<and> starts_with (to_ascii_lowercase url) ''http://'' \<and> origin_of url \<noteq> None)
    \<or> (url = ''http://'' @ trim text \<and> \<not> is_insecure_public_origin url)"
proof -
  let ?t = "trim text"
  have s: "starts_with (to_ascii_lowercase (search_url x)) ''https://''" for x
    by (simp add: search_url_def SEARCH_URL_PREFIX_def starts_with_def to_ascii_lowercase_def to_ascii_lowercase_char_def)
  have h: "starts_with (to_ascii_lowercase (''https://'' @ x)) ''https://''" for x
    by (simp add: starts_with_def to_ascii_lowercase_def to_ascii_lowercase_char_def)
  have p: "is_insecure_public_origin (''http://'' @ authority_of x) = is_insecure_public_origin (''http://'' @ x)" for x
    using parse_origin_authority [of "''http''" x] by (simp add: is_insecure_public_origin_def)
  consider (full) "starts_with (to_ascii_lowercase ?t) ''http://'' \<or> starts_with (to_ascii_lowercase ?t) ''https://''" "origin_of ?t \<noteq> None" "url = ?t"
    | (search) "url = search_url ?t"
    | (local) "\<not> is_insecure_public_origin (''http://'' @ authority_of ?t)" "url = ''http://'' @ ?t"
    | (https) "url = ''https://'' @ ?t"
    using assms unfolding browser_input_def Let_def by (simp only: split: if_split_asm) blast+
  then show ?thesis
  proof cases
    case full
    then show ?thesis by auto
  next
    case search
    then show ?thesis using s by simp
  next
    case local
    then show ?thesis using p by simp
  next
    case https
    then show ?thesis using h [of ?t] by simp
  qed
qed

text \<open>
  An external link is asked about by the host it loads: what the person is shown is the host, with its
  port, of the HTTPS origin of the page the address bar then opens, and the link names no user.
\<close>

theorem asked_host_is_loaded:
  assumes "external_page_host url = Some host"
  shows "browser_input url = Some (trim url) \<and> origin_of (trim url) = Some (''https://'' @ host)
    \<and> (\<exists>scheme rest. split_once (trim url) ''://'' = Some (scheme, rest) \<and> CHR ''@'' \<notin> set (authority_of rest))"
proof -
  let ?u = "trim url"
  obtain scheme rest where sp: "split_once ?u ''://'' = Some (scheme, rest)" and ht: "eq_ignore_ascii_case scheme ''https''"
    and at: "\<not> contains (authority_of rest) ''@''" and o: "Option.bind (origin_of ?u) (\<lambda>origin. strip_prefix origin ''https://'') = Some host"
    using assms by (auto simp: external_page_host_def Let_def split: option.splits if_splits)
  obtain og where og: "origin_of ?u = Some og" "strip_prefix og ''https://'' = Some host" using o by (cases "origin_of ?u") auto
  have "og = ''https://'' @ host"
    using og(2) by (simp only: strip_prefix_Some)
  moreover have "?u = scheme @ ''://'' @ rest" using sp by (rule split_once_append)
  then have "starts_with (to_ascii_lowercase ?u) ''https://''"
    using ht by (simp add: eq_ignore_ascii_case_def starts_with_def to_ascii_lowercase_def to_ascii_lowercase_char_def)
  moreover have "?u \<noteq> []" using sp by auto
  ultimately show ?thesis using og(1) sp at
    by (auto simp: browser_input_def Let_def contains_def split_once_char split: if_splits)
qed

theorem asked_host_is_loaded_witness: "browser_input ''https://x.example'' = Some ''https://x.example''"
proof -
  have t: "trim ''https://x.example'' = ''https://x.example''" by (intro trim_id) (simp add: printable_def)
  have "external_page_host ''https://x.example'' = Some ''x.example''"
  proof -
    have "good_host ''x.example''" by (rule good_host_printable) simp_all
    moreover have "chars ''https://x.example'' = List.map (\<lambda>c. [c]) ''https://x.example''" by (rule chars_ascii) (simp add: is_ascii_def)
    moreover have "list_all (\<lambda>c. \<not> is_whitespace [c]) ''https://x.example''"
      using white_space_not_printable by (fastforce simp: is_whitespace_def printable_def)
    moreover have "to_ascii_lowercase ''https'' = ''https''" "to_ascii_lowercase ''x.example'' = ''x.example''" by code_simp+
    ultimately show ?thesis
      by (simp add: external_page_host_def t origin_eval eq_ignore_ascii_case_def contains_def strip_prefix_def)
  qed
  from asked_host_is_loaded [OF this] show ?thesis by (simp add: t)
qed

theorem typed_text_opens_witness: "starts_with (to_ascii_lowercase (''https://duckduckgo.com/?q=two+words'')) ''https://''"
proof -
  have t: "trim ''two words'' = ''two words''" by (intro trim_id) (simp add: printable_def)
  have "chars ''two words'' = List.map (\<lambda>c. [c]) ''two words''" by (rule chars_ascii) (simp add: is_ascii_def)
  moreover have "is_whitespace [CHR '' '']" by (simp add: is_whitespace_def white_space_def)
  moreover have "to_ascii_lowercase ''two words'' = ''two words''" "search_url ''two words'' = ''https://duckduckgo.com/?q=two+words''" by code_simp+
  ultimately have "browser_input ''two words'' = Some ''https://duckduckgo.com/?q=two+words''"
    by (simp add: browser_input_def t starts_with_def)
  from typed_text_opens [OF this] show ?thesis by (simp add: t)
qed

text \<open>
  Two consequences of the rules as they are written. A loopback name under \<open>.localhost\<close> is offered the
  wallet and refused its signatures; and since a backslash is part of a host here, while a URL of a special
  scheme ends its host at one, an RPC address of a public host in the clear passes for a loopback one.
\<close>

lemma localhost_name_divides_the_rules:
  "offers_wallet ''http://app.localhost'' False" "is_insecure_public_origin ''http://app.localhost''"
proof -
  have "good_host ''app.localhost''" by (rule good_host_printable) simp_all
  moreover have l: "to_ascii_lowercase ''http'' = ''http''" "to_ascii_lowercase ''app.localhost'' = ''app.localhost''" by code_simp+
  ultimately have p: "parse_origin ''http://app.localhost'' = Some (''http'', ''app.localhost'', None)" by (simp add: origin_eval)
  show "offers_wallet ''http://app.localhost'' False"
    by (simp add: offers_wallet_def is_secure_context_def p is_loopback_host_def l ends_with_def)
  have "bare_host ''app.localhost'' = ''app.localhost''" "dotted_quad ''app.localhost'' = None" "first_v6_group ''app.localhost'' = None" by code_simp+
  then show "is_insecure_public_origin ''http://app.localhost''"
    by (simp add: is_insecure_public_origin_def p is_loopback_or_private_host_def PRIVATE_NAMES_def PRIVATE_SUFFIXES_def ends_with_def)
qed

definition BACKSLASH_HOST :: string where
  "BACKSLASH_HOST = ''evil.example'' @ [CHR 0x5C] @ ''.localhost''"

lemma backslash_hides_the_host: "usable_rpc_url (''http://'' @ BACKSLASH_HOST) False"
proof -
  let ?h = BACKSLASH_HOST
  have ascii: "is_ascii (''http://'' @ ?h)" by (simp add: is_ascii_def BACKSLASH_HOST_def)
  have ws: "\<not> list_ex is_whitespace (chars (''http://'' @ ?h))"
    unfolding chars_ascii [OF ascii] using white_space_not_printable
    by (fastforce simp: is_whitespace_def printable_def BACKSLASH_HOST_def)
  have "host_ok ?h" unfolding host_ok_def
    by (intro conjI good_host_printable) (simp_all add: BACKSLASH_HOST_def starts_with_def)
  moreover have l: "to_ascii_lowercase ?h = ?h" "good_scheme ''http''" "to_ascii_lowercase ''http'' = ''http''" by code_simp+
  ultimately have p: "parse_origin (''http://'' @ ?h) = Some (''http'', ?h, None)"
    using parse_origin_text [of "''http''" ?h None] by (simp add: origin_text_def)
  have "ends_with ?h ''.localhost''" by (auto simp: ends_with_iff BACKSLASH_HOST_def)
  then have "offers_wallet (''http://'' @ ?h) False"
    by (simp add: offers_wallet_def is_secure_context_def p [simplified] is_loopback_host_def l)
  moreover have "origin_of (''http://'' @ ?h) = Some (''http://'' @ ?h)" by (simp add: origin_of_def p [simplified] origin_text_def)
  moreover have "split_once (''http://'' @ ?h) ''://'' = Some (''http'', ?h)" using split_once_at [of "''http''" ?h] by simp
  moreover have "\<not> contains (authority_of ?h) ''@''"
    by (simp add: authority_of_def upto_any_def BACKSLASH_HOST_def contains_def split_once_char)
  moreover have "length (chars (''http://'' @ ?h)) \<le> ASK_URL_CHARS"
    unfolding chars_ascii [OF ascii] by (simp add: BACKSLASH_HOST_def ASK_URL_CHARS_def)
  ultimately show ?thesis unfolding usable_rpc_url_def using ws by simp
qed



end
