(* ===== verification/DappRpc.thy ===== *)
theory DappRpc
  imports TypedData Origins
begin

text \<open>
  \<open>app/dapp_rpc.rs\<close>: which request of a page is answered by whom, what a request names (its account,
  its chain, the network it asks for, the batch it asks about), the envelope of the page's bridge, and
  the answers. The parser and the printer of JSON are parameters. The injected script is text and is
  not modelled.
\<close>

section \<open>Routing\<close>

definition READ_ONLY_RPC_METHODS :: "string list" where
  "READ_ONLY_RPC_METHODS = [''eth_call'', ''eth_estimateGas'', ''eth_getBalance'', ''eth_getCode'', ''eth_getStorageAt'',
     ''eth_getTransactionCount'', ''eth_getTransactionByHash'', ''eth_getTransactionReceipt'', ''eth_getLogs'',
     ''eth_blockNumber'', ''eth_getBlockByNumber'', ''eth_getBlockByHash'', ''eth_feeHistory'', ''eth_gasPrice'',
     ''eth_maxPriorityFeePerGas'', ''eth_newFilter'', ''eth_newBlockFilter'', ''eth_getFilterChanges'',
     ''eth_uninstallFilter'', ''eth_sendRawTransaction'', ''eth_syncing'']"

definition BUNDLER_METHODS :: "string list" where
  "BUNDLER_METHODS = [''eth_sendUserOperation'', ''eth_estimateUserOperationGas'', ''eth_getUserOperationReceipt'',
     ''eth_getUserOperationByHash'', ''pimlico_getUserOperationGasPrice'']"

definition EXTRA_READ_METHODS :: "string list" where
  "EXTRA_READ_METHODS = [''eth_getBlockReceipts'', ''eth_getProof'', ''eth_createAccessList'', ''eth_getFilterLogs'',
     ''eth_getTransactionByBlockHashAndIndex'', ''eth_getTransactionByBlockNumberAndIndex'',
     ''eth_getBlockTransactionCountByHash'', ''eth_getBlockTransactionCountByNumber'', ''web3_clientVersion'']"

datatype route =
    Connect | Accounts | Coinbase | Permissions | RevokePermissions | ChainId | NetVersion | SwitchChain
  | AddChain | WatchAsset | Sign | Capabilities | CallsStatus | Read bool | Unsupported

definition rpc_is_signing_method :: "string \<Rightarrow> bool" where
  "rpc_is_signing_method method \<longleftrightarrow>
     method = ''eth_sendTransaction'' \<or> method = ''wallet_sendCalls'' \<or> method = ''personal_sign''
     \<or> contains method ''signTypedData''"

definition classify :: "string \<Rightarrow> route" where
  "classify method =
     (if method = ''eth_sign'' then Unsupported
      else if rpc_is_signing_method method then Sign
      else if method = ''eth_requestAccounts'' \<or> method = ''wallet_requestPermissions'' then Connect
      else if method = ''eth_accounts'' then Accounts
      else if method = ''eth_coinbase'' then Coinbase
      else if method = ''wallet_getPermissions'' then Permissions
      else if method = ''wallet_revokePermissions'' then RevokePermissions
      else if method = ''eth_chainId'' then ChainId
      else if method = ''net_version'' then NetVersion
      else if method = ''wallet_switchEthereumChain'' then SwitchChain
      else if method = ''wallet_addEthereumChain'' then AddChain
      else if method = ''wallet_watchAsset'' then WatchAsset
      else if method = ''wallet_getCapabilities'' then Capabilities
      else if method = ''wallet_getCallsStatus'' then CallsStatus
      else if method \<in> set BUNDLER_METHODS then Read True
      else if method \<in> set READ_ONLY_RPC_METHODS \<or> method \<in> set EXTRA_READ_METHODS then Read False
      else Unsupported)"

section \<open>What a request names\<close>

definition first_of :: "json \<Rightarrow> json option" where
  "first_of params = get_index params 0"

definition chain_number :: "json \<Rightarrow> nat option" where
  "chain_number value =
     (case value of
        Number n \<Rightarrow> map_option unat (as_u64 n)
      | String s \<Rightarrow>
          (case (case strip_prefix s ''0x'' of Some h \<Rightarrow> Some h | None \<Rightarrow> strip_prefix s ''0X'') of
             Some h \<Rightarrow> if h = [] \<or> \<not> list_all is_ascii_hexdigit h then None else from_str_radix 64 16 h
           | None \<Rightarrow> if s \<noteq> [] \<and> list_all is_ascii_digit s then from_str_radix 64 10 s else None)
      | _ \<Rightarrow> None)"

definition chain_param :: "json \<Rightarrow> u32 option" where
  "chain_param params =
     do {
       first \<leftarrow> first_of params;
       kvs \<leftarrow> as_object first;
       value \<leftarrow> map_of kvs ''chainId'';
       parsed \<leftarrow> chain_number value;
       (if parsed < 2 ^ 32 \<and> 0 < parsed then Some (of_nat parsed) else None)
     }"

definition requested_address :: "string \<Rightarrow> json \<Rightarrow> string option" where
  "requested_address method params =
     do {
       candidate \<leftarrow>
         (if method = ''eth_sendTransaction'' \<or> method = ''wallet_sendCalls''
          then do { first \<leftarrow> first_of params; from \<leftarrow> get first ''from''; as_str from }
          else if method = ''personal_sign''
          then do { second \<leftarrow> get_index params 1; as_str second }
          else do {
            typed \<leftarrow> method_of method;
            slot \<leftarrow> get_index params (account_index typed);
            as_str slot
          });
       (if is_address candidate then Some candidate else None)
     }"

definition hex_chain_id :: "u32 \<Rightarrow> string" where
  "hex_chain_id chain_id = ''0x'' @ show_hex (unat chain_id)"

section \<open>A page asks for a network\<close>

definition ASK_TEXT_CHARS :: nat where "ASK_TEXT_CHARS = 64"
definition ASK_RPC_URLS :: nat where "ASK_RPC_URLS = 4"

record dapp_chain_ask =
  da_chain_id :: u32
  da_chain_name :: "string option"
  da_native_symbol :: "string option"
  da_rpc_urls :: "string list"
  da_refused_rpc_urls :: u32
  da_explorer_url :: "string option"

definition drawable :: "string \<Rightarrow> bool" where
  "drawable ch \<longleftrightarrow> \<not> is_control ch \<and> \<not> (0x202A \<le> code_point ch \<and> code_point ch \<le> 0x202E)
     \<and> \<not> (0x2066 \<le> code_point ch \<and> code_point ch \<le> 0x2069)"

definition page_text :: "json option \<Rightarrow> string option" where
  "page_text value =
     (case Option.bind value as_str of
        None \<Rightarrow> None
      | Some raw \<Rightarrow>
          (let kept = concat (filter drawable (chars raw));
               cut = concat (take ASK_TEXT_CHARS (chars (trim kept)));
               out = trim_end cut
           in if out = [] then None else Some out))"

text \<open>A list of texts under a key, trimmed.\<close>

definition url_list :: "(string \<times> json) list \<Rightarrow> string \<Rightarrow> string + string list" where
  "url_list ask key =
     (let bad = ''rpcUrls and blockExplorerUrls must be lists of URLs''
      in case map_of ask key of
          None \<Rightarrow> Inr []
        | Some Null \<Rightarrow> Inr []
        | Some (Array items) \<Rightarrow> try_map (\<lambda>item. case as_str item of None \<Rightarrow> Inl bad | Some url \<Rightarrow> Inr (trim url)) items
        | Some _ \<Rightarrow> Inl bad)"

definition sat_inc :: "u32 \<Rightarrow> u32" where
  "sat_inc n = (if n = - 1 then n else n + 1)"

fun keep_urls :: "bool \<Rightarrow> string list \<Rightarrow> string list \<times> u32 \<Rightarrow> string list \<times> u32" where
  "keep_urls debug_mode [] (kept, refused) = (kept, refused)"
| "keep_urls debug_mode (url # urls) (kept, refused) =
     (if \<not> usable_rpc_url url debug_mode then keep_urls debug_mode urls (kept, sat_inc refused)
      else if url \<notin> set kept \<and> length kept < ASK_RPC_URLS then keep_urls debug_mode urls (kept @ [url], refused)
      else keep_urls debug_mode urls (kept, refused))"

text \<open>The coin of the asked network, its decimals, and the network as it is asked for.\<close>

definition asked_native :: "(string \<times> json) list \<Rightarrow> string + (string \<times> json) list option" where
  "asked_native ask =
     (case map_of ask ''nativeCurrency'' of
        None \<Rightarrow> Inr None
      | Some Null \<Rightarrow> Inr None
      | Some (Object native) \<Rightarrow> Inr (Some native)
      | Some _ \<Rightarrow> Inl ''nativeCurrency must be { name, symbol, decimals }'')"

definition other_decimals :: "(string \<times> json) list option \<Rightarrow> bool" where
  "other_decimals native \<longleftrightarrow>
     (case Option.bind native (\<lambda>n. map_of n ''decimals'') of
        None \<Rightarrow> False
      | Some decimals \<Rightarrow> decimals \<noteq> Null \<and> (case decimals of Number n \<Rightarrow> as_u64 n | _ \<Rightarrow> None) \<noteq> Some 18)"

definition ask_of ::
  "bool \<Rightarrow> u32 \<Rightarrow> (string \<times> json) list \<Rightarrow> (string \<times> json) list option \<Rightarrow> string list \<Rightarrow> string list \<Rightarrow> dapp_chain_ask" where
  "ask_of debug_mode chain_id ask native rpc_given explorers =
     (let (rpc_urls, refused) = keep_urls debug_mode rpc_given ([], 0)
      in \<lparr>da_chain_id = chain_id, da_chain_name = page_text (map_of ask ''chainName''),
          da_native_symbol = page_text (Option.bind native (\<lambda>n. map_of n ''symbol'')), da_rpc_urls = rpc_urls,
          da_refused_rpc_urls = refused,
          da_explorer_url = find (\<lambda>url. external_page_host url \<noteq> None \<and> length (chars url) \<le> ASK_URL_CHARS) explorers\<rparr>)"

definition add_chain_ask :: "json \<Rightarrow> bool \<Rightarrow> string + dapp_chain_ask" where
  "add_chain_ask params debug_mode =
     (let shape = ''Expected [{ chainId, chainName?, nativeCurrency?, rpcUrls? }]''
      in case chain_param params of
          None \<Rightarrow> Inl shape
        | Some chain_id \<Rightarrow>
        (case Option.bind (first_of params) as_object of
          None \<Rightarrow> Inl shape
        | Some ask \<Rightarrow>
          try_with (asked_native ask) (\<lambda>native.
          if other_decimals native then Inl ''Vela supports native currencies with 18 decimals only''
          else try_with (url_list ask ''rpcUrls'') (\<lambda>rpc_given.
               try_with (url_list ask ''blockExplorerUrls'') (\<lambda>explorers.
               Inr (ask_of debug_mode chain_id ask native rpc_given explorers))))))"

datatype dapp_add_outcome = Added u32 | Declined | NotCompatible | BadRpc | Busy

definition ADD_NOT_COMPATIBLE :: int where "ADD_NOT_COMPATIBLE = 4902"
definition ADD_BUSY :: int where "ADD_BUSY = -32002"

fun add_outcome_error :: "dapp_add_outcome \<Rightarrow> u32 \<Rightarrow> (int \<times> string) option" where
  "add_outcome_error (Added _) chain_id = None"
| "add_outcome_error Declined chain_id = Some (4001, ''User rejected the request'')"
| "add_outcome_error NotCompatible chain_id = Some (ADD_NOT_COMPATIBLE, ''Chain '' @ show_nat (unat chain_id)
     @ '' is not compatible with Vela Wallet: its Safe and ERC-4337 contracts are not all deployed'')"
| "add_outcome_error BadRpc chain_id =
     Some (-32602, ''No RPC in rpcUrls answers eth_chainId with '' @ show_nat (unat chain_id))"
| "add_outcome_error Busy chain_id = Some (ADD_BUSY, ''A request to add a network is already open'')"

section \<open>Batches\<close>

definition UNKNOWN_BUNDLE_ID :: int where "UNKNOWN_BUNDLE_ID = 5730"
definition CALLS_STATUS_VERSION :: string where "CALLS_STATUS_VERSION = ''2.0.0''"
definition CALLS_STATUS_OFFCHAIN_FAILURE :: u64 where "CALLS_STATUS_OFFCHAIN_FAILURE = 400"

definition batch_id_of :: "json \<Rightarrow> string option" where
  "batch_id_of answer =
     (case as_str answer of Some s \<Rightarrow> Some s | None \<Rightarrow> Option.bind (get answer ''id'') as_str)"

definition calls_status_id :: "json \<Rightarrow> string option" where
  "calls_status_id params =
     do {
       first \<leftarrow> first_of params;
       batch \<leftarrow> batch_id_of first;
       (if length batch = 66 \<and> starts_with batch ''0x'' \<and> list_all is_ascii_hexdigit (drop 2 batch)
        then Some (to_ascii_lowercase batch) else None)
     }"

definition send_calls_answers_object :: "json \<Rightarrow> bool" where
  "send_calls_answers_object params \<longleftrightarrow>
     (case do { first \<leftarrow> first_of params; v \<leftarrow> get first ''version''; as_str v } of
        None \<Rightarrow> False
      | Some version \<Rightarrow>
          (let major = hd (split_char (CHR ''.'') (trim version))
           in major \<noteq> [] \<and> list_all is_ascii_digit major
              \<and> (case from_str_radix 64 10 major of None \<Rightarrow> True | Some n \<Rightarrow> 2 \<le> n)))"

definition send_calls_result :: "string \<Rightarrow> bool \<Rightarrow> json" where
  "send_calls_result batch as_obj = (if as_obj then Object [(''id'', String batch)] else String batch)"

text \<open>The relay's own status of an operation (\<open>app/tx_tracker.rs\<close>).\<close>

datatype track_lifecycle = NotFound | Queued | NotSubmitted | Submitted | Rejected | Included | Failed

definition lifecycle_of :: "string \<Rightarrow> track_lifecycle option" where
  "lifecycle_of s =
     map_of [(''not_found'', NotFound), (''queued'', Queued), (''not_submitted'', NotSubmitted), (''submitted'', Submitted),
       (''rejected'', Rejected), (''included'', Included), (''failed'', Failed)] s"

record track_status_answer =
  ta_status :: track_lifecycle
  ta_stage :: "string option"
  ta_tx_hash :: "string option"
  ta_rejection_reason :: "string option"

definition text_at :: "json \<Rightarrow> string \<Rightarrow> string option" where
  "text_at j key = (case Option.bind (get j key) as_str of None \<Rightarrow> None | Some s \<Rightarrow> if s = [] then None else Some s)"

definition parse_user_op_status :: "(string \<Rightarrow> string + json) \<Rightarrow> string \<Rightarrow> track_status_answer option" where
  "parse_user_op_status parse result_json =
     (case parse result_json of
        Inl _ \<Rightarrow> None
      | Inr value \<Rightarrow>
          do {
            result \<leftarrow> (case get value ''status'' of Some _ \<Rightarrow> Some value | None \<Rightarrow> get value ''result'');
            status_value \<leftarrow> get result ''status'';
            status_text \<leftarrow> as_str status_value;
            status \<leftarrow> lifecycle_of status_text;
            Some \<lparr>ta_status = status, ta_stage = text_at result ''last_executor_stage'',
                  ta_tx_hash = text_at result ''transactionHash'', ta_rejection_reason = text_at result ''rejection_reason''\<rparr>
          })"

definition refused_before_any_block :: "track_status_answer \<Rightarrow> bool" where
  "refused_before_any_block answer \<longleftrightarrow> ta_status answer = Rejected \<and> ta_tx_hash answer = None"

definition calls_status_landed :: "json option \<Rightarrow> bool" where
  "calls_status_landed user_op_receipt \<longleftrightarrow>
     do { v \<leftarrow> user_op_receipt; r \<leftarrow> get v ''receipt''; h \<leftarrow> get r ''transactionHash''; as_str h } \<noteq> None"

definition as_array_json :: "json option \<Rightarrow> json option" where
  "as_array_json v = (case v of Some (Array items) \<Rightarrow> Some (Array items) | _ \<Rightarrow> None)"

definition or_null_at :: "json \<Rightarrow> string \<Rightarrow> json" where
  "or_null_at j key = unwrap_or (get j key) Null"

definition num :: "u64 \<Rightarrow> json" where
  "num n = Number (PosInt n)"

text \<open>The answer has the members of its literal; a status is written over the one it starts with.\<close>

definition status_body :: "string \<Rightarrow> u32 \<Rightarrow> u64 \<Rightarrow> (string \<times> json) list" where
  "status_body batch chain_id status =
     [(''version'', String CALLS_STATUS_VERSION), (''id'', String batch), (''chainId'', String (hex_chain_id chain_id)),
      (''status'', num status), (''atomic'', Bool True)]"

definition calls_status ::
  "(string \<Rightarrow> string + json) \<Rightarrow> (json \<Rightarrow> string) \<Rightarrow> string \<Rightarrow> u32 \<Rightarrow> json option \<Rightarrow> json option \<Rightarrow> json" where
  "calls_status parse print batch chain_id user_op_receipt relay_status =
     (let found = (case user_op_receipt of Some (Object kvs) \<Rightarrow> Some (Object kvs) | _ \<Rightarrow> None);
          receipt = Option.bind (Option.bind found (\<lambda>v. get v ''receipt''))
            (\<lambda>r. if Option.bind (get r ''transactionHash'') as_str = None then None else Some r)
      in case (found, receipt) of
          (Some found, Some receipt) \<Rightarrow>
            let succeeded = (Option.bind (get found ''success'') as_bool \<noteq> Some False);
                logs = (case as_array_json (get found ''logs'') of Some l \<Rightarrow> l
                  | None \<Rightarrow> unwrap_or (as_array_json (get receipt ''logs'')) (Array []))
            in Object (status_body batch chain_id (if succeeded then 200 else 500)
              @ [(''receipts'', Array [Object
                  [(''logs'', logs), (''status'', String (if succeeded then ''0x1'' else ''0x0'')),
                   (''blockHash'', or_null_at receipt ''blockHash''), (''blockNumber'', or_null_at receipt ''blockNumber''),
                   (''gasUsed'', or_null_at receipt ''gasUsed''), (''transactionHash'', or_null_at receipt ''transactionHash'')]])])
        | _ \<Rightarrow>
            let refused = (case Option.bind relay_status (\<lambda>a. parse_user_op_status parse (print a)) of
                  None \<Rightarrow> False | Some answer \<Rightarrow> refused_before_any_block answer)
            in Object (status_body batch chain_id (if refused then CALLS_STATUS_OFFCHAIN_FAILURE else 100)))"

definition capabilities :: "json \<Rightarrow> string list \<Rightarrow> u32 list \<Rightarrow> (int \<times> string) + json" where
  "capabilities params granted chain_ids =
     (case Option.bind (first_of params) as_str of
        None \<Rightarrow> Inl (-32602, ''Expected [address, chainIds?]'')
      | Some address \<Rightarrow>
          if \<not> is_address address then Inl (-32602, ''Expected [address, chainIds?]'')
          else if \<not> list_ex (\<lambda>g. eq_ignore_ascii_case g address) granted
          then Inl (4100, ''The address is not connected to this site'')
          else (let asked = map_option (List.map_filter (\<lambda>v. chain_param (Array [Object [(''chainId'', v)]])))
                    (Option.bind (get_index params 1) as_array);
                    shown = filter (\<lambda>chain. case asked of None \<Rightarrow> True | Some ids \<Rightarrow> chain \<in> set ids) chain_ids
                in Inr (Object (List.map (\<lambda>chain. (hex_chain_id chain, Object [(''atomic'', Object [(''status'', String ''supported'')])]))
                     (remdups shown)))))"

section \<open>The envelope of the bridge\<close>

definition MAX_REQUEST_BYTES :: nat where "MAX_REQUEST_BYTES = 524288"
definition MAX_ID_CHARS :: nat where "MAX_ID_CHARS = 128"
definition MAX_METHOD_CHARS :: nat where "MAX_METHOD_CHARS = 100"

record page_request =
  pr_doc :: string
  pr_id :: string
  pr_method :: string
  pr_params :: json

datatype page_message =
    Hello string "string option"
  | Request page_request
  | Invalid "string option" "string option" int string
  | Ignored

definition text_within :: "nat \<Rightarrow> (string \<Rightarrow> nat) \<Rightarrow> json option \<Rightarrow> string option" where
  "text_within limit len v =
     (case Option.bind v as_str of None \<Rightarrow> None | Some s \<Rightarrow> if s \<noteq> [] \<and> len s \<le> limit then Some s else None)"

definition page_params :: "string \<Rightarrow> json option \<Rightarrow> json option" where
  "page_params meth v =
     (case v of
        None \<Rightarrow> Some (Array [])
      | Some Null \<Rightarrow> Some (Array [])
      | Some (Array items) \<Rightarrow> Some (Array items)
      | Some (Object kvs) \<Rightarrow> if meth = ''wallet_watchAsset'' then Some (Object kvs) else None
      | Some _ \<Rightarrow> None)"

definition parse_page_message :: "(string \<Rightarrow> string + json) \<Rightarrow> (json \<Rightarrow> string) \<Rightarrow> string \<Rightarrow> page_message" where
  "parse_page_message parse print message_json =
     (if MAX_REQUEST_BYTES + 65536 < length message_json then Invalid None None (-32602) ''Request too large''
      else case parse message_json of
          Inr (Object kvs) \<Rightarrow>
            (let doc = text_within MAX_ID_CHARS length (map_of kvs ''doc'');
                 tag = Option.bind (map_of kvs ''t'') as_str
             in if tag = Some ''hello''
                then (case doc of
                    None \<Rightarrow> Ignored
                  | Some d \<Rightarrow> Hello d (case Option.bind (map_of kvs ''href'') as_str of
                        None \<Rightarrow> None | Some href \<Rightarrow> if length href \<le> 8192 then Some href else None))
                else if tag = Some ''req''
                then (let request_id = text_within MAX_ID_CHARS (\<lambda>s. length (chars s)) (map_of kvs ''id'');
                          invalid = Invalid doc request_id
                      in case (doc, request_id) of
                          (Some d, Some i) \<Rightarrow>
                            (case text_within MAX_METHOD_CHARS (\<lambda>s. length (chars s)) (map_of kvs ''method'') of
                               None \<Rightarrow> invalid (-32600) ''Invalid request''
                             | Some meth \<Rightarrow>
                                 if Option.bind (map_of kvs ''bad'') as_bool = Some True then invalid (-32602) ''Invalid params''
                                 else (case page_params meth (map_of kvs ''params'') of
                                     None \<Rightarrow> invalid (-32602) ''Expected params to be an array''
                                   | Some params \<Rightarrow>
                                       if MAX_REQUEST_BYTES < length (print params) then invalid (-32602) ''Request too large''
                                       else Request \<lparr>pr_doc = d, pr_id = i, pr_method = meth, pr_params = params\<rparr>))
                        | _ \<Rightarrow> invalid (-32600) ''Invalid request'')
                else Ignored)
        | _ \<Rightarrow> Ignored)"

section \<open>Answers\<close>

definition int_json :: "int \<Rightarrow> json" where
  "int_json n = Number (if 0 \<le> n then PosInt (of_int n) else NegInt (of_int n))"

definition as_i64 :: "json \<Rightarrow> int option" where
  "as_i64 j =
     (case j of
        Number (PosInt n) \<Rightarrow> if unat n < 2 ^ 63 then Some (uint n) else None
      | Number (NegInt n) \<Rightarrow> Some (sint n)
      | _ \<Rightarrow> None)"

definition answer_json :: "string \<Rightarrow> string \<Rightarrow> string \<Rightarrow> json \<Rightarrow> json" where
  "answer_json doc request_id key body =
     Object [(''doc'', String doc), (''dir'', String ''res''), (''id'', String request_id), (key, body)]"

definition result_json :: "(json \<Rightarrow> string) \<Rightarrow> string \<Rightarrow> string \<Rightarrow> json \<Rightarrow> string" where
  "result_json print doc request_id result = print (answer_json doc request_id ''result'' result)"

definition error_json :: "(json \<Rightarrow> string) \<Rightarrow> string \<Rightarrow> string \<Rightarrow> int \<Rightarrow> string \<Rightarrow> string" where
  "error_json print doc request_id err_code msg =
     print (answer_json doc request_id ''error'' (Object [(''code'', int_json err_code), (''message'', String msg)]))"

definition error_body_json :: "(json \<Rightarrow> string) \<Rightarrow> string \<Rightarrow> string \<Rightarrow> json \<Rightarrow> string" where
  "error_body_json print doc request_id err =
     (let err_code = unwrap_or (Option.bind (get err ''code'') as_i64) (-32603);
          msg = unwrap_or (text_at err ''message'') ''The node refused this call'';
          data = (case get err ''data'' of None \<Rightarrow> [] | Some d \<Rightarrow> [(''data'', d)])
      in print (answer_json doc request_id ''error'' (Object ([(''code'', int_json err_code), (''message'', String msg)] @ data))))"

definition event_json :: "(json \<Rightarrow> string) \<Rightarrow> string \<Rightarrow> string \<Rightarrow> json option \<Rightarrow> string" where
  "event_json print doc event data =
     print (Object ([(''doc'', String doc), (''dir'', String ''evt''), (''event'', String event)]
       @ (case data of None \<Rightarrow> [] | Some d \<Rightarrow> [(''data'', d)])))"

datatype sign_error_kind =
    UserRejected | WalletSwitchedChains | UnsupportedChain | UnauthorizedAccount | InvalidParams | UnsupportedCapability
  | UnlimitedApproval | SelfCallBlocked | FundingCancelled | SubmitFailed | StaleFeeQuote | SignerUnavailable
  | SignerNotDiscoverable | SignerFailed | VenueBlocked

fun sign_error_message :: "sign_error_kind \<Rightarrow> string" where
  "sign_error_message UserRejected = ''User rejected the request''"
| "sign_error_message WalletSwitchedChains = ''Cancelled: the wallet switched chains''"
| "sign_error_message UnsupportedChain = ''Unsupported chain''"
| "sign_error_message UnauthorizedAccount = ''Unauthorized account''"
| "sign_error_message InvalidParams = ''Invalid params''"
| "sign_error_message UnsupportedCapability = ''Unsupported capability''"
| "sign_error_message UnlimitedApproval = ''The wallet refused an unlimited approval its approval screen did not show''"
| "sign_error_message SelfCallBlocked = ''The wallet refused a call that would change who controls the account''"
| "sign_error_message FundingCancelled = ''Gas account funding cancelled''"
| "sign_error_message SubmitFailed = ''The transaction could not be submitted''"
| "sign_error_message StaleFeeQuote = ''The fee quote expired''"
| "sign_error_message SignerUnavailable = ''No passkey can be used on this device''"
| "sign_error_message SignerNotDiscoverable = ''The passkey is not available for signing''"
| "sign_error_message SignerFailed = ''The passkey prompt failed''"
| "sign_error_message VenueBlocked = ''This account cannot sign here''"

text \<open>\<open>rename_all = "snake_case"\<close>.\<close>

fun sign_error_kind_name :: "sign_error_kind \<Rightarrow> string" where
  "sign_error_kind_name UserRejected = ''user_rejected''"
| "sign_error_kind_name WalletSwitchedChains = ''wallet_switched_chains''"
| "sign_error_kind_name UnsupportedChain = ''unsupported_chain''"
| "sign_error_kind_name UnauthorizedAccount = ''unauthorized_account''"
| "sign_error_kind_name InvalidParams = ''invalid_params''"
| "sign_error_kind_name UnsupportedCapability = ''unsupported_capability''"
| "sign_error_kind_name UnlimitedApproval = ''unlimited_approval''"
| "sign_error_kind_name SelfCallBlocked = ''self_call_blocked''"
| "sign_error_kind_name FundingCancelled = ''funding_cancelled''"
| "sign_error_kind_name SubmitFailed = ''submit_failed''"
| "sign_error_kind_name StaleFeeQuote = ''stale_fee_quote''"
| "sign_error_kind_name SignerUnavailable = ''signer_unavailable''"
| "sign_error_kind_name SignerNotDiscoverable = ''signer_not_discoverable''"
| "sign_error_kind_name SignerFailed = ''signer_failed''"
| "sign_error_kind_name VenueBlocked = ''venue_blocked''"

definition sign_error_words :: "sign_error_kind \<Rightarrow> string option \<Rightarrow> string" where
  "sign_error_words kind detail =
     (case map_option trim detail of
        None \<Rightarrow> sign_error_message kind
      | Some d \<Rightarrow>
          if d = [] then sign_error_message kind
          else if kind = SubmitFailed then d
          else sign_error_message kind @ '' ('' @ d @ '')'')"

definition sign_error_json :: "(json \<Rightarrow> string) \<Rightarrow> string \<Rightarrow> string \<Rightarrow> int \<Rightarrow> sign_error_kind \<Rightarrow> string option \<Rightarrow> string" where
  "sign_error_json print doc request_id err_code kind detail =
     print (answer_json doc request_id ''error'' (Object
       [(''code'', int_json err_code), (''kind'', String (sign_error_kind_name kind)), (''message'', String (sign_error_words kind detail))]))"

section \<open>What is answered by whom\<close>

lemma listed_methods_do_not_sign:
  "list_all (\<lambda>m. \<not> rpc_is_signing_method m \<and> m \<noteq> ''eth_sign'') (READ_ONLY_RPC_METHODS @ BUNDLER_METHODS @ EXTRA_READ_METHODS)"
  by code_simp

lemma listed_methods_unnamed:
  "list_all (\<lambda>m. classify m = Read (m \<in> set BUNDLER_METHODS)) (READ_ONLY_RPC_METHODS @ BUNDLER_METHODS @ EXTRA_READ_METHODS)"
  by code_simp



text \<open>The account a typed-data request names is the same to the gate that asks and to the reader that signs.\<close>

lemma requested_account:
  assumes "canonical_typed E m params = Inr c"
  shows "requested_address m params = Some (ct_account c)"
proof -
  obtain meth vs account where s: "method_of m = Some meth" "as_array params = Some vs" "length vs = 2"
      "as_str (vs ! account_index meth) = Some account" "is_address account"
    using assms by (auto simp: canonical_typed_def split: option.splits if_splits)
  have "account = ct_account c"
    using assms s by (auto simp: canonical_typed_def try_with_Inr split: option.splits if_splits)
  moreover have "params = Array vs" using s(2) by (cases params) auto
  moreover have "account_index meth < 2" by (cases meth) (simp_all add: account_index_def)
  moreover have "m \<notin> {''eth_sendTransaction'', ''wallet_sendCalls'', ''personal_sign''}"
    using s(1) by (auto simp: method_of_def split: if_splits)
  ultimately show ?thesis using s by (simp add: requested_address_def)
qed

section \<open>A request arrives as it was sent\<close>

text \<open>What the bridge posts for a request.\<close>

definition bridge_json :: "page_request \<Rightarrow> json" where
  "bridge_json r = Object [(''t'', String ''req''), (''doc'', String (pr_doc r)), (''id'', String (pr_id r)),
     (''method'', String (pr_method r)), (''params'', pr_params r)]"

definition sendable :: "(json \<Rightarrow> string) \<Rightarrow> page_request \<Rightarrow> bool" where
  "sendable print r \<longleftrightarrow>
     pr_doc r \<noteq> [] \<and> length (pr_doc r) \<le> MAX_ID_CHARS \<and> pr_id r \<noteq> [] \<and> length (chars (pr_id r)) \<le> MAX_ID_CHARS
     \<and> pr_method r \<noteq> [] \<and> length (chars (pr_method r)) \<le> MAX_METHOD_CHARS
     \<and> (case pr_params r of Array _ \<Rightarrow> True | Object _ \<Rightarrow> pr_method r = ''wallet_watchAsset'' | _ \<Rightarrow> False)
     \<and> length (print (pr_params r)) \<le> MAX_REQUEST_BYTES"

lemma text_within_Some: "text_within limit len v = Some s \<longleftrightarrow> v = Some (String s) \<and> s \<noteq> [] \<and> len s \<le> limit"
  by (cases "Option.bind v as_str"; cases v) (auto simp: text_within_def elim: as_str.elims)

lemma parse_page_message_req:
  assumes "sendable print r" and "parse msg = Inr (bridge_json r)" and "length msg \<le> MAX_REQUEST_BYTES + 65536"
  shows "parse_page_message parse print msg = Request r"
proof -
  note s = assms(1) [unfolded sendable_def]
  let ?kvs = "[(''t'', String ''req''), (''doc'', String (pr_doc r)), (''id'', String (pr_id r)),
     (''method'', String (pr_method r)), (''params'', pr_params r)]"
  have 1: "text_within MAX_ID_CHARS length (map_of ?kvs ''doc'') = Some (pr_doc r)"
    "text_within MAX_ID_CHARS (\<lambda>s. length (chars s)) (map_of ?kvs ''id'') = Some (pr_id r)"
    "text_within MAX_METHOD_CHARS (\<lambda>s. length (chars s)) (map_of ?kvs ''method'') = Some (pr_method r)"
    unfolding text_within_Some using s by simp_all
  have 2: "page_params (pr_method r) (map_of ?kvs ''params'') = Some (pr_params r)"
    using s by (cases "pr_params r") (simp_all add: page_params_def)
  have 3: "map_of ?kvs ''t'' = Some (String ''req'')" "map_of ?kvs ''bad'' = None" by simp_all
  have 4: "\<not> MAX_REQUEST_BYTES + 65536 < length msg" "\<not> MAX_REQUEST_BYTES < length (print (pr_params r))"
    using assms(3) s by simp_all
  show ?thesis
    unfolding parse_page_message_def if_not_P [OF 4(1)] assms(2) bridge_json_def sum.case json.case Let_def 1 2 3 option.case
      Option.bind.simps prod.case if_not_P [OF 4(2)] as_str.simps by simp
qed

lemma parse_page_message_sendable:
  assumes "parse_page_message parse print msg = Request r"
  shows "sendable print r"
proof -
  obtain kvs where k: "parse msg = Inr (Object kvs)"
    using assms by (auto simp: parse_page_message_def split: if_splits sum.splits json.splits)
  obtain d i meth params where s: "text_within MAX_ID_CHARS length (map_of kvs ''doc'') = Some d"
      "text_within MAX_ID_CHARS (\<lambda>s. length (chars s)) (map_of kvs ''id'') = Some i"
      "text_within MAX_METHOD_CHARS (\<lambda>s. length (chars s)) (map_of kvs ''method'') = Some meth"
      "page_params meth (map_of kvs ''params'') = Some params" "\<not> MAX_REQUEST_BYTES < length (print params)"
      "r = \<lparr>pr_doc = d, pr_id = i, pr_method = meth, pr_params = params\<rparr>"
    using assms by (auto simp: parse_page_message_def k Let_def split: if_splits option.splits)
  have "case params of Array _ \<Rightarrow> True | Object _ \<Rightarrow> meth = ''wallet_watchAsset'' | _ \<Rightarrow> False"
    using s(4) by (auto simp: page_params_def split: option.splits json.splits if_splits)
  then show ?thesis using s unfolding text_within_Some by (cases params) (simp_all add: sendable_def)
qed

text \<open>
  C14: a message is taken for a request exactly when it is one: a well-formed request posted by the bridge is
  read as itself, and whatever is read as a request is well formed, within its bounds, and answered with
  the document and the id it named.
\<close>

theorem page_requests_exact:
  assumes "length msg \<le> MAX_REQUEST_BYTES + 65536" and "parse msg = Inr (bridge_json r)"
  shows "parse_page_message parse print msg = Request r \<longleftrightarrow> sendable print r"
  using parse_page_message_req [of print r parse msg] parse_page_message_sendable [of parse print msg r] assms by blast

theorem page_requests_exact_witness:
  "parse_page_message (\<lambda>_. Inr (bridge_json \<lparr>pr_doc = ''d'', pr_id = ''1'', pr_method = ''eth_accounts'', pr_params = Array []\<rparr>))
     (\<lambda>_. ''[]'') ''x'' = Request \<lparr>pr_doc = ''d'', pr_id = ''1'', pr_method = ''eth_accounts'', pr_params = Array []\<rparr>"
proof -
  have "sendable (\<lambda>_. ''[]'') \<lparr>pr_doc = ''d'', pr_id = ''1'', pr_method = ''eth_accounts'', pr_params = Array []\<rparr>"
    by (simp add: sendable_def chars_ascii is_ascii_def MAX_ID_CHARS_def MAX_METHOD_CHARS_def MAX_REQUEST_BYTES_def)
  then show ?thesis by (subst page_requests_exact) (simp_all add: MAX_REQUEST_BYTES_def)
qed

section \<open>What a page can make the wallet ask\<close>

lemma keep_urls_bounds:
  "keep_urls dbg urls (kept, refused) = (kept', refused') \<Longrightarrow> length kept \<le> ASK_RPC_URLS \<Longrightarrow> distinct kept
    \<Longrightarrow> \<forall>url \<in> set kept. usable_rpc_url url dbg
    \<Longrightarrow> length kept' \<le> ASK_RPC_URLS \<and> distinct kept' \<and> (\<forall>url \<in> set kept'. usable_rpc_url url dbg) \<and> set kept' \<subseteq> set kept \<union> set urls"
proof (induction urls arbitrary: kept refused)
  case (Cons url urls)
  consider (bad) "\<not> usable_rpc_url url dbg" | (new) "usable_rpc_url url dbg" "url \<notin> set kept \<and> length kept < ASK_RPC_URLS"
    | (old) "usable_rpc_url url dbg" "\<not> (url \<notin> set kept \<and> length kept < ASK_RPC_URLS)" by blast
  then show ?case
  proof cases
    case bad
    then show ?thesis using Cons.IH [of kept "sat_inc refused"] Cons.prems by auto
  next
    case new
    then have "keep_urls dbg urls (kept @ [url], refused) = (kept', refused')" using Cons.prems(1) by simp
    from Cons.IH [OF this] new Cons.prems show ?thesis by auto
  next
    case old
    then show ?thesis using Cons.IH [of kept refused] Cons.prems by auto
  qed
qed auto

lemma utf8_step_le: "snd (utf8_step s) \<le> 4"
  by (simp add: utf8_step_def Let_def)

lemma chars_short: "ch \<in> set (chars s) \<Longrightarrow> length ch \<le> 4"
proof (induction s rule: chars.induct)
  case (1 s)
  then show ?case
    using utf8_step_le [of s] by (cases "s = []") (auto simp: chars.simps [of s] Let_def)
qed

lemma trim_with_le: "length (trim_with ws s) \<le> length s"
proof (induction ws s rule: trim_with.induct)
  case (1 ws s)
  then show ?case using strip_any_shorter [of ws s] by (fastforce simp: trim_with.simps [of ws s] split: option.split)
qed

lemma page_text_bound:
  assumes "page_text v = Some t"
  shows "t \<noteq> [] \<and> length t \<le> 4 * ASK_TEXT_CHARS"
proof -
  obtain raw where t: "t = trim_end (concat (take ASK_TEXT_CHARS (chars (trim (concat (filter drawable (chars raw)))))))" "t \<noteq> []"
    using assms by (auto simp: page_text_def Let_def split: option.splits if_splits)
  have cl: "length (concat xs) \<le> 4 * length xs" if "\<And>x. x \<in> set xs \<Longrightarrow> length x \<le> 4" for xs :: "string list"
    using that by (induction xs) (auto simp: add_mono)
  let ?cs = "take ASK_TEXT_CHARS (chars (trim (concat (filter drawable (chars raw)))))"
  have "length (concat ?cs) \<le> 4 * length ?cs" by (rule cl) (auto dest: in_set_takeD chars_short)
  moreover have "length ?cs \<le> ASK_TEXT_CHARS" by simp
  moreover have "length t \<le> length (concat ?cs)" unfolding t(1) trim_end_def using trim_with_le [of _ "rev (concat ?cs)"] by simp
  ultimately show ?thesis using t(2) by simp
qed



end
