(* ===== verification/DappPermissions.thy ===== *)
theory DappPermissions
  imports DappRpc Primitives
begin

text \<open>
  The machine of \<open>app/dapp_permissions.rs\<close>: what a site was granted, the request window's verdict on a
  request, what Connect writes, and what a switch of account does to a grant. The checksummed spelling of
  an address and the JSON parser are parameters. The shell keeps the store; \<open>dperm_step\<close> puts the machine and
  the store together, one event of the window at a time.
\<close>

section \<open>Methods, reasons, grants\<close>

definition CONNECT_METHODS :: "string list" where
  "CONNECT_METHODS = [''eth_requestAccounts'', ''wallet_requestPermissions'']"

definition SIGNING_METHODS :: "string list" where
  "SIGNING_METHODS = [''eth_sendTransaction'', ''personal_sign'', ''eth_sign'', ''eth_signTypedData'', ''eth_signTypedData_v1'',
     ''eth_signTypedData_v3'', ''eth_signTypedData_v4'', ''wallet_sendCalls'']"

definition is_connect_method :: "string \<Rightarrow> bool" where
  "is_connect_method m \<longleftrightarrow> m \<in> set CONNECT_METHODS"

definition is_signing_method :: "string \<Rightarrow> bool" where
  "is_signing_method m \<longleftrightarrow> m \<in> set SIGNING_METHODS \<or> rpc_is_signing_method m"

definition CODE_UNAUTHORIZED :: u32 where "CODE_UNAUTHORIZED = 4100"
definition CODE_UNKNOWN_PENDING :: u32 where "CODE_UNKNOWN_PENDING = 4900"

datatype dperm_reject_reason = NotConnected | StaleAuthorizedAddress | BrowserClosed | InsecureOrigin

fun reason_code :: "dperm_reject_reason \<Rightarrow> u32" where
  "reason_code NotConnected = CODE_UNAUTHORIZED"
| "reason_code StaleAuthorizedAddress = CODE_UNAUTHORIZED"
| "reason_code InsecureOrigin = CODE_UNAUTHORIZED"
| "reason_code BrowserClosed = CODE_UNKNOWN_PENDING"

text \<open>A time is the bits of the double the shell stamps; no decision reads it.\<close>

record dperm_grant =
  gr_origin :: string
  gr_address :: string
  gr_chain_id :: u32
  gr_granted_at_ms :: u64

datatype dperm_payload = RespondAccounts "string list" | RespondPermissions bool

datatype dperm_outcome =
    Respond dperm_payload
  | Consent
  | Reject u32 dperm_reject_reason
  | ForwardToSigning string

datatype dperm_decision = DecideRespond dperm_payload | DecideConsent | DecideReject dperm_reject_reason | DecideForward

record dperm_popup_view =
  pv_outcome :: dperm_outcome
  pv_granted :: "string list"
  pv_consent_address :: "string option"

datatype dperm_operation =
    WriteGrant dperm_grant
  | RemoveGrant string
  | RespondTo string dperm_payload
  | SaveConnectionRecord string u32 string

section \<open>Pure policy\<close>

definition dapp_spelling :: "(bytes \<Rightarrow> string) \<Rightarrow> string \<Rightarrow> string" where
  "dapp_spelling to_checksum address =
     (case checksum_address to_checksum address of Inl _ \<Rightarrow> address | Inr spelled \<Rightarrow> spelled)"

definition holds_address :: "string list \<Rightarrow> string \<Rightarrow> bool" where
  "holds_address addresses address \<longleftrightarrow> list_ex (\<lambda>a. eq_ignore_ascii_case a address) addresses"

definition resolve_granted :: "dperm_grant option \<Rightarrow> string list option \<Rightarrow> string list" where
  "resolve_granted grant current_addresses =
     (case grant of
        None \<Rightarrow> []
      | Some g \<Rightarrow>
          (case current_addresses of
             None \<Rightarrow> [gr_address g]
           | Some addresses \<Rightarrow>
               if addresses = [] then [gr_address g]
               else if holds_address addresses (gr_address g) then [gr_address g] else []))"

definition granted_to_signed_in :: "dperm_grant option \<Rightarrow> string option \<Rightarrow> string list" where
  "granted_to_signed_in grant signed_in =
     (case (grant, signed_in) of
        (Some g, Some active) \<Rightarrow>
          if active \<noteq> [] \<and> eq_ignore_ascii_case (gr_address g) active then [gr_address g] else []
      | _ \<Rightarrow> [])"

definition should_drop_grant :: "dperm_grant option \<Rightarrow> string list option \<Rightarrow> bool" where
  "should_drop_grant grant current_addresses =
     (case grant of
        None \<Rightarrow> False
      | Some g \<Rightarrow>
          (case current_addresses of
             None \<Rightarrow> False
           | Some addresses \<Rightarrow> addresses \<noteq> [] \<and> \<not> holds_address addresses (gr_address g)))"

definition space_keeps_grant :: "dperm_grant \<Rightarrow> string list option \<Rightarrow> bool" where
  "space_keeps_grant g space_addresses \<longleftrightarrow> \<not> holds_address (unwrap_or space_addresses []) (gr_address g)"

definition settle_on_close :: "u32 \<times> dperm_reject_reason" where
  "settle_on_close = (CODE_UNKNOWN_PENDING, BrowserClosed)"

definition connect_payload :: "string \<Rightarrow> string list \<Rightarrow> dperm_payload" where
  "connect_payload m granted =
     (if m = ''wallet_requestPermissions'' then RespondPermissions True else RespondAccounts granted)"

definition decide_popup_request :: "string \<Rightarrow> string list \<Rightarrow> string option \<Rightarrow> dperm_decision" where
  "decide_popup_request m granted pinned_address =
     (if is_connect_method m
      then (if granted = [] then DecideConsent else DecideRespond (connect_payload m granted))
      else case granted of
          [] \<Rightarrow> DecideReject NotConnected
        | first # _ \<Rightarrow>
            (case pinned_address of
               None \<Rightarrow> DecideForward
             | Some pinned \<Rightarrow>
                 if eq_ignore_ascii_case pinned first then DecideForward else DecideReject StaleAuthorizedAddress))"

definition popup_origin_refusal :: "string \<Rightarrow> string option \<Rightarrow> dperm_reject_reason option" where
  "popup_origin_refusal m origin =
     (case origin of
        None \<Rightarrow> None
      | Some org \<Rightarrow> if is_signing_method m \<and> is_insecure_public_origin org then Some InsecureOrigin else None)"

definition popup_outcome :: "string \<Rightarrow> string list \<Rightarrow> string option \<Rightarrow> dperm_outcome" where
  "popup_outcome m granted pinned =
     (case decide_popup_request m granted pinned of
        DecideRespond payload \<Rightarrow> Respond payload
      | DecideConsent \<Rightarrow> Consent
      | DecideReject reason \<Rightarrow> Reject (reason_code reason) reason
      | DecideForward \<Rightarrow>
          (case granted of
             address # _ \<Rightarrow> ForwardToSigning address
           | [] \<Rightarrow> Reject (reason_code NotConnected) NotConnected))"

record popup_facts =
  pf_pinned_address :: "string option"
  pf_origin :: "string option"
  pf_params_json :: "string option"

definition facts_pinned :: "(string \<Rightarrow> string + json) \<Rightarrow> popup_facts \<Rightarrow> string \<Rightarrow> string option" where
  "facts_pinned parse facts m =
     (case pf_params_json facts of
        Some raw \<Rightarrow> (case parse raw of Inl _ \<Rightarrow> None | Inr params \<Rightarrow> requested_address m params)
      | None \<Rightarrow> pf_pinned_address facts)"

section \<open>The machine\<close>

datatype dperm_event =
    PopupRequest string "dperm_grant option" "string option" popup_facts
  | PopupApproved string string string string u32 u64
  | PopupAccountSwitch string "dperm_grant option" "string list option" string u64 bool
  | ShellCompleted

text \<open>The model is the last verdict; a command is the operations issued and whether the view is drawn.\<close>

type_synonym dperm_model = "dperm_popup_view option"

record dperm_command =
  dc_ops :: "dperm_operation list"
  dc_render :: bool

definition command_done :: dperm_command where
  "command_done = \<lparr>dc_ops = [], dc_render = False\<rparr>"

definition finish :: "dperm_operation list \<Rightarrow> dperm_command" where
  "finish ops = \<lparr>dc_ops = ops, dc_render = True\<rparr>"

definition popup_request ::
  "(bytes \<Rightarrow> string) \<Rightarrow> (string \<Rightarrow> string + json) \<Rightarrow> string \<Rightarrow> dperm_grant option \<Rightarrow> string option \<Rightarrow> popup_facts
   \<Rightarrow> dperm_popup_view" where
  "popup_request to_checksum parse m grant signed_in facts =
     (let granted = List.map (dapp_spelling to_checksum) (granted_to_signed_in grant signed_in);
          outcome = (case popup_origin_refusal m (pf_origin facts) of
              Some reason \<Rightarrow> Reject (reason_code reason) reason
            | None \<Rightarrow> popup_outcome m granted (facts_pinned parse facts m));
          consent_address = (if outcome = Consent
            then (case signed_in of
                None \<Rightarrow> None
              | Some address \<Rightarrow> if address = [] then None else Some (dapp_spelling to_checksum address))
            else None)
      in \<lparr>pv_outcome = outcome, pv_granted = granted, pv_consent_address = consent_address\<rparr>)"

definition popup_approved ::
  "(bytes \<Rightarrow> string) \<Rightarrow> string \<Rightarrow> string \<Rightarrow> string \<Rightarrow> string \<Rightarrow> u32 \<Rightarrow> u64 \<Rightarrow> dperm_command" where
  "popup_approved to_checksum origin request_id m address0 chain_id now_ms =
     (if origin = [] \<or> address0 = [] then command_done
      else let address = dapp_spelling to_checksum address0;
               grant = \<lparr>gr_origin = origin, gr_address = address, gr_chain_id = chain_id, gr_granted_at_ms = now_ms\<rparr>;
               payload = (if m = ''wallet_requestPermissions'' then RespondPermissions True else RespondAccounts [address])
           in finish [WriteGrant grant, SaveConnectionRecord address chain_id origin, RespondTo request_id payload])"

definition popup_account_switch ::
  "(bytes \<Rightarrow> string) \<Rightarrow> string \<Rightarrow> dperm_grant option \<Rightarrow> string list option \<Rightarrow> string \<Rightarrow> u64 \<Rightarrow> bool \<Rightarrow> dperm_command" where
  "popup_account_switch to_checksum origin grant current_addresses active_address now_ms space =
     (case grant of
        None \<Rightarrow> command_done
      | Some g \<Rightarrow>
          if origin = [] \<or> active_address = [] then command_done
          else if space \<and> space_keeps_grant g current_addresses then command_done
          else if should_drop_grant (Some g) current_addresses then finish [RemoveGrant origin]
          else if eq_ignore_ascii_case (gr_address g) active_address then command_done
          else finish [WriteGrant \<lparr>gr_origin = origin, gr_address = dapp_spelling to_checksum active_address,
                  gr_chain_id = gr_chain_id g, gr_granted_at_ms = now_ms\<rparr>])"

fun dperm_update ::
  "(bytes \<Rightarrow> string) \<Rightarrow> (string \<Rightarrow> string + json) \<Rightarrow> dperm_event \<Rightarrow> dperm_model \<Rightarrow> dperm_command \<times> dperm_model" where
  "dperm_update cs parse (PopupRequest m grant signed_in facts) model =
     (finish [], Some (popup_request cs parse m grant signed_in facts))"
| "dperm_update cs parse (PopupApproved origin request_id m address chain_id now_ms) model =
     (popup_approved cs origin request_id m address chain_id now_ms, model)"
| "dperm_update cs parse (PopupAccountSwitch origin grant current active now_ms space) model =
     (popup_account_switch cs origin grant current active now_ms space, model)"
| "dperm_update cs parse ShellCompleted model = (command_done, model)"

section \<open>The machine and the store of the shell\<close>

text \<open>
  The shell performs the operations in order and swallows the errors of its storage: a write or a removal
  may be lost. The window hands the stored grant of the asking origin back with every question, and the
  origin is the browser's fact.
\<close>

type_synonym grant_store = "string \<rightharpoonup> dperm_grant"

inductive performed :: "dperm_operation list \<Rightarrow> grant_store \<Rightarrow> grant_store \<Rightarrow> bool" where
  performed_none: "performed [] st st"
| performed_write: "performed ops (st(gr_origin g \<mapsto> g)) st' \<Longrightarrow> performed (WriteGrant g # ops) st st'"
| performed_remove: "performed ops (st(origin := None)) st' \<Longrightarrow> performed (RemoveGrant origin # ops) st st'"
| performed_respond: "performed ops st st' \<Longrightarrow> performed (RespondTo rid p # ops) st st'"
| performed_record: "performed ops st st' \<Longrightarrow> performed (SaveConnectionRecord a ch origin # ops) st st'"
| performed_lost: "performed ops st st' \<Longrightarrow> performed (op # ops) st st'"

inductive_cases performed_NilE [elim!]: "performed [] st st'"
inductive_cases performed_WriteE: "performed (WriteGrant g # ops) st st'"
inductive_cases performed_RemoveE: "performed (RemoveGrant origin # ops) st st'"
inductive_cases performed_RespondE: "performed (RespondTo rid p # ops) st st'"
inductive_cases performed_RecordE: "performed (SaveConnectionRecord a ch origin # ops) st st'"

text \<open>Whether an event is put to the machine as the window puts it.\<close>

fun posed :: "grant_store \<Rightarrow> dperm_event \<Rightarrow> bool" where
  "posed st (PopupRequest m grant signed_in facts) \<longleftrightarrow>
     (case pf_origin facts of None \<Rightarrow> False | Some origin \<Rightarrow> grant = st origin)"
| "posed st (PopupAccountSwitch origin grant current active now_ms space) \<longleftrightarrow> grant = st origin"
| "posed st _ \<longleftrightarrow> True"

text \<open>A history is the events so far, the latest first.\<close>

inductive dperm_run ::
  "(bytes \<Rightarrow> string) \<Rightarrow> (string \<Rightarrow> string + json) \<Rightarrow> dperm_event list \<Rightarrow> grant_store \<Rightarrow> dperm_model \<Rightarrow> bool"
  for cs parse where
  run_start: "dperm_run cs parse [] Map.empty None"
| run_step: "dperm_run cs parse es st model \<Longrightarrow> posed st e \<Longrightarrow> dperm_update cs parse e model = (cmd, model')
     \<Longrightarrow> performed (dc_ops cmd) st st' \<Longrightarrow> dperm_run cs parse (e # es) st' model'"

definition approved_in :: "dperm_event list \<Rightarrow> string \<Rightarrow> u32 \<Rightarrow> bool" where
  "approved_in es origin chain_id \<longleftrightarrow> (\<exists>rid m a now. PopupApproved origin rid m a chain_id now \<in> set es)"

definition chosen_in :: "(bytes \<Rightarrow> string) \<Rightarrow> dperm_event list \<Rightarrow> string \<Rightarrow> string \<Rightarrow> bool" where
  "chosen_in cs es origin address \<longleftrightarrow>
     (\<exists>a. address = dapp_spelling cs a \<and> a \<noteq> []
        \<and> ((\<exists>rid m ch now. PopupApproved origin rid m a ch now \<in> set es)
           \<or> (\<exists>g cur now sp. PopupAccountSwitch origin g cur a now sp \<in> set es)))"

definition grant_ok :: "(bytes \<Rightarrow> string) \<Rightarrow> dperm_event list \<Rightarrow> string \<Rightarrow> dperm_grant \<Rightarrow> bool" where
  "grant_ok cs es origin g \<longleftrightarrow> gr_origin g = origin \<and> origin \<noteq> [] \<and> approved_in es origin (gr_chain_id g)
     \<and> chosen_in cs es origin (gr_address g)"

definition store_ok :: "(bytes \<Rightarrow> string) \<Rightarrow> dperm_event list \<Rightarrow> grant_store \<Rightarrow> bool" where
  "store_ok cs es st \<longleftrightarrow> (\<forall>origin g. st origin = Some g \<longrightarrow> grant_ok cs es origin g)"

lemma approved_inI: "PopupApproved origin rid m a ch now \<in> set es \<Longrightarrow> approved_in es origin ch"
  unfolding approved_in_def by blast

lemma chosen_inI:
  "PopupApproved origin rid m a ch now \<in> set es \<Longrightarrow> a \<noteq> [] \<Longrightarrow> chosen_in cs es origin (dapp_spelling cs a)"
  "PopupAccountSwitch origin g cur a now sp \<in> set es \<Longrightarrow> a \<noteq> [] \<Longrightarrow> chosen_in cs es origin (dapp_spelling cs a)"
  unfolding chosen_in_def by blast+

lemma approved_in_later: "approved_in es origin ch \<Longrightarrow> approved_in (e # es) origin ch"
  unfolding approved_in_def by (meson list.set_intros(2))

lemma chosen_in_later: "chosen_in cs es origin a \<Longrightarrow> chosen_in cs (e # es) origin a"
proof -
  assume "chosen_in cs es origin a"
  then obtain b where b: "a = dapp_spelling cs b" "b \<noteq> []"
    and "(\<exists>rid m ch now. PopupApproved origin rid m b ch now \<in> set es)
      \<or> (\<exists>g cur now sp. PopupAccountSwitch origin g cur b now sp \<in> set es)"
    unfolding chosen_in_def by blast
  then show ?thesis using chosen_inI(1) [OF list.set_intros(2) b(2)] chosen_inI(2) [OF list.set_intros(2) b(2)] by blast
qed

lemma grant_ok_later: "grant_ok cs es origin g \<Longrightarrow> grant_ok cs (e # es) origin g"
  by (simp add: grant_ok_def approved_in_later chosen_in_later)

lemma performed_store_ok:
  "performed ops st st' \<Longrightarrow> store_ok cs es st \<Longrightarrow> (\<And>g. WriteGrant g \<in> set ops \<Longrightarrow> grant_ok cs es (gr_origin g) g)
    \<Longrightarrow> store_ok cs es st'"
proof (induction rule: performed.induct)
  case (performed_write ops st g st')
  have "store_ok cs es (st(gr_origin g \<mapsto> g))"
    using performed_write.prems by (auto simp: store_ok_def)
  then show ?case by (rule performed_write.IH) (simp add: performed_write.prems(2))
next
  case (performed_remove ops st origin st')
  have "store_ok cs es (st(origin := None))" using performed_remove.prems by (auto simp: store_ok_def)
  then show ?case by (rule performed_remove.IH) (simp add: performed_remove.prems(2))
qed auto

lemma switch_write:
  "WriteGrant g' \<in> set (dc_ops (popup_account_switch cs origin grant current active now_ms space)) \<longleftrightarrow>
     (\<exists>g. grant = Some g \<and> origin \<noteq> [] \<and> active \<noteq> [] \<and> \<not> (space \<and> space_keeps_grant g current) \<and> \<not> should_drop_grant (Some g) current
        \<and> \<not> eq_ignore_ascii_case (gr_address g) active
        \<and> g' = \<lparr>gr_origin = origin, gr_address = dapp_spelling cs active, gr_chain_id = gr_chain_id g, gr_granted_at_ms = now_ms\<rparr>)"
  by (cases grant) (auto simp: popup_account_switch_def command_done_def finish_def)

lemma approved_write:
  "WriteGrant g \<in> set (dc_ops (popup_approved cs origin rid m a ch now_ms)) \<longleftrightarrow> origin \<noteq> [] \<and> a \<noteq> []
     \<and> g = \<lparr>gr_origin = origin, gr_address = dapp_spelling cs a, gr_chain_id = ch, gr_granted_at_ms = now_ms\<rparr>"
  by (auto simp: popup_approved_def command_done_def finish_def Let_def)

lemma update_writes_ok:
  assumes "store_ok cs es st" and "posed st e" and "dperm_update cs parse e model = (cmd, model')"
    and "WriteGrant g \<in> set (dc_ops cmd)"
  shows "grant_ok cs (e # es) (gr_origin g) g"
proof (cases e)
  case (PopupApproved origin rid m a ch now)
  then have "WriteGrant g \<in> set (dc_ops (popup_approved cs origin rid m a ch now))" using assms(3,4) by auto
  then show ?thesis unfolding approved_write PopupApproved
    by (auto simp: grant_ok_def intro: approved_inI chosen_inI(1))
next
  case (PopupAccountSwitch origin grant current active now space)
  then have "WriteGrant g \<in> set (dc_ops (popup_account_switch cs origin grant current active now space))" using assms(3,4) by auto
  then obtain g0 where g0: "grant = Some g0" "origin \<noteq> []" "active \<noteq> []"
    "g = \<lparr>gr_origin = origin, gr_address = dapp_spelling cs active, gr_chain_id = gr_chain_id g0, gr_granted_at_ms = now\<rparr>"
    unfolding switch_write by blast
  have "grant_ok cs es origin g0" using assms(1,2) PopupAccountSwitch g0(1) by (simp add: store_ok_def)
  then show ?thesis using g0(2-4) unfolding PopupAccountSwitch
    by (auto simp: grant_ok_def intro: approved_in_later chosen_inI(2))
qed (use assms in \<open>auto simp: finish_def command_done_def\<close>)

lemma run_store_ok: "dperm_run cs parse es st model \<Longrightarrow> store_ok cs es st"
proof (induction rule: dperm_run.induct)
  case run_start
  show ?case by (simp add: store_ok_def)
next
  case (run_step es st model e cmd model' st')
  have "store_ok cs (e # es) st" using run_step.IH by (auto simp: store_ok_def intro: grant_ok_later)
  from performed_store_ok [OF run_step.hyps(4) this] show ?case
    using update_writes_ok [OF run_step.IH run_step.hyps(2,3)] by blast
qed

section \<open>What the person agreed to\<close>

lemma popup_forward:
  "popup_outcome m granted pinned = ForwardToSigning address \<longleftrightarrow>
     \<not> is_connect_method m \<and> granted \<noteq> [] \<and> address = hd granted
     \<and> (case pinned of None \<Rightarrow> True | Some p \<Rightarrow> eq_ignore_ascii_case p address)"
  by (cases granted) (auto simp: popup_outcome_def decide_popup_request_def split: option.split if_split)

text \<open>
  C3: in every run of the window, whatever the storage lost: a request reaches the signing sheet only when the
  person pressed Connect for that site before, the stored grant is for the account signed in now, the
  request names no other account, and no signature is asked for from a public page over plain HTTP. The
  sheet is pinned to the granted account.
\<close>

theorem forward_needs_consent:
  assumes "dperm_run cs parse es st model" and "posed st (PopupRequest m grant signed_in facts)"
    and "pv_outcome (popup_request cs parse m grant signed_in facts) = ForwardToSigning address"
  shows "\<exists>origin g active. pf_origin facts = Some origin \<and> st origin = Some g \<and> approved_in es origin (gr_chain_id g)
    \<and> chosen_in cs es origin (gr_address g)
    \<and> signed_in = Some active \<and> active \<noteq> [] \<and> eq_ignore_ascii_case (gr_address g) active
    \<and> address = dapp_spelling cs (gr_address g)
    \<and> (case facts_pinned parse facts m of None \<Rightarrow> True | Some p \<Rightarrow> eq_ignore_ascii_case p address)
    \<and> \<not> is_connect_method m \<and> (is_signing_method m \<longrightarrow> \<not> is_insecure_public_origin origin)"
proof -
  obtain origin where o: "pf_origin facts = Some origin" "grant = st origin"
    using assms(2) by (auto split: option.splits)
  let ?granted = "List.map (dapp_spelling cs) (granted_to_signed_in grant signed_in)"
  have ok: "popup_origin_refusal m (Some origin) = None"
    and fw: "popup_outcome m ?granted (facts_pinned parse facts m) = ForwardToSigning address"
    using assms(3) o(1) by (auto simp: popup_request_def Let_def split: option.splits)
  obtain g active where g: "grant = Some g" "signed_in = Some active" "active \<noteq> []" "eq_ignore_ascii_case (gr_address g) active"
    "granted_to_signed_in grant signed_in = [gr_address g]"
    using fw by (auto simp: popup_forward granted_to_signed_in_def split: option.splits if_splits)
  have "grant_ok cs es origin g" using run_store_ok [OF assms(1)] g(1) o(2) by (simp add: store_ok_def)
  moreover have "is_signing_method m \<longrightarrow> \<not> is_insecure_public_origin origin"
    using ok by (auto simp: popup_origin_refusal_def split: if_splits)
  ultimately show ?thesis using fw g o unfolding popup_forward by (auto simp: grant_ok_def)
qed


section \<open>Witnesses\<close>

definition example_grant :: dperm_grant where
  "example_grant = \<lparr>gr_origin = ''https://x.example'', gr_address = ''a'', gr_chain_id = 1, gr_granted_at_ms = 0\<rparr>"


lemma example_run:
  "dperm_run (\<lambda>_. []) (\<lambda>_. Inl []) [PopupApproved ''https://x.example'' ''1'' ''eth_requestAccounts'' ''a'' 1 0]
     [''https://x.example'' \<mapsto> example_grant] None"
proof (rule dperm_run.run_step [OF dperm_run.run_start])
  have s: "dapp_spelling (\<lambda>_. []) ''a'' = ''a''" by code_simp
  show "posed Map.empty (PopupApproved ''https://x.example'' ''1'' ''eth_requestAccounts'' ''a'' 1 0)" by simp
  show "dperm_update (\<lambda>_. []) (\<lambda>_. Inl []) (PopupApproved ''https://x.example'' ''1'' ''eth_requestAccounts'' ''a'' 1 0) None
    = (finish [WriteGrant example_grant, SaveConnectionRecord ''a'' 1 ''https://x.example'', RespondTo ''1'' (RespondAccounts [''a''])], None)"
    by (simp add: popup_approved_def s example_grant_def Let_def)
  have "performed [WriteGrant example_grant, SaveConnectionRecord ''a'' 1 ''https://x.example'', RespondTo ''1'' (RespondAccounts [''a''])]
      Map.empty (Map.empty(gr_origin example_grant \<mapsto> example_grant))"
    by (intro performed.intros(1-5))
  then show "performed (dc_ops (finish [WriteGrant example_grant, SaveConnectionRecord ''a'' 1 ''https://x.example'', RespondTo ''1'' (RespondAccounts [''a''])]))
      Map.empty [''https://x.example'' \<mapsto> example_grant]"
    by (simp add: finish_def example_grant_def)
qed

theorem forward_needs_consent_witness:
  "\<exists>active. pv_outcome (popup_request (\<lambda>_. []) (\<lambda>_. Inl []) ''eth_call'' (Some example_grant) (Some ''A'')
      \<lparr>pf_pinned_address = None, pf_origin = Some ''https://x.example'', pf_params_json = None\<rparr>) = ForwardToSigning ''a''
    \<and> eq_ignore_ascii_case (gr_address example_grant) active"
proof -
  let ?f = "\<lparr>pf_pinned_address = None, pf_origin = Some ''https://x.example'', pf_params_json = None\<rparr>"
  have "\<not> is_signing_method ''eth_call''" "\<not> is_connect_method ''eth_call''" "dapp_spelling (\<lambda>_. []) ''a'' = ''a''"
    "eq_ignore_ascii_case (gr_address example_grant) ''A''" "gr_address example_grant = ''a''" by code_simp+
  then have F: "pv_outcome (popup_request (\<lambda>_. []) (\<lambda>_. Inl []) ''eth_call'' (Some example_grant) (Some ''A'') ?f) = ForwardToSigning ''a''"
    by (simp add: popup_request_def Let_def granted_to_signed_in_def popup_origin_refusal_def popup_outcome_def
        decide_popup_request_def facts_pinned_def)
  have P: "posed [''https://x.example'' \<mapsto> example_grant] (PopupRequest ''eth_call'' (Some example_grant) (Some ''A'') ?f)" by simp
  obtain g :: dperm_grant and active where "[''https://x.example'' \<mapsto> example_grant] ''https://x.example'' = Some g"
      "eq_ignore_ascii_case (gr_address g) active"
    using forward_needs_consent [OF example_run P F] by auto
  then show ?thesis using F by auto
qed

end
