(* ===== verification/ApprovalGuard.thy ===== *)
theory ApprovalGuard
  imports TypedData
begin

text \<open>
  The pure half of \<open>app/approval_guard.rs\<close>: the caps, the shapes of a request that grants spending power,
  the re-encoding of the amount a person chose, and the check at submit that no unbounded allowance leaves
  unseen. A \<open>U256\<close> is its value, a natural number; reading and printing one, the lower case of Unicode text
  and the JSON and EIP-712 crates are parameters (\<open>guard_env\<close>).
\<close>

record 'td guard_env =
  ge_u256_parse :: "string \<Rightarrow> nat \<Rightarrow> nat option"
  ge_u256_dec :: "nat \<Rightarrow> string"
  ge_u256_hex64 :: "nat \<Rightarrow> string"
  ge_lowercase :: "string \<Rightarrow> string"
  ge_typed :: "'td typed_env"

definition U256_MAX :: nat where "U256_MAX = 2 ^ 256 - 1"

definition checked :: "nat \<Rightarrow> nat option" where
  "checked n = (if n \<le> U256_MAX then Some n else None)"

section \<open>Caps\<close>

definition UNLIMITED_CAP_256 :: nat where "UNLIMITED_CAP_256 = 2 ^ 200"
definition UNLIMITED_CAP_160 :: nat where "UNLIMITED_CAP_160 = 2 ^ 152"

datatype amount_bits = B256 | B160

fun cap_for_bits :: "amount_bits \<Rightarrow> nat" where
  "cap_for_bits B160 = UNLIMITED_CAP_160"
| "cap_for_bits B256 = UNLIMITED_CAP_256"

definition is_unbounded_amount :: "nat \<Rightarrow> amount_bits \<Rightarrow> bool" where
  "is_unbounded_amount amount bits \<longleftrightarrow> cap_for_bits bits \<le> amount"

definition bits_from_wire :: "u32 option \<Rightarrow> amount_bits" where
  "bits_from_wire bits = (if bits = Some 160 then B160 else B256)"

definition SEL_APPROVE :: string where "SEL_APPROVE = ''095ea7b3''"
definition SEL_INCREASE_ALLOWANCE :: string where "SEL_INCREASE_ALLOWANCE = ''39509351''"
definition SEL_DECREASE_ALLOWANCE :: string where "SEL_DECREASE_ALLOWANCE = ''a457c2d7''"
definition SEL_SET_APPROVAL_FOR_ALL :: string where "SEL_SET_APPROVAL_FOR_ALL = ''a22cb465''"
definition SEL_PERMIT2_APPROVE :: string where "SEL_PERMIT2_APPROVE = ''87517c45''"

lemmas selector_defs = SEL_APPROVE_def SEL_INCREASE_ALLOWANCE_def SEL_DECREASE_ALLOWANCE_def
  SEL_SET_APPROVAL_FOR_ALL_def SEL_PERMIT2_APPROVE_def

section \<open>What is detected and what is chosen\<close>

datatype approval_kind =
    Erc20Approve | IncreaseAllowance | DecreaseAllowance | SetApprovalForAll
  | Erc2612Permit | DaiPermit | Permit2Single | Permit2Batch

datatype block_reason = OffChainPermit | DaiPermitFullBalance

datatype locus = CalldataWord u32 | TypedPath string

record detected_approval =
  da_kind :: approval_kind
  da_token_address :: "string option"
  da_spender :: string
  da_amount_raw :: "string option"
  da_amount_bits :: "u32 option"
  da_is_unbounded :: bool
  da_is_boolean_grant :: bool
  da_is_reducing :: bool
  da_editable :: bool
  da_block_reason :: "block_reason option"
  da_deadline :: "string option"
  da_locus :: locus

datatype guard_choice = Amount string | Revoke | Grant | Unlimited

fun typed_locus :: "locus \<Rightarrow> bool" where
  "typed_locus (TypedPath path) \<longleftrightarrow> True"
| "typed_locus (CalldataWord i) \<longleftrightarrow> False"

section \<open>Numbers\<close>

record big_val =
  bv_neg :: bool
  bv_mag :: nat

definition big_zero :: big_val where "big_zero = \<lparr>bv_neg = False, bv_mag = 0\<rparr>"

definition big_is_zero :: "big_val \<Rightarrow> bool" where "big_is_zero b \<longleftrightarrow> bv_mag b = 0"

definition to_dec :: "'td guard_env \<Rightarrow> big_val \<Rightarrow> string" where
  "to_dec E b = (if bv_neg b \<and> bv_mag b \<noteq> 0 then ''-'' @ ge_u256_dec E (bv_mag b) else ge_u256_dec E (bv_mag b))"

text \<open>A double by its bits: the biased exponent, the mantissa with its hidden bit, the integer part of its size.\<close>

definition f64_exponent :: "u64 \<Rightarrow> nat" where "f64_exponent b = unat b div 2 ^ 52 mod 2 ^ 11"

definition f64_mantissa :: "u64 \<Rightarrow> nat" where
  "f64_mantissa b = unat b mod 2 ^ 52 + (if f64_exponent b = 0 then 0 else 2 ^ 52)"

definition f64_negative :: "u64 \<Rightarrow> bool" where "f64_negative b \<longleftrightarrow> 2 ^ 63 \<le> unat b"

definition f64_trunc_abs :: "u64 \<Rightarrow> nat" where
  "f64_trunc_abs b =
     (let e = max 1 (f64_exponent b)
      in if 1075 \<le> e then f64_mantissa b * 2 ^ (e - 1075) else f64_mantissa b div 2 ^ (1075 - e))"

definition f64_to_big :: "u64 \<Rightarrow> big_val" where
  "f64_to_big f =
     (if f64_exponent f = 2047 then big_zero
      else let a = f64_trunc_abs f
      in if a = 0 then big_zero
         else let neg = f64_negative f
         in if a < 9007199254740992 then \<lparr>bv_neg = neg, bv_mag = a\<rparr>
            else let exponent = int (f64_exponent f) - 1075; mantissa = unat f mod 2 ^ 52 + 2 ^ 52
            in if \<not> (0 \<le> exponent \<and> exponent < 256) then \<lparr>bv_neg = neg, bv_mag = U256_MAX\<rparr>
               else \<lparr>bv_neg = neg, bv_mag = unwrap_or (checked (mantissa * 2 ^ nat exponent)) U256_MAX\<rparr>)"

definition strip_prefix_ci :: "string \<Rightarrow> string \<Rightarrow> string option" where
  "strip_prefix_ci s p =
     (case str_slice s 0 (length p) of
        None \<Rightarrow> None
      | Some head \<Rightarrow> if eq_ignore_ascii_case head p then Some (drop (length p) s) else None)"

definition parse_dec_saturating :: "'td guard_env \<Rightarrow> string \<Rightarrow> nat" where
  "parse_dec_saturating E digits = unwrap_or (ge_u256_parse E digits 10) U256_MAX"

definition parse_dec_u256 :: "'td guard_env \<Rightarrow> string \<Rightarrow> nat option" where
  "parse_dec_u256 E s = (if s = [] \<or> \<not> list_all is_ascii_digit s then None else ge_u256_parse E s 10)"

definition radix_of :: "string \<Rightarrow> (nat \<times> string) option" where
  "radix_of s =
     (case strip_prefix_ci s ''0x'' of
        Some body \<Rightarrow> Some (16, body)
      | None \<Rightarrow> (case strip_prefix_ci s ''0b'' of
          Some body \<Rightarrow> Some (2, body)
        | None \<Rightarrow> map_option (Pair 8) (strip_prefix_ci s ''0o'')))"

definition str_to_big :: "'td guard_env \<Rightarrow> string \<Rightarrow> big_val" where
  "str_to_big E s =
     (if s = [] then big_zero
      else case radix_of s of
          Some (radix, body) \<Rightarrow>
            if body = [] \<or> \<not> list_all (is_digit radix) body then big_zero
            else \<lparr>bv_neg = False, bv_mag = unwrap_or (ge_u256_parse E body radix) U256_MAX\<rparr>
        | None \<Rightarrow>
            (let (neg, digits) = (case strip_prefix s ''-'' of Some rest \<Rightarrow> (True, rest) | None \<Rightarrow> (False, s))
             in if digits = [] \<or> \<not> list_all is_ascii_digit digits then big_zero
                else let mag = parse_dec_saturating E digits
                     in \<lparr>bv_neg = neg \<and> mag \<noteq> 0, bv_mag = mag\<rparr>))"

definition to_big :: "'td guard_env \<Rightarrow> json option \<Rightarrow> big_val" where
  "to_big E v =
     (case v of
        Some (Number (PosInt u)) \<Rightarrow> \<lparr>bv_neg = False, bv_mag = unat u\<rparr>
      | Some (Number (NegInt i)) \<Rightarrow> \<lparr>bv_neg = sint i < 0, bv_mag = nat \<bar>sint i\<bar>\<rparr>
      | Some (Number (Float f)) \<Rightarrow> f64_to_big f
      | Some (String s) \<Rightarrow> str_to_big E (trim s)
      | _ \<Rightarrow> big_zero)"

definition parse_signed_dec :: "'td guard_env \<Rightarrow> string \<Rightarrow> big_val" where
  "parse_signed_dec E s = str_to_big E s"

definition big_from_word :: "'td guard_env \<Rightarrow> string \<Rightarrow> nat option" where
  "big_from_word E w =
     (if w = [] then Some 0
      else if \<not> list_all is_ascii_hexdigit w then None
      else ge_u256_parse E (w @ replicate (64 - length w) (CHR ''0'')) 16)"

definition lc :: "'td guard_env \<Rightarrow> json option \<Rightarrow> string" where
  "lc E v = (case Option.bind v as_str of None \<Rightarrow> [] | Some s \<Rightarrow> ge_lowercase E s)"

definition nonempty :: "string \<Rightarrow> string option" where
  "nonempty s = (if s = [] then None else Some s)"

text \<open>A float of the crate is finite; it is zero when all its bits but the sign are.\<close>

fun js_truthy :: "json option \<Rightarrow> bool" where
  "js_truthy None \<longleftrightarrow> False"
| "js_truthy (Some Null) \<longleftrightarrow> False"
| "js_truthy (Some (Bool b)) \<longleftrightarrow> b"
| "js_truthy (Some (Number (PosInt n))) \<longleftrightarrow> n \<noteq> 0"
| "js_truthy (Some (Number (NegInt n))) \<longleftrightarrow> n \<noteq> 0"
| "js_truthy (Some (Number (Float f))) \<longleftrightarrow> unat f mod 2 ^ 63 \<noteq> 0 \<and> unat f mod 2 ^ 63 \<le> 2047 * 2 ^ 52"
| "js_truthy (Some (String s)) \<longleftrightarrow> s \<noteq> []"
| "js_truthy (Some (Array vs)) \<longleftrightarrow> True"
| "js_truthy (Some (Object kvs)) \<longleftrightarrow> True"

text \<open>The double 1.0 has the bits \<open>0x3ff0000000000000\<close>.\<close>

fun is_js_one_or_true :: "json option \<Rightarrow> bool" where
  "is_js_one_or_true (Some (Bool b)) \<longleftrightarrow> b"
| "is_js_one_or_true (Some (String s)) \<longleftrightarrow> s = ''true'' \<or> s = ''1''"
| "is_js_one_or_true (Some (Number (PosInt n))) \<longleftrightarrow> n = 1"
| "is_js_one_or_true (Some (Number (Float f))) \<longleftrightarrow> f = 0x3ff0000000000000"
| "is_js_one_or_true _ \<longleftrightarrow> False"

section \<open>Detection\<close>

definition word_text :: "string \<Rightarrow> nat \<Rightarrow> string" where
  "word_text hex i =
     (let start = min (8 + i * 64) (length hex); stop = min (start + 64) (length hex) in subslice start stop hex)"

definition addr_from_word :: "string \<Rightarrow> string" where
  "addr_from_word w = ''0x'' @ drop (min 24 (length w)) w"

text \<open>The approvals of one amount word share their shape.\<close>

definition amount_approval ::
  "'td guard_env \<Rightarrow> approval_kind \<Rightarrow> string option \<Rightarrow> string \<Rightarrow> nat \<Rightarrow> u32 \<Rightarrow> bool \<Rightarrow> bool \<Rightarrow> string option \<Rightarrow> u32 \<Rightarrow> detected_approval" where
  "amount_approval E kind token spender amount bits unbounded reducing deadline word_index =
     \<lparr>da_kind = kind, da_token_address = token, da_spender = spender, da_amount_raw = Some (ge_u256_dec E amount),
      da_amount_bits = Some bits, da_is_unbounded = unbounded, da_is_boolean_grant = False, da_is_reducing = reducing,
      da_editable = True, da_block_reason = None, da_deadline = deadline, da_locus = CalldataWord word_index\<rparr>"

definition detect_calldata_approval :: "'td guard_env \<Rightarrow> string option \<Rightarrow> string option \<Rightarrow> detected_approval option" where
  "detect_calldata_approval E to data =
     (case data of
        None \<Rightarrow> None
      | Some data \<Rightarrow>
          if data = [] \<or> data = ''0x'' then None
          else let stripped = unwrap_or (strip_prefix data ''0x'') data
          in if \<not> is_ascii stripped then None
             else let hex = to_ascii_lowercase stripped
             in if length hex < 8 then None
                else let selector = take 8 hex; word = word_text hex; token = map_option (ge_lowercase E) to
                in if selector = SEL_APPROVE then do {
                     amount \<leftarrow> big_from_word E (word 1);
                     Some (amount_approval E Erc20Approve token (addr_from_word (word 0)) amount 256
                       (is_unbounded_amount amount B256) (amount = 0) None 1)
                   }
                   else if selector = SEL_INCREASE_ALLOWANCE then do {
                     amount \<leftarrow> big_from_word E (word 1);
                     Some (amount_approval E IncreaseAllowance token (addr_from_word (word 0)) amount 256
                       (is_unbounded_amount amount B256) False None 1)
                   }
                   else if selector = SEL_DECREASE_ALLOWANCE then do {
                     amount \<leftarrow> big_from_word E (word 1);
                     Some (amount_approval E DecreaseAllowance token (addr_from_word (word 0)) amount 256 False True None 1)
                   }
                   else if selector = SEL_PERMIT2_APPROVE then do {
                     amount \<leftarrow> big_from_word E (word 2);
                     deadline \<leftarrow> big_from_word E (word 3);
                     Some (amount_approval E Permit2Single
                       (if addr_from_word (word 0) = ''0x'' then None else Some (addr_from_word (word 0)))
                       (addr_from_word (word 1)) amount 160 (is_unbounded_amount amount B160) (amount = 0)
                       (Some (ge_u256_dec E deadline)) 2)
                   }
                   else if selector = SEL_SET_APPROVAL_FOR_ALL then do {
                     approved \<leftarrow> map_option (\<lambda>v. v \<noteq> 0) (big_from_word E (word 1));
                     Some \<lparr>da_kind = SetApprovalForAll, da_token_address = token, da_spender = addr_from_word (word 0),
                       da_amount_raw = None, da_amount_bits = None, da_is_unbounded = approved, da_is_boolean_grant = True,
                       da_is_reducing = \<not> approved, da_editable = True, da_block_reason = None, da_deadline = None,
                       da_locus = CalldataWord 1\<rparr>
                   }
                   else None)"

section \<open>Detection in a typed-data document\<close>

text \<open>A permit signed off chain is never editable.\<close>

definition permit_approval ::
  "'td guard_env \<Rightarrow> approval_kind \<Rightarrow> string option \<Rightarrow> string \<Rightarrow> big_val option \<Rightarrow> u32 \<Rightarrow> bool \<Rightarrow> string option \<Rightarrow> string \<Rightarrow> detected_approval" where
  "permit_approval E kind token spender amount bits unbounded deadline path =
     \<lparr>da_kind = kind, da_token_address = token, da_spender = spender, da_amount_raw = map_option (to_dec E) amount,
      da_amount_bits = Some bits, da_is_unbounded = unbounded, da_is_boolean_grant = False,
      da_is_reducing = (case amount of Some a \<Rightarrow> big_is_zero a | None \<Rightarrow> False),
      da_editable = False, da_block_reason = Some OffChainPermit, da_deadline = deadline, da_locus = TypedPath path\<rparr>"

definition past :: "nat \<Rightarrow> big_val \<Rightarrow> bool" where
  "past cap amount \<longleftrightarrow> \<not> bv_neg amount \<and> cap \<le> bv_mag amount"

definition or_empty :: "json option \<Rightarrow> json" where
  "or_empty v = (case v of None \<Rightarrow> Object [] | Some v \<Rightarrow> if v = Null then Object [] else v)"

definition detect_typed_data_approval :: "'td guard_env \<Rightarrow> json \<Rightarrow> detected_approval option" where
  "detect_typed_data_approval E td =
     (if as_object td = None then None
      else let pt = unwrap_or (Option.bind (get td ''primaryType'') as_str) [];
               msg = or_empty (get td ''message'');
               domain = or_empty (get td ''domain'');
               contract = nonempty (lc E (get domain ''verifyingContract''));
               spender = lc E (get msg ''spender'');
               deadline = Some (to_dec E (to_big E (get msg ''deadline'')))
      in if pt = ''Permit'' \<and> get msg ''allowed'' \<noteq> None then
           let allowed = is_js_one_or_true (get msg ''allowed'')
           in Some \<lparr>da_kind = DaiPermit, da_token_address = contract, da_spender = spender, da_amount_raw = None,
                da_amount_bits = None, da_is_unbounded = allowed, da_is_boolean_grant = True, da_is_reducing = \<not> allowed,
                da_editable = False, da_block_reason = (if allowed then Some DaiPermitFullBalance else None),
                da_deadline = Some (to_dec E (to_big E (get msg ''expiry''))), da_locus = TypedPath ''allowed''\<rparr>
         else if pt = ''Permit'' \<and> get msg ''value'' \<noteq> None then
           let amount = to_big E (get msg ''value'')
           in Some (permit_approval E Erc2612Permit contract spender (Some amount) 256 (past UNLIMITED_CAP_256 amount)
                deadline ''value'')
         else if pt = ''PermitSingle'' \<and> js_truthy (get msg ''details'') then
           let details = unwrap_or (get msg ''details'') (Object []); amount = to_big E (get details ''amount'')
           in Some (permit_approval E Permit2Single (nonempty (lc E (get details ''token''))) spender (Some amount) 160
                (past UNLIMITED_CAP_160 amount) (Some (to_dec E (to_big E (get details ''expiration'')))) ''details.amount'')
         else if pt = ''PermitBatch'' \<and> Option.bind (get msg ''details'') as_array \<noteq> None then
           Some (permit_approval E Permit2Batch None spender None 160
             (list_ex (\<lambda>d. past UNLIMITED_CAP_160 (to_big E (get d ''amount'')))
                (the (Option.bind (get msg ''details'') as_array))) None ''details'')
         else if pt = ''PermitTransferFrom'' \<and> js_truthy (get msg ''permitted'') then
           let permitted = unwrap_or (get msg ''permitted'') (Object []); amount = to_big E (get permitted ''amount'')
           in Some (permit_approval E Permit2Single (nonempty (lc E (get permitted ''token''))) spender (Some amount) 256
                (past UNLIMITED_CAP_256 amount) deadline ''permitted.amount'')
         else if pt = ''PermitBatchTransferFrom'' \<and> Option.bind (get msg ''permitted'') as_array \<noteq> None then
           Some (permit_approval E Permit2Batch None spender None 256
             (list_ex (\<lambda>p. past UNLIMITED_CAP_256 (to_big E (get p ''amount'')))
                (the (Option.bind (get msg ''permitted'') as_array))) deadline ''permitted'')
         else None)"

definition detect_approval :: "'td guard_env \<Rightarrow> string \<Rightarrow> json option \<Rightarrow> detected_approval option" where
  "detect_approval E method_name params =
     (case Option.bind params as_array of
        None \<Rightarrow> None
      | Some [] \<Rightarrow> None
      | Some (tx # rest) \<Rightarrow>
          if method_name = ''eth_sendTransaction'' then
            (if as_object tx = None then None
             else detect_calldata_approval E (Option.bind (get tx ''to'') as_str) (Option.bind (get tx ''data'') as_str))
          else if looks_like_typed_data method_name then
            (case canonical_typed (ge_typed E) method_name (Array (tx # rest)) of
               Inl _ \<Rightarrow> None
             | Inr read \<Rightarrow> detect_typed_data_approval E (ct_document read))
          else None)"

section \<open>Re-encoding\<close>

datatype rewrite_error =
    RewriteUnsupportedMethod | WrongLocus | RewriteMalformedParams | CalldataTooShort | AmountForBooleanShape
  | GrantForAmountShape | InvalidChoiceAmount | UnlimitedAmount | PathNotFound | RewriteChangedLength
  | RewriteTouchedOtherBytes

definition chosen_amount :: "'td guard_env \<Rightarrow> detected_approval \<Rightarrow> guard_choice \<Rightarrow> rewrite_error + nat" where
  "chosen_amount E detected choice =
     (case choice of
        Revoke \<Rightarrow> Inr 0
      | Grant \<Rightarrow> if \<not> da_is_boolean_grant detected then Inl GrantForAmountShape else Inr 1
      | Unlimited \<Rightarrow>
          if \<not> da_is_unbounded detected \<or> da_is_boolean_grant detected then Inl InvalidChoiceAmount
          else (case Option.bind (da_amount_raw detected) (parse_dec_u256 E) of
              None \<Rightarrow> Inl InvalidChoiceAmount
            | Some amount \<Rightarrow> Inr amount)
      | Amount amount_raw \<Rightarrow>
          (case parse_dec_u256 E amount_raw of
             None \<Rightarrow> Inl InvalidChoiceAmount
           | Some amount \<Rightarrow>
               if is_unbounded_amount amount (bits_from_wire (da_amount_bits detected)) then Inl UnlimitedAmount
               else Inr amount))"

text \<open>Both texts here are ASCII, so characters are bytes.\<close>

definition assert_only_word_changed :: "string \<Rightarrow> string \<Rightarrow> nat \<Rightarrow> nat \<Rightarrow> rewrite_error + unit" where
  "assert_only_word_changed before after start stop =
     (let a = unwrap_or (strip_prefix before ''0x'') before; b = unwrap_or (strip_prefix after ''0x'') after
      in if length a \<noteq> length b then Inl RewriteChangedLength
         else if list_ex (\<lambda>(i, ca, cb). \<not> (start \<le> i \<and> i < stop) \<and> ca \<noteq> cb) (enumerate 0 (zip a b))
         then Inl RewriteTouchedOtherBytes else Inr ())"

definition rewrite_calldata :: "'td guard_env \<Rightarrow> string \<Rightarrow> detected_approval \<Rightarrow> guard_choice \<Rightarrow> rewrite_error + string" where
  "rewrite_calldata E data detected choice =
     (case da_locus detected of
        TypedPath _ \<Rightarrow> Inl WrongLocus
      | CalldataWord word_index \<Rightarrow>
          let hex = unwrap_or (strip_prefix data ''0x'') data
          in if \<not> is_ascii hex then Inl RewriteMalformedParams
             else let word_start = 8 + unat word_index * 64; word_end = word_start + 64
             in if length hex < word_end then Inl CalldataTooShort
                else let selector = take 8 hex
                in try_with (if da_kind detected = SetApprovalForAll
                     then (case choice of
                         Amount _ \<Rightarrow> Inl AmountForBooleanShape
                       | Unlimited \<Rightarrow> Inl AmountForBooleanShape
                       | Grant \<Rightarrow> Inr (ge_u256_hex64 E 1)
                       | Revoke \<Rightarrow> Inr (ge_u256_hex64 E 0))
                     else map_sum (\<lambda>e. e) (ge_u256_hex64 E) (chosen_amount E detected choice)) (\<lambda>new_word.
                   let head = subslice 8 word_start hex; tail = drop word_end hex;
                       out = ''0x'' @ selector @ head @ new_word @ tail
                   in try_with (assert_only_word_changed data out word_start word_end) (\<lambda>_. Inr out)))"

text \<open>\<open>path.split('.')\<close> on a path with no character past ASCII.\<close>

fun split_dots :: "string \<Rightarrow> string list" where
  "split_dots [] = [[]]"
| "split_dots (c # s) =
     (if c = CHR ''.'' then [] # split_dots s
      else case split_dots s of p # ps \<Rightarrow> (c # p) # ps | [] \<Rightarrow> [[c]])"

text \<open>Walking down with \<open>get_mut\<close> and writing the last key in place, which has to exist.\<close>

fun set_parts :: "json \<Rightarrow> string list \<Rightarrow> json \<Rightarrow> rewrite_error + json" where
  "set_parts cur [] v = Inl PathNotFound"
| "set_parts cur [leaf] v = (if as_object cur = None \<or> get cur leaf = None then Inl PathNotFound else Inr (put cur leaf v))"
| "set_parts cur (part # parts) v =
     (case get cur part of
        None \<Rightarrow> Inl PathNotFound
      | Some inner \<Rightarrow> map_sum (\<lambda>e. e) (put cur part) (set_parts inner parts v))"

definition set_path :: "json \<Rightarrow> string \<Rightarrow> json \<Rightarrow> rewrite_error + json" where
  "set_path td path v =
     (case get td ''message'' of
        None \<Rightarrow> Inl PathNotFound
      | Some cur \<Rightarrow> map_sum (\<lambda>e. e) (put td ''message'') (set_parts cur (split_dots path) v))"

definition rewrite_typed_data :: "'td guard_env \<Rightarrow> json \<Rightarrow> detected_approval \<Rightarrow> guard_choice \<Rightarrow> rewrite_error + json" where
  "rewrite_typed_data E td detected choice =
     (case da_locus detected of
        CalldataWord _ \<Rightarrow> Inl WrongLocus
      | TypedPath path \<Rightarrow>
          if da_kind detected = DaiPermit then
            (case choice of
               Amount _ \<Rightarrow> Inl AmountForBooleanShape
             | Unlimited \<Rightarrow> Inl AmountForBooleanShape
             | _ \<Rightarrow> set_path td path (Bool (choice = Grant)))
          else try_with (chosen_amount E detected choice) (\<lambda>amount. set_path td path (String (ge_u256_dec E amount))))"

definition rewrite_approval_params ::
  "'td guard_env \<Rightarrow> string \<Rightarrow> json \<Rightarrow> detected_approval \<Rightarrow> guard_choice \<Rightarrow> rewrite_error + json" where
  "rewrite_approval_params E method_name params detected choice =
     (case as_array params of
        None \<Rightarrow> Inl RewriteMalformedParams
      | Some arr \<Rightarrow>
          if method_name = ''eth_sendTransaction'' then
            (case arr of
               [] \<Rightarrow> Inl RewriteMalformedParams
             | tx # rest \<Rightarrow>
                 (case Option.bind (get tx ''data'') as_str of
                    None \<Rightarrow> Inl RewriteMalformedParams
                  | Some data \<Rightarrow> try_with (rewrite_calldata E data detected choice) (\<lambda>new_data.
                      case as_object tx of
                        None \<Rightarrow> Inl RewriteMalformedParams
                      | Some kvs \<Rightarrow> Inr (Array (Object (insert_key ''data'' (String new_data) kvs) # rest)))))
          else if looks_like_typed_data method_name then
            (case method_of method_name of
               None \<Rightarrow> Inl RewriteMalformedParams
             | Some m \<Rightarrow>
                 (let idx = document_index m
                  in if length arr \<le> idx then Inl RewriteMalformedParams
                     else try_with (case arr ! idx of
                            String s \<Rightarrow> map_sum (\<lambda>_. RewriteMalformedParams) (\<lambda>v. v) (te_parse (ge_typed E) s)
                          | other \<Rightarrow> Inr other) (\<lambda>td.
                       try_with (rewrite_typed_data E td detected choice) (\<lambda>td.
                         Inr (Array (arr[idx := (if as_str (arr ! idx) \<noteq> None then String (te_print (ge_typed E) td) else td)]))))))
          else Inl RewriteUnsupportedMethod)"

section \<open>The check at submit\<close>

record unlimited_approval =
  ul_kind :: approval_kind
  ul_amount_raw :: string

definition enforce_no_unlimited :: "'td guard_env \<Rightarrow> string \<Rightarrow> json option \<Rightarrow> unlimited_approval + unit" where
  "enforce_no_unlimited E method_name params =
     (case detect_approval E method_name params of
        None \<Rightarrow> Inr ()
      | Some detected \<Rightarrow>
          if typed_locus (da_locus detected) then Inr ()
          else if da_is_boolean_grant detected then Inr ()
          else if da_is_reducing detected then Inr ()
          else (case (da_amount_raw detected, da_amount_bits detected) of
              (Some amount_raw, Some bits) \<Rightarrow>
                (let amount = parse_signed_dec E amount_raw
                 in if \<not> bv_neg amount \<and> is_unbounded_amount (bv_mag amount) (bits_from_wire (Some bits))
                    then Inl \<lparr>ul_kind = da_kind detected, ul_amount_raw = amount_raw\<rparr> else Inr ())
            | _ \<Rightarrow> Inr ()))"

section \<open>What is relied on\<close>

text \<open>
  The 256-bit integer's parser reads digits as their value and refuses one past \<open>2 ^ 256 - 1\<close>; \<open>{}\<close> writes it
  in decimal without leading zeros, \<open>{:064x}\<close> as the lower-case hexadecimal of its 32 big-endian bytes.
\<close>

definition guard_contract :: "'td guard_env \<Rightarrow> bool" where
  "guard_contract E \<longleftrightarrow>
     (\<forall>body radix. radix \<in> {2, 8, 10, 16} \<longrightarrow> body \<noteq> [] \<longrightarrow> list_all (is_digit radix) body \<longrightarrow>
        ge_u256_parse E body radix = from_str_radix 256 radix body)
     \<and> (\<forall>n. n < 2 ^ 256 \<longrightarrow> ge_u256_dec E n = show_nat n)
     \<and> (\<forall>n. n < 2 ^ 256 \<longrightarrow> ge_u256_hex64 E n = concat (map byte_hex (be_of_nat 32 n)))"

lemma guard_contractD:
  assumes "guard_contract E"
  shows "radix \<in> {2, 8, 10, 16} \<Longrightarrow> body \<noteq> [] \<Longrightarrow> list_all (is_digit radix) body
      \<Longrightarrow> ge_u256_parse E body radix = from_str_radix 256 radix body"
    and "n < 2 ^ 256 \<Longrightarrow> ge_u256_dec E n = show_nat n"
    and "n < 2 ^ 256 \<Longrightarrow> ge_u256_hex64 E n = concat (map byte_hex (be_of_nat 32 n))"
  using assms unfolding guard_contract_def by blast+

section \<open>Hexadecimal text and the bytes it stands for\<close>

abbreviation hex_of :: "bytes \<Rightarrow> string" where
  "hex_of bs \<equiv> concat (map byte_hex bs)"

lemma lower_digit: "to_digit 16 c = Some d \<Longrightarrow> to_ascii_lowercase_char c = hex_digit d"
  by (auto simp: to_digit_def to_ascii_lowercase_char_def hex_digit_def Let_def split: if_splits)

lemma to_digit_lt: "to_digit radix c = Some v \<Longrightarrow> v < radix"
  by (auto simp: to_digit_def Let_def split: option.splits if_splits)

lemma byte_hex_pair: "x < 16 \<Longrightarrow> y < 16 \<Longrightarrow> byte_hex (of_nat (x * 16 + y)) = [hex_digit x, hex_digit y]"
proof -
  assume "x < 16" and "y < 16"
  then have "unat (of_nat (x * 16 + y) :: u8) = x * 16 + y" by (subst unat_of_nat) simp
  with \<open>y < 16\<close> show ?thesis by (simp add: byte_hex_def del: of_nat_add of_nat_mult)
qed

lemma lower_hex_pairs:
  "even (length s) \<Longrightarrow> CHR ''+'' \<notin> set s \<Longrightarrow> hex_pairs s = Inr bs \<Longrightarrow> to_ascii_lowercase s = hex_of bs"
proof (induction s arbitrary: bs rule: hex_pairs.induct)
  case (1 a b s)
  obtain x y cs where xy: "to_digit 16 a = Some x" "to_digit 16 b = Some y" "hex_pairs s = Inr cs"
      and bs: "bs = of_nat (x * 16 + y) # cs"
    using 1(3,4) by (auto simp: from_str_radix_pair split: if_splits option.splits sum.splits)
  have "to_ascii_lowercase s = hex_of cs"
    using 1(1) [OF _ _ _ _ xy(3)] 1(2-4) xy by (auto simp: from_str_radix_pair split: if_splits)
  then show ?case
    using lower_digit [OF xy(1)] lower_digit [OF xy(2)] to_digit_lt [OF xy(1)] to_digit_lt [OF xy(2)] bs
    by (simp add: to_ascii_lowercase_def byte_hex_pair del: of_nat_add of_nat_mult)
qed (simp_all add: to_ascii_lowercase_def)

lemma ascii_hex_pairs: "even (length s) \<Longrightarrow> hex_pairs s = Inr bs \<Longrightarrow> is_ascii s"
proof (induction s arbitrary: bs rule: hex_pairs.induct)
  case (1 a b s)
  then obtain cs where "hex_pairs s = Inr cs" "\<exists>v. from_str_radix 8 16 [a, b] = Some v"
    by (auto split: if_splits option.splits sum.splits)
  moreover have "is_ascii s" using 1 calculation by (auto split: if_splits)
  ultimately show ?case
    using is_digit_ascii [of 16 a] is_digit_ascii [of 16 b]
    by (auto simp: is_ascii_def is_digit_def from_str_radix_pair split: if_splits option.splits)
qed (simp_all add: is_ascii_def)

lemma take_hex_of: "take (2 * n) (hex_of bs) = hex_of (take n bs)"
proof (induction bs arbitrary: n)
  case (Cons b bs)
  then show ?case by (cases n) (simp_all add: byte_hex_def)
qed simp

lemma drop_hex_of: "drop (2 * n) (hex_of bs) = hex_of (drop n bs)"
proof (induction bs arbitrary: n)
  case (Cons b bs)
  then show ?case by (cases n) (simp_all add: byte_hex_def)
qed simp

lemma hex_of_inject: "hex_of as = hex_of bs \<longleftrightarrow> as = bs"
  using hex_pairs_to_hex by (metis sum.inject(2))

lemma hex_of_all_digits: "list_all (is_digit 16) (hex_of bs)"
  by (induction bs) (simp_all add: byte_hex_def is_digit_def)

lemma word_hex_of: "word_text (hex_of bs) i = hex_of (take 32 (drop (4 + 32 * i) bs))"
proof -
  let ?n = "length bs"
  have "take 64 (drop (2 * (4 + 32 * i)) (hex_of bs)) = hex_of (take 32 (drop (4 + 32 * i) bs))"
    unfolding drop_hex_of using take_hex_of [of 32] by simp
  moreover have "word_text (hex_of bs) i = take 64 (drop (2 * (4 + 32 * i)) (hex_of bs))"
  proof (cases "8 + i * 64 \<le> 2 * ?n")
    case True
    then show ?thesis by (auto simp: word_text_def subslice_def Let_def min_def algebra_simps)
  next
    case False
    then show ?thesis by (simp add: word_text_def subslice_def Let_def min_def algebra_simps)
  qed
  ultimately show ?thesis by simp
qed

lemma parse_hex_of: "\<exists>ds. parse_digits 16 (hex_of bs) = Some ds \<and> digits_value 16 ds = nat_of_be bs"
proof (induction bs rule: rev_induct)
  case Nil
  then show ?case by simp
next
  case (snoc b bs)
  then obtain ds where ds: "parse_digits 16 (hex_of bs) = Some ds" "digits_value 16 ds = nat_of_be bs" by blast
  have app: "parse_digits 16 (s @ t) = (case (parse_digits 16 s, parse_digits 16 t) of
      (Some a, Some b) \<Rightarrow> Some (a @ b) | _ \<Rightarrow> None)" for s t
    by (induction s) (auto split: option.splits)
  have "parse_digits 16 (byte_hex b) = Some [unat b div 16, unat b mod 16]" by (simp add: byte_hex_def)
  then have "parse_digits 16 (hex_of (bs @ [b])) = Some ((ds @ [unat b div 16]) @ [unat b mod 16])"
    using ds(1) by (simp add: app)
  moreover have "digits_value 16 ((ds @ [unat b div 16]) @ [unat b mod 16]) = nat_of_be (bs @ [b])"
    unfolding digits_value_snoc ds(2) by (simp add: algebra_simps)
  ultimately show ?case by blast
qed

lemma from_str_radix_hex_of:
  assumes "bs \<noteq> []" and "length bs \<le> 32"
  shows "from_str_radix 256 16 (hex_of bs) = Some (nat_of_be bs)"
proof -
  obtain ds where ds: "parse_digits 16 (hex_of bs) = Some ds" "digits_value 16 ds = nat_of_be bs"
    using parse_hex_of by blast
  have "nat_of_be bs < 256 ^ length bs" by (rule nat_of_be_bound)
  also have "\<dots> \<le> 256 ^ 32" using assms(2) by (intro power_increasing) simp_all
  finally have "nat_of_be bs < 2 ^ 256" by simp
  moreover obtain c r where "hex_of bs = c # r" "c \<noteq> CHR ''+''"
    using assms(1) by (cases bs) (simp_all add: byte_hex_def)
  ultimately show ?thesis using ds by (simp add: from_str_radix_def Let_def)
qed

lemma big_from_hex_of:
  assumes "guard_contract E" and "length ws \<le> 32"
  shows "big_from_word E (hex_of ws) = Some (nat_of_be (ws @ zeros (32 - length ws)))"
proof (cases "ws = []")
  case True
  have "nat_of_be (zeros n) = 0" for n by (induction n) (simp_all add: nat_of_be_snoc flip: replicate_append_same)
  with True show ?thesis by (simp add: big_from_word_def)
next
  case False
  then have ne: "hex_of ws \<noteq> []" by (cases ws) (simp_all add: byte_hex_def)
  have z: "replicate (2 * k) (CHR ''0'') = hex_of (zeros k)" for k
    by (induction k) (simp_all add: byte_hex_def hex_digit_0)
  have "replicate (64 - length (hex_of ws)) (CHR ''0'') = hex_of (zeros (32 - length ws))"
    using z [of "32 - length ws"] by (simp add: algebra_simps)
  then have "hex_of ws @ replicate (64 - length (hex_of ws)) (CHR ''0'') = hex_of (ws @ zeros (32 - length ws))"
    by simp
  moreover have "from_str_radix 256 16 (hex_of (ws @ zeros (32 - length ws))) = Some (nat_of_be (ws @ zeros (32 - length ws)))"
    by (rule from_str_radix_hex_of) (use False assms(2) in simp_all)
  moreover have "ge_u256_parse E (hex_of (ws @ zeros (32 - length ws))) 16
      = from_str_radix 256 16 (hex_of (ws @ zeros (32 - length ws)))"
    by (rule guard_contractD(1) [OF assms(1) _ _ hex_of_all_digits]) (use ne in simp_all)
  ultimately have parsed: "ge_u256_parse E (hex_of ws @ replicate (64 - length (hex_of ws)) (CHR ''0'')) 16
      = Some (nat_of_be (ws @ zeros (32 - length ws)))" by (simp only:)
  have "list_all is_ascii_hexdigit (hex_of ws)" using hex_of_all_digits [of ws] by (simp only: is_ascii_hexdigit_def [abs_def])
  with ne parsed show ?thesis by (simp only: big_from_word_def if_False simp_thms)
qed

lemma parse_dec_show:
  assumes "guard_contract E" and "n < 2 ^ 256"
  shows "ge_u256_parse E (show_nat n) 10 = Some n" and "parse_dec_u256 E (show_nat n) = Some n"
    and "parse_signed_dec E (show_nat n) = \<lparr>bv_neg = False, bv_mag = n\<rparr>"
proof -
  have d: "list_all (is_digit 10) (show_nat n)"
    using show_nat_digits [of _ n] by (simp add: list_all_iff is_ascii_digit_def)
  show g: "ge_u256_parse E (show_nat n) 10 = Some n"
    using guard_contractD(1) [OF assms(1), of 10 "show_nat n"] d show_nat_nonempty [of n]
      from_str_radix_show [of 10 n 256] assms(2) by (simp add: show_nat_def)
  show "parse_dec_u256 E (show_nat n) = Some n"
    using g d show_nat_nonempty [of n] by (simp add: parse_dec_u256_def is_ascii_digit_def [abs_def])
  have no: "strip_prefix_ci (show_nat n) [CHR ''0'', c] = None" if "c \<in> set ''xbo''" for c
  proof (rule ccontr)
    assume *: "strip_prefix_ci (show_nat n) [CHR ''0'', c] \<noteq> None"
    obtain a b r where n: "show_nat n = a # b # r"
      using * by (cases "show_nat n" rule: list.exhaust; cases "tl (show_nat n)")
        (auto simp: strip_prefix_ci_def str_slice_def subslice_def split: option.splits if_splits)
    then have "to_ascii_lowercase_char b = to_ascii_lowercase_char c"
      using * by (auto simp: strip_prefix_ci_def str_slice_def subslice_def eq_ignore_ascii_case_def to_ascii_lowercase_def
          numeral_2_eq_2 split: option.splits if_splits)
    moreover have "is_digit 10 b" using d n by simp
    ultimately show False using that
      by (auto simp: is_digit_def to_digit_def Let_def to_ascii_lowercase_char_def split: if_splits)
  qed
  have "radix_of (show_nat n) = None" by (simp add: radix_of_def no)
  moreover have "strip_prefix (show_nat n) ''-'' = None"
  proof (cases "show_nat n")
    case (Cons a r)
    then have "is_digit 10 a" using d by simp
    then have "a \<noteq> CHR ''-''" by (auto simp: is_digit_def to_digit_def Let_def)
    with Cons show ?thesis by (simp add: strip_prefix_def starts_with_def)
  qed (use show_nat_nonempty [of n] in simp)
  ultimately show "parse_signed_dec E (show_nat n) = \<lparr>bv_neg = False, bv_mag = n\<rparr>"
    using g d show_nat_nonempty [of n]
    by (simp add: parse_signed_dec_def str_to_big_def parse_dec_saturating_def is_ascii_digit_def [abs_def])
qed

section \<open>What the bytes of a call grant\<close>

text \<open>
  The reference reads the bytes as the chain does: the selector, and the 32-byte words of the arguments, with
  zeros past the end of the data.
\<close>

definition argument :: "bytes \<Rightarrow> nat \<Rightarrow> nat" where
  "argument bs i = nat_of_be (take 32 (drop (4 + 32 * i) bs @ zeros 32))"

definition sel_approve :: bytes where "sel_approve = [0x09, 0x5e, 0xa7, 0xb3]"
definition sel_increase :: bytes where "sel_increase = [0x39, 0x50, 0x93, 0x51]"
definition sel_decrease :: bytes where "sel_decrease = [0xa4, 0x57, 0xc2, 0xd7]"
definition sel_for_all :: bytes where "sel_for_all = [0xa2, 0x2c, 0xb4, 0x65]"
definition sel_permit2 :: bytes where "sel_permit2 = [0x87, 0x51, 0x7c, 0x45]"

lemmas selector_bytes_defs = sel_approve_def sel_increase_def sel_decrease_def sel_for_all_def sel_permit2_def

definition grants_unbounded :: "bytes \<Rightarrow> bool" where
  "grants_unbounded bs \<longleftrightarrow>
     (take 4 bs = sel_approve \<or> take 4 bs = sel_increase) \<and> 2 ^ 200 \<le> argument bs 1
     \<or> take 4 bs = sel_permit2 \<and> 2 ^ 152 \<le> argument bs 2"

lemma selector_texts:
  "hex_of sel_approve = SEL_APPROVE" "hex_of sel_increase = SEL_INCREASE_ALLOWANCE"
  "hex_of sel_decrease = SEL_DECREASE_ALLOWANCE" "hex_of sel_for_all = SEL_SET_APPROVAL_FOR_ALL"
  "hex_of sel_permit2 = SEL_PERMIT2_APPROVE"
  by code_simp+

lemma selectors_distinct:
  "distinct [sel_approve, sel_increase, sel_decrease, sel_permit2, sel_for_all]"
  by (simp add: selector_bytes_defs)

lemma argument_bound: "argument bs i < 2 ^ 256"
proof -
  have "argument bs i < 256 ^ length (take 32 (drop (4 + 32 * i) bs @ zeros 32))"
    unfolding argument_def by (rule nat_of_be_bound)
  also have "\<dots> \<le> 256 ^ 32" by (intro power_increasing) simp_all
  finally show ?thesis by simp
qed

lemma big_from_argument:
  assumes "guard_contract E"
  shows "big_from_word E (word_text (hex_of bs) i) = Some (argument bs i)"
proof -
  have "take 32 (drop (4 + 32 * i) bs @ zeros 32)
      = take 32 (drop (4 + 32 * i) bs) @ zeros (32 - length (take 32 (drop (4 + 32 * i) bs)))"
    by (auto simp: min_def)
  then show ?thesis
    unfolding word_hex_of argument_def by (subst big_from_hex_of [OF assms]) simp_all
qed

lemma stripped_subset: "set (unwrap_or (strip_prefix data ''0x'') data) \<subseteq> set data"
proof (cases "strip_prefix data ''0x''")
  case (Some r)
  have "unwrap_or (strip_prefix data ''0x'') data = r" by (simp only: Some unwrap_or_simps)
  moreover have "data = ''0x'' @ r" using Some by (simp only: strip_prefix_Some)
  ultimately show ?thesis by auto
qed simp

text \<open>Text the hexadecimal decoder accepts, with no \<open>+\<close> in it, is in lower case the text of its bytes.\<close>

lemma decoded_text:
  assumes "from_hex data = Inr bs" and "CHR ''+'' \<notin> set data"
  shows "is_ascii (unwrap_or (strip_prefix data ''0x'') data)"
    and "to_ascii_lowercase (unwrap_or (strip_prefix data ''0x'') data) = hex_of bs"
    and "length (unwrap_or (strip_prefix data ''0x'') data) = 2 * length bs"
proof -
  let ?s = "unwrap_or (strip_prefix data ''0x'') data"
  have s: "even (length ?s)" "hex_pairs ?s = Inr bs" using assms(1) by (auto simp: from_hex_def Let_def split: if_splits)
  have "set ?s \<subseteq> set data" by (rule stripped_subset)
  with assms(2) have "CHR ''+'' \<notin> set ?s" by blast
  from lower_hex_pairs [OF s(1) this s(2)] show l: "to_ascii_lowercase ?s = hex_of bs" .
  show "is_ascii ?s" using s by (rule ascii_hex_pairs)
  show "length ?s = 2 * length bs" using arg_cong [OF l, of length] by (simp add: to_ascii_lowercase_def del: length_map) (simp add: to_ascii_lowercase_def)
qed

lemma short_data: "from_hex [] = Inr []" "from_hex ''0x'' = Inr []"
  by (simp_all add: from_hex_def strip_prefix_def starts_with_def)

lemma take_4_short: "length bs < 4 \<Longrightarrow> take 4 bs \<noteq> sel_approve \<and> take 4 bs \<noteq> sel_increase \<and> take 4 bs \<noteq> sel_permit2
    \<and> take 4 bs \<noteq> sel_decrease \<and> take 4 bs \<noteq> sel_for_all"
  by (auto simp: selector_bytes_defs dest: arg_cong [of _ _ length])

definition detected_bytes :: "'td guard_env \<Rightarrow> string option \<Rightarrow> bytes \<Rightarrow> detected_approval option" where
  "detected_bytes E to bs =
     (let sel = take 4 bs; word = word_text (hex_of bs); token = map_option (ge_lowercase E) to
      in if sel = sel_approve then
           Some (amount_approval E Erc20Approve token (addr_from_word (word 0)) (argument bs 1) 256
             (2 ^ 200 \<le> argument bs 1) (argument bs 1 = 0) None 1)
         else if sel = sel_increase then
           Some (amount_approval E IncreaseAllowance token (addr_from_word (word 0)) (argument bs 1) 256
             (2 ^ 200 \<le> argument bs 1) False None 1)
         else if sel = sel_decrease then
           Some (amount_approval E DecreaseAllowance token (addr_from_word (word 0)) (argument bs 1) 256 False True None 1)
         else if sel = sel_permit2 then
           Some (amount_approval E Permit2Single
             (if addr_from_word (word 0) = ''0x'' then None else Some (addr_from_word (word 0)))
             (addr_from_word (word 1)) (argument bs 2) 160 (2 ^ 152 \<le> argument bs 2) (argument bs 2 = 0)
             (Some (ge_u256_dec E (argument bs 3))) 2)
         else if sel = sel_for_all then
           Some \<lparr>da_kind = SetApprovalForAll, da_token_address = token, da_spender = addr_from_word (word 0),
             da_amount_raw = None, da_amount_bits = None, da_is_unbounded = (argument bs 1 \<noteq> 0), da_is_boolean_grant = True,
             da_is_reducing = (argument bs 1 = 0), da_editable = True, da_block_reason = None, da_deadline = None,
             da_locus = CalldataWord 1\<rparr>
         else None)"

lemma cap_values:
  "is_unbounded_amount n B256 = (2 ^ 200 \<le> n)" "is_unbounded_amount n B160 = (2 ^ 152 \<le> n)"
  "bits_from_wire (Some 256) = B256" "bits_from_wire (Some 160) = B160"
  by (simp_all only: is_unbounded_amount_def cap_for_bits.simps UNLIMITED_CAP_256_def UNLIMITED_CAP_160_def)
    (simp_all add: bits_from_wire_def)

text \<open>The detection reads the bytes that will be sent.\<close>

lemma detect_reads_bytes:
  assumes "guard_contract E" and "from_hex data = Inr bs" and "CHR ''+'' \<notin> set data"
  shows "detect_calldata_approval E to (Some data) = detected_bytes E to bs"
proof (cases "length bs < 4")
  case True
  then have "detected_bytes E to bs = None" using take_4_short [OF True] by (simp add: detected_bytes_def Let_def)
  moreover have "detect_calldata_approval E to (Some data) = None"
    using decoded_text [OF assms(2,3)] True by (simp add: detect_calldata_approval_def Let_def)
  ultimately show ?thesis by simp
next
  case False
  have ne: "data \<noteq> []" "data \<noteq> ''0x''" using assms(2) short_data False by auto
  have sel: "take 8 (hex_of bs) = hex_of (take 4 bs)" using take_hex_of [of 4 bs] by simp
  have eq: "(hex_of (take 4 bs) = SEL_APPROVE) = (take 4 bs = sel_approve)"
    "(hex_of (take 4 bs) = SEL_INCREASE_ALLOWANCE) = (take 4 bs = sel_increase)"
    "(hex_of (take 4 bs) = SEL_DECREASE_ALLOWANCE) = (take 4 bs = sel_decrease)"
    "(hex_of (take 4 bs) = SEL_PERMIT2_APPROVE) = (take 4 bs = sel_permit2)"
    "(hex_of (take 4 bs) = SEL_SET_APPROVAL_FOR_ALL) = (take 4 bs = sel_for_all)"
    unfolding selector_texts [symmetric] hex_of_inject by (rule refl)+
  have len: "\<not> length (hex_of bs) < 8" using False by simp
  show ?thesis
    unfolding detect_calldata_approval_def detected_bytes_def Let_def option.case decoded_text(2) [OF assms(2,3)] sel eq
      big_from_argument [OF assms(1)] cap_values bind.bind_lunit option.map
    using ne decoded_text(1) [OF assms(2,3)] len by (simp only: if_False simp_thms not_not if_True)
qed

section \<open>What the check at submit refuses\<close>

lemma amount_approval_simps [simp]:
  "da_kind (amount_approval E k t s a b u r d i) = k" "da_amount_raw (amount_approval E k t s a b u r d i) = Some (ge_u256_dec E a)"
  "da_amount_bits (amount_approval E k t s a b u r d i) = Some b" "da_is_unbounded (amount_approval E k t s a b u r d i) = u"
  "da_is_boolean_grant (amount_approval E k t s a b u r d i) = False" "da_is_reducing (amount_approval E k t s a b u r d i) = r"
  "da_locus (amount_approval E k t s a b u r d i) = CalldataWord i"
  by (simp_all add: amount_approval_def)

lemma detect_send:
  assumes "as_object tx \<noteq> None" and "get tx ''data'' = Some (String data)"
  shows "detect_approval E ''eth_sendTransaction'' (Some (Array (tx # rest)))
    = detect_calldata_approval E (Option.bind (get tx ''to'') as_str) (Some data)"
  using assms by (auto simp: detect_approval_def)

lemma dec_unbounded:
  assumes "guard_contract E"
  shows "parse_signed_dec E (ge_u256_dec E (argument bs i)) = \<lparr>bv_neg = False, bv_mag = argument bs i\<rparr>"
  using parse_dec_show(3) [OF assms argument_bound] guard_contractD(2) [OF assms argument_bound] by simp

text \<open>
  The verdict of the check on what was detected. Its amount is the word of the call, written and read again.
\<close>

lemma verdict_of_bytes:
  assumes "guard_contract E" and "detect_approval E m params = detected_bytes E to bs"
  shows "(\<exists>r. enforce_no_unlimited E m params = Inl r) \<longleftrightarrow> grants_unbounded bs"
proof -
  note e = enforce_no_unlimited_def assms(2) detected_bytes_def Let_def grants_unbounded_def
  note dec = dec_unbounded [OF assms(1)]
  have d: "sel_increase \<noteq> sel_approve" "sel_decrease \<noteq> sel_approve" "sel_permit2 \<noteq> sel_approve" "sel_for_all \<noteq> sel_approve"
    "sel_decrease \<noteq> sel_increase" "sel_permit2 \<noteq> sel_increase" "sel_for_all \<noteq> sel_increase"
    "sel_permit2 \<noteq> sel_decrease" "sel_for_all \<noteq> sel_decrease" "sel_for_all \<noteq> sel_permit2"
    by (simp_all add: selector_bytes_defs)
  consider "take 4 bs = sel_approve" | "take 4 bs = sel_increase" | "take 4 bs = sel_decrease" | "take 4 bs = sel_permit2"
    | "take 4 bs = sel_for_all"
    | "take 4 bs \<notin> {sel_approve, sel_increase, sel_decrease, sel_permit2, sel_for_all}" by blast
  then show ?thesis
  proof cases
    case 1
    show ?thesis unfolding e 1 using d [symmetric] by (simp add: dec cap_values)
  next
    case 2
    show ?thesis unfolding e 2 using d d [symmetric] by (simp add: dec cap_values)
  next
    case 3
    show ?thesis unfolding e 3 using d d [symmetric] by simp
  next
    case 4
    show ?thesis unfolding e 4 using d d [symmetric] by (simp add: dec cap_values)
  next
    case 5
    show ?thesis unfolding e 5 using d d [symmetric] by simp
  next
    case 6
    then show ?thesis by (simp add: e)
  qed
qed

section \<open>Re-encoding one word\<close>

lemma hex_pairs_append:
  "even (length s) \<Longrightarrow> hex_pairs (s @ t) =
     (case hex_pairs s of Inl e \<Rightarrow> Inl e | Inr as \<Rightarrow> map_sum id ((@) as) (hex_pairs t))"
proof (induction s rule: hex_pairs.induct)
  case (1 a b s)
  show ?case
  proof (cases "\<exists>v. utf8_pair a b \<and> from_str_radix 8 16 [a, b] = Some v")
    case True
    then obtain v where v: "utf8_pair a b" "from_str_radix 8 16 [a, b] = Some v" by blast
    then have "hex_pairs (s @ t) = (case hex_pairs s of Inl e \<Rightarrow> Inl e | Inr as \<Rightarrow> map_sum id ((@) as) (hex_pairs t))"
      using 1 by simp
    with v show ?thesis by (cases "hex_pairs s"; cases "hex_pairs t") simp_all
  qed (auto split: option.splits)
qed (cases "hex_pairs t"; simp)+

lemma hex_pairs_len: "hex_pairs s = Inr bs \<Longrightarrow> length bs = length s div 2"
  by (induction s arbitrary: bs rule: hex_pairs.induct) (auto split: if_splits option.splits sum.splits)

lemma hex_pairs_split:
  assumes "hex_pairs s = Inr bs" and "even (length s)" and "2 * n \<le> length s"
  shows "hex_pairs (take (2 * n) s) = Inr (take n bs)" and "hex_pairs (drop (2 * n) s) = Inr (drop n bs)"
proof -
  have e: "even (length (take (2 * n) s))" using assms(2,3) by simp
  obtain as cs where *: "hex_pairs (take (2 * n) s) = Inr as" "hex_pairs (drop (2 * n) s) = Inr cs" "bs = as @ cs"
    using assms(1) hex_pairs_append [OF e, of "drop (2 * n) s"]
    by (cases "hex_pairs (take (2 * n) s)"; cases "hex_pairs (drop (2 * n) s)") simp_all
  have "length as = n" using hex_pairs_len [OF *(1)] assms(3) by simp
  with * show "hex_pairs (take (2 * n) s) = Inr (take n bs)" and "hex_pairs (drop (2 * n) s) = Inr (drop n bs)" by simp_all
qed

definition with_word :: "bytes \<Rightarrow> nat \<Rightarrow> nat \<Rightarrow> bytes" where
  "with_word bs i n = take (4 + 32 * i) bs @ be_of_nat 32 n @ drop (36 + 32 * i) bs"

lemma with_word_facts:
  assumes "36 + 32 * i \<le> length bs" and "n < 2 ^ 256"
  shows "length (with_word bs i n) = length bs" and "take 4 (with_word bs i n) = take 4 bs"
    and "argument (with_word bs i n) i = n" and "n = argument bs i \<Longrightarrow> with_word bs i n = bs"
proof -
  show "length (with_word bs i n) = length bs" using assms(1) by (simp add: with_word_def)
  show "take 4 (with_word bs i n) = take 4 bs" using assms(1) by (simp add: with_word_def take_append min_def)
  have "drop (4 + 32 * i) (with_word bs i n) = be_of_nat 32 n @ drop (36 + 32 * i) bs"
    using assms(1) by (simp add: with_word_def)
  then show "argument (with_word bs i n) i = n"
    using assms(2) by (simp add: argument_def nat_of_be_be_of_nat_id)
  assume "n = argument bs i"
  moreover have w: "length (take 32 (drop (4 + 32 * i) bs)) = 32" using assms(1) by simp
  have "take 32 (drop (4 + 32 * i) bs @ zeros 32) = take 32 (drop (4 + 32 * i) bs)" using assms(1) by simp
  ultimately have "be_of_nat 32 n = take 32 (drop (4 + 32 * i) bs)"
    using be_of_nat_nat_of_be [of "take 32 (drop (4 + 32 * i) bs)"] w by (simp add: argument_def)
  moreover have "drop (36 + 32 * i) bs = drop 32 (drop (4 + 32 * i) bs)" by (simp add: add.commute)
  ultimately show "with_word bs i n = bs" by (simp only: with_word_def append_take_drop_id)
qed

lemma word_rewritten:
  assumes "guard_contract E" and "from_hex data = Inr bs" and "n < 2 ^ 256"
    and "36 + 32 * i \<le> length bs"
    and "hex = unwrap_or (strip_prefix data ''0x'') data"
    and "out = ''0x'' @ take 8 hex @ subslice 8 (8 + i * 64) hex @ ge_u256_hex64 E n @ drop (8 + i * 64 + 64) hex"
  shows "from_hex out = Inr (with_word bs i n)"
proof -
  have s: "even (length hex)" "hex_pairs hex = Inr bs" using assms(2,5) by (auto simp: from_hex_def Let_def split: if_splits)
  have len: "length hex = 2 * length bs" using hex_pairs_len [OF s(2)] s(1) by simp
  have head: "take 8 hex @ subslice 8 (8 + i * 64) hex = take (2 * (4 + 32 * i)) hex"
    using take_take_drop [of 8 hex "i * 64"] by (simp add: subslice_def algebra_simps)
  have tail: "drop (8 + i * 64 + 64) hex = drop (2 * (36 + 32 * i)) hex" by (simp add: algebra_simps)
  have out: "out = ''0x'' @ take (2 * (4 + 32 * i)) hex @ hex_of (be_of_nat 32 n) @ drop (2 * (36 + 32 * i)) hex"
    unfolding assms(6) guard_contractD(3) [OF assms(1,3)] tail by (metis append.assoc head)
  have "hex_pairs (take (2 * (4 + 32 * i)) hex) = Inr (take (4 + 32 * i) bs)"
    "hex_pairs (drop (2 * (36 + 32 * i)) hex) = Inr (drop (36 + 32 * i) bs)"
    by (rule hex_pairs_split [OF s(2,1)]; use len assms(4) in simp)+
  then have "hex_pairs (take (2 * (4 + 32 * i)) hex @ hex_of (be_of_nat 32 n) @ drop (2 * (36 + 32 * i)) hex) = Inr (with_word bs i n)"
    using len assms(4) by (simp add: hex_pairs_append hex_pairs_to_hex with_word_def)
  moreover have "strip_prefix out ''0x'' = Some (take (2 * (4 + 32 * i)) hex @ hex_of (be_of_nat 32 n) @ drop (2 * (36 + 32 * i)) hex)"
    unfolding out by (simp add: strip_prefix_def starts_with_def)
  moreover have "length (take (2 * (4 + 32 * i)) hex @ hex_of (be_of_nat 32 n) @ drop (2 * (36 + 32 * i)) hex) mod 2 = 0"
    using len assms(4) by simp
  ultimately show ?thesis by (simp only: from_hex_def Let_def unwrap_or_simps) simp
qed

section \<open>Properties\<close>

text \<open>
  C4: an unbounded allowance does not pass. For a transaction whose data decodes and is written without a plus
  sign, the check at submit refuses exactly when the bytes that will be sent approve or increase an allowance
  by at least \<open>2 ^ 200\<close>, or approve one of Permit2 of at least \<open>2 ^ 152\<close>, the amount read as the chain reads it.
\<close>

theorem unbounded_refused_exactly:
  assumes "guard_contract E" and "as_object tx \<noteq> None" and "get tx ''data'' = Some (String data)"
    and "from_hex data = Inr bs" and "CHR ''+'' \<notin> set data"
  shows "(\<exists>r. enforce_no_unlimited E ''eth_sendTransaction'' (Some (Array (tx # rest))) = Inl r) \<longleftrightarrow> grants_unbounded bs"
  by (rule verdict_of_bytes [OF assms(1)]) (simp add: detect_send [OF assms(2,3)] detect_reads_bytes [OF assms(1,4,5)])

definition example_guard_env :: "json guard_env" where
  "example_guard_env = \<lparr>ge_u256_parse = (\<lambda>s r. from_str_radix 256 r s), ge_u256_dec = show_nat,
     ge_u256_hex64 = (\<lambda>n. hex_of (be_of_nat 32 n)), ge_lowercase = to_ascii_lowercase, ge_typed = example_typed_env\<rparr>"

lemma example_guard_contract: "guard_contract example_guard_env"
  by (simp add: guard_contract_def example_guard_env_def)

definition APPROVE_MAX :: bytes where
  "APPROVE_MAX = sel_approve @ replicate 32 0x11 @ be_of_nat 32 (2 ^ 256 - 1)"

definition approve_max_tx :: json where
  "approve_max_tx = Object [(''data'', String (to_hex APPROVE_MAX True))]"

lemma hex_of_no_plus: "CHR ''+'' \<notin> set (hex_of bs)"
proof
  assume "CHR ''+'' \<in> set (hex_of bs)"
  then have "is_digit 16 (CHR ''+'')" using hex_of_all_digits [of bs] by (simp only: list_all_iff)
  then show False by (simp add: is_digit_def to_digit_def Let_def)
qed

lemma to_hex_no_plus: "CHR ''+'' \<notin> set (to_hex bs p)"
  using hex_of_no_plus [of bs] by (simp only: to_hex_def) auto

lemma approve_max_unbounded: "grants_unbounded APPROVE_MAX"
proof -
  have "take 4 (sel_approve @ x) = sel_approve" for x by (simp add: sel_approve_def)
  then have t: "take 4 APPROVE_MAX = sel_approve" by (simp only: APPROVE_MAX_def)
  have "drop 36 (sel_approve @ replicate 32 0x11 @ x) = x" for x :: bytes by (simp add: sel_approve_def)
  then have d: "drop (4 + 32 * 1) APPROVE_MAX = be_of_nat 32 (2 ^ 256 - 1)" unfolding APPROVE_MAX_def by simp
  have "argument APPROVE_MAX 1 = nat_of_be (be_of_nat 32 (2 ^ 256 - 1))" unfolding argument_def d by (simp only: take_append_exact length_be_of_nat)
  also have "\<dots> = 2 ^ 256 - 1" by (rule nat_of_be_be_of_nat_id) simp
  finally have "2 ^ 200 \<le> argument APPROVE_MAX 1" by simp
  with t show ?thesis by (simp only: grants_unbounded_def simp_thms)
qed

theorem unbounded_refused_exactly_witness:
  "\<exists>r. enforce_no_unlimited example_guard_env ''eth_sendTransaction'' (Some (Array [approve_max_tx])) = Inl r"
  using unbounded_refused_exactly [OF example_guard_contract _ _ from_hex_to_hex to_hex_no_plus, of approve_max_tx APPROVE_MAX True "[]"]
    approve_max_unbounded by (simp add: approve_max_tx_def)

definition word_chosen :: "'td guard_env \<Rightarrow> detected_approval \<Rightarrow> guard_choice \<Rightarrow> rewrite_error + string" where
  "word_chosen E d choice =
     (if da_kind d = SetApprovalForAll
      then (case choice of Amount _ \<Rightarrow> Inl AmountForBooleanShape | Unlimited \<Rightarrow> Inl AmountForBooleanShape
          | Grant \<Rightarrow> Inr (ge_u256_hex64 E 1) | Revoke \<Rightarrow> Inr (ge_u256_hex64 E 0))
      else map_sum (\<lambda>e. e) (ge_u256_hex64 E) (chosen_amount E d choice))"

lemma parse_dec_u256_bound:
  assumes "guard_contract E" and "parse_dec_u256 E s = Some n"
  shows "n < 2 ^ 256"
proof -
  have "s \<noteq> []" "list_all (is_digit 10) s" "ge_u256_parse E s 10 = Some n"
    using assms(2) by (auto simp: parse_dec_u256_def is_ascii_digit_def [abs_def] split: if_splits)
  then have "from_str_radix 256 10 s = Some n" using guard_contractD(1) [OF assms(1), of 10 s] by simp
  then show ?thesis by (rule from_str_radix_bound)
qed

lemma chosen_amount_bound:
  assumes "guard_contract E" and "chosen_amount E d choice = Inr n"
  shows "n < 2 ^ 256"
proof (cases choice)
  case (Amount s)
  then have "parse_dec_u256 E s = Some n" using assms(2) by (auto simp: chosen_amount_def split: option.splits if_splits)
  with assms(1) show ?thesis by (rule parse_dec_u256_bound)
next
  case Unlimited
  then obtain s where "parse_dec_u256 E s = Some n"
    using assms(2) by (auto simp: chosen_amount_def split: option.splits if_splits Option.bind_split_asm)
  with assms(1) show ?thesis by (rule parse_dec_u256_bound)
qed (use assms(2) in \<open>auto simp: chosen_amount_def split: if_splits\<close>)

lemma word_chosen_number:
  assumes "guard_contract E" and "word_chosen E d choice = Inr w"
  shows "\<exists>n. n < 2 ^ 256 \<and> w = ge_u256_hex64 E n
    \<and> (if da_kind d = SetApprovalForAll then choice = Revoke \<and> n = 0 \<or> choice = Grant \<and> n = 1 else chosen_amount E d choice = Inr n)"
proof (cases "da_kind d = SetApprovalForAll")
  case True
  then show ?thesis using assms(2) by (cases choice) (auto simp: word_chosen_def intro: exI [of _ 0] exI [of _ 1])
next
  case False
  then obtain n where "chosen_amount E d choice = Inr n" "w = ge_u256_hex64 E n"
    using assms(2) by (cases "chosen_amount E d choice") (auto simp: word_chosen_def)
  with False chosen_amount_bound [OF assms(1)] show ?thesis by auto
qed

lemma rewrite_one_word:
  assumes "guard_contract E" and "from_hex data = Inr bs" and "CHR ''+'' \<notin> set data"
    and "detect_calldata_approval E to (Some data) = Some d" and "rewrite_calldata E data d choice = Inr out"
  shows "\<exists>i n. da_locus d = CalldataWord i \<and> from_hex out = Inr (with_word bs (unat i) n)
    \<and> (choice = Revoke \<longrightarrow> n = 0) \<and> (choice = Grant \<longrightarrow> n = 1)
    \<and> (\<forall>s. choice = Amount s \<longrightarrow> parse_dec_u256 E s = Some n \<and> \<not> is_unbounded_amount n (bits_from_wire (da_amount_bits d)))
    \<and> (choice = Unlimited \<longrightarrow> with_word bs (unat i) n = bs)
    \<and> (choice \<noteq> Unlimited \<longrightarrow> \<not> grants_unbounded (with_word bs (unat i) n))"
proof -
  have det: "detected_bytes E to bs = Some d" using assms(4) detect_reads_bytes [OF assms(1-3)] by metis
  define hex where "hex = unwrap_or (strip_prefix data ''0x'') data"
  obtain i where i: "da_locus d = CalldataWord i" "unat i = 1 \<or> unat i = 2"
    "da_kind d \<noteq> SetApprovalForAll \<Longrightarrow> da_amount_raw d = Some (ge_u256_dec E (argument bs (unat i))) \<and> \<not> da_is_boolean_grant d"
    using det by (auto simp: detected_bytes_def Let_def amount_approval_def split: if_splits)
  have shape: "take 4 bs = sel_approve \<or> take 4 bs = sel_increase \<Longrightarrow> da_amount_bits d = Some 256 \<and> unat i = 1 \<and> da_kind d \<noteq> SetApprovalForAll"
    "take 4 bs = sel_permit2 \<Longrightarrow> da_amount_bits d = Some 160 \<and> unat i = 2 \<and> da_kind d \<noteq> SetApprovalForAll"
    using det i(1) by (auto simp: detected_bytes_def Let_def amount_approval_def selector_bytes_defs)
  have call: "rewrite_calldata E data d choice =
     (if \<not> is_ascii hex then Inl RewriteMalformedParams
      else if length hex < 8 + unat i * 64 + 64 then Inl CalldataTooShort
      else try_with (word_chosen E d choice) (\<lambda>w. try_with
        (assert_only_word_changed data (''0x'' @ take 8 hex @ subslice 8 (8 + unat i * 64) hex @ w @ drop (8 + unat i * 64 + 64) hex)
          (8 + unat i * 64) (8 + unat i * 64 + 64))
        (\<lambda>_. Inr (''0x'' @ take 8 hex @ subslice 8 (8 + unat i * 64) hex @ w @ drop (8 + unat i * 64 + 64) hex))))"
    by (simp add: rewrite_calldata_def i(1) Let_def word_chosen_def flip: hex_def)
  obtain w where len: "\<not> length hex < 8 + unat i * 64 + 64" and w: "word_chosen E d choice = Inr w"
    and out: "out = ''0x'' @ take 8 hex @ subslice 8 (8 + unat i * 64) hex @ w @ drop (8 + unat i * 64 + 64) hex"
    using assms(5) unfolding call by (auto simp: try_with_Inr split: if_splits)
  obtain n where n: "n < 2 ^ 256" "w = ge_u256_hex64 E n"
    "if da_kind d = SetApprovalForAll then choice = Revoke \<and> n = 0 \<or> choice = Grant \<and> n = 1 else chosen_amount E d choice = Inr n"
    using word_chosen_number [OF assms(1) w] by blast
  have bytes: "36 + 32 * unat i \<le> length bs"
    using len decoded_text(3) [OF assms(2,3)] by (simp flip: hex_def)
  have new: "from_hex out = Inr (with_word bs (unat i) n)"
    by (rule word_rewritten [OF assms(1,2) n(1) bytes hex_def]) (simp only: out n(2))
  note facts = with_word_facts [OF bytes n(1)]
  have amount: "parse_dec_u256 E s = Some n \<and> \<not> is_unbounded_amount n (bits_from_wire (da_amount_bits d))" if "choice = Amount s" for s
    using n(3) that by (auto simp: chosen_amount_def split: if_splits option.splits)
  have kept: "with_word bs (unat i) n = bs" if "choice = Unlimited"
  proof -
    have "da_kind d \<noteq> SetApprovalForAll" "chosen_amount E d choice = Inr n" using n(3) that by (auto split: if_splits)
    then have "parse_dec_u256 E (ge_u256_dec E (argument bs (unat i))) = Some n"
      using i(3) that by (auto simp: chosen_amount_def split: if_splits option.splits)
    then have "n = argument bs (unat i)"
      using parse_dec_show(2) [OF assms(1) argument_bound] guard_contractD(2) [OF assms(1) argument_bound] by simp
    with facts(4) show ?thesis by simp
  qed
  have small: "n = 0 \<or> n = 1 \<or> (\<exists>s. choice = Amount s)" if "choice \<noteq> Unlimited"
    using n(3) that by (cases choice) (auto simp: chosen_amount_def split: if_splits)
  have safe: "\<not> grants_unbounded (with_word bs (unat i) n)" if "choice \<noteq> Unlimited"
  proof
    assume "grants_unbounded (with_word bs (unat i) n)"
    then consider "da_amount_bits d = Some 256" "2 ^ 200 \<le> n" | "da_amount_bits d = Some 160" "2 ^ 152 \<le> n"
      unfolding grants_unbounded_def facts(2) using facts(3) shape by metis
    then have "2 \<le> n \<and> is_unbounded_amount n (bits_from_wire (da_amount_bits d))"
      by cases (simp_all only: cap_values, simp_all)
    with small [OF that] amount show False by auto
  qed
  have "choice = Revoke \<longrightarrow> n = 0" "choice = Grant \<longrightarrow> n = 1"
    using n(3) by (auto simp: chosen_amount_def split: if_splits)
  with i(1) new amount kept safe show ?thesis by blast
qed

lemma rewrite_no_plus:
  assumes "guard_contract E" and "CHR ''+'' \<notin> set data" and "rewrite_calldata E data d choice = Inr out"
  shows "CHR ''+'' \<notin> set out"
proof -
  define hex where "hex = unwrap_or (strip_prefix data ''0x'') data"
  obtain i where i: "da_locus d = CalldataWord i" using assms(3) by (cases "da_locus d") (simp_all add: rewrite_calldata_def)
  obtain w where w: "word_chosen E d choice = Inr w"
    "out = ''0x'' @ take 8 hex @ subslice 8 (8 + unat i * 64) hex @ w @ drop (8 + unat i * 64 + 64) hex"
    using assms(3) by (auto simp: rewrite_calldata_def i Let_def word_chosen_def [symmetric] try_with_Inr split: if_splits simp flip: hex_def)
  obtain n where "n < 2 ^ 256" "w = ge_u256_hex64 E n" using word_chosen_number [OF assms(1) w(1)] by blast
  then have "CHR ''+'' \<notin> set w" using guard_contractD(3) [OF assms(1)] hex_of_no_plus by metis
  moreover have "set hex \<subseteq> set data" unfolding hex_def by (rule stripped_subset)
  ultimately show ?thesis using assms(2) unfolding w(2)
    by (auto simp: subslice_def dest: in_set_takeD in_set_dropD)
qed

text \<open>
  C12: one word changes, and it is the amount. A calldata approval that is re-encoded keeps every byte but the
  amount word, which becomes zero for a revoke, one for a grant, and for an amount that amount, below the cap
  of its width; what was kept unlimited keeps its bytes. Nothing re-encoded grants an unbounded allowance.
\<close>

theorem rewrite_changes_one_word:
  assumes "guard_contract E" and "from_hex data = Inr bs" and "CHR ''+'' \<notin> set data"
    and "detect_calldata_approval E to (Some data) = Some d" and "rewrite_calldata E data d choice = Inr out"
  shows "\<exists>i n. da_locus d = CalldataWord i \<and> from_hex out = Inr (with_word bs (unat i) n)
    \<and> (choice = Revoke \<longrightarrow> n = 0) \<and> (choice = Grant \<longrightarrow> n = 1)
    \<and> (\<forall>s. choice = Amount s \<longrightarrow> parse_dec_u256 E s = Some n \<and> \<not> is_unbounded_amount n (bits_from_wire (da_amount_bits d)))
    \<and> (choice = Unlimited \<longrightarrow> with_word bs (unat i) n = bs)
    \<and> (choice \<noteq> Unlimited \<longrightarrow> \<not> grants_unbounded (with_word bs (unat i) n))"
  by (rule rewrite_one_word [OF assms])

text \<open>The check that nothing else changed never fails on what the code itself puts together.\<close>

lemma assert_passes:
  assumes "hex = unwrap_or (strip_prefix data ''0x'') data" and "8 \<le> start" and "start + 64 \<le> length hex" and "length w = 64"
    and "out = ''0x'' @ take 8 hex @ subslice 8 start hex @ w @ drop (start + 64) hex"
  shows "assert_only_word_changed data out start (start + 64) = Inr ()"
proof -
  let ?b = "take start hex @ w @ drop (start + 64) hex"
  have "take 8 hex @ subslice 8 start hex = take start hex"
    using take_take_drop [of 8 hex "start - 8"] assms(2) by (simp add: subslice_def)
  then have "out = ''0x'' @ ?b" unfolding assms(5) by (metis append.assoc)
  then have b: "unwrap_or (strip_prefix out ''0x'') out = ?b" by (simp add: strip_prefix_def starts_with_def)
  have len: "length hex = length ?b" using assms(3,4) by simp
  have same: "hex ! i = ?b ! i" if "i < length hex" "\<not> (start \<le> i \<and> i < start + 64)" for i
  proof (cases "i < start")
    case True
    with that assms(3) show ?thesis by (simp add: nth_append)
  next
    case False
    then have "start + 64 \<le> i" "\<not> i - start < 64" using that by simp_all
    then have "?b ! i = drop (start + 64) hex ! (i - (start + 64))" using that assms(3,4) by (simp add: nth_append)
    with False that show ?thesis by simp
  qed
  define b where "b = ?b"
  have "\<not> list_ex (\<lambda>(i, ca, cb). \<not> (start \<le> i \<and> i < start + 64) \<and> ca \<noteq> cb) (enumerate 0 (zip hex b))"
  proof
    assume "list_ex (\<lambda>(i, ca, cb). \<not> (start \<le> i \<and> i < start + 64) \<and> ca \<noteq> cb) (enumerate 0 (zip hex b))"
    then obtain p where p: "p \<in> set (enumerate 0 (zip hex b))"
        "case p of (i, ca, cb) \<Rightarrow> \<not> (start \<le> i \<and> i < start + 64) \<and> ca \<noteq> cb"
      by (auto simp only: list_ex_iff)
    obtain i ca cb where i: "p = (i, ca, cb)" by (cases p) auto
    have lb: "length b = length hex" using len by (simp only: b_def)
    have il: "i < length hex" using p(1) unfolding i in_set_enumerate_eq by (simp add: lb)
    have "zip hex b ! i = (ca, cb)" using p(1) unfolding i in_set_enumerate_eq by simp
    then have "hex ! i = ca" "b ! i = cb" using nth_zip [of i hex b] il lb by simp_all
    moreover have "\<not> (start \<le> i \<and> i < start + 64)" "ca \<noteq> cb" using p(2) unfolding i prod.case by blast+
    moreover from this(1) have "hex ! i = b ! i" using same [OF il] unfolding b_def by blast
    ultimately show False by simp
  qed
  then show ?thesis unfolding assert_only_word_changed_def Let_def assms(1) [symmetric] b using len by (simp flip: b_def)
qed

lemma rewrite_succeeds:
  assumes "da_locus d = CalldataWord i" and "hex = unwrap_or (strip_prefix data ''0x'') data" and "is_ascii hex"
    and "8 + unat i * 64 + 64 \<le> length hex" and "word_chosen E d choice = Inr w" and "length w = 64"
  shows "rewrite_calldata E data d choice
    = Inr (''0x'' @ take 8 hex @ subslice 8 (8 + unat i * 64) hex @ w @ drop (8 + unat i * 64 + 64) hex)"
  using assert_passes [OF assms(2) _ assms(4,6) refl] assms(3,4,5)
  by (simp add: rewrite_calldata_def assms(1) Let_def word_chosen_def flip: assms(2))

lemma approve_max_detected:
  "\<exists>d. detect_calldata_approval example_guard_env None (Some (to_hex APPROVE_MAX True)) = Some d
     \<and> da_locus d = CalldataWord 1 \<and> da_kind d = Erc20Approve"
proof -
  have "take 4 (sel_approve @ x) = sel_approve" for x by (simp add: sel_approve_def)
  then have t: "take 4 APPROVE_MAX = sel_approve" by (simp only: APPROVE_MAX_def)
  show ?thesis
    unfolding detect_reads_bytes [OF example_guard_contract from_hex_to_hex to_hex_no_plus] detected_bytes_def Let_def t
    by (simp only: if_True option.inject ex_simps amount_approval_simps simp_thms)
qed

lemma approve_max_revokes:
  assumes "guard_contract E" and "da_locus d = CalldataWord 1" and "da_kind d = Erc20Approve"
  shows "\<exists>out. rewrite_calldata E (to_hex APPROVE_MAX True) d Revoke = Inr out"
proof -
  let ?t = "to_hex APPROVE_MAX True"
  have hex: "hex_of APPROVE_MAX = unwrap_or (strip_prefix ?t ''0x'') ?t"
    by (simp only: to_hex_def if_True) (simp add: strip_prefix_def starts_with_def)
  have "length (hex_of APPROVE_MAX) = 136" unfolding length_concat_byte_hex by (simp add: APPROVE_MAX_def sel_approve_def)
  moreover have "is_ascii (hex_of APPROVE_MAX)" using ascii_hex_pairs [OF _ hex_pairs_to_hex] by simp
  moreover have "word_chosen E d Revoke = Inr (hex_of (be_of_nat 32 0))"
    using guard_contractD(3) [OF assms(1), of 0] by (simp add: word_chosen_def assms(3) chosen_amount_def)
  moreover have "length (hex_of (be_of_nat 32 0)) = 64" unfolding length_concat_byte_hex by simp
  ultimately show ?thesis using rewrite_succeeds [OF assms(2) hex, of E Revoke] by simp
qed

theorem rewrite_changes_one_word_witness:
  "\<exists>out n. rewrite_calldata example_guard_env (to_hex APPROVE_MAX True)
       (the (detect_calldata_approval example_guard_env None (Some (to_hex APPROVE_MAX True)))) Revoke = Inr out
     \<and> from_hex out = Inr (with_word APPROVE_MAX 1 n) \<and> n = 0"
proof -
  let ?E = example_guard_env and ?t = "to_hex APPROVE_MAX True"
  obtain d where d: "detect_calldata_approval ?E None (Some ?t) = Some d" "da_locus d = CalldataWord 1" "da_kind d = Erc20Approve"
    using approve_max_detected by blast
  obtain out where out: "rewrite_calldata ?E ?t d Revoke = Inr out"
    using approve_max_revokes [OF example_guard_contract d(2,3)] by blast
  obtain i n where n: "da_locus d = CalldataWord i" "from_hex out = Inr (with_word APPROVE_MAX (unat i) n)" "n = 0"
    using rewrite_changes_one_word [OF example_guard_contract from_hex_to_hex to_hex_no_plus d(1) out] by blast
  have "unat i = 1" using n(1) d(2) by simp
  with n(2,3) have "from_hex out = Inr (with_word APPROVE_MAX 1 n)" by simp
  moreover have "the (detect_calldata_approval ?E None (Some ?t)) = d" unfolding d(1) by (rule option.sel)
  ultimately show ?thesis using out n(3) by metis
qed

section \<open>What the check does not see\<close>

text \<open>
  The decoder takes \<open>+9\<close> for the byte 9, the detection reads the text: an unlimited approval whose selector is
  written \<open>+95ea7b3\<close> passes the check at submit, and is what the decoder hands on.
\<close>

definition HIDDEN_APPROVE :: string where
  "HIDDEN_APPROVE = ''0x+95ea7b3'' @ hex_of (drop 4 APPROVE_MAX)"

lemma plus_sign_hides_an_approval:
  "from_hex HIDDEN_APPROVE = Inr APPROVE_MAX" "grants_unbounded APPROVE_MAX"
  "enforce_no_unlimited E ''eth_sendTransaction'' (Some (Array [Object [(''data'', String HIDDEN_APPROVE)]])) = Inr ()"
proof -
  have "hex_pairs ''+95ea7b3'' = Inr sel_approve" by code_simp
  then have "hex_pairs (''+95ea7b3'' @ hex_of (drop 4 APPROVE_MAX)) = Inr (sel_approve @ drop 4 APPROVE_MAX)"
    by (subst hex_pairs_append) (simp_all add: hex_pairs_to_hex)
  moreover have "sel_approve @ drop 4 APPROVE_MAX = APPROVE_MAX" by (simp add: APPROVE_MAX_def sel_approve_def)
  moreover have strip: "unwrap_or (strip_prefix HIDDEN_APPROVE ''0x'') HIDDEN_APPROVE = ''+95ea7b3'' @ hex_of (drop 4 APPROVE_MAX)"
    by (simp add: HIDDEN_APPROVE_def strip_prefix_def starts_with_def)
  moreover have "length (''+95ea7b3'' @ hex_of (drop 4 APPROVE_MAX)) mod 2 = 0" by simp
  ultimately show "from_hex HIDDEN_APPROVE = Inr APPROVE_MAX" by (simp only: from_hex_def Let_def) simp
  show "grants_unbounded APPROVE_MAX" by (rule approve_max_unbounded)
  have "take 8 (to_ascii_lowercase (''+95ea7b3'' @ hex_of (drop 4 APPROVE_MAX))) = ''+95ea7b3''"
    unfolding to_ascii_lowercase_def map_append using arg_cong [of _ _ "take 8"] by simp code_simp
  then have "detect_calldata_approval E None (Some HIDDEN_APPROVE) = None"
    unfolding detect_calldata_approval_def Let_def option.case strip by (simp add: selector_defs)
  then show "enforce_no_unlimited E ''eth_sendTransaction'' (Some (Array [Object [(''data'', String HIDDEN_APPROVE)]])) = Inr ()"
    by (simp add: enforce_no_unlimited_def detect_approval_def)
qed

text \<open>A permit whose value is written with an underscore is taken for one of nothing.\<close>

lemma underscore_reads_as_nothing:
  "detect_typed_data_approval E (Object [(''primaryType'', String ''Permit''), (''message'', Object [(''value'', String ''9_'')])])
     = Some d \<Longrightarrow> da_is_reducing d \<and> \<not> da_is_unbounded d"
proof -
  have v: "to_big E (Some (String ''9_'')) = big_zero"
  proof -
    have "trim ''9_'' = ''9_''" by code_simp
    moreover have "radix_of ''9_'' = None" "strip_prefix ''9_'' ''-'' = None" "\<not> list_all is_ascii_digit ''9_''" by code_simp+
    ultimately show ?thesis by (simp add: to_big_def str_to_big_def)
  qed
  then show "detect_typed_data_approval E (Object [(''primaryType'', String ''Permit''), (''message'', Object [(''value'', String ''9_'')])])
     = Some d \<Longrightarrow> da_is_reducing d \<and> \<not> da_is_unbounded d"
    by (auto simp: detect_typed_data_approval_def or_empty_def permit_approval_def past_def big_zero_def big_is_zero_def
        UNLIMITED_CAP_256_def Let_def)
qed

text \<open>A double is read as its integer part, or as the largest integer when that does not fit.\<close>

lemma f64_to_big_exact:
  assumes "f64_exponent f \<noteq> 2047"
  shows "bv_mag (f64_to_big f) = min (f64_trunc_abs f) U256_MAX"
    and "bv_neg (f64_to_big f) \<longleftrightarrow> f64_negative f \<and> f64_trunc_abs f \<noteq> 0"
proof -
  let ?a = "f64_trunc_abs f" and ?e = "f64_exponent f"
  have "unat f mod 2 ^ 52 < 2 ^ 52" by simp
  then have m: "f64_mantissa f < 2 ^ 53" unfolding f64_mantissa_def by (cases "?e = 0") (simp_all only: if_True if_False, simp_all)
  have big: "(2::nat) ^ 53 \<le> U256_MAX" by (simp add: U256_MAX_def)
  show "bv_mag (f64_to_big f) = min ?a U256_MAX"
  proof (cases "?a < 2 ^ 53")
    case True
    then show ?thesis using assms big by (simp add: f64_to_big_def Let_def big_zero_def)
  next
    case False
    have e: "1075 \<le> ?e"
    proof (rule ccontr)
      assume "\<not> 1075 \<le> ?e"
      then have "?a = f64_mantissa f div 2 ^ (1075 - max 1 ?e)" by (auto simp: f64_trunc_abs_def Let_def)
      then have "?a \<le> f64_mantissa f" by simp
      with m False show False by simp
    qed
    then have a: "?a = (unat f mod 2 ^ 52 + 2 ^ 52) * 2 ^ (?e - 1075)"
      by (simp add: f64_trunc_abs_def f64_mantissa_def Let_def max_def)
    have n: "nat (int ?e - 1075) = ?e - 1075" using e by simp
    show ?thesis
    proof (cases "?e - 1075 < 256")
      case True
      then have "int ?e - 1075 < 256" "0 \<le> int ?e - 1075" using e by simp_all
      then have "bv_mag (f64_to_big f) = unwrap_or (checked ?a) U256_MAX"
        using assms False unfolding f64_to_big_def Let_def a n by (simp flip: a)
      then show ?thesis by (simp add: checked_def)
    next
      case b: False
      then have "2 ^ 52 * 2 ^ 256 \<le> (unat f mod 2 ^ 52 + 2 ^ 52) * (2 :: nat) ^ (?e - 1075)"
        by (intro mult_le_mono power_increasing) simp_all
      then have "U256_MAX \<le> ?a" unfolding a U256_MAX_def by simp
      moreover have "\<not> int ?e - 1075 < 256" using b by simp
      ultimately show ?thesis using assms False by (simp add: f64_to_big_def Let_def)
    qed
  qed
  show "bv_neg (f64_to_big f) \<longleftrightarrow> f64_negative f \<and> ?a \<noteq> 0"
    using assms by (simp add: f64_to_big_def big_zero_def Let_def)
qed

end
