(* ===== verification/ApprovalEditor.thy ===== *)
theory ApprovalEditor
  imports ApprovalGuard Interfaces
begin

text \<open>
  The machine of \<open>app/approval_guard.rs\<close>: the amounts a person reads and types, the editor of one approval and
  of each leg of a batch, what they choose, the parameters re-encoded from it, and what the view says. The
  deadline's colour (\<open>is_expired\<close>, floating point) is not modelled.
\<close>

section \<open>Amounts as text\<close>

definition parse_token_amount :: "'td guard_env \<Rightarrow> string \<Rightarrow> nat \<Rightarrow> nat option" where
  "parse_token_amount E human decimals =
     (let cleaned = trim (filter (\<lambda>c. c \<noteq> CHR '','') human)
      in if cleaned = [] then None
         else if \<not> list_all (\<lambda>b. is_ascii_digit b \<or> b = CHR ''.'') cleaned then None
         else if 1 < length (filter (\<lambda>b. b = CHR ''.'') cleaned) then None
         else let (whole, frac) = unwrap_or (split_once cleaned ''.'') (cleaned, [])
         in if decimals < length frac then None
            else let frac_padded = frac @ replicate (decimals - length frac) (CHR ''0'');
                     whole_units = parse_dec_saturating E (if whole = [] then ''0'' else whole);
                     frac_units = parse_dec_saturating E (if frac_padded = [] then ''0'' else frac_padded);
                     scale = unwrap_or (checked (10 ^ decimals)) U256_MAX;
                     units = unwrap_or (checked (whole_units * scale)) U256_MAX
            in Some (unwrap_or (checked (units + frac_units)) U256_MAX))"

definition insert_every :: "string \<Rightarrow> string \<Rightarrow> nat \<Rightarrow> string" where
  "insert_every grp s step =
     concat (map (\<lambda>(i, c). (if 0 < i \<and> (length s - i) mod step = 0 then grp else []) @ [c]) (enumerate 0 s))"

definition group_thousands :: "string \<Rightarrow> string \<Rightarrow> bool \<Rightarrow> string" where
  "group_thousands digits grp indian =
     (if length digits \<le> 3 then digits
      else if \<not> indian then insert_every grp digits 3
      else let split = length digits - 3
      in insert_every grp (take split digits) 2 @ grp @ drop split digits)"

definition format_token_amount :: "'td guard_env \<Rightarrow> nat \<Rightarrow> nat \<Rightarrow> nat \<Rightarrow> string \<Rightarrow> string \<Rightarrow> bool \<Rightarrow> string" where
  "format_token_amount E raw decimals max_frac grp decimal indian =
     (let digits = ge_u256_dec E raw
      in if decimals = 0 then group_thousands digits grp indian
         else let (whole, frac) = (if decimals < length digits
                    then (let split = length digits - decimals in (take split digits, drop split digits))
                    else (''0'', replicate (decimals - length digits) (CHR ''0'') @ digits));
                  whole_str = group_thousands whole grp indian
         in if list_all (\<lambda>b. b = CHR ''0'') frac then whole_str
            else let frac_str = trim_end_char (CHR ''0'') (take max_frac frac)
            in if frac_str = [] then whole_str else whole_str @ decimal @ frac_str)"

section \<open>The state\<close>

datatype editor_mode = ModeRequested | ModeBalance | ModeCustom | ModeRevoke | ModeGrant

datatype bool_pick = PickGrant | PickRevoke

datatype editor = NoEditor | AmountEditor editor_mode string | BooleanEditor "bool_pick option"

record token_meta =
  tm_symbol :: string
  tm_decimals :: u32
  tm_verified :: bool

datatype meta_state = MetaLoading | MetaResolved "token_meta option"

datatype allowance_state = AllowanceNotApplicable | AllowanceLoading | AllowanceResolved "nat option"

record leg =
  lg_call :: json
  lg_to :: string
  lg_detected :: "detected_approval option"
  lg_editor :: editor

datatype batch_meta = BatchLoading "string list" | BatchResolved "string \<rightharpoonup> token_meta"

record batch_state =
  bs_legs :: "leg list"
  bs_meta :: batch_meta
  bs_recipients :: "string list list"

record guard_model =
  gm_method :: string
  gm_params :: "json option"
  gm_chain_id :: u32
  gm_wallet :: "string option"
  gm_read_only :: bool
  gm_detected :: "detected_approval option"
  gm_editor :: editor
  gm_meta :: meta_state
  gm_allowance :: allowance_state
  gm_balance :: "nat option"
  gm_batch :: "batch_state option"
  gm_attempt :: u64

definition guard_init :: guard_model where
  "guard_init = \<lparr>gm_method = [], gm_params = None, gm_chain_id = 0, gm_wallet = None, gm_read_only = False,
     gm_detected = None, gm_editor = NoEditor, gm_meta = MetaResolved None, gm_allowance = AllowanceNotApplicable,
     gm_balance = None, gm_batch = None, gm_attempt = 0\<rparr>"

datatype guard_operation =
    ReadTokenMetadata u32 "string list"
  | ReadErc20Allowance u32 string string string
  | ReadErc20Balance u32 string string

record meta_entry =
  me_token :: string
  me_symbol :: string
  me_decimals :: u32

datatype guard_shell_result =
    MetaRead "meta_entry list option"
  | AllowanceRead "string option"
  | BalanceRead "string option"

datatype guard_event =
    ApprovalDetected string string u32 "string option" bool
  | PresetSelected editor_mode
  | CustomAmountChanged string
  | GrantDeliberatelyChosen
  | RevokeChosen
  | LegPresetSelected nat editor_mode
  | LegCustomAmountChanged nat string
  | LegGrantDeliberatelyChosen nat
  | LegRevokeChosen nat
  | BatchRecipientsResolved "string list list"
  | GuardShellCompleted u64 guard_shell_result

text \<open>What the shell is asked, under the attempt of the model, and whether the view is drawn.\<close>

type_synonym guard_command = "guard_operation list \<times> bool"

abbreviation nothing :: guard_command where "nothing \<equiv> ([], False)"
abbreviation redraw :: guard_command where "redraw \<equiv> ([], True)"

record meta_view =
  mv_symbol :: string
  mv_decimals :: u32
  mv_verified :: bool
  mv_loading :: bool

definition ELLIPSIS :: string where "ELLIPSIS = [CHR 0xE2, CHR 0x80, CHR 0xA6]"

definition unknown_meta :: "bool \<Rightarrow> meta_view" where
  "unknown_meta loading = \<lparr>mv_symbol = ELLIPSIS, mv_decimals = 18, mv_verified = False, mv_loading = loading\<rparr>"

definition known_meta :: "token_meta \<Rightarrow> meta_view" where
  "known_meta info = \<lparr>mv_symbol = tm_symbol info, mv_decimals = tm_decimals info, mv_verified = tm_verified info, mv_loading = False\<rparr>"

definition effective_meta :: "guard_model \<Rightarrow> meta_view" where
  "effective_meta m =
     (case gm_meta m of
        MetaLoading \<Rightarrow> unknown_meta True
      | MetaResolved None \<Rightarrow> unknown_meta False
      | MetaResolved (Some info) \<Rightarrow> known_meta info)"

definition leg_meta :: "batch_state \<Rightarrow> detected_approval \<Rightarrow> meta_view" where
  "leg_meta batch detected =
     (case Option.bind (da_token_address detected) (\<lambda>token. case bs_meta batch of
          BatchResolved m \<Rightarrow> m token | BatchLoading _ \<Rightarrow> None) of
        Some info \<Rightarrow> known_meta info
      | None \<Rightarrow> unknown_meta (case bs_meta batch of BatchLoading _ \<Rightarrow> True | BatchResolved _ \<Rightarrow> False))"

section \<open>Editors\<close>

definition requested_of :: "'td guard_env \<Rightarrow> detected_approval \<Rightarrow> big_val" where
  "requested_of E detected = parse_signed_dec E (unwrap_or (da_amount_raw detected) ''0'')"

definition requested_finite :: "'td guard_env \<Rightarrow> detected_approval \<Rightarrow> bool" where
  "requested_finite E detected \<longleftrightarrow>
     \<not> da_is_unbounded detected \<and> \<not> bv_neg (requested_of E detected) \<and> bv_mag (requested_of E detected) \<noteq> 0"

definition leg_shows_editor :: "bool \<Rightarrow> detected_approval \<Rightarrow> bool" where
  "leg_shows_editor editable detected \<longleftrightarrow>
     editable \<and> da_editable detected \<and> \<not> da_is_reducing detected
     \<and> (da_is_unbounded detected \<or> da_is_boolean_grant detected)"

definition init_editor :: "'td guard_env \<Rightarrow> detected_approval \<Rightarrow> editor" where
  "init_editor E detected =
     (if da_is_boolean_grant detected then BooleanEditor (if da_is_unbounded detected then None else Some PickRevoke)
      else if requested_finite E detected
        then AmountEditor ModeRequested (format_token_amount E (bv_mag (requested_of E detected)) 18 6 [] ''.'' False)
      else if da_is_unbounded detected then AmountEditor ModeRequested []
      else AmountEditor ModeCustom [])"

text \<open>A handler of an editor gives the editor back, and whether the view is drawn again.\<close>

fun set_custom_text :: "editor \<Rightarrow> string \<Rightarrow> editor \<times> guard_command" where
  "set_custom_text (AmountEditor m t) s = (AmountEditor ModeCustom s, redraw)"
| "set_custom_text e s = (e, nothing)"

fun set_bool_pick :: "editor \<Rightarrow> bool_pick \<Rightarrow> editor \<times> guard_command" where
  "set_bool_pick (BooleanEditor p) pick = (BooleanEditor (Some pick), redraw)"
| "set_bool_pick e pick = (e, nothing)"

definition revoke_offered :: "detected_approval \<Rightarrow> bool" where
  "revoke_offered detected \<longleftrightarrow> da_kind detected \<noteq> IncreaseAllowance"

definition has_balance_cap :: "detected_approval \<Rightarrow> nat option \<Rightarrow> bool" where
  "has_balance_cap detected balance \<longleftrightarrow>
     da_kind detected \<noteq> DecreaseAllowance \<and> (case balance of None \<Rightarrow> False | Some b \<Rightarrow> b \<noteq> 0)"

fun apply_preset ::
  "'td guard_env \<Rightarrow> editor \<Rightarrow> detected_approval \<Rightarrow> meta_view \<Rightarrow> nat option \<Rightarrow> editor_mode \<Rightarrow> editor \<times> guard_command" where
  "apply_preset E (BooleanEditor p) detected meta balance mode =
     (if mode = ModeRevoke then (BooleanEditor (Some PickRevoke), redraw) else (BooleanEditor p, nothing))"
| "apply_preset E NoEditor detected meta balance mode = (NoEditor, nothing)"
| "apply_preset E (AmountEditor current t) detected meta balance mode =
     (if mode = ModeRequested \<and> requested_finite E detected then
        (AmountEditor ModeRequested
           (format_token_amount E (bv_mag (requested_of E detected)) (unat (mv_decimals meta)) 6 [] ''.'' False), redraw)
      else if mode = ModeRequested \<and> da_is_unbounded detected then (AmountEditor ModeRequested t, redraw)
      else if mode = ModeBalance \<and> has_balance_cap detected balance then
        (AmountEditor ModeBalance (case balance of
             Some b \<Rightarrow> format_token_amount E b (unat (mv_decimals meta)) 6 [] ''.'' False | None \<Rightarrow> t), redraw)
      else if mode = ModeCustom then (AmountEditor ModeCustom t, redraw)
      else if mode = ModeRevoke \<and> revoke_offered detected then (AmountEditor ModeRevoke t, redraw)
      else (AmountEditor current t, nothing))"

datatype amount_error = InvalidAmount | UnlimitedDisabled

record editor_view =
  ev_mode :: "editor_mode option"
  ev_custom_text :: string
  ev_error :: "amount_error option"
  ev_choice :: "guard_choice option"
  ev_display_amount_raw :: "string option"
  ev_requested_finite :: bool
  ev_requested_unlimited :: bool
  ev_has_balance_cap :: bool
  ev_revoke_offered :: bool
  ev_balance_raw :: "string option"

definition typed_choice ::
  "'td guard_env \<Rightarrow> string \<Rightarrow> u32 \<Rightarrow> amount_bits \<Rightarrow> guard_choice option \<times> amount_error option \<times> nat option" where
  "typed_choice E custom_text decimals bits =
     (let trimmed = trim custom_text
      in if trimmed = [] then (None, None, None)
         else case parse_token_amount E trimmed (unat decimals) of
             None \<Rightarrow> (None, Some InvalidAmount, None)
           | Some raw \<Rightarrow>
               if is_unbounded_amount raw bits then (None, Some UnlimitedDisabled, Some raw)
               else (Some (Amount (ge_u256_dec E raw)), None, Some raw))"

definition amount_choice ::
  "'td guard_env \<Rightarrow> editor_mode \<Rightarrow> string \<Rightarrow> detected_approval \<Rightarrow> meta_view \<Rightarrow> nat option
   \<Rightarrow> guard_choice option \<times> amount_error option \<times> nat option" where
  "amount_choice E mode custom_text detected meta balance =
     (let requested = bv_mag (requested_of E detected)
      in if mode = ModeRevoke then (Some Revoke, None, Some 0)
         else if mode = ModeRequested \<and> da_is_unbounded detected \<and> \<not> da_is_boolean_grant detected then (Some Unlimited, None, None)
         else if mode = ModeRequested then (Some (Amount (ge_u256_dec E requested)), None, Some requested)
         else if mode = ModeBalance \<and> has_balance_cap detected balance
           then (Some (Amount (ge_u256_dec E (unwrap_or balance 0))), None, Some (unwrap_or balance 0))
         else typed_choice E custom_text (mv_decimals meta) (bits_from_wire (da_amount_bits detected)))"

fun derive_editor :: "'td guard_env \<Rightarrow> editor \<Rightarrow> detected_approval \<Rightarrow> meta_view \<Rightarrow> nat option \<Rightarrow> editor_view option" where
  "derive_editor E NoEditor detected meta balance = None"
| "derive_editor E (BooleanEditor selected) detected meta balance = Some
     \<lparr>ev_mode = map_option (\<lambda>pick. case pick of PickGrant \<Rightarrow> ModeGrant | PickRevoke \<Rightarrow> ModeRevoke) selected,
      ev_custom_text = [], ev_error = None,
      ev_choice = map_option (\<lambda>pick. case pick of PickGrant \<Rightarrow> Grant | PickRevoke \<Rightarrow> Revoke) selected,
      ev_display_amount_raw = None, ev_requested_finite = False, ev_requested_unlimited = False,
      ev_has_balance_cap = False, ev_revoke_offered = True, ev_balance_raw = None\<rparr>"
| "derive_editor E (AmountEditor mode custom_text) detected meta balance =
     (let (choice, error, display) = amount_choice E mode custom_text detected meta balance
      in Some \<lparr>ev_mode = Some mode, ev_custom_text = custom_text, ev_error = error, ev_choice = choice,
           ev_display_amount_raw = map_option (ge_u256_dec E) display,
           ev_requested_finite = requested_finite E detected,
           ev_requested_unlimited = (da_is_unbounded detected \<and> \<not> da_is_boolean_grant detected),
           ev_has_balance_cap = has_balance_cap detected balance,
           ev_revoke_offered = revoke_offered detected, ev_balance_raw = map_option (ge_u256_dec E) balance\<rparr>)"

definition leg_needs_choice :: "detected_approval option \<Rightarrow> guard_choice option \<Rightarrow> bool" where
  "leg_needs_choice approval choice =
     (case approval of
        None \<Rightarrow> False
      | Some ap \<Rightarrow>
          if \<not> da_editable ap \<or> da_is_reducing ap then False
          else if da_is_boolean_grant ap then choice = None
          else if da_is_unbounded ap
          then (case choice of Some (Amount _) \<Rightarrow> False | Some Revoke \<Rightarrow> False | Some Unlimited \<Rightarrow> False | _ \<Rightarrow> True)
          else False)"

definition leg_grants_broad :: "detected_approval option \<Rightarrow> guard_choice option \<Rightarrow> bool" where
  "leg_grants_broad approval choice =
     (case approval of
        None \<Rightarrow> False
      | Some ap \<Rightarrow>
          if da_is_reducing ap then False
          else if da_is_boolean_grant ap then choice = Some Grant \<or> choice = None
          else if da_is_unbounded ap
          then (case choice of Some (Amount _) \<Rightarrow> False | Some Revoke \<Rightarrow> False | _ \<Rightarrow> True)
          else False)"

section \<open>Handlers\<close>

definition fallback_meta :: "string \<Rightarrow> token_meta" where
  "fallback_meta token = \<lparr>tm_symbol = concat (take 6 (chars token)) @ ELLIPSIS, tm_decimals = 18, tm_verified = False\<rparr>"

definition token_info :: "meta_entry list \<Rightarrow> string \<Rightarrow> token_meta option" where
  "token_info metas token =
     map_option (\<lambda>entry. \<lparr>tm_symbol = me_symbol entry, tm_decimals = me_decimals entry, tm_verified = True\<rparr>)
       (find (\<lambda>entry. eq_ignore_ascii_case (me_token entry) token) metas)"

definition batch_leg :: "'td guard_env \<Rightarrow> bool \<Rightarrow> json \<Rightarrow> leg" where
  "batch_leg E editable call =
     (let to = Option.bind (get call ''to'') as_str;
          detected = detect_calldata_approval E to (Option.bind (get call ''data'') as_str)
      in \<lparr>lg_call = call, lg_to = unwrap_or to [], lg_detected = detected,
          lg_editor = (case detected of
              Some d \<Rightarrow> if leg_shows_editor editable d then init_editor E d else NoEditor
            | None \<Rightarrow> NoEditor)\<rparr>)"

text \<open>The tokens of the legs, each once, in the order they come.\<close>

definition leg_tokens :: "leg list \<Rightarrow> string list" where
  "leg_tokens legs = fold (\<lambda>l tokens. case Option.bind (lg_detected l) da_token_address of
       None \<Rightarrow> tokens | Some token \<Rightarrow> if token \<in> set tokens then tokens else tokens @ [token]) legs []"

definition start_batch :: "'td guard_env \<Rightarrow> guard_model \<Rightarrow> guard_model \<times> guard_operation list" where
  "start_batch E m =
     (case Option.bind (Option.bind (Option.bind (gm_params m) (\<lambda>p. get_index p 0)) (\<lambda>first. get first ''calls'')) as_array of
        None \<Rightarrow> (m, [])
      | Some [] \<Rightarrow> (m, [])
      | Some calls \<Rightarrow>
          (let legs = map (batch_leg E (\<not> gm_read_only m)) calls;
               tokens = leg_tokens legs;
               (meta, ops) = (if tokens = [] then (BatchResolved Map.empty, [])
                 else (BatchLoading tokens, [ReadTokenMetadata (gm_chain_id m) tokens]))
           in (m\<lparr>gm_batch := Some \<lparr>bs_legs = legs, bs_meta = meta, bs_recipients = []\<rparr>\<rparr>, ops)))"

definition start_single :: "'td guard_env \<Rightarrow> guard_model \<Rightarrow> detected_approval \<Rightarrow> guard_model \<times> guard_operation list" where
  "start_single E m detected =
     (let calldata = \<not> typed_locus (da_locus detected);
          (m, ops) = (case da_token_address detected of
              None \<Rightarrow> (m, [])
            | Some token \<Rightarrow>
                (let metadata = [ReadTokenMetadata (gm_chain_id m) [token]];
                     allowance = (case gm_wallet m of
                         Some owner \<Rightarrow> if da_kind detected = IncreaseAllowance
                           then [ReadErc20Allowance (gm_chain_id m) token owner (da_spender detected)] else []
                       | None \<Rightarrow> []);
                     balance = (case gm_wallet m of
                         Some owner \<Rightarrow> if calldata \<and> da_kind detected \<noteq> SetApprovalForAll
                           then [ReadErc20Balance (gm_chain_id m) token owner] else []
                       | None \<Rightarrow> [])
                 in (m\<lparr>gm_meta := MetaLoading,
                       gm_allowance := (if allowance = [] then gm_allowance m else AllowanceLoading)\<rparr>,
                     metadata @ allowance @ balance)));
          m = (if calldata then m\<lparr>gm_editor := init_editor E detected\<rparr> else m)
      in (m\<lparr>gm_detected := Some detected\<rparr>, ops))"

definition guard_start ::
  "'td guard_env \<Rightarrow> guard_model \<Rightarrow> string \<Rightarrow> string \<Rightarrow> u32 \<Rightarrow> string option \<Rightarrow> bool \<Rightarrow> guard_command \<times> guard_model" where
  "guard_start E m0 method_name params_json chain_id wallet_address read_only =
     (let m = m0\<lparr>gm_attempt := gm_attempt m0 + 1, gm_method := method_name, gm_chain_id := chain_id,
            gm_wallet := wallet_address, gm_read_only := read_only, gm_detected := None, gm_editor := NoEditor,
            gm_meta := MetaResolved None, gm_allowance := AllowanceNotApplicable, gm_balance := None, gm_batch := None,
            gm_params := (case te_parse (ge_typed E) params_json of Inl _ \<Rightarrow> None | Inr v \<Rightarrow> Some v)\<rparr>;
          (m, ops) = (if method_name = ''wallet_sendCalls'' then start_batch E m
            else case detect_approval E method_name (gm_params m) of
                Some detected \<Rightarrow> start_single E m detected
              | None \<Rightarrow> (m, []))
      in ((ops, True), m))"

definition leg_context :: "guard_model \<Rightarrow> nat \<Rightarrow> (detected_approval \<times> meta_view) option" where
  "leg_context m index = do {
     batch \<leftarrow> gm_batch m;
     l \<leftarrow> (if index < length (bs_legs batch) then Some (bs_legs batch ! index) else None);
     detected \<leftarrow> lg_detected l;
     Some (detected, leg_meta batch detected)
   }"

text \<open>A change of one leg's editor; an index out of range changes nothing.\<close>

definition on_leg :: "guard_model \<Rightarrow> nat \<Rightarrow> (editor \<Rightarrow> editor \<times> guard_command) \<Rightarrow> guard_command \<times> guard_model" where
  "on_leg m index f =
     (case gm_batch m of
        None \<Rightarrow> (nothing, m)
      | Some batch \<Rightarrow>
          if index < length (bs_legs batch)
          then (let l = bs_legs batch ! index; (e, cmd) = f (lg_editor l)
                in (cmd, m\<lparr>gm_batch := Some (batch\<lparr>bs_legs := (bs_legs batch)[index := l\<lparr>lg_editor := e\<rparr>]\<rparr>)\<rparr>))
          else (nothing, m))"

definition on_editor :: "guard_model \<Rightarrow> (editor \<Rightarrow> editor \<times> guard_command) \<Rightarrow> guard_command \<times> guard_model" where
  "on_editor m f = (let (e, cmd) = f (gm_editor m) in (cmd, m\<lparr>gm_editor := e\<rparr>))"

definition accept_batch_meta :: "batch_state \<Rightarrow> meta_entry list option \<Rightarrow> batch_state option" where
  "accept_batch_meta batch metas =
     (case bs_meta batch of
        BatchResolved _ \<Rightarrow> None
      | BatchLoading tokens \<Rightarrow> Some (batch\<lparr>bs_meta := BatchResolved (case metas of
            None \<Rightarrow> Map.empty
          | Some list \<Rightarrow> (\<lambda>token. if token \<in> set tokens
              then Some (unwrap_or (token_info list token) (fallback_meta token)) else None))\<rparr>))"

definition accept_result :: "'td guard_env \<Rightarrow> guard_model \<Rightarrow> guard_shell_result \<Rightarrow> guard_command \<times> guard_model" where
  "accept_result E m result =
     (case result of
        MetaRead metas \<Rightarrow>
          (case gm_batch m of
             Some batch \<Rightarrow> (case accept_batch_meta batch metas of
                 None \<Rightarrow> (nothing, m)
               | Some batch' \<Rightarrow> (redraw, m\<lparr>gm_batch := Some batch'\<rparr>))
           | None \<Rightarrow>
               if gm_meta m \<noteq> MetaLoading then (nothing, m)
               else let token = unwrap_or (Option.bind (gm_detected m) da_token_address) [];
                        info = unwrap_or (Option.bind metas (\<lambda>list. token_info list token)) (fallback_meta token)
               in (redraw, m\<lparr>gm_meta := MetaResolved (Some info)\<rparr>))
      | AllowanceRead allowance \<Rightarrow>
          if gm_allowance m \<noteq> AllowanceLoading then (nothing, m)
          else (redraw, m\<lparr>gm_allowance := AllowanceResolved (Option.bind allowance (parse_dec_u256 E))\<rparr>)
      | BalanceRead balance \<Rightarrow>
          if gm_detected m = None \<or> gm_batch m \<noteq> None then (nothing, m)
          else (redraw, m\<lparr>gm_balance := Option.bind balance (parse_dec_u256 E)\<rparr>))"

fun guard_update :: "'td guard_env \<Rightarrow> guard_model \<Rightarrow> guard_event \<Rightarrow> guard_command \<times> guard_model" where
  "guard_update E m (ApprovalDetected method_name params_json chain_id wallet read_only) =
     guard_start E m method_name params_json chain_id wallet read_only"
| "guard_update E m (PresetSelected mode) =
     (case gm_detected m of
        None \<Rightarrow> (nothing, m)
      | Some detected \<Rightarrow> on_editor m (\<lambda>e. apply_preset E e detected (effective_meta m) (gm_balance m) mode))"
| "guard_update E m (CustomAmountChanged t) = on_editor m (\<lambda>e. set_custom_text e t)"
| "guard_update E m GrantDeliberatelyChosen = on_editor m (\<lambda>e. set_bool_pick e PickGrant)"
| "guard_update E m RevokeChosen = on_editor m (\<lambda>e. set_bool_pick e PickRevoke)"
| "guard_update E m (LegPresetSelected index mode) =
     (case leg_context m index of
        None \<Rightarrow> (nothing, m)
      | Some (detected, meta) \<Rightarrow> on_leg m index (\<lambda>e. apply_preset E e detected meta None mode))"
| "guard_update E m (LegCustomAmountChanged index t) = on_leg m index (\<lambda>e. set_custom_text e t)"
| "guard_update E m (LegGrantDeliberatelyChosen index) = on_leg m index (\<lambda>e. set_bool_pick e PickGrant)"
| "guard_update E m (LegRevokeChosen index) = on_leg m index (\<lambda>e. set_bool_pick e PickRevoke)"
| "guard_update E m (BatchRecipientsResolved recipients) =
     (case gm_batch m of
        None \<Rightarrow> (nothing, m)
      | Some batch \<Rightarrow> (redraw, m\<lparr>gm_batch := Some (batch\<lparr>bs_recipients := recipients\<rparr>)\<rparr>))"
| "guard_update E m (GuardShellCompleted attempt result) =
     (if attempt \<noteq> gm_attempt m then (nothing, m) else accept_result E m result)"

section \<open>The view\<close>

record increase_total_view =
  it_current :: "string option"
  it_increment :: string
  it_total :: "string option"

record leg_view =
  lv_to :: string
  lv_approval :: "detected_approval option"
  lv_meta :: meta_view
  lv_editor :: "editor_view option"
  lv_choice :: "guard_choice option"
  lv_needs_editor :: bool
  lv_needs_choice :: bool
  lv_grants_broad :: bool

record batch_view =
  bw_legs :: "leg_view list"
  bw_any_uncapped :: bool
  bw_any_to_own_token :: bool
  bw_all_settled :: bool

datatype guard_surface = SurfaceNone | PermitSign | ApprovalEditorSurface | BatchSurface

record guard_view =
  gv_surface :: guard_surface
  gv_detected :: "detected_approval option"
  gv_meta :: meta_view
  gv_editor :: "editor_view option"
  gv_confirm_allowed :: bool
  gv_rewritten_params_json :: "string option"
  gv_unlimited_consented :: bool
  gv_unlimited_warning :: bool
  gv_increase_total :: "increase_total_view option"
  gv_decimals_unverified :: bool
  gv_batch :: "batch_view option"

definition increase_total :: "'td guard_env \<Rightarrow> guard_model \<Rightarrow> detected_approval \<Rightarrow> guard_choice option \<Rightarrow> increase_total_view option" where
  "increase_total E m detected choice =
     (if da_kind detected \<noteq> IncreaseAllowance then None
      else case gm_allowance m of
          AllowanceResolved current \<Rightarrow>
            if choice = Some Revoke then Some \<lparr>it_current = None, it_increment = ''0'', it_total = Some ''0''\<rparr>
            else let requested = requested_of E detected;
                     increment = (case choice of
                         Some (Amount amount_raw) \<Rightarrow> unwrap_or (parse_dec_u256 E amount_raw) 0
                       | _ \<Rightarrow> if bv_neg requested then 0 else bv_mag requested)
            in Some (case current of
                Some c \<Rightarrow> \<lparr>it_current = Some (ge_u256_dec E c), it_increment = ge_u256_dec E increment,
                   it_total = Some (ge_u256_dec E (unwrap_or (checked (c + increment)) U256_MAX))\<rparr>
              | None \<Rightarrow> \<lparr>it_current = None, it_increment = ge_u256_dec E increment, it_total = None\<rparr>)
        | _ \<Rightarrow> None)"

definition project_leg :: "'td guard_env \<Rightarrow> bool \<Rightarrow> batch_state \<Rightarrow> leg \<Rightarrow> leg_view" where
  "project_leg E editable batch l =
     (let meta = (case lg_detected l of
            Some detected \<Rightarrow> leg_meta batch detected
          | None \<Rightarrow> unknown_meta (case bs_meta batch of BatchLoading _ \<Rightarrow> True | BatchResolved _ \<Rightarrow> False));
          editor = Option.bind (lg_detected l) (\<lambda>detected. derive_editor E (lg_editor l) detected meta None);
          choice = Option.bind editor ev_choice
      in \<lparr>lv_to = lg_to l, lv_approval = lg_detected l, lv_meta = meta, lv_editor = editor, lv_choice = choice,
          lv_needs_editor = (case lg_detected l of None \<Rightarrow> False | Some a \<Rightarrow> leg_shows_editor editable a),
          lv_needs_choice = leg_needs_choice (lg_detected l) choice,
          lv_grants_broad = leg_grants_broad (lg_detected l) choice\<rparr>)"

definition build_batch_view :: "'td guard_env \<Rightarrow> guard_model \<Rightarrow> batch_state \<Rightarrow> batch_view" where
  "build_batch_view E m batch =
     (let editable = \<not> gm_read_only m;
          legs = map (project_leg E editable batch) (bs_legs batch)
      in \<lparr>bw_legs = legs,
          bw_any_uncapped = (if editable then list_ex lv_grants_broad legs
            else list_ex (\<lambda>l. case lg_detected l of None \<Rightarrow> False
              | Some a \<Rightarrow> da_is_unbounded a \<and> \<not> da_is_reducing a \<and> \<not> da_is_boolean_grant a) (bs_legs batch)),
          bw_any_to_own_token = list_ex (\<lambda>(l, rs). lg_to l \<noteq> [] \<and> list_ex (\<lambda>r. eq_ignore_ascii_case r (lg_to l)) rs)
            (zip (bs_legs batch) (bs_recipients batch)),
          bw_all_settled = (\<not> list_ex lv_needs_choice legs)\<rparr>)"

text \<open>
  One leg at confirmation: the call that goes out, whether it was re-encoded, and whether a leg that was to be
  capped could not be.
\<close>

definition rebuild_leg :: "'td guard_env \<Rightarrow> leg \<Rightarrow> leg_view \<Rightarrow> json \<times> bool \<times> bool" where
  "rebuild_leg E l projected =
     (case (lg_detected l, lv_choice projected) of
        (Some detected, Some choice) \<Rightarrow>
          if da_editable detected \<and> choice \<noteq> Unlimited
          then (case Option.bind (get (lg_call l) ''data'') as_str of
                  None \<Rightarrow> (lg_call l, False, True)
                | Some data \<Rightarrow> (case rewrite_calldata E data detected choice of
                      Inl _ \<Rightarrow> (lg_call l, False, True)
                    | Inr new_data \<Rightarrow> (case as_object (lg_call l) of
                          None \<Rightarrow> (lg_call l, False, True)
                        | Some kvs \<Rightarrow> (Object (insert_key ''data'' (String new_data) kvs), True, False))))
          else (lg_call l, False, False)
      | _ \<Rightarrow> (lg_call l, False, False))"

definition rewritten_batch_params :: "'td guard_env \<Rightarrow> guard_model \<Rightarrow> batch_state \<Rightarrow> batch_view \<Rightarrow> string option \<times> bool" where
  "rewritten_batch_params E m batch view =
     (case gm_params m of
        None \<Rightarrow> (None, True)
      | Some params \<Rightarrow>
          (let rebuilt = map (\<lambda>(l, p). rebuild_leg E l p) (zip (bs_legs batch) (bw_legs view));
               changed = list_ex (\<lambda>(call, c, f). c) rebuilt;
               all_capped = \<not> list_ex (\<lambda>(call, c, f). f) rebuilt
           in (if \<not> changed then None
               else (case Option.bind (get_index params 0) as_object of
                   None \<Rightarrow> None
                 | Some kvs \<Rightarrow> Some (te_print (ge_typed E)
                     (put_index params 0 (Object (insert_key ''calls'' (Array (map fst rebuilt)) kvs))))),
               all_capped)))"

definition single_rewrite :: "'td guard_env \<Rightarrow> guard_model \<Rightarrow> detected_approval \<Rightarrow> guard_choice option \<Rightarrow> string option" where
  "single_rewrite E m detected choice =
     (if choice = Some Unlimited then None
      else case (choice, gm_params m) of
          (Some c, Some params) \<Rightarrow>
            if da_editable detected
            then (case rewrite_approval_params E (gm_method m) params detected c of
                Inl _ \<Rightarrow> None | Inr v \<Rightarrow> Some (te_print (ge_typed E) v))
            else None
        | _ \<Rightarrow> None)"

fun shows_amount :: "editor \<Rightarrow> bool" where
  "shows_amount (AmountEditor mode t) \<longleftrightarrow> True"
| "shows_amount _ \<longleftrightarrow> False"

definition batch_guard_view :: "'td guard_env \<Rightarrow> guard_model \<Rightarrow> batch_state \<Rightarrow> guard_view" where
  "batch_guard_view E m batch =
     (let bv = build_batch_view E m batch;
          (rewritten, all_capped) = rewritten_batch_params E m batch bv
      in \<lparr>gv_surface = BatchSurface, gv_detected = None,
          gv_meta = unknown_meta (case bs_meta batch of BatchLoading _ \<Rightarrow> True | BatchResolved _ \<Rightarrow> False),
          gv_editor = None, gv_confirm_allowed = bw_all_settled bv, gv_rewritten_params_json = rewritten,
          gv_unlimited_consented = (all_capped \<and> list_ex (\<lambda>l. lv_choice l = Some Unlimited) (bw_legs bv)),
          gv_unlimited_warning = bw_any_uncapped bv, gv_increase_total = None, gv_decimals_unverified = False,
          gv_batch = Some bv\<rparr>)"

definition single_guard_view :: "'td guard_env \<Rightarrow> guard_model \<Rightarrow> detected_approval \<Rightarrow> guard_view" where
  "single_guard_view E m detected =
     (let meta = effective_meta m;
          editor = derive_editor E (gm_editor m) detected meta (gm_balance m);
          choice = Option.bind editor ev_choice;
          surface = (if typed_locus (da_locus detected) then PermitSign else ApprovalEditorSurface);
          consented = (choice = Some Unlimited)
      in \<lparr>gv_surface = surface, gv_detected = Some detected, gv_meta = meta, gv_editor = editor,
          gv_confirm_allowed = (\<not> (da_editable detected \<and> choice = None)),
          gv_rewritten_params_json = single_rewrite E m detected choice,
          gv_unlimited_consented = consented,
          gv_unlimited_warning = (consented
            \<or> surface = PermitSign \<and> da_is_unbounded detected \<and> \<not> da_is_reducing detected),
          gv_increase_total = increase_total E m detected choice,
          gv_decimals_unverified =
            (if surface = ApprovalEditorSurface \<and> shows_amount (gm_editor m) then \<not> mv_verified meta
             else if surface = PermitSign
             then \<not> da_is_boolean_grant detected \<and> \<not> da_is_unbounded detected \<and> \<not> mv_verified meta
             else False),
          gv_batch = None\<rparr>)"

definition guard_view_of :: "'td guard_env \<Rightarrow> guard_model \<Rightarrow> guard_view" where
  "guard_view_of E m =
     (case gm_batch m of
        Some batch \<Rightarrow> batch_guard_view E m batch
      | None \<Rightarrow> (case gm_detected m of
          Some detected \<Rightarrow> single_guard_view E m detected
        | None \<Rightarrow> \<lparr>gv_surface = SurfaceNone, gv_detected = None, gv_meta = effective_meta m, gv_editor = None,
            gv_confirm_allowed = True, gv_rewritten_params_json = None, gv_unlimited_consented = False,
            gv_unlimited_warning = False, gv_increase_total = None, gv_decimals_unverified = False, gv_batch = None\<rparr>))"

section \<open>An invariant of the machine\<close>

text \<open>An editor fits what was detected: an amount card for an amount, a boolean card for a boolean grant.\<close>

fun editor_fits :: "detected_approval \<Rightarrow> editor \<Rightarrow> bool" where
  "editor_fits d NoEditor \<longleftrightarrow> True"
| "editor_fits d (AmountEditor mode t) \<longleftrightarrow> \<not> da_is_boolean_grant d"
| "editor_fits d (BooleanEditor p) \<longleftrightarrow> da_is_boolean_grant d"

definition leg_ok :: "bool \<Rightarrow> leg \<Rightarrow> bool" where
  "leg_ok editable l \<longleftrightarrow> lg_editor l = NoEditor
     \<or> (\<exists>d. lg_detected l = Some d \<and> leg_shows_editor editable d \<and> editor_fits d (lg_editor l))"

definition single_ok :: "detected_approval option \<Rightarrow> editor \<Rightarrow> bool" where
  "single_ok detected e \<longleftrightarrow> e = NoEditor
     \<or> (\<exists>d. detected = Some d \<and> \<not> typed_locus (da_locus d) \<and> editor_fits d e)"

definition legs_ok :: "guard_model \<Rightarrow> bool" where
  "legs_ok m \<longleftrightarrow> (\<forall>batch. gm_batch m = Some batch \<longrightarrow> (\<forall>l\<in>set (bs_legs batch). leg_ok (\<not> gm_read_only m) l))"

definition guard_inv :: "guard_model \<Rightarrow> bool" where
  "guard_inv m \<longleftrightarrow> single_ok (gm_detected m) (gm_editor m) \<and> legs_ok m"

text \<open>A handler of an editor never changes which card it is.\<close>

definition keeps_card :: "(editor \<Rightarrow> editor \<times> guard_command) \<Rightarrow> bool" where
  "keeps_card f \<longleftrightarrow> (\<forall>e. (e = NoEditor \<longrightarrow> fst (f e) = NoEditor) \<and> (\<forall>d. editor_fits d e \<longrightarrow> editor_fits d (fst (f e))))"

lemma keeps_card_handlers [intro!, simp]:
  "keeps_card (\<lambda>e. set_custom_text e t)" "keeps_card (\<lambda>e. set_bool_pick e p)"
  "keeps_card (\<lambda>e. apply_preset E e d meta balance mode)"
proof -
  have "editor_fits d' (fst (set_custom_text e t))" if "editor_fits d' e" for d' e using that by (cases e) simp_all
  then show "keeps_card (\<lambda>e. set_custom_text e t)" by (simp add: keeps_card_def)
  have "editor_fits d' (fst (set_bool_pick e p))" if "editor_fits d' e" for d' e using that by (cases e) simp_all
  then show "keeps_card (\<lambda>e. set_bool_pick e p)" by (simp add: keeps_card_def)
  have "editor_fits d' (fst (apply_preset E e d meta balance mode))" if "editor_fits d' e" for d' e
    using that by (cases e) simp_all
  then show "keeps_card (\<lambda>e. apply_preset E e d meta balance mode)" by (simp add: keeps_card_def)
qed

lemma init_editor_fits: "editor_fits d (init_editor E d)"
  by (simp add: init_editor_def)

lemma on_editor_inv: "keeps_card f \<Longrightarrow> guard_inv m \<Longrightarrow> guard_inv (snd (on_editor m f))"
  by (auto simp: on_editor_def guard_inv_def single_ok_def legs_ok_def keeps_card_def split: prod.splits) (metis fst_conv)+

lemma on_leg_inv:
  assumes "keeps_card f" and "guard_inv m"
  shows "guard_inv (snd (on_leg m i f))"
proof (cases "\<exists>batch. gm_batch m = Some batch \<and> i < length (bs_legs batch)")
  case True
  then obtain batch where b: "gm_batch m = Some batch" "i < length (bs_legs batch)" by blast
  obtain e cmd where f: "f (lg_editor (bs_legs batch ! i)) = (e, cmd)" by (rule prod.exhaust)
  have "leg_ok (\<not> gm_read_only m) (bs_legs batch ! i)" using assms(2) b by (auto simp: guard_inv_def legs_ok_def)
  then have "leg_ok (\<not> gm_read_only m) ((bs_legs batch ! i)\<lparr>lg_editor := e\<rparr>)"
    using assms(1) f by (auto simp: leg_ok_def keeps_card_def) (metis fst_conv)+
  then show ?thesis using assms(2) b f
    by (auto simp: on_leg_def guard_inv_def legs_ok_def Let_def dest!: set_update_subset_insert [THEN subsetD])
next
  case False
  with assms(2) show ?thesis by (auto simp: on_leg_def split: option.splits)
qed

lemma batch_leg_ok: "leg_ok editable (batch_leg E editable call)"
  by (auto simp: leg_ok_def batch_leg_def Let_def init_editor_fits split: option.splits)

lemma start_batch_inv:
  assumes "gm_detected m = None" and "gm_editor m = NoEditor" and "gm_batch m = None" and "start_batch E m = (m', ops)"
  shows "guard_inv m'"
proof -
  have "m' = m \<or> (\<exists>legs meta. m' = m\<lparr>gm_batch := Some \<lparr>bs_legs = legs, bs_meta = meta, bs_recipients = []\<rparr>\<rparr>
      \<and> (\<forall>l\<in>set legs. leg_ok (\<not> gm_read_only m) l))"
    using assms(4) unfolding start_batch_def Let_def
    by (fastforce simp: batch_leg_ok split: option.splits list.splits if_splits prod.splits)
  with assms(1-3) show ?thesis by (auto simp: guard_inv_def single_ok_def legs_ok_def)
qed

lemma start_single_inv:
  assumes "gm_editor m = NoEditor" and "gm_batch m = None" and "start_single E m d = (m', ops)"
  shows "guard_inv m'"
proof -
  have "gm_detected m' = Some d" "gm_batch m' = None"
    "gm_editor m' = (if typed_locus (da_locus d) then NoEditor else init_editor E d)"
    using assms unfolding start_single_def Let_def by (auto split: option.splits if_splits prod.splits)
  then show ?thesis by (simp add: guard_inv_def single_ok_def legs_ok_def init_editor_fits)
qed

lemma start_inv: "guard_inv (snd (guard_start E m method_name params_json chain_id wallet read_only))"
proof -
  let ?m = "m\<lparr>gm_attempt := gm_attempt m + 1, gm_method := method_name, gm_chain_id := chain_id,
      gm_wallet := wallet, gm_read_only := read_only, gm_detected := None, gm_editor := NoEditor,
      gm_meta := MetaResolved None, gm_allowance := AllowanceNotApplicable, gm_balance := None, gm_batch := None,
      gm_params := (case te_parse (ge_typed E) params_json of Inl _ \<Rightarrow> None | Inr v \<Rightarrow> Some v)\<rparr>"
  obtain m' ops where r: "(if method_name = ''wallet_sendCalls'' then start_batch E ?m
      else case detect_approval E method_name (gm_params ?m) of
          Some detected \<Rightarrow> start_single E ?m detected | None \<Rightarrow> (?m, [])) = (m', ops)"
    by (rule prod.exhaust)
  have "guard_inv m'"
  proof (cases "method_name = ''wallet_sendCalls''")
    case True
    then have "start_batch E ?m = (m', ops)" using r by simp
    then show ?thesis by (rule start_batch_inv [rotated 3]) simp_all
  next
    case False
    note r = r [unfolded if_not_P [OF False]]
    show ?thesis
    proof (cases "detect_approval E method_name (gm_params ?m)")
      case None
      then have "m' = ?m" using r by simp
      then show ?thesis by (simp add: guard_inv_def single_ok_def legs_ok_def)
    next
      case (Some d)
      then have "start_single E ?m d = (m', ops)" using r by simp
      then show ?thesis by (rule start_single_inv [rotated 2]) simp_all
    qed
  qed
  then show ?thesis unfolding guard_start_def Let_def r by simp
qed

lemma accept_inv: "guard_inv m \<Longrightarrow> guard_inv (snd (accept_result E m result))"
  by (cases result) (auto simp: accept_result_def accept_batch_meta_def guard_inv_def legs_ok_def Let_def
      split: option.splits batch_meta.splits)

lemma update_inv:
  assumes "guard_inv m"
  shows "guard_inv (snd (guard_update E m e))"
proof (cases e)
  case (PresetSelected mode)
  then show ?thesis using assms on_editor_inv by (cases "gm_detected m") simp_all
next
  case (LegPresetSelected i mode)
  then show ?thesis using assms on_leg_inv by (cases "leg_context m i") (simp_all add: case_prod_beta)
next
  case (BatchRecipientsResolved rs)
  then show ?thesis using assms by (cases "gm_batch m") (auto simp: guard_inv_def legs_ok_def)
qed (use assms in \<open>simp_all add: start_inv on_editor_inv on_leg_inv accept_inv\<close>)

lemma init_inv: "guard_inv guard_init"
  by (simp add: guard_inv_def single_ok_def legs_ok_def guard_init_def)

interpretation guard: event_machine "guard_update E" guard_init guard_inv for E
  by unfold_locales (rule init_inv, rule update_inv)

section \<open>What the machine remembers of the request\<close>

definition request_inv :: "'td guard_env \<Rightarrow> guard_model \<Rightarrow> bool" where
  "request_inv E m \<longleftrightarrow>
     (\<forall>d. gm_detected m = Some d \<longrightarrow> detect_approval E (gm_method m) (gm_params m) = Some d)
     \<and> (\<forall>batch. gm_batch m = Some batch \<longrightarrow> (\<forall>l\<in>set (bs_legs batch). lg_detected l
          = detect_calldata_approval E (Option.bind (get (lg_call l) ''to'') as_str) (Option.bind (get (lg_call l) ''data'') as_str)))"

lemma on_editor_request: "request_inv E m \<Longrightarrow> request_inv E (snd (on_editor m f))"
  by (simp add: on_editor_def request_inv_def split: prod.splits)

lemma on_leg_request:
  assumes "request_inv E m"
  shows "request_inv E (snd (on_leg m i f))"
proof (cases "\<exists>batch. gm_batch m = Some batch \<and> i < length (bs_legs batch)")
  case True
  then obtain batch where b: "gm_batch m = Some batch" "i < length (bs_legs batch)" by blast
  obtain e cmd where f: "f (lg_editor (bs_legs batch ! i)) = (e, cmd)" by (rule prod.exhaust)
  have "bs_legs batch ! i \<in> set (bs_legs batch)" using b(2) by simp
  with assms b f show ?thesis
    by (auto simp: on_leg_def request_inv_def Let_def dest!: set_update_subset_insert [THEN subsetD])
next
  case False
  with assms show ?thesis by (auto simp: on_leg_def split: option.splits)
qed

lemma start_request: "request_inv E (snd (guard_start E m method_name params_json chain_id wallet read_only))"
proof -
  let ?m = "m\<lparr>gm_attempt := gm_attempt m + 1, gm_method := method_name, gm_chain_id := chain_id,
      gm_wallet := wallet, gm_read_only := read_only, gm_detected := None, gm_editor := NoEditor,
      gm_meta := MetaResolved None, gm_allowance := AllowanceNotApplicable, gm_balance := None, gm_batch := None,
      gm_params := (case te_parse (ge_typed E) params_json of Inl _ \<Rightarrow> None | Inr v \<Rightarrow> Some v)\<rparr>"
  obtain m' ops where r: "(if method_name = ''wallet_sendCalls'' then start_batch E ?m
      else case detect_approval E method_name (gm_params ?m) of
          Some detected \<Rightarrow> start_single E ?m detected | None \<Rightarrow> (?m, [])) = (m', ops)"
    by (rule prod.exhaust)
  have "request_inv E m'"
  proof (cases "method_name = ''wallet_sendCalls''")
    case True
    then have "start_batch E ?m = (m', ops)" using r by simp
    then have "m' = ?m \<or> (\<exists>legs meta. m' = ?m\<lparr>gm_batch := Some \<lparr>bs_legs = legs, bs_meta = meta, bs_recipients = []\<rparr>\<rparr>
        \<and> (\<forall>l\<in>set legs. lg_detected l = detect_calldata_approval E (Option.bind (get (lg_call l) ''to'') as_str)
             (Option.bind (get (lg_call l) ''data'') as_str)))"
      unfolding start_batch_def Let_def
      by (fastforce simp: batch_leg_def Let_def split: option.splits list.splits if_splits prod.splits)
    then show ?thesis by (auto simp: request_inv_def)
  next
    case False
    note r = r [unfolded if_not_P [OF False]]
    show ?thesis
    proof (cases "detect_approval E method_name (gm_params ?m)")
      case None
      then have "m' = ?m" using r by simp
      then show ?thesis by (simp add: request_inv_def)
    next
      case (Some d)
      then have "start_single E ?m d = (m', ops)" using r by simp
      then have "gm_detected m' = Some d" "gm_batch m' = None" "gm_method m' = method_name" "gm_params m' = gm_params ?m"
        unfolding start_single_def Let_def by (auto split: option.splits if_splits prod.splits)
      with Some show ?thesis by (simp add: request_inv_def)
    qed
  qed
  then show ?thesis unfolding guard_start_def Let_def r by simp
qed

lemma accept_request: "request_inv E m \<Longrightarrow> request_inv E (snd (accept_result F m result))"
  by (cases result) (auto simp: accept_result_def accept_batch_meta_def request_inv_def Let_def
      split: option.splits batch_meta.splits)

lemma update_request:
  assumes "request_inv E m"
  shows "request_inv E (snd (guard_update E m e))"
proof (cases e)
  case (PresetSelected mode)
  then show ?thesis using assms on_editor_request by (cases "gm_detected m") simp_all
next
  case (LegPresetSelected i mode)
  then show ?thesis using assms on_leg_request by (cases "leg_context m i") (simp_all add: case_prod_beta)
next
  case (BatchRecipientsResolved rs)
  then show ?thesis using assms by (cases "gm_batch m") (auto simp: request_inv_def)
qed (use assms in \<open>simp_all add: start_request on_editor_request on_leg_request accept_request\<close>)

lemma init_request: "request_inv E guard_init"
  by (simp add: request_inv_def guard_init_def)

interpretation remembered: event_machine "guard_update E" guard_init "request_inv E" for E
  by unfold_locales (rule init_request, rule update_request)

section \<open>Consent\<close>

lemma derived_unlimited:
  assumes "Option.bind (derive_editor E e d meta balance) ev_choice = Some Unlimited"
  shows "e \<noteq> NoEditor" and "da_is_unbounded d" and "\<not> da_is_boolean_grant d"
proof -
  obtain mode t where e: "e = AmountEditor mode t"
    using assms by (cases e) (auto split: bool_pick.splits, metis bool_pick.exhaust)
  have "typed_choice E t dec bits \<noteq> (Some Unlimited, x)" for dec bits x
    by (auto simp: typed_choice_def Let_def split: option.splits)
  moreover obtain err disp where "amount_choice E mode t d meta balance = (Some Unlimited, err, disp)"
    using assms e by (auto simp: Let_def split: prod.splits)
  ultimately have "mode = ModeRequested \<and> da_is_unbounded d \<and> \<not> da_is_boolean_grant d"
    by (auto simp: amount_choice_def Let_def split: if_splits)
  with e show "e \<noteq> NoEditor" "da_is_unbounded d" "\<not> da_is_boolean_grant d" by simp_all
qed

text \<open>
  C5: an unlimited allowance is never consented to unseen. Whenever the view says the person kept an unlimited
  amount, the warning is drawn; on a single approval it is the amount of the detected approval that is
  unbounded and its editor that shows it, and in a batch it is a leg whose card is shown.
\<close>

theorem consent_is_shown:
  assumes "reachable (guard_update E) guard_init m" and "gv_unlimited_consented (guard_view_of E m)"
  shows "gv_unlimited_warning (guard_view_of E m)
    \<and> (case gv_batch (guard_view_of E m) of
         None \<Rightarrow> (\<exists>d. gv_detected (guard_view_of E m) = Some d \<and> da_is_unbounded d \<and> \<not> da_is_boolean_grant d
           \<and> gv_surface (guard_view_of E m) = ApprovalEditorSurface)
       | Some b \<Rightarrow> (\<exists>l\<in>set (bw_legs b). lv_choice l = Some Unlimited \<and> lv_needs_editor l \<and> lv_grants_broad l))"
proof -
  have inv: "guard_inv m" using assms(1) by (rule guard.inv_reachable)
  show ?thesis
  proof (cases "gm_batch m")
    case (Some batch)
    let ?legs = "map (project_leg E (\<not> gm_read_only m) batch) (bs_legs batch)"
    have view: "guard_view_of E m = batch_guard_view E m batch" by (simp add: guard_view_of_def Some)
    obtain l where l: "l \<in> set (bs_legs batch)" "lv_choice (project_leg E (\<not> gm_read_only m) batch l) = Some Unlimited"
      using assms(2) by (auto simp: view batch_guard_view_def build_batch_view_def Let_def list_ex_iff split: prod.splits)
    then obtain d where d: "lg_detected l = Some d"
        "Option.bind (derive_editor E (lg_editor l) d (leg_meta batch d) None) ev_choice = Some Unlimited"
      by (cases "lg_detected l") (auto simp: project_leg_def Let_def)
    note u = derived_unlimited [OF d(2)]
    have "leg_ok (\<not> gm_read_only m) l" using inv Some l(1) by (simp add: guard_inv_def legs_ok_def)
    then have shows_card: "leg_shows_editor (\<not> gm_read_only m) d" using u(1) d(1) by (auto simp: leg_ok_def)
    let ?v = "project_leg E (\<not> gm_read_only m) batch l"
    have v: "lv_needs_editor ?v" "lv_grants_broad ?v"
      using shows_card u d by (simp_all add: project_leg_def Let_def leg_grants_broad_def leg_shows_editor_def)
    have mem: "?v \<in> set (bw_legs (build_batch_view E m batch))" using l(1) by (simp add: build_batch_view_def Let_def)
    have "bw_any_uncapped (build_batch_view E m batch)"
      using v(2) l(1) shows_card by (auto simp: build_batch_view_def Let_def list_ex_iff leg_shows_editor_def)
    then show ?thesis using v l(2) mem
      by (auto simp: view batch_guard_view_def Let_def split: prod.splits)
  next
    case None
    then obtain d where d: "gm_detected m = Some d"
      using assms(2) by (auto simp: guard_view_of_def split: option.splits)
    have view: "guard_view_of E m = single_guard_view E m d" by (simp add: guard_view_of_def None d)
    have c: "Option.bind (derive_editor E (gm_editor m) d (effective_meta m) (gm_balance m)) ev_choice = Some Unlimited"
      using assms(2) by (simp add: view single_guard_view_def Let_def)
    note u = derived_unlimited [OF c]
    have "\<not> typed_locus (da_locus d)" using inv u(1) d by (auto simp: guard_inv_def single_ok_def)
    with u c show ?thesis by (simp add: view single_guard_view_def Let_def)
  qed
qed

section \<open>A grant of everything is a deliberate tap\<close>

text \<open>A history is the events so far, the latest first; a new request starts it over.\<close>

inductive guard_run :: "'td guard_env \<Rightarrow> guard_event list \<Rightarrow> guard_model \<Rightarrow> bool" for E where
  guard_run_start: "guard_run E [] guard_init"
| guard_run_step: "guard_run E es m \<Longrightarrow> guard_update E m e = (cmd, m') \<Longrightarrow> guard_run E (e # es) m'"

fun is_detection :: "guard_event \<Rightarrow> bool" where
  "is_detection (ApprovalDetected method_name params_json chain_id wallet read_only) \<longleftrightarrow> True"
| "is_detection _ \<longleftrightarrow> False"

definition since :: "guard_event list \<Rightarrow> guard_event list" where
  "since es = takeWhile (\<lambda>e. \<not> is_detection e) es"

definition granted :: "editor \<Rightarrow> bool" where
  "granted e \<longleftrightarrow> e = BooleanEditor (Some PickGrant)"

definition tapped :: "guard_event list \<Rightarrow> guard_model \<Rightarrow> bool" where
  "tapped es m \<longleftrightarrow> (granted (gm_editor m) \<longrightarrow> GrantDeliberatelyChosen \<in> set (since es))
     \<and> (\<forall>batch. gm_batch m = Some batch \<longrightarrow> (\<forall>i < length (bs_legs batch).
          granted (lg_editor (bs_legs batch ! i)) \<longrightarrow> LegGrantDeliberatelyChosen i \<in> set (since es)))"

lemma granted_simps [simp]:
  "\<not> granted NoEditor" "\<not> granted (AmountEditor mode t)" "granted (BooleanEditor p) \<longleftrightarrow> p = Some PickGrant"
  "\<not> granted (init_editor E d)"
  by (simp_all add: granted_def init_editor_def)

lemma handlers_ungranted:
  "granted (fst (set_custom_text e t)) \<Longrightarrow> granted e"
  "granted (fst (set_bool_pick e PickRevoke)) \<Longrightarrow> granted e"
  "granted (fst (apply_preset E e d meta balance mode)) \<Longrightarrow> granted e"
  by (cases e; simp split: if_splits)+

lemma since_Cons: "\<not> is_detection e \<Longrightarrow> since (e # es) = e # since es"
  by (simp add: since_def)

lemma tapped_later: "\<not> is_detection e \<Longrightarrow> tapped es m \<Longrightarrow> tapped (e # es) m"
  by (auto simp: tapped_def since_Cons)

lemma tapped_on_editor:
  assumes "tapped es m" and "\<not> is_detection e"
    and "\<And>ed. granted (fst (f ed)) \<Longrightarrow> granted ed \<or> e = GrantDeliberatelyChosen"
  shows "tapped (e # es) (snd (on_editor m f))"
proof -
  obtain ed cmd where f: "f (gm_editor m) = (ed, cmd)" by (rule prod.exhaust)
  with assms(3) [of "gm_editor m"] assms(1,2) show ?thesis
    by (auto simp: on_editor_def tapped_def since_Cons)
qed

lemma tapped_on_leg:
  assumes "tapped es m" and "\<not> is_detection e"
    and "\<And>ed. granted (fst (f ed)) \<Longrightarrow> granted ed \<or> e = LegGrantDeliberatelyChosen i"
  shows "tapped (e # es) (snd (on_leg m i f))"
proof (cases "\<exists>batch. gm_batch m = Some batch \<and> i < length (bs_legs batch)")
  case True
  then obtain batch where b: "gm_batch m = Some batch" "i < length (bs_legs batch)" by blast
  obtain ed cmd where f: "f (lg_editor (bs_legs batch ! i)) = (ed, cmd)" by (rule prod.exhaust)
  have old: "granted (lg_editor (bs_legs batch ! j)) \<longrightarrow> LegGrantDeliberatelyChosen j \<in> set (since es)"
    if "j < length (bs_legs batch)" for j
    using assms(1) b(1) that by (simp add: tapped_def)
  have "granted ed \<longrightarrow> LegGrantDeliberatelyChosen i \<in> set (since (e # es))"
    using assms(3) [of "lg_editor (bs_legs batch ! i)"] f old [OF b(2)] assms(2) by (auto simp: since_Cons)
  with old assms(1,2) b f show ?thesis
    by (auto simp: on_leg_def tapped_def Let_def since_Cons nth_list_update)
next
  case False
  then have "snd (on_leg m i f) = m" by (auto simp: on_leg_def split: option.splits)
  with tapped_later [OF assms(2,1)] show ?thesis by simp
qed

lemma start_ungranted:
  assumes "guard_start E m method_name params_json chain_id wallet read_only = (cmd, m')"
  shows "tapped es m'"
proof -
  let ?m = "m\<lparr>gm_attempt := gm_attempt m + 1, gm_method := method_name, gm_chain_id := chain_id,
      gm_wallet := wallet, gm_read_only := read_only, gm_detected := None, gm_editor := NoEditor,
      gm_meta := MetaResolved None, gm_allowance := AllowanceNotApplicable, gm_balance := None, gm_batch := None,
      gm_params := (case te_parse (ge_typed E) params_json of Inl _ \<Rightarrow> None | Inr v \<Rightarrow> Some v)\<rparr>"
  obtain n ops where r: "(if method_name = ''wallet_sendCalls'' then start_batch E ?m
      else case detect_approval E method_name (gm_params ?m) of
          Some detected \<Rightarrow> start_single E ?m detected | None \<Rightarrow> (?m, [])) = (n, ops)"
    by (rule prod.exhaust)
  have m': "m' = n" using assms unfolding guard_start_def Let_def r by simp
  have leg: "\<not> granted (lg_editor (batch_leg E ed call))" for ed call
    by (auto simp: batch_leg_def Let_def split: option.splits)
  show ?thesis
  proof (cases "method_name = ''wallet_sendCalls''")
    case True
    then have "start_batch E ?m = (n, ops)" using r by simp
    then have "n = ?m \<or> (\<exists>legs meta. n = ?m\<lparr>gm_batch := Some \<lparr>bs_legs = legs, bs_meta = meta, bs_recipients = []\<rparr>\<rparr>
        \<and> (\<forall>l\<in>set legs. \<not> granted (lg_editor l)))"
      unfolding start_batch_def Let_def
      by (fastforce simp: leg split: option.splits list.splits if_splits prod.splits)
    then show ?thesis unfolding m' by (auto simp: tapped_def)
  next
    case False
    note r = r [unfolded if_not_P [OF False]]
    show ?thesis
    proof (cases "detect_approval E method_name (gm_params ?m)")
      case None
      then have "n = ?m" using r by simp
      then show ?thesis unfolding m' by (simp add: tapped_def)
    next
      case (Some d)
      then have "start_single E ?m d = (n, ops)" using r by simp
      then have "gm_batch n = None" "\<not> granted (gm_editor n)"
        unfolding start_single_def Let_def by (auto split: option.splits if_splits prod.splits)
      then show ?thesis unfolding m' by (simp add: tapped_def)
    qed
  qed
qed

lemma accept_tapped:
  assumes "tapped es m"
  shows "tapped es (snd (accept_result E m result))"
  using assms by (cases result) (auto simp: accept_result_def accept_batch_meta_def tapped_def Let_def
      split: option.splits batch_meta.splits)

lemma update_tapped:
  assumes "tapped es m"
  shows "tapped (e # es) (snd (guard_update E m e))"
proof (cases e)
  case (ApprovalDetected method_name params_json chain_id wallet read_only)
  obtain cmd m' where s: "guard_start E m method_name params_json chain_id wallet read_only = (cmd, m')" by (rule prod.exhaust)
  from start_ungranted [OF s] show ?thesis by (simp add: ApprovalDetected s)
next
  case (PresetSelected mode)
  show ?thesis
  proof (cases "gm_detected m")
    case None
    then show ?thesis using tapped_later [OF _ assms] PresetSelected by simp
  next
    case (Some d)
    have "tapped (e # es) (snd (on_editor m (\<lambda>e. apply_preset E e d (effective_meta m) (gm_balance m) mode)))"
      by (rule tapped_on_editor [OF assms]) (use handlers_ungranted(3) in \<open>auto simp: PresetSelected\<close>)
    then show ?thesis by (simp add: PresetSelected Some)
  qed
next
  case (LegPresetSelected i mode)
  show ?thesis
  proof (cases "leg_context m i")
    case None
    then show ?thesis using tapped_later [OF _ assms] LegPresetSelected by simp
  next
    case (Some c)
    have "tapped (e # es) (snd (on_leg m i (\<lambda>e. apply_preset E e (fst c) (snd c) None mode)))"
      by (rule tapped_on_leg [OF assms]) (use handlers_ungranted(3) in \<open>auto simp: LegPresetSelected\<close>)
    then show ?thesis by (simp add: LegPresetSelected Some case_prod_beta)
  qed
next
  case (BatchRecipientsResolved rs)
  have "tapped (e # es) m" using tapped_later [OF _ assms] BatchRecipientsResolved by simp
  then show ?thesis by (cases "gm_batch m") (auto simp: tapped_def BatchRecipientsResolved)
next
  case (GuardShellCompleted attempt result)
  have "tapped (e # es) m" using tapped_later [OF _ assms] GuardShellCompleted by simp
  then show ?thesis using accept_tapped [of "e # es" m E result] by (auto simp: GuardShellCompleted)
next
  case (CustomAmountChanged t)
  have "tapped (e # es) (snd (on_editor m (\<lambda>e. set_custom_text e t)))"
    by (rule tapped_on_editor [OF assms]) (simp add: CustomAmountChanged, rule disjI1, erule handlers_ungranted(1))
  then show ?thesis by (simp add: CustomAmountChanged)
next
  case GrantDeliberatelyChosen
  have "tapped (e # es) (snd (on_editor m (\<lambda>e. set_bool_pick e PickGrant)))"
    by (rule tapped_on_editor [OF assms]) (simp_all add: GrantDeliberatelyChosen)
  then show ?thesis by (simp add: GrantDeliberatelyChosen)
next
  case RevokeChosen
  have "tapped (e # es) (snd (on_editor m (\<lambda>e. set_bool_pick e PickRevoke)))"
    by (rule tapped_on_editor [OF assms]) (simp add: RevokeChosen, rule disjI1, erule handlers_ungranted(2))
  then show ?thesis by (simp add: RevokeChosen)
next
  case (LegCustomAmountChanged i t)
  have "tapped (e # es) (snd (on_leg m i (\<lambda>e. set_custom_text e t)))"
    by (rule tapped_on_leg [OF assms]) (simp add: LegCustomAmountChanged, rule disjI1, erule handlers_ungranted(1))
  then show ?thesis by (simp add: LegCustomAmountChanged)
next
  case (LegGrantDeliberatelyChosen i)
  have "tapped (e # es) (snd (on_leg m i (\<lambda>e. set_bool_pick e PickGrant)))"
    by (rule tapped_on_leg [OF assms]) (simp_all add: LegGrantDeliberatelyChosen)
  then show ?thesis by (simp add: LegGrantDeliberatelyChosen)
next
  case (LegRevokeChosen i)
  have "tapped (e # es) (snd (on_leg m i (\<lambda>e. set_bool_pick e PickRevoke)))"
    by (rule tapped_on_leg [OF assms]) (simp add: LegRevokeChosen, rule disjI1, erule handlers_ungranted(2))
  then show ?thesis by (simp add: LegRevokeChosen)
qed

lemma run_tapped: "guard_run E es m \<Longrightarrow> tapped es m"
proof (induction rule: guard_run.induct)
  case guard_run_start
  show ?case by (simp add: tapped_def guard_init_def)
next
  case (guard_run_step es m e cmd m')
  then show ?case using update_tapped [of es m e E] by simp
qed

lemma derived_grant:
  assumes "Option.bind (derive_editor E e d meta balance) ev_choice = Some Grant"
  shows "granted e"
proof (cases e)
  case (AmountEditor mode t)
  have "typed_choice E t dec bits \<noteq> (Some Grant, x)" for dec bits x
    by (auto simp: typed_choice_def Let_def split: option.splits)
  moreover obtain err disp where "amount_choice E mode t d meta balance = (Some Grant, err, disp)"
    using assms AmountEditor by (auto simp: Let_def split: prod.splits)
  ultimately show ?thesis by (auto simp: amount_choice_def Let_def split: if_splits)
next
  case (BooleanEditor p)
  then obtain pick where "p = Some pick" using assms by (cases p) simp_all
  then show ?thesis using assms BooleanEditor by (cases pick) simp_all
qed (use assms in simp)

text \<open>
  C6: a grant of everything is a deliberate tap. In every run, when a view carries the choice to grant all, of the
  single approval or of a leg of the batch, the tap on that very card came after the request was detected.
\<close>

theorem grant_needs_tap:
  assumes "guard_run E es m"
  shows "(\<forall>ev. gv_editor (guard_view_of E m) = Some ev \<longrightarrow> ev_choice ev = Some Grant
       \<longrightarrow> GrantDeliberatelyChosen \<in> set (since es))
    \<and> (\<forall>b i. gv_batch (guard_view_of E m) = Some b \<longrightarrow> i < length (bw_legs b) \<longrightarrow> lv_choice (bw_legs b ! i) = Some Grant
       \<longrightarrow> LegGrantDeliberatelyChosen i \<in> set (since es))"
proof (intro conjI allI impI)
  note t = run_tapped [OF assms, unfolded tapped_def]
  fix ev assume ev: "gv_editor (guard_view_of E m) = Some ev" "ev_choice ev = Some Grant"
  then obtain d where d: "gm_batch m = None" "gm_detected m = Some d"
    by (auto simp: guard_view_of_def batch_guard_view_def Let_def split: option.splits prod.splits)
  then have "Option.bind (derive_editor E (gm_editor m) d (effective_meta m) (gm_balance m)) ev_choice = Some Grant"
    using ev by (simp add: guard_view_of_def single_guard_view_def Let_def)
  from derived_grant [OF this] t show "GrantDeliberatelyChosen \<in> set (since es)" by blast
next
  note t = run_tapped [OF assms, unfolded tapped_def]
  fix b i assume b: "gv_batch (guard_view_of E m) = Some b" "i < length (bw_legs b)" "lv_choice (bw_legs b ! i) = Some Grant"
  then obtain batch where batch: "gm_batch m = Some batch" "b = build_batch_view E m batch"
    by (cases "gm_batch m") (auto simp: guard_view_of_def single_guard_view_def batch_guard_view_def Let_def split: option.splits prod.splits)
  then have i: "i < length (bs_legs batch)" using b(2) by (simp add: build_batch_view_def Let_def)
  then have "lv_choice (project_leg E (\<not> gm_read_only m) batch (bs_legs batch ! i)) = Some Grant"
    using b(3) batch(2) by (simp add: build_batch_view_def Let_def)
  then obtain d where "Option.bind (derive_editor E (lg_editor (bs_legs batch ! i)) d (leg_meta batch d) None) ev_choice = Some Grant"
    by (cases "lg_detected (bs_legs batch ! i)") (auto simp: project_leg_def Let_def)
  from derived_grant [OF this] t batch(1) i show "LegGrantDeliberatelyChosen i \<in> set (since es)" by blast
qed

section \<open>What was re-encoded passes\<close>

lemma typed_detection_fits: "detect_typed_data_approval E td = Some d \<Longrightarrow> typed_locus (da_locus d)"
  by (auto simp: detect_typed_data_approval_def permit_approval_def Let_def split: if_splits)

lemma editor_only_for_transactions:
  assumes "detect_approval E name params = Some d" and "\<not> typed_locus (da_locus d)"
  shows "name = ''eth_sendTransaction''"
  using assms typed_detection_fits by (auto simp: detect_approval_def split: option.splits list.splits if_splits sum.splits)

text \<open>
  C13: what the person chose goes out and passes the check. When the view of a single request carries re-encoded
  parameters, they are the parameters of the request with new data for its transaction, and the check at
  submit lets them through without anyone's consent to an unlimited amount.
\<close>

theorem rewritten_request_passes:
  assumes "guard_contract E" and "reachable (guard_update E) guard_init m" and "gm_batch m = None"
    and "gm_params m = Some (Array (tx # rest))" and "get tx ''data'' = Some (String data)"
    and "from_hex data = Inr bs" and "CHR ''+'' \<notin> set data"
    and "gv_rewritten_params_json (guard_view_of E m) = Some rewritten"
  shows "\<exists>kvs out. as_object tx = Some kvs
    \<and> rewritten = te_print (ge_typed E) (Array (Object (insert_key ''data'' (String out) kvs) # rest))
    \<and> enforce_no_unlimited E (gm_method m) (Some (Array (Object (insert_key ''data'' (String out) kvs) # rest))) = Inr ()"
proof -
  have inv: "guard_inv m" "request_inv E m" using assms(2) by (rule guard.inv_reachable remembered.inv_reachable)+
  obtain d where d: "gm_detected m = Some d"
    using assms(3,8) by (auto simp: guard_view_of_def split: option.splits)
  let ?choice = "Option.bind (derive_editor E (gm_editor m) d (effective_meta m) (gm_balance m)) ev_choice"
  have rw: "single_rewrite E m d ?choice = Some rewritten"
    using assms(3,8) d by (simp add: guard_view_of_def single_guard_view_def Let_def)
  then obtain c where c: "?choice = Some c" "c \<noteq> Unlimited"
    by (cases ?choice) (auto simp: single_rewrite_def split: if_splits)
  then have "gm_editor m \<noteq> NoEditor" by auto
  then have calldata: "\<not> typed_locus (da_locus d)" using inv(1) d by (auto simp: guard_inv_def single_ok_def)
  have det: "detect_approval E (gm_method m) (Some (Array (tx # rest))) = Some d"
    using inv(2) d assms(4) by (simp add: request_inv_def)
  then have sends: "gm_method m = ''eth_sendTransaction''" using calldata by (rule editor_only_for_transactions)
  obtain kvs where kvs: "as_object tx = Some kvs" "tx = Object kvs"
    using det sends by (cases tx) (auto simp: detect_approval_def)
  have call: "detect_calldata_approval E (Option.bind (get tx ''to'') as_str) (Some data) = Some d"
    using det detect_send [of tx data E rest] kvs(1) assms(5) by (simp add: sends)
  obtain out where out: "rewrite_calldata E data d c = Inr out"
    "rewritten = te_print (ge_typed E) (Array (Object (insert_key ''data'' (String out) kvs) # rest))"
  proof -
    obtain v where v: "rewrite_approval_params E (gm_method m) (Array (tx # rest)) d c = Inr v"
        "rewritten = te_print (ge_typed E) v"
      using rw c assms(4) by (auto simp: single_rewrite_def split: if_splits sum.splits)
    then show ?thesis using that kvs assms(5)
      by (auto simp: rewrite_approval_params_def sends try_with_Inr)
  qed
  from rewrite_one_word [OF assms(1,6,7) call out(1)] obtain i n where
    new: "from_hex out = Inr (with_word bs (unat (i :: u32)) n)"
    and safe: "c \<noteq> Unlimited \<longrightarrow> \<not> grants_unbounded (with_word bs (unat i) n)"
    by (elim exE conjE)
  note n = new mp [OF safe c(2)]
  let ?tx = "Object (insert_key ''data'' (String out) kvs)"
  have plus: "CHR ''+'' \<notin> set out" by (rule rewrite_no_plus [OF assms(1,7) out(1)])
  have "get ?tx ''data'' = Some (String out)" by (subst get_insert_key) simp
  then have "detect_approval E ''eth_sendTransaction'' (Some (Array (?tx # rest)))
      = detected_bytes E (Option.bind (get ?tx ''to'') as_str) (with_word bs (unat i) n)"
    using detect_send [of ?tx out E rest] detect_reads_bytes [OF assms(1) n(1) plus] by simp
  from verdict_of_bytes [OF assms(1) this] n(2)
  have "enforce_no_unlimited E ''eth_sendTransaction'' (Some (Array (?tx # rest))) = Inr ()"
    by (cases "enforce_no_unlimited E ''eth_sendTransaction'' (Some (Array (?tx # rest)))") auto
  then show ?thesis using kvs(1) out(2) sends by metis
qed

section \<open>Witnesses\<close>

definition approve_guard_env :: "json guard_env" where
  "approve_guard_env = example_guard_env\<lparr>ge_typed := example_typed_env\<lparr>te_parse := (\<lambda>s. Inr (Array [approve_max_tx]))\<rparr>\<rparr>"

lemma approve_guard_contract: "guard_contract approve_guard_env"
  using example_guard_contract by (simp add: approve_guard_env_def guard_contract_def)

definition approve_asked :: guard_event where
  "approve_asked = ApprovalDetected ''eth_sendTransaction'' ''approve'' 1 None False"

definition approve_model :: guard_model where
  "approve_model = snd (guard_update approve_guard_env guard_init approve_asked)"

lemma approve_model_reachable: "reachable (guard_update approve_guard_env) guard_init approve_model"
  unfolding approve_model_def by (rule reachable_step [OF reachable_init])

lemma approve_max_card:
  "detected_bytes E None APPROVE_MAX = Some (amount_approval E Erc20Approve None
     (addr_from_word (word_text (hex_of APPROVE_MAX) 0)) (argument APPROVE_MAX 1) 256 True False None 1)"
proof -
  have "take 4 (sel_approve @ x) = sel_approve" for x by (simp add: sel_approve_def)
  then have t: "take 4 APPROVE_MAX = sel_approve" by (simp only: APPROVE_MAX_def)
  have "2 ^ 200 \<le> argument APPROVE_MAX 1"
    using approve_max_unbounded selectors_distinct by (auto simp: grants_unbounded_def t)
  then have "(2 ^ 200 \<le> argument APPROVE_MAX 1) = True" "(argument APPROVE_MAX 1 = 0) = False" by auto
  then show ?thesis unfolding detected_bytes_def Let_def t by (simp only: simp_thms if_True option.map)
qed

lemma approve_model_facts:
  "gm_batch approve_model = None" "gm_params approve_model = Some (Array [approve_max_tx])"
  "gm_method approve_model = ''eth_sendTransaction''"
  "\<exists>d. gm_detected approve_model = Some d \<and> da_is_unbounded d \<and> \<not> da_is_boolean_grant d \<and> da_editable d
     \<and> gm_editor approve_model = AmountEditor ModeRequested [] \<and> da_locus d = CalldataWord 1 \<and> da_kind d = Erc20Approve"
proof -
  let ?E = approve_guard_env
  obtain d where d: "detect_approval ?E ''eth_sendTransaction'' (Some (Array [approve_max_tx])) = Some d"
    "da_is_unbounded d" "\<not> da_is_boolean_grant d" "da_editable d" "da_locus d = CalldataWord 1" "da_token_address d = None" "da_kind d = Erc20Approve"
  proof -
    let ?d = "amount_approval ?E Erc20Approve None (addr_from_word (word_text (hex_of APPROVE_MAX) 0)) (argument APPROVE_MAX 1)
      256 True False None 1"
    have "detect_approval ?E ''eth_sendTransaction'' (Some (Array [approve_max_tx])) = detected_bytes ?E None APPROVE_MAX"
      using detect_send [of approve_max_tx "to_hex APPROVE_MAX True" ?E "[]"]
        detect_reads_bytes [OF approve_guard_contract from_hex_to_hex to_hex_no_plus] by (simp add: approve_max_tx_def)
    then have "detect_approval ?E ''eth_sendTransaction'' (Some (Array [approve_max_tx])) = Some ?d" unfolding approve_max_card .
    then show ?thesis by (rule that) (simp_all add: amount_approval_def)
  qed
  have p: "te_parse (ge_typed ?E) s = Inr (Array [approve_max_tx])" for s by (simp add: approve_guard_env_def)
  have e: "init_editor ?E d = AmountEditor ModeRequested []" using d by (simp add: init_editor_def requested_finite_def)
  show "gm_batch approve_model = None" "gm_params approve_model = Some (Array [approve_max_tx])"
    "gm_method approve_model = ''eth_sendTransaction''"
    using d by (simp_all add: approve_model_def approve_asked_def guard_start_def Let_def p start_single_def)
  show "\<exists>d. gm_detected approve_model = Some d \<and> da_is_unbounded d \<and> \<not> da_is_boolean_grant d \<and> da_editable d
     \<and> gm_editor approve_model = AmountEditor ModeRequested [] \<and> da_locus d = CalldataWord 1 \<and> da_kind d = Erc20Approve"
    using d e by (simp add: approve_model_def approve_asked_def guard_start_def Let_def p start_single_def)
qed

theorem consent_is_shown_witness:
  "gv_unlimited_consented (guard_view_of approve_guard_env approve_model)
   \<and> gv_unlimited_warning (guard_view_of approve_guard_env approve_model)"
proof -
  obtain d where d: "gm_detected approve_model = Some d" "da_is_unbounded d" "\<not> da_is_boolean_grant d"
    "gm_editor approve_model = AmountEditor ModeRequested []" using approve_model_facts(4) by blast
  have "gv_unlimited_consented (guard_view_of approve_guard_env approve_model)"
    using d approve_model_facts(1) by (simp add: guard_view_of_def single_guard_view_def Let_def amount_choice_def)
  with consent_is_shown [OF approve_model_reachable this] show ?thesis by blast
qed

definition revoked_model :: guard_model where
  "revoked_model = snd (guard_update approve_guard_env approve_model (PresetSelected ModeRevoke))"

theorem rewritten_request_passes_witness:
  "\<exists>kvs out. enforce_no_unlimited approve_guard_env ''eth_sendTransaction''
     (Some (Array [Object (insert_key ''data'' (String out) kvs)])) = Inr ()
   \<and> gv_rewritten_params_json (guard_view_of approve_guard_env revoked_model)
     = Some (te_print (ge_typed approve_guard_env) (Array [Object (insert_key ''data'' (String out) kvs)]))"
proof -
  let ?E = approve_guard_env and ?t = "to_hex APPROVE_MAX True"
  obtain d where d: "gm_detected approve_model = Some d" "da_is_unbounded d" "\<not> da_is_boolean_grant d" "da_editable d"
    "gm_editor approve_model = AmountEditor ModeRequested []" "da_locus d = CalldataWord 1" "da_kind d = Erc20Approve"
    using approve_model_facts(4) by blast
  have reach: "reachable (guard_update ?E) guard_init revoked_model"
    unfolding revoked_model_def by (rule reachable_step [OF approve_model_reachable])
  have r: "revoked_model = approve_model\<lparr>gm_editor := AmountEditor ModeRevoke []\<rparr>"
    using d by (simp add: revoked_model_def on_editor_def revoke_offered_def)
  obtain out where out: "rewrite_calldata ?E ?t d Revoke = Inr out" using approve_max_revokes [OF approve_guard_contract d(6,7)] by blast
  have tx: "get approve_max_tx ''data'' = Some (String ?t)" "as_object approve_max_tx = Some [(''data'', String ?t)]"
    by (simp_all add: approve_max_tx_def)
  have view: "gv_rewritten_params_json (guard_view_of ?E revoked_model)
      = Some (te_print (ge_typed ?E) (Array [Object (insert_key ''data'' (String out) [(''data'', String ?t)])]))"
    using d(1,4) approve_model_facts(1-3) tx out
    by (simp add: r guard_view_of_def single_guard_view_def Let_def amount_choice_def single_rewrite_def rewrite_approval_params_def)
  have m: "gm_batch revoked_model = None" "gm_params revoked_model = Some (Array [approve_max_tx])"
    "gm_method revoked_model = ''eth_sendTransaction''" using approve_model_facts(1-3) by (simp_all add: r)
  from rewritten_request_passes [OF approve_guard_contract reach m(1,2) tx(1) from_hex_to_hex to_hex_no_plus view]
  obtain kvs out' where w: "te_print (ge_typed ?E) (Array [Object (insert_key ''data'' (String out) [(''data'', String ?t)])])
      = te_print (ge_typed ?E) (Array [Object (insert_key ''data'' (String out') kvs)])"
    "enforce_no_unlimited ?E (gm_method revoked_model) (Some (Array [Object (insert_key ''data'' (String out') kvs)])) = Inr ()"
    by blast
  have "enforce_no_unlimited ?E ''eth_sendTransaction'' (Some (Array [Object (insert_key ''data'' (String out') kvs)])) = Inr ()"
    using w(2) unfolding m(3) .
  then show ?thesis using view unfolding w(1) by blast
qed

definition FOR_ALL :: bytes where
  "FOR_ALL = sel_for_all @ replicate 32 0x11 @ be_of_nat 32 1"

definition for_all_tx :: json where
  "for_all_tx = Object [(''data'', String (to_hex FOR_ALL True))]"

definition for_all_env :: "json guard_env" where
  "for_all_env = example_guard_env\<lparr>ge_typed := example_typed_env\<lparr>te_parse := (\<lambda>s. Inr (Array [for_all_tx]))\<rparr>\<rparr>"

theorem grant_needs_tap_witness:
  "\<exists>m. guard_run for_all_env [GrantDeliberatelyChosen, approve_asked] m
     \<and> (\<exists>ev. gv_editor (guard_view_of for_all_env m) = Some ev \<and> ev_choice ev = Some Grant)
     \<and> GrantDeliberatelyChosen \<in> set (since [GrantDeliberatelyChosen, approve_asked])"
proof -
  let ?E = for_all_env
  have contract: "guard_contract ?E" using example_guard_contract by (simp add: for_all_env_def guard_contract_def)
  have t: "take 4 FOR_ALL = sel_for_all" by (simp add: FOR_ALL_def sel_for_all_def)
  have "drop (4 + 32 * 1) FOR_ALL = be_of_nat 32 1" by (simp add: FOR_ALL_def sel_for_all_def)
  then have a: "argument FOR_ALL 1 = 1" unfolding argument_def
    by (simp only: take_append_exact length_be_of_nat) (rule nat_of_be_be_of_nat_id, simp)
  have "detect_approval ?E ''eth_sendTransaction'' (Some (Array [for_all_tx])) = detected_bytes ?E None FOR_ALL"
    using detect_send [of for_all_tx "to_hex FOR_ALL True" ?E "[]"]
      detect_reads_bytes [OF contract from_hex_to_hex to_hex_no_plus] by (simp add: for_all_tx_def)
  also have "\<exists>d. detected_bytes ?E None FOR_ALL = Some d \<and> da_is_unbounded d \<and> da_is_boolean_grant d
      \<and> \<not> typed_locus (da_locus d) \<and> da_token_address d = None"
    unfolding detected_bytes_def Let_def t a using selectors_distinct by auto
  finally obtain d where d: "detect_approval ?E ''eth_sendTransaction'' (Some (Array [for_all_tx])) = Some d"
    "da_is_unbounded d" "da_is_boolean_grant d" "\<not> typed_locus (da_locus d)" "da_token_address d = None" by blast
  have p: "te_parse (ge_typed ?E) s = Inr (Array [for_all_tx])" for s by (simp add: for_all_env_def)
  define m1 where "m1 = snd (guard_update ?E guard_init approve_asked)"
  define m2 where "m2 = snd (guard_update ?E m1 GrantDeliberatelyChosen)"
  have m1: "gm_batch m1 = None" "gm_detected m1 = Some d" "gm_editor m1 = BooleanEditor None"
    using d by (simp_all add: m1_def approve_asked_def guard_start_def Let_def p start_single_def init_editor_def)
  have m2: "gm_batch m2 = None" "gm_detected m2 = Some d" "gm_editor m2 = BooleanEditor (Some PickGrant)"
    using m1 by (simp_all add: m2_def on_editor_def)
  have run: "guard_run ?E [GrantDeliberatelyChosen, approve_asked] m2"
    unfolding m2_def m1_def by (rule guard_run_step [OF guard_run_step [OF guard_run_start]]; rule surjective_pairing)
  obtain ev where ev: "gv_editor (guard_view_of ?E m2) = Some ev" "ev_choice ev = Some Grant"
    using m2 by (simp add: guard_view_of_def single_guard_view_def Let_def)
  from grant_needs_tap [OF run] ev have "GrantDeliberatelyChosen \<in> set (since [GrantDeliberatelyChosen, approve_asked])" by blast
  with run ev show ?thesis by blast
qed

section \<open>The text of an amount\<close>

definition dec_val :: "string \<Rightarrow> nat" where
  "dec_val s = digits_value 10 (the (parse_digits 10 s))"

lemma parse_digits_append: "parse_digits r (s @ t) = (case (parse_digits r s, parse_digits r t) of
    (Some a, Some b) \<Rightarrow> Some (a @ b) | _ \<Rightarrow> None)"
  by (induction s) (auto split: option.splits)

lemma digits_value_append: "digits_value r (as @ bs) = digits_value r as * r ^ length bs + digits_value r bs"
  by (induction bs rule: rev_induct) (simp_all add: algebra_simps flip: append_assoc)

lemma digits_parse: "list_all is_ascii_digit s \<Longrightarrow> \<exists>ds. parse_digits 10 s = Some ds"
  using parse_digits_None [of 10 s] by (auto simp: list_all_iff is_ascii_digit_def)

lemma dec_val_append:
  assumes "list_all is_ascii_digit s" and "list_all is_ascii_digit t"
  shows "dec_val (s @ t) = dec_val s * 10 ^ length t + dec_val t"
proof -
  obtain as bs where "parse_digits 10 s = Some as" "parse_digits 10 t = Some bs" using assms digits_parse by blast
  then show ?thesis using parse_digits_length [of 10 t bs] by (simp add: dec_val_def parse_digits_append digits_value_append)
qed

lemma dec_val_bound: "list_all is_ascii_digit s \<Longrightarrow> dec_val s < 10 ^ length s"
  using digits_parse [of s] digits_value_bound parse_digits_lt parse_digits_length unfolding dec_val_def
  by (metis option.sel)

lemma dec_val_zeros: "dec_val (replicate k (CHR ''0'')) = 0" "list_all is_ascii_digit (replicate k (CHR ''0''))"
proof -
  show d: "list_all is_ascii_digit (replicate k (CHR ''0''))" for k
    by (simp add: list_all_iff is_ascii_digit_def is_digit_def to_digit_def)
  show "dec_val (replicate k (CHR ''0'')) = 0"
  proof (induction k)
    case (Suc k)
    have "dec_val ([CHR ''0''] @ replicate k (CHR ''0'')) = 0"
      using dec_val_append [OF d [of 1] d [of k]] Suc by (simp add: dec_val_def to_digit_def digits_value_def)
    then show ?case by simp
  qed (simp add: dec_val_def)
qed

lemma dec_val_show: "dec_val (show_nat n) = n"
proof -
  have "parse_digits 10 (show_nat n) = Some (if n = 0 then [0] else digits_of 10 n)"
    unfolding show_nat_def by (subst show_radix_eq) (auto intro!: parse_digits_map_hex_digit dest: digits_of_lt)
  then show ?thesis by (simp add: dec_val_def digits_value_digits_of) (simp add: digits_value_def)
qed

lemma saturating_digits:
  assumes "guard_contract E" and "list_all is_ascii_digit s" and "s \<noteq> []" and "dec_val s < 2 ^ 256"
  shows "parse_dec_saturating E s = dec_val s"
proof -
  obtain ds where ds: "parse_digits 10 s = Some ds" using assms(2) digits_parse by blast
  obtain c r where s: "s = c # r" using assms(3) by (cases s) auto
  then have "is_digit 10 c" using assms(2) by (simp add: is_ascii_digit_def)
  then have "c \<noteq> CHR ''+''" by (auto simp: is_digit_def to_digit_def Let_def)
  then have "from_str_radix 256 10 s = Some (dec_val s)"
    using ds assms(4) s by (simp add: from_str_radix_def dec_val_def Let_def)
  moreover have "list_all (is_digit 10) s" using assms(2) by (simp add: is_ascii_digit_def [abs_def])
  ultimately show ?thesis using guard_contractD(1) [OF assms(1), of 10 s] assms(3) by (simp add: parse_dec_saturating_def)
qed

lemma split_once_none: "c \<notin> set s \<Longrightarrow> split_once s [c] = None"
  by (induction s) (auto simp: starts_with_def)

lemma split_once_first: "c \<notin> set a \<Longrightarrow> split_once (a @ c # b) [c] = Some (a, b)"
  by (induction a) (auto simp: starts_with_def)

lemma digit_printable: "is_ascii_digit c \<Longrightarrow> printable c \<and> c \<noteq> CHR ''.'' \<and> c \<noteq> CHR '',''"
  by (auto simp: is_ascii_digit_def is_digit_def to_digit_def printable_def Let_def split: if_splits)

lemma digits_no_dot: "list_all is_ascii_digit s \<Longrightarrow> CHR ''.'' \<notin> set s \<and> CHR '','' \<notin> set s"
  using digit_printable by (auto simp: list_all_iff)

text \<open>Reading digits, a point, digits.\<close>

lemma parse_plain:
  assumes "guard_contract E" and "list_all is_ascii_digit whole" and "whole \<noteq> []" and "list_all is_ascii_digit frac"
    and "length frac \<le> d" and "10 ^ d \<le> U256_MAX"
    and "dec_val whole * 10 ^ d + dec_val frac * 10 ^ (d - length frac) < 2 ^ 256"
    and "text = whole @ (if frac = [] then [] else CHR ''.'' # frac)"
  shows "parse_token_amount E text d = Some (dec_val whole * 10 ^ d + dec_val frac * 10 ^ (d - length frac))"
proof -
  note nw = digits_no_dot [OF assms(2)] and nf = digits_no_dot [OF assms(4)]
  have f: "filter (\<lambda>c. c \<noteq> CHR '','') text = text" proof -
    have "\<forall>c\<in>set text. c \<noteq> CHR '',''" using nw nf by (auto simp: assms(8))
    then show ?thesis by simp
  qed
  have "printable (hd text)" using assms(2,3) digit_printable by (cases whole) (auto simp: assms(8))
  moreover have "printable (last text)" using assms(2-4) digit_printable by (auto simp: assms(8) list_all_iff)
  ultimately have t: "trim text = text" by (intro trim_id) blast
  have ok: "list_all (\<lambda>b. is_ascii_digit b \<or> b = CHR ''.'') text" using assms(2,4) by (auto simp: assms(8) list_all_iff)
  have dots: "filter (\<lambda>b. b = CHR ''.'') whole = []" "filter (\<lambda>b. b = CHR ''.'') frac = []"
    using nw nf by (auto simp: filter_empty_conv)
  have one: "\<not> 1 < length (filter (\<lambda>b. b = CHR ''.'') text)" by (simp add: assms(8) dots)
  have sp: "unwrap_or (split_once text ''.'') (text, []) = (whole, frac)"
    using split_once_first [of "CHR ''.''" whole frac] split_once_none [of "CHR ''.''" whole] nw by (simp add: assms(8))
  let ?pad = "frac @ replicate (d - length frac) (CHR ''0'')"
  have pd: "list_all is_ascii_digit ?pad" using assms(4) dec_val_zeros(2) by simp
  have pv: "dec_val ?pad = dec_val frac * 10 ^ (d - length frac)"
    using dec_val_append [OF assms(4) dec_val_zeros(2)] dec_val_zeros(1) by simp
  have w: "dec_val whole < 2 ^ 256"
  proof -
    have "dec_val whole * 1 \<le> dec_val whole * 10 ^ d" by (intro mult_le_mono2) simp
    with assms(7) show ?thesis by linarith
  qed
  have whole: "parse_dec_saturating E (if whole = [] then ''0'' else whole) = dec_val whole"
    using saturating_digits [OF assms(1,2,3) w] assms(3) by simp
  have frac: "parse_dec_saturating E (if ?pad = [] then ''0'' else ?pad) = dec_val frac * 10 ^ (d - length frac)"
  proof (cases "?pad = []")
    case True
    have "list_all is_ascii_digit ''0''" using dec_val_zeros(2) [of 1] by simp
    moreover have "dec_val ''0'' = 0" using dec_val_zeros(1) [of 1] by simp
    ultimately have "parse_dec_saturating E ''0'' = 0" using saturating_digits [OF assms(1), of "''0''"] by simp
    moreover have "frac = []" "d = 0" using True by auto
    ultimately show ?thesis using pv by (simp add: dec_val_def)
  next
    case False
    have "dec_val ?pad < 2 ^ 256" unfolding pv using assms(7) by linarith
    from saturating_digits [OF assms(1) pd False this] show ?thesis unfolding if_not_P [OF False] pv .
  qed
  have c: "checked (10 ^ d) = Some (10 ^ d)" using assms(6) by (simp only: checked_def if_True)
  have "dec_val whole * 10 ^ d \<le> U256_MAX" using assms(7) by (simp add: U256_MAX_def)
  then have c1: "checked (dec_val whole * 10 ^ d) = Some (dec_val whole * 10 ^ d)" by (simp only: checked_def if_True)
  have "dec_val whole * 10 ^ d + dec_val frac * 10 ^ (d - length frac) \<le> U256_MAX" using assms(7) by (simp add: U256_MAX_def)
  then have c2: "checked (dec_val whole * 10 ^ d + dec_val frac * 10 ^ (d - length frac))
      = Some (dec_val whole * 10 ^ d + dec_val frac * 10 ^ (d - length frac))" by (simp only: checked_def if_True)
  have "text \<noteq> []" using assms(3,8) by simp
  moreover have "\<not> d < length frac" using assms(5) by simp
  ultimately show ?thesis
    unfolding parse_token_amount_def Let_def f t sp prod.case whole frac c unwrap_or_simps c1 c2
    using ok one by (simp only: if_False if_True not_True_eq_False)
qed

lemma insert_every_nothing: "insert_every [] s step = s"
proof -
  have "map (\<lambda>(i, c). [c]) (enumerate k s) = map (\<lambda>c. [c]) s" for k by (induction s arbitrary: k) simp_all
  then show ?thesis by (simp add: insert_every_def)
qed

lemma group_nothing: "group_thousands s [] False = s"
  by (simp add: group_thousands_def insert_every_nothing)

lemma trim_end_zeros: "\<exists>j. s = trim_end_char (CHR ''0'') s @ replicate j (CHR ''0'')"
proof (induction s rule: rev_induct)
  case Nil
  then show ?case by (simp add: trim_end_char_def)
next
  case (snoc c s)
  show ?case
  proof (cases "c = CHR ''0''")
    case True
    then have "trim_end_char (CHR ''0'') (s @ [c]) = trim_end_char (CHR ''0'') s" by (simp add: trim_end_char_def)
    moreover obtain j where "s = trim_end_char (CHR ''0'') s @ replicate j (CHR ''0'')" using snoc by blast
    ultimately have "s @ [c] = trim_end_char (CHR ''0'') (s @ [c]) @ replicate (Suc j) (CHR ''0'')"
      using True by (metis append.assoc replicate_append_same replicate_Suc)
    then show ?thesis by blast
  next
    case False
    then have "s @ [c] = trim_end_char (CHR ''0'') (s @ [c]) @ replicate 0 (CHR ''0'')" by (simp add: trim_end_char_def)
    then show ?thesis by blast
  qed
qed

lemma format_parts:
  assumes "guard_contract E" and "n < 2 ^ 256" and "d \<noteq> 0"
  obtains whole frac where "list_all is_ascii_digit whole" "whole \<noteq> []" "list_all is_ascii_digit frac" "length frac = d"
    and "n = dec_val whole * 10 ^ d + dec_val frac"
    and "format_token_amount E n d max_frac [] ''.'' False =
        (if list_all (\<lambda>b. b = CHR ''0'') frac then whole
         else let t = trim_end_char (CHR ''0'') (take max_frac frac) in if t = [] then whole else whole @ ''.'' @ t)"
proof -
  let ?s = "show_nat n"
  have digits: "list_all is_ascii_digit ?s" using show_nat_digits by (simp add: list_all_iff)
  define whole where "whole = (if d < length ?s then take (length ?s - d) ?s else ''0'')"
  define frac where "frac = (if d < length ?s then drop (length ?s - d) ?s else replicate (d - length ?s) (CHR ''0'') @ ?s)"
  have z: "list_all is_ascii_digit ''0''" using dec_val_zeros(2) [of 1] by simp
  have wd: "list_all is_ascii_digit whole" "list_all is_ascii_digit frac"
    using digits z dec_val_zeros(2) by (auto simp: whole_def frac_def list_all_iff dest: in_set_takeD in_set_dropD)
  have ne: "whole \<noteq> []" "length frac = d" using show_nat_nonempty [of n] by (auto simp: whole_def frac_def)
  have "n = dec_val whole * 10 ^ d + dec_val frac"
  proof (cases "d < length ?s")
    case True
    then have "whole @ frac = ?s" by (simp add: whole_def frac_def)
    then show ?thesis using dec_val_append [OF wd] ne(2) dec_val_show [of n] by simp
  next
    case long: False
    have "dec_val ''0'' = 0" using dec_val_zeros(1) [of 1] by simp
    then show ?thesis using long dec_val_append [OF dec_val_zeros(2) digits] dec_val_zeros(1)
      by (simp add: whole_def frac_def dec_val_show)
  qed
  moreover have "format_token_amount E n d max_frac [] ''.'' False =
      (if list_all (\<lambda>b. b = CHR ''0'') frac then whole
       else let t = trim_end_char (CHR ''0'') (take max_frac frac) in if t = [] then whole else whole @ ''.'' @ t)"
    using assms(3) by (simp add: format_token_amount_def Let_def guard_contractD(2) [OF assms(1,2)] group_nothing whole_def frac_def)
  ultimately show ?thesis using that wd ne by blast
qed

text \<open>The digits kept of a fraction, trimmed: what they are worth, and how many there are.\<close>

lemma kept_digits:
  fixes max_frac :: nat
  assumes "list_all is_ascii_digit frac" and "length frac = d"
  defines "t \<equiv> trim_end_char (CHR ''0'') (take max_frac frac)"
  shows "list_all is_ascii_digit t" and "length t \<le> d"
    and "dec_val t * 10 ^ (d - length t) = dec_val (take max_frac frac) * 10 ^ (d - max_frac)"
    and "list_all (\<lambda>b. b = CHR ''0'') frac \<or> t = [] \<Longrightarrow> dec_val (take max_frac frac) = 0"
    and "dec_val frac = dec_val (take max_frac frac) * 10 ^ (d - max_frac) + dec_val (drop max_frac frac)"
    and "dec_val (drop max_frac frac) < 10 ^ (d - max_frac)"
proof -
  define kept where "kept = take max_frac frac"
  obtain j where j: "kept = t @ replicate j (CHR ''0'')" using trim_end_zeros unfolding kept_def t_def by blast
  have kd: "list_all is_ascii_digit kept" "list_all is_ascii_digit (drop max_frac frac)"
    using assms(1) by (auto simp: kept_def list_all_iff dest: in_set_takeD in_set_dropD)
  show td: "list_all is_ascii_digit t" using kd(1) by (simp add: j)
  have kv: "dec_val kept = dec_val t * 10 ^ j" using dec_val_append [OF td dec_val_zeros(2), of j] dec_val_zeros(1) by (simp add: j)
  have len: "length (drop max_frac frac) = d - max_frac" "d - length t = j + (d - max_frac)" "length t \<le> d"
    using assms(2) arg_cong [OF j, of length] by (auto simp: kept_def min_def split: if_splits)
  show "length t \<le> d" by (rule len(3))
  show "dec_val t * 10 ^ (d - length t) = dec_val (take max_frac frac) * 10 ^ (d - max_frac)"
    using kv len(2) by (simp add: power_add kept_def)
  show "dec_val frac = dec_val (take max_frac frac) * 10 ^ (d - max_frac) + dec_val (drop max_frac frac)"
    using dec_val_append [OF kd] len(1) by (simp add: kept_def)
  show "dec_val (drop max_frac frac) < 10 ^ (d - max_frac)" using dec_val_bound [OF kd(2)] len(1) by simp
  assume zero: "list_all (\<lambda>b. b = CHR ''0'') frac \<or> t = []"
  have "\<exists>k. kept = replicate k (CHR ''0'')"
  proof (cases "t = []")
    case True
    with j show ?thesis by auto
  next
    case False
    then have "\<forall>b\<in>set kept. b = CHR ''0''" using zero by (auto simp: kept_def list_all_iff dest: in_set_takeD)
    then show ?thesis by (metis replicate_length_same)
  qed
  then show "dec_val (take max_frac frac) = 0" using dec_val_zeros(1) by (auto simp: kept_def)
qed

lemma ten_power_fits: "d \<le> 77 \<Longrightarrow> (10 :: nat) ^ d \<le> U256_MAX"
proof -
  assume "d \<le> 77"
  then have "(10 :: nat) ^ d \<le> 10 ^ 77" by (intro power_increasing) simp_all
  then show ?thesis by (simp add: U256_MAX_def)
qed



end
