(* ===== verification/Spec2Isabelle.thy ===== *)
theory Spec2Isabelle
  imports TxRequest SelfCallGuard CableSession ApduCable CtapCeremony SignerCeremony UserOp DappPermissions ApprovalEditor
begin

text \<open>
  A verification library of \<open>vela-core\<close> (\<open>src/rust/crates/vela-core/src\<close>), the core of the Vela wallet:
  a Safe account owned by passkeys, driven by the same Rust code on every platform. The core computes and
  decides, the shells (desktop, mobile, web) do the input and output; what is modelled is what decides
  whether a signature is asked for, over which bytes, with which key, and for whom.

  \<^bold>\<open>The path of a request.\<close> A page sends a request to the wallet; its origin and its method decide who
  answers it (\<open>Origins\<close>, \<open>DappRpc\<close>). A transaction is read once and rewritten to one spelling
  (\<open>TxRequest\<close>), a typed-data document is read once and normalised (\<open>TypedData\<close>), and a call that would
  change who controls the account is refused (\<open>SelfCallGuard\<close>). What remains becomes a user operation of the
  account (\<open>UserOp\<close>) whose address follows from its founding keys (\<open>Safe\<close>). The digest is signed where the
  account signs (\<open>Accounts\<close>, \<open>SigningVenue\<close>): by a security key over USB or a smart-card reader
  (\<open>HidFraming\<close>, \<open>HidCable\<close>, \<open>ApduCable\<close>, \<open>CtapCommands\<close>, \<open>PinUv\<close>, \<open>Cables\<close>, \<open>CtapCeremony\<close>), by a phone
  (\<open>CableCodecs\<close>, \<open>Noise\<close>, \<open>CableSession\<close>), or on the signing page in a browser (\<open>PageIntegrity\<close>,
  \<open>TrustedSigner\<close>, \<open>WsServer\<close>, \<open>SignerCeremony\<close>); \<open>WebAuthn\<close> reads what an authenticator answers.

  \<^bold>\<open>Theories and sources.\<close>

  \<^item> \<open>Prelude\<close>, \<open>Interfaces\<close>, \<open>Text\<close>, \<open>Utf8\<close>, \<open>Json\<close>: machine types, panics as options, the interfaces as
    locales (codecs, stream decoders, event machines with invariants), Rust's \<open>str\<close> and integer parsing on
    UTF-8 bytes, and the value type of \<open>serde_json\<close>.
  \<^item> \<open>Primitives\<close>: \<open>primitives.rs\<close>, \<open>error.rs\<close>. \<open>TxRequest\<close>: \<open>tx_request.rs\<close>. \<open>SelfCallGuard\<close>:
    \<open>app/self_call_guard.rs\<close>. \<open>TypedData\<close>: \<open>typed_data_request.rs\<close>, \<open>eip712.rs\<close>, \<open>sign_message.rs\<close>.
  \<^item> \<open>Origins\<close> and \<open>DappRpc\<close>: the pure policy of \<open>app/dapp_permissions.rs\<close> and \<open>app/dapp_rpc.rs\<close>.
  \<^item> \<open>Safe\<close>: \<open>safe.rs\<close> (set-up data, founding address, signer contracts, splitter). \<open>UserOp\<close>: \<open>user_op.rs\<close>
    (calldata, init code, hashes, contract signature, gas limits, the wire form).
  \<^item> \<open>HidFraming\<close>: \<open>ctap/hid.rs\<close>. \<open>HidCable\<close>: \<open>ctap/hid_cable.rs\<close>. \<open>ApduCable\<close>: \<open>ctap/apdu_cable.rs\<close>.
    \<open>PinUv\<close>: \<open>ctap/pin_uv.rs\<close>. \<open>CtapCommands\<close>: \<open>ctap/commands.rs\<close>. \<open>Cables\<close> and \<open>CtapCeremony\<close>:
    \<open>ctap/ceremony.rs\<close>.
  \<^item> \<open>CableCodecs\<close>: \<open>cable/base10.rs\<close>, \<open>cable/qr.rs\<close>, \<open>cable/tunnel_domain.rs\<close>. \<open>Noise\<close>: \<open>cable/noise.rs\<close>.
    \<open>CableSession\<close>: \<open>cable/crypto.rs\<close>, \<open>cable/conn.rs\<close>, \<open>cable/session.rs\<close>. \<open>WebAuthn\<close>: \<open>webauthn.rs\<close>.
  \<^item> \<open>TrustedSigner\<close>: \<open>trusted_signer.rs\<close>. \<open>WsServer\<close>: \<open>trusted_signer/ws.rs\<close>. \<open>PageIntegrity\<close>:
    \<open>trusted_signer/integrity.rs\<close>, \<open>trusted_signer/launch.rs\<close>. \<open>SignerCeremony\<close>:
    \<open>trusted_signer/ceremony.rs\<close>. \<open>SigningVenue\<close>: \<open>signing_venue.rs\<close>, \<open>passkey.rs\<close>. \<open>Accounts\<close>: the
    account record of \<open>app/mod.rs\<close>.

  A Rust struct is a record whose fields carry a short prefix, an enum a datatype, a function a definition
  of its name (suffixed where HOL has the name), a handler a function from the state to its answer and the
  next state. Text is its UTF-8 bytes; integers that can wrap are words, lengths are naturals; an error is
  the left side of a sum, a panic is \<open>None\<close>.

  \<^bold>\<open>Parameters.\<close> Code of other crates is an argument: the hash functions, the ciphers, key agreement and the
  curve, the CBOR, COSE, base64 and JSON codecs, the ABI types of \<open>alloy\<close>, and the ports the shells
  provide. What is relied on is a named contract (\<open>chain_contract\<close>, \<open>u256_contract\<close>, \<open>json_text\<close> and
  others), each with a concrete instance a witness uses. Nothing is assumed to be free of collisions: the
  theorems about what a hash commits to end in "or these two texts collide". That printed JSON reads back
  is a hypothesis about the one document at hand, since \<open>serde_json\<close> may round a float.

  \<^bold>\<open>Loops.\<close> A loop over data is structural or has a measure. The loops that wait for a device or for a
  random draw are partial functions in the option monad (\<open>draw_scalar\<close>, \<open>pin_loop\<close>, \<open>read_loop\<close>,
  \<open>apdu_loop\<close>), so that not returning is a value, and returning is proved from what the port does. The walk
  through nested types of a typed-data document ends by the depth the code itself bounds.

  \<^bold>\<open>What the lemmas show.\<close> Codecs: what is written is read back, and what is accepted is what is written.
  Machines (reassembler, socket, sessions): an invariant each handler keeps, and what every answer implies
  by it. Guards: soundness against a reference that follows the definition of the danger instead of the
  code. Hashes and addresses: what they commit to. Requests: one reading, and the same reading again later.
  Where the code and its comment differ the difference is stated as a lemma.

  \<^bold>\<open>Not modelled.\<close> The screens' machines (sending, swapping, balances, activity, sign-in), clear signing and
  its catalogue, the registry's encodings, the translations and the number formats, identicons (floating
  point), and the shells themselves, which draw and talk to the network; the JavaScript the wallet injects.
\<close>

end
